(* ===== verification/Bpf_Prelude.thy ===== *)
theory Bpf_Prelude
  imports Main "HOL-Library.Word"
begin

text \<open>
  Shared vocabulary of the development: bytes, pointers, return codes, the C integer
  wrap-around, little-endian loads and stores, and blocks of a byte buffer.

  \<^item> A pointer argument (\<open>const void *\<close>) is a \<open>bytes option\<close>: \<open>None\<close> is
    \<open>nullptr\<close>, \<open>Some bs\<close> a pointer from which the bytes \<open>bs\<close> are readable.
  \<^item> An output buffer (\<open>void *value\<close>) is a \<open>nat option\<close>: \<open>None\<close> is \<open>nullptr\<close>,
    \<open>Some n\<close> a buffer of \<open>n\<close> writable bytes.
  \<^item> A result is \<open>fault + 'a\<close>. A read or a write outside the bytes of an object, and a
    dereference of a null pointer, is the fault \<open>UB\<close>: the source has no check there.
\<close>

named_theorems blk_simps \<open>reads after writes on byte buffers\<close>
named_theorems pre_defs \<open>definitions of the checked loads and stores\<close>

type_synonym byte = "8 word"
type_synonym bytes = "byte list"
type_synonym ptr = "bytes option"
type_synonym outbuf = "nat option"

datatype errno =
    EPERM | ENOENT | EINTR | E2BIG | EBADF | ENOMEM | EFAULT | EEXIST | EINVAL | ENOSPC | ENOTSUP

text \<open>The values of \<open>errno.h\<close> on Linux, where \<open>EOPNOTSUPP\<close> is \<open>ENOTSUP\<close>.\<close>

fun errno_code :: "errno \<Rightarrow> int" where
  "errno_code EPERM = 1"
| "errno_code ENOENT = 2"
| "errno_code EINTR = 4"
| "errno_code E2BIG = 7"
| "errno_code EBADF = 9"
| "errno_code ENOMEM = 12"
| "errno_code EFAULT = 14"
| "errno_code EEXIST = 17"
| "errno_code EINVAL = 22"
| "errno_code ENOSPC = 28"
| "errno_code ENOTSUP = 95"

abbreviation EOPNOTSUPP :: errno where
  "EOPNOTSUPP \<equiv> ENOTSUP"

text \<open>
  How a call of the runtime fails: \<open>Errno e\<close> returns -1 (or a null pointer) with
  \<open>errno = e\<close>; \<open>NegErrno e\<close> returns the negative code itself and leaves \<open>errno\<close>
  alone; \<open>MinusOne\<close> returns -1 (or a null pointer) without setting \<open>errno\<close>;
  \<open>Throw\<close> raises a C++ exception; \<open>UB\<close> is an access outside an object.
\<close>

datatype fault = Errno errno | NegErrno errno | MinusOne | Throw | UB

type_synonym 'a res = "fault + 'a"

definition and_then :: "'a res \<Rightarrow> ('a \<Rightarrow> 'b res) \<Rightarrow> 'b res" where
  "and_then r f = (case r of Inl e \<Rightarrow> Inl e | Inr x \<Rightarrow> f x)"

definition ret_code :: "unit res \<Rightarrow> int option" where
  "ret_code r = (case r of
       Inr _ \<Rightarrow> Some 0
     | Inl (Errno _) \<Rightarrow> Some (-1)
     | Inl MinusOne \<Rightarrow> Some (-1)
     | Inl (NegErrno e) \<Rightarrow> Some (- errno_code e)
     | Inl Throw \<Rightarrow> None
     | Inl UB \<Rightarrow> None)"

text \<open>Flags of \<open>linux/bpf.h\<close>.\<close>

abbreviation (input) BPF_ANY :: nat where "BPF_ANY \<equiv> 0"
abbreviation (input) BPF_NOEXIST :: nat where "BPF_NOEXIST \<equiv> 1"
abbreviation (input) BPF_EXIST :: nat where "BPF_EXIST \<equiv> 2"

text \<open>Unsigned arithmetic at 32 and 64 bits, with the wrap-around written out.\<close>

definition w32 :: "nat \<Rightarrow> nat" where
  "w32 n = n mod 2 ^ 32"

definition w64 :: "nat \<Rightarrow> nat" where
  "w64 n = n mod 2 ^ 64"

text \<open>\<open>x--\<close> on an \<open>unsigned int\<close>.\<close>

definition dec32 :: "nat \<Rightarrow> nat" where
  "dec32 n = w32 (n + (2 ^ 32 - 1))"

text \<open>Little-endian loads and stores (the runtime supports x86-64 and AArch64 only).\<close>

fun le_nat :: "bytes \<Rightarrow> nat" where
  "le_nat [] = 0"
| "le_nat (b # bs) = unat b + 256 * le_nat bs"

fun le_bytes :: "nat \<Rightarrow> nat \<Rightarrow> bytes" where
  "le_bytes 0 x = []"
| "le_bytes (Suc n) x = word_of_nat x # le_bytes n (x div 256)"

text \<open>A read of \<open>n\<close> bytes through a pointer.\<close>

definition rd :: "ptr \<Rightarrow> nat \<Rightarrow> bytes res" where
  "rd p n = (case p of
       None \<Rightarrow> Inl UB
     | Some bs \<Rightarrow> (if n \<le> length bs then Inr (take n bs) else Inl UB))"

text \<open>\<open>*(uint32_t *)p\<close>.\<close>

definition rd_u32 :: "ptr \<Rightarrow> nat res" where
  "rd_u32 p = (case rd p 4 of Inl f \<Rightarrow> Inl f | Inr bs \<Rightarrow> Inr (le_nat bs))"

text \<open>\<open>*(int32_t *)p\<close>, two's complement.\<close>

definition s32 :: "nat \<Rightarrow> int" where
  "s32 n = (if n < 2 ^ 31 then int n else int n - 2 ^ 32)"

definition rd_s32 :: "ptr \<Rightarrow> int res" where
  "rd_s32 p = (case rd_u32 p of Inl f \<Rightarrow> Inl f | Inr n \<Rightarrow> Inr (s32 n))"

text \<open>Blocks of a byte buffer, and the checked copy out of and into one.\<close>

definition blk_get :: "nat \<Rightarrow> nat \<Rightarrow> 'a list \<Rightarrow> 'a list" where
  "blk_get off n xs = take n (drop off xs)"

definition blk_put :: "nat \<Rightarrow> 'a list \<Rightarrow> 'a list \<Rightarrow> 'a list" where
  "blk_put off ys xs = take off xs @ ys @ drop (off + length ys) xs"

definition load :: "nat \<Rightarrow> nat \<Rightarrow> bytes \<Rightarrow> bytes res" where
  "load off n xs = (if off + n \<le> length xs then Inr (blk_get off n xs) else Inl UB)"

definition store :: "nat \<Rightarrow> bytes \<Rightarrow> bytes \<Rightarrow> bytes res" where
  "store off ys xs =
     (if off + length ys \<le> length xs then Inr (blk_put off ys xs) else Inl UB)"

text \<open>\<open>memcpy(value, src, n)\<close> into an output buffer.\<close>

definition copy_out :: "outbuf \<Rightarrow> bytes res \<Rightarrow> bytes res" where
  "copy_out out r = (case r of
       Inl f \<Rightarrow> Inl f
     | Inr bs \<Rightarrow> (case out of
           None \<Rightarrow> Inl UB
         | Some cap \<Rightarrow> (if length bs \<le> cap then Inr bs else Inl UB)))"

text \<open>A byte vector seen as its consecutive values of \<open>n\<close> bytes.\<close>

definition chunks :: "nat \<Rightarrow> 'a list \<Rightarrow> 'a list list" where
  "chunks n xs = map (\<lambda>i. blk_get (i * n) n xs) [0..<length xs div n]"

lemmas [pre_defs] = rd_def rd_u32_def rd_s32_def load_def store_def copy_out_def

lemma and_then_simps [simp]: "and_then (Inl e) f = Inl e" "and_then (Inr x) f = f x"
  by (simp_all add: and_then_def)

lemma and_then_Inr_iff: "and_then r f = Inr y \<longleftrightarrow> (\<exists>x. r = Inr x \<and> f x = Inr y)"
  by (cases r) simp_all

lemma and_then_assoc: "and_then r (\<lambda>x. and_then (f x) g) = and_then (and_then r f) g"
  by (simp add: and_then_def split: sum.splits)

subsection \<open>Arithmetic\<close>

lemma w32_id [simp]: "n < 2 ^ 32 \<Longrightarrow> w32 n = n"
  by (simp add: w32_def)

lemma w32_less [simp]: "w32 n < 2 ^ 32"
  by (simp add: w32_def)

lemma w64_id [simp]: "n < 2 ^ 64 \<Longrightarrow> w64 n = n"
  by (simp add: w64_def)

lemma dec32_pos: "0 < n \<Longrightarrow> n \<le> 2 ^ 32 \<Longrightarrow> dec32 n = n - 1"
proof -
  assume n: "0 < n" "n \<le> 2 ^ 32"
  then have e: "n + (2 ^ 32 - 1) = (n - 1) + 2 ^ 32" by simp
  have "dec32 n = ((n - 1) + 2 ^ 32) mod 2 ^ 32" unfolding dec32_def w32_def by (simp only: e)
  also have "\<dots> = (n - 1) mod 2 ^ 32" by (rule mod_add_self2)
  also have "\<dots> = n - 1" using n by simp
  finally show ?thesis .
qed

lemma block_end_le: "i < n \<Longrightarrow> i * s + s \<le> n * (s::nat)"
proof -
  assume "i < n"
  then have "Suc i * s \<le> n * s" by (intro mult_le_mono1) simp
  then show ?thesis by simp
qed

lemma blocks_disjoint: "i \<noteq> j \<Longrightarrow> i * s + s \<le> j * s \<or> j * s + s \<le> i * (s::nat)"
  using block_end_le [of i j s] block_end_le [of j i s] by (cases "i < j") auto

subsection \<open>Buffers\<close>

lemma length_blk_get [simp]: "off + n \<le> length xs \<Longrightarrow> length (blk_get off n xs) = n"
  by (simp add: blk_get_def)

lemma length_blk_put [simp, blk_simps]:
  "off + length ys \<le> length xs \<Longrightarrow> length (blk_put off ys xs) = length xs"
  by (simp add: blk_put_def)

lemma blk_get_put_same [blk_simps]:
  "off + length ys \<le> length xs \<Longrightarrow> n = length ys \<Longrightarrow> blk_get off n (blk_put off ys xs) = ys"
  by (simp add: blk_get_def blk_put_def)

lemma blk_get_put_other [blk_simps]:
  assumes "off + length ys \<le> length xs" and "o2 + n \<le> off \<or> off + length ys \<le> o2"
  shows "blk_get o2 n (blk_put off ys xs) = blk_get o2 n xs"
proof (cases "o2 + n \<le> off")
  case True
  then show ?thesis using assms(1) by (simp add: blk_get_def blk_put_def drop_take)
next
  case False
  with assms have le: "off + length ys \<le> o2" by simp
  have "drop o2 (blk_put off ys xs) = drop o2 xs"
    using assms(1) le by (simp add: blk_put_def)
  then show ?thesis by (simp add: blk_get_def)
qed

lemma load_length: "load off n xs = Inr v \<Longrightarrow> length v = n"
  by (auto simp: load_def split: if_splits)

lemma rd_SomeI: "n \<le> length bs \<Longrightarrow> rd (Some bs) n = Inr (take n bs)"
  by (simp add: rd_def)

lemma rd_Inr_iff: "rd p n = Inr v \<longleftrightarrow> (\<exists>bs. p = Some bs \<and> n \<le> length bs \<and> v = take n bs)"
  by (auto simp: rd_def split: option.splits)

lemma length_chunks [simp]: "length (chunks n xs) = length xs div n"
  by (simp add: chunks_def)

lemma nth_chunks: "i < length xs div n \<Longrightarrow> chunks n xs ! i = blk_get (i * n) n xs"
  by (simp add: chunks_def)

lemma chunk_end: "i < length xs div n \<Longrightarrow> i * n + n \<le> length xs"
  using block_end_le [of i "length xs div n" n] div_times_less_eq_dividend [of "length xs" n]
  by linarith

lemma chunks_append:
  assumes "length v = n" and "0 < n" and "n dvd length xs"
  shows "chunks n (xs @ v) = chunks n xs @ [v]"
proof (rule nth_equalityI)
  show "length (chunks n (xs @ v)) = length (chunks n xs @ [v])"
    using assms by simp
  fix i
  assume "i < length (chunks n (xs @ v))"
  then have i: "i < Suc (length xs div n)" using assms by simp
  have e: "length xs div n * n = length xs" using assms(3) by simp
  show "chunks n (xs @ v) ! i = (chunks n xs @ [v]) ! i"
  proof (cases "i < length xs div n")
    case True
    then have "i * n + n \<le> length xs" by (rule chunk_end)
    then show ?thesis
      using True assms by (simp add: nth_chunks nth_append blk_get_def)
  next
    case False
    with i have "i = length xs div n" by simp
    then show ?thesis using e assms by (simp add: nth_chunks nth_append blk_get_def)
  qed
qed

lemma chunks_tl:
  assumes "0 < n"
  shows "chunks n (drop n xs) = tl (chunks n xs)"
proof (cases "n \<le> length xs")
  case True
  then have e: "length xs div n = Suc ((length xs - n) div n)"
    using assms by (simp add: le_div_geq)
  show ?thesis
    by (rule nth_equalityI) (simp_all add: e nth_tl nth_chunks blk_get_def add.commute)
next
  case False
  then show ?thesis by (simp add: chunks_def)
qed

lemma chunks_butlast:
  assumes "0 < n" and "n \<le> length xs" and "n dvd length xs"
  shows "chunks n (take (length xs - n) xs) = butlast (chunks n xs)"
proof -
  have "chunks n xs = chunks n (take (length xs - n) xs @ drop (length xs - n) xs)" by simp
  also have "\<dots> = chunks n (take (length xs - n) xs) @ [drop (length xs - n) xs]"
    using assms by (intro chunks_append) auto
  finally show ?thesis by simp
qed

lemma chunks_last:
  assumes "0 < n" and "n \<le> length xs" and "n dvd length xs"
  shows "last (chunks n xs) = drop (length xs - n) xs"
proof -
  have "chunks n xs = chunks n (take (length xs - n) xs @ drop (length xs - n) xs)" by simp
  also have "\<dots> = chunks n (take (length xs - n) xs) @ [drop (length xs - n) xs]"
    using assms by (intro chunks_append) auto
  finally show ?thesis by simp
qed

lemma load_chunk:
  assumes "i < length xs div w" and "p + m \<le> w"
  shows "load (i * w + p) m xs = Inr (blk_get p m (chunks w xs ! i))"
proof -
  have e: "i * w + w \<le> length xs" by (rule chunk_end [OF assms(1)])
  have "blk_get (i * w + p) m xs = blk_get p m (blk_get (i * w) w xs)"
    using assms(2) by (simp add: blk_get_def drop_take add.commute min_def)
  then show ?thesis using e assms by (simp add: load_def nth_chunks)
qed

lemma store_chunk:
  assumes i: "i < length xs div w" and p: "p + length ys \<le> w"
  shows "\<exists>d. store (i * w + p) ys xs = Inr d \<and> length d = length xs \<and>
    chunks w d = (chunks w xs)[i := blk_put p ys (chunks w xs ! i)]"
proof -
  let ?d = "blk_put (i * w + p) ys xs"
  have e: "i * w + w \<le> length xs" by (rule chunk_end [OF i])
  have l: "length ?d = length xs" using e p by simp
  have "chunks w ?d = (chunks w xs)[i := blk_put p ys (chunks w xs ! i)]"
  proof (rule nth_equalityI)
    show "length (chunks w ?d) = length ((chunks w xs)[i := blk_put p ys (chunks w xs ! i)])"
      using l by simp
    fix j
    assume "j < length (chunks w ?d)"
    then have j: "j < length xs div w" using l by simp
    show "chunks w ?d ! j = (chunks w xs)[i := blk_put p ys (chunks w xs ! i)] ! j"
    proof (cases "j = i")
      case True
      have "blk_get (i * w) w ?d = blk_put p ys (blk_get (i * w) w xs)"
        using e p by (simp add: blk_get_def blk_put_def drop_take add.commute add.left_commute)
      then show ?thesis using True j l by (simp add: nth_chunks)
    next
      case False
      have "blk_get (j * w) w ?d = blk_get (j * w) w xs"
        using blocks_disjoint [OF False, of w] e p by (intro blk_get_put_other) auto
      then show ?thesis using False j l by (simp add: nth_chunks)
    qed
  qed
  then show ?thesis using e p l by (simp add: store_def)
qed

lemma chunks_length: "c \<in> set (chunks w xs) \<Longrightarrow> length c = w"
  by (auto simp: chunks_def intro!: length_blk_get chunk_end)

subsection \<open>Little-endian round trips\<close>

lemma length_le_bytes [simp]: "length (le_bytes n x) = n"
  by (induction n arbitrary: x) auto

lemma le_nat_le_bytes: "le_nat (le_bytes n x) = x mod 256 ^ n"
proof (induction n arbitrary: x)
  case 0
  then show ?case by simp
next
  case (Suc n)
  have "x mod 256 + 256 * (x div 256 mod 256 ^ n) = x mod (256 * 256 ^ n)"
    by (simp add: mod_mult2_eq)
  then show ?case using Suc by (simp add: unat_of_nat)
qed

lemma le_nat_bound: "le_nat bs < 256 ^ length bs"
proof (induction bs)
  case Nil
  then show ?case by simp
next
  case (Cons b bs)
  have "unat b < 256" using unsigned_less [of b] by simp
  moreover have "le_nat bs + 1 \<le> 256 ^ length bs" using Cons by simp
  ultimately have "unat b + 256 * le_nat bs < 256 * (le_nat bs + 1)" by simp
  also have "\<dots> \<le> 256 * 256 ^ length bs" using Cons by simp
  finally show ?case by simp
qed

lemma le_bytes_le_nat: "length bs = n \<Longrightarrow> le_bytes n (le_nat bs) = bs"
proof (induction bs arbitrary: n)
  case Nil
  then show ?case by simp
next
  case (Cons b bs)
  have b: "unat b < 256" using unsigned_less [of b] by simp
  have "unat (word_of_nat (unat b + 256 * le_nat bs) :: byte) = unat b"
    unfolding unat_of_nat using b by simp
  then have "(word_of_nat (unat b + 256 * le_nat bs) :: byte) = b"
    by (simp only: word_unat_eq_iff)
  moreover have "(unat b + 256 * le_nat bs) div 256 = le_nat bs" using b by simp
  ultimately show ?case using Cons by (cases n) auto
qed

lemma le_nat_less_u32: "length bs = 4 \<Longrightarrow> le_nat bs < 2 ^ 32"
  using le_nat_bound [of bs] by simp

lemma rd_u32_Some: "4 \<le> length k \<Longrightarrow> rd_u32 (Some k) = Inr (le_nat (take 4 k))"
  by (simp add: rd_u32_def rd_def)

end
