(* ===== verification/Elem_Buffer.thy ===== *)
theory Elem_Buffer
  imports Bpf_Prelude
begin

text \<open>
  The contract of the map types that hold a bounded sequence of values without keys
  (\<open>BPF_MAP_TYPE_QUEUE\<close> and \<open>BPF_MAP_TYPE_STACK\<close>): an abstract bounded list with the
  documented results of push, pop, peek and of the keyed calls mapped onto them, and the
  locale \<open>elem_buffer\<close> stating that an implementation refines it. The two list
  functions \<open>sel\<close> and \<open>rest\<close> say at which end values leave.
\<close>

text \<open>A value pointer that is null or has \<open>n\<close> readable bytes; same for output buffers.\<close>

definition ptr_ok :: "nat \<Rightarrow> ptr \<Rightarrow> bool" where
  "ptr_ok n p = (case p of None \<Rightarrow> True | Some v \<Rightarrow> n \<le> length v)"

definition out_ok :: "nat \<Rightarrow> outbuf \<Rightarrow> bool" where
  "out_ok n p = (case p of None \<Rightarrow> True | Some k \<Rightarrow> n \<le> k)"

subsection \<open>The abstract bounded list\<close>

definition buf_add :: "nat \<Rightarrow> nat \<Rightarrow> bytes \<Rightarrow> nat \<Rightarrow> bytes list \<Rightarrow> unit res \<times> bytes list" where
  "buf_add c n v flags xs =
     (if c \<le> length xs then
        if flags = BPF_EXIST then (Inr (), tl xs @ [take n v]) else (Inl (Errno E2BIG), xs)
      else (Inr (), xs @ [take n v]))"

definition buf_push :: "nat \<Rightarrow> nat \<Rightarrow> ptr \<Rightarrow> nat \<Rightarrow> bytes list \<Rightarrow> unit res \<times> bytes list" where
  "buf_push c n p flags xs = (case p of
       None \<Rightarrow> (Inl (Errno EINVAL), xs)
     | Some v \<Rightarrow> (if flags \<noteq> BPF_ANY \<and> flags \<noteq> BPF_EXIST then (Inl (Errno EINVAL), xs)
                 else buf_add c n v flags xs))"

definition buf_update :: "nat \<Rightarrow> nat \<Rightarrow> ptr \<Rightarrow> nat \<Rightarrow> bytes list \<Rightarrow> unit res \<times> bytes list" where
  "buf_update c n p flags xs = (case p of
       None \<Rightarrow> (Inl (Errno EINVAL), xs)
     | Some v \<Rightarrow> buf_add c n v flags xs)"

definition buf_pop ::
  "(bytes list \<Rightarrow> bytes) \<Rightarrow> (bytes list \<Rightarrow> bytes list) \<Rightarrow> outbuf \<Rightarrow> bytes list \<Rightarrow> bytes res \<times> bytes list"
where
  "buf_pop sel rest out xs = (case out of
       None \<Rightarrow> (Inl (Errno EINVAL), xs)
     | Some _ \<Rightarrow> (if xs = [] then (Inl (Errno ENOENT), xs) else (Inr (sel xs), rest xs)))"

definition buf_peek :: "(bytes list \<Rightarrow> bytes) \<Rightarrow> outbuf \<Rightarrow> bytes list \<Rightarrow> bytes res" where
  "buf_peek sel out xs = (case out of
       None \<Rightarrow> Inl (Errno EINVAL)
     | Some _ \<Rightarrow> (if xs = [] then Inl (Errno ENOENT) else Inr (sel xs)))"

definition buf_lookup :: "(bytes list \<Rightarrow> bytes) \<Rightarrow> bytes list \<Rightarrow> bytes res" where
  "buf_lookup sel xs = (if xs = [] then Inl (Errno ENOENT) else Inr (sel xs))"

definition buf_delete :: "(bytes list \<Rightarrow> bytes list) \<Rightarrow> bytes list \<Rightarrow> unit res \<times> bytes list" where
  "buf_delete rest xs = (if xs = [] then (Inl (Errno ENOENT), xs) else (Inr (), rest xs))"

subsection \<open>Sequences of calls\<close>

datatype buf_op =
    Push ptr nat | Update ptr ptr nat | Lookup ptr | Delete ptr | Pop outbuf | Peek outbuf

fun op_ok :: "nat \<Rightarrow> buf_op \<Rightarrow> bool" where
  "op_ok n (Push p f) = ptr_ok n p"
| "op_ok n (Update k p f) = ptr_ok n p"
| "op_ok n (Pop b) = out_ok n b"
| "op_ok n (Peek b) = out_ok n b"
| "op_ok n (Lookup k) = True"
| "op_ok n (Delete k) = True"

definition no_value :: "unit res \<times> 's \<Rightarrow> bytes res \<times> 's" where
  "no_value r = (map_sum id (\<lambda>_. []) (fst r), snd r)"

fun spec_step ::
  "(bytes list \<Rightarrow> bytes) \<Rightarrow> (bytes list \<Rightarrow> bytes list) \<Rightarrow> nat \<Rightarrow> nat \<Rightarrow> buf_op \<Rightarrow> bytes list
     \<Rightarrow> bytes res \<times> bytes list"
where
  "spec_step sel rest c n (Push p f) xs = no_value (buf_push c n p f xs)"
| "spec_step sel rest c n (Update k p f) xs = no_value (buf_update c n p f xs)"
| "spec_step sel rest c n (Lookup k) xs = (buf_lookup sel xs, xs)"
| "spec_step sel rest c n (Delete k) xs = no_value (buf_delete rest xs)"
| "spec_step sel rest c n (Pop b) xs = buf_pop sel rest b xs"
| "spec_step sel rest c n (Peek b) xs = (buf_peek sel b xs, xs)"

text \<open>The calls of an implementation, given by its six operations.\<close>

fun buf_step ::
  "(ptr \<Rightarrow> nat \<Rightarrow> 's \<Rightarrow> unit res \<times> 's) \<Rightarrow> (ptr \<Rightarrow> ptr \<Rightarrow> nat \<Rightarrow> 's \<Rightarrow> unit res \<times> 's) \<Rightarrow>
   (ptr \<Rightarrow> 's \<Rightarrow> bytes res) \<Rightarrow> (ptr \<Rightarrow> 's \<Rightarrow> unit res \<times> 's) \<Rightarrow> (outbuf \<Rightarrow> 's \<Rightarrow> bytes res \<times> 's) \<Rightarrow>
   (outbuf \<Rightarrow> 's \<Rightarrow> bytes res) \<Rightarrow> buf_op \<Rightarrow> 's \<Rightarrow> bytes res \<times> 's"
where
  "buf_step push update lookup delete pop peek (Push p f) s = no_value (push p f s)"
| "buf_step push update lookup delete pop peek (Update k p f) s = no_value (update k p f s)"
| "buf_step push update lookup delete pop peek (Lookup k) s = (lookup k s, s)"
| "buf_step push update lookup delete pop peek (Delete k) s = no_value (delete k s)"
| "buf_step push update lookup delete pop peek (Pop b) s = pop b s"
| "buf_step push update lookup delete pop peek (Peek b) s = (peek b s, s)"

fun run_ops :: "(buf_op \<Rightarrow> 's \<Rightarrow> bytes res \<times> 's) \<Rightarrow> buf_op list \<Rightarrow> 's \<Rightarrow> bytes res list \<times> 's" where
  "run_ops step [] s = ([], s)"
| "run_ops step (x # xs) s =
     (let (r, s') = step x s; (rs, s'') = run_ops step xs s' in (r # rs, s''))"

text \<open>One call refines its abstract counterpart and leaves the configuration alone.\<close>

definition refines_to ::
  "('s \<Rightarrow> bool) \<Rightarrow> ('s \<Rightarrow> 'a) \<Rightarrow> ('s \<Rightarrow> 'c) \<Rightarrow> 's \<Rightarrow> 'r \<times> 's \<Rightarrow> 'r \<times> 'a \<Rightarrow> bool"
where
  "refines_to ok abst conf s c a \<longleftrightarrow>
     fst c = fst a \<and> abst (snd c) = snd a \<and> ok (snd c) \<and> conf (snd c) = conf s"

lemma refines_to_no_value:
  "refines_to ok abst conf s c a \<Longrightarrow> refines_to ok abst conf s (no_value c) (no_value a)"
  by (simp add: refines_to_def no_value_def)

subsection \<open>The interface\<close>

locale elem_buffer =
  fixes ok :: "'s \<Rightarrow> bool"
    and content :: "'s \<Rightarrow> bytes list"
    and conf :: "'s \<Rightarrow> nat \<times> nat"
    and sel :: "bytes list \<Rightarrow> bytes"
    and rest :: "bytes list \<Rightarrow> bytes list"
    and push :: "ptr \<Rightarrow> nat \<Rightarrow> 's \<Rightarrow> unit res \<times> 's"
    and update :: "ptr \<Rightarrow> ptr \<Rightarrow> nat \<Rightarrow> 's \<Rightarrow> unit res \<times> 's"
    and lookup :: "ptr \<Rightarrow> 's \<Rightarrow> bytes res"
    and delete :: "ptr \<Rightarrow> 's \<Rightarrow> unit res \<times> 's"
    and pop :: "outbuf \<Rightarrow> 's \<Rightarrow> bytes res \<times> 's"
    and peek :: "outbuf \<Rightarrow> 's \<Rightarrow> bytes res"
  assumes content_le: "ok s \<Longrightarrow> length (content s) \<le> fst (conf s)"
    and push_refines: "ok s \<Longrightarrow> ptr_ok (snd (conf s)) p \<Longrightarrow>
      refines_to ok content conf s (push p fl s) (buf_push (fst (conf s)) (snd (conf s)) p fl (content s))"
    and update_refines: "ok s \<Longrightarrow> ptr_ok (snd (conf s)) p \<Longrightarrow>
      refines_to ok content conf s (update k p fl s) (buf_update (fst (conf s)) (snd (conf s)) p fl (content s))"
    and lookup_refines: "ok s \<Longrightarrow> lookup k s = buf_lookup sel (content s)"
    and delete_refines: "ok s \<Longrightarrow>
      refines_to ok content conf s (delete k s) (buf_delete rest (content s))"
    and pop_refines: "ok s \<Longrightarrow> out_ok (snd (conf s)) b \<Longrightarrow>
      refines_to ok content conf s (pop b s) (buf_pop sel rest b (content s))"
    and peek_refines: "ok s \<Longrightarrow> out_ok (snd (conf s)) b \<Longrightarrow> peek b s = buf_peek sel b (content s)"
begin

abbreviation step :: "buf_op \<Rightarrow> 's \<Rightarrow> bytes res \<times> 's" where
  "step \<equiv> buf_step push update lookup delete pop peek"

lemma step_refines:
  "ok s \<Longrightarrow> op_ok (snd (conf s)) x \<Longrightarrow>
   refines_to ok content conf s (step x s)
     (spec_step sel rest (fst (conf s)) (snd (conf s)) x (content s))"
  by (cases x)
    (simp_all add: refines_to_no_value push_refines update_refines delete_refines pop_refines
       peek_refines lookup_refines, simp_all add: refines_to_def)

lemma run_refines:
  "ok s \<Longrightarrow> \<forall>x\<in>set xs. op_ok (snd (conf s)) x \<Longrightarrow>
   refines_to ok content conf s (run_ops step xs s)
     (run_ops (spec_step sel rest (fst (conf s)) (snd (conf s))) xs (content s))"
proof (induction xs arbitrary: s)
  case Nil
  then show ?case by (simp add: refines_to_def)
next
  case (Cons x xs)
  then have "refines_to ok content conf s (step x s)
     (spec_step sel rest (fst (conf s)) (snd (conf s)) x (content s))"
    by (simp add: step_refines)
  moreover have "refines_to ok content conf (snd (step x s)) (run_ops step xs (snd (step x s)))
     (run_ops (spec_step sel rest (fst (conf s)) (snd (conf s))) xs (content (snd (step x s))))"
    using Cons calculation by (metis (lifting) refines_to_def list.set_intros(2))
  ultimately show ?case
    by (auto simp: refines_to_def Let_def split_beta)
qed

lemma run_content_le:
  "ok s \<Longrightarrow> \<forall>x\<in>set xs. op_ok (snd (conf s)) x \<Longrightarrow>
   length (content (snd (run_ops step xs s))) \<le> fst (conf s)"
  using run_refines content_le by (metis refines_to_def)

end

end
