(* ===== verification/Queue_Map.thy ===== *)
theory Queue_Map
  imports Elem_Buffer
begin

text \<open>
  \<open>queue_map_impl\<close> (\<open>runtime/src/bpf_map/userspace/queue.cpp\<close>): a ring buffer of
  \<open>_max_entries\<close> slots of \<open>_value_size\<close> bytes with 32-bit \<open>head\<close>, \<open>tail\<close> and
  \<open>count\<close>. The byte offsets \<open>head * _value_size\<close> are computed in \<open>unsigned int\<close>.
  The theory shows that the ring refines the bounded list of \<open>Elem_Buffer\<close>.
\<close>

record queue_map =
  q_value_size :: nat
  q_max_entries :: nat
  q_data :: bytes
  q_head :: nat
  q_tail :: nat
  q_count :: nat

definition queue_new :: "nat \<Rightarrow> nat \<Rightarrow> queue_map res" where
  "queue_new value_size max_entries =
     (if value_size = 0 \<or> max_entries = 0 then Inl Throw
      else Inr \<lparr>q_value_size = value_size, q_max_entries = max_entries,
                q_data = replicate (w32 (max_entries * value_size)) 0,
                q_head = 0, q_tail = 0, q_count = 0\<rparr>)"

definition queue_get_current_size :: "queue_map \<Rightarrow> nat" where
  "queue_get_current_size q = q_count q"

definition queue_is_full :: "queue_map \<Rightarrow> bool" where
  "queue_is_full q \<longleftrightarrow> q_count q \<ge> q_max_entries q"

definition queue_is_empty :: "queue_map \<Rightarrow> bool" where
  "queue_is_empty q \<longleftrightarrow> q_count q = 0"

definition queue_next_index :: "nat \<Rightarrow> queue_map \<Rightarrow> nat" where
  "queue_next_index index q = w32 (index + 1) mod q_max_entries q"

text \<open>\<open>data.data() + index * _value_size\<close>.\<close>

definition queue_off :: "nat \<Rightarrow> queue_map \<Rightarrow> nat" where
  "queue_off index q = w32 (index * q_value_size q)"

definition queue_elem_lookup :: "ptr \<Rightarrow> queue_map \<Rightarrow> bytes res" where
  "queue_elem_lookup key q =
     (if queue_is_empty q then Inl (Errno ENOENT)
      else load (queue_off (q_head q) q) (q_value_size q) (q_data q))"

text \<open>\<open>head = next_index(head); count--;\<close>\<close>

definition queue_drop_head :: "queue_map \<Rightarrow> queue_map" where
  "queue_drop_head q =
     q\<lparr>q_head := queue_next_index (q_head q) q, q_count := dec32 (q_count q)\<rparr>"

text \<open>The copy of the value behind \<open>tail\<close>, after the fullness test.\<close>

definition queue_append :: "ptr \<Rightarrow> queue_map \<Rightarrow> unit res \<times> queue_map" where
  "queue_append value q = (case rd value (q_value_size q) of
       Inl f \<Rightarrow> (Inl f, q)
     | Inr v \<Rightarrow> (case store (queue_off (q_tail q) q) v (q_data q) of
           Inl f \<Rightarrow> (Inl f, q)
         | Inr d \<Rightarrow> (Inr (), q\<lparr>q_data := d, q_tail := queue_next_index (q_tail q) q,
                               q_count := w32 (q_count q + 1)\<rparr>)))"

definition queue_elem_update :: "ptr \<Rightarrow> ptr \<Rightarrow> nat \<Rightarrow> queue_map \<Rightarrow> unit res \<times> queue_map" where
  "queue_elem_update key value flags q =
     (if value = None then (Inl (Errno EINVAL), q)
      else if queue_is_full q then
        if flags = BPF_EXIST then queue_append value (queue_drop_head q)
        else (Inl (Errno E2BIG), q)
      else queue_append value q)"

definition queue_elem_delete :: "ptr \<Rightarrow> queue_map \<Rightarrow> unit res \<times> queue_map" where
  "queue_elem_delete key q =
     (if queue_is_empty q then (Inl (Errno ENOENT), q) else (Inr (), queue_drop_head q))"

definition queue_map_get_next_key :: "ptr \<Rightarrow> outbuf \<Rightarrow> queue_map \<Rightarrow> bytes res" where
  "queue_map_get_next_key key next_key q = Inl (Errno EINVAL)"

definition queue_map_push_elem :: "ptr \<Rightarrow> nat \<Rightarrow> queue_map \<Rightarrow> unit res \<times> queue_map" where
  "queue_map_push_elem value flags q =
     (if value = None then (Inl (Errno EINVAL), q)
      else if flags \<noteq> 0 \<and> flags \<noteq> BPF_ANY \<and> flags \<noteq> BPF_EXIST then (Inl (Errno EINVAL), q)
      else if queue_is_full q then
        if flags = BPF_EXIST then queue_append value (queue_drop_head q)
        else (Inl (Errno E2BIG), q)
      else queue_append value q)"

definition queue_map_pop_elem :: "outbuf \<Rightarrow> queue_map \<Rightarrow> bytes res \<times> queue_map" where
  "queue_map_pop_elem value q =
     (if value = None then (Inl (Errno EINVAL), q)
      else if queue_is_empty q then (Inl (Errno ENOENT), q)
      else (case copy_out value (load (queue_off (q_head q) q) (q_value_size q) (q_data q)) of
          Inl f \<Rightarrow> (Inl f, q)
        | Inr v \<Rightarrow> (Inr v, queue_drop_head q)))"

definition queue_map_peek_elem :: "outbuf \<Rightarrow> queue_map \<Rightarrow> bytes res" where
  "queue_map_peek_elem value q =
     (if value = None then Inl (Errno EINVAL)
      else if queue_is_empty q then Inl (Errno ENOENT)
      else copy_out value (load (queue_off (q_head q) q) (q_value_size q) (q_data q)))"

definition queue_step :: "buf_op \<Rightarrow> queue_map \<Rightarrow> bytes res \<times> queue_map" where
  "queue_step = buf_step queue_map_push_elem queue_elem_update queue_elem_lookup queue_elem_delete
     queue_map_pop_elem queue_map_peek_elem"

subsection \<open>Invariant and abstraction\<close>

definition queue_inv :: "queue_map \<Rightarrow> bool" where
  "queue_inv q \<longleftrightarrow>
     0 < q_value_size q \<and> 0 < q_max_entries q \<and>
     q_max_entries q * q_value_size q < 2 ^ 32 \<and>
     length (q_data q) = q_max_entries q * q_value_size q \<and>
     q_head q < q_max_entries q \<and> q_count q \<le> q_max_entries q \<and>
     q_tail q = (q_head q + q_count q) mod q_max_entries q"

definition queue_slot :: "queue_map \<Rightarrow> nat \<Rightarrow> bytes" where
  "queue_slot q i = blk_get (i * q_value_size q) (q_value_size q) (q_data q)"

definition queue_list :: "queue_map \<Rightarrow> bytes list" where
  "queue_list q = map (\<lambda>i. queue_slot q ((q_head q + i) mod q_max_entries q)) [0..<q_count q]"

definition queue_conf :: "queue_map \<Rightarrow> nat \<times> nat" where
  "queue_conf q = (q_max_entries q, q_value_size q)"

lemmas queue_defs =
  queue_elem_lookup_def queue_elem_update_def queue_elem_delete_def queue_map_push_elem_def
  queue_map_pop_elem_def queue_map_peek_elem_def queue_is_full_def queue_is_empty_def

lemma queue_inv_new:
  "queue_new vs me = Inr q \<Longrightarrow> me * vs < 2 ^ 32 \<Longrightarrow>
   queue_inv q \<and> queue_list q = [] \<and> queue_conf q = (me, vs)"
  by (auto simp: queue_new_def queue_inv_def queue_list_def queue_conf_def split: if_splits)

lemma queue_max_less:
  assumes "queue_inv q"
  shows "q_max_entries q < 2 ^ 32"
proof -
  have "q_max_entries q * 1 \<le> q_max_entries q * q_value_size q"
    using assms by (intro mult_le_mono) (auto simp: queue_inv_def)
  then show ?thesis using assms unfolding queue_inv_def by linarith
qed

lemma queue_next_index_eq:
  "queue_inv q \<Longrightarrow> i < q_max_entries q \<Longrightarrow> queue_next_index i q = Suc i mod q_max_entries q"
  using queue_max_less [of q] by (simp add: queue_next_index_def)

lemma queue_slot_end:
  "queue_inv q \<Longrightarrow> i < q_max_entries q \<Longrightarrow> i * q_value_size q + q_value_size q \<le> length (q_data q)"
  using block_end_le [of i "q_max_entries q" "q_value_size q"] by (simp add: queue_inv_def)

lemma queue_off_eq:
  assumes "queue_inv q" and "i < q_max_entries q"
  shows "queue_off i q = i * q_value_size q"
proof -
  have "i * q_value_size q < 2 ^ 32"
    using queue_slot_end [OF assms] assms(1) by (simp add: queue_inv_def)
  then show ?thesis by (simp add: queue_off_def)
qed

lemma length_queue_list [simp]: "length (queue_list q) = q_count q"
  by (simp add: queue_list_def)

lemma queue_list_Nil_iff: "queue_list q = [] \<longleftrightarrow> q_count q = 0"
  by (simp add: queue_list_def)

lemma mod_ring_neq:
  assumes "i < j" and "j - i < m"
  shows "(h + i) mod m \<noteq> (h + j) mod (m::nat)"
proof
  assume "(h + i) mod m = (h + j) mod m"
  then have "(h + j) mod m = (h + i) mod m" by simp
  then have "m dvd (h + j) - (h + i)" using assms by (subst (asm) mod_eq_dvd_iff_nat) auto
  then have "m dvd j - i" by simp
  then show False using assms by (auto dest: dvd_imp_le)
qed

lemma queue_load_head:
  assumes "queue_inv q" and "q_count q \<noteq> 0"
  shows "load (queue_off (q_head q) q) (q_value_size q) (q_data q) = Inr (hd (queue_list q))"
proof -
  have h: "q_head q < q_max_entries q" using assms(1) by (simp add: queue_inv_def)
  have "queue_list q ! 0 = queue_slot q (q_head q)"
    using assms h by (simp add: queue_list_def)
  then have "hd (queue_list q) = queue_slot q (q_head q)"
    using assms(2) by (metis hd_conv_nth queue_list_Nil_iff)
  then show ?thesis
    using queue_slot_end [OF assms(1) h] queue_off_eq [OF assms(1) h]
    by (simp add: load_def queue_slot_def)
qed

lemma queue_drop_head_refines:
  assumes inv: "queue_inv q" and ne: "q_count q \<noteq> 0"
  shows "queue_inv (queue_drop_head q)" and "queue_list (queue_drop_head q) = tl (queue_list q)"
    and "queue_conf (queue_drop_head q) = queue_conf q"
    and "q_count (queue_drop_head q) = q_count q - 1"
proof -
  let ?m = "q_max_entries q"
  have h: "q_head q < ?m" using inv by (simp add: queue_inv_def)
  have c: "dec32 (q_count q) = q_count q - 1"
    using inv ne queue_max_less [OF inv] by (intro dec32_pos) (auto simp: queue_inv_def)
  have n: "queue_next_index (q_head q) q = Suc (q_head q) mod ?m"
    by (rule queue_next_index_eq [OF inv h])
  show "q_count (queue_drop_head q) = q_count q - 1" by (simp add: queue_drop_head_def c)
  have "(Suc (q_head q) mod ?m + (q_count q - 1)) mod ?m = (q_head q + q_count q) mod ?m"
    using ne by (cases "q_count q") (simp_all add: mod_add_left_eq)
  then show "queue_inv (queue_drop_head q)"
    using inv ne h by (auto simp: queue_inv_def queue_drop_head_def c n)
  show "queue_conf (queue_drop_head q) = queue_conf q"
    by (simp add: queue_conf_def queue_drop_head_def)
  show "queue_list (queue_drop_head q) = tl (queue_list q)"
    by (rule nth_equalityI)
      (simp_all add: queue_list_def queue_drop_head_def c n queue_slot_def nth_tl mod_add_left_eq
        less_diff_conv)
qed

lemma queue_append_refines:
  assumes inv: "queue_inv q" and room: "q_count q < q_max_entries q"
    and v: "q_value_size q \<le> length v"
  shows "refines_to queue_inv queue_list queue_conf q (queue_append (Some v) q)
    (Inr (), queue_list q @ [take (q_value_size q) v])"
proof -
  let ?m = "q_max_entries q" and ?n = "q_value_size q" and ?v = "take (q_value_size q) v"
  let ?d = "blk_put (q_tail q * ?n) ?v (q_data q)"
  have t: "q_tail q < ?m" and tl: "q_tail q = (q_head q + q_count q) mod ?m"
    using inv by (auto simp: queue_inv_def)
  have e: "q_tail q * ?n + length ?v \<le> length (q_data q)"
    using queue_slot_end [OF inv t] v by simp
  have nx: "queue_next_index (q_tail q) q = (q_head q + Suc (q_count q)) mod ?m"
    using queue_next_index_eq [OF inv t] tl by (simp add: mod_Suc_eq)
  have c: "w32 (q_count q + 1) = Suc (q_count q)" using room queue_max_less [OF inv] by simp
  let ?q = "q\<lparr>q_data := ?d, q_tail := (q_head q + Suc (q_count q)) mod ?m, q_count := Suc (q_count q)\<rparr>"
  have eq: "queue_append (Some v) q = (Inr (), ?q)"
    using e v nx c by (simp add: queue_append_def rd_def store_def queue_off_eq [OF inv t])
  have "queue_inv ?q" using inv room e v by (auto simp: queue_inv_def)
  moreover have "queue_slot ?q ((q_head q + i) mod ?m) = queue_slot q ((q_head q + i) mod ?m)"
    if "i < q_count q" for i
  proof -
    have "(q_head q + i) mod ?m \<noteq> q_tail q" using mod_ring_neq [of i "q_count q" ?m] that room tl by simp
    then show ?thesis
      using e v blocks_disjoint [of "(q_head q + i) mod ?m" "q_tail q" ?n]
      by (simp add: queue_slot_def blk_get_put_other)
  qed
  moreover have "queue_slot ?q (q_tail q) = ?v"
    using e v by (simp add: queue_slot_def blk_get_put_same)
  ultimately show ?thesis
    using tl by (simp add: refines_to_def eq queue_list_def queue_conf_def)
qed

subsection \<open>Refinement\<close>

lemma queue_push_core:
  assumes inv: "queue_inv q" and v: "q_value_size q \<le> length v"
  shows "refines_to queue_inv queue_list queue_conf q
    (if queue_is_full q then
       if flags = BPF_EXIST then queue_append (Some v) (queue_drop_head q) else (Inl (Errno E2BIG), q)
     else queue_append (Some v) q)
    (buf_add (q_max_entries q) (q_value_size q) v flags (queue_list q))"
proof (cases "queue_is_full q \<and> flags = BPF_EXIST")
  case True
  have ne: "q_count q \<noteq> 0" using True inv by (auto simp: queue_is_full_def queue_inv_def)
  note d = queue_drop_head_refines [OF inv ne]
  have "q_count (queue_drop_head q) < q_max_entries (queue_drop_head q)"
    using d(3,4) ne inv by (auto simp: queue_conf_def queue_inv_def)
  moreover have "q_value_size (queue_drop_head q) = q_value_size q"
    using d(3) by (simp add: queue_conf_def)
  ultimately show ?thesis
    using queue_append_refines [OF d(1), of v] d v True
    by (simp add: refines_to_def buf_add_def queue_is_full_def)
next
  case False
  then show ?thesis
    using queue_append_refines [OF inv _ v] inv
    by (auto simp: refines_to_def buf_add_def queue_is_full_def)
qed

interpretation qbuf: elem_buffer queue_inv queue_list queue_conf hd tl
  queue_map_push_elem queue_elem_update queue_elem_lookup queue_elem_delete
  queue_map_pop_elem queue_map_peek_elem
proof
  fix q p fl k b
  assume inv: "queue_inv q"
  then show "length (queue_list q) \<le> fst (queue_conf q)"
    by (simp add: queue_conf_def queue_inv_def)
  show "queue_elem_lookup k q = buf_lookup hd (queue_list q)"
    using queue_load_head [OF inv] by (simp add: queue_defs buf_lookup_def queue_list_Nil_iff)
  show "refines_to queue_inv queue_list queue_conf q (queue_elem_delete k q)
     (buf_delete tl (queue_list q))"
    using inv queue_drop_head_refines [OF inv]
    by (simp add: queue_defs buf_delete_def queue_list_Nil_iff refines_to_def)
  {
    assume "ptr_ok (snd (queue_conf q)) p"
    then show "refines_to queue_inv queue_list queue_conf q (queue_map_push_elem p fl q)
       (buf_push (fst (queue_conf q)) (snd (queue_conf q)) p fl (queue_list q))"
      using inv queue_push_core [OF inv, of _ fl]
      by (cases p) (auto simp: queue_map_push_elem_def buf_push_def ptr_ok_def queue_conf_def refines_to_def)
  next
    assume "ptr_ok (snd (queue_conf q)) p"
    then show "refines_to queue_inv queue_list queue_conf q (queue_elem_update k p fl q)
       (buf_update (fst (queue_conf q)) (snd (queue_conf q)) p fl (queue_list q))"
      using inv queue_push_core [OF inv, of _ fl]
      by (cases p) (auto simp: queue_elem_update_def buf_update_def ptr_ok_def queue_conf_def refines_to_def)
  next
    assume b: "out_ok (snd (queue_conf q)) b"
    have "copy_out b (Inr (hd (queue_list q))) = Inr (hd (queue_list q))"
      if "b \<noteq> None" "q_count q \<noteq> 0"
    proof -
      have "length (hd (queue_list q)) = q_value_size q"
        using queue_load_head [OF inv that(2)] by (rule load_length)
      then show ?thesis using b that by (auto simp: copy_out_def out_ok_def queue_conf_def)
    qed
    then show "refines_to queue_inv queue_list queue_conf q (queue_map_pop_elem b q)
         (buf_pop hd tl b (queue_list q))"
      and "queue_map_peek_elem b q = buf_peek hd b (queue_list q)"
      using inv queue_load_head [OF inv] queue_drop_head_refines [OF inv]
      by (auto simp: queue_defs buf_pop_def buf_peek_def queue_list_Nil_iff refines_to_def
          split: option.splits)
  }
qed

subsection \<open>Properties\<close>

text \<open>The results of a run are those of the abstract list, error codes included.\<close>

lemma queue_run:
  assumes "queue_new vs me = Inr q" and "me * vs < 2 ^ 32" and "\<forall>x\<in>set xs. op_ok vs x"
  shows "fst (run_ops queue_step xs q) = fst (run_ops (spec_step hd tl me vs) xs []) \<and>
    queue_list (snd (run_ops queue_step xs q)) = snd (run_ops (spec_step hd tl me vs) xs [])"
  using qbuf.run_refines [of q xs] queue_inv_new [OF assms(1,2)] assms(3)
  by (simp add: queue_step_def refines_to_def)

text \<open>
  The flags that \<open>queue.hpp\<close> documents, and the outcome of a call without the code of an error: the code that the
  comment gives for a full queue is not the one that is set.
\<close>

fun flags_documented :: "buf_op \<Rightarrow> bool" where
  "flags_documented (Update k p f) = (f = BPF_ANY \<or> f = BPF_EXIST)"
| "flags_documented _ = True"

definition outcome :: "bytes res \<Rightarrow> bytes option" where
  "outcome r = (case r of Inr v \<Rightarrow> Some v | Inl _ \<Rightarrow> None)"

text \<open>The specification: a call of the first-in-first-out list either fails and changes nothing or has a value.\<close>

definition fifo_add :: "nat \<Rightarrow> nat \<Rightarrow> ptr \<Rightarrow> nat \<Rightarrow> bytes list \<Rightarrow> bytes option \<times> bytes list" where
  "fifo_add c n p f xs = (case p of
       Some v \<Rightarrow> (if f \<noteq> BPF_ANY \<and> f \<noteq> BPF_EXIST then (None, xs)
         else if length xs < c then (Some [], xs @ [take n v])
         else if f = BPF_EXIST then (Some [], tl xs @ [take n v]) else (None, xs))
     | None \<Rightarrow> (None, xs))"

fun fifo_step :: "nat \<Rightarrow> nat \<Rightarrow> buf_op \<Rightarrow> bytes list \<Rightarrow> bytes option \<times> bytes list" where
  "fifo_step c n (Push p f) xs = fifo_add c n p f xs"
| "fifo_step c n (Update k p f) xs = fifo_add c n p f xs"
| "fifo_step c n (Lookup k) xs = (if xs = [] then None else Some (hd xs), xs)"
| "fifo_step c n (Delete k) xs = (if xs = [] then (None, xs) else (Some [], tl xs))"
| "fifo_step c n (Pop b) xs = (if b = None \<or> xs = [] then (None, xs) else (Some (hd xs), tl xs))"
| "fifo_step c n (Peek b) xs = (if b = None \<or> xs = [] then None else Some (hd xs), xs)"

fun fifo_run :: "nat \<Rightarrow> nat \<Rightarrow> buf_op list \<Rightarrow> bytes list \<Rightarrow> bytes option list \<times> bytes list" where
  "fifo_run c n [] xs = ([], xs)"
| "fifo_run c n (x # ops) xs = (let (r, xs') = fifo_step c n x xs; (rs, xs'') = fifo_run c n ops xs' in (r # rs, xs''))"

lemma spec_step_fifo:
  "flags_documented x \<Longrightarrow> fifo_step c n x xs = (outcome (fst (spec_step hd tl c n x xs)), snd (spec_step hd tl c n x xs))"
  by (cases x) (auto simp: fifo_add_def outcome_def no_value_def buf_push_def buf_update_def buf_add_def buf_lookup_def buf_delete_def buf_pop_def
      buf_peek_def split: option.split)

lemma spec_run_fifo:
  "\<forall>x\<in>set ops. flags_documented x \<Longrightarrow>
   fifo_run c n ops xs = (map outcome (fst (run_ops (spec_step hd tl c n) ops xs)), snd (run_ops (spec_step hd tl c n) ops xs))"
  by (induction ops arbitrary: xs) (simp_all add: spec_step_fifo Let_def case_prod_beta)

lemma spec_step_defined: "fst (spec_step hd tl c n x xs) \<noteq> Inl UB \<and> fst (spec_step hd tl c n x xs) \<noteq> Inl Throw"
  by (cases x) (auto simp: no_value_def buf_push_def buf_update_def buf_add_def buf_lookup_def buf_delete_def buf_pop_def
      buf_peek_def split: option.split)

lemma spec_run_defined: "Inl UB \<notin> set (fst (run_ops (spec_step hd tl c n) ops xs)) \<and> Inl Throw \<notin> set (fst (run_ops (spec_step hd tl c n) ops xs))"
proof (induction ops arbitrary: xs)
  case (Cons x ops)
  then show ?case using spec_step_defined [of c n x xs] Cons.IH [of "snd (spec_step hd tl c n x xs)"]
    by (auto simp: Let_def case_prod_beta)
qed simp

text \<open>
  C1: a queue map is a bounded first-in-first-out list. Let the product of the sizes be below \<open>2\<^sup>3\<^sup>2\<close>, as the constructor computes it
  in 32 bits, and let every pointer be null or refer to as many bytes as a value has, and the flags of updates be those the
  header documents. Then each call of any sequence on a new queue fails or succeeds as the call of the list, with the same value: pop
  and lookup give the oldest value, a push on a full queue fails or, with \<open>BPF_EXIST\<close>, replaces the oldest value. No call leaves the data
  vector or raises, and the values that remain are those of the list.
\<close>

theorem queue_refines_fifo:
  assumes "queue_new vs me = Inr q" and "me * vs < 2 ^ 32" and "\<forall>x\<in>set xs. op_ok vs x \<and> flags_documented x"
  shows "map outcome (fst (run_ops queue_step xs q)) = fst (fifo_run me vs xs []) \<and>
    queue_list (snd (run_ops queue_step xs q)) = snd (fifo_run me vs xs []) \<and>
    Inl UB \<notin> set (fst (run_ops queue_step xs q)) \<and> Inl Throw \<notin> set (fst (run_ops queue_step xs q))"
  using queue_run [OF assms(1,2)] spec_run_fifo [of xs me vs "[]"] spec_run_defined [of me vs xs "[]"] assms(3) by simp

theorem queue_refines_fifo_witness:
  "\<exists>q. queue_new 1 2 = Inr q \<and>
     map outcome (fst (run_ops queue_step
       [Push (Some [7]) 0, Push (Some [8]) 0, Update None (Some [9]) 0, Push (Some [9]) 2, Pop (Some 1),
        Lookup None] q))
     = [Some [], Some [], None, Some [], Some [8], Some [9]]"
proof -
  obtain q where q: "queue_new 1 2 = Inr q" by (simp add: queue_new_def)
  show ?thesis
    using queue_refines_fifo [OF q, of "[Push (Some [7]) 0, Push (Some [8]) 0, Update None (Some [9]) 0,
        Push (Some [9]) 2, Pop (Some 1), Lookup None]"] q
    by (simp add: ptr_ok_def out_ok_def fifo_add_def)
qed

end
