(* ===== verification/Stack_Map.thy ===== *)
theory Stack_Map
  imports Elem_Buffer
begin

text \<open>
  \<open>stack_map_impl\<close> (\<open>runtime/src/bpf_map/userspace/stack.cpp\<close>): a byte vector that grows
  at its end. The theory shows that it refines the bounded list of \<open>Elem_Buffer\<close> whose
  values leave at the end they entered.
\<close>

record stack_map =
  st_value_size :: nat
  st_max_entries :: nat
  st_data :: bytes

definition stack_new :: "nat \<Rightarrow> nat \<Rightarrow> stack_map res" where
  "stack_new value_size max_entries =
     (if value_size = 0 \<or> max_entries = 0 then Inl Throw
      else Inr \<lparr>st_value_size = value_size, st_max_entries = max_entries, st_data = []\<rparr>)"

definition stack_get_current_size :: "stack_map \<Rightarrow> nat" where
  "stack_get_current_size s = length (st_data s) div st_value_size s"

definition stack_is_full :: "stack_map \<Rightarrow> bool" where
  "stack_is_full s \<longleftrightarrow> stack_get_current_size s \<ge> st_max_entries s"

definition stack_is_empty :: "stack_map \<Rightarrow> bool" where
  "stack_is_empty s \<longleftrightarrow> st_data s = []"

text \<open>\<open>(get_current_size() - 1) * _value_size\<close>, in \<open>size_t\<close>.\<close>

definition stack_top_offset :: "stack_map \<Rightarrow> nat" where
  "stack_top_offset s = w64 (w64 (stack_get_current_size s + (2 ^ 64 - 1)) * st_value_size s)"

definition stack_elem_lookup :: "ptr \<Rightarrow> stack_map \<Rightarrow> bytes res" where
  "stack_elem_lookup key s =
     (if stack_is_empty s then Inl (Errno ENOENT)
      else load (stack_top_offset s) (st_value_size s) (st_data s))"

text \<open>\<open>data.erase(data.begin(), data.begin() + _value_size)\<close>.\<close>

definition stack_erase_bottom :: "stack_map \<Rightarrow> stack_map res" where
  "stack_erase_bottom s =
     (if st_value_size s \<le> length (st_data s)
      then Inr (s\<lparr>st_data := drop (st_value_size s) (st_data s)\<rparr>) else Inl UB)"

text \<open>\<open>data.erase(data.end() - _value_size, data.end())\<close>.\<close>

definition stack_erase_top :: "stack_map \<Rightarrow> stack_map res" where
  "stack_erase_top s =
     (if st_value_size s \<le> length (st_data s)
      then Inr (s\<lparr>st_data := take (length (st_data s) - st_value_size s) (st_data s)\<rparr>)
      else Inl UB)"

text \<open>\<open>data.insert(data.end(), value_bytes, value_bytes + _value_size)\<close>.\<close>

definition stack_append :: "ptr \<Rightarrow> stack_map \<Rightarrow> unit res \<times> stack_map" where
  "stack_append value s = (case rd value (st_value_size s) of
       Inl f \<Rightarrow> (Inl f, s)
     | Inr v \<Rightarrow> (Inr (), s\<lparr>st_data := st_data s @ v\<rparr>))"

definition stack_elem_update :: "ptr \<Rightarrow> ptr \<Rightarrow> nat \<Rightarrow> stack_map \<Rightarrow> unit res \<times> stack_map" where
  "stack_elem_update key value flags s =
     (if value = None then (Inl (Errno EINVAL), s)
      else if stack_is_full s then
        if flags = BPF_EXIST then
          (case stack_erase_bottom s of Inl f \<Rightarrow> (Inl f, s) | Inr s' \<Rightarrow> stack_append value s')
        else (Inl (Errno E2BIG), s)
      else stack_append value s)"

definition stack_elem_delete :: "ptr \<Rightarrow> stack_map \<Rightarrow> unit res \<times> stack_map" where
  "stack_elem_delete key s =
     (if stack_is_empty s then (Inl (Errno ENOENT), s)
      else (case stack_erase_top s of Inl f \<Rightarrow> (Inl f, s) | Inr s' \<Rightarrow> (Inr (), s')))"

definition stack_map_get_next_key :: "ptr \<Rightarrow> outbuf \<Rightarrow> stack_map \<Rightarrow> bytes res" where
  "stack_map_get_next_key key next_key s = Inl (Errno EINVAL)"

definition stack_map_push_elem :: "ptr \<Rightarrow> nat \<Rightarrow> stack_map \<Rightarrow> unit res \<times> stack_map" where
  "stack_map_push_elem value flags s =
     (if value = None then (Inl (Errno EINVAL), s)
      else if flags \<noteq> 0 \<and> flags \<noteq> BPF_ANY \<and> flags \<noteq> BPF_EXIST then (Inl (Errno EINVAL), s)
      else if stack_is_full s then
        if flags = BPF_EXIST then
          (case stack_erase_bottom s of Inl f \<Rightarrow> (Inl f, s) | Inr s' \<Rightarrow> stack_append value s')
        else (Inl (Errno E2BIG), s)
      else stack_append value s)"

definition stack_map_pop_elem :: "outbuf \<Rightarrow> stack_map \<Rightarrow> bytes res \<times> stack_map" where
  "stack_map_pop_elem value s =
     (if value = None then (Inl (Errno EINVAL), s)
      else if stack_is_empty s then (Inl (Errno ENOENT), s)
      else (case copy_out value (load (stack_top_offset s) (st_value_size s) (st_data s)) of
          Inl f \<Rightarrow> (Inl f, s)
        | Inr v \<Rightarrow> (case stack_erase_top s of Inl f \<Rightarrow> (Inl f, s) | Inr s' \<Rightarrow> (Inr v, s'))))"

definition stack_map_peek_elem :: "outbuf \<Rightarrow> stack_map \<Rightarrow> bytes res" where
  "stack_map_peek_elem value s =
     (if value = None then Inl (Errno EINVAL)
      else if stack_is_empty s then Inl (Errno ENOENT)
      else copy_out value (load (stack_top_offset s) (st_value_size s) (st_data s)))"

definition stack_step :: "buf_op \<Rightarrow> stack_map \<Rightarrow> bytes res \<times> stack_map" where
  "stack_step = buf_step stack_map_push_elem stack_elem_update stack_elem_lookup stack_elem_delete
     stack_map_pop_elem stack_map_peek_elem"

subsection \<open>Invariant and abstraction\<close>

definition stack_inv :: "stack_map \<Rightarrow> bool" where
  "stack_inv s \<longleftrightarrow>
     0 < st_value_size s \<and> 0 < st_max_entries s \<and>
     st_value_size s < 2 ^ 32 \<and> st_max_entries s < 2 ^ 32 \<and>
     st_value_size s dvd length (st_data s) \<and>
     length (st_data s) div st_value_size s \<le> st_max_entries s"

definition stack_list :: "stack_map \<Rightarrow> bytes list" where
  "stack_list s = chunks (st_value_size s) (st_data s)"

definition stack_conf :: "stack_map \<Rightarrow> nat \<times> nat" where
  "stack_conf s = (st_max_entries s, st_value_size s)"

lemmas stack_defs =
  stack_elem_lookup_def stack_elem_update_def stack_elem_delete_def stack_map_push_elem_def
  stack_map_pop_elem_def stack_map_peek_elem_def stack_is_full_def stack_is_empty_def
  stack_get_current_size_def

lemma stack_inv_new:
  "stack_new vs me = Inr s \<Longrightarrow> vs < 2 ^ 32 \<Longrightarrow> me < 2 ^ 32 \<Longrightarrow>
   stack_inv s \<and> stack_list s = [] \<and> stack_conf s = (me, vs)"
  by (auto simp: stack_new_def stack_inv_def stack_list_def stack_conf_def chunks_def split: if_splits)

lemma stack_empty_iff: "stack_inv s \<Longrightarrow> st_data s = [] \<longleftrightarrow> stack_list s = []"
  by (auto simp: stack_inv_def stack_list_def chunks_def div_eq_0_iff dvd_imp_le
      dest: dvd_imp_le)

lemma stack_nonempty_le: "stack_inv s \<Longrightarrow> st_data s \<noteq> [] \<Longrightarrow> st_value_size s \<le> length (st_data s)"
  by (auto simp: stack_inv_def dest: dvd_imp_le)

lemma stack_top_offset_eq:
  assumes inv: "stack_inv s" and ne: "st_data s \<noteq> []"
  shows "stack_top_offset s = length (st_data s) - st_value_size s"
proof -
  let ?n = "st_value_size s" and ?c = "length (st_data s) div st_value_size s"
  obtain c where c: "?c = Suc c"
    using stack_nonempty_le [OF assms] inv
    by (metis div_greater_zero_iff gr0_implies_Suc stack_inv_def)
  have len: "length (st_data s) = Suc c * ?n"
    using inv c by (metis dvd_div_mult_self stack_inv_def)
  have "c < 2 ^ 32" and "?n < 2 ^ 32" using inv c by (auto simp: stack_inv_def)
  then have "c * ?n < 2 ^ 32 * 2 ^ 32" by (intro mult_strict_mono) auto
  then have small: "c * ?n < 2 ^ 64" by simp
  have "w64 (stack_get_current_size s + (2 ^ 64 - 1)) = (c + 2 ^ 64) mod 2 ^ 64"
    by (simp add: stack_get_current_size_def c w64_def)
  also have "\<dots> = c" using \<open>c < 2 ^ 32\<close> by (subst mod_add_self2) simp
  finally show ?thesis using small len by (simp add: stack_top_offset_def)
qed

lemma stack_load_top:
  assumes inv: "stack_inv s" and ne: "st_data s \<noteq> []"
  shows "load (stack_top_offset s) (st_value_size s) (st_data s) = Inr (last (stack_list s))"
  using stack_nonempty_le [OF assms] inv
  by (simp add: stack_top_offset_eq [OF assms] load_def stack_list_def chunks_last stack_inv_def
      blk_get_def)

lemma stack_erase_top_refines:
  assumes inv: "stack_inv s" and ne: "st_data s \<noteq> []"
  shows "\<exists>s'. stack_erase_top s = Inr s' \<and> stack_inv s' \<and> stack_list s' = butlast (stack_list s) \<and>
    stack_conf s' = stack_conf s"
proof -
  let ?n = "st_value_size s"
  have le: "?n \<le> length (st_data s)" by (rule stack_nonempty_le [OF assms])
  moreover have "(length (st_data s) - ?n) div ?n \<le> length (st_data s) div ?n"
    by (simp add: div_le_mono)
  ultimately show ?thesis
    using inv by (auto simp: stack_erase_top_def stack_inv_def stack_list_def stack_conf_def
      chunks_butlast intro: dvd_diff_nat)
qed

lemma stack_append_refines:
  assumes inv: "stack_inv s" and room: "length (stack_list s) < st_max_entries s"
    and v: "st_value_size s \<le> length v"
  shows "refines_to stack_inv stack_list stack_conf s (stack_append (Some v) s)
    (Inr (), stack_list s @ [take (st_value_size s) v])"
  using assms
  by (auto simp: refines_to_def stack_append_def rd_def stack_list_def stack_conf_def stack_inv_def
      chunks_append min_absorb2)

lemma stack_push_core:
  assumes inv: "stack_inv s" and v: "st_value_size s \<le> length v"
  shows "refines_to stack_inv stack_list stack_conf s
    (if stack_is_full s then
       if flags = BPF_EXIST then
         (case stack_erase_bottom s of Inl f \<Rightarrow> (Inl f, s) | Inr s' \<Rightarrow> stack_append (Some v) s')
       else (Inl (Errno E2BIG), s)
     else stack_append (Some v) s)
    (buf_add (st_max_entries s) (st_value_size s) v flags (stack_list s))"
proof (cases "stack_is_full s \<and> flags = BPF_EXIST")
  case True
  let ?n = "st_value_size s"
  define s' where "s' = s\<lparr>st_data := drop ?n (st_data s)\<rparr>"
  have ne: "st_data s \<noteq> []"
    using True inv by (auto simp: stack_is_full_def stack_get_current_size_def stack_inv_def)
  have le: "?n \<le> length (st_data s)" by (rule stack_nonempty_le [OF inv ne])
  have l: "stack_list s' = tl (stack_list s)"
    using inv by (simp add: s'_def stack_list_def chunks_tl stack_inv_def)
  have "length (stack_list s) \<noteq> 0" using ne stack_empty_iff [OF inv] by simp
  then have "length (stack_list s') < st_max_entries s'"
    using inv l by (auto simp: s'_def stack_inv_def stack_list_def)
  moreover have "stack_inv s'"
    using inv le calculation
    by (auto simp: s'_def stack_inv_def stack_list_def intro: dvd_diff_nat)
  ultimately have "refines_to stack_inv stack_list stack_conf s' (stack_append (Some v) s')
      (Inr (), stack_list s' @ [take ?n v])"
    using stack_append_refines [of s' v] v by (simp add: s'_def)
  then show ?thesis
    using True le l
    by (auto simp: refines_to_def buf_add_def stack_is_full_def stack_erase_bottom_def s'_def
        stack_conf_def stack_get_current_size_def stack_list_def)
next
  case False
  then show ?thesis
    using stack_append_refines [OF inv _ v] inv
    by (auto simp: refines_to_def buf_add_def stack_is_full_def stack_list_def stack_get_current_size_def)
qed

subsection \<open>Refinement\<close>

interpretation sbuf: elem_buffer stack_inv stack_list stack_conf last butlast
  stack_map_push_elem stack_elem_update stack_elem_lookup stack_elem_delete
  stack_map_pop_elem stack_map_peek_elem
proof
  fix s p fl k b
  assume inv: "stack_inv s"
  then show "length (stack_list s) \<le> fst (stack_conf s)"
    by (simp add: stack_conf_def stack_inv_def stack_list_def)
  show "stack_elem_lookup k s = buf_lookup last (stack_list s)"
    using stack_load_top [OF inv]
    by (simp add: stack_defs buf_lookup_def stack_empty_iff [OF inv])
  show "refines_to stack_inv stack_list stack_conf s (stack_elem_delete k s)
     (buf_delete butlast (stack_list s))"
    using inv stack_erase_top_refines [OF inv]
    by (auto simp: stack_defs buf_delete_def stack_empty_iff [OF inv] refines_to_def)
  {
    assume "ptr_ok (snd (stack_conf s)) p"
    then show "refines_to stack_inv stack_list stack_conf s (stack_map_push_elem p fl s)
       (buf_push (fst (stack_conf s)) (snd (stack_conf s)) p fl (stack_list s))"
      using inv stack_push_core [OF inv, of _ fl]
      by (cases p) (auto simp: stack_map_push_elem_def buf_push_def ptr_ok_def stack_conf_def refines_to_def)
  next
    assume "ptr_ok (snd (stack_conf s)) p"
    then show "refines_to stack_inv stack_list stack_conf s (stack_elem_update k p fl s)
       (buf_update (fst (stack_conf s)) (snd (stack_conf s)) p fl (stack_list s))"
      using inv stack_push_core [OF inv, of _ fl]
      by (cases p) (auto simp: stack_elem_update_def buf_update_def ptr_ok_def stack_conf_def refines_to_def)
  next
    assume b: "out_ok (snd (stack_conf s)) b"
    have "copy_out b (Inr (last (stack_list s))) = Inr (last (stack_list s))"
      if "b \<noteq> None" "st_data s \<noteq> []"
    proof -
      have "length (last (stack_list s)) = st_value_size s"
        using stack_load_top [OF inv that(2)] by (rule load_length)
      then show ?thesis using b that by (auto simp: copy_out_def out_ok_def stack_conf_def)
    qed
    then show "refines_to stack_inv stack_list stack_conf s (stack_map_pop_elem b s)
         (buf_pop last butlast b (stack_list s))"
      and "stack_map_peek_elem b s = buf_peek last b (stack_list s)"
      using inv stack_load_top [OF inv] stack_erase_top_refines [OF inv]
      by (auto simp: stack_defs buf_pop_def buf_peek_def stack_empty_iff [OF inv] refines_to_def
          split: option.splits)
  }
qed

subsection \<open>Properties\<close>

text \<open>
  every sequence of calls on a new stack map gives the results of the bounded
  last-in-first-out list: no call leaves the data vector, pop and lookup return the newest
  value, and a push with \<open>BPF_EXIST\<close> on a full stack drops the value at the bottom.
\<close>

theorem stack_refines_lifo:
  assumes "stack_new vs me = Inr s" and "vs < 2 ^ 32" and "me < 2 ^ 32"
    and "\<forall>x\<in>set xs. op_ok vs x"
  shows "fst (run_ops stack_step xs s) = fst (run_ops (spec_step last butlast me vs) xs []) \<and>
    stack_list (snd (run_ops stack_step xs s)) = snd (run_ops (spec_step last butlast me vs) xs [])"
  using sbuf.run_refines [of s xs] stack_inv_new [OF assms(1-3)] assms(4)
  by (simp add: stack_step_def refines_to_def)

theorem stack_refines_lifo_witness:
  "\<exists>s. stack_new 1 2 = Inr s \<and>
     fst (run_ops stack_step
       [Push (Some [7]) 0, Push (Some [8]) 0, Push (Some [9]) 2, Pop (Some 1), Peek (Some 1)] s)
     = [Inr [], Inr [], Inr [], Inr [9], Inr [8]]"
proof -
  obtain s where s: "stack_new 1 2 = Inr s" by (simp add: stack_new_def)
  show ?thesis
    using stack_refines_lifo [OF s, of "[Push (Some [7]) 0, Push (Some [8]) 0, Push (Some [9]) 2,
        Pop (Some 1), Peek (Some 1)]"] s
    by (simp add: ptr_ok_def out_ok_def no_value_def buf_push_def buf_add_def buf_pop_def buf_peek_def)
qed

end
