(* ===== verification/Map_Common.thy ===== *)
theory Map_Common
  imports Bpf_Prelude "HOL-Library.Multiset"
begin

text \<open>
  What the keyed maps share: the flag test of \<open>bpf_map/map_common_def.hpp\<close>, the dictionary
  that stands for \<open>boost::unordered_map\<close>, and the two interfaces of a keyed map. The
  locale \<open>keyed_store\<close> is the contract of lookup and update, \<open>framed_store\<close> adds that an
  update touches no other key, \<open>key_iter\<close> is the contract of \<open>map_get_next_key\<close>.
\<close>

definition check_update_flags :: "nat \<Rightarrow> unit res" where
  "check_update_flags flags =
     (if flags \<noteq> 0 \<and> flags \<noteq> 1 \<and> flags \<noteq> 2 then Inl (Errno EINVAL) else Inr ())"

subsection \<open>The dictionary\<close>

text \<open>
  A \<open>boost::unordered_map\<close> is the list of its elements in iteration order. The place of a
  new element in that order depends on the hash function and on rehashing, so it is a
  parameter \<open>ins\<close>; the hypothesis \<open>ins_ok\<close> says that an insertion adds the element once and
  keeps the others. Assignment and erasure keep the order of the elements.
\<close>

type_synonym 'v dict = "(bytes \<times> 'v) list"
type_synonym 'v inserter = "bytes \<Rightarrow> 'v \<Rightarrow> 'v dict \<Rightarrow> 'v dict"

definition ins_ok :: "'v inserter \<Rightarrow> bool" where
  "ins_ok ins \<longleftrightarrow> (\<forall>k v d. mset (ins k v d) = add_mset (k, v) (mset d))"

definition dict_assign :: "bytes \<Rightarrow> 'v \<Rightarrow> 'v dict \<Rightarrow> 'v dict" where
  "dict_assign k v d = map (\<lambda>(k', v'). if k' = k then (k', v) else (k', v')) d"

definition dict_erase :: "bytes \<Rightarrow> 'v dict \<Rightarrow> 'v dict" where
  "dict_erase k d = filter (\<lambda>(k', v'). k' \<noteq> k) d"

definition insert_or_assign :: "'v inserter \<Rightarrow> bytes \<Rightarrow> 'v \<Rightarrow> 'v dict \<Rightarrow> 'v dict" where
  "insert_or_assign ins k v d =
     (case map_of d k of None \<Rightarrow> ins k v d | Some _ \<Rightarrow> dict_assign k v d)"

text \<open>\<open>itr = find(k); itr++\<close>: the key behind \<open>k\<close> in iteration order.\<close>

fun dict_next :: "bytes \<Rightarrow> 'v dict \<Rightarrow> bytes option" where
  "dict_next k [] = None"
| "dict_next k ((k', v) # d) =
     (if k' = k then (case d of [] \<Rightarrow> None | x # _ \<Rightarrow> Some (fst x)) else dict_next k d)"

lemma dict_assign_keys [simp]: "map fst (dict_assign k v d) = map fst d"
  by (induction d) (auto simp: dict_assign_def)

lemma length_dict_assign [simp]: "length (dict_assign k v d) = length d"
  by (simp add: dict_assign_def)

lemma set_dict_assign: "set (dict_assign k v d) = (\<lambda>p. if fst p = k then (k, v) else p) ` set d"
  unfolding dict_assign_def set_map by (rule image_cong) auto

lemma set_dict_erase: "set (dict_erase k d) = {p \<in> set d. fst p \<noteq> k}"
  by (auto simp: dict_erase_def)

lemma map_of_dict_assign:
  "map_of (dict_assign k v d) k' =
    (if k' = k then (if map_of d k = None then None else Some v) else map_of d k')"
  by (induction d) (auto simp: dict_assign_def)

lemma map_of_dict_erase: "map_of (dict_erase k d) = (map_of d)(k := None)"
  by (induction d) (auto simp: dict_erase_def fun_eq_iff)

lemma distinct_dict_erase: "distinct (map fst d) \<Longrightarrow> distinct (map fst (dict_erase k d))"
  unfolding dict_erase_def by (rule distinct_map_filter)

lemma length_dict_erase:
  "distinct (map fst d) \<Longrightarrow> map_of d k \<noteq> None \<Longrightarrow> length (dict_erase k d) = length d - 1"
proof (induction d)
  case Nil
  then show ?case by simp
next
  case (Cons x d)
  show ?case
  proof (cases "fst x = k")
    case True
    with Cons.prems(1) have "\<forall>y\<in>set d. fst y \<noteq> k" by (auto simp: image_iff)
    then have "filter (\<lambda>(k', v'). k' \<noteq> k) d = d" by (simp add: filter_id_conv case_prod_beta)
    then show ?thesis using True by (simp add: dict_erase_def case_prod_beta)
  next
    case False
    moreover from this Cons have "length (dict_erase k d) = length d - 1"
      by (simp add: map_of_Cons_code split: prod.splits)
    moreover have "d \<noteq> []" using False Cons.prems by (auto split: prod.splits)
    ultimately show ?thesis by (cases d) (auto simp: dict_erase_def case_prod_beta)
  qed
qed

lemma ins_set: "ins_ok ins \<Longrightarrow> set (ins k v d) = insert (k, v) (set d)"
  unfolding ins_ok_def by (metis set_mset_mset set_mset_add_mset_insert)

lemma ins_length: "ins_ok ins \<Longrightarrow> length (ins k v d) = Suc (length d)"
  unfolding ins_ok_def by (metis size_mset size_add_mset)

lemma ins_distinct:
  assumes "ins_ok ins" and "distinct (map fst d)" and "map_of d k = None"
  shows "distinct (map fst (ins k v d))"
proof -
  have "mset (map fst (ins k v d)) = add_mset k (mset (map fst d))"
    using assms(1) by (simp add: ins_ok_def)
  moreover have "distinct (k # map fst d)"
    using assms by (simp add: map_of_eq_None_iff)
  ultimately show ?thesis
    by (metis mset.simps(2) mset_eq_imp_distinct_iff)
qed

lemma map_of_ins:
  assumes "ins_ok ins" and "distinct (map fst d)" and "map_of d k = None"
  shows "map_of (ins k v d) = (map_of d)(k \<mapsto> v)"
proof -
  have "distinct (map fst ((k, v) # d))" using assms(2,3) by (simp add: map_of_eq_None_iff)
  moreover have "set (ins k v d) = set ((k, v) # d)" using ins_set [OF assms(1)] by simp
  ultimately have "map_of (ins k v d) = map_of ((k, v) # d)"
    using ins_distinct [OF assms] by (metis map_of_inject_set)
  then show ?thesis by simp
qed

lemma map_of_insert_or_assign:
  "ins_ok ins \<Longrightarrow> distinct (map fst d) \<Longrightarrow> map_of (insert_or_assign ins k v d) = (map_of d)(k \<mapsto> v)"
  by (auto simp: insert_or_assign_def map_of_ins map_of_dict_assign fun_eq_iff split: option.splits)

lemma distinct_insert_or_assign:
  "ins_ok ins \<Longrightarrow> distinct (map fst d) \<Longrightarrow> distinct (map fst (insert_or_assign ins k v d))"
  by (auto simp: insert_or_assign_def ins_distinct split: option.splits)

lemma length_insert_or_assign:
  "ins_ok ins \<Longrightarrow>
   length (insert_or_assign ins k v d) = (if map_of d k = None then Suc (length d) else length d)"
  by (auto simp: insert_or_assign_def ins_length split: option.splits)

lemma dict_in_set_insert_or_assign:
  "ins_ok ins \<Longrightarrow> (k', v') \<in> set (insert_or_assign ins k v d) \<Longrightarrow>
   (k' = k \<and> v' = v) \<or> (k', v') \<in> set d"
  by (auto simp: insert_or_assign_def ins_set dict_assign_def split: option.splits if_splits)

lemma dict_next_skip: "fst x \<noteq> k \<Longrightarrow> dict_next k (x # d) = dict_next k d"
  by (cases x) simp

lemma dict_next_middle:
  "distinct (map fst d) \<Longrightarrow> map fst d = ks @ k # k' # ks' \<Longrightarrow> dict_next k d = Some k'"
proof (induction ks arbitrary: d)
  case Nil
  then show ?case by (cases d; cases "tl d") (auto split: prod.splits)
next
  case (Cons a ks)
  then obtain x d' where d: "d = x # d'" "map fst d' = ks @ k # k' # ks'" "fst x = a" by (cases d) auto
  then have "k \<in> set (map fst d')" by simp
  then have "fst x \<noteq> k" using Cons.prems(1) d(1) by auto
  then show ?case using Cons d by (simp add: dict_next_skip)
qed

lemma dict_next_last:
  "distinct (map fst d) \<Longrightarrow> map fst d = ks @ [k] \<Longrightarrow> dict_next k d = None"
proof (induction ks arbitrary: d)
  case Nil
  then show ?case by (cases d) auto
next
  case (Cons a ks)
  then obtain x d' where d: "d = x # d'" "map fst d' = ks @ [k]" "fst x = a" by (cases d) auto
  then have "k \<in> set (map fst d')" by simp
  then have "fst x \<noteq> k" using Cons.prems(1) d(1) by auto
  then show ?case using Cons d by (simp add: dict_next_skip)
qed

subsection \<open>Keyed maps\<close>

text \<open>
  The contract of a keyed map. \<open>view s\<close> is the abstract map held in state \<open>s\<close>, \<open>keyof s p\<close>
  the key a pointer argument denotes (\<open>None\<close> where the pointer is not a key of the map's
  size), \<open>vsize s\<close> the number of value bytes copied, \<open>miss\<close> how a lookup fails. An update may drop other entries
  (an LRU map does), so only \<open>framed_store\<close> has the frame law.
\<close>

locale keyed_store =
  fixes ok :: "'s \<Rightarrow> bool"
    and view :: "'s \<Rightarrow> 'k \<Rightarrow> bytes option"
    and keyof :: "'s \<Rightarrow> ptr \<Rightarrow> 'k option"
    and vsize :: "'s \<Rightarrow> nat"
    and miss :: fault
    and lookup :: "ptr \<Rightarrow> 's \<Rightarrow> bytes res"
    and update :: "ptr \<Rightarrow> ptr \<Rightarrow> nat \<Rightarrow> 's \<Rightarrow> unit res \<times> 's"
  assumes lookup_view: "ok s \<Longrightarrow> keyof s p = Some k \<Longrightarrow>
      lookup p s = (case view s k of None \<Rightarrow> Inl miss | Some v \<Rightarrow> Inr v)"
    and update_success: "ok s \<Longrightarrow> keyof s p = Some k \<Longrightarrow> update p (Some v) fl s = (Inr (), s') \<Longrightarrow>
      ok s' \<and> keyof s' = keyof s \<and> vsize s' = vsize s \<and> view s' k = Some (take (vsize s) v) \<and>
      (\<forall>k'. k' \<noteq> k \<longrightarrow> view s' k' = None \<or> view s' k' = view s k')"
    and update_failure: "ok s \<Longrightarrow> update p q fl s = (Inl f, s') \<Longrightarrow> s' = s"
begin

lemma read_your_write:
  "ok s \<Longrightarrow> keyof s p = Some k \<Longrightarrow> update p (Some v) fl s = (Inr (), s') \<Longrightarrow>
   lookup p s' = Inr (take (vsize s) v)"
  using update_success lookup_view by (metis (lifting) option.simps(5))

text \<open>The writes of a client, each to a key of the map; failed writes change nothing.\<close>

fun writes :: "(ptr \<times> bytes \<times> nat) list \<Rightarrow> 's \<Rightarrow> 's" where
  "writes [] s = s"
| "writes ((p, v, fl) # ws) s = writes ws (snd (update p (Some v) fl s))"

lemma update_keeps:
  assumes "ok s" and "keyof s p = Some k"
  shows "ok (snd (update p (Some v) fl s)) \<and> keyof (snd (update p (Some v) fl s)) = keyof s \<and>
    vsize (snd (update p (Some v) fl s)) = vsize s"
proof (cases "update p (Some v) fl s")
  case (Pair r s')
  then show ?thesis
    using assms update_success [of s p k v fl s'] update_failure [of s p "Some v" fl _ s']
    by (cases r) auto
qed

lemma writes_keeps:
  "ok s \<Longrightarrow> \<forall>(p, v, fl)\<in>set ws. keyof s p \<noteq> None \<Longrightarrow>
   ok (writes ws s) \<and> keyof (writes ws s) = keyof s \<and> vsize (writes ws s) = vsize s"
proof (induction ws s rule: writes.induct)
  case (1 s)
  then show ?case by simp
next
  case (2 p v fl ws s)
  then obtain k where "keyof s p = Some k" by auto
  with 2 show ?case using update_keeps [of s p k v fl] by auto
qed

end

locale framed_store = keyed_store +
  assumes update_frame: "ok s \<Longrightarrow> keyof s p = Some k \<Longrightarrow> update p (Some v) fl s = (Inr (), s') \<Longrightarrow>
      k' \<noteq> k \<Longrightarrow> view s' k' = view s k'"
begin

lemma view_update:
  "ok s \<Longrightarrow> keyof s p = Some k \<Longrightarrow> update p (Some v) fl s = (Inr (), s') \<Longrightarrow>
   view s' = (view s)(k \<mapsto> take (vsize s) v)"
  using update_success [of s p k v fl s'] update_frame [of s p k v fl s'] by auto

lemma other_write:
  "ok s \<Longrightarrow> keyof s p = Some k \<Longrightarrow> keyof s p' = Some k' \<Longrightarrow> k' \<noteq> k \<Longrightarrow>
   lookup p' (snd (update p (Some v) fl s)) = lookup p' s"
proof (cases "update p (Some v) fl s")
  case (Pair r s')
  assume a: "ok s" "keyof s p = Some k" "keyof s p' = Some k'" "k' \<noteq> k"
  show ?thesis
  proof (cases r)
    case (Inl f)
    then show ?thesis using a update_failure Pair by fastforce
  next
    case (Inr u)
    with Pair have e: "update p (Some v) fl s = (Inr (), s')" by simp
    then show ?thesis
      using a update_success [OF a(1,2) e] update_frame [OF a(1,2) e a(4)]
      by (simp add: lookup_view)
  qed
qed

lemma last_write_wins:
  assumes "ok s" and "\<forall>(p, v, fl)\<in>set ws. keyof s p \<noteq> None \<and> keyof s p \<noteq> Some k"
    and "keyof s p = Some k" and "update p (Some v) fl s = (Inr (), s')"
  shows "lookup p (writes ws s') = Inr (take (vsize s) v)"
proof -
  have s': "ok s'" "keyof s' = keyof s" using update_success [OF assms(1,3,4)] by auto
  have "lookup p (writes ws t) = lookup p t" if "ok t" "keyof t = keyof s" for t
    using assms(2) that
  proof (induction ws t rule: writes.induct)
    case (1 t)
    then show ?case by simp
  next
    case (2 q w g ws t)
    then obtain k2 where k2: "keyof t q = Some k2" "k2 \<noteq> k" by auto
    then show ?case
      using 2 update_keeps [of t q k2 w g] other_write [of t q k2 p k w g] assms(3) by auto
  qed
  then show ?thesis using s' read_your_write [OF assms(1,3,4)] by simp
qed

end

subsection \<open>Key iteration\<close>

text \<open>The iteration of \<open>bpf_map_get_next_key\<close> from a null key, at most \<open>n\<close> calls.\<close>

fun walk :: "(ptr \<Rightarrow> bytes res) \<Rightarrow> nat \<Rightarrow> ptr \<Rightarrow> bytes list \<times> fault option" where
  "walk nx 0 p = ([], None)"
| "walk nx (Suc n) p = (case nx p of
       Inl f \<Rightarrow> ([], Some f)
     | Inr k \<Rightarrow> (let (ks, f) = walk nx n (Some k) in (k # ks, f)))"

locale key_iter =
  fixes ok :: "'s \<Rightarrow> bool"
    and keys :: "'s \<Rightarrow> bytes list"
    and nextkey :: "ptr \<Rightarrow> 's \<Rightarrow> bytes res"
  assumes first_key: "ok s \<Longrightarrow>
      nextkey None s = (case keys s of [] \<Rightarrow> Inl (Errno ENOENT) | k # _ \<Rightarrow> Inr k)"
    and succ_key: "ok s \<Longrightarrow> keys s = ks @ k # k' # ks' \<Longrightarrow> nextkey (Some k) s = Inr k'"
    and last_key: "ok s \<Longrightarrow> keys s = ks @ [k] \<Longrightarrow> nextkey (Some k) s = Inl (Errno ENOENT)"
begin

lemma walk_from:
  "ok s \<Longrightarrow> keys s = ks @ k # ks' \<Longrightarrow> length ks' < n \<Longrightarrow>
   walk (\<lambda>p. nextkey p s) n (Some k) = (ks', Some (Errno ENOENT))"
proof (induction n arbitrary: ks k ks')
  case 0
  then show ?case by simp
next
  case (Suc n)
  show ?case
  proof (cases ks')
    case Nil
    then show ?thesis using Suc.prems last_key by simp
  next
    case (Cons k2 ks2)
    then show ?thesis
      using Suc.prems Suc.IH [of "ks @ [k]" k2 ks2] succ_key [of s ks k k2 ks2] by simp
  qed
qed

lemma walk_all:
  assumes "ok s" and "length (keys s) < n"
  shows "walk (\<lambda>p. nextkey p s) n None = (keys s, Some (Errno ENOENT))"
proof (cases "keys s")
  case Nil
  then show ?thesis using assms by (cases n) (simp_all add: first_key)
next
  case (Cons k ks)
  then show ?thesis
    using assms walk_from [of s "[]" k ks] by (cases n) (simp_all add: first_key)
qed

end

end
