(* ===== verification/Var_Hash_Map.thy ===== *)
theory Var_Hash_Map
  imports Map_Common
begin

text \<open>
  \<open>var_size_hash_map_impl\<close> (\<open>runtime/src/bpf_map/userspace/var_hash_map.cpp\<close>): a
  dictionary from keys of \<open>_key_size\<close> bytes to values of \<open>_value_size\<close> bytes with the update
  flags, the capacity and the access flags of the kernel's hash map. The scratch buffers
  \<open>key_vec\<close> and \<open>value_vec\<close> are overwritten before each use and have no state here.
\<close>

unbundle bit_operations_syntax

record var_hash_map =
  vh_impl :: "bytes dict"
  vh_key_size :: nat
  vh_value_size :: nat
  vh_max_entries :: nat
  vh_flags :: nat

abbreviation (input) BPF_F_RDONLY :: nat where "BPF_F_RDONLY \<equiv> 8"
abbreviation (input) BPF_F_WRONLY :: nat where "BPF_F_WRONLY \<equiv> 16"

definition vh_is_good_update_flag :: "nat \<Rightarrow> bool" where
  "vh_is_good_update_flag flags \<longleftrightarrow> flags = BPF_ANY \<or> flags = BPF_EXIST \<or> flags = BPF_NOEXIST"

definition vh_new :: "nat \<Rightarrow> nat \<Rightarrow> nat \<Rightarrow> nat \<Rightarrow> var_hash_map" where
  "vh_new key_size value_size max_entries flags =
     \<lparr>vh_impl = [], vh_key_size = key_size, vh_value_size = value_size,
      vh_max_entries = max_entries, vh_flags = flags\<rparr>"

definition vh_elem_lookup :: "ptr \<Rightarrow> var_hash_map \<Rightarrow> bytes res" where
  "vh_elem_lookup key m =
     (if vh_flags m AND BPF_F_WRONLY \<noteq> 0 then Inl (Errno EPERM)
      else (case rd key (vh_key_size m) of
          Inl f \<Rightarrow> Inl f
        | Inr k \<Rightarrow> (case map_of (vh_impl m) k of
              None \<Rightarrow> Inl (Errno ENOENT)
            | Some v \<Rightarrow> Inr v)))"

definition vh_elem_update ::
  "bytes inserter \<Rightarrow> ptr \<Rightarrow> ptr \<Rightarrow> nat \<Rightarrow> var_hash_map \<Rightarrow> unit res \<times> var_hash_map"
where
  "vh_elem_update ins key value flags m =
     (if \<not> vh_is_good_update_flag flags then (Inl (Errno EINVAL), m)
      else (case rd key (vh_key_size m) of
          Inl f \<Rightarrow> (Inl f, m)
        | Inr k \<Rightarrow> (case rd value (vh_value_size m) of
              Inl f \<Rightarrow> (Inl f, m)
            | Inr v \<Rightarrow>
                (let element_exists = map_of (vh_impl m) k \<noteq> None in
                 if flags = BPF_NOEXIST \<and> element_exists then (Inl (Errno EEXIST), m)
                 else if flags = BPF_EXIST \<and> \<not> element_exists then (Inl (Errno ENOENT), m)
                 else if \<not> element_exists \<and> length (vh_impl m) = vh_max_entries m
                   then (Inl (Errno E2BIG), m)
                 else if \<not> element_exists \<and> vh_flags m AND BPF_F_RDONLY \<noteq> 0
                   then (Inl (Errno EPERM), m)
                 else (Inr (), m\<lparr>vh_impl := insert_or_assign ins k v (vh_impl m)\<rparr>)))))"

definition vh_elem_delete :: "ptr \<Rightarrow> var_hash_map \<Rightarrow> unit res \<times> var_hash_map" where
  "vh_elem_delete key m = (case rd key (vh_key_size m) of
       Inl f \<Rightarrow> (Inl f, m)
     | Inr k \<Rightarrow> (case map_of (vh_impl m) k of
           None \<Rightarrow> (Inl (Errno ENOENT), m)
         | Some _ \<Rightarrow> (Inr (), m\<lparr>vh_impl := dict_erase k (vh_impl m)\<rparr>)))"

definition vh_lookup_and_delete :: "ptr \<Rightarrow> outbuf \<Rightarrow> var_hash_map \<Rightarrow> bytes res \<times> var_hash_map" where
  "vh_lookup_and_delete key value_out m = (case rd key (vh_key_size m) of
       Inl f \<Rightarrow> (Inl f, m)
     | Inr k \<Rightarrow> (case map_of (vh_impl m) k of
           None \<Rightarrow> (Inl (Errno ENOENT), m)
         | Some v \<Rightarrow> (case copy_out value_out (load 0 (vh_value_size m) v) of
               Inl f \<Rightarrow> (Inl f, m)
             | Inr bs \<Rightarrow> (Inr bs, m\<lparr>vh_impl := dict_erase k (vh_impl m)\<rparr>))))"

text \<open>The first key, for a null key and for a key that is not in the map.\<close>

definition vh_first_key :: "outbuf \<Rightarrow> var_hash_map \<Rightarrow> bytes res" where
  "vh_first_key next_key m = (case vh_impl m of
       [] \<Rightarrow> Inl (Errno ENOENT)
     | x # _ \<Rightarrow> copy_out next_key (Inr (fst x)))"

definition vh_map_get_next_key :: "ptr \<Rightarrow> outbuf \<Rightarrow> var_hash_map \<Rightarrow> bytes res" where
  "vh_map_get_next_key key next_key m =
     (if vh_flags m AND BPF_F_WRONLY \<noteq> 0 then Inl (Errno EPERM)
      else if key = None then vh_first_key next_key m
      else (case rd key (vh_key_size m) of
          Inl f \<Rightarrow> Inl f
        | Inr k \<Rightarrow> (case map_of (vh_impl m) k of
              None \<Rightarrow> vh_first_key next_key m
            | Some _ \<Rightarrow> (case dict_next k (vh_impl m) of
                  None \<Rightarrow> Inl (Errno ENOENT)
                | Some k' \<Rightarrow> copy_out next_key (Inr k')))))"

subsection \<open>Invariant\<close>

definition vh_inv :: "var_hash_map \<Rightarrow> bool" where
  "vh_inv m \<longleftrightarrow> distinct (map fst (vh_impl m)) \<and> length (vh_impl m) \<le> vh_max_entries m \<and>
     (\<forall>(k, v)\<in>set (vh_impl m). length k = vh_key_size m \<and> length v = vh_value_size m)"

definition vh_view :: "var_hash_map \<Rightarrow> bytes \<Rightarrow> bytes option" where
  "vh_view m = map_of (vh_impl m)"

definition vh_keyof :: "var_hash_map \<Rightarrow> ptr \<Rightarrow> bytes option" where
  "vh_keyof m p = (case rd p (vh_key_size m) of Inl _ \<Rightarrow> None | Inr k \<Rightarrow> Some k)"

definition vh_readable :: "var_hash_map \<Rightarrow> bool" where
  "vh_readable m \<longleftrightarrow> vh_inv m \<and> vh_flags m AND BPF_F_WRONLY = 0"

lemmas vh_rd_splits = sum.splits option.splits if_splits

lemma vh_keyof_Some: "vh_keyof m p = Some k \<longleftrightarrow> rd p (vh_key_size m) = Inr k"
  by (auto simp: vh_keyof_def split: sum.splits)

lemma vh_inv_new: "vh_inv (vh_new ks vs me fl)"
  by (simp add: vh_inv_def vh_new_def)

lemma vh_update_success:
  assumes "vh_elem_update ins p q fl m = (Inr (), m')"
  obtains k v where "rd p (vh_key_size m) = Inr k" and "rd q (vh_value_size m) = Inr v"
    and "m' = m\<lparr>vh_impl := insert_or_assign ins k v (vh_impl m)\<rparr>"
    and "map_of (vh_impl m) k \<noteq> None \<or> length (vh_impl m) \<noteq> vh_max_entries m"
  using assms by (auto simp: vh_elem_update_def Let_def split: vh_rd_splits)

lemma vh_update_inv:
  assumes ins: "ins_ok ins" and inv: "vh_inv m"
  shows "vh_inv (snd (vh_elem_update ins p q fl m))"
proof (cases "vh_elem_update ins p q fl m")
  case (Pair r m')
  show ?thesis
  proof (cases r)
    case (Inl f)
    then have "m' = m" using Pair by (auto simp: vh_elem_update_def Let_def split: vh_rd_splits)
    then show ?thesis using Pair inv by simp
  next
    case (Inr u)
    with Pair have "vh_elem_update ins p q fl m = (Inr (), m')" by simp
    then obtain k v where kv: "rd p (vh_key_size m) = Inr k" "rd q (vh_value_size m) = Inr v"
      "m' = m\<lparr>vh_impl := insert_or_assign ins k v (vh_impl m)\<rparr>"
      "map_of (vh_impl m) k \<noteq> None \<or> length (vh_impl m) \<noteq> vh_max_entries m"
      by (rule vh_update_success)
    then have "length k = vh_key_size m" "length v = vh_value_size m"
      by (auto simp: rd_Inr_iff)
    then show ?thesis
      using Pair inv kv(3,4) ins
      by (auto simp: vh_inv_def distinct_insert_or_assign length_insert_or_assign
          dest!: dict_in_set_insert_or_assign [OF ins])
  qed
qed

lemma vh_delete_inv: "vh_inv m \<Longrightarrow> vh_inv (snd (vh_elem_delete p m))"
  by (auto simp: vh_elem_delete_def vh_inv_def distinct_dict_erase dict_erase_def
      split: sum.splits option.splits intro!: distinct_map_filter le_trans [OF length_filter_le])

lemma vh_lookup_and_delete_inv: "vh_inv m \<Longrightarrow> vh_inv (snd (vh_lookup_and_delete p out m))"
  by (auto simp: vh_lookup_and_delete_def vh_inv_def distinct_dict_erase dict_erase_def
      split: sum.splits option.splits intro!: distinct_map_filter le_trans [OF length_filter_le])

subsection \<open>Interpretations\<close>

text \<open>With the iteration order that puts new elements first.\<close>

abbreviation (input) cons_ins :: "'v inserter" where
  "cons_ins \<equiv> (\<lambda>k v d. (k, v) # d)"

lemma cons_ins_ok: "ins_ok cons_ins"
  by (simp add: ins_ok_def)

lemma vh_framed_store:
  assumes ins: "ins_ok ins"
  shows "framed_store vh_readable vh_view vh_keyof vh_value_size (Errno ENOENT) vh_elem_lookup (vh_elem_update ins)"
proof
  fix m m' p k v fl q f k'
  assume m: "vh_readable m"
  show "vh_elem_lookup p m =
      (case vh_view m k of None \<Rightarrow> Inl (Errno ENOENT) | Some v \<Rightarrow> Inr v)"
    if "vh_keyof m p = Some k"
    using m that by (simp add: vh_elem_lookup_def vh_keyof_Some vh_readable_def vh_view_def)
  show "m' = m" if "vh_elem_update ins p q fl m = (Inl f, m')"
    using that by (auto simp: vh_elem_update_def Let_def split: vh_rd_splits)
  assume k: "vh_keyof m p = Some k" and u: "vh_elem_update ins p (Some v) fl m = (Inr (), m')"
  have m': "m' = m\<lparr>vh_impl := insert_or_assign ins k (take (vh_value_size m) v) (vh_impl m)\<rparr>"
    using vh_update_success [OF u] k by (auto simp: vh_keyof_Some rd_Inr_iff)
  then have view: "vh_view m' = (vh_view m)(k \<mapsto> take (vh_value_size m) v)"
    using m ins by (simp add: vh_view_def map_of_insert_or_assign vh_readable_def vh_inv_def)
  show "vh_view m' k' = vh_view m k'" if "k' \<noteq> k"
    using view that by simp
  show "vh_readable m' \<and> vh_keyof m' = vh_keyof m \<and> vh_value_size m' = vh_value_size m \<and>
      vh_view m' k = Some (take (vh_value_size m) v) \<and>
      (\<forall>k'. k' \<noteq> k \<longrightarrow> vh_view m' k' = None \<or> vh_view m' k' = vh_view m k')"
    using m m' view vh_update_inv [OF ins, of m p "Some v" fl] u
    by (auto simp: vh_readable_def vh_keyof_def fun_eq_iff)
qed

interpretation vhs: framed_store vh_readable vh_view vh_keyof vh_value_size "Errno ENOENT" vh_elem_lookup
  "vh_elem_update cons_ins"
  by (rule vh_framed_store [OF cons_ins_ok])

interpretation vhi: key_iter vh_readable "\<lambda>m. map fst (vh_impl m)"
  "\<lambda>p m. vh_map_get_next_key p (Some (vh_key_size m)) m"
proof
  fix m ks k k' ks'
  assume m: "vh_readable m"
  have len: "length j = vh_key_size m" if "j \<in> fst ` set (vh_impl m)" for j
    using m that by (auto simp: vh_readable_def vh_inv_def)
  show "vh_map_get_next_key None (Some (vh_key_size m)) m =
      (case map fst (vh_impl m) of [] \<Rightarrow> Inl (Errno ENOENT) | k # _ \<Rightarrow> Inr k)"
    using m len by (cases "vh_impl m")
      (auto simp: vh_map_get_next_key_def vh_first_key_def vh_readable_def copy_out_def)
  have mem: "length j = vh_key_size m \<and> map_of (vh_impl m) j \<noteq> None" if "j \<in> set (map fst (vh_impl m))" for j
    using that len by (simp add: map_of_eq_None_iff)
  have d: "distinct (map fst (vh_impl m))" using m by (simp add: vh_readable_def vh_inv_def)
  show "vh_map_get_next_key (Some k) (Some (vh_key_size m)) m = Inr k'"
    if e: "map fst (vh_impl m) = ks @ k # k' # ks'"
    using m mem [of k] mem [of k'] dict_next_middle [OF d e] e
    by (auto simp: vh_map_get_next_key_def vh_readable_def rd_def copy_out_def)
  show "vh_map_get_next_key (Some k) (Some (vh_key_size m)) m = Inl (Errno ENOENT)"
    if e: "map fst (vh_impl m) = ks @ [k]"
    using m mem [of k] dict_next_last [OF d e] e
    by (auto simp: vh_map_get_next_key_def vh_readable_def rd_def)
qed

subsection \<open>Properties\<close>

text \<open>
  whatever the iteration order of the dictionary, a successful update is what every later
  lookup of the same key returns, however many updates of other keys follow, failed ones
  included.
\<close>

theorem vh_last_write_wins:
  assumes "ins_ok ins" and "vh_readable m" and "vh_keyof m p = Some k"
    and "vh_elem_update ins p (Some v) fl m = (Inr (), m')"
    and "\<forall>(p', v', fl')\<in>set ws. vh_keyof m p' \<noteq> None \<and> vh_keyof m p' \<noteq> Some k"
  shows "vh_elem_lookup p (foldl (\<lambda>t (p', v', fl'). snd (vh_elem_update ins p' (Some v') fl' t)) m' ws)
    = Inr (take (vh_value_size m) v)"
proof -
  have "keyed_store.writes (vh_elem_update ins) ws t =
      foldl (\<lambda>t (p', v', fl'). snd (vh_elem_update ins p' (Some v') fl' t)) t ws" for t
  proof (induction ws arbitrary: t)
    case Nil
    show ?case by (simp add: keyed_store.writes.simps
          [OF framed_store.axioms(1) [OF vh_framed_store [OF assms(1)]]])
  next
    case (Cons w ws)
    then show ?case by (cases w) (simp add: keyed_store.writes.simps
          [OF framed_store.axioms(1) [OF vh_framed_store [OF assms(1)]]])
  qed
  then show ?thesis
    using framed_store.last_write_wins [OF vh_framed_store [OF assms(1)] assms(2,5,3,4)] by simp
qed

theorem vh_last_write_wins_witness:
  "\<exists>m'. vh_elem_update (\<lambda>k v d. (k, v) # d) (Some [1]) (Some [7]) 0 (vh_new 1 1 1 0) = (Inr (), m') \<and>
     vh_elem_lookup (Some [1]) (foldl (\<lambda>t (p', v', fl').
        snd (vh_elem_update (\<lambda>k v d. (k, v) # d) p' (Some v') fl' t)) m' [(Some [2], [9], 0)]) = Inr [7]"
proof -
  let ?ins = "\<lambda>k v d. (k, v) # d" and ?m = "vh_new 1 1 1 0"
  have u: "vh_elem_update ?ins (Some [1]) (Some [7]) 0 ?m = (Inr (), ?m\<lparr>vh_impl := [([1], [7])]\<rparr>)"
    by (simp add: vh_elem_update_def vh_new_def vh_is_good_update_flag_def rd_def insert_or_assign_def)
  have r: "vh_readable ?m" by (simp add: vh_readable_def vh_inv_new) (simp add: vh_new_def)
  have k: "vh_keyof ?m (Some [1]) = Some [1]" "vh_keyof ?m (Some [2]) = Some [2]"
    by (simp_all add: vh_keyof_def vh_new_def rd_def)
  show ?thesis
    using vh_last_write_wins [OF cons_ins_ok r k(1) u, of "[(Some [2], [9], 0)]"] k u
    by (simp add: vh_new_def)
qed

text \<open>
  iterating with \<open>map_get_next_key\<close> from a null key visits every key of the map once and
  then ends with \<open>ENOENT\<close>; more calls than keys are enough.
\<close>

theorem vh_iteration_complete:
  assumes "vh_readable m" and "length (vh_impl m) < n"
  shows "walk (\<lambda>p. vh_map_get_next_key p (Some (vh_key_size m)) m) n None
      = (map fst (vh_impl m), Some (Errno ENOENT)) \<and> distinct (map fst (vh_impl m))"
  using vhi.walk_all [of m n] assms by (simp add: vh_readable_def vh_inv_def)

theorem vh_iteration_complete_witness:
  "walk (\<lambda>p. vh_map_get_next_key p (Some 1)
      \<lparr>vh_impl = [([1], [7]), ([2], [8])], vh_key_size = 1, vh_value_size = 1, vh_max_entries = 3,
       vh_flags = 0\<rparr>) 3 None = ([[1], [2]], Some (Errno ENOENT))"
  using vh_iteration_complete [of "\<lparr>vh_impl = [([1], [7]), ([2], [8])], vh_key_size = 1,
      vh_value_size = 1, vh_max_entries = 3, vh_flags = 0\<rparr>" 3]
  by (simp add: vh_readable_def vh_inv_def)

end
