(* ===== verification/Array_Map.thy ===== *)
theory Array_Map
  imports Map_Common
begin

text \<open>
  \<open>array_map_impl\<close> (\<open>runtime/src/bpf_map/userspace/array_map.cpp\<close>) and
  \<open>array_map_of_maps_impl\<close> (\<open>map_in_maps.hpp\<close>): one byte vector of
  \<open>value_size * max_entries\<close> bytes, a product taken in \<open>uint32_t\<close>, as is the offset of an
  element.
\<close>

record array_map =
  arr_data :: bytes
  arr_value_size :: nat
  arr_max_entries :: nat

definition arr_new :: "nat \<Rightarrow> nat \<Rightarrow> array_map" where
  "arr_new value_size max_entries =
     \<lparr>arr_data = replicate (w32 (value_size * max_entries)) 0,
      arr_value_size = value_size, arr_max_entries = max_entries\<rparr>"

definition arr_get_raw_data :: "array_map \<Rightarrow> bytes" where
  "arr_get_raw_data a = arr_data a"

definition arr_off :: "nat \<Rightarrow> array_map \<Rightarrow> nat" where
  "arr_off key_val a = w32 (key_val * arr_value_size a)"

definition arr_elem_lookup :: "ptr \<Rightarrow> array_map \<Rightarrow> bytes res" where
  "arr_elem_lookup key a = (case rd_u32 key of
       Inl f \<Rightarrow> Inl f
     | Inr key_val \<Rightarrow>
         (if key_val \<ge> arr_max_entries a then Inl (Errno ENOENT)
          else load (arr_off key_val a) (arr_value_size a) (arr_data a)))"

definition arr_elem_update :: "ptr \<Rightarrow> ptr \<Rightarrow> nat \<Rightarrow> array_map \<Rightarrow> unit res \<times> array_map" where
  "arr_elem_update key value flags a = (case check_update_flags flags of
       Inl f \<Rightarrow> (Inl f, a)
     | Inr _ \<Rightarrow> (case rd_u32 key of
           Inl f \<Rightarrow> (Inl f, a)
         | Inr key_val \<Rightarrow>
             (if key_val < arr_max_entries a \<and> flags = BPF_NOEXIST then (Inl (Errno EEXIST), a)
              else if key_val \<ge> arr_max_entries a then (Inl (Errno E2BIG), a)
              else (case rd value (arr_value_size a) of
                  Inl f \<Rightarrow> (Inl f, a)
                | Inr v \<Rightarrow> (case store (arr_off key_val a) v (arr_data a) of
                      Inl f \<Rightarrow> (Inl f, a)
                    | Inr d \<Rightarrow> (Inr (), a\<lparr>arr_data := d\<rparr>))))))"

definition arr_elem_delete :: "ptr \<Rightarrow> array_map \<Rightarrow> unit res" where
  "arr_elem_delete key a = (case rd_u32 key of
       Inl f \<Rightarrow> Inl f
     | Inr key_val \<Rightarrow> Inl (Errno EINVAL))"

text \<open>\<open>*(uint32_t *)next_key = k\<close>.\<close>

definition wr_key_u32 :: "outbuf \<Rightarrow> nat \<Rightarrow> bytes res" where
  "wr_key_u32 next_key k = copy_out next_key (Inr (le_bytes 4 k))"

definition arr_map_get_next_key :: "ptr \<Rightarrow> outbuf \<Rightarrow> array_map \<Rightarrow> bytes res" where
  "arr_map_get_next_key key next_key a =
     (if key = None then wr_key_u32 next_key 0
      else (case rd_u32 key of
          Inl f \<Rightarrow> Inl f
        | Inr deref_key \<Rightarrow>
            (if deref_key \<ge> arr_max_entries a then wr_key_u32 next_key 0
             else if deref_key = dec32 (arr_max_entries a) then Inl (Errno ENOENT)
             else wr_key_u32 next_key (w32 (deref_key + 1)))))"

text \<open>
  \<open>array_map_of_maps_impl\<close>: values are \<open>int\<close> map ids; a lookup returns the id, sign
  extended, in the upper half of a 64-bit handle. The result of the inner lookup is
  dereferenced without a test, so a failed inner lookup is a null dereference.
\<close>

definition aom_new :: "nat \<Rightarrow> array_map" where
  "aom_new max_entries = arr_new 4 max_entries"

definition aom_elem_lookup :: "ptr \<Rightarrow> array_map \<Rightarrow> nat res" where
  "aom_elem_lookup key a = (case arr_elem_lookup key a of
       Inl _ \<Rightarrow> Inl UB
     | Inr v \<Rightarrow> (case rd_s32 (Some v) of
           Inl f \<Rightarrow> Inl f
         | Inr map_id \<Rightarrow> Inr (w64 (nat (map_id mod 2 ^ 64) * 2 ^ 32))))"

subsection \<open>Invariant\<close>

definition arr_inv :: "array_map \<Rightarrow> bool" where
  "arr_inv a \<longleftrightarrow> arr_max_entries a < 2 ^ 32 \<and> arr_max_entries a * arr_value_size a < 2 ^ 32 \<and>
     length (arr_data a) = arr_max_entries a * arr_value_size a"

definition arr_view :: "array_map \<Rightarrow> nat \<Rightarrow> bytes option" where
  "arr_view a i =
     (if i < arr_max_entries a then Some (blk_get (i * arr_value_size a) (arr_value_size a) (arr_data a))
      else None)"

definition u32_keyof :: "'s \<Rightarrow> ptr \<Rightarrow> nat option" where
  "u32_keyof s p = (case rd_u32 p of Inl _ \<Rightarrow> None | Inr i \<Rightarrow> Some i)"

lemma u32_keyof_Some: "u32_keyof s p = Some i \<longleftrightarrow> rd_u32 p = Inr i"
  by (auto simp: u32_keyof_def split: sum.splits)

lemma arr_inv_new: "me < 2 ^ 32 \<Longrightarrow> vs * me < 2 ^ 32 \<Longrightarrow> arr_inv (arr_new vs me)"
  by (simp add: arr_inv_def arr_new_def mult.commute)

lemma arr_slot_end:
  "arr_inv a \<Longrightarrow> i < arr_max_entries a \<Longrightarrow>
   i * arr_value_size a + arr_value_size a \<le> length (arr_data a)"
  using block_end_le [of i "arr_max_entries a" "arr_value_size a"] by (simp add: arr_inv_def)

lemma arr_off_eq:
  assumes "arr_inv a" and "i < arr_max_entries a"
  shows "arr_off i a = i * arr_value_size a"
proof -
  have "i * arr_value_size a < 2 ^ 32"
    using arr_slot_end [OF assms] assms(1) by (simp add: arr_inv_def)
  then show ?thesis by (simp add: arr_off_def)
qed

lemma arr_lookup_eq:
  "arr_inv a \<Longrightarrow> rd_u32 p = Inr i \<Longrightarrow>
   arr_elem_lookup p a = (case arr_view a i of None \<Rightarrow> Inl (Errno ENOENT) | Some v \<Rightarrow> Inr v)"
  using arr_slot_end [of a i] arr_off_eq [of a i]
  by (auto simp: arr_elem_lookup_def arr_view_def load_def)

lemma arr_update_success:
  assumes inv: "arr_inv a" and u: "arr_elem_update p q fl a = (Inr (), a')"
  obtains i v where "rd_u32 p = Inr i" and "rd q (arr_value_size a) = Inr v"
    and "i < arr_max_entries a" and "fl = 0 \<or> fl = 2"
    and "a' = a\<lparr>arr_data := blk_put (i * arr_value_size a) v (arr_data a)\<rparr>"
  using assms arr_off_eq [OF inv]
  by (auto simp: arr_elem_update_def check_update_flags_def store_def
      split: sum.splits option.splits if_splits)

lemma arr_update_ok:
  assumes "arr_inv a" and "rd_u32 p = Inr i" and "i < arr_max_entries a" and "fl = 0 \<or> fl = 2"
    and "arr_value_size a \<le> length v"
  shows "arr_elem_update p (Some v) fl a =
    (Inr (), a\<lparr>arr_data := blk_put (i * arr_value_size a) (take (arr_value_size a) v) (arr_data a)\<rparr>)"
  using assms arr_slot_end [of a i] arr_off_eq [of a i]
  by (auto simp: arr_elem_update_def check_update_flags_def store_def rd_def)

lemma arr_view_put:
  assumes inv: "arr_inv a" and i: "i < arr_max_entries a" and v: "length v = arr_value_size a"
  shows "arr_view (a\<lparr>arr_data := blk_put (i * arr_value_size a) v (arr_data a)\<rparr>) = (arr_view a)(i \<mapsto> v)"
proof
  fix j
  have e: "i * arr_value_size a + length v \<le> length (arr_data a)"
    using arr_slot_end [OF inv i] v by simp
  show "arr_view (a\<lparr>arr_data := blk_put (i * arr_value_size a) v (arr_data a)\<rparr>) j
      = ((arr_view a)(i \<mapsto> v)) j"
  proof (cases "j = i")
    case True
    then show ?thesis using e i v by (simp add: arr_view_def blk_get_put_same)
  next
    case False
    then show ?thesis
      using e v blocks_disjoint [of j i "arr_value_size a"]
      by (simp add: arr_view_def blk_get_put_other)
  qed
qed

interpretation ars: framed_store arr_inv arr_view u32_keyof arr_value_size "Errno ENOENT" arr_elem_lookup
  arr_elem_update
proof
  fix a a' p k v fl q f k'
  assume inv: "arr_inv a"
  show "arr_elem_lookup p a = (case arr_view a k of None \<Rightarrow> Inl (Errno ENOENT) | Some v \<Rightarrow> Inr v)"
    if "u32_keyof a p = Some k"
    using arr_lookup_eq [OF inv] that by (simp add: u32_keyof_Some)
  show "a' = a" if "arr_elem_update p q fl a = (Inl f, a')"
    using that by (auto simp: arr_elem_update_def split: sum.splits if_splits)
  assume k: "u32_keyof a p = Some k" and u: "arr_elem_update p (Some v) fl a = (Inr (), a')"
  have k': "k < arr_max_entries a" and vl: "arr_value_size a \<le> length v"
    and a': "a' = a\<lparr>arr_data := blk_put (k * arr_value_size a) (take (arr_value_size a) v) (arr_data a)\<rparr>"
    using arr_update_success [OF inv u] k by (auto simp: u32_keyof_Some rd_Inr_iff)
  have view: "arr_view a' = (arr_view a)(k \<mapsto> take (arr_value_size a) v)"
    using arr_view_put [OF inv k', of "take (arr_value_size a) v"] vl a' by simp
  show "arr_view a' k' = arr_view a k'" if "k' \<noteq> k"
    using view that by simp
  show "arr_inv a' \<and> u32_keyof a' = u32_keyof a \<and> arr_value_size a' = arr_value_size a \<and>
      arr_view a' k = Some (take (arr_value_size a) v) \<and>
      (\<forall>k'. k' \<noteq> k \<longrightarrow> arr_view a' k' = None \<or> arr_view a' k' = arr_view a k')"
    using inv a' view arr_slot_end [OF inv k'] vl
    by (auto simp: arr_inv_def u32_keyof_def fun_eq_iff)
qed

definition u32_keys :: "nat \<Rightarrow> bytes list" where
  "u32_keys n = map (le_bytes 4) [0..<n]"

lemma u32_keys_at:
  assumes "n < 2 ^ 32" and "u32_keys n = ks @ k # ks'"
  shows "rd_u32 (Some k) = Inr (length ks) \<and> k = le_bytes 4 (length ks) \<and> n = Suc (length ks + length ks')"
proof -
  have n: "n = Suc (length ks + length ks')"
    using assms(2) by (metis length_append length_Cons length_map length_upt u32_keys_def
        add_Suc_right diff_zero)
  have "k = u32_keys n ! length ks" using assms(2) by simp
  also have "\<dots> = le_bytes 4 (length ks)" using n by (simp add: u32_keys_def del: upt_Suc)
  finally have k: "k = le_bytes 4 (length ks)" .
  then have "rd_u32 (Some k) = Inr (length ks mod 256 ^ 4)"
    by (simp add: rd_u32_def rd_def le_nat_le_bytes)
  then show ?thesis using assms(1) n k by simp
qed

interpretation ari: key_iter "\<lambda>a. arr_inv a \<and> 0 < arr_max_entries a"
  "\<lambda>a. u32_keys (arr_max_entries a)" "\<lambda>p a. arr_map_get_next_key p (Some 4) a"
proof
  fix a ks k k' ks'
  assume inv: "arr_inv a \<and> 0 < arr_max_entries a"
  then have me: "0 < arr_max_entries a" "arr_max_entries a < 2 ^ 32" by (auto simp: arr_inv_def)
  have d: "dec32 (arr_max_entries a) = arr_max_entries a - 1" using me by (intro dec32_pos) auto
  have "u32_keys (arr_max_entries a) = le_bytes 4 0 # map (le_bytes 4) [1..<arr_max_entries a]"
    using me by (simp add: u32_keys_def upt_conv_Cons)
  then show "arr_map_get_next_key None (Some 4) a =
      (case u32_keys (arr_max_entries a) of [] \<Rightarrow> Inl (Errno ENOENT) | k # _ \<Rightarrow> Inr k)"
    by (simp add: arr_map_get_next_key_def wr_key_u32_def copy_out_def)
  show "arr_map_get_next_key (Some k) (Some 4) a = Inr k'"
    if e: "u32_keys (arr_max_entries a) = ks @ k # k' # ks'"
  proof -
    have "rd_u32 (Some k) = Inr (length ks)" using u32_keys_at [OF me(2) e] by blast
    moreover have "arr_max_entries a = Suc (Suc (length ks + length ks'))"
      using u32_keys_at [OF me(2) e] by simp
    moreover have "k' = le_bytes 4 (Suc (length ks))"
      using u32_keys_at [OF me(2), of "ks @ [k]" k' ks'] e by simp
    ultimately show ?thesis
      using d me by (simp add: arr_map_get_next_key_def wr_key_u32_def copy_out_def)
  qed
  show "arr_map_get_next_key (Some k) (Some 4) a = Inl (Errno ENOENT)"
    if e: "u32_keys (arr_max_entries a) = ks @ [k]"
  proof -
    have "rd_u32 (Some k) = Inr (length ks)" using u32_keys_at [OF me(2) e] by blast
    moreover have "arr_max_entries a = Suc (length ks)" using u32_keys_at [OF me(2) e] by simp
    ultimately show ?thesis using d by (simp add: arr_map_get_next_key_def)
  qed
qed

subsection \<open>Properties\<close>

text \<open>
  on an array whose size in bytes fits \<open>uint32_t\<close>, an update of an index in range with
  \<open>BPF_ANY\<close> or \<open>BPF_EXIST\<close> succeeds, a lookup of that index then returns the value and a
  lookup of any other index returns what it returned before.
\<close>

theorem arr_get_put:
  assumes "arr_inv a" and "rd_u32 p = Inr i" and "i < arr_max_entries a" and "fl = 0 \<or> fl = 2"
    and "arr_value_size a \<le> length v" and "rd_u32 p' = Inr j"
  shows "\<exists>a'. arr_elem_update p (Some v) fl a = (Inr (), a') \<and> arr_inv a' \<and>
    arr_elem_lookup p' a' = (if j = i then Inr (take (arr_value_size a) v) else arr_elem_lookup p' a)"
proof -
  obtain a' where u: "arr_elem_update p (Some v) fl a = (Inr (), a')"
    using arr_update_ok [OF assms(1-5)] by blast
  have k: "u32_keyof a p = Some i" "u32_keyof a p' = Some j" using assms(2,6) by (simp_all add: u32_keyof_Some)
  note ok = ars.update_success [OF assms(1) k(1) u]
  have "arr_elem_lookup p' a' = (if j = i then Inr (take (arr_value_size a) v) else arr_elem_lookup p' a)"
    using ok k ars.lookup_view [of a' p' j] ars.other_write [OF assms(1) k(1,2), of v fl] u by simp
  then show ?thesis using u ok by blast
qed

theorem arr_get_put_witness:
  "\<exists>a'. arr_elem_update (Some [1, 0, 0, 0]) (Some [7, 8]) 0 (arr_new 2 3) = (Inr (), a') \<and>
     arr_elem_lookup (Some [1, 0, 0, 0]) a' = Inr [7, 8]"
proof -
  have "arr_inv (arr_new 2 3)" by (rule arr_inv_new) simp_all
  moreover have "rd_u32 (Some [1, 0, 0, 0]) = Inr 1" by (simp add: rd_u32_def rd_def)
  ultimately have "\<exists>a'. arr_elem_update (Some [1, 0, 0, 0]) (Some [7, 8]) 0 (arr_new 2 3) = (Inr (), a') \<and>
     arr_inv a' \<and> arr_elem_lookup (Some [1, 0, 0, 0]) a' =
       (if (1::nat) = 1 then Inr (take (arr_value_size (arr_new 2 3)) [7, 8])
        else arr_elem_lookup (Some [1, 0, 0, 0]) (arr_new 2 3))"
    by (intro arr_get_put) (simp_all add: arr_new_def)
  then show ?thesis by (auto simp: arr_new_def)
qed

text \<open>
  when \<open>value_size * max_entries\<close> is a multiple of 2^32 the constructor allocates an empty
  vector, and the lookup of every index that passes the range test reads outside it.
\<close>

theorem arr_size_wraps:
  assumes "0 < vs" and "(vs * me) mod 2 ^ 32 = 0" and "rd_u32 p = Inr i" and "i < me"
  shows "arr_elem_lookup p (arr_new vs me) = Inl UB"
  using assms by (simp add: arr_elem_lookup_def arr_new_def w32_def load_def)

theorem arr_size_wraps_witness:
  "arr_elem_lookup (Some [5, 0, 0, 0]) (arr_new 65536 65536) = Inl UB"
  by (rule arr_size_wraps [of _ _ _ 5]) (simp_all add: rd_u32_def rd_def)

end
