(* ===== verification/Percpu_Array.thy ===== *)
theory Percpu_Array
  imports Array_Map
begin

text \<open>
  \<open>per_cpu_array_map_impl\<close> (\<open>runtime/src/bpf_map/userspace/per_cpu_array_map.cpp\<close>): element
  \<open>idx\<close> of cpu \<open>cpu\<close> is at \<open>idx * value_size * ncpu + cpu * value_size\<close>, in \<open>size_t\<close>. A
  program works on the slot of the cpu it runs on, a parameter of the operations; the
  syscall side works on the \<open>ncpu\<close> slots of an element at once.
\<close>

record percpu_array =
  pca_data :: bytes
  pca_ncpu :: nat
  pca_value_size :: nat
  pca_max_ent :: nat

definition pca_new :: "nat \<Rightarrow> nat \<Rightarrow> nat \<Rightarrow> percpu_array" where
  "pca_new value_size max_entries ncpu =
     \<lparr>pca_data = replicate (w32 (w32 (max_entries * ncpu) * value_size)) 0,
      pca_ncpu = ncpu, pca_value_size = value_size, pca_max_ent = max_entries\<rparr>"

definition pca_data_at :: "nat \<Rightarrow> nat \<Rightarrow> percpu_array \<Rightarrow> nat" where
  "pca_data_at idx cpu a =
     w64 (w64 (w64 (idx * pca_value_size a) * pca_ncpu a) + w64 (cpu * pca_value_size a))"

definition pca_elem_lookup :: "nat \<Rightarrow> ptr \<Rightarrow> percpu_array \<Rightarrow> bytes res" where
  "pca_elem_lookup cpu key a =
     (if key = None then Inl (Errno ENOENT)
      else (case rd_u32 key of
          Inl f \<Rightarrow> Inl f
        | Inr key_val \<Rightarrow>
            (if key_val \<ge> pca_max_ent a then Inl (Errno ENOENT)
             else load (pca_data_at key_val cpu a) (pca_value_size a) (pca_data a))))"

definition pca_elem_update :: "nat \<Rightarrow> ptr \<Rightarrow> ptr \<Rightarrow> nat \<Rightarrow> percpu_array \<Rightarrow> unit res \<times> percpu_array" where
  "pca_elem_update cpu key value flags a = (case check_update_flags flags of
       Inl f \<Rightarrow> (Inl f, a)
     | Inr _ \<Rightarrow>
         (if key = None then (Inl (Errno ENOENT), a)
          else (case rd_u32 key of
              Inl f \<Rightarrow> (Inl f, a)
            | Inr key_val \<Rightarrow>
                (if key_val < pca_max_ent a \<and> flags = BPF_NOEXIST then (Inl (Errno EEXIST), a)
                 else if key_val \<ge> pca_max_ent a then (Inl (Errno E2BIG), a)
                 else (case rd value (pca_value_size a) of
                     Inl f \<Rightarrow> (Inl f, a)
                   | Inr v \<Rightarrow> (case store (pca_data_at key_val cpu a) v (pca_data a) of
                         Inl f \<Rightarrow> (Inl f, a)
                       | Inr d \<Rightarrow> (Inr (), a\<lparr>pca_data := d\<rparr>)))))))"

definition pca_elem_delete :: "ptr \<Rightarrow> percpu_array \<Rightarrow> unit res" where
  "pca_elem_delete key a = Inl (Errno EINVAL)"

definition pca_map_get_next_key :: "ptr \<Rightarrow> outbuf \<Rightarrow> percpu_array \<Rightarrow> bytes res" where
  "pca_map_get_next_key key next_key a =
     (if key = None then wr_key_u32 next_key 0
      else (case rd_u32 key of
          Inl f \<Rightarrow> Inl f
        | Inr deref_key \<Rightarrow>
            (if deref_key \<ge> pca_max_ent a then wr_key_u32 next_key 0
             else if deref_key = dec32 (pca_max_ent a) then Inl (Errno ENOENT)
             else wr_key_u32 next_key (w32 (deref_key + 1)))))"

text \<open>The syscall side reads \<open>ncpu * value_size\<close> bytes from the returned pointer.\<close>

definition pca_elem_lookup_userspace :: "ptr \<Rightarrow> percpu_array \<Rightarrow> bytes res" where
  "pca_elem_lookup_userspace key a =
     (if key = None then Inl (Errno ENOENT)
      else (case rd_u32 key of
          Inl f \<Rightarrow> Inl f
        | Inr key_val \<Rightarrow>
            (if key_val \<ge> pca_max_ent a then Inl (Errno ENOENT)
             else load (pca_data_at key_val 0 a) (pca_ncpu a * pca_value_size a) (pca_data a))))"

definition pca_elem_update_userspace ::
  "ptr \<Rightarrow> ptr \<Rightarrow> nat \<Rightarrow> percpu_array \<Rightarrow> unit res \<times> percpu_array"
where
  "pca_elem_update_userspace key value flags a = (case check_update_flags flags of
       Inl f \<Rightarrow> (Inl f, a)
     | Inr _ \<Rightarrow>
         (if key = None then (Inl (Errno ENOENT), a)
          else (case rd_u32 key of
              Inl f \<Rightarrow> (Inl f, a)
            | Inr key_val \<Rightarrow>
                (if key_val < pca_max_ent a \<and> flags = BPF_NOEXIST then (Inl (Errno EEXIST), a)
                 else if key_val \<ge> pca_max_ent a then (Inl (Errno E2BIG), a)
                 else (case rd value (w32 (pca_ncpu a * pca_value_size a)) of
                     Inl f \<Rightarrow> (Inl f, a)
                   | Inr v \<Rightarrow> (case store (pca_data_at key_val 0 a) v (pca_data a) of
                         Inl f \<Rightarrow> (Inl f, a)
                       | Inr d \<Rightarrow> (Inr (), a\<lparr>pca_data := d\<rparr>)))))))"

definition pca_elem_delete_userspace :: "ptr \<Rightarrow> percpu_array \<Rightarrow> unit res" where
  "pca_elem_delete_userspace key a = Inl (Errno EINVAL)"

subsection \<open>Invariant\<close>

definition pca_inv :: "percpu_array \<Rightarrow> bool" where
  "pca_inv a \<longleftrightarrow> pca_max_ent a < 2 ^ 32 \<and> 0 < pca_ncpu a \<and>
     pca_max_ent a * pca_ncpu a * pca_value_size a < 2 ^ 32 \<and>
     length (pca_data a) = pca_max_ent a * pca_ncpu a * pca_value_size a"

text \<open>Slot \<open>idx * ncpu + cpu\<close> of \<open>value_size\<close> bytes.\<close>

definition pca_slot :: "percpu_array \<Rightarrow> nat \<Rightarrow> nat \<Rightarrow> bytes" where
  "pca_slot a i cpu = blk_get ((i * pca_ncpu a + cpu) * pca_value_size a) (pca_value_size a) (pca_data a)"

definition pca_view :: "nat \<Rightarrow> percpu_array \<Rightarrow> nat \<Rightarrow> bytes option" where
  "pca_view cpu a i = (if i < pca_max_ent a then Some (pca_slot a i cpu) else None)"

lemma pca_inv_new:
  assumes "me < 2 ^ 32" and "0 < n" and "me * n * vs < 2 ^ 32" and "0 < vs"
  shows "pca_inv (pca_new vs me n)"
proof -
  have "me * n * 1 \<le> me * n * vs" using assms(4) by (intro mult_le_mono) auto
  then have "w32 (me * n) = me * n" using assms(3) by (intro w32_id) linarith
  then show ?thesis using assms by (simp add: pca_inv_def pca_new_def)
qed

lemma pca_index:
  "i < pca_max_ent a \<Longrightarrow> cpu < pca_ncpu a \<Longrightarrow> i * pca_ncpu a + cpu < pca_max_ent a * pca_ncpu a"
  using block_end_le [of i "pca_max_ent a" "pca_ncpu a"] by linarith

lemma pca_slot_end:
  assumes "pca_inv a" and "i < pca_max_ent a" and "cpu < pca_ncpu a"
  shows "(i * pca_ncpu a + cpu) * pca_value_size a + pca_value_size a \<le> length (pca_data a)"
  using block_end_le [OF pca_index [OF assms(2,3)], of "pca_value_size a"] assms(1)
  by (simp add: pca_inv_def)

lemma pca_data_at_eq:
  assumes "pca_inv a" and "i < pca_max_ent a" and "cpu < pca_ncpu a"
  shows "pca_data_at i cpu a = (i * pca_ncpu a + cpu) * pca_value_size a"
proof -
  let ?v = "pca_value_size a" and ?n = "pca_ncpu a"
  have e: "(i * ?n + cpu) * ?v = i * ?v * ?n + cpu * ?v" by (simp add: algebra_simps)
  have lt: "i * ?v * ?n + cpu * ?v < 2 ^ 32"
    using pca_slot_end [OF assms] assms(1) e by (simp add: pca_inv_def)
  have "i * ?v * 1 \<le> i * ?v * ?n" using assms(1) by (intro mult_le_mono) (auto simp: pca_inv_def)
  then have "i * ?v < 2 ^ 32" using lt by linarith
  then have "w64 (i * ?v) = i * ?v" "w64 (i * ?v * ?n) = i * ?v * ?n" "w64 (cpu * ?v) = cpu * ?v"
    "w64 (i * ?v * ?n + cpu * ?v) = i * ?v * ?n + cpu * ?v"
    using lt by (simp_all add: w64_def)
  then show ?thesis by (simp add: pca_data_at_def e)
qed

lemma pca_index_inj:
  assumes "cpu < n" and "cpu' < n" and "(i::nat) * n + cpu = i' * n + cpu'"
  shows "i = i' \<and> cpu = cpu'"
proof -
  have "(i * n + cpu) div n = i" "(i' * n + cpu') div n = i'"
    using assms(1,2) by (simp_all add: div_mult_self3 add.commute)
  then show ?thesis using assms(3) by simp
qed

lemma pca_put_slot:
  assumes inv: "pca_inv a" and i: "i < pca_max_ent a" and c: "cpu < pca_ncpu a"
    and v: "length v = pca_value_size a" and c': "cpu' < pca_ncpu a"
  shows "pca_slot (a\<lparr>pca_data := blk_put (pca_data_at i cpu a) v (pca_data a)\<rparr>) j cpu' =
    (if j = i \<and> cpu' = cpu then v else pca_slot a j cpu')"
proof -
  let ?k = "i * pca_ncpu a + cpu" and ?l = "j * pca_ncpu a + cpu'"
  have e: "?k * pca_value_size a + length v \<le> length (pca_data a)"
    using pca_slot_end [OF inv i c] v by simp
  show ?thesis
  proof (cases "?l = ?k")
    case True
    then have "j = i \<and> cpu' = cpu" using pca_index_inj [OF c' c] by blast
    then show ?thesis
      using e v by (simp add: pca_slot_def pca_data_at_eq [OF inv i c] blk_get_put_same)
  next
    case False
    then have "\<not> (j = i \<and> cpu' = cpu)" by auto
    then show ?thesis
      using e v blocks_disjoint [OF False, of "pca_value_size a"]
      by (auto simp: pca_slot_def pca_data_at_eq [OF inv i c] blk_get_put_other)
  qed
qed

lemma pca_update_success:
  assumes inv: "pca_inv a" and u: "pca_elem_update cpu p q fl a = (Inr (), a')"
  obtains i v where "rd_u32 p = Inr i" and "rd q (pca_value_size a) = Inr v"
    and "i < pca_max_ent a"
    and "a' = a\<lparr>pca_data := blk_put (pca_data_at i cpu a) v (pca_data a)\<rparr>"
  using assms
  by (auto simp: pca_elem_update_def check_update_flags_def store_def
      split: sum.splits option.splits if_splits)

definition pca_cpu_inv :: "nat \<Rightarrow> percpu_array \<Rightarrow> bool" where
  "pca_cpu_inv cpu a \<longleftrightarrow> pca_inv a \<and> cpu < pca_ncpu a"

interpretation pcs: framed_store "pca_cpu_inv cpu" "pca_view cpu" u32_keyof pca_value_size "Errno ENOENT"
  "pca_elem_lookup cpu" "pca_elem_update cpu" for cpu
proof
  fix a a' p k v fl q f k'
  assume "pca_cpu_inv cpu a"
  then have inv: "pca_inv a" and c: "cpu < pca_ncpu a" by (auto simp: pca_cpu_inv_def)
  show "pca_elem_lookup cpu p a =
      (case pca_view cpu a k of None \<Rightarrow> Inl (Errno ENOENT) | Some v \<Rightarrow> Inr v)"
    if "u32_keyof a p = Some k"
    using that pca_slot_end [OF inv _ c] pca_data_at_eq [OF inv _ c]
    by (cases p) (auto simp: pca_elem_lookup_def pca_view_def pca_slot_def load_def u32_keyof_Some
        rd_u32_def rd_def)
  show "a' = a" if "pca_elem_update cpu p q fl a = (Inl f, a')"
    using that by (auto simp: pca_elem_update_def split: sum.splits if_splits)
  assume k: "u32_keyof a p = Some k" and u: "pca_elem_update cpu p (Some v) fl a = (Inr (), a')"
  have k': "k < pca_max_ent a" and vl: "pca_value_size a \<le> length v"
    and a': "a' = a\<lparr>pca_data := blk_put (pca_data_at k cpu a) (take (pca_value_size a) v) (pca_data a)\<rparr>"
    using pca_update_success [OF inv u] k by (auto simp: u32_keyof_Some rd_Inr_iff)
  have view: "pca_view cpu a' = (pca_view cpu a)(k \<mapsto> take (pca_value_size a) v)"
    using pca_put_slot [OF inv k' c _ c, of "take (pca_value_size a) v"] vl k'
    by (auto simp: pca_view_def a')
  show "pca_view cpu a' k' = pca_view cpu a k'" if "k' \<noteq> k"
    using view that by simp
  show "pca_cpu_inv cpu a' \<and> u32_keyof a' = u32_keyof a \<and> pca_value_size a' = pca_value_size a \<and>
      pca_view cpu a' k = Some (take (pca_value_size a) v) \<and>
      (\<forall>k'. k' \<noteq> k \<longrightarrow> pca_view cpu a' k' = None \<or> pca_view cpu a' k' = pca_view cpu a k')"
    using inv c a' view pca_slot_end [OF inv k' c] pca_data_at_eq [OF inv k' c] vl
    by (auto simp: pca_inv_def pca_cpu_inv_def u32_keyof_def fun_eq_iff)
qed

subsection \<open>The syscall side\<close>

lemma blk_get_concat:
  "off + n * s \<le> length xs \<Longrightarrow>
   blk_get off (n * s) xs = concat (map (\<lambda>i. blk_get (off + i * s) s xs) [0..<n])"
proof (induction n)
  case 0
  then show ?case by (simp add: blk_get_def)
next
  case (Suc n)
  have e: "Suc n * s = n * s + s" by simp
  have "blk_get off (Suc n * s) xs = blk_get off (n * s) xs @ blk_get (off + n * s) s xs"
    unfolding e blk_get_def take_add by (simp add: add.commute)
  then show ?case using Suc by simp
qed

lemma pca_lookup_userspace_eq:
  assumes inv: "pca_inv a" and k: "rd_u32 p = Inr i" and i: "i < pca_max_ent a"
  shows "pca_elem_lookup_userspace p a = Inr (concat (map (pca_slot a i) [0..<pca_ncpu a]))"
proof -
  let ?n = "pca_ncpu a" and ?v = "pca_value_size a"
  have n: "0 < ?n" using inv by (simp add: pca_inv_def)
  have e: "(i * ?n) * ?v + ?n * ?v \<le> length (pca_data a)"
    using block_end_le [OF i, of "?n * ?v"] inv by (simp add: pca_inv_def mult.assoc)
  have "p \<noteq> None" using k by (cases p) (auto simp: rd_u32_def rd_def)
  then have "pca_elem_lookup_userspace p a = Inr (blk_get ((i * ?n) * ?v) (?n * ?v) (pca_data a))"
    using k i e pca_data_at_eq [OF inv i n] by (simp add: pca_elem_lookup_userspace_def load_def)
  also have "\<dots> = Inr (concat (map (pca_slot a i) [0..<?n]))"
    using blk_get_concat [OF e] by (simp add: pca_slot_def [abs_def] add_mult_distrib)
  finally show ?thesis .
qed

lemma pca_update_ok:
  assumes inv: "pca_inv a" and "rd_u32 p = Inr i" and i: "i < pca_max_ent a" and c: "cpu < pca_ncpu a"
    and "fl = 0 \<or> fl = 2" and "pca_value_size a \<le> length v"
  shows "pca_elem_update cpu p (Some v) fl a =
    (Inr (), a\<lparr>pca_data := blk_put (pca_data_at i cpu a) (take (pca_value_size a) v) (pca_data a)\<rparr>)"
  using assms pca_slot_end [OF inv i c] pca_data_at_eq [OF inv i c]
  by (cases p) (auto simp: pca_elem_update_def check_update_flags_def store_def rd_def rd_u32_def)

subsection \<open>Properties\<close>

text \<open>
  an update by a program on one cpu succeeds for an index in range, keeps the invariant,
  and the syscall side then reads the concatenation of the per-cpu values in which the slot
  of that cpu and index alone has changed.
\<close>

theorem pca_update_seen_by_userspace:
  assumes "pca_inv a" and "rd_u32 p = Inr i" and "i < pca_max_ent a" and "cpu < pca_ncpu a"
    and "fl = 0 \<or> fl = 2" and "pca_value_size a \<le> length v"
    and "rd_u32 p' = Inr j" and "j < pca_max_ent a"
  shows "\<exists>a'. pca_elem_update cpu p (Some v) fl a = (Inr (), a') \<and> pca_inv a' \<and>
    pca_elem_lookup_userspace p' a' = Inr (concat (map
      (\<lambda>c. if j = i \<and> c = cpu then take (pca_value_size a) v else pca_slot a j c) [0..<pca_ncpu a]))"
proof -
  let ?a = "a\<lparr>pca_data := blk_put (pca_data_at i cpu a) (take (pca_value_size a) v) (pca_data a)\<rparr>"
  note u = pca_update_ok [OF assms(1-6)]
  have inv: "pca_inv ?a"
    using pcs.update_success [of cpu a p i v fl ?a] u assms by (simp add: pca_cpu_inv_def u32_keyof_Some)
  have "pca_elem_lookup_userspace p' ?a = Inr (concat (map (pca_slot ?a j) [0..<pca_ncpu a]))"
    using pca_lookup_userspace_eq [OF inv assms(7)] assms(8) by simp
  also have "map (pca_slot ?a j) [0..<pca_ncpu a] = map (\<lambda>c. if j = i \<and> c = cpu
      then take (pca_value_size a) v else pca_slot a j c) [0..<pca_ncpu a]"
    using assms by (intro map_cong refl pca_put_slot) auto
  finally show ?thesis using u inv by blast
qed

theorem pca_update_seen_by_userspace_witness:
  "\<exists>a'. pca_elem_update 1 (Some [0, 0, 0, 0]) (Some [7]) 0 (pca_new 1 1 2) = (Inr (), a') \<and>
     pca_elem_lookup_userspace (Some [0, 0, 0, 0]) a' = Inr [0, 7]"
proof -
  have k: "rd_u32 (Some [0, 0, 0, 0]) = Inr 0" by (simp add: rd_u32_def rd_def)
  have up: "[0..<2] = [0, 1::nat]" by (simp add: upt_rec)
  have rp: "replicate 2 (0::byte) = [0, 0]" by (simp add: numeral_2_eq_2)
  have "pca_inv (pca_new 1 1 2)" by (rule pca_inv_new) simp_all
  from pca_update_seen_by_userspace [OF this k _ _ _ _ k, of 1 0 "[7]"] show ?thesis
    using up rp by (auto simp: pca_new_def pca_slot_def blk_get_def)
qed

end
