(* ===== verification/Slot_Probe.thy ===== *)
theory Slot_Probe
  imports Map_Common
begin

text \<open>
  Linear probing on an array of slots, the abstract level of the fixed-size hash table. A
  slot is empty or holds a key and a value. \<open>chained\<close> is the invariant that makes probing
  find what was inserted: between the home slot of a stored key and the slot that holds it
  there is no empty slot and no other copy of the key. Insertion keeps it.
\<close>

type_synonym slot = "(bytes \<times> bytes) option"

datatype probe = Free nat | Hit nat | Wrapped | OutOfFuel

definition stops :: "bytes \<Rightarrow> slot \<Rightarrow> bool" where
  "stops key s = (case s of None \<Rightarrow> True | Some (k, v) \<Rightarrow> k = key)"

definition verdict :: "slot \<Rightarrow> nat \<Rightarrow> probe" where
  "verdict s i = (case s of None \<Rightarrow> Free i | Some _ \<Rightarrow> Hit i)"

fun slot_probe :: "nat \<Rightarrow> bytes \<Rightarrow> nat \<Rightarrow> nat \<Rightarrow> slot list \<Rightarrow> probe" where
  "slot_probe 0 key start index ss = OutOfFuel"
| "slot_probe (Suc n) key start index ss =
     (if stops key (ss ! index) then verdict (ss ! index) index
      else (let index' = Suc index mod length ss in
            if index' \<noteq> start then slot_probe n key start index' ss else Wrapped))"

text \<open>The probing of the code: from the home slot, at most once around.\<close>

definition find_slot :: "(bytes \<Rightarrow> nat) \<Rightarrow> bytes \<Rightarrow> slot list \<Rightarrow> probe" where
  "find_slot home key ss = slot_probe (length ss) key (home key) (home key) ss"

definition slot_insert :: "(bytes \<Rightarrow> nat) \<Rightarrow> bytes \<Rightarrow> bytes \<Rightarrow> slot list \<Rightarrow> slot list" where
  "slot_insert home k v ss = (case find_slot home k ss of
       Free i \<Rightarrow> ss[i := Some (k, v)]
     | Hit i \<Rightarrow> ss[i := Some (k, v)]
     | _ \<Rightarrow> ss)"

definition slot_view :: "(bytes \<Rightarrow> nat) \<Rightarrow> slot list \<Rightarrow> bytes \<Rightarrow> bytes option" where
  "slot_view home ss k = (case find_slot home k ss of
       Hit i \<Rightarrow> map_option snd (ss ! i)
     | _ \<Rightarrow> None)"

definition chained :: "(bytes \<Rightarrow> nat) \<Rightarrow> slot list \<Rightarrow> bool" where
  "chained home ss \<longleftrightarrow> (\<forall>i<length ss. \<forall>k v. ss ! i = Some (k, v) \<longrightarrow>
     (\<exists>d<length ss. i = (home k + d) mod length ss \<and>
        (\<forall>j<d. \<not> stops k (ss ! ((home k + j) mod length ss)))))"

subsection \<open>What probing finds\<close>

lemma ring_neq:
  assumes "i < j" and "j - i < m"
  shows "(h + i) mod m \<noteq> (h + j) mod (m::nat)"
proof
  assume "(h + i) mod m = (h + j) mod m"
  then have "(h + j) mod m = (h + i) mod m" by simp
  then have "m dvd (h + j) - (h + i)" using assms by (subst (asm) mod_eq_dvd_iff_nat) auto
  then have "m dvd j - i" by simp
  then show False using assms by (auto dest: dvd_imp_le)
qed

lemma slot_probe_stops:
  assumes "h < length ss" and "d < length ss" and "stops k (ss ! ((h + d) mod length ss))"
  shows "j0 \<le> d \<Longrightarrow> \<forall>j. j0 \<le> j \<and> j < d \<longrightarrow> \<not> stops k (ss ! ((h + j) mod length ss)) \<Longrightarrow>
    n + j0 = length ss \<Longrightarrow>
    slot_probe n k h ((h + j0) mod length ss) ss =
      verdict (ss ! ((h + d) mod length ss)) ((h + d) mod length ss)"
proof (induction n arbitrary: j0)
  case 0
  then show ?case using assms by simp
next
  case (Suc n)
  show ?case
  proof (cases "j0 = d")
    case True
    then show ?thesis using assms by simp
  next
    case False
    then have lt: "j0 < d" using Suc.prems by simp
    then have ns: "\<not> stops k (ss ! ((h + j0) mod length ss))" using Suc.prems by simp
    have nx: "Suc ((h + j0) mod length ss) mod length ss = (h + Suc j0) mod length ss"
      by (simp add: mod_Suc_eq)
    have "(h + Suc j0) mod length ss \<noteq> h"
      using ring_neq [of 0 "Suc j0" "length ss" h] lt assms by simp
    then have "slot_probe (Suc n) k h ((h + j0) mod length ss) ss =
        slot_probe n k h ((h + Suc j0) mod length ss) ss"
      using ns nx by simp
    also have "\<dots> = verdict (ss ! ((h + d) mod length ss)) ((h + d) mod length ss)"
      using Suc.IH [of "Suc j0"] Suc.prems lt by simp
    finally show ?thesis .
  qed
qed

lemma slot_probe_wraps:
  assumes "h < length ss" and "\<forall>j<length ss. \<not> stops k (ss ! ((h + j) mod length ss))"
  shows "j0 < length ss \<Longrightarrow> n + j0 = length ss \<Longrightarrow>
    slot_probe n k h ((h + j0) mod length ss) ss = Wrapped"
proof (induction n arbitrary: j0)
  case 0
  then show ?case by simp
next
  case (Suc n)
  have ns: "\<not> stops k (ss ! ((h + j0) mod length ss))" using Suc.prems assms by simp
  have nx: "Suc ((h + j0) mod length ss) mod length ss = (h + Suc j0) mod length ss"
    by (simp add: mod_Suc_eq)
  show ?case
  proof (cases "Suc j0 = length ss")
    case True
    have "(h + Suc j0) mod length ss = h" using True assms(1) by (simp only: mod_add_self2 mod_less)
    then show ?thesis using ns nx by simp
  next
    case False
    then have "(h + Suc j0) mod length ss \<noteq> h"
      using ring_neq [of 0 "Suc j0" "length ss" h] Suc.prems assms by simp
    then show ?thesis using ns nx Suc.IH [of "Suc j0"] Suc.prems False by simp
  qed
qed

lemma find_slot_stops:
  assumes "home k < length ss" and "d < length ss" and "stops k (ss ! ((home k + d) mod length ss))"
    and "\<forall>j<d. \<not> stops k (ss ! ((home k + j) mod length ss))"
  shows "find_slot home k ss =
    verdict (ss ! ((home k + d) mod length ss)) ((home k + d) mod length ss)"
  using slot_probe_stops [OF assms(1-3), of 0 "length ss"] assms by (simp add: find_slot_def)

lemma find_slot_cases:
  assumes h: "home k < length ss"
  obtains (stop) d where "d < length ss" "stops k (ss ! ((home k + d) mod length ss))"
      "\<forall>j<d. \<not> stops k (ss ! ((home k + j) mod length ss))"
      "find_slot home k ss = verdict (ss ! ((home k + d) mod length ss)) ((home k + d) mod length ss)"
    | (wrap) "\<forall>j<length ss. \<not> stops k (ss ! ((home k + j) mod length ss))"
      "find_slot home k ss = Wrapped"
proof (cases "\<forall>j<length ss. \<not> stops k (ss ! ((home k + j) mod length ss))")
  case True
  then show ?thesis
    using wrap slot_probe_wraps [OF h True, of 0 "length ss"] h
    by (cases "ss = []") (simp_all add: find_slot_def)
next
  case False
  let ?P = "\<lambda>j. j < length ss \<and> stops k (ss ! ((home k + j) mod length ss))"
  define d where "d = (LEAST j. ?P j)"
  have "\<exists>j. ?P j" using False by blast
  then have d: "?P d" unfolding d_def by (rule LeastI_ex)
  have l: "\<forall>j<d. \<not> stops k (ss ! ((home k + j) mod length ss))"
    using d not_less_Least [of _ ?P] unfolding d_def by (meson less_trans)
  show ?thesis using stop [of d] d l find_slot_stops [of home k ss d] h by blast
qed

lemma find_slot_enough_fuel: "home k < length ss \<Longrightarrow> find_slot home k ss \<noteq> OutOfFuel"
  by (erule find_slot_cases [of home k]) (auto simp: verdict_def split: option.splits)

lemma find_slot_Hit:
  assumes "home k < length ss" and "find_slot home k ss = Hit i"
  shows "i < length ss \<and> (\<exists>v. ss ! i = Some (k, v))"
proof (cases rule: find_slot_cases [of home k ss, OF assms(1)])
  case (1 d)
  have "(home k + d) mod length ss < length ss" using assms(1) by (intro mod_less_divisor) linarith
  then show ?thesis using 1 assms(2) by (auto simp: verdict_def stops_def split: option.splits)
next
  case 2
  then show ?thesis using assms(2) by simp
qed

lemma find_slot_Free:
  assumes "home k < length ss" and "find_slot home k ss = Free i"
  shows "\<exists>d<length ss. i = (home k + d) mod length ss \<and> i < length ss \<and> ss ! i = None \<and>
    (\<forall>j<d. \<not> stops k (ss ! ((home k + j) mod length ss)))"
proof (cases rule: find_slot_cases [of home k ss, OF assms(1)])
  case (1 d)
  have "(home k + d) mod length ss < length ss" using assms(1) by (intro mod_less_divisor) linarith
  then show ?thesis using 1 assms(2) by (auto simp: verdict_def split: option.splits)
next
  case 2
  then show ?thesis using assms(2) by simp
qed

lemma find_slot_present:
  assumes c: "chained home ss" and h: "home k < length ss" and i: "i < length ss" "ss ! i = Some (k, v)"
  shows "find_slot home k ss = Hit i"
proof -
  obtain d where d: "d < length ss" "i = (home k + d) mod length ss"
    "\<forall>j<d. \<not> stops k (ss ! ((home k + j) mod length ss))"
    using c i unfolding chained_def by blast
  have "stops k (ss ! ((home k + d) mod length ss))" using d(2) i by (simp add: stops_def)
  then show ?thesis using find_slot_stops [of home k ss d, OF h d(1) _ d(3)] d(2) i by (simp add: verdict_def)
qed

lemma slot_view_iff:
  assumes "chained home ss" and "home k < length ss"
  shows "slot_view home ss k = Some v \<longleftrightarrow> Some (k, v) \<in> set ss"
proof
  assume "slot_view home ss k = Some v"
  then obtain i where i: "find_slot home k ss = Hit i" "map_option snd (ss ! i) = Some v"
    by (auto simp: slot_view_def split: probe.splits)
  then show "Some (k, v) \<in> set ss" using find_slot_Hit [of home k ss, OF assms(2) i(1)] by (auto simp: in_set_conv_nth)
next
  assume "Some (k, v) \<in> set ss"
  then obtain i where "i < length ss" "ss ! i = Some (k, v)" by (auto simp: in_set_conv_nth)
  then show "slot_view home ss k = Some v"
    using find_slot_present [OF assms] by (simp add: slot_view_def)
qed

subsection \<open>Insertion\<close>

lemma stops_same_key: "stops k' (Some (k, v)) = stops k' (Some (k, w))"
  by (simp add: stops_def)

lemma chained_update_value:
  assumes c: "chained home ss" and i: "i < length ss" "ss ! i = Some (k, v)"
  shows "chained home (ss[i := Some (k, w)])"
proof -
  have st: "stops k' (ss[i := Some (k, w)] ! x) = stops k' (ss ! x)" for k' x
    using i by (cases "x = i"; cases "x < length ss") (auto simp: stops_def nth_list_update)
  show ?thesis
    using c i unfolding chained_def st
    by (auto simp: nth_list_update)
qed

lemma chained_fill:
  assumes c: "chained home ss" and d: "d < length ss" "i = (home k + d) mod length ss" "ss ! i = None"
    and free: "\<forall>j<d. \<not> stops k (ss ! ((home k + j) mod length ss))"
  shows "chained home (ss[i := Some (k, v)])"
proof -
  let ?n = "length ss" and ?ss = "ss[i := Some (k, v)]"
  have i: "i < ?n" using d by (metis mod_less_divisor not_less_zero neq0_conv)
  have keep: "\<not> stops k' (?ss ! x)" if "\<not> stops k' (ss ! x)" for k' x
    using that d(3) by (cases "x = i") (auto simp: stops_def)
  have "\<exists>e<?n. x = (home k' + e) mod ?n \<and> (\<forall>j<e. \<not> stops k' (?ss ! ((home k' + j) mod ?n)))"
    if x: "x < ?n" "?ss ! x = Some (k', v')" for x k' v'
  proof (cases "x = i")
    case True
    then have "k' = k" using x i by simp
    then show ?thesis using True d free keep by (intro exI [of _ d]) auto
  next
    case False
    then have "ss ! x = Some (k', v')" using x by simp
    then obtain e where "e < ?n" "x = (home k' + e) mod ?n"
      "\<forall>j<e. \<not> stops k' (ss ! ((home k' + j) mod ?n))"
      using c x(1) unfolding chained_def by blast
    then show ?thesis using keep by (intro exI [of _ e]) auto
  qed
  then show ?thesis by (simp add: chained_def)
qed

lemma slot_insert_chained:
  assumes "chained home ss" and "home k < length ss"
  shows "chained home (slot_insert home k v ss)"
proof (cases "find_slot home k ss")
  case (Free i)
  then obtain d where "d < length ss" "i = (home k + d) mod length ss" "ss ! i = None"
    "\<forall>j<d. \<not> stops k (ss ! ((home k + j) mod length ss))"
    using find_slot_Free [of home k ss, OF assms(2)] by blast
  then show ?thesis using chained_fill [OF assms(1)] Free by (simp add: slot_insert_def)
next
  case (Hit i)
  then obtain w where "i < length ss" "ss ! i = Some (k, w)"
    using find_slot_Hit [of home k ss, OF assms(2)] by blast
  then show ?thesis using chained_update_value [OF assms(1)] Hit by (simp add: slot_insert_def)
qed (simp_all add: slot_insert_def assms)

lemma slot_insert_set:
  assumes c: "chained home ss" and h: "home k < length ss"
    and f: "find_slot home k ss = Free i \<or> find_slot home k ss = Hit i"
  shows "Some (k', v') \<in> set (slot_insert home k v ss) \<longleftrightarrow>
    (if k' = k then v' = v else Some (k', v') \<in> set ss)"
proof -
  have i: "i < length ss" and e: "slot_insert home k v ss = ss[i := Some (k, v)]"
    and old: "ss ! i = None \<or> (\<exists>w. ss ! i = Some (k, w))"
    using f find_slot_Hit [of home k ss i, OF h] find_slot_Free [of home k ss i, OF h]
    by (auto simp: slot_insert_def)
  have only: "x = i" if "x < length ss" "ss ! x = Some (k, w)" for x w
    using find_slot_present [OF c h that] f old by auto
  show ?thesis
  proof (cases "k' = k")
    case True
    then show ?thesis
      using i only by (auto simp: e in_set_conv_nth nth_list_update split: if_splits)
  next
    case False
    then show ?thesis
      using i old by (auto simp: e in_set_conv_nth nth_list_update)
        (metis option.distinct(1) option.inject prod.inject)+
  qed
qed

lemma slot_view_insert:
  assumes c: "chained home ss" and h: "\<And>k. home k < length ss"
    and f: "find_slot home k ss = Free i \<or> find_slot home k ss = Hit i"
  shows "slot_view home (slot_insert home k v ss) = (slot_view home ss)(k \<mapsto> v)"
proof
  fix k'
  have l: "length (slot_insert home k v ss) = length ss"
    by (simp add: slot_insert_def split: probe.splits)
  note iff = slot_view_iff [OF slot_insert_chained [OF c h], of k' k v, unfolded l, OF h]
  have "slot_view home (slot_insert home k v ss) k' = Some w \<longleftrightarrow>
      ((slot_view home ss)(k \<mapsto> v)) k' = Some w" for w
    using iff [of w] slot_insert_set [OF c h f, of k' w v] slot_view_iff [OF c h, of k' w] by auto
  then show "slot_view home (slot_insert home k v ss) k' = ((slot_view home ss)(k \<mapsto> v)) k'"
    by (metis option.exhaust)
qed

end
