(* ===== verification/Prime_Search.thy ===== *)
theory Prime_Search
  imports Main
begin

text \<open>
  \<open>is_prime\<close> and \<open>next_prime\<close> of \<open>runtime/src/bpf_map/bpftime_hash_map.hpp\<close>, which size the
  bucket array. The bucket count comes from a 32-bit \<open>max_entries\<close>, far below the point where
  \<open>i * i\<close> could wrap in \<open>size_t\<close>. The 6k-1/6k+1 trial division decides primality, and the
  search for the next prime ends because there is always a larger prime.
\<close>

function prime_loop :: "nat \<Rightarrow> nat \<Rightarrow> bool" where
  "prime_loop n i =
     (if i * i \<le> n then
        if n mod i = 0 \<or> n mod (i + 2) = 0 then False else prime_loop n (i + 6)
      else True)"
  by auto
termination
proof (relation "measure (\<lambda>(n, i). n + 6 - i)")
  fix n i :: nat
  assume "i * i \<le> n"
  then have "i \<le> n" using le_square [of i] by linarith
  then show "((n, i + 6), n, i) \<in> measure (\<lambda>(n, i). n + 6 - i)" by simp
qed simp

declare prime_loop.simps [simp del]

definition is_prime :: "nat \<Rightarrow> bool" where
  "is_prime n =
     (if n \<le> 1 then False
      else if n \<le> 3 then True
      else if n mod 2 = 0 \<or> n mod 3 = 0 then False
      else prime_loop n 5)"

text \<open>Primality as usually defined.\<close>

definition prime_number :: "nat \<Rightarrow> bool" where
  "prime_number n \<longleftrightarrow> 1 < n \<and> (\<forall>d. d dvd n \<longrightarrow> d = 1 \<or> d = n)"

lemma small_divisor:
  assumes "d dvd n" and "1 < d" and "d < n"
  shows "\<exists>e. 2 \<le> e \<and> e * e \<le> n \<and> e dvd (n::nat)"
proof -
  obtain q where n: "n = d * q" using assms(1) by blast
  then have q: "1 < q" using assms by (cases q; cases "q - 1") auto
  show ?thesis
  proof (cases "d \<le> q")
    case True
    then have "d * d \<le> n" using n by simp
    then show ?thesis using assms by (intro exI [of _ d]) auto
  next
    case False
    then have "q * q \<le> n" using n by simp
    then show ?thesis using q n by (intro exI [of _ q]) auto
  qed
qed

lemma prime_number_iff:
  "1 < n \<Longrightarrow> prime_number n \<longleftrightarrow> (\<forall>d. 2 \<le> d \<and> d * d \<le> n \<longrightarrow> \<not> d dvd n)"
proof
  assume n: "1 < n" and p: "prime_number n"
  show "\<forall>d. 2 \<le> d \<and> d * d \<le> n \<longrightarrow> \<not> d dvd n"
  proof (intro allI impI notI)
    fix d
    assume d: "2 \<le> d \<and> d * d \<le> n" "d dvd n"
    then have "d = n" using p by (auto simp: prime_number_def)
    then have "d * d \<le> d * 1" using d by simp
    then show False using d by (metis mult_le_cancel1 not_numeral_le_zero numeral_le_one_iff
          le_trans semiring_norm(69) zero_less_iff_neq_zero)
  qed
next
  assume n: "1 < n" and a: "\<forall>d. 2 \<le> d \<and> d * d \<le> n \<longrightarrow> \<not> d dvd n"
  have "d = 1 \<or> d = n" if "d dvd n" for d
  proof (rule ccontr)
    assume "\<not> (d = 1 \<or> d = n)"
    moreover have "d \<noteq> 0" using that n by (metis dvd_0_left_iff not_less_zero)
    moreover have "d \<le> n" using that n by (intro dvd_imp_le) auto
    ultimately have "1 < d" "d < n" by auto
    then show False using small_divisor [OF that] a by auto
  qed
  then show "prime_number n" using n by (simp add: prime_number_def)
qed

lemma between_six:
  assumes "i mod 6 = 5" and "i \<le> d" and "d < i + 6" and "\<not> 2 dvd n" and "\<not> 3 dvd n"
    and "\<not> i dvd n" and "\<not> (i + 2) dvd n"
  shows "\<not> d dvd (n::nat)"
proof
  assume d: "d dvd n"
  then have "\<not> 2 dvd d" "\<not> 3 dvd d" using assms by (auto dest: dvd_trans)
  moreover have "d = i \<or> d = i + 1 \<or> d = i + 2 \<or> d = i + 3 \<or> d = i + 4 \<or> d = i + 5"
    using assms(2,3) by linarith
  moreover have "2 dvd i + 1" "2 dvd i + 3" "3 dvd i + 4" "2 dvd i + 5"
    using assms(1) by presburger+
  ultimately show False using d assms by auto
qed

lemma prime_loop_correct:
  assumes "\<not> 2 dvd n" and "\<not> 3 dvd n"
  shows "i mod 6 = 5 \<Longrightarrow> \<forall>d. 2 \<le> d \<and> d < i \<longrightarrow> \<not> d dvd n \<Longrightarrow>
    prime_loop n i \<longleftrightarrow> (\<forall>d. 2 \<le> d \<and> d * d \<le> n \<longrightarrow> \<not> d dvd n)"
  using assms
proof (induction n i rule: prime_loop.induct)
  case (1 n i)
  have i5: "5 \<le> i" using "1.prems"(1) by presburger
  show ?case
  proof (cases "i * i \<le> n")
    case False
    have "\<not> d dvd n" if "2 \<le> d" "d * d \<le> n" for d
    proof -
      have "d < i" using that False by (meson le_trans mult_le_mono not_less)
      then show ?thesis using "1.prems" that by simp
    qed
    then show ?thesis using False by (simp add: prime_loop.simps)
  next
    case True
    show ?thesis
    proof (cases "i dvd n \<or> (i + 2) dvd n")
      case True': True
      have "\<exists>e. 2 \<le> e \<and> e * e \<le> n \<and> e dvd n"
      proof (cases "i dvd n")
        case True
        then show ?thesis using \<open>i * i \<le> n\<close> i5 by (intro exI [of _ i]) auto
      next
        case False
        have "5 * i \<le> i * i" using i5 by (intro mult_le_mono) auto
        then have "i + 2 < n" using True i5 by linarith
        then show ?thesis using small_divisor [of "i + 2" n] True' False i5 by auto
      qed
      then show ?thesis
        using True True' by (auto simp: prime_loop.simps dvd_eq_mod_eq_0)
    next
      case False
      have "\<forall>d. 2 \<le> d \<and> d < i + 6 \<longrightarrow> \<not> d dvd n"
        using between_six [OF "1.prems"(1), of _ n] "1.prems" False by (metis not_le)
      moreover have "(i + 6) mod 6 = 5" using "1.prems"(1) by simp
      ultimately have "prime_loop n (i + 6) \<longleftrightarrow> (\<forall>d. 2 \<le> d \<and> d * d \<le> n \<longrightarrow> \<not> d dvd n)"
        using "1.IH" [OF True] False "1.prems" by (simp add: dvd_eq_mod_eq_0)
      then show ?thesis
        using True False by (subst prime_loop.simps) (simp add: dvd_eq_mod_eq_0)
    qed
  qed
qed

lemma is_prime_correct: "is_prime n \<longleftrightarrow> prime_number n"
proof (cases "n \<le> 3")
  case True
  then consider "n = 0" | "n = 1" | "n = 2" | "n = 3" by linarith
  then show ?thesis
  proof cases
    case 3
    then show ?thesis
      by (auto simp: is_prime_def prime_number_iff) (metis le_square le_trans mult_2 mult_le_mono
          not_less_eq_eq numeral_2_eq_2 one_add_one plus_1_eq_Suc add_le_same_cancel1 not_numeral_le_zero)
  next
    case 4
    have "\<not> (2 \<le> d \<and> d * d \<le> (3::nat))" for d
      using mult_le_mono [of 2 d 2 d] by auto
    then show ?thesis using 4 by (auto simp: is_prime_def prime_number_iff)
  qed (auto simp: is_prime_def prime_number_def)
next
  case False
  then have n: "1 < n" "\<not> n \<le> 1" by auto
  show ?thesis
  proof (cases "2 dvd n \<or> 3 dvd n")
    case True
    then have "\<not> prime_number n" using False by (auto simp: prime_number_def)
    then show ?thesis using True False by (auto simp: is_prime_def dvd_eq_mod_eq_0)
  next
    case c: False
    have "\<forall>d. 2 \<le> d \<and> d < 5 \<longrightarrow> \<not> d dvd n"
    proof (intro allI impI)
      fix d :: nat
      assume "2 \<le> d \<and> d < 5"
      then have "d = 2 \<or> d = 3 \<or> d = 4" by auto
      moreover have "\<not> 4 dvd n" using c by presburger
      ultimately show "\<not> d dvd n" using c by auto
    qed
    then have "prime_loop n 5 \<longleftrightarrow> prime_number n"
      using prime_loop_correct [of n 5] c n by (simp add: prime_number_iff)
    moreover have "is_prime n = prime_loop n 5"
      using c False by (simp add: is_prime_def dvd_eq_mod_eq_0)
    ultimately show ?thesis by simp
  qed
qed

lemma prime_divisor_exists: "1 < n \<Longrightarrow> \<exists>p. prime_number p \<and> p dvd n"
proof (induction n rule: less_induct)
  case (less n)
  show ?case
  proof (cases "prime_number n")
    case True
    then show ?thesis using dvd_refl by blast
  next
    case False
    then obtain d where d: "d dvd n" "d \<noteq> 1" "d \<noteq> n" using less.prems by (auto simp: prime_number_def)
    moreover have "d \<noteq> 0" using d(1) less.prems by (metis dvd_0_left_iff not_less_zero)
    moreover have "d \<le> n" using d(1) less.prems by (intro dvd_imp_le) auto
    ultimately have "d < n" "1 < d" by auto
    then show ?thesis using less.IH [of d] d(1) by (meson dvd_trans)
  qed
qed

lemma prime_above: "\<exists>p\<ge>n. is_prime p"
proof -
  let ?f = "(\<Prod>i\<in>{1..n}. i) + 1"
  have "0 < (\<Prod>i\<in>{1..n}. i)" by (intro prod_pos) auto
  then have "1 < ?f" by linarith
  then obtain p where p: "prime_number p" "p dvd ?f" using prime_divisor_exists by blast
  have "n < p"
  proof (rule ccontr)
    assume "\<not> n < p"
    then have "p \<in> {1..n}" using p(1) by (auto simp: prime_number_def)
    then have "p dvd (\<Prod>i\<in>{1..n}. i)" by (intro dvd_prodI) auto
    then have "p dvd 1" using p(2) by (metis dvd_add_right_iff)
    then show False using p(1) by (simp add: prime_number_def)
  qed
  then show ?thesis using p(1) is_prime_correct by (intro exI [of _ p]) auto
qed

function next_prime :: "nat \<Rightarrow> nat" where
  "next_prime n = (if \<not> is_prime n then next_prime (n + 1) else n)"
  by auto
termination
proof (relation "measure (\<lambda>n. (LEAST p. n \<le> p \<and> is_prime p) - n)")
  fix n
  assume np: "\<not> is_prime n"
  let ?P = "\<lambda>n. LEAST p. n \<le> p \<and> is_prime p"
  have ex: "\<exists>p. n \<le> p \<and> is_prime p" using prime_above by blast
  have p: "n \<le> ?P n \<and> is_prime (?P n)" by (rule LeastI_ex [OF ex])
  then have lt: "n < ?P n" using np by (metis le_neq_implies_less)
  have "?P (n + 1) \<le> ?P n" by (rule Least_le) (use p lt in simp)
  then show "(n + 1, n) \<in> measure (\<lambda>n. ?P n - n)" using lt by simp
qed simp

declare next_prime.simps [simp del]

lemma next_prime_least:
  "is_prime (next_prime n) \<and> n \<le> next_prime n \<and> (\<forall>m. n \<le> m \<and> m < next_prime n \<longrightarrow> \<not> is_prime m)"
proof (induction n rule: next_prime.induct)
  case (1 n)
  show ?case
  proof (cases "is_prime n")
    case True
    then show ?thesis by (auto simp: next_prime.simps)
  next
    case False
    then have "next_prime n = next_prime (n + 1)" by (subst next_prime.simps) simp
    then show ?thesis using 1 [OF False] False by (metis Suc_eq_plus1 Suc_leD Suc_leI le_neq_implies_less)
  qed
qed

lemma next_prime_pos: "1 < next_prime n"
  using next_prime_least [of n] is_prime_correct by (simp add: prime_number_def)

subsection \<open>Properties\<close>

text \<open>
  the trial division over 6k-1 and 6k+1 decides primality, and the bucket count is the
  least prime not below the requested number; the search always ends.
\<close>

theorem next_prime_correct:
  "prime_number (next_prime n) \<and> n \<le> next_prime n \<and>
   \<not> (\<exists>m. n \<le> m \<and> m < next_prime n \<and> prime_number m) \<and> is_prime n = prime_number n"
  using next_prime_least [of n] is_prime_correct by blast

end
