(* ===== verification/Open_Hash.thy ===== *)
theory Open_Hash
  imports Slot_Probe Prime_Search
begin

text \<open>
  \<open>bpftime_hash_map\<close> (\<open>runtime/src/bpf_map/bpftime_hash_map.hpp\<close>): open addressing with
  linear probing in one byte buffer. An element is a 32-bit flag, the key and the value. The
  theory shows that the byte level refines the slot array of \<open>Slot_Probe\<close>. All sizes are
  \<open>size_t\<close>.
\<close>

record open_hash =
  oh_key_size :: nat
  oh_value_size :: nat
  oh_num_buckets :: nat
  oh_max_element_count :: nat
  oh_count :: nat
  oh_data :: bytes

definition oh_elem_size :: "open_hash \<Rightarrow> nat" where
  "oh_elem_size h = w64 (4 + oh_key_size h + oh_value_size h)"

definition oh_get_elem_offset :: "nat \<Rightarrow> open_hash \<Rightarrow> nat" where
  "oh_get_elem_offset index h = w64 (index * oh_elem_size h)"

definition oh_new :: "nat \<Rightarrow> nat \<Rightarrow> nat \<Rightarrow> open_hash" where
  "oh_new num_buckets key_size value_size =
     (let nb = next_prime num_buckets in
      \<lparr>oh_key_size = key_size, oh_value_size = value_size, oh_num_buckets = nb,
       oh_max_element_count = num_buckets, oh_count = 0,
       oh_data = replicate (w64 (nb * w64 (4 + key_size + value_size))) 0\<rparr>)"

text \<open>\<open>hash_func\<close>, on the \<open>_key_size\<close> bytes of the key.\<close>

definition oh_hash_func :: "bytes \<Rightarrow> nat" where
  "oh_hash_func key = foldl (\<lambda>hash b. w64 (hash * 31 + unat b)) 0 key"

definition oh_is_empty :: "nat \<Rightarrow> open_hash \<Rightarrow> bool res" where
  "oh_is_empty index h =
     and_then (load (oh_get_elem_offset index h) 4 (oh_data h)) (\<lambda>b. Inr (le_nat b = 0))"

definition oh_write :: "nat \<Rightarrow> bytes \<Rightarrow> open_hash \<Rightarrow> open_hash res" where
  "oh_write off bs h = and_then (store off bs (oh_data h)) (\<lambda>d. Inr (h\<lparr>oh_data := d\<rparr>))"

definition oh_set_empty :: "nat \<Rightarrow> open_hash \<Rightarrow> open_hash res" where
  "oh_set_empty index h = oh_write (oh_get_elem_offset index h) (le_bytes 4 0) h"

definition oh_set_filled :: "nat \<Rightarrow> open_hash \<Rightarrow> open_hash res" where
  "oh_set_filled index h = oh_write (oh_get_elem_offset index h) (le_bytes 4 1) h"

definition oh_get_key :: "nat \<Rightarrow> open_hash \<Rightarrow> nat" where
  "oh_get_key index h = w64 (oh_get_elem_offset index h + 4)"

definition oh_get_value :: "nat \<Rightarrow> open_hash \<Rightarrow> nat" where
  "oh_get_value index h = w64 (oh_get_elem_offset index h + 4 + oh_key_size h)"

text \<open>\<open>get_index_of_value\<close>, for a pointer given by its offset in the buffer.\<close>

definition oh_get_index_of_value :: "nat option \<Rightarrow> open_hash \<Rightarrow> nat" where
  "oh_get_index_of_value value h = (case value of
       None \<Rightarrow> 2 ^ 64 - 1
     | Some off \<Rightarrow> (if off \<ge> length (oh_data h) then 2 ^ 64 - 1 else off div oh_elem_size h))"

text \<open>
  The probing loop shared by lookup, update and delete: \<open>do ... while (index != start_index)\<close>.
  It runs at most once around, so \<open>_num_buckets\<close> steps of fuel are enough.
\<close>

fun oh_probe :: "nat \<Rightarrow> bytes \<Rightarrow> nat \<Rightarrow> nat \<Rightarrow> open_hash \<Rightarrow> probe res" where
  "oh_probe 0 key start index h = Inr OutOfFuel"
| "oh_probe (Suc n) key start index h =
     and_then (oh_is_empty index h) (\<lambda>empty.
       if empty then Inr (Free index)
       else and_then (load (oh_get_key index h) (oh_key_size h) (oh_data h)) (\<lambda>k.
         if k = key then Inr (Hit index)
         else (let index' = w64 (index + 1) mod oh_num_buckets h in
               if index' \<noteq> start then oh_probe n key start index' h else Inr Wrapped)))"

definition oh_find :: "bytes \<Rightarrow> open_hash \<Rightarrow> probe res" where
  "oh_find key h =
     (let index = oh_hash_func key mod oh_num_buckets h in
      oh_probe (oh_num_buckets h) key index index h)"

text \<open>\<open>elem_lookup\<close>: the offset of the value, or a null pointer.\<close>

definition oh_elem_lookup :: "ptr \<Rightarrow> open_hash \<Rightarrow> nat option res" where
  "oh_elem_lookup key h =
     and_then (rd key (oh_key_size h)) (\<lambda>k.
       and_then (oh_find k h) (\<lambda>p. case p of
           Hit i \<Rightarrow> Inr (Some (oh_get_value i h))
         | _ \<Rightarrow> Inr None))"

definition oh_insert_at :: "nat \<Rightarrow> bytes \<Rightarrow> bytes \<Rightarrow> open_hash \<Rightarrow> open_hash res" where
  "oh_insert_at index k v h =
     and_then (oh_write (oh_get_key index h) k h) (\<lambda>h1.
     and_then (oh_write (oh_get_value index h) v h1) (\<lambda>h2.
     and_then (oh_set_filled index h2) (\<lambda>h3.
       Inr (h3\<lparr>oh_count := w64 (oh_count h3 + 1)\<rparr>))))"

definition oh_elem_update :: "ptr \<Rightarrow> ptr \<Rightarrow> open_hash \<Rightarrow> bool res \<times> open_hash" where
  "oh_elem_update key value h = (case rd key (oh_key_size h) of
       Inl f \<Rightarrow> (Inl f, h)
     | Inr k \<Rightarrow> (case oh_find k h of
           Inl f \<Rightarrow> (Inl f, h)
         | Inr (Free i) \<Rightarrow>
             (if oh_count h \<ge> oh_max_element_count h then (Inr False, h)
              else (case and_then (rd value (oh_value_size h)) (\<lambda>v. oh_insert_at i k v h) of
                  Inl f \<Rightarrow> (Inl f, h)
                | Inr h' \<Rightarrow> (Inr True, h')))
         | Inr (Hit i) \<Rightarrow>
             (case and_then (rd value (oh_value_size h)) (\<lambda>v. oh_write (oh_get_value i h) v h) of
                  Inl f \<Rightarrow> (Inl f, h)
                | Inr h' \<Rightarrow> (Inr True, h'))
         | Inr _ \<Rightarrow> (Inr False, h)))"

definition oh_elem_delete :: "ptr \<Rightarrow> open_hash \<Rightarrow> bool res \<times> open_hash" where
  "oh_elem_delete key h = (case rd key (oh_key_size h) of
       Inl f \<Rightarrow> (Inl f, h)
     | Inr k \<Rightarrow> (case oh_find k h of
           Inl f \<Rightarrow> (Inl f, h)
         | Inr (Hit i) \<Rightarrow> (case oh_set_empty i h of
               Inl f \<Rightarrow> (Inl f, h)
             | Inr h' \<Rightarrow> (Inr True, h'\<lparr>oh_count := w64 (oh_count h' + (2 ^ 64 - 1))\<rparr>))
         | Inr _ \<Rightarrow> (Inr False, h)))"

definition oh_get_elem_count :: "open_hash \<Rightarrow> nat" where
  "oh_get_elem_count h = oh_count h"

subsection \<open>Abstraction to slots\<close>

definition oh_decode :: "nat \<Rightarrow> nat \<Rightarrow> bytes \<Rightarrow> slot" where
  "oh_decode ks vs c =
     (if le_nat (blk_get 0 4 c) = 0 then None
      else Some (blk_get 4 ks c, blk_get (4 + ks) vs c))"

abbreviation oh_width :: "open_hash \<Rightarrow> nat" where
  "oh_width h \<equiv> 4 + oh_key_size h + oh_value_size h"

definition oh_slots :: "open_hash \<Rightarrow> slot list" where
  "oh_slots h = map (oh_decode (oh_key_size h) (oh_value_size h)) (chunks (oh_width h) (oh_data h))"

definition oh_home :: "open_hash \<Rightarrow> bytes \<Rightarrow> nat" where
  "oh_home h k = oh_hash_func k mod oh_num_buckets h"

definition filled :: "slot list \<Rightarrow> nat" where
  "filled ss = length (filter (\<lambda>s. s \<noteq> None) ss)"

definition oh_inv :: "open_hash \<Rightarrow> bool" where
  "oh_inv h \<longleftrightarrow> 0 < oh_num_buckets h \<and> oh_num_buckets h * oh_width h < 2 ^ 64 \<and>
     length (oh_data h) = oh_num_buckets h * oh_width h \<and>
     oh_count h = filled (oh_slots h) \<and> oh_count h \<le> oh_max_element_count h \<and>
     oh_max_element_count h \<le> oh_num_buckets h"

lemma oh_div: "oh_inv h \<Longrightarrow> length (oh_data h) div oh_width h = oh_num_buckets h"
  unfolding oh_inv_def by (metis add_gr_0 nonzero_mult_div_cancel_right not_gr_zero zero_less_numeral)

lemma length_oh_slots: "oh_inv h \<Longrightarrow> length (oh_slots h) = oh_num_buckets h"
  using oh_div by (simp add: oh_slots_def)

lemma oh_home_less: "oh_inv h \<Longrightarrow> oh_home h k < length (oh_slots h)"
  by (simp add: length_oh_slots) (simp add: oh_home_def oh_inv_def)

lemma oh_offset:
  assumes inv: "oh_inv h" and i: "i < oh_num_buckets h"
  shows "oh_elem_size h = oh_width h" "oh_get_elem_offset i h = i * oh_width h"
    "oh_get_key i h = i * oh_width h + 4" "oh_get_value i h = i * oh_width h + (4 + oh_key_size h)"
proof -
  have b: "i * oh_width h + oh_width h < 2 ^ 64"
    using block_end_le [OF i, of "oh_width h"] inv unfolding oh_inv_def by linarith
  show s: "oh_elem_size h = oh_width h"
    unfolding oh_elem_size_def by (rule w64_id) (use b in linarith)
  show o: "oh_get_elem_offset i h = i * oh_width h"
    unfolding oh_get_elem_offset_def s by (rule w64_id) (use b in linarith)
  show "oh_get_key i h = i * oh_width h + 4"
    unfolding oh_get_key_def o by (rule w64_id) (use b in linarith)
  show "oh_get_value i h = i * oh_width h + (4 + oh_key_size h)"
    unfolding oh_get_value_def o using b by (subst w64_id) auto
qed

lemma oh_slots_nth:
  "oh_inv h \<Longrightarrow> i < oh_num_buckets h \<Longrightarrow>
   oh_slots h ! i = oh_decode (oh_key_size h) (oh_value_size h) (chunks (oh_width h) (oh_data h) ! i)"
  using oh_div by (simp add: oh_slots_def)

lemma oh_is_empty_slot:
  assumes "oh_inv h" and "i < oh_num_buckets h"
  shows "oh_is_empty i h = Inr (oh_slots h ! i = None)"
  using load_chunk [of i "oh_data h" "oh_width h" 0 4] oh_div [OF assms(1)] assms
  by (simp add: oh_is_empty_def oh_offset oh_slots_nth oh_decode_def)

lemma oh_load_key:
  assumes "oh_inv h" and "i < oh_num_buckets h" and "oh_slots h ! i = Some (k, v)"
  shows "load (oh_get_key i h) (oh_key_size h) (oh_data h) = Inr k"
  using load_chunk [of i "oh_data h" "oh_width h" 4 "oh_key_size h"] oh_div [OF assms(1)] assms
  by (simp add: oh_offset oh_slots_nth oh_decode_def split: if_splits)

lemma oh_load_value:
  assumes "oh_inv h" and "i < oh_num_buckets h" and "oh_slots h ! i = Some (k, v)"
  shows "load (oh_get_value i h) (oh_value_size h) (oh_data h) = Inr v"
  using load_chunk [of i "oh_data h" "oh_width h" "4 + oh_key_size h" "oh_value_size h"]
    oh_div [OF assms(1)] assms
  by (simp add: oh_offset oh_slots_nth oh_decode_def add.assoc split: if_splits)

lemma oh_buckets_less: "oh_inv h \<Longrightarrow> oh_num_buckets h < 2 ^ 64"
proof -
  assume inv: "oh_inv h"
  have "oh_num_buckets h * 1 \<le> oh_num_buckets h * oh_width h" by (intro mult_le_mono) auto
  then show ?thesis using inv unfolding oh_inv_def by linarith
qed

lemma oh_probe_refines:
  assumes inv: "oh_inv h"
  shows "index < oh_num_buckets h \<Longrightarrow>
    oh_probe n key start index h = Inr (slot_probe n key start index (oh_slots h))"
proof (induction n arbitrary: index)
  case 0
  then show ?case by simp
next
  case (Suc n)
  have w: "w64 (index + 1) mod oh_num_buckets h = Suc index mod length (oh_slots h)"
    using Suc.prems oh_buckets_less [OF inv] length_oh_slots [OF inv] by simp
  have lt: "Suc index mod length (oh_slots h) < oh_num_buckets h"
    using inv by (simp add: length_oh_slots) (simp add: oh_inv_def)
  show ?case
  proof (cases "oh_slots h ! index")
    case None
    then show ?thesis
      using oh_is_empty_slot [OF inv Suc.prems] by (simp add: stops_def verdict_def)
  next
    case (Some kv)
    then obtain k v where kv: "oh_slots h ! index = Some (k, v)" by (cases kv) auto
    show ?thesis
      using oh_is_empty_slot [OF inv Suc.prems] oh_load_key [OF inv Suc.prems kv] kv w Suc.IH [OF lt]
      by (simp add: stops_def verdict_def Let_def)
  qed
qed

lemma oh_find_refines: "oh_inv h \<Longrightarrow> oh_find k h = Inr (find_slot (oh_home h) k (oh_slots h))"
  using oh_probe_refines [of h "oh_home h k"] oh_home_less [of h k]
  by (simp add: oh_find_def find_slot_def oh_home_def Let_def length_oh_slots)

subsection \<open>Writes\<close>

lemma filled_update:
  "i < length ss \<Longrightarrow> filled (ss[i := s]) + (if ss ! i = None then 0 else 1) =
   filled ss + (if s = None then 0 else 1)"
  unfolding filled_def
proof (induction ss arbitrary: i)
  case Nil
  then show ?case by simp
next
  case (Cons a ss)
  show ?case
  proof (cases i)
    case 0
    then show ?thesis by auto
  next
    case (Suc j)
    then show ?thesis using Cons.IH [of j] Cons.prems by (simp split: if_splits)
  qed
qed

lemma oh_write_chunk:
  assumes inv: "oh_inv h" and i: "i < oh_num_buckets h" and p: "p + length bs \<le> oh_width h"
  shows "\<exists>d. oh_write (i * oh_width h + p) bs h = Inr (h\<lparr>oh_data := d\<rparr>) \<and> length d = length (oh_data h) \<and>
    chunks (oh_width h) d =
      (chunks (oh_width h) (oh_data h))[i := blk_put p bs (chunks (oh_width h) (oh_data h) ! i)]"
  using store_chunk [of i "oh_data h" "oh_width h" p bs] oh_div [OF inv] i p by (auto simp: oh_write_def)

lemma oh_chunk_width:
  "oh_inv h \<Longrightarrow> i < oh_num_buckets h \<Longrightarrow> length (chunks (oh_width h) (oh_data h) ! i) = oh_width h"
  using oh_div [of h] by (intro chunks_length [of _ _ "oh_data h"] nth_mem) simp

lemma decode_filled:
  assumes "length c = 4 + ks + vs" and "length k = ks" and "length v = vs"
  shows "oh_decode ks vs (blk_put 0 (le_bytes 4 1) (blk_put (4 + ks) v (blk_put 4 k c))) = Some (k, v)"
  using assms by (simp add: oh_decode_def blk_get_put_same blk_get_put_other le_nat_le_bytes)

lemma decode_emptied:
  "4 \<le> length c \<Longrightarrow> oh_decode ks vs (blk_put 0 (le_bytes 4 0) c) = None"
  by (simp add: oh_decode_def blk_get_put_same le_nat_le_bytes)

lemma decode_value:
  assumes "length c = 4 + ks + vs" and "length v = vs" and "oh_decode ks vs c = Some (k, w)"
  shows "oh_decode ks vs (blk_put (4 + ks) v c) = Some (k, v)"
  using assms by (auto simp: oh_decode_def blk_get_put_same blk_get_put_other split: if_splits)

lemma oh_inv_data:
  "oh_inv h \<Longrightarrow> length d = length (oh_data h) \<Longrightarrow> n = filled (oh_slots (h\<lparr>oh_data := d\<rparr>)) \<Longrightarrow>
   n \<le> oh_max_element_count h \<Longrightarrow> oh_inv (h\<lparr>oh_data := d, oh_count := n\<rparr>)"
  by (simp add: oh_inv_def oh_slots_def)

lemma filled_fill: "i < length ss \<Longrightarrow> ss ! i = None \<Longrightarrow> filled (ss[i := Some x]) = Suc (filled ss)"
  using filled_update [of i ss "Some x"] by simp

lemma filled_clear: "i < length ss \<Longrightarrow> ss ! i = Some x \<Longrightarrow> filled (ss[i := None]) = filled ss - 1"
  using filled_update [of i ss None] by simp

lemma filled_keep: "i < length ss \<Longrightarrow> ss ! i = Some x \<Longrightarrow> filled (ss[i := Some y]) = filled ss"
  using filled_update [of i ss "Some y"] by simp

text \<open>The state after the writes of one element, up to the bytes of the buffer.\<close>

definition oh_becomes :: "open_hash \<Rightarrow> slot list \<Rightarrow> open_hash \<Rightarrow> bool" where
  "oh_becomes h ss h' \<longleftrightarrow> oh_inv h' \<and> oh_slots h' = ss \<and>
     (\<exists>d n. h' = h\<lparr>oh_data := d, oh_count := n\<rparr>)"

lemma oh_insert_at_refines:
  assumes inv: "oh_inv h" and i: "i < oh_num_buckets h" and e: "oh_slots h ! i = None"
    and k: "length k = oh_key_size h" and v: "length v = oh_value_size h"
    and room: "oh_count h < oh_max_element_count h"
  shows "\<exists>h'. oh_insert_at i k v h = Inr h' \<and> oh_becomes h ((oh_slots h)[i := Some (k, v)]) h'"
proof -
  let ?w = "oh_width h" and ?cs = "chunks (oh_width h) (oh_data h)"
  note off = oh_offset [OF inv i]
  have wr: "\<exists>d'. oh_write (i * ?w + p) bs (h\<lparr>oh_data := d\<rparr>) = Inr (h\<lparr>oh_data := d'\<rparr>) \<and>
      length d' = length d \<and> chunks ?w d' = (chunks ?w d)[i := blk_put p bs (chunks ?w d ! i)]"
    if "length d = length (oh_data h)" "p + length bs \<le> ?w" for d p bs
    using store_chunk [of i d ?w p bs] oh_div [OF inv] i that by (auto simp: oh_write_def)
  obtain d1 where d1: "oh_write (i * ?w + 4) k h = Inr (h\<lparr>oh_data := d1\<rparr>)" "length d1 = length (oh_data h)"
    "chunks ?w d1 = ?cs[i := blk_put 4 k (?cs ! i)]"
    using wr [of "oh_data h" 4 k] k by auto
  obtain d2 where d2: "oh_write (i * ?w + (4 + oh_key_size h)) v (h\<lparr>oh_data := d1\<rparr>) = Inr (h\<lparr>oh_data := d2\<rparr>)"
    "length d2 = length (oh_data h)" "chunks ?w d2 = (chunks ?w d1)[i := blk_put (4 + oh_key_size h) v (chunks ?w d1 ! i)]"
    using wr [of d1 "4 + oh_key_size h" v] v d1(2) by auto
  obtain d3 where d3: "oh_write (i * ?w) (le_bytes 4 1) (h\<lparr>oh_data := d2\<rparr>) = Inr (h\<lparr>oh_data := d3\<rparr>)"
    "length d3 = length (oh_data h)" "chunks ?w d3 = (chunks ?w d2)[i := blk_put 0 (le_bytes 4 1) (chunks ?w d2 ! i)]"
    using wr [of d2 0 "le_bytes 4 1"] d2(2) by auto
  have lc: "i < length ?cs" using i oh_div [OF inv] by simp
  have "chunks ?w d3 = ?cs[i := blk_put 0 (le_bytes 4 1) (blk_put (4 + oh_key_size h) v (blk_put 4 k (?cs ! i)))]"
    using d1(3) d2(3) d3(3) lc by simp
  then have sl: "oh_slots (h\<lparr>oh_data := d3\<rparr>) = (oh_slots h)[i := Some (k, v)]"
    using decode_filled [OF _ k v, of "?cs ! i"] oh_chunk_width [OF inv i]
    by (simp add: oh_slots_def map_update)
  have "oh_count h + 1 < 2 ^ 64"
    using room inv oh_buckets_less [OF inv] unfolding oh_inv_def by linarith
  then have cnt: "w64 (oh_count h + 1) = Suc (oh_count h)" by simp
  have "filled ((oh_slots h)[i := Some (k, v)]) = Suc (oh_count h)"
    using filled_fill [of i "oh_slots h"] e i inv length_oh_slots [OF inv] by (simp add: oh_inv_def)
  then have "oh_becomes h ((oh_slots h)[i := Some (k, v)]) (h\<lparr>oh_data := d3, oh_count := Suc (oh_count h)\<rparr>)"
    using oh_inv_data [OF inv d3(2), of "Suc (oh_count h)"] sl room
    by (auto simp: oh_becomes_def oh_slots_def)
  moreover have "oh_set_filled i (h\<lparr>oh_data := d2\<rparr>) = Inr (h\<lparr>oh_data := d3\<rparr>)"
    using d3(1) off by (simp add: oh_set_filled_def oh_get_elem_offset_def oh_elem_size_def)
  ultimately show ?thesis
    using d1(1) d2(1) off cnt by (simp add: oh_insert_at_def)
qed

lemma oh_write_value_refines:
  assumes inv: "oh_inv h" and i: "i < oh_num_buckets h" and s: "oh_slots h ! i = Some (k, w)"
    and v: "length v = oh_value_size h"
  shows "\<exists>h'. oh_write (oh_get_value i h) v h = Inr h' \<and> oh_becomes h ((oh_slots h)[i := Some (k, v)]) h'"
proof -
  let ?cs = "chunks (oh_width h) (oh_data h)"
  obtain d where d: "oh_write (oh_get_value i h) v h = Inr (h\<lparr>oh_data := d\<rparr>)" "length d = length (oh_data h)"
    "chunks (oh_width h) d = ?cs[i := blk_put (4 + oh_key_size h) v (?cs ! i)]"
    using oh_write_chunk [OF inv i, of "4 + oh_key_size h" v] v oh_offset [OF inv i] by auto
  have "oh_decode (oh_key_size h) (oh_value_size h) (?cs ! i) = Some (k, w)"
    using s oh_slots_nth [OF inv i] by simp
  then have sl: "oh_slots (h\<lparr>oh_data := d\<rparr>) = (oh_slots h)[i := Some (k, v)]"
    using decode_value [OF oh_chunk_width [OF inv i] v] d(3) by (simp add: oh_slots_def map_update)
  have "filled ((oh_slots h)[i := Some (k, v)]) = oh_count h"
    using filled_keep [of i "oh_slots h"] s i inv length_oh_slots [OF inv] by (simp add: oh_inv_def)
  then have "oh_becomes h ((oh_slots h)[i := Some (k, v)]) (h\<lparr>oh_data := d, oh_count := oh_count h\<rparr>)"
    using oh_inv_data [OF inv d(2), of "oh_count h"] sl inv
    by (auto simp: oh_becomes_def oh_slots_def oh_inv_def)
  then show ?thesis using d(1) by simp
qed

lemma oh_set_empty_refines:
  assumes inv: "oh_inv h" and i: "i < oh_num_buckets h" and s: "oh_slots h ! i = Some kv"
  shows "\<exists>h'. oh_set_empty i h = Inr h' \<and>
    oh_becomes h ((oh_slots h)[i := None]) (h'\<lparr>oh_count := w64 (oh_count h' + (2 ^ 64 - 1))\<rparr>)"
proof -
  let ?cs = "chunks (oh_width h) (oh_data h)"
  obtain d where d: "oh_write (i * oh_width h) (le_bytes 4 0) h = Inr (h\<lparr>oh_data := d\<rparr>)"
    "length d = length (oh_data h)"
    "chunks (oh_width h) d = ?cs[i := blk_put 0 (le_bytes 4 0) (?cs ! i)]"
    using oh_write_chunk [OF inv i, of 0 "le_bytes 4 0"] by auto
  have sl: "oh_slots (h\<lparr>oh_data := d\<rparr>) = (oh_slots h)[i := None]"
    using decode_emptied [of "?cs ! i"] oh_chunk_width [OF inv i] d(3) by (simp add: oh_slots_def map_update)
  have f: "filled ((oh_slots h)[i := None]) = oh_count h - 1" "0 < oh_count h"
    using filled_clear [of i "oh_slots h"] filled_update [of i "oh_slots h" None] s i inv
      length_oh_slots [OF inv] by (auto simp: oh_inv_def)
  have "oh_count h + (2 ^ 64 - 1) = (oh_count h - 1) + 2 ^ 64" using f(2) by simp
  then have "w64 (oh_count h + (2 ^ 64 - 1)) = ((oh_count h - 1) + 2 ^ 64) mod 2 ^ 64"
    unfolding w64_def by (simp only:)
  also have "\<dots> = oh_count h - 1"
    using inv oh_buckets_less [OF inv] by (subst mod_add_self2) (auto simp: oh_inv_def)
  finally have "oh_becomes h ((oh_slots h)[i := None])
      (h\<lparr>oh_data := d, oh_count := w64 (oh_count h + (2 ^ 64 - 1))\<rparr>)"
    using oh_inv_data [OF inv d(2), of "oh_count h - 1"] sl f inv
    by (auto simp: oh_becomes_def oh_slots_def oh_inv_def)
  then show ?thesis using d(1) oh_offset [OF inv i] by (simp add: oh_set_empty_def)
qed

subsection \<open>The operations on slots\<close>

lemma oh_becomes_home: "oh_becomes h ss h' \<Longrightarrow> oh_home h' = oh_home h"
  by (auto simp: oh_becomes_def oh_home_def fun_eq_iff)

lemma oh_becomes_conf:
  "oh_becomes h ss h' \<Longrightarrow> oh_key_size h' = oh_key_size h \<and> oh_value_size h' = oh_value_size h \<and>
   oh_max_element_count h' = oh_max_element_count h \<and> oh_num_buckets h' = oh_num_buckets h"
  by (auto simp: oh_becomes_def)

lemma oh_slot_key_length:
  assumes "oh_inv h" and "i < oh_num_buckets h" and "oh_slots h ! i = Some (k, v)"
  shows "length k = oh_key_size h \<and> length v = oh_value_size h"
  using oh_load_key [OF assms] oh_load_value [OF assms] by (simp add: load_length)

definition oh_lookup_bytes :: "ptr \<Rightarrow> open_hash \<Rightarrow> bytes res" where
  "oh_lookup_bytes p h =
     and_then (oh_elem_lookup p h) (\<lambda>off. case off of
         None \<Rightarrow> Inl MinusOne
       | Some i \<Rightarrow> load i (oh_value_size h) (oh_data h))"

definition oh_view :: "open_hash \<Rightarrow> bytes \<Rightarrow> bytes option" where
  "oh_view h = slot_view (oh_home h) (oh_slots h)"

lemma oh_lookup_view:
  assumes inv: "oh_inv h" and k: "rd p (oh_key_size h) = Inr k"
  shows "oh_lookup_bytes p h = (case oh_view h k of None \<Rightarrow> Inl MinusOne | Some v \<Rightarrow> Inr v)"
proof (cases "find_slot (oh_home h) k (oh_slots h)")
  case (Hit i)
  then obtain v where v: "i < oh_num_buckets h" "oh_slots h ! i = Some (k, v)"
    using find_slot_Hit [of "oh_home h" k, OF oh_home_less [OF inv]] length_oh_slots [OF inv] by auto
  then show ?thesis
    using k Hit oh_load_value [OF inv v]
    by (simp add: oh_lookup_bytes_def oh_elem_lookup_def oh_find_refines [OF inv] oh_view_def slot_view_def)
qed (simp_all add: oh_lookup_bytes_def oh_elem_lookup_def oh_find_refines [OF inv] oh_view_def
    slot_view_def k)

lemma oh_update_found:
  assumes inv: "oh_inv h" and k: "rd p (oh_key_size h) = Inr k" and v: "rd q (oh_value_size h) = Inr v"
    and f: "find_slot (oh_home h) k (oh_slots h) = Hit i \<or>
      find_slot (oh_home h) k (oh_slots h) = Free i \<and> oh_count h < oh_max_element_count h"
  shows "\<exists>h'. oh_elem_update p q h = (Inr True, h') \<and>
    oh_becomes h (slot_insert (oh_home h) k v (oh_slots h)) h'"
proof -
  have kl: "length k = oh_key_size h" and vl: "length v = oh_value_size h"
    using k v by (auto simp: rd_Inr_iff)
  note hm = oh_home_less [OF inv, of k] and ln = length_oh_slots [OF inv]
  show ?thesis
  proof (cases "find_slot (oh_home h) k (oh_slots h)")
    case (Hit j)
    then obtain w where w: "j < oh_num_buckets h" "oh_slots h ! j = Some (k, w)"
      using find_slot_Hit [of "oh_home h" k, OF hm] ln by auto
    show ?thesis
      using oh_write_value_refines [OF inv w vl] k v Hit
      by (auto simp: oh_elem_update_def oh_find_refines [OF inv] slot_insert_def)
  next
    case (Free j)
    then have "j < oh_num_buckets h" "oh_slots h ! j = None"
      using find_slot_Free [of "oh_home h" k, OF hm] ln by auto
    then show ?thesis
      using oh_insert_at_refines [OF inv _ _ kl vl, of j] k v Free f
      by (auto simp: oh_elem_update_def oh_find_refines [OF inv] slot_insert_def)
  qed (use f in simp_all)
qed

lemma oh_update_rejected:
  assumes inv: "oh_inv h" and k: "rd p (oh_key_size h) = Inr k"
    and f: "find_slot (oh_home h) k (oh_slots h) = Wrapped \<or>
      (\<exists>i. find_slot (oh_home h) k (oh_slots h) = Free i) \<and> \<not> oh_count h < oh_max_element_count h"
  shows "oh_elem_update p q h = (Inr False, h)"
  using k f by (auto simp: oh_elem_update_def oh_find_refines [OF inv])

lemma oh_find_alternatives:
  assumes inv: "oh_inv h"
  shows "(\<exists>i. find_slot (oh_home h) k (oh_slots h) = Hit i \<or>
      find_slot (oh_home h) k (oh_slots h) = Free i \<and> oh_count h < oh_max_element_count h) \<or>
    (find_slot (oh_home h) k (oh_slots h) = Wrapped \<or>
      (\<exists>i. find_slot (oh_home h) k (oh_slots h) = Free i) \<and> \<not> oh_count h < oh_max_element_count h)"
  using find_slot_enough_fuel [of "oh_home h" k "oh_slots h", OF oh_home_less [OF inv]]
  by (cases "find_slot (oh_home h) k (oh_slots h)") auto

lemma oh_delete_refines:
  assumes inv: "oh_inv h" and k: "rd p (oh_key_size h) = Inr k"
  shows "case find_slot (oh_home h) k (oh_slots h) of
      Hit i \<Rightarrow> \<exists>h'. oh_elem_delete p h = (Inr True, h') \<and> oh_becomes h ((oh_slots h)[i := None]) h'
    | _ \<Rightarrow> oh_elem_delete p h = (Inr False, h)"
proof (cases "find_slot (oh_home h) k (oh_slots h)")
  case (Hit i)
  then obtain w where "i < oh_num_buckets h" "oh_slots h ! i = Some (k, w)"
    using find_slot_Hit [of "oh_home h" k, OF oh_home_less [OF inv]] length_oh_slots [OF inv] by auto
  then show ?thesis
    using oh_set_empty_refines [OF inv, of i "(k, w)"] k Hit
    by (auto simp: oh_elem_delete_def oh_find_refines [OF inv])
qed (simp_all add: oh_elem_delete_def oh_find_refines [OF inv] k)

text \<open>Every operation keeps the layout, the element count and its bound.\<close>

lemma oh_update_inv:
  assumes inv: "oh_inv h"
  shows "oh_inv (snd (oh_elem_update p q h))"
proof (cases "rd p (oh_key_size h)")
  case (Inl f)
  then show ?thesis using inv by (simp add: oh_elem_update_def)
next
  case (Inr k)
  show ?thesis
  proof (cases "rd q (oh_value_size h)")
    case (Inl f)
    then show ?thesis
      using inv Inr by (simp add: oh_elem_update_def oh_find_refines split: probe.splits)
  next
    case q: (Inr v)
    from oh_find_alternatives [OF inv, of k] show ?thesis
      using oh_update_found [OF inv Inr q] oh_update_rejected [OF inv Inr, of q] inv
      by (auto simp: oh_becomes_def)
  qed
qed

lemma oh_delete_inv:
  assumes inv: "oh_inv h"
  shows "oh_inv (snd (oh_elem_delete p h))"
proof (cases "rd p (oh_key_size h)")
  case (Inl f)
  then show ?thesis using inv by (simp add: oh_elem_delete_def)
next
  case (Inr k)
  from oh_delete_refines [OF inv this] show ?thesis
    using inv by (auto simp: oh_becomes_def split: probe.splits)
qed

subsection \<open>The map contract, for tables without deletions\<close>

definition oh_ok :: "open_hash \<Rightarrow> bool" where
  "oh_ok h \<longleftrightarrow> oh_inv h \<and> chained (oh_home h) (oh_slots h)"

definition oh_keyof :: "open_hash \<Rightarrow> ptr \<Rightarrow> bytes option" where
  "oh_keyof h p = (case rd p (oh_key_size h) of Inl _ \<Rightarrow> None | Inr k \<Rightarrow> Some k)"

definition oh_update_unit :: "ptr \<Rightarrow> ptr \<Rightarrow> nat \<Rightarrow> open_hash \<Rightarrow> unit res \<times> open_hash" where
  "oh_update_unit p q fl h = (case oh_elem_update p q h of
       (Inl f, h') \<Rightarrow> (Inl f, h')
     | (Inr b, h') \<Rightarrow> (if b then Inr () else Inl MinusOne, h'))"

lemma oh_keyof_Some: "oh_keyof h p = Some k \<longleftrightarrow> rd p (oh_key_size h) = Inr k"
  by (auto simp: oh_keyof_def split: sum.splits)

lemma oh_update_view:
  assumes ok: "oh_ok h" and k: "rd p (oh_key_size h) = Inr k" and v: "rd q (oh_value_size h) = Inr v"
    and u: "oh_elem_update p q h = (Inr True, h')"
  shows "oh_ok h' \<and> oh_view h' = (oh_view h)(k \<mapsto> v) \<and> oh_key_size h' = oh_key_size h \<and>
    oh_value_size h' = oh_value_size h \<and> oh_max_element_count h' = oh_max_element_count h"
proof -
  have inv: "oh_inv h" and c: "chained (oh_home h) (oh_slots h)" using ok by (auto simp: oh_ok_def)
  obtain i where f: "find_slot (oh_home h) k (oh_slots h) = Hit i \<or>
      find_slot (oh_home h) k (oh_slots h) = Free i \<and> oh_count h < oh_max_element_count h"
    using oh_find_alternatives [OF inv, of k] oh_update_rejected [OF inv k, of q] u by auto
  then have b: "oh_becomes h (slot_insert (oh_home h) k v (oh_slots h)) h'"
    using oh_update_found [OF inv k v] u by auto
  have "find_slot (oh_home h) k (oh_slots h) = Free i \<or> find_slot (oh_home h) k (oh_slots h) = Hit i"
    using f by blast
  from slot_view_insert [OF c oh_home_less [OF inv] this, of v] show ?thesis
    using b slot_insert_chained [OF c oh_home_less [OF inv]] oh_becomes_home [OF b] oh_becomes_conf [OF b]
    by (simp add: oh_ok_def oh_view_def oh_becomes_def)
qed

lemma oh_update_failure:
  "oh_inv h \<Longrightarrow> oh_elem_update p q h = (r, h') \<Longrightarrow> r \<noteq> Inr True \<Longrightarrow> h' = h"
  by (auto simp: oh_elem_update_def split: sum.splits probe.splits if_splits)

interpretation ohs: framed_store oh_ok oh_view oh_keyof oh_value_size MinusOne oh_lookup_bytes oh_update_unit
proof
  fix h h' p k v fl q f k'
  assume ok: "oh_ok h"
  then have inv: "oh_inv h" by (simp add: oh_ok_def)
  show "oh_lookup_bytes p h = (case oh_view h k of None \<Rightarrow> Inl MinusOne | Some v \<Rightarrow> Inr v)"
    if "oh_keyof h p = Some k"
    using oh_lookup_view [OF inv] that by (simp add: oh_keyof_Some)
  show "h' = h" if "oh_update_unit p q fl h = (Inl f, h')"
    using that oh_update_failure [OF inv, of p q]
    by (auto simp: oh_update_unit_def split: prod.splits sum.splits if_splits)
  assume k: "oh_keyof h p = Some k" and u: "oh_update_unit p (Some v) fl h = (Inr (), h')"
  have u': "oh_elem_update p (Some v) h = (Inr True, h')"
    using u by (auto simp: oh_update_unit_def split: prod.splits sum.splits if_splits)
  have rk: "rd p (oh_key_size h) = Inr k" using k by (simp add: oh_keyof_Some)
  then have rv: "rd (Some v) (oh_value_size h) = Inr (take (oh_value_size h) v)"
    using u' by (auto simp: oh_elem_update_def rd_def split: sum.splits probe.splits if_splits)
  note view = oh_update_view [OF ok rk rv u']
  show "oh_view h' k' = oh_view h k'" if "k' \<noteq> k"
    using view that by simp
  show "oh_ok h' \<and> oh_keyof h' = oh_keyof h \<and> oh_value_size h' = oh_value_size h \<and>
      oh_view h' k = Some (take (oh_value_size h) v) \<and>
      (\<forall>k'. k' \<noteq> k \<longrightarrow> oh_view h' k' = None \<or> oh_view h' k' = oh_view h k')"
    using view by (simp add: oh_keyof_def fun_eq_iff)
qed

end
