(* ===== verification/Fix_Hash_Map.thy ===== *)
theory Fix_Hash_Map
  imports Open_Hash
begin

text \<open>
  \<open>fix_size_hash_map_impl\<close> (\<open>runtime/src/bpf_map/userspace/fix_hash_map.cpp\<close>), the
  implementation of \<open>BPF_MAP_TYPE_HASH\<close>: a wrapper of \<open>bpftime_hash_map\<close> that ignores the
  update flags and the boolean results, and iterates over the slots below the requested bucket
  count.
\<close>

record fix_hash =
  fh_impl :: open_hash
  fh_key_size :: nat
  fh_value_size :: nat
  fh_num_buckets :: nat

definition fh_new :: "nat \<Rightarrow> nat \<Rightarrow> nat \<Rightarrow> fix_hash" where
  "fh_new num_buckets key_size value_size =
     \<lparr>fh_impl = oh_new num_buckets key_size value_size, fh_key_size = w32 key_size,
      fh_value_size = w32 value_size, fh_num_buckets = w32 num_buckets\<rparr>"

text \<open>The returned pointer is read by the caller; a null pointer sets no \<open>errno\<close>.\<close>

definition fh_elem_lookup :: "ptr \<Rightarrow> fix_hash \<Rightarrow> bytes res" where
  "fh_elem_lookup key m =
     and_then (oh_elem_lookup key (fh_impl m)) (\<lambda>off. case off of
         None \<Rightarrow> Inl MinusOne
       | Some i \<Rightarrow> load i (fh_value_size m) (oh_data (fh_impl m)))"

definition fh_elem_update :: "ptr \<Rightarrow> ptr \<Rightarrow> nat \<Rightarrow> fix_hash \<Rightarrow> unit res \<times> fix_hash" where
  "fh_elem_update key value flags m = (case oh_elem_update key value (fh_impl m) of
       (Inl f, h) \<Rightarrow> (Inl f, m\<lparr>fh_impl := h\<rparr>)
     | (Inr _, h) \<Rightarrow> (Inr (), m\<lparr>fh_impl := h\<rparr>))"

definition fh_elem_delete :: "ptr \<Rightarrow> fix_hash \<Rightarrow> unit res \<times> fix_hash" where
  "fh_elem_delete key m = (case oh_elem_delete key (fh_impl m) of
       (Inl f, h) \<Rightarrow> (Inl f, m\<lparr>fh_impl := h\<rparr>)
     | (Inr _, h) \<Rightarrow> (Inr (), m\<lparr>fh_impl := h\<rparr>))"

text \<open>\<open>for (i = from; i < _num_buckets; i++)\<close>: the key of the first filled slot.\<close>

function fh_scan :: "nat \<Rightarrow> outbuf \<Rightarrow> fix_hash \<Rightarrow> bytes res" where
  "fh_scan i next_key m =
     (if i < fh_num_buckets m then
        (case oh_is_empty i (fh_impl m) of
            Inl f \<Rightarrow> Inl f
          | Inr True \<Rightarrow> fh_scan (i + 1) next_key m
          | Inr False \<Rightarrow>
              copy_out next_key (load (oh_get_key i (fh_impl m)) (fh_key_size m) (oh_data (fh_impl m))))
      else Inl (Errno ENOENT))"
  by pat_completeness auto
termination by (relation "measure (\<lambda>(i, _, m). fh_num_buckets m - i)") auto

declare fh_scan.simps [simp del]

definition fh_map_get_next_key :: "ptr \<Rightarrow> outbuf \<Rightarrow> fix_hash \<Rightarrow> bytes res" where
  "fh_map_get_next_key key next_key m =
     (if next_key = None then Inl (Errno EINVAL)
      else if key = None then fh_scan 0 next_key m
      else and_then (oh_elem_lookup key (fh_impl m)) (\<lambda>value_ptr.
        if value_ptr = None then fh_scan 0 next_key m
        else fh_scan (w64 (oh_get_index_of_value value_ptr (fh_impl m) + 1)) next_key m))"

subsection \<open>Tables built by updates\<close>

text \<open>A client that writes a list of entries.\<close>

definition fh_writes :: "(bytes \<times> bytes) list \<Rightarrow> fix_hash \<Rightarrow> fix_hash" where
  "fh_writes ws m = foldl (\<lambda>t (k, v). snd (fh_elem_update (Some k) (Some v) 0 t)) m ws"

definition fh_inv :: "fix_hash \<Rightarrow> bool" where
  "fh_inv m \<longleftrightarrow> oh_inv (fh_impl m) \<and> fh_key_size m = oh_key_size (fh_impl m) \<and>
     fh_value_size m = oh_value_size (fh_impl m)"

lemma chunks_replicate0: "chunks w (replicate (n * w) x) = replicate n (replicate w x)" if "0 < w"
proof (rule nth_equalityI)
  show "length (chunks w (replicate (n * w) x)) = length (replicate n (replicate w x))"
    using that by simp
  fix i
  assume "i < length (chunks w (replicate (n * w) x))"
  then have i: "i < n" using that by simp
  then have "i * w + w \<le> n * w" by (rule block_end_le)
  then show "chunks w (replicate (n * w) x) ! i = replicate n (replicate w x) ! i"
    using i that by (simp add: nth_chunks blk_get_def min_def)
qed

lemma le_nat_replicate0: "le_nat (replicate n 0) = 0"
  by (induction n) auto

lemma oh_new_slots:
  assumes "next_prime n * (4 + ks + vs) < 2 ^ 64"
  shows "oh_slots (oh_new n ks vs) = replicate (next_prime n) None" and "oh_inv (oh_new n ks vs)"
proof -
  let ?nb = "next_prime n" and ?w = "4 + ks + vs"
  have "1 * ?w \<le> ?nb * ?w" using next_prime_pos [of n] by (intro mult_le_mono1) simp
  then have "?w \<le> ?nb * ?w" by simp
  then have "?w < 2 ^ 64" using assms by (rule le_less_trans)
  then have w: "w64 ?w = ?w" "w64 (?nb * ?w) = ?nb * ?w" using assms by (blast intro: w64_id)+
  have d: "oh_decode ks vs (replicate ?w 0) = None"
    by (simp add: oh_decode_def blk_get_def min_def le_nat_replicate0)
  show s: "oh_slots (oh_new n ks vs) = replicate ?nb None"
    using chunks_replicate0 [of ?w ?nb "0::byte"] d w
    by (simp add: oh_slots_def oh_new_def Let_def)
  show "oh_inv (oh_new n ks vs)"
    using s w assms next_prime_least [of n] next_prime_pos [of n]
    by (simp add: oh_inv_def filled_def) (simp add: oh_new_def Let_def)
qed

lemma oh_new_ok:
  assumes "next_prime n * (4 + ks + vs) < 2 ^ 64"
  shows "oh_ok (oh_new n ks vs)" and "oh_view (oh_new n ks vs) = Map.empty"
proof -
  note s = oh_new_slots [OF assms]
  show ok: "oh_ok (oh_new n ks vs)" using s by (simp add: oh_ok_def chained_def)
  have "oh_view (oh_new n ks vs) k = None" for k
  proof -
    have "\<not> slot_view (oh_home (oh_new n ks vs)) (oh_slots (oh_new n ks vs)) k = Some v" for v
      using ok slot_view_iff [of "oh_home (oh_new n ks vs)" "oh_slots (oh_new n ks vs)" k v]
        oh_home_less [OF s(2), of k] s(1) by (auto simp: oh_ok_def)
    then show ?thesis unfolding oh_view_def by (metis option.exhaust)
  qed
  then show "oh_view (oh_new n ks vs) = Map.empty" by auto
qed

lemma fh_inv_new:
  assumes "ks < 2 ^ 32" and "vs < 2 ^ 32" and "next_prime n * (4 + ks + vs) < 2 ^ 64"
  shows "fh_inv (fh_new n ks vs)"
  using oh_new_slots [OF assms(3)] assms(1,2)
  by (simp add: fh_inv_def fh_new_def) (simp add: oh_new_def Let_def)

lemma filled_card_view:
  assumes ok: "oh_ok h"
  shows "oh_count h = card (dom (oh_view h))"
proof -
  let ?ss = "oh_slots h" and ?I = "{i. i < length (oh_slots h) \<and> oh_slots h ! i \<noteq> None}"
  let ?key = "\<lambda>i. fst (the (oh_slots h ! i))"
  have inv: "oh_inv h" and c: "chained (oh_home h) ?ss" using ok by (auto simp: oh_ok_def)
  have hit: "find_slot (oh_home h) (?key i) ?ss = Hit i" if "i \<in> ?I" for i
    using that find_slot_present [OF c oh_home_less [OF inv]] by auto
  have inj: "inj_on ?key ?I"
  proof (rule inj_onI)
    fix i j
    assume "i \<in> ?I" "j \<in> ?I" "?key i = ?key j"
    then have "Hit i = Hit j" using hit [of i] hit [of j] by (simp only:)
    then show "i = j" by simp
  qed
  have img: "?key ` ?I = dom (oh_view h)"
  proof (intro set_eqI iffI)
    fix k
    assume "k \<in> ?key ` ?I"
    then obtain i where i: "i \<in> ?I" "k = ?key i" by blast
    then have "oh_view h k = map_option snd (oh_slots h ! i)"
      using hit [OF i(1)] by (simp add: oh_view_def slot_view_def)
    then show "k \<in> dom (oh_view h)" using i(1) by (auto simp: domIff)
  next
    fix k
    assume "k \<in> dom (oh_view h)"
    then obtain v where "Some (k, v) \<in> set ?ss"
      using slot_view_iff [OF c oh_home_less [OF inv]] by (auto simp: oh_view_def)
    then obtain i where "i < length ?ss" "?ss ! i = Some (k, v)" by (auto simp: in_set_conv_nth)
    then show "k \<in> ?key ` ?I" by (intro image_eqI [of _ _ i]) auto
  qed
  have "card ?I = card (dom (oh_view h))" using card_image [OF inj] unfolding img by (rule sym)
  moreover have "oh_count h = card ?I"
    using inv by (simp add: oh_inv_def filled_def length_filter_conv_card)
  ultimately show ?thesis by simp
qed

lemma oh_room_or_present:
  assumes ok: "oh_ok h" and "k \<in> dom (oh_view h) \<or> oh_count h < oh_max_element_count h"
  shows "\<exists>i. find_slot (oh_home h) k (oh_slots h) = Hit i \<or>
      find_slot (oh_home h) k (oh_slots h) = Free i \<and> oh_count h < oh_max_element_count h"
proof -
  have inv: "oh_inv h" using ok by (simp add: oh_ok_def)
  have "find_slot (oh_home h) k (oh_slots h) \<noteq> Wrapped" if "oh_count h < oh_max_element_count h"
  proof
    assume w: "find_slot (oh_home h) k (oh_slots h) = Wrapped"
    let ?n = "length (oh_slots h)"
    have h: "oh_home h k < ?n" by (rule oh_home_less [OF inv])
    have all: "\<forall>j<?n. \<not> stops k (oh_slots h ! ((oh_home h k + j) mod ?n))"
      by (rule find_slot_cases [of "oh_home h" k "oh_slots h", OF h])
        (use w in \<open>auto simp: verdict_def split: option.splits\<close>)
    have "oh_slots h ! i \<noteq> None" if i: "i < ?n" for i
    proof -
      have "(oh_home h k + (i + ?n - oh_home h k) mod ?n) mod ?n = i"
        using h i by (simp add: mod_add_right_eq)
      moreover have "(i + ?n - oh_home h k) mod ?n < ?n" using h by (intro mod_less_divisor) linarith
      ultimately have "\<not> stops k (oh_slots h ! i)" using all by metis
      then show ?thesis by (cases "oh_slots h ! i") (auto simp: stops_def)
    qed
    then have "\<forall>s\<in>set (oh_slots h). s \<noteq> None" by (metis in_set_conv_nth)
    then have "filter (\<lambda>s. s \<noteq> None) (oh_slots h) = oh_slots h" by (rule filter_True)
    then have "filled (oh_slots h) = ?n" unfolding filled_def by (rule arg_cong)
    then show False using that inv length_oh_slots [OF inv] by (simp add: oh_inv_def)
  qed
  moreover have "\<exists>i. find_slot (oh_home h) k (oh_slots h) = Hit i" if "k \<in> dom (oh_view h)"
    using that by (auto simp: oh_view_def slot_view_def split: probe.splits)
  ultimately show ?thesis
    using assms(2) find_slot_enough_fuel [of "oh_home h" k "oh_slots h", OF oh_home_less [OF inv]]
    by (cases "find_slot (oh_home h) k (oh_slots h)") auto
qed

lemma fh_lookup_eq: "fh_inv m \<Longrightarrow> fh_elem_lookup p m = oh_lookup_bytes p (fh_impl m)"
  by (simp add: fh_elem_lookup_def oh_lookup_bytes_def fh_inv_def cong: option.case_cong)

lemma fh_writes_view:
  assumes sz: "next_prime n * (4 + ks + vs) < 2 ^ 64" "ks < 2 ^ 32" "vs < 2 ^ 32"
  shows "\<forall>(k, v)\<in>set ws. length k = ks \<and> length v = vs \<Longrightarrow> card (set (map fst ws)) \<le> n \<Longrightarrow>
    oh_ok (fh_impl (fh_writes ws (fh_new n ks vs))) \<and> fh_inv (fh_writes ws (fh_new n ks vs)) \<and>
    oh_view (fh_impl (fh_writes ws (fh_new n ks vs))) = map_of (rev ws) \<and>
    oh_key_size (fh_impl (fh_writes ws (fh_new n ks vs))) = ks \<and>
    oh_value_size (fh_impl (fh_writes ws (fh_new n ks vs))) = vs \<and>
    oh_max_element_count (fh_impl (fh_writes ws (fh_new n ks vs))) = n"
proof (induction ws rule: rev_induct)
  case Nil
  then show ?case
    using oh_new_ok [OF sz(1)] fh_inv_new [OF sz(2,3,1)]
    by (simp add: fh_writes_def fh_new_def) (simp add: oh_new_def Let_def)
next
  case (snoc w ws)
  obtain k v where w: "w = (k, v)" by (cases w)
  let ?m = "fh_writes ws (fh_new n ks vs)"
  have "card (set (map fst ws)) \<le> card (set (map fst (ws @ [w])))" by (intro card_mono) auto
  then have ih: "oh_ok (fh_impl ?m)" "fh_inv ?m" "oh_view (fh_impl ?m) = map_of (rev ws)"
    "oh_key_size (fh_impl ?m) = ks" "oh_value_size (fh_impl ?m) = vs" "oh_max_element_count (fh_impl ?m) = n"
    using snoc by auto
  have kv: "rd (Some k) (oh_key_size (fh_impl ?m)) = Inr k" "rd (Some v) (oh_value_size (fh_impl ?m)) = Inr v"
    using snoc.prems(1) w ih(4,5) by (simp_all add: rd_def)
  have dom: "dom (oh_view (fh_impl ?m)) = set (map fst ws)" using ih(3) by (simp add: dom_map_of_conv_image_fst)
  have "k \<in> dom (oh_view (fh_impl ?m)) \<or> oh_count (fh_impl ?m) < oh_max_element_count (fh_impl ?m)"
  proof (cases "k \<in> set (map fst ws)")
    case False
    then have "card (set (map fst (ws @ [w]))) = Suc (card (set (map fst ws)))" using w by simp
    then show ?thesis using snoc.prems(2) filled_card_view [OF ih(1)] dom ih(6) by simp
  qed (simp add: dom)
  from oh_room_or_present [OF ih(1) this]
  obtain i where "find_slot (oh_home (fh_impl ?m)) k (oh_slots (fh_impl ?m)) = Hit i \<or>
      find_slot (oh_home (fh_impl ?m)) k (oh_slots (fh_impl ?m)) = Free i \<and>
      oh_count (fh_impl ?m) < oh_max_element_count (fh_impl ?m)" by blast
  then obtain h' where u: "oh_elem_update (Some k) (Some v) (fh_impl ?m) = (Inr True, h')"
    using oh_update_found [OF _ kv] ih(1) by (auto simp: oh_ok_def)
  have e: "fh_writes (ws @ [w]) (fh_new n ks vs) = ?m\<lparr>fh_impl := h'\<rparr>"
    using u w by (simp add: fh_writes_def fh_elem_update_def)
  note view = oh_update_view [OF ih(1) kv u]
  have "fh_inv (?m\<lparr>fh_impl := h'\<rparr>)" using view ih(2) by (simp add: fh_inv_def oh_ok_def)
  then show ?case unfolding e using view ih(3-6) w by simp
qed

lemma fh_scan_empty:
  assumes inv: "oh_inv (fh_impl m)" and le: "fh_num_buckets m \<le> oh_num_buckets (fh_impl m)"
    and e: "\<forall>i<fh_num_buckets m. oh_slots (fh_impl m) ! i = None"
  shows "fh_scan i out m = Inl (Errno ENOENT)"
proof (induction "fh_num_buckets m - i" arbitrary: i rule: less_induct)
  case less
  then show ?case
    using oh_is_empty_slot [OF inv, of i] le e by (subst fh_scan.simps) auto
qed

lemma oh_delete_hides_slot:
  assumes inv: "oh_inv h" and c: "chained (oh_home h) (oh_slots h)"
    and i: "oh_slots h ! i = Some (k1, v1)" "i = (oh_home h k2 + d1) mod oh_num_buckets h"
    and j: "oh_slots h ! j = Some (k2, v2)" "j = (oh_home h k2 + d2) mod oh_num_buckets h"
    and d: "d1 < d2" "d2 < oh_num_buckets h"
  shows "find_slot (oh_home h) k2 ((oh_slots h)[i := None]) = Free i"
proof -
  let ?ss = "oh_slots h" and ?n = "oh_num_buckets h" and ?h = "oh_home h k2"
  have n: "length ?ss = ?n" "0 < ?n" using inv length_oh_slots by (auto simp: oh_inv_def)
  then have lt: "i < ?n" "j < ?n" using i j by simp_all
  obtain e where e: "e < ?n" "j = (?h + e) mod ?n" "\<forall>x<e. \<not> stops k2 (?ss ! ((?h + x) mod ?n))"
    using c j(1) lt n unfolding chained_def by metis
  have "e = d2"
    using ring_neq [of e d2 ?n ?h] ring_neq [of d2 e ?n ?h] e(1,2) j(2) d(2)
    by (metis less_imp_diff_less linorder_neqE_nat)
  then have ns: "\<not> stops k2 ((?ss[i := None]) ! ((?h + x) mod ?n))" if "x < d1" for x
    using e(3) d that ring_neq [of x d1 ?n ?h] i(2) by (simp add: less_imp_diff_less)
  have "?ss[i := None] ! ((?h + d1) mod ?n) = None" using i(2) lt n by simp
  then show ?thesis
    using find_slot_stops [of "oh_home h" k2 "?ss[i := None]" d1] ns n oh_home_less [OF inv, of k2] d i(2)
    by (simp add: stops_def verdict_def)
qed

subsection \<open>Properties\<close>

text \<open>
  C4: as long as no entry is deleted and the distinct keys fit the table, the hash map is a
  map: after any sequence of updates a lookup returns the value last written to the key, and
  the null pointer for a key never written.
\<close>

theorem fh_updates_form_map:
  assumes "next_prime n * (4 + ks + vs) < 2 ^ 64" and "ks < 2 ^ 32" and "vs < 2 ^ 32"
    and "\<forall>(k, v)\<in>set ws. length k = ks \<and> length v = vs" and "card (set (map fst ws)) \<le> n"
    and "length k = ks"
  shows "fh_elem_lookup (Some k) (fh_writes ws (fh_new n ks vs)) =
    (case map_of (rev ws) k of None \<Rightarrow> Inl MinusOne | Some v \<Rightarrow> Inr v)"
proof -
  let ?m = "fh_writes ws (fh_new n ks vs)"
  note w = fh_writes_view [OF assms(1-5)]
  have "oh_keyof (fh_impl ?m) (Some k) = Some k" using w assms(6) by (simp add: oh_keyof_def rd_def)
  then show ?thesis
    using w ohs.lookup_view [of "fh_impl ?m" "Some k" k] fh_lookup_eq [of ?m] by simp
qed

theorem fh_updates_form_map_witness:
  "fh_elem_lookup (Some [5]) (fh_writes [([5], [1]), ([2], [2]), ([5], [3])] (fh_new 2 1 1)) = Inr [3]"
proof -
  have "next_prime 2 = 2" by (simp add: next_prime.simps is_prime_def)
  then show ?thesis
    using fh_updates_form_map [of 2 1 1 "[([5], [1]), ([2], [2]), ([5], [3])]" "[5]"]
    by (simp add: card_insert_if)
qed

text \<open>
  C7: every operation of the table, deletions included, stays inside the buffer. With key and value
  pointers that have as many readable bytes as the table stores, a lookup returns a null pointer or the
  offset of a value that lies in the buffer, update and delete return a boolean, and the table stays well
  formed: the element count is the number of filled slots, at most \<open>_max_element_count\<close>. The probing loop
  ends within \<open>_num_buckets\<close> steps.
\<close>

theorem oh_operations_safe:
  assumes "oh_inv h" and "oh_key_size h \<le> length k" and "oh_value_size h \<le> length v"
  shows "(\<exists>b h'. oh_elem_update (Some k) (Some v) h = (Inr b, h') \<and> oh_inv h') \<and>
    (\<exists>b h'. oh_elem_delete (Some k) h = (Inr b, h') \<and> oh_inv h') \<and>
    (\<exists>off. oh_elem_lookup (Some k) h = Inr off \<and> (\<forall>i. off = Some i \<longrightarrow> i + oh_value_size h \<le> length (oh_data h))) \<and>
    oh_find (take (oh_key_size h) k) h \<noteq> Inr OutOfFuel"
proof (intro conjI)
  have k: "rd (Some k) (oh_key_size h) = Inr (take (oh_key_size h) k)"
    and v: "rd (Some v) (oh_value_size h) = Inr (take (oh_value_size h) v)"
    using assms by (simp_all add: rd_def)
  show "\<exists>b h'. oh_elem_update (Some k) (Some v) h = (Inr b, h') \<and> oh_inv h'"
    using oh_find_alternatives [OF assms(1)] oh_update_found [OF assms(1) k v]
      oh_update_rejected [OF assms(1) k] assms(1) by (meson oh_becomes_def)
  show "\<exists>b h'. oh_elem_delete (Some k) h = (Inr b, h') \<and> oh_inv h'"
    using oh_delete_refines [OF assms(1) k] assms(1) by (auto simp: oh_becomes_def split: probe.splits)
  have "oh_lookup_bytes (Some k) h \<noteq> Inl UB"
    using oh_lookup_view [OF assms(1) k] by (simp split: option.split)
  then show "\<exists>off. oh_elem_lookup (Some k) h = Inr off \<and> (\<forall>i. off = Some i \<longrightarrow> i + oh_value_size h \<le> length (oh_data h))"
    using k by (auto simp: oh_lookup_bytes_def oh_elem_lookup_def oh_find_refines [OF assms(1)] load_def
        split: probe.splits if_splits)
  show "oh_find (take (oh_key_size h) k) h \<noteq> Inr OutOfFuel"
    using find_slot_enough_fuel [OF oh_home_less [OF assms(1)]] oh_find_refines [OF assms(1)] by simp
qed

theorem oh_operations_safe_witness:
  "(\<exists>b h'. oh_elem_update (Some [5]) (Some [7]) (oh_new 2 1 1) = (Inr b, h') \<and> oh_inv h') \<and>
   (\<exists>off. oh_elem_lookup (Some [5]) (oh_new 2 1 1) = Inr off)"
proof -
  have "next_prime 2 = 2" by (simp add: next_prime.simps is_prime_def)
  then have "oh_inv (oh_new 2 1 1)" by (intro oh_new_slots) simp
  then show ?thesis
    using oh_operations_safe [of "oh_new 2 1 1" "[5]" "[7]"] by (auto simp: oh_new_def Let_def)
qed

text \<open>
  an update of a full table with a new key returns 0 although nothing was stored: the state
  is unchanged and a lookup of the key still fails. The flags are not looked at.
\<close>

theorem fh_update_drops_silently:
  assumes "fh_inv m" and "oh_ok (fh_impl m)" and "length k = oh_key_size (fh_impl m)"
    and "oh_view (fh_impl m) k = None" and "oh_count (fh_impl m) = oh_max_element_count (fh_impl m)"
  shows "fh_elem_update (Some k) value flags m = (Inr (), m) \<and> fh_elem_lookup (Some k) m = Inl MinusOne"
proof
  have inv: "oh_inv (fh_impl m)" using assms(1) by (simp add: fh_inv_def)
  have k: "rd (Some k) (oh_key_size (fh_impl m)) = Inr k" using assms(3) by (simp add: rd_def)
  have "\<not> find_slot (oh_home (fh_impl m)) k (oh_slots (fh_impl m)) = Hit i" for i
    using assms(4) find_slot_Hit [of "oh_home (fh_impl m)" k "oh_slots (fh_impl m)" i, OF oh_home_less [OF inv]]
    by (auto simp: oh_view_def slot_view_def)
  then have "oh_elem_update (Some k) value (fh_impl m) = (Inr False, fh_impl m)"
    using oh_find_alternatives [OF inv, of k] assms(5) by (intro oh_update_rejected [OF inv k]) auto
  then show "fh_elem_update (Some k) value flags m = (Inr (), m)" by (simp add: fh_elem_update_def)
  show "fh_elem_lookup (Some k) m = Inl MinusOne"
    using fh_lookup_eq [OF assms(1)] oh_lookup_view [OF inv k] assms(4) by simp
qed

theorem fh_update_drops_silently_witness:
  "fh_elem_update (Some [7]) (Some [9]) 0 (fh_writes [([5], [1])] (fh_new 1 1 1)) =
     (Inr (), fh_writes [([5], [1])] (fh_new 1 1 1))"
proof -
  let ?m = "fh_writes [([5], [1])] (fh_new 1 1 1)"
  have "next_prime 1 = 2" by (simp add: next_prime.simps is_prime_def)
  then have w: "oh_ok (fh_impl ?m) \<and> fh_inv ?m \<and> oh_view (fh_impl ?m) = map_of [([5], [1])] \<and>
      oh_key_size (fh_impl ?m) = 1 \<and> oh_max_element_count (fh_impl ?m) = 1"
    using fh_writes_view [of 1 1 1 "[([5], [1])]"] by simp
  then have "oh_count (fh_impl ?m) = 1" using filled_card_view [of "fh_impl ?m"] by simp
  then show ?thesis
    using fh_update_drops_silently [of ?m "[7]" "Some [9]" 0] w by simp
qed

text \<open>
  deleting a key empties its slot and so cuts every probe path through it: an entry that
  lies behind the deleted slot on its own probe path is found before the deletion and not
  after it, though it was not deleted.
\<close>

theorem oh_delete_hides_entry:
  assumes "oh_ok h" and "rd p1 (oh_key_size h) = Inr k1" and "rd p2 (oh_key_size h) = Inr k2"
    and "oh_slots h ! i = Some (k1, v1)" and "i = (oh_home h k2 + d1) mod oh_num_buckets h"
    and "oh_slots h ! j = Some (k2, v2)" and "j = (oh_home h k2 + d2) mod oh_num_buckets h"
    and "d1 < d2" and "d2 < oh_num_buckets h"
  shows "oh_lookup_bytes p2 h = Inr v2 \<and>
    (\<exists>h'. oh_elem_delete p1 h = (Inr True, h') \<and> oh_lookup_bytes p2 h' = Inl MinusOne)"
proof -
  have inv: "oh_inv h" and c: "chained (oh_home h) (oh_slots h)" using assms(1) by (auto simp: oh_ok_def)
  have n: "length (oh_slots h) = oh_num_buckets h" "0 < oh_num_buckets h"
    using inv length_oh_slots by (auto simp: oh_inv_def)
  have f: "find_slot (oh_home h) k1 (oh_slots h) = Hit i" "find_slot (oh_home h) k2 (oh_slots h) = Hit j"
    using find_slot_present [OF c oh_home_less [OF inv]] assms(4-7) n by simp_all
  have "oh_lookup_bytes p2 h = Inr v2"
    using oh_lookup_view [OF inv assms(3)] f(2) assms(6) by (simp add: oh_view_def slot_view_def)
  moreover obtain h' where h': "oh_elem_delete p1 h = (Inr True, h')"
    "oh_becomes h ((oh_slots h)[i := None]) h'"
    using oh_delete_refines [OF inv assms(2)] f(1) by auto
  moreover have "oh_lookup_bytes p2 h' = Inl MinusOne"
    using oh_lookup_view [of h' p2 k2] assms(3) h'(2) oh_becomes_home [OF h'(2)] oh_becomes_conf [OF h'(2)]
      oh_delete_hides_slot [OF inv c assms(4-9)]
    by (simp add: oh_becomes_def oh_view_def slot_view_def)
  ultimately show ?thesis by blast
qed

theorem oh_delete_hides_entry_witness:
  "\<exists>h h'. oh_lookup_bytes (Some [2]) h = Inr [9] \<and> oh_elem_delete (Some [0]) h = (Inr True, h') \<and>
     oh_lookup_bytes (Some [2]) h' = Inl MinusOne"
proof -
  let ?h = "\<lparr>oh_key_size = 1, oh_value_size = 1, oh_num_buckets = 2, oh_max_element_count = 2,
    oh_count = 2, oh_data = [1, 0, 0, 0, 0, 8, 1, 0, 0, 0, 2, 9]\<rparr>"
  have u: "[0..<2] = [0, 1::nat]" by (simp add: upt_rec)
  have s: "oh_slots ?h = [Some ([0], [8]), Some ([2], [9])]"
    by (simp add: oh_slots_def chunks_def u blk_get_def oh_decode_def)
  have hm: "oh_home ?h [0] = 0" "oh_home ?h [2] = 0" by (simp_all add: oh_home_def oh_hash_func_def)
  have "chained (oh_home ?h) (oh_slots ?h)"
    unfolding s chained_def
  proof (intro allI impI)
    fix i k v
    assume i: "i < length [Some ([0::byte], [8::byte]), Some ([2], [9])]"
      "[Some ([0::byte], [8::byte]), Some ([2], [9])] ! i = Some (k, v)"
    then have "i = 0 \<and> k = [0] \<or> i = 1 \<and> k = [2]" by (auto simp: less_Suc_eq)
    then show "\<exists>d<length [Some ([0::byte], [8::byte]), Some ([2], [9])].
        i = (oh_home ?h k + d) mod length [Some ([0::byte], [8::byte]), Some ([2], [9])] \<and>
        (\<forall>j<d. \<not> stops k ([Some ([0], [8]), Some ([2], [9])] !
            ((oh_home ?h k + j) mod length [Some ([0::byte], [8::byte]), Some ([2], [9])])))"
      using hm by (intro exI [of _ i]) (auto simp: stops_def)
  qed
  then have "oh_ok ?h" using s by (simp add: oh_ok_def oh_inv_def filled_def)
  from oh_delete_hides_entry [OF this, of "Some [0]" "[0]" "Some [2]" "[2]" 0 "[8]" 0 1 "[9]" 1]
  show ?thesis using s hm by (auto simp: rd_def)
qed

text \<open>
  iteration looks only at the slots below the requested bucket count, while the table has
  the next prime number of buckets: a key stored in a slot at or above that count is found by
  lookup and never returned by \<open>map_get_next_key\<close>.
\<close>

theorem fh_iteration_misses_key:
  assumes "fh_inv m" and "fh_num_buckets m \<le> oh_num_buckets (fh_impl m)"
    and "\<forall>i<fh_num_buckets m. oh_slots (fh_impl m) ! i = None"
  shows "fh_map_get_next_key None (Some c) m = Inl (Errno ENOENT)"
  using fh_scan_empty [of m 0 "Some c"] assms by (simp add: fh_map_get_next_key_def fh_inv_def)

theorem fh_iteration_misses_key_witness:
  "\<exists>m. fh_num_buckets m = 4 \<and> fh_elem_lookup (Some [4]) m = Inr [9] \<and>
     fh_map_get_next_key None (Some 1) m = Inl (Errno ENOENT)"
proof -
  let ?h = "\<lparr>oh_key_size = 1, oh_value_size = 1, oh_num_buckets = 5, oh_max_element_count = 4,
    oh_count = 1, oh_data = replicate 24 0 @ [1, 0, 0, 0, 4, 9]\<rparr>"
  let ?m = "\<lparr>fh_impl = ?h, fh_key_size = 1, fh_value_size = 1, fh_num_buckets = 4\<rparr>"
  have u: "[0..<5] = [0, 1, 2, 3, 4::nat]" by (simp add: upt_rec)
  have s: "oh_slots ?h = [None, None, None, None, Some ([4], [9])]"
    by (simp add: oh_slots_def chunks_def u blk_get_def oh_decode_def min_def le_nat_replicate0)
  have inv: "oh_inv ?h" using s by (simp add: oh_inv_def filled_def)
  have "find_slot (oh_home ?h) [4] (oh_slots ?h) = Hit 4"
    using find_slot_stops [of "oh_home ?h" "[4]" "oh_slots ?h" 0] s
    by (simp add: oh_home_def oh_hash_func_def stops_def verdict_def)
  then have "fh_elem_lookup (Some [4]) ?m = Inr [9]"
    using fh_lookup_eq [of ?m "Some [4]"] oh_lookup_view [OF inv, of "Some [4]" "[4]"] inv s
    by (simp add: fh_inv_def rd_def oh_view_def slot_view_def)
  moreover have "\<forall>i<4. oh_slots ?h ! i = None"
    unfolding s by (auto simp: less_Suc_eq numeral_eq_Suc)
  ultimately show ?thesis
    using fh_iteration_misses_key [of ?m 1] inv by (intro exI [of _ ?m]) (simp add: fh_inv_def)
qed

end
