(* ===== verification/Lru_Hash_Map.thy ===== *)
theory Lru_Hash_Map
  imports Map_Common
begin

text \<open>
  \<open>lru_var_hash_map_impl\<close> (\<open>runtime/src/bpf_map/userspace/lru_var_hash_map.cpp\<close>): a
  dictionary whose values point to the nodes of a doubly linked list kept in order of use. The
  nodes are a heap from addresses to records; shared and weak pointers are addresses, and a
  dereference of a null pointer is the fault \<open>UB\<close>. The theory shows that the pointer
  operations keep the list well formed and that the map refines a list of entries, most
  recently used first, from which the last is evicted when the map is full.
\<close>

record lru_node =
  ln_key :: bytes
  ln_next :: "nat option"
  ln_prev :: "nat option"

record lru_value =
  hv_value :: bytes
  hv_entry :: nat

record lru_map =
  lru_impl :: "lru_value dict"
  lru_head :: "nat option"
  lru_tail :: "nat option"
  lru_nodes :: "nat \<Rightarrow> lru_node option"
  lru_fresh :: nat
  lru_key_size :: nat
  lru_value_size :: nat
  lru_max_entries :: nat

definition lru_is_good_update_flag :: "nat \<Rightarrow> bool" where
  "lru_is_good_update_flag flags \<longleftrightarrow> flags = BPF_ANY \<or> flags = BPF_EXIST \<or> flags = BPF_NOEXIST"

definition lru_new :: "nat \<Rightarrow> nat \<Rightarrow> nat \<Rightarrow> lru_map" where
  "lru_new key_size value_size max_entries =
     \<lparr>lru_impl = [], lru_head = None, lru_tail = None, lru_nodes = Map.empty, lru_fresh = 0,
      lru_key_size = key_size, lru_value_size = value_size, lru_max_entries = max_entries\<rparr>"

text \<open>Accesses through a pointer.\<close>

definition lru_deref :: "nat option \<Rightarrow> lru_map \<Rightarrow> lru_node res" where
  "lru_deref p m = (case p of
       None \<Rightarrow> Inl UB
     | Some a \<Rightarrow> (case lru_nodes m a of None \<Rightarrow> Inl UB | Some n \<Rightarrow> Inr n))"

definition lru_set_next :: "nat option \<Rightarrow> nat option \<Rightarrow> lru_map \<Rightarrow> lru_map res" where
  "lru_set_next p q m =
     and_then (lru_deref p m) (\<lambda>n. Inr (m\<lparr>lru_nodes := (lru_nodes m)(the p \<mapsto> n\<lparr>ln_next := q\<rparr>)\<rparr>))"

definition lru_set_prev :: "nat option \<Rightarrow> nat option \<Rightarrow> lru_map \<Rightarrow> lru_map res" where
  "lru_set_prev p q m =
     and_then (lru_deref p m) (\<lambda>n. Inr (m\<lparr>lru_nodes := (lru_nodes m)(the p \<mapsto> n\<lparr>ln_prev := q\<rparr>)\<rparr>))"

text \<open>The second half of \<open>move_to_head\<close>: the unlinked entry becomes the head.\<close>

definition lru_link_head :: "nat \<Rightarrow> lru_map \<Rightarrow> lru_map res" where
  "lru_link_head entry m =
     and_then (lru_set_next (Some entry) (lru_head m) m) (\<lambda>m1.
     and_then (lru_set_prev (Some entry) None m1) (\<lambda>m2.
     and_then (lru_set_prev (lru_head m2) (Some entry) m2) (\<lambda>m3.
       Inr (m3\<lparr>lru_head := Some entry\<rparr>))))"

definition lru_move_to_head :: "nat \<Rightarrow> lru_map \<Rightarrow> lru_map res" where
  "lru_move_to_head entry m =
     (if Some entry = lru_head m then Inr m
      else and_then (lru_deref (Some entry) m) (\<lambda>n.
        let prev = ln_prev n; nxt = ln_next n in
        and_then (lru_set_next prev nxt m) (\<lambda>m1.
        and_then (case nxt of
            Some _ \<Rightarrow> lru_set_prev nxt prev m1
          | None \<Rightarrow> Inr (m1\<lparr>lru_tail := prev\<rparr>)) (\<lambda>m2.
          lru_link_head entry m2))))"

definition lru_insert_new_entry :: "bytes \<Rightarrow> lru_map \<Rightarrow> (nat \<times> lru_map) res" where
  "lru_insert_new_entry key m =
     (let entry = lru_fresh m;
          m1 = m\<lparr>lru_fresh := Suc entry,
                 lru_nodes := (lru_nodes m)(entry \<mapsto> \<lparr>ln_key = key, ln_next = None, ln_prev = None\<rparr>)\<rparr> in
      if lru_head m1 = None then Inr (entry, m1\<lparr>lru_head := Some entry, lru_tail := Some entry\<rparr>)
      else and_then (lru_set_next (Some entry) (lru_head m1) m1) (\<lambda>m2.
           and_then (lru_set_prev (lru_head m2) (Some entry) m2) (\<lambda>m3.
             Inr (entry, m3\<lparr>lru_head := Some entry\<rparr>))))"

definition lru_evict_entry :: "nat \<Rightarrow> lru_map \<Rightarrow> lru_map res" where
  "lru_evict_entry entry m =
     (if Some entry = lru_tail m then
        if Some entry = lru_head m then Inr (m\<lparr>lru_head := None, lru_tail := None\<rparr>)
        else and_then (lru_deref (Some entry) m) (\<lambda>n.
             and_then (lru_set_next (ln_prev n) None m) (\<lambda>m1.
               Inr (m1\<lparr>lru_tail := ln_prev n\<rparr>)))
      else if Some entry = lru_head m then
        and_then (lru_deref (Some entry) m) (\<lambda>n.
        and_then (lru_set_prev (ln_next n) None m) (\<lambda>m1.
          Inr (m1\<lparr>lru_head := ln_next n\<rparr>)))
      else
        and_then (lru_deref (Some entry) m) (\<lambda>n.
        and_then (lru_set_next (ln_prev n) (ln_next n) m) (\<lambda>m1.
          lru_set_prev (ln_next n) (ln_prev n) m1)))"

definition lru_elem_lookup :: "ptr \<Rightarrow> lru_map \<Rightarrow> bytes res \<times> lru_map" where
  "lru_elem_lookup key m = (case rd key (lru_key_size m) of
       Inl f \<Rightarrow> (Inl f, m)
     | Inr k \<Rightarrow> (case map_of (lru_impl m) k of
           None \<Rightarrow> (Inl (Errno ENOENT), m)
         | Some hv \<Rightarrow> (case lru_move_to_head (hv_entry hv) m of
               Inl f \<Rightarrow> (Inl f, m)
             | Inr m' \<Rightarrow> (Inr (hv_value hv), m'))))"

text \<open>\<open>map_impl.erase(lru_link_list_tail->key); evict_entry(lru_link_list_tail);\<close>\<close>

definition lru_evict_tail :: "lru_map \<Rightarrow> lru_map res" where
  "lru_evict_tail m =
     and_then (lru_deref (lru_tail m) m) (\<lambda>n.
       lru_evict_entry (the (lru_tail m)) (m\<lparr>lru_impl := dict_erase (ln_key n) (lru_impl m)\<rparr>))"

definition lru_elem_update ::
  "lru_value inserter \<Rightarrow> ptr \<Rightarrow> ptr \<Rightarrow> nat \<Rightarrow> lru_map \<Rightarrow> unit res \<times> lru_map"
where
  "lru_elem_update ins key value flags m =
     (if \<not> lru_is_good_update_flag flags then (Inl (Errno EINVAL), m)
      else (case rd key (lru_key_size m) of
          Inl f \<Rightarrow> (Inl f, m)
        | Inr k \<Rightarrow> (case map_of (lru_impl m) k of
              Some hv \<Rightarrow>
                (if flags = BPF_NOEXIST then (Inl (Errno EEXIST), m)
                 else (case and_then (rd value (lru_value_size m)) (\<lambda>v.
                     lru_move_to_head (hv_entry hv)
                       (m\<lparr>lru_impl := dict_assign k (hv\<lparr>hv_value := v\<rparr>) (lru_impl m)\<rparr>)) of
                     Inl f \<Rightarrow> (Inl f, m)
                   | Inr m' \<Rightarrow> (Inr (), m')))
            | None \<Rightarrow>
                (if flags = BPF_EXIST then (Inl (Errno ENOENT), m)
                 else (case and_then
                     (if length (lru_impl m) = lru_max_entries m then lru_evict_tail m else Inr m)
                     (\<lambda>m1. and_then (rd value (lru_value_size m1)) (\<lambda>v.
                       and_then (lru_insert_new_entry k m1) (\<lambda>(entry, m2).
                         Inr (m2\<lparr>lru_impl := ins k \<lparr>hv_value = v, hv_entry = entry\<rparr> (lru_impl m2)\<rparr>)))) of
                     Inl f \<Rightarrow> (Inl f, m)
                   | Inr m' \<Rightarrow> (Inr (), m'))))))"

definition lru_elem_delete :: "ptr \<Rightarrow> lru_map \<Rightarrow> unit res \<times> lru_map" where
  "lru_elem_delete key m = (case rd key (lru_key_size m) of
       Inl f \<Rightarrow> (Inl f, m)
     | Inr k \<Rightarrow> (case map_of (lru_impl m) k of
           None \<Rightarrow> (Inl (Errno ENOENT), m)
         | Some hv \<Rightarrow> (case lru_evict_entry (hv_entry hv) m of
               Inl f \<Rightarrow> (Inl f, m)
             | Inr m' \<Rightarrow> (Inr (), m'\<lparr>lru_impl := dict_erase k (lru_impl m')\<rparr>))))"

definition lru_first_key :: "outbuf \<Rightarrow> lru_map \<Rightarrow> bytes res" where
  "lru_first_key next_key m = (case lru_impl m of
       [] \<Rightarrow> Inl (Errno ENOENT)
     | x # _ \<Rightarrow> copy_out next_key (Inr (fst x)))"

definition lru_map_get_next_key :: "ptr \<Rightarrow> outbuf \<Rightarrow> lru_map \<Rightarrow> bytes res" where
  "lru_map_get_next_key key next_key m =
     (if key = None then lru_first_key next_key m
      else (case rd key (lru_key_size m) of
          Inl f \<Rightarrow> Inl f
        | Inr k \<Rightarrow> (case map_of (lru_impl m) k of
              None \<Rightarrow> lru_first_key next_key m
            | Some _ \<Rightarrow> (case dict_next k (lru_impl m) of
                  None \<Rightarrow> Inl (Errno ENOENT)
                | Some k' \<Rightarrow> copy_out next_key (Inr k')))))"

subsection \<open>Doubly linked lists\<close>

text \<open>\<open>dll h p xs q\<close>: the nodes \<open>xs\<close> are linked in both directions, between \<open>p\<close> and \<open>q\<close>.\<close>

definition first_id :: "'a list \<Rightarrow> 'a option \<Rightarrow> 'a option" where
  "first_id xs q = (case xs of [] \<Rightarrow> q | x # _ \<Rightarrow> Some x)"

definition last_id :: "'a option \<Rightarrow> 'a list \<Rightarrow> 'a option" where
  "last_id p xs = (if xs = [] then p else Some (last xs))"

fun dll :: "(nat \<Rightarrow> lru_node option) \<Rightarrow> nat option \<Rightarrow> nat list \<Rightarrow> nat option \<Rightarrow> bool" where
  "dll h p [] q = True"
| "dll h p (x # xs) q =
     ((\<exists>n. h x = Some n \<and> ln_prev n = p \<and> ln_next n = first_id xs q) \<and> dll h (Some x) xs q)"

lemma first_id_simps [simp]:
  "first_id [] q = q" "first_id (x # xs) q = Some x" "first_id (xs @ ys) q = first_id xs (first_id ys q)"
  by (simp_all add: first_id_def split: list.splits)

lemma last_id_simps [simp]:
  "last_id p [] = p" "last_id p (xs @ [x]) = Some x" "last_id p (x # xs) = last_id (Some x) xs"
  by (simp_all add: last_id_def)

lemma dll_append: "dll h p (xs @ ys) q \<longleftrightarrow> dll h p xs (first_id ys q) \<and> dll h (last_id p xs) ys q"
  by (induction xs arbitrary: p) auto

lemma dll_frame: "a \<notin> set xs \<Longrightarrow> dll (h(a := n)) p xs q \<longleftrightarrow> dll h p xs q"
  by (induction xs arbitrary: p) auto

lemma dll_mem: "dll h p xs q \<Longrightarrow> a \<in> set xs \<Longrightarrow> \<exists>n. h a = Some n"
  by (induction xs arbitrary: p) auto

lemma dll_set_next:
  assumes "dll h p (xs @ [a]) q" and "distinct (xs @ [a])" and "h a = Some n"
  shows "dll (h(a \<mapsto> n\<lparr>ln_next := q'\<rparr>)) p (xs @ [a]) q'"
  using assms by (simp add: dll_append dll_frame)

lemma dll_set_prev:
  assumes "dll h p (b # bs) q" and "distinct (b # bs)" and "h b = Some n"
  shows "dll (h(b \<mapsto> n\<lparr>ln_prev := p'\<rparr>)) p' (b # bs) q"
  using assms by (simp add: dll_frame)

lemma dll_unlink:
  assumes d: "dll h p (xs @ e # ys) q" and dist: "distinct (xs @ e # ys)"
    and a: "xs \<noteq> []" "h (last xs) = Some na" and ys: "ys \<noteq> []"
    and b: "(h(last xs \<mapsto> na\<lparr>ln_next := Some (hd ys)\<rparr>)) (hd ys) = Some nb"
  shows "dll (h(last xs \<mapsto> na\<lparr>ln_next := Some (hd ys)\<rparr>, hd ys \<mapsto> nb\<lparr>ln_prev := Some (last xs)\<rparr>))
    p (xs @ ys) q"
proof -
  obtain xs' x where xs: "xs = xs' @ [x]" using a(1) by (cases xs rule: rev_cases) auto
  obtain y ys' where y: "ys = y # ys'" using ys by (cases ys) auto
  have "dll h p (xs' @ [x]) (Some e)" and t: "dll h (Some e) (y # ys') q"
    using d by (simp_all add: dll_append xs y)
  then have "dll (h(x \<mapsto> na\<lparr>ln_next := Some y\<rparr>)) p (xs' @ [x]) (Some y)"
    using dll_set_next [of h p xs' x] dist a(2) xs by simp
  then have 1: "dll (h(x \<mapsto> na\<lparr>ln_next := Some y\<rparr>, y \<mapsto> nb\<lparr>ln_prev := Some x\<rparr>)) p (xs' @ [x]) (Some y)"
    using dist xs y by (subst dll_frame) auto
  have "dll (h(x \<mapsto> na\<lparr>ln_next := Some y\<rparr>)) (Some e) (y # ys') q"
    using t dist xs y by (subst dll_frame) auto
  then have "dll (h(x \<mapsto> na\<lparr>ln_next := Some y\<rparr>, y \<mapsto> nb\<lparr>ln_prev := Some x\<rparr>)) (Some x) (y # ys') q"
    using dist y b xs by (intro dll_set_prev) auto
  then show ?thesis using 1 by (simp only: xs y dll_append) simp
qed

lemma dll_link_head:
  assumes d: "dll h None (b # bs) q" and dist: "distinct (e # b # bs)" and b: "h b = Some nb"
    and e: "h e = Some ne" "ln_prev ne = None" "ln_next ne = Some b"
  shows "dll (h(b \<mapsto> nb\<lparr>ln_prev := Some e\<rparr>)) None (e # b # bs) q"
proof -
  have "dll (h(b \<mapsto> nb\<lparr>ln_prev := Some e\<rparr>)) (Some e) (b # bs) q"
    using d dist b by (intro dll_set_prev) auto
  then show ?thesis using e dist by auto
qed

subsection \<open>The pointer operations on lists\<close>

definition lru_list :: "lru_map \<Rightarrow> nat list \<Rightarrow> bool" where
  "lru_list m xs \<longleftrightarrow> distinct xs \<and> dll (lru_nodes m) None xs None \<and>
     lru_head m = first_id xs None \<and> lru_tail m = last_id None xs"

definition same_keys :: "(nat \<Rightarrow> lru_node option) \<Rightarrow> (nat \<Rightarrow> lru_node option) \<Rightarrow> bool" where
  "same_keys h h' \<longleftrightarrow> (\<forall>a. map_option ln_key (h' a) = map_option ln_key (h a))"

lemma same_keys_refl [simp]: "same_keys h h"
  by (simp add: same_keys_def)

lemma same_keys_upd:
  "same_keys h h' \<Longrightarrow> h' a = Some n \<Longrightarrow> ln_key n' = ln_key n \<Longrightarrow> same_keys h (h'(a \<mapsto> n'))"
  by (auto simp: same_keys_def) (metis option.simps(9))

lemma lru_set_next_eq:
  "lru_nodes m a = Some n \<Longrightarrow>
   lru_set_next (Some a) q m = Inr (m\<lparr>lru_nodes := (lru_nodes m)(a \<mapsto> n\<lparr>ln_next := q\<rparr>)\<rparr>)"
  by (simp add: lru_set_next_def lru_deref_def)

lemma lru_set_prev_eq:
  "lru_nodes m a = Some n \<Longrightarrow>
   lru_set_prev (Some a) q m = Inr (m\<lparr>lru_nodes := (lru_nodes m)(a \<mapsto> n\<lparr>ln_prev := q\<rparr>)\<rparr>)"
  by (simp add: lru_set_prev_def lru_deref_def)

lemma lru_deref_eq: "lru_nodes m a = Some n \<Longrightarrow> lru_deref (Some a) m = Inr n"
  by (simp add: lru_deref_def)

lemma lru_relink:
  assumes d: "dll (lru_nodes m) None (z # zs) None" and dist: "distinct (e # z # zs)"
    and hd: "lru_head m = Some z" and e: "lru_nodes m e = Some ne"
  shows "\<exists>h. lru_link_head e m = Inr (m\<lparr>lru_nodes := h, lru_head := Some e\<rparr>) \<and> dll h None (e # z # zs) None \<and>
    same_keys (lru_nodes m) h"
proof -
  let ?h1 = "(lru_nodes m)(e \<mapsto> ne\<lparr>ln_next := Some z, ln_prev := None\<rparr>)"
  obtain nz where z: "lru_nodes m z = Some nz" using d by auto
  have z1: "?h1 z = Some nz" using z dist by simp
  have "dll ?h1 None (z # zs) None" using d dist by (subst dll_frame) auto
  then have l: "dll (?h1(z \<mapsto> nz\<lparr>ln_prev := Some e\<rparr>)) None (e # z # zs) None"
    using dist z1 by (intro dll_link_head [where ne = "ne\<lparr>ln_next := Some z, ln_prev := None\<rparr>"]) auto
  have k: "same_keys (lru_nodes m) (?h1(z \<mapsto> nz\<lparr>ln_prev := Some e\<rparr>))"
    using e z dist by (auto simp: same_keys_def)
  show ?thesis
    using l k z1 by (intro exI [of _ "?h1(z \<mapsto> nz\<lparr>ln_prev := Some e\<rparr>)"])
      (simp add: lru_link_head_def hd lru_set_next_eq [OF e] lru_set_prev_eq)
qed

lemma lru_unlink:
  assumes l: "lru_list m (xs @ e # ys)" and ne: "xs \<noteq> []"
  obtains n h t where "lru_deref (Some e) m = Inr n" and "ln_prev n = Some (last xs)"
    and "ln_next n = first_id ys None"
    and "and_then (lru_set_next (ln_prev n) (ln_next n) m) (\<lambda>m1. case ln_next n of
        Some _ \<Rightarrow> lru_set_prev (ln_next n) (ln_prev n) m1
      | None \<Rightarrow> Inr (m1\<lparr>lru_tail := ln_prev n\<rparr>)) = Inr (m\<lparr>lru_nodes := h, lru_tail := t\<rparr>)"
    and "dll h None (xs @ ys) None" and "t = last_id None (xs @ ys)" and "h e = Some n"
    and "same_keys (lru_nodes m) h"
proof -
  let ?h = "lru_nodes m" and ?a = "last xs"
  have d: "dll ?h None (xs @ e # ys) None" and dist: "distinct (xs @ e # ys)"
    and tl: "lru_tail m = last_id None (xs @ e # ys)" using l by (auto simp: lru_list_def)
  obtain n where n: "?h e = Some n" "ln_prev n = Some ?a" "ln_next n = first_id ys None"
    using d ne by (auto simp: dll_append last_id_def)
  obtain na where na: "?h ?a = Some na" using dll_mem [OF d, of ?a] ne by auto
  have ea: "e \<noteq> ?a" using dist ne by auto
  show ?thesis
  proof (cases ys)
    case Nil
    obtain xs' where xs: "xs = xs' @ [?a]" using ne by (metis append_butlast_last_id)
    let ?h1 = "?h(?a \<mapsto> na\<lparr>ln_next := None\<rparr>)"
    have "dll ?h None (xs' @ [?a]) (Some e)" using d Nil xs by (metis dll_append first_id_simps(2))
    then have "dll ?h1 None (xs' @ [?a]) None"
      using dist na xs by (intro dll_set_next) auto
    then have dl: "dll ?h1 None (xs @ ys) None" using xs Nil by simp
    have "and_then (lru_set_next (ln_prev n) (ln_next n) m) (\<lambda>m1. case ln_next n of
        Some _ \<Rightarrow> lru_set_prev (ln_next n) (ln_prev n) m1
      | None \<Rightarrow> Inr (m1\<lparr>lru_tail := ln_prev n\<rparr>)) = Inr (m\<lparr>lru_nodes := ?h1, lru_tail := Some ?a\<rparr>)"
      using n(2,3) Nil by (simp add: lru_set_next_eq [OF na])
    moreover have "Some ?a = last_id None (xs @ ys)" using ne Nil by (simp add: last_id_def)
    moreover have "?h1 e = Some n" using n(1) ea by simp
    moreover have "same_keys ?h ?h1" using na by (auto simp: same_keys_def)
    ultimately show ?thesis using that [OF lru_deref_eq [OF n(1)] n(2,3)] dl by blast
  next
    case (Cons y ys')
    let ?h1 = "?h(?a \<mapsto> na\<lparr>ln_next := Some y\<rparr>)"
    have "y \<in> set (xs @ e # ys)" using Cons by simp
    then obtain nb where "?h y = Some nb" using dll_mem [OF d] by blast
    moreover have ya: "y \<noteq> ?a" "y \<noteq> e" using dist Cons ne by auto
    ultimately have nb: "?h1 y = Some nb" by simp
    let ?h2 = "?h1(y \<mapsto> nb\<lparr>ln_prev := Some ?a\<rparr>)"
    have "dll ?h2 None (xs @ ys) None"
      using dll_unlink [OF d dist ne na] nb Cons by simp
    moreover have "same_keys ?h ?h2"
      using na nb by (auto simp: same_keys_def)
    moreover have "and_then (lru_set_next (ln_prev n) (ln_next n) m) (\<lambda>m1. case ln_next n of
        Some _ \<Rightarrow> lru_set_prev (ln_next n) (ln_prev n) m1
      | None \<Rightarrow> Inr (m1\<lparr>lru_tail := ln_prev n\<rparr>)) = Inr (m\<lparr>lru_nodes := ?h2, lru_tail := lru_tail m\<rparr>)"
      using n Cons nb by (simp add: lru_set_next_eq [OF na] lru_set_prev_eq)
    moreover have "lru_tail m = last_id None (xs @ ys)" using tl Cons by (simp add: last_id_def)
    moreover have "?h2 e = Some n" using n(1) ea ya by simp
    ultimately show ?thesis using that [OF lru_deref_eq [OF n(1)] n(2,3)] by blast
  qed
qed

lemma lru_move_to_head_list:
  assumes l: "lru_list m xs" and e: "e \<in> set xs"
  shows "\<exists>h t. lru_move_to_head e m = Inr (m\<lparr>lru_nodes := h, lru_head := Some e, lru_tail := t\<rparr>) \<and>
    lru_list (m\<lparr>lru_nodes := h, lru_head := Some e, lru_tail := t\<rparr>) (e # remove1 e xs) \<and>
    same_keys (lru_nodes m) h"
proof (cases "Some e = lru_head m")
  case True
  then have "xs = e # tl xs" using l e by (cases xs) (auto simp: lru_list_def)
  moreover from this have "e # remove1 e xs = xs" by (metis remove1.simps(2))
  ultimately show ?thesis
    using True l by (intro exI [of _ "lru_nodes m"] exI [of _ "lru_tail m"]) (simp add: lru_move_to_head_def)
next
  case False
  obtain as bs where xs: "xs = as @ e # bs" using e by (metis split_list)
  have dist: "distinct xs" using l by (simp add: lru_list_def)
  have ne: "as \<noteq> []" using False l xs by (auto simp: lru_list_def)
  obtain n h t where u: "lru_deref (Some e) m = Inr n" "ln_prev n = Some (last as)"
    "ln_next n = first_id bs None"
    "and_then (lru_set_next (ln_prev n) (ln_next n) m) (\<lambda>m1. case ln_next n of
        Some _ \<Rightarrow> lru_set_prev (ln_next n) (ln_prev n) m1
      | None \<Rightarrow> Inr (m1\<lparr>lru_tail := ln_prev n\<rparr>)) = Inr (m\<lparr>lru_nodes := h, lru_tail := t\<rparr>)"
    "dll h None (as @ bs) None" "t = last_id None (as @ bs)" "h e = Some n" "same_keys (lru_nodes m) h"
    by (rule lru_unlink [OF l [unfolded xs] ne])
  obtain z zs where z: "as @ bs = z # zs" using ne by (cases as) auto
  have "lru_head m = Some z" using l xs ne z by (cases as) (auto simp: lru_list_def)
  moreover have "distinct (e # as @ bs)" using dist xs by auto
  moreover define m1 where "m1 = m\<lparr>lru_nodes := h, lru_tail := t\<rparr>"
  ultimately obtain h' where h': "lru_link_head e m1 = Inr (m1\<lparr>lru_nodes := h', lru_head := Some e\<rparr>)"
    "dll h' None (e # z # zs) None" "same_keys h h'"
    using lru_relink [of m1 z zs e n] u(5,7) z by auto
  let ?m = "m\<lparr>lru_nodes := h', lru_head := Some e, lru_tail := t\<rparr>"
  have m': "m1\<lparr>lru_nodes := h', lru_head := Some e\<rparr> = ?m" by (simp add: m1_def)
  have "remove1 e xs = as @ bs" using dist xs by (simp add: remove1_append)
  then have "lru_list ?m (e # remove1 e xs)"
    using h'(2) u(6) z \<open>distinct (e # as @ bs)\<close> by (simp add: lru_list_def last_id_def)
  moreover have "lru_move_to_head e m = and_then (and_then (lru_set_next (ln_prev n) (ln_next n) m)
      (\<lambda>m1. case ln_next n of Some _ \<Rightarrow> lru_set_prev (ln_next n) (ln_prev n) m1
        | None \<Rightarrow> Inr (m1\<lparr>lru_tail := ln_prev n\<rparr>))) (lru_link_head e)"
    unfolding and_then_assoc [symmetric] using False u(1) by (simp add: lru_move_to_head_def Let_def)
  then have "lru_move_to_head e m = Inr ?m"
    unfolding u(4) using h'(1) m' by (simp add: m1_def)
  moreover have "same_keys (lru_nodes m) h'" using u(8) h'(3) by (simp add: same_keys_def)
  ultimately show ?thesis by blast
qed

lemma lru_evict_entry_list:
  assumes l: "lru_list m xs" and e: "e \<in> set xs"
  shows "\<exists>h a b. lru_evict_entry e m = Inr (m\<lparr>lru_nodes := h, lru_head := a, lru_tail := b\<rparr>) \<and>
    lru_list (m\<lparr>lru_nodes := h, lru_head := a, lru_tail := b\<rparr>) (remove1 e xs) \<and>
    same_keys (lru_nodes m) h"
proof -
  obtain as bs where xs: "xs = as @ e # bs" using e by (metis split_list)
  have dist: "distinct xs" and dl: "dll (lru_nodes m) None xs None"
    and hd: "lru_head m = first_id xs None" and tl: "lru_tail m = last_id None xs"
    using l by (auto simp: lru_list_def)
  have r: "remove1 e xs = as @ bs" using dist xs by (simp add: remove1_append)
  have isT: "Some e = lru_tail m \<longleftrightarrow> bs = []"
    using tl dist xs by (cases bs rule: rev_cases) (auto simp: last_id_def)
  have isH: "Some e = lru_head m \<longleftrightarrow> as = []" using hd dist xs by (cases as) auto
  show ?thesis
  proof (cases "as = []")
    case True
    show ?thesis
    proof (cases bs)
      case Nil
      then show ?thesis
        using True isT isH r
        by (intro exI [of _ "lru_nodes m"] exI [of _ None]) (simp add: lru_evict_entry_def lru_list_def)
    next
      case (Cons y ys)
      obtain n ny where n: "lru_nodes m e = Some n" "ln_next n = Some y" "lru_nodes m y = Some ny"
        using dl xs True Cons by auto
      let ?h = "(lru_nodes m)(y \<mapsto> ny\<lparr>ln_prev := None\<rparr>)"
      have "dll (lru_nodes m) (Some e) (y # ys) None" using dl xs True Cons by simp
      then have "dll ?h None (y # ys) None" using n dist xs Cons by (intro dll_set_prev) auto
      then have "lru_list (m\<lparr>lru_nodes := ?h, lru_head := Some y, lru_tail := lru_tail m\<rparr>) (remove1 e xs)"
        using dist xs True Cons tl r by (simp add: lru_list_def last_id_def)
      moreover have "Some e \<noteq> lru_tail m" "lru_head m = Some e" using isT isH True Cons by auto
      then have "lru_evict_entry e m = Inr (m\<lparr>lru_nodes := ?h, lru_head := Some y, lru_tail := lru_tail m\<rparr>)"
        using n by (simp add: lru_evict_entry_def lru_deref_eq lru_set_prev_eq)
      moreover have "same_keys (lru_nodes m) ?h" using n by (auto simp: same_keys_def)
      ultimately show ?thesis by blast
    qed
  next
    case False
    obtain n h t where u: "lru_deref (Some e) m = Inr n" "ln_prev n = Some (last as)"
      "ln_next n = first_id bs None"
      "and_then (lru_set_next (ln_prev n) (ln_next n) m) (\<lambda>m1. case ln_next n of
          Some _ \<Rightarrow> lru_set_prev (ln_next n) (ln_prev n) m1
        | None \<Rightarrow> Inr (m1\<lparr>lru_tail := ln_prev n\<rparr>)) = Inr (m\<lparr>lru_nodes := h, lru_tail := t\<rparr>)"
      "dll h None (as @ bs) None" "t = last_id None (as @ bs)" "h e = Some n" "same_keys (lru_nodes m) h"
      by (rule lru_unlink [OF l [unfolded xs] False])
    let ?m = "m\<lparr>lru_nodes := h, lru_head := lru_head m, lru_tail := t\<rparr>"
    have m': "m\<lparr>lru_nodes := h, lru_tail := t\<rparr> = ?m" by simp
    have "lru_list ?m (remove1 e xs)"
      using u(5,6) dist xs hd False r by (cases as) (auto simp: lru_list_def)
    moreover have h': "Some e \<noteq> lru_head m" using isH False by simp
    have "lru_evict_entry e m = Inr (m\<lparr>lru_nodes := h, lru_tail := t\<rparr>)"
    proof (cases bs)
      case Nil
      then have "Some e = lru_tail m" "ln_next n = None" using isT u(3) by simp_all
      then have "lru_evict_entry e m =
          and_then (lru_set_next (ln_prev n) (ln_next n) m) (\<lambda>m1. Inr (m1\<lparr>lru_tail := ln_prev n\<rparr>))"
        using h' u(1) by (simp add: lru_evict_entry_def)
      then show ?thesis using u(4) \<open>ln_next n = None\<close> by simp
    next
      case (Cons y ys)
      then have "Some e \<noteq> lru_tail m" "ln_next n = Some y" using isT u(3) by simp_all
      then have "lru_evict_entry e m =
          and_then (lru_set_next (ln_prev n) (ln_next n) m) (\<lambda>m1. lru_set_prev (ln_next n) (ln_prev n) m1)"
        using h' u(1) by (simp add: lru_evict_entry_def)
      then show ?thesis using u(4) \<open>ln_next n = Some y\<close> by simp
    qed
    then have "lru_evict_entry e m = Inr ?m" unfolding m' .
    ultimately show ?thesis using u(8) by blast
  qed
qed

lemma lru_insert_list:
  assumes l: "lru_list m xs" and f: "lru_fresh m \<notin> set xs"
  shows "\<exists>h t. lru_insert_new_entry k m = Inr (lru_fresh m, m\<lparr>lru_fresh := Suc (lru_fresh m),
      lru_nodes := h, lru_head := Some (lru_fresh m), lru_tail := t\<rparr>) \<and>
    lru_list (m\<lparr>lru_fresh := Suc (lru_fresh m), lru_nodes := h, lru_head := Some (lru_fresh m),
      lru_tail := t\<rparr>) (lru_fresh m # xs) \<and>
    (\<forall>a. map_option ln_key (h a) = (if a = lru_fresh m then Some k else map_option ln_key (lru_nodes m a)))"
proof (cases xs)
  case Nil
  then show ?thesis
    using l by (intro exI [of _ "(lru_nodes m)(lru_fresh m \<mapsto> \<lparr>ln_key = k, ln_next = None, ln_prev = None\<rparr>)"]
        exI [of _ "Some (lru_fresh m)"]) (simp add: lru_insert_new_entry_def lru_list_def Let_def)
next
  case (Cons z zs)
  let ?e = "lru_fresh m"
  let ?h1 = "(lru_nodes m)(?e \<mapsto> \<lparr>ln_key = k, ln_next = Some z, ln_prev = None\<rparr>)"
  have dl: "dll (lru_nodes m) None (z # zs) None" and hd: "lru_head m = Some z" and dist: "distinct (z # zs)"
    and tl: "lru_tail m = last_id None (z # zs)" using l Cons by (auto simp: lru_list_def)
  obtain nz where z: "lru_nodes m z = Some nz" using dl by auto
  have ez: "?e \<noteq> z" using f Cons by auto
  let ?h = "?h1(z \<mapsto> nz\<lparr>ln_prev := Some ?e\<rparr>)"
  have "dll ?h1 None (z # zs) None" using dl f Cons by (subst dll_frame) auto
  then have "dll ?h None (?e # z # zs) None"
    using f Cons dist z ez by (intro dll_link_head) auto
  then have "lru_list (m\<lparr>lru_fresh := Suc ?e, lru_nodes := ?h, lru_head := Some ?e, lru_tail := lru_tail m\<rparr>)
      (?e # xs)"
    using f dist Cons tl by (simp add: lru_list_def last_id_def)
  moreover have "lru_insert_new_entry k m = Inr (?e, m\<lparr>lru_fresh := Suc ?e, lru_nodes := ?h,
      lru_head := Some ?e, lru_tail := lru_tail m\<rparr>)"
    using hd z ez by (simp add: lru_insert_new_entry_def Let_def lru_set_next_eq lru_set_prev_eq)
  moreover have "\<forall>a. map_option ln_key (?h a) = (if a = ?e then Some k else map_option ln_key (lru_nodes m a))"
    using z ez by auto
  ultimately show ?thesis by blast
qed

subsection \<open>The abstract recency list\<close>

text \<open>Entries, most recently used first; at most \<open>c\<close> of them.\<close>

type_synonym recency = "(bytes \<times> bytes) list"

definition rec_drop :: "bytes \<Rightarrow> recency \<Rightarrow> recency" where
  "rec_drop k L = filter (\<lambda>(k', v'). k' \<noteq> k) L"

definition rec_lookup :: "bytes \<Rightarrow> recency \<Rightarrow> bytes res \<times> recency" where
  "rec_lookup k L = (case map_of L k of
       None \<Rightarrow> (Inl (Errno ENOENT), L)
     | Some v \<Rightarrow> (Inr v, (k, v) # rec_drop k L))"

definition rec_update :: "nat \<Rightarrow> bytes \<Rightarrow> bytes \<Rightarrow> nat \<Rightarrow> recency \<Rightarrow> unit res \<times> recency" where
  "rec_update c k v flags L =
     (if flags \<noteq> BPF_ANY \<and> flags \<noteq> BPF_NOEXIST \<and> flags \<noteq> BPF_EXIST then (Inl (Errno EINVAL), L)
      else if map_of L k \<noteq> None then
        if flags = BPF_NOEXIST then (Inl (Errno EEXIST), L) else (Inr (), (k, v) # rec_drop k L)
      else if flags = BPF_EXIST then (Inl (Errno ENOENT), L)
      else (Inr (), (k, v) # (if length L = c then butlast L else L)))"

definition rec_delete :: "bytes \<Rightarrow> recency \<Rightarrow> unit res \<times> recency" where
  "rec_delete k L =
     (if map_of L k = None then (Inl (Errno ENOENT), L) else (Inr (), rec_drop k L))"

text \<open>The entries of a map with the nodes that hold them.\<close>

fun lru_pair :: "nat \<times> bytes \<times> bytes \<Rightarrow> bytes \<times> lru_value" where
  "lru_pair (x, k, v) = (k, \<lparr>hv_value = v, hv_entry = x\<rparr>)"

definition lru_rep :: "lru_map \<Rightarrow> (nat \<times> bytes \<times> bytes) list \<Rightarrow> bool" where
  "lru_rep m T \<longleftrightarrow> lru_list m (map fst T) \<and> distinct (map (fst \<circ> snd) T) \<and>
     distinct (map fst (lru_impl m)) \<and> set (lru_impl m) = lru_pair ` set T \<and>
     (\<forall>(x, k, v)\<in>set T. x < lru_fresh m \<and> map_option ln_key (lru_nodes m x) = Some k) \<and>
     length T \<le> lru_max_entries m \<and> 0 < lru_max_entries m"

lemma fst_lru_pair [simp]: "fst (lru_pair t) = fst (snd t)"
  by (cases t) simp

lemma lru_rep_new: "0 < me \<Longrightarrow> lru_rep (lru_new ks vs me) []"
  by (simp add: lru_rep_def lru_new_def lru_list_def)

lemma lru_rep_map_of:
  assumes "lru_rep m T"
  shows "map_of (lru_impl m) k = Some hv \<longleftrightarrow> (hv_entry hv, k, hv_value hv) \<in> set T"
proof -
  have "map_of (lru_impl m) k = Some hv \<longleftrightarrow> (k, hv) \<in> set (lru_impl m)"
    using assms by (simp add: lru_rep_def)
  also have "\<dots> \<longleftrightarrow> (hv_entry hv, k, hv_value hv) \<in> set T"
  proof -
    have "(k, hv) = lru_pair t \<longleftrightarrow> t = (hv_entry hv, k, hv_value hv)" for t
      by (cases t) auto
    then show ?thesis using assms by (auto simp: lru_rep_def image_iff)
  qed
  finally show ?thesis .
qed

lemma lru_rep_map_of_list:
  assumes "lru_rep m T"
  shows "map_of (map snd T) k = map_option hv_value (map_of (lru_impl m) k)"
proof -
  have d: "distinct (map fst (map snd T))" using assms by (simp add: lru_rep_def comp_def)
  have "map_of (map snd T) k = Some v \<longleftrightarrow> (\<exists>x. (x, k, v) \<in> set T)" for v
  proof -
    have "map_of (map snd T) k = Some v \<longleftrightarrow> (k, v) \<in> snd ` set T" using d by simp
    then show ?thesis by force
  qed
  moreover have "map_option hv_value (map_of (lru_impl m) k) = Some v \<longleftrightarrow> (\<exists>x. (x, k, v) \<in> set T)" for v
  proof
    assume "map_option hv_value (map_of (lru_impl m) k) = Some v"
    then show "\<exists>x. (x, k, v) \<in> set T" using lru_rep_map_of [OF assms] by auto
  next
    assume "\<exists>x. (x, k, v) \<in> set T"
    then obtain x where "(x, k, v) \<in> set T" by blast
    then have "map_of (lru_impl m) k = Some \<lparr>hv_value = v, hv_entry = x\<rparr>"
      using lru_rep_map_of [OF assms] by simp
    then show "map_option hv_value (map_of (lru_impl m) k) = Some v" by simp
  qed
  ultimately show ?thesis by (metis option.exhaust)
qed

lemma lru_rep_length:
  assumes "lru_rep m T"
  shows "length (lru_impl m) = length T"
proof -
  have d: "distinct (lru_impl m)" "distinct T"
    using assms by (auto simp: lru_rep_def distinct_map)
  have "inj_on lru_pair (set T)" by (rule inj_onI) auto
  then have "card (set (lru_impl m)) = card (set T)"
    using assms by (simp add: lru_rep_def card_image)
  then show ?thesis using d by (simp add: distinct_card)
qed

lemma lru_rep_filter:
  assumes "lru_rep m T" and "(e, k, v) \<in> set T"
  shows "map snd (filter (\<lambda>t. fst t \<noteq> e) T) = rec_drop k (map snd T)"
    and "remove1 e (map fst T) = map fst (filter (\<lambda>t. fst t \<noteq> e) T)"
proof -
  have dk: "distinct (map (fst \<circ> snd) T)" and dx: "distinct (map fst T)"
    using assms by (auto simp: lru_rep_def lru_list_def)
  have "fst t \<noteq> e \<longleftrightarrow> fst (snd t) \<noteq> k" if "t \<in> set T" for t
    using dk dx that assms(2) by (metis (no_types, lifting) comp_apply distinct_map fst_conv inj_onD snd_conv)
  then have "filter (\<lambda>t. fst t \<noteq> e) T = filter (\<lambda>t. fst (snd t) \<noteq> k) T" by (intro filter_cong) auto
  then show "map snd (filter (\<lambda>t. fst t \<noteq> e) T) = rec_drop k (map snd T)"
    by (simp add: rec_drop_def filter_map comp_def case_prod_beta)
  show "remove1 e (map fst T) = map fst (filter (\<lambda>t. fst t \<noteq> e) T)"
    using dx by (simp add: distinct_remove1_removeAll removeAll_filter_not_eq filter_map comp_def eq_commute)
qed

subsection \<open>The operations refine the recency list\<close>

definition lru_conf :: "lru_map \<Rightarrow> nat \<times> nat \<times> nat" where
  "lru_conf m = (lru_key_size m, lru_value_size m, lru_max_entries m)"

definition lru_refines :: "lru_map \<Rightarrow> recency \<Rightarrow> bool" where
  "lru_refines m L \<longleftrightarrow> (\<exists>T. lru_rep m T \<and> L = map snd T)"

lemma lru_rep_list: "lru_rep m T \<Longrightarrow> lru_list m (map fst T)"
  by (simp add: lru_rep_def)

lemma lru_rep_keys: "lru_rep m T \<Longrightarrow> distinct (map fst (lru_impl m))"
  by (simp add: lru_rep_def)

lemma lru_rep_id: "(e, k, v) \<in> set T \<Longrightarrow> e \<in> set (map fst T)"
  by force

lemma lru_rep_front:
  assumes r: "lru_rep m T" and t: "(e, k, v) \<in> set T"
    and l: "lru_list (m\<lparr>lru_nodes := h, lru_head := a, lru_tail := b\<rparr>) (e # remove1 e (map fst T))"
    and sk: "same_keys (lru_nodes m) h"
    and D: "set D = lru_pair ` (insert (e, k, w) (set (filter (\<lambda>t. fst t \<noteq> e) T)))" "distinct (map fst D)"
  shows "lru_rep (m\<lparr>lru_nodes := h, lru_head := a, lru_tail := b, lru_impl := D\<rparr>)
    ((e, k, w) # filter (\<lambda>t. fst t \<noteq> e) T)"
proof -
  note f = lru_rep_filter [OF r t]
  have dk: "distinct (map (fst \<circ> snd) T)" using r by (simp add: lru_rep_def)
  have "k \<notin> fst ` set (rec_drop k (map snd T))" by (auto simp: rec_drop_def)
  then have "k \<notin> (fst \<circ> snd) ` set (filter (\<lambda>t. fst t \<noteq> e) T)"
    using f(1) by (metis image_comp list.set_map)
  then have "distinct (map (fst \<circ> snd) ((e, k, w) # filter (\<lambda>t. fst t \<noteq> e) T))"
    using dk by (simp add: distinct_map_filter)
  moreover have "length (filter (\<lambda>t. fst t \<noteq> e) T) < length T"
    using t by (intro length_filter_less [of "(e, k, v)"]) auto
  moreover have "lru_list (m\<lparr>lru_nodes := h, lru_head := a, lru_tail := b, lru_impl := D\<rparr>)
      (map fst ((e, k, w) # filter (\<lambda>t. fst t \<noteq> e) T))"
    using l f(2) by (simp add: lru_list_def)
  ultimately show ?thesis
    using r t sk D unfolding lru_rep_def same_keys_def by auto
qed

lemma lru_rep_dict_front:
  assumes r: "lru_rep m T" and t: "(e, k, v) \<in> set T"
  shows "set (lru_impl m) = lru_pair ` insert (e, k, v) (set (filter (\<lambda>t. fst t \<noteq> e) T))"
    and "set (dict_assign k \<lparr>hv_value = w, hv_entry = e\<rparr> (lru_impl m)) =
      lru_pair ` insert (e, k, w) (set (filter (\<lambda>t. fst t \<noteq> e) T))"
    and "set (dict_erase k (lru_impl m)) = lru_pair ` set (filter (\<lambda>t. fst t \<noteq> e) T)"
proof -
  have dx: "distinct (map fst T)" and dk: "distinct (map (fst \<circ> snd) T)"
    and D: "set (lru_impl m) = lru_pair ` set T"
    using r by (auto simp: lru_rep_def lru_list_def)
  have eq: "fst t = e \<longleftrightarrow> t = (e, k, v)" "fst (snd t) = k \<longleftrightarrow> t = (e, k, v)" if "t \<in> set T" for t
    using dk dx that t by (auto simp: distinct_map inj_on_def)
  define F where "F = set (filter (\<lambda>t. fst t \<noteq> e) T)"
  have T: "set T = insert (e, k, v) F" using t eq(1) by (auto simp: F_def)
  have ne: "\<forall>t\<in>F. fst (lru_pair t) \<noteq> k"
  proof
    fix t
    assume "t \<in> F"
    then show "fst (lru_pair t) \<noteq> k" using eq(2) [of t] by (auto simp: F_def)
  qed
  have D': "set (lru_impl m) = lru_pair ` insert (e, k, v) F" using D T by simp
  then show "set (lru_impl m) = lru_pair ` insert (e, k, v) (set (filter (\<lambda>t. fst t \<noteq> e) T))"
    by (simp only: F_def)
  let ?g = "\<lambda>p. if fst p = k then (k, \<lparr>hv_value = w, hv_entry = e\<rparr>) else p"
  have "set (dict_assign k \<lparr>hv_value = w, hv_entry = e\<rparr> (lru_impl m)) = ?g ` set (lru_impl m)"
    by (rule set_dict_assign)
  also have "\<dots> = insert (k, \<lparr>hv_value = w, hv_entry = e\<rparr>) (?g ` lru_pair ` F)"
    unfolding D' by simp
  also have "?g ` lru_pair ` F = lru_pair ` F"
    unfolding image_image using ne by (intro image_cong refl) simp
  finally show "set (dict_assign k \<lparr>hv_value = w, hv_entry = e\<rparr> (lru_impl m)) =
      lru_pair ` insert (e, k, w) (set (filter (\<lambda>t. fst t \<noteq> e) T))" by (simp add: F_def)
  have "set (dict_erase k (lru_impl m)) = {p \<in> set (lru_impl m). fst p \<noteq> k}"
    by (rule set_dict_erase)
  also have "\<dots> = lru_pair ` F" unfolding D' using ne by auto
  finally show "set (dict_erase k (lru_impl m)) = lru_pair ` set (filter (\<lambda>t. fst t \<noteq> e) T)"
    by (simp only: F_def)
qed

lemma lru_lookup_refines:
  assumes r: "lru_rep m T" and k: "rd p (lru_key_size m) = Inr k"
  shows "\<exists>T'. lru_rep (snd (lru_elem_lookup p m)) T' \<and> lru_conf (snd (lru_elem_lookup p m)) = lru_conf m \<and>
    (fst (lru_elem_lookup p m), map snd T') = rec_lookup k (map snd T)"
proof (cases "map_of (lru_impl m) k")
  case None
  then show ?thesis
    using r k lru_rep_map_of_list [OF r, of k]
    by (intro exI [of _ T]) (simp add: lru_elem_lookup_def rec_lookup_def)
next
  case (Some hv)
  let ?e = "hv_entry hv" and ?v = "hv_value hv"
  have t: "(?e, k, ?v) \<in> set T" using Some lru_rep_map_of [OF r] by simp
  obtain h b where mv: "lru_move_to_head ?e m = Inr (m\<lparr>lru_nodes := h, lru_head := Some ?e, lru_tail := b\<rparr>)"
    "lru_list (m\<lparr>lru_nodes := h, lru_head := Some ?e, lru_tail := b\<rparr>) (?e # remove1 ?e (map fst T))"
    "same_keys (lru_nodes m) h"
    using lru_move_to_head_list [OF lru_rep_list [OF r] lru_rep_id [OF t]] by blast
  have "lru_rep (m\<lparr>lru_nodes := h, lru_head := Some ?e, lru_tail := b, lru_impl := lru_impl m\<rparr>)
      ((?e, k, ?v) # filter (\<lambda>t. fst t \<noteq> ?e) T)"
    by (rule lru_rep_front [OF r t mv(2,3) lru_rep_dict_front(1) [OF r t] lru_rep_keys [OF r]])
  moreover have "lru_elem_lookup p m = (Inr ?v, m\<lparr>lru_nodes := h, lru_head := Some ?e, lru_tail := b\<rparr>)"
    using k Some mv(1) by (simp add: lru_elem_lookup_def)
  moreover have "rec_lookup k (map snd T) = (Inr ?v, (k, ?v) # rec_drop k (map snd T))"
    using Some lru_rep_map_of_list [OF r, of k] by (simp add: rec_lookup_def)
  ultimately show ?thesis
    using lru_rep_filter(1) [OF r t]
    by (intro exI [of _ "(?e, k, ?v) # filter (\<lambda>t. fst t \<noteq> ?e) T"]) (simp add: lru_conf_def)
qed

lemma lru_list_impl: "lru_list m xs \<Longrightarrow> lru_list (m\<lparr>lru_impl := D\<rparr>) xs"
  by (simp add: lru_list_def)

lemma lru_rep_remove:
  assumes r: "lru_rep m T" and t: "(e, k, v) \<in> set T"
  shows "\<exists>h a b. lru_evict_entry e (m\<lparr>lru_impl := D\<rparr>) =
      Inr (m\<lparr>lru_impl := D, lru_nodes := h, lru_head := a, lru_tail := b\<rparr>) \<and>
    lru_rep (m\<lparr>lru_nodes := h, lru_head := a, lru_tail := b, lru_impl := dict_erase k (lru_impl m)\<rparr>)
      (filter (\<lambda>t. fst t \<noteq> e) T)"
proof -
  let ?T = "filter (\<lambda>t. fst t \<noteq> e) T"
  obtain h a b where ev: "lru_evict_entry e (m\<lparr>lru_impl := D\<rparr>) =
      Inr (m\<lparr>lru_impl := D, lru_nodes := h, lru_head := a, lru_tail := b\<rparr>)"
    "lru_list (m\<lparr>lru_impl := D, lru_nodes := h, lru_head := a, lru_tail := b\<rparr>) (remove1 e (map fst T))"
    "same_keys (lru_nodes m) h"
    using lru_evict_entry_list [OF lru_list_impl [OF lru_rep_list [OF r]] lru_rep_id [OF t], of D] by auto
  let ?m = "m\<lparr>lru_nodes := h, lru_head := a, lru_tail := b, lru_impl := dict_erase k (lru_impl m)\<rparr>"
  have "lru_list ?m (map fst ?T)"
    using ev(2) lru_rep_filter(2) [OF r t] by (simp add: lru_list_def)
  moreover have "distinct (map (fst \<circ> snd) ?T)" using r by (simp add: lru_rep_def distinct_map_filter)
  moreover have "set (dict_erase k (lru_impl m)) = lru_pair ` set ?T" by (rule lru_rep_dict_front(3) [OF r t])
  moreover have "length ?T \<le> lru_max_entries m"
    using r length_filter_le [of _ T] le_trans unfolding lru_rep_def by blast
  ultimately have "lru_rep ?m ?T"
    using r ev(3) distinct_dict_erase [OF lru_rep_keys [OF r], of k]
    unfolding lru_rep_def same_keys_def by auto
  then show ?thesis using ev(1) by blast
qed

lemma lru_rep_insert:
  assumes ins: "ins_ok ins" and r: "lru_rep m T" and k: "map_of (lru_impl m) k = None"
    and room: "length T < lru_max_entries m"
  shows "\<exists>m'. and_then (lru_insert_new_entry k m) (\<lambda>(entry, m2).
      Inr (m2\<lparr>lru_impl := ins k \<lparr>hv_value = v, hv_entry = entry\<rparr> (lru_impl m2)\<rparr>)) = Inr m' \<and>
    lru_rep m' ((lru_fresh m, k, v) # T) \<and> lru_conf m' = lru_conf m"
proof -
  let ?e = "lru_fresh m"
  have f: "?e \<notin> set (map fst T)" using r by (auto simp: lru_rep_def)
  obtain h b where i: "lru_insert_new_entry k m =
      Inr (?e, m\<lparr>lru_fresh := Suc ?e, lru_nodes := h, lru_head := Some ?e, lru_tail := b\<rparr>)"
    "lru_list (m\<lparr>lru_fresh := Suc ?e, lru_nodes := h, lru_head := Some ?e, lru_tail := b\<rparr>) (?e # map fst T)"
    "\<forall>a. map_option ln_key (h a) = (if a = ?e then Some k else map_option ln_key (lru_nodes m a))"
    using lru_insert_list [OF lru_rep_list [OF r] f, of k] by blast
  let ?D = "ins k \<lparr>hv_value = v, hv_entry = ?e\<rparr> (lru_impl m)"
  let ?m = "m\<lparr>lru_fresh := Suc ?e, lru_nodes := h, lru_head := Some ?e, lru_tail := b, lru_impl := ?D\<rparr>"
  have "k \<notin> (fst \<circ> snd) ` set T"
    using k r by (auto simp: lru_rep_def map_of_eq_None_iff image_image)
  then have "distinct (map (fst \<circ> snd) ((?e, k, v) # T))" using r by (simp add: lru_rep_def)
  moreover have "lru_list ?m (map fst ((?e, k, v) # T))" using i(2) by (simp add: lru_list_def)
  moreover have "set ?D = lru_pair ` set ((?e, k, v) # T)" using r ins_set [OF ins] by (simp add: lru_rep_def)
  moreover have "distinct (map fst ?D)" by (rule ins_distinct [OF ins lru_rep_keys [OF r] k])
  moreover have "\<forall>(x, k', v')\<in>set ((?e, k, v) # T). x < Suc ?e \<and> map_option ln_key (h x) = Some k'"
    using r i(3) f by (auto simp: lru_rep_def less_Suc_eq)
  ultimately have "lru_rep ?m ((?e, k, v) # T)" using room unfolding lru_rep_def by simp
  then show ?thesis using i(1) by (simp add: lru_conf_def)
qed

lemma lru_evict_tail_refines:
  assumes r: "lru_rep m T" and ne: "T \<noteq> []"
  shows "\<exists>m'. lru_evict_tail m = Inr m' \<and> lru_rep m' (butlast T) \<and> lru_conf m' = lru_conf m \<and>
    (\<forall>k. map_of (lru_impl m) k = None \<longrightarrow> map_of (lru_impl m') k = None)"
proof -
  obtain e k v where l: "last T = (e, k, v)" by (cases "last T")
  then have T: "T = butlast T @ [(e, k, v)]" using ne by (metis append_butlast_last_id)
  then have t: "(e, k, v) \<in> set T" by (metis in_set_conv_decomp)
  have dx: "distinct (map fst T)" using r by (simp add: lru_rep_def lru_list_def)
  have tl: "lru_tail m = Some e"
    using r ne l by (simp add: lru_rep_def lru_list_def last_id_def last_map)
  obtain n where n: "lru_nodes m e = Some n" "ln_key n = k" using r t by (auto simp: lru_rep_def)
  have "e \<notin> fst ` set (butlast T)" using dx by (subst (asm) T) simp
  then have "filter (\<lambda>t. fst t \<noteq> e) (butlast T) = butlast T" by (auto simp: filter_id_conv)
  then have f: "filter (\<lambda>t. fst t \<noteq> e) T = butlast T" by (subst T) simp
  obtain h a b where ev: "lru_evict_entry e (m\<lparr>lru_impl := dict_erase k (lru_impl m)\<rparr>) =
      Inr (m\<lparr>lru_impl := dict_erase k (lru_impl m), lru_nodes := h, lru_head := a, lru_tail := b\<rparr>)"
    "lru_rep (m\<lparr>lru_nodes := h, lru_head := a, lru_tail := b, lru_impl := dict_erase k (lru_impl m)\<rparr>) (butlast T)"
    using lru_rep_remove [OF r t] f by metis
  have "lru_evict_tail m =
      Inr (m\<lparr>lru_nodes := h, lru_head := a, lru_tail := b, lru_impl := dict_erase k (lru_impl m)\<rparr>)"
    using ev(1) tl n by (simp add: lru_evict_tail_def lru_deref_eq)
  then show ?thesis using ev(2) by (simp add: lru_conf_def map_of_dict_erase)
qed

lemma lru_update_refines:
  assumes ins: "ins_ok ins" and r: "lru_rep m T" and k: "rd p (lru_key_size m) = Inr k"
    and v: "rd q (lru_value_size m) = Inr v"
  shows "\<exists>T'. lru_rep (snd (lru_elem_update ins p q fl m)) T' \<and>
    lru_conf (snd (lru_elem_update ins p q fl m)) = lru_conf m \<and>
    (fst (lru_elem_update ins p q fl m), map snd T') = rec_update (lru_max_entries m) k v fl (map snd T)"
proof (cases "lru_is_good_update_flag fl")
  case False
  then show ?thesis
    using r by (intro exI [of _ T])
      (auto simp: lru_elem_update_def rec_update_def lru_is_good_update_flag_def)
next
  case good: True
  then have fl: "fl = BPF_ANY \<or> fl = BPF_NOEXIST \<or> fl = BPF_EXIST" by (auto simp: lru_is_good_update_flag_def)
  note mo = lru_rep_map_of_list [OF r, of k]
  show ?thesis
  proof (cases "map_of (lru_impl m) k")
    case (Some hv)
    let ?e = "hv_entry hv" and ?D = "dict_assign k (hv\<lparr>hv_value := v\<rparr>) (lru_impl m)"
    have t: "(?e, k, hv_value hv) \<in> set T" using Some lru_rep_map_of [OF r] by simp
    have hv: "hv\<lparr>hv_value := v\<rparr> = \<lparr>hv_value = v, hv_entry = ?e\<rparr>" by simp
    have "lru_list (m\<lparr>lru_impl := ?D\<rparr>) (map fst T)" by (rule lru_list_impl [OF lru_rep_list [OF r]])
    from lru_move_to_head_list [OF this lru_rep_id [OF t]]
    obtain h b where mv: "lru_move_to_head ?e (m\<lparr>lru_impl := ?D\<rparr>) =
        Inr (m\<lparr>lru_impl := ?D, lru_nodes := h, lru_head := Some ?e, lru_tail := b\<rparr>)"
      "lru_list (m\<lparr>lru_impl := ?D, lru_nodes := h, lru_head := Some ?e, lru_tail := b\<rparr>) (?e # remove1 ?e (map fst T))"
      "same_keys (lru_nodes m) h" by auto
    let ?m = "m\<lparr>lru_nodes := h, lru_head := Some ?e, lru_tail := b, lru_impl := ?D\<rparr>"
    have "lru_list (m\<lparr>lru_nodes := h, lru_head := Some ?e, lru_tail := b\<rparr>) (?e # remove1 ?e (map fst T))"
      using mv(2) by (simp add: lru_list_def)
    from lru_rep_front [OF r t this mv(3) lru_rep_dict_front(2) [OF r t, of v]]
    have rep: "lru_rep ?m ((?e, k, v) # filter (\<lambda>t. fst t \<noteq> ?e) T)"
      unfolding hv using lru_rep_keys [OF r] by simp
    have m': "m\<lparr>lru_impl := ?D, lru_nodes := h, lru_head := Some ?e, lru_tail := b\<rparr> = ?m" by simp
    show ?thesis
    proof (cases "fl = BPF_NOEXIST")
      case True
      then show ?thesis
        using r k Some good mo by (intro exI [of _ T]) (simp add: lru_elem_update_def rec_update_def)
    next
      case False
      have "lru_elem_update ins p q fl m = (Inr (), ?m)"
        using False k v Some good mv(1) unfolding m' by (simp add: lru_elem_update_def)
      moreover have "rec_update (lru_max_entries m) k v fl (map snd T) = (Inr (), (k, v) # rec_drop k (map snd T))"
        using False fl Some mo by (auto simp: rec_update_def)
      ultimately show ?thesis
        using rep lru_rep_filter(1) [OF r t]
        by (intro exI [of _ "(?e, k, v) # filter (\<lambda>t. fst t \<noteq> ?e) T"]) (simp add: lru_conf_def)
    qed
  next
    case None
    define T1 where "T1 = (if length T = lru_max_entries m then butlast T else T)"
    have T1: "map snd T1 = (if length (map snd T) = lru_max_entries m then butlast (map snd T) else map snd T)"
      by (simp add: T1_def map_butlast)
    obtain m1 where m1: "(if length (lru_impl m) = lru_max_entries m then lru_evict_tail m else Inr m) = Inr m1"
      "lru_rep m1 T1" "lru_conf m1 = lru_conf m" "map_of (lru_impl m1) k = None" "length T1 < lru_max_entries m1"
    proof (cases "length T = lru_max_entries m")
      case True
      then have "T \<noteq> []" "0 < lru_max_entries m" using r by (auto simp: lru_rep_def)
      then show ?thesis
        using that lru_evict_tail_refines [OF r] True None lru_rep_length [OF r]
        by (auto simp: T1_def lru_conf_def)
    next
      case False
      then show ?thesis
        using that [of m] r None lru_rep_length [OF r] by (simp add: T1_def lru_rep_def)
    qed
    obtain m2 where m2: "and_then (lru_insert_new_entry k m1) (\<lambda>(entry, m2).
        Inr (m2\<lparr>lru_impl := ins k \<lparr>hv_value = v, hv_entry = entry\<rparr> (lru_impl m2)\<rparr>)) = Inr m2"
      "lru_rep m2 ((lru_fresh m1, k, v) # T1)" "lru_conf m2 = lru_conf m1"
      using lru_rep_insert [OF ins m1(2,4,5)] by blast
    have v1: "rd q (lru_value_size m1) = Inr v" using v m1(3) by (simp add: lru_conf_def)
    show ?thesis
    proof (cases "fl = BPF_EXIST")
      case True
      then show ?thesis
        using r k None good mo by (intro exI [of _ T]) (simp add: lru_elem_update_def rec_update_def)
    next
      case False
      have "lru_elem_update ins p q fl m = (Inr (), m2)"
        using False k None good m1(1) m2(1) v1 by (simp add: lru_elem_update_def)
      moreover have "rec_update (lru_max_entries m) k v fl (map snd T) = (Inr (), (k, v) # map snd T1)"
        using False fl None mo T1 by (auto simp: rec_update_def)
      ultimately show ?thesis
        using m2(2,3) m1(3) by (intro exI [of _ "(lru_fresh m1, k, v) # T1"]) simp
    qed
  qed
qed

lemma lru_delete_refines:
  assumes r: "lru_rep m T" and k: "rd p (lru_key_size m) = Inr k"
  shows "\<exists>T'. lru_rep (snd (lru_elem_delete p m)) T' \<and> lru_conf (snd (lru_elem_delete p m)) = lru_conf m \<and>
    (fst (lru_elem_delete p m), map snd T') = rec_delete k (map snd T)"
proof (cases "map_of (lru_impl m) k")
  case None
  then show ?thesis
    using r k lru_rep_map_of_list [OF r, of k]
    by (intro exI [of _ T]) (simp add: lru_elem_delete_def rec_delete_def)
next
  case (Some hv)
  have t: "(hv_entry hv, k, hv_value hv) \<in> set T" using Some lru_rep_map_of [OF r] by simp
  obtain h a b where ev: "lru_evict_entry (hv_entry hv) (m\<lparr>lru_impl := lru_impl m\<rparr>) =
      Inr (m\<lparr>lru_impl := lru_impl m, lru_nodes := h, lru_head := a, lru_tail := b\<rparr>)"
    "lru_rep (m\<lparr>lru_nodes := h, lru_head := a, lru_tail := b, lru_impl := dict_erase k (lru_impl m)\<rparr>)
      (filter (\<lambda>t. fst t \<noteq> hv_entry hv) T)"
    using lru_rep_remove [OF r t] by blast
  have "lru_elem_delete p m =
      (Inr (), m\<lparr>lru_nodes := h, lru_head := a, lru_tail := b, lru_impl := dict_erase k (lru_impl m)\<rparr>)"
    using ev(1) k Some by (simp add: lru_elem_delete_def)
  moreover have "rec_delete k (map snd T) = (Inr (), rec_drop k (map snd T))"
    using Some lru_rep_map_of_list [OF r, of k] by (simp add: rec_delete_def)
  ultimately show ?thesis
    using ev(2) lru_rep_filter(1) [OF r t]
    by (intro exI [of _ "filter (\<lambda>t. fst t \<noteq> hv_entry hv) T"]) (simp add: lru_conf_def)
qed

subsection \<open>Sequences of calls\<close>

datatype lru_op = LruLookup bytes | LruUpdate bytes bytes nat | LruDelete bytes

fun lru_op_ok :: "nat \<Rightarrow> nat \<Rightarrow> lru_op \<Rightarrow> bool" where
  "lru_op_ok ks vs (LruLookup k) = (length k = ks)"
| "lru_op_ok ks vs (LruUpdate k v fl) = (length k = ks \<and> length v = vs)"
| "lru_op_ok ks vs (LruDelete k) = (length k = ks)"

fun lru_step :: "lru_value inserter \<Rightarrow> lru_op \<Rightarrow> lru_map \<Rightarrow> bytes res \<times> lru_map" where
  "lru_step ins (LruLookup k) m = lru_elem_lookup (Some k) m"
| "lru_step ins (LruUpdate k v fl) m =
     (let (r, m') = lru_elem_update ins (Some k) (Some v) fl m in (map_sum id (\<lambda>_. []) r, m'))"
| "lru_step ins (LruDelete k) m =
     (let (r, m') = lru_elem_delete (Some k) m in (map_sum id (\<lambda>_. []) r, m'))"

fun rec_step :: "nat \<Rightarrow> lru_op \<Rightarrow> recency \<Rightarrow> bytes res \<times> recency" where
  "rec_step c (LruLookup k) L = rec_lookup k L"
| "rec_step c (LruUpdate k v fl) L =
     (let (r, L') = rec_update c k v fl L in (map_sum id (\<lambda>_. []) r, L'))"
| "rec_step c (LruDelete k) L =
     (let (r, L') = rec_delete k L in (map_sum id (\<lambda>_. []) r, L'))"

fun run_steps :: "('o \<Rightarrow> 's \<Rightarrow> 'r \<times> 's) \<Rightarrow> 'o list \<Rightarrow> 's \<Rightarrow> 'r list \<times> 's" where
  "run_steps step [] s = ([], s)"
| "run_steps step (x # xs) s =
     (let (r, s') = step x s; (rs, s'') = run_steps step xs s' in (r # rs, s''))"

lemma lru_step_refines:
  assumes ins: "ins_ok ins" and r: "lru_rep m T" and x: "lru_op_ok (lru_key_size m) (lru_value_size m) x"
  shows "\<exists>T'. lru_rep (snd (lru_step ins x m)) T' \<and> lru_conf (snd (lru_step ins x m)) = lru_conf m \<and>
    (fst (lru_step ins x m), map snd T') = rec_step (lru_max_entries m) x (map snd T)"
proof (cases x)
  case (LruLookup k)
  then show ?thesis using lru_lookup_refines [OF r, of "Some k" k] x by (simp add: rd_def)
next
  case (LruUpdate k v fl)
  then show ?thesis
    using lru_update_refines [OF ins r, of "Some k" k "Some v" v fl] x
    by (auto simp: rd_def split_beta) (metis fst_conv snd_conv)
next
  case (LruDelete k)
  then show ?thesis
    using lru_delete_refines [OF r, of "Some k" k] x
    by (auto simp: rd_def split_beta) (metis fst_conv snd_conv)
qed

lemma lru_run_refines:
  assumes ins: "ins_ok ins"
  shows "lru_rep m T \<Longrightarrow> \<forall>x\<in>set xs. lru_op_ok (lru_key_size m) (lru_value_size m) x \<Longrightarrow>
    \<exists>T'. lru_rep (snd (run_steps (lru_step ins) xs m)) T' \<and>
      lru_conf (snd (run_steps (lru_step ins) xs m)) = lru_conf m \<and>
      (fst (run_steps (lru_step ins) xs m), map snd T') =
        run_steps (rec_step (lru_max_entries m)) xs (map snd T)"
proof (induction xs arbitrary: m T)
  case Nil
  then show ?case by auto
next
  case (Cons x xs)
  obtain r m1 where s: "lru_step ins x m = (r, m1)" by fastforce
  obtain T1 where T1: "lru_rep m1 T1" "lru_conf m1 = lru_conf m"
    "rec_step (lru_max_entries m) x (map snd T) = (r, map snd T1)"
    using lru_step_refines [OF ins Cons.prems(1), of x] Cons.prems(2) s by auto
  have c: "lru_key_size m1 = lru_key_size m" "lru_value_size m1 = lru_value_size m"
    "lru_max_entries m1 = lru_max_entries m" using T1(2) by (auto simp: lru_conf_def)
  obtain T2 where "lru_rep (snd (run_steps (lru_step ins) xs m1)) T2"
    "lru_conf (snd (run_steps (lru_step ins) xs m1)) = lru_conf m1"
    "run_steps (rec_step (lru_max_entries m)) xs (map snd T1) =
      (fst (run_steps (lru_step ins) xs m1), map snd T2)"
    using Cons.IH [OF T1(1)] Cons.prems(2) c by auto
  then show ?case using s T1 by (auto simp: split_beta)
qed

subsection \<open>Properties\<close>

text \<open>
  C3: any sequence of lookups, updates and deletes with keys and values of the configured sizes on a new LRU map with room for at least one
  entry returns what the recency list returns, without a null dereference: a lookup or an
  update makes its entry the most recent, an insertion into a full map evicts exactly the
  least recently used entry, and the map never holds more than \<open>max_entries\<close> entries.
\<close>

theorem lru_refines_recency_list:
  assumes "ins_ok ins" and "0 < me" and "\<forall>x\<in>set xs. lru_op_ok ks vs x"
  shows "fst (run_steps (lru_step ins) xs (lru_new ks vs me)) = fst (run_steps (rec_step me) xs []) \<and>
    lru_refines (snd (run_steps (lru_step ins) xs (lru_new ks vs me))) (snd (run_steps (rec_step me) xs [])) \<and>
    length (lru_impl (snd (run_steps (lru_step ins) xs (lru_new ks vs me)))) \<le> me"
proof -
  let ?m = "snd (run_steps (lru_step ins) xs (lru_new ks vs me))"
  have "\<forall>x\<in>set xs. lru_op_ok (lru_key_size (lru_new ks vs me)) (lru_value_size (lru_new ks vs me)) x"
    using assms(3) by (simp add: lru_new_def)
  from lru_run_refines [OF assms(1) lru_rep_new [OF assms(2)] this]
  obtain T' where T': "lru_rep ?m T'" "lru_conf ?m = lru_conf (lru_new ks vs me)"
    "(fst (run_steps (lru_step ins) xs (lru_new ks vs me)), map snd T') =
      run_steps (rec_step (lru_max_entries (lru_new ks vs me))) xs
        (map snd ([] :: (nat \<times> bytes \<times> bytes) list))" by blast
  have "length (lru_impl ?m) \<le> me"
    using lru_rep_length [OF T'(1)] T'(1,2) by (simp add: lru_rep_def lru_conf_def lru_new_def)
  moreover have "run_steps (rec_step me) xs [] = (fst (run_steps (lru_step ins) xs (lru_new ks vs me)), map snd T')"
    using T'(3) by (simp add: lru_new_def)
  ultimately show ?thesis using T'(1) by (auto simp: lru_refines_def)
qed

theorem lru_refines_recency_list_witness:
  "fst (run_steps (lru_step (\<lambda>k v d. (k, v) # d))
     [LruUpdate [1] [7] 0, LruUpdate [2] [8] 0, LruLookup [1], LruUpdate [3] [9] 0, LruLookup [2],
      LruLookup [1]] (lru_new 1 1 2)) =
   [Inr [], Inr [], Inr [7], Inr [], Inl (Errno ENOENT), Inr [7]]"
proof -
  have "ins_ok (\<lambda>k v d. (k, v) # d)" by (simp add: ins_ok_def)
  from lru_refines_recency_list [OF this, of 2 "[LruUpdate [1] [7] 0, LruUpdate [2] [8] 0, LruLookup [1],
      LruUpdate [3] [9] 0, LruLookup [2], LruLookup [1]]" 1 1]
  show ?thesis by (simp add: rec_update_def rec_lookup_def rec_drop_def)
qed

text \<open>
  with \<open>max_entries\<close> 0 the first update dereferences the null tail pointer.
\<close>

theorem lru_zero_entries_null_tail:
  assumes "length k = ks" and "fl = BPF_ANY \<or> fl = BPF_NOEXIST"
  shows "fst (lru_elem_update ins (Some k) value fl (lru_new ks vs 0)) = Inl UB"
  using assms
  by (auto simp: lru_elem_update_def lru_new_def lru_is_good_update_flag_def rd_def lru_evict_tail_def
      lru_deref_def)

theorem lru_zero_entries_null_tail_witness:
  "fst (lru_elem_update (\<lambda>k v d. (k, v) # d) (Some [1]) (Some [2]) 0 (lru_new 1 1 0)) = Inl UB"
  by (rule lru_zero_entries_null_tail) simp_all

end
