(* ===== verification/Percpu_Hash.thy ===== *)
theory Percpu_Hash
  imports Map_Common
begin

text \<open>
  \<open>per_cpu_hash_map_impl\<close> (\<open>runtime/src/bpf_map/userspace/per_cpu_hash_map.cpp\<close>): a
  dictionary whose values hold one slot of \<open>value_size\<close> bytes per cpu. The cpu a program runs
  on is a parameter. The key and value templates are scratch buffers, one per cpu, so an
  index \<open>cpu\<close> of at least \<open>ncpu\<close> is an access outside them.
\<close>

record percpu_hash =
  pch_impl :: "bytes dict"
  pch_key_size :: nat
  pch_value_size :: nat
  pch_ncpu :: nat
  pch_max_entries :: nat
  pch_value_template :: bytes

definition pch_new :: "nat \<Rightarrow> nat \<Rightarrow> nat \<Rightarrow> nat \<Rightarrow> percpu_hash" where
  "pch_new key_size value_size max_entries ncpu =
     \<lparr>pch_impl = [], pch_key_size = key_size, pch_value_size = value_size, pch_ncpu = ncpu,
      pch_max_entries = max_entries, pch_value_template = replicate (w32 (value_size * ncpu)) 0\<rparr>"

definition pch_elem_lookup :: "nat \<Rightarrow> ptr \<Rightarrow> percpu_hash \<Rightarrow> bytes res" where
  "pch_elem_lookup cpu key m =
     (if key = None then Inl (Errno ENOENT)
      else if cpu \<ge> pch_ncpu m then Inl UB
      else and_then (rd key (pch_key_size m)) (\<lambda>k.
        case map_of (pch_impl m) k of
          Some v \<Rightarrow> load (w32 (pch_value_size m * cpu)) (pch_value_size m) v
        | None \<Rightarrow> Inl (Errno ENOENT)))"

definition pch_elem_update ::
  "bytes inserter \<Rightarrow> nat \<Rightarrow> ptr \<Rightarrow> ptr \<Rightarrow> nat \<Rightarrow> percpu_hash \<Rightarrow> unit res \<times> percpu_hash"
where
  "pch_elem_update ins cpu key value flags m = (case check_update_flags flags of
       Inl f \<Rightarrow> (Inl f, m)
     | Inr _ \<Rightarrow>
         (if cpu \<ge> pch_ncpu m then (Inl UB, m)
          else (case rd key (pch_key_size m) of
              Inl f \<Rightarrow> (Inl f, m)
            | Inr k \<Rightarrow> (case rd value (pch_value_size m) of
                  Inl f \<Rightarrow> (Inl f, m)
                | Inr v \<Rightarrow> (case map_of (pch_impl m) k of
                      Some old \<Rightarrow> (case store (w32 (cpu * pch_value_size m)) v old of
                          Inl f \<Rightarrow> (Inl f, m)
                        | Inr new \<Rightarrow> (Inr (), m\<lparr>pch_impl := dict_assign k new (pch_impl m)\<rparr>))
                    | None \<Rightarrow> (case store (w32 (cpu * pch_value_size m)) v (pch_value_template m) of
                          Inl f \<Rightarrow> (Inl f, m)
                        | Inr new \<Rightarrow> (Inr (), m\<lparr>pch_impl := ins k new (pch_impl m)\<rparr>)))))))"

text \<open>\<open>std::fill(begin, begin + cpu * value_size, 0)\<close>.\<close>

definition pch_elem_delete :: "nat \<Rightarrow> ptr \<Rightarrow> percpu_hash \<Rightarrow> unit res \<times> percpu_hash" where
  "pch_elem_delete cpu key m =
     (if cpu \<ge> pch_ncpu m then (Inl UB, m)
      else (case rd key (pch_key_size m) of
          Inl f \<Rightarrow> (Inl f, m)
        | Inr k \<Rightarrow> (case map_of (pch_impl m) k of
              Some old \<Rightarrow> (case store 0 (replicate (w32 (cpu * pch_value_size m)) 0) old of
                  Inl f \<Rightarrow> (Inl f, m)
                | Inr new \<Rightarrow> (Inr (), m\<lparr>pch_impl := dict_assign k new (pch_impl m)\<rparr>))
            | None \<Rightarrow> (Inr (), m))))"

definition pch_first_key :: "outbuf \<Rightarrow> percpu_hash \<Rightarrow> bytes res" where
  "pch_first_key next_key m = (case pch_impl m of
       [] \<Rightarrow> Inl (Errno ENOENT)
     | x # _ \<Rightarrow> copy_out next_key (Inr (fst x)))"

definition pch_map_get_next_key :: "ptr \<Rightarrow> outbuf \<Rightarrow> percpu_hash \<Rightarrow> bytes res" where
  "pch_map_get_next_key key next_key m =
     (if key = None then pch_first_key next_key m
      else if pch_ncpu m = 0 then Inl UB
      else (case rd key (pch_key_size m) of
          Inl f \<Rightarrow> Inl f
        | Inr k \<Rightarrow> (case map_of (pch_impl m) k of
              None \<Rightarrow> pch_first_key next_key m
            | Some _ \<Rightarrow> (case dict_next k (pch_impl m) of
                  None \<Rightarrow> Inl (Errno ENOENT)
                | Some k' \<Rightarrow> copy_out next_key (Inr k')))))"

definition pch_elem_lookup_userspace :: "ptr \<Rightarrow> percpu_hash \<Rightarrow> bytes res" where
  "pch_elem_lookup_userspace key m =
     (if key = None then Inl (Errno ENOENT)
      else if pch_ncpu m = 0 then Inl UB
      else and_then (rd key (pch_key_size m)) (\<lambda>k.
        case map_of (pch_impl m) k of
          Some v \<Rightarrow> load 0 (pch_ncpu m * pch_value_size m) v
        | None \<Rightarrow> Inl (Errno ENOENT)))"

definition pch_elem_update_userspace ::
  "bytes inserter \<Rightarrow> ptr \<Rightarrow> ptr \<Rightarrow> nat \<Rightarrow> percpu_hash \<Rightarrow> unit res \<times> percpu_hash"
where
  "pch_elem_update_userspace ins key value flags m = (case check_update_flags flags of
       Inl f \<Rightarrow> (Inl f, m)
     | Inr _ \<Rightarrow>
         (if pch_ncpu m = 0 then (Inl UB, m)
          else (case rd key (pch_key_size m) of
              Inl f \<Rightarrow> (Inl f, m)
            | Inr k \<Rightarrow> (case rd value (w32 (pch_value_size m * pch_ncpu m)) of
                  Inl f \<Rightarrow> (Inl f, m)
                | Inr v \<Rightarrow>
                    (let elem_exists = map_of (pch_impl m) k \<noteq> None in
                     if flags = BPF_NOEXIST \<and> elem_exists then (Inl (Errno EEXIST), m)
                     else if flags = BPF_EXIST \<and> \<not> elem_exists then (Inl (Errno ENOENT), m)
                     else if \<not> elem_exists \<and> length (pch_impl m) = pch_max_entries m
                       then (Inl (Errno E2BIG), m)
                     else (Inr (), m\<lparr>pch_impl := insert_or_assign ins k v (pch_impl m)\<rparr>))))))"

definition pch_elem_delete_userspace :: "ptr \<Rightarrow> percpu_hash \<Rightarrow> unit res \<times> percpu_hash" where
  "pch_elem_delete_userspace key m =
     (if pch_ncpu m = 0 then (Inl UB, m)
      else (case rd key (pch_key_size m) of
          Inl f \<Rightarrow> (Inl f, m)
        | Inr k \<Rightarrow> (case map_of (pch_impl m) k of
              None \<Rightarrow> (Inl (Errno ENOENT), m)
            | Some _ \<Rightarrow> (Inr (), m\<lparr>pch_impl := dict_erase k (pch_impl m)\<rparr>))))"

definition pch_lookup_and_delete_userspace ::
  "ptr \<Rightarrow> outbuf \<Rightarrow> percpu_hash \<Rightarrow> bytes res \<times> percpu_hash"
where
  "pch_lookup_and_delete_userspace key value m =
     (if pch_ncpu m = 0 then (Inl UB, m)
      else (case rd key (pch_key_size m) of
          Inl f \<Rightarrow> (Inl f, m)
        | Inr k \<Rightarrow> (case map_of (pch_impl m) k of
              None \<Rightarrow> (Inl (Errno ENOENT), m)
            | Some v \<Rightarrow> (case copy_out value (load 0 (w32 (pch_ncpu m * pch_value_size m)) v) of
                  Inl f \<Rightarrow> (Inl f, m)
                | Inr bs \<Rightarrow> (Inr bs, m\<lparr>pch_impl := dict_erase k (pch_impl m)\<rparr>)))))"

subsection \<open>Invariant\<close>

definition pch_inv :: "percpu_hash \<Rightarrow> bool" where
  "pch_inv m \<longleftrightarrow> distinct (map fst (pch_impl m)) \<and> pch_ncpu m * pch_value_size m < 2 ^ 32 \<and>
     pch_value_template m = replicate (pch_ncpu m * pch_value_size m) 0 \<and>
     (\<forall>(k, v)\<in>set (pch_impl m). length k = pch_key_size m \<and> length v = pch_ncpu m * pch_value_size m)"

definition pch_cpu_inv :: "nat \<Rightarrow> percpu_hash \<Rightarrow> bool" where
  "pch_cpu_inv cpu m \<longleftrightarrow> pch_inv m \<and> cpu < pch_ncpu m"

definition pch_slot :: "percpu_hash \<Rightarrow> nat \<Rightarrow> bytes \<Rightarrow> bytes" where
  "pch_slot m cpu v = blk_get (cpu * pch_value_size m) (pch_value_size m) v"

definition pch_view :: "nat \<Rightarrow> percpu_hash \<Rightarrow> bytes \<Rightarrow> bytes option" where
  "pch_view cpu m k = map_option (pch_slot m cpu) (map_of (pch_impl m) k)"

definition pch_keyof :: "percpu_hash \<Rightarrow> ptr \<Rightarrow> bytes option" where
  "pch_keyof m p = (case rd p (pch_key_size m) of Inl _ \<Rightarrow> None | Inr k \<Rightarrow> Some k)"

lemma pch_keyof_Some: "pch_keyof m p = Some k \<longleftrightarrow> rd p (pch_key_size m) = Inr k"
  by (auto simp: pch_keyof_def split: sum.splits)

lemma pch_inv_new: "vs * n < 2 ^ 32 \<Longrightarrow> pch_inv (pch_new ks vs me n)"
  by (simp add: pch_inv_def pch_new_def mult.commute)

lemma pch_off:
  assumes "pch_inv m" and "cpu < pch_ncpu m"
  shows "w32 (cpu * pch_value_size m) = cpu * pch_value_size m"
    and "cpu * pch_value_size m + pch_value_size m \<le> pch_ncpu m * pch_value_size m"
proof -
  show e: "cpu * pch_value_size m + pch_value_size m \<le> pch_ncpu m * pch_value_size m"
    by (rule block_end_le [OF assms(2)])
  show "w32 (cpu * pch_value_size m) = cpu * pch_value_size m"
    by (rule w32_id) (use e assms(1) in \<open>simp add: pch_inv_def\<close>)
qed

lemma pch_lookup_eq:
  assumes inv: "pch_inv m" and c: "cpu < pch_ncpu m" and k: "rd p (pch_key_size m) = Inr k"
  shows "pch_elem_lookup cpu p m =
    (case pch_view cpu m k of None \<Rightarrow> Inl (Errno ENOENT) | Some v \<Rightarrow> Inr v)"
proof -
  have "p \<noteq> None" using k by (cases p) (auto simp: rd_def)
  moreover have "length v = pch_ncpu m * pch_value_size m" if "map_of (pch_impl m) k = Some v" for v
    using inv map_of_SomeD [OF that] by (auto simp: pch_inv_def)
  ultimately show ?thesis
    using k c pch_off [OF inv c]
    by (auto simp: pch_elem_lookup_def pch_view_def pch_slot_def load_def mult.commute split: option.splits)
qed

text \<open>An update by a program writes one slot of the value, or of the zero template.\<close>

definition pch_old :: "percpu_hash \<Rightarrow> bytes \<Rightarrow> bytes" where
  "pch_old m k = (case map_of (pch_impl m) k of Some v \<Rightarrow> v | None \<Rightarrow> pch_value_template m)"

lemma length_pch_old: "pch_inv m \<Longrightarrow> length (pch_old m k) = pch_ncpu m * pch_value_size m"
  by (auto simp: pch_old_def pch_inv_def split: option.splits dest: map_of_SomeD)

lemma pch_update_ok:
  assumes inv: "pch_inv m" and c: "cpu < pch_ncpu m" and k: "rd p (pch_key_size m) = Inr k"
    and v: "rd q (pch_value_size m) = Inr v" and fl: "fl \<le> 2"
  shows "pch_elem_update ins cpu p q fl m =
    (Inr (), m\<lparr>pch_impl := insert_or_assign ins k (blk_put (cpu * pch_value_size m) v (pch_old m k)) (pch_impl m)\<rparr>)"
proof -
  have "check_update_flags fl = Inr ()" using fl by (auto simp: check_update_flags_def)
  moreover have "length v = pch_value_size m" using v by (auto simp: rd_Inr_iff)
  ultimately show ?thesis
    using c k v pch_off [OF inv c] length_pch_old [OF inv, of k]
    by (auto simp: pch_elem_update_def store_def insert_or_assign_def pch_old_def split: option.splits)
qed

lemma pch_inv_put:
  assumes ins: "ins_ok ins" and inv: "pch_inv m" and c: "cpu < pch_ncpu m" and k: "length k = pch_key_size m"
    and v: "length v = pch_value_size m"
  shows "pch_inv (m\<lparr>pch_impl := insert_or_assign ins k (blk_put (cpu * pch_value_size m) v (pch_old m k)) (pch_impl m)\<rparr>)"
  using inv k v pch_off [OF inv c] length_pch_old [OF inv, of k]
  by (auto simp: pch_inv_def distinct_insert_or_assign [OF ins] dest!: dict_in_set_insert_or_assign [OF ins])

lemma pch_view_put:
  assumes ins: "ins_ok ins" and inv: "pch_inv m" and c: "cpu < pch_ncpu m" and v: "length v = pch_value_size m"
  shows "pch_view cpu' (m\<lparr>pch_impl := insert_or_assign ins k (blk_put (cpu * pch_value_size m) v (pch_old m k)) (pch_impl m)\<rparr>)
    = (pch_view cpu' m)(k \<mapsto> (if cpu' = cpu then v else pch_slot m cpu' (pch_old m k)))"
proof -
  let ?n = "pch_value_size m"
  have d: "distinct (map fst (pch_impl m))" using inv by (simp add: pch_inv_def)
  have e: "cpu * ?n + length v \<le> length (pch_old m k)"
    using pch_off(2) [OF inv c] length_pch_old [OF inv] v by simp
  have "blk_get (cpu' * ?n) ?n (blk_put (cpu * ?n) v (pch_old m k)) =
      (if cpu' = cpu then v else blk_get (cpu' * ?n) ?n (pch_old m k))"
    using e v blocks_disjoint [of cpu' cpu ?n] by (auto simp: blk_get_put_same blk_get_put_other)
  then show ?thesis
    by (auto simp: pch_view_def pch_slot_def [abs_def] map_of_insert_or_assign [OF ins d] fun_eq_iff)
qed

lemma pch_framed_store:
  assumes ins: "ins_ok ins"
  shows "framed_store (pch_cpu_inv cpu) (pch_view cpu) pch_keyof pch_value_size (Errno ENOENT)
    (pch_elem_lookup cpu) (pch_elem_update ins cpu)"
proof
  fix m m' p k v fl q f k'
  assume "pch_cpu_inv cpu m"
  then have inv: "pch_inv m" and c: "cpu < pch_ncpu m" by (auto simp: pch_cpu_inv_def)
  show "pch_elem_lookup cpu p m =
      (case pch_view cpu m k of None \<Rightarrow> Inl (Errno ENOENT) | Some v \<Rightarrow> Inr v)"
    if "pch_keyof m p = Some k"
    using pch_lookup_eq [OF inv c] that by (simp add: pch_keyof_Some)
  show "m' = m" if "pch_elem_update ins cpu p q fl m = (Inl f, m')"
    using that by (auto simp: pch_elem_update_def split: sum.splits option.splits if_splits)
  assume "pch_keyof m p = Some k" and u: "pch_elem_update ins cpu p (Some v) fl m = (Inr (), m')"
  then have k: "rd p (pch_key_size m) = Inr k" by (simp add: pch_keyof_Some)
  have fl: "fl \<le> 2" and vl: "pch_value_size m \<le> length v"
    using u c k by (auto simp: pch_elem_update_def check_update_flags_def rd_def split: if_splits option.splits)
  then have v: "rd (Some v) (pch_value_size m) = Inr (take (pch_value_size m) v)" by (simp add: rd_def)
  let ?v = "take (pch_value_size m) v"
  have m': "m' = m\<lparr>pch_impl := insert_or_assign ins k (blk_put (cpu * pch_value_size m) ?v (pch_old m k)) (pch_impl m)\<rparr>"
    using pch_update_ok [OF inv c k v fl, of ins] u by simp
  have vw: "pch_view cpu m' = (pch_view cpu m)(k \<mapsto> ?v)"
    using pch_view_put [OF ins inv c, of ?v cpu k] vl m' by simp
  show "pch_view cpu m' k' = pch_view cpu m k'" if "k' \<noteq> k"
    using vw that by simp
  have "length k = pch_key_size m" using k by (auto simp: rd_Inr_iff)
  then have "pch_inv m'" using pch_inv_put [OF ins inv c, of k ?v] vl m' by simp
  then show "pch_cpu_inv cpu m' \<and> pch_keyof m' = pch_keyof m \<and> pch_value_size m' = pch_value_size m \<and>
      pch_view cpu m' k = Some ?v \<and>
      (\<forall>k'. k' \<noteq> k \<longrightarrow> pch_view cpu m' k' = None \<or> pch_view cpu m' k' = pch_view cpu m k')"
    using vw c m' by (simp add: pch_cpu_inv_def pch_keyof_def fun_eq_iff)
qed

interpretation pchs: framed_store "pch_cpu_inv cpu" "pch_view cpu" pch_keyof pch_value_size
  "Errno ENOENT" "pch_elem_lookup cpu" "pch_elem_update (\<lambda>k v d. (k, v) # d) cpu" for cpu
  by (rule pch_framed_store) (simp add: ins_ok_def)

lemma pch_slot_template:
  assumes "pch_inv m" and "cpu < pch_ncpu m"
  shows "pch_slot m cpu (pch_value_template m) = replicate (pch_value_size m) 0"
  using assms pch_off(2) [OF assms] by (simp add: pch_slot_def pch_inv_def blk_get_def min_def)

lemma pch_delete_eq:
  assumes inv: "pch_inv m" and c: "cpu < pch_ncpu m" and k: "rd p (pch_key_size m) = Inr k"
    and old: "map_of (pch_impl m) k = Some v"
  shows "pch_elem_delete cpu p m = (Inr (), m\<lparr>pch_impl :=
    dict_assign k (blk_put 0 (replicate (cpu * pch_value_size m) 0) v) (pch_impl m)\<rparr>)"
proof -
  have "length v = pch_ncpu m * pch_value_size m"
    using inv map_of_SomeD [OF old] by (auto simp: pch_inv_def)
  then show ?thesis
    using pch_off [OF inv c] c k old by (simp add: pch_elem_delete_def store_def)
qed

lemma pch_delete_view:
  assumes inv: "pch_inv m" and c: "cpu < pch_ncpu m" and c': "cpu' < pch_ncpu m"
    and k: "rd p (pch_key_size m) = Inr k" and old: "map_of (pch_impl m) k = Some v"
  shows "pch_elem_lookup cpu' p (snd (pch_elem_delete cpu p m)) =
    (if cpu' < cpu then Inr (replicate (pch_value_size m) 0) else pch_elem_lookup cpu' p m)"
proof -
  let ?n = "pch_value_size m" and ?v = "blk_put 0 (replicate (cpu * pch_value_size m) 0) v"
  let ?m = "m\<lparr>pch_impl := dict_assign k ?v (pch_impl m)\<rparr>"
  have lv: "length v = pch_ncpu m * ?n" using inv map_of_SomeD [OF old] by (auto simp: pch_inv_def)
  note e = pch_off(2) [OF inv c] and e' = pch_off(2) [OF inv c']
  have le: "0 + length (replicate (cpu * ?n) (0::byte)) \<le> length v"
    unfolding length_replicate using lv e by linarith
  from length_blk_put [OF le] have "length ?v = pch_ncpu m * ?n" using lv by simp
  then have inv': "pch_inv ?m"
    using inv unfolding pch_inv_def by (auto simp: set_dict_assign split: if_splits)
  have "blk_get (cpu' * ?n) ?n ?v = (if cpu' < cpu then replicate ?n 0 else blk_get (cpu' * ?n) ?n v)"
  proof (cases "cpu' < cpu")
    case True
    then show ?thesis
      using block_end_le [OF True, of ?n] lv e by (simp add: blk_get_def blk_put_def drop_take min_def)
  next
    case False
    then have "cpu * ?n \<le> cpu' * ?n" by simp
    then show ?thesis using False blk_get_put_other [OF le, of "cpu' * ?n" ?n] by simp
  qed
  then have vw: "pch_view cpu' ?m k =
      (if cpu' < cpu then Some (replicate ?n 0) else pch_view cpu' m k)"
    using old by (simp add: pch_view_def pch_slot_def map_of_dict_assign)
  have "pch_elem_lookup cpu' p ?m =
      (case pch_view cpu' ?m k of None \<Rightarrow> Inl (Errno ENOENT) | Some v \<Rightarrow> Inr v)"
    using pch_lookup_eq [OF inv'] c' k by simp
  then show ?thesis
    using pch_delete_eq [OF inv c k old] pch_lookup_eq [OF inv c' k] vw by simp
qed

subsection \<open>Properties\<close>

text \<open>
  an update by a program on one cpu succeeds, is what that cpu reads back, and leaves the
  value other cpus see for the key alone, which is zero when the key is new.
\<close>

theorem pch_update_isolated:
  assumes "ins_ok ins" and "pch_inv m" and "cpu < pch_ncpu m" and "cpu' < pch_ncpu m"
    and "rd p (pch_key_size m) = Inr k" and "pch_value_size m \<le> length v" and "fl \<le> 2"
  shows "\<exists>m'. pch_elem_update ins cpu p (Some v) fl m = (Inr (), m') \<and> pch_inv m' \<and>
    pch_elem_lookup cpu' p m' =
      (if cpu' = cpu then Inr (take (pch_value_size m) v)
       else if map_of (pch_impl m) k = None then Inr (replicate (pch_value_size m) 0)
       else pch_elem_lookup cpu' p m)"
proof -
  let ?v = "take (pch_value_size m) v"
  let ?m = "m\<lparr>pch_impl := insert_or_assign ins k (blk_put (cpu * pch_value_size m) ?v (pch_old m k)) (pch_impl m)\<rparr>"
  have v: "rd (Some v) (pch_value_size m) = Inr ?v" "length ?v = pch_value_size m"
    using assms(6) by (simp_all add: rd_def)
  have "length k = pch_key_size m" using assms(5) by (auto simp: rd_Inr_iff)
  then have inv: "pch_inv ?m" by (intro pch_inv_put assms v)
  have "pch_elem_lookup cpu' p ?m =
      (case pch_view cpu' ?m k of None \<Rightarrow> Inl (Errno ENOENT) | Some v \<Rightarrow> Inr v)"
    using pch_lookup_eq [OF inv] assms(4,5) by simp
  also have "\<dots> = (if cpu' = cpu then Inr ?v
      else if map_of (pch_impl m) k = None then Inr (replicate (pch_value_size m) 0)
      else pch_elem_lookup cpu' p m)"
    unfolding pch_view_put [OF assms(1,2,3) v(2)]
    using pch_slot_template [OF assms(2,4)] pch_lookup_eq [OF assms(2,4,5)]
    by (auto simp: pch_old_def pch_view_def)
  finally show ?thesis
    using pch_update_ok [OF assms(2,3,5) v(1) assms(7), of ins] inv by blast
qed

theorem pch_update_isolated_witness:
  "\<exists>m'. pch_elem_update (\<lambda>k v d. (k, v) # d) 1 (Some [5]) (Some [7]) 0 (pch_new 1 1 4 2) = (Inr (), m') \<and>
     pch_elem_lookup 1 (Some [5]) m' = Inr [7]"
proof -
  have "pch_inv (pch_new 1 1 4 2)" by (rule pch_inv_new) simp
  from pch_update_isolated [OF _ this, of "\<lambda>k v d. (k, v) # d" 1 1 "Some [5]" "[5]" "[7]" 0]
  show ?thesis by (auto simp: ins_ok_def pch_new_def rd_def)
qed

text \<open>
  \<open>elem_delete\<close> on cpu \<open>c\<close> zeroes the slots of the cpus below \<open>c\<close> and not its own: the cpu
  that deleted the key still reads its old value, and the values of lower cpus are lost.
\<close>

theorem pch_delete_clears_lower_cpus:
  assumes "pch_inv m" and "cpu < pch_ncpu m" and "cpu' < pch_ncpu m"
    and "rd p (pch_key_size m) = Inr k" and "map_of (pch_impl m) k = Some v"
  shows "fst (pch_elem_delete cpu p m) = Inr () \<and>
    pch_elem_lookup cpu p (snd (pch_elem_delete cpu p m)) = pch_elem_lookup cpu p m \<and>
    (cpu' < cpu \<longrightarrow>
       pch_elem_lookup cpu' p (snd (pch_elem_delete cpu p m)) = Inr (replicate (pch_value_size m) 0))"
  using pch_delete_eq [OF assms(1,2,4,5)] pch_delete_view [OF assms(1,2,2,4,5)]
    pch_delete_view [OF assms(1,2,3,4,5)] by simp

theorem pch_delete_clears_lower_cpus_witness:
  "pch_elem_lookup 1 (Some [5]) (snd (pch_elem_delete 1 (Some [5]) \<lparr>pch_impl = [([5], [3, 4])],
     pch_key_size = 1, pch_value_size = 1, pch_ncpu = 2, pch_max_entries = 4,
     pch_value_template = [0, 0]\<rparr>)) = Inr [4] \<and>
   pch_elem_lookup 0 (Some [5]) (snd (pch_elem_delete 1 (Some [5]) \<lparr>pch_impl = [([5], [3, 4])],
     pch_key_size = 1, pch_value_size = 1, pch_ncpu = 2, pch_max_entries = 4,
     pch_value_template = [0, 0]\<rparr>)) = Inr [0]"
proof -
  let ?m = "\<lparr>pch_impl = [([5], [3, 4])], pch_key_size = 1, pch_value_size = 1, pch_ncpu = 2,
    pch_max_entries = 4, pch_value_template = [0, 0]\<rparr>"
  have "replicate 2 (0::byte) = [0, 0]" by (simp add: numeral_2_eq_2)
  then have "pch_inv ?m" by (simp add: pch_inv_def)
  from pch_delete_clears_lower_cpus [OF this, of 1 0 "Some [5]" "[5]" "[3, 4]"]
  show ?thesis by (simp add: rd_def pch_elem_lookup_def load_def blk_get_def)
qed

text \<open>
  a program's update neither tests \<open>BPF_NOEXIST\<close> and \<open>BPF_EXIST\<close> nor the capacity: with any
  of the three flags an update with a new key succeeds on a map that already holds
  \<open>max_entries\<close> entries, and the map then holds one more.
\<close>

theorem pch_update_exceeds_capacity:
  assumes "ins_ok ins" and "pch_inv m" and "cpu < pch_ncpu m" and "rd p (pch_key_size m) = Inr k"
    and "pch_value_size m \<le> length v" and "fl \<le> 2" and "map_of (pch_impl m) k = None"
    and "length (pch_impl m) = pch_max_entries m"
  shows "\<exists>m'. pch_elem_update ins cpu p (Some v) fl m = (Inr (), m') \<and>
    length (pch_impl m') = Suc (pch_max_entries m')"
proof -
  have "rd (Some v) (pch_value_size m) = Inr (take (pch_value_size m) v)" using assms(5) by (simp add: rd_def)
  from pch_update_ok [OF assms(2,3,4) this assms(6), of ins] show ?thesis
    using length_insert_or_assign [OF assms(1)] assms(7,8) by simp
qed

theorem pch_update_exceeds_capacity_witness:
  "\<exists>m'. pch_elem_update (\<lambda>k v d. (k, v) # d) 0 (Some [5]) (Some [7]) 2 (pch_new 1 1 0 1) = (Inr (), m') \<and>
     length (pch_impl m') = 1"
proof -
  have "pch_inv (pch_new 1 1 0 1)" by (rule pch_inv_new) simp
  from pch_update_exceeds_capacity [OF _ this, of "\<lambda>k v d. (k, v) # d" 0 "Some [5]" "[5]" "[7]" 2]
  obtain m' where "pch_elem_update (\<lambda>k v d. (k, v) # d) 0 (Some [5]) (Some [7]) 2 (pch_new 1 1 0 1) = (Inr (), m')"
    "length (pch_impl m') = Suc (pch_max_entries m')"
    by (auto simp: ins_ok_def pch_new_def rd_def)
  moreover from this(1) have "pch_max_entries m' = 0"
    by (auto simp: pch_elem_update_def pch_new_def check_update_flags_def rd_def store_def split: if_splits)
  ultimately show ?thesis by simp
qed

end
