(* ===== verification/Lpm_Trie.thy ===== *)
theory Lpm_Trie
  imports Bpf_Prelude "HOL-Library.Sublist"
begin

text \<open>
  \<open>lpm_trie_map_impl\<close> (\<open>runtime/src/bpf_map/userspace/lpm_trie_map.cpp\<close>): a binary trie of
  prefixes. A node carries its prefix length, the flag \<open>is_intermediate\<close> and its bytes, which
  are the prefix data followed by the value where the node is an entry. The walk along a
  \<open>node_unique_ptr *slot\<close> is a recursion that rebuilds the path. Whether \<open>create_node\<close> gets
  memory is a parameter \<open>mk\<close>, indexed by the call.

  Nodes are abstracted to bit lists, the trie to the list of its entries; lookup returns the
  entry with the longest prefix of the key, update and delete change exactly one entry.
\<close>

datatype lpm_trie =
    LNil
  | LNode (lpm_prefixlen: nat) (lpm_is_intermediate: bool) (lpm_data: bytes)
      (lpm_child0: lpm_trie) (lpm_child1: lpm_trie)

record lpm_map =
  lpm_key_size :: nat
  lpm_value_size :: nat
  lpm_max_entries :: nat
  lpm_data_size :: nat
  lpm_max_prefixlen :: nat
  lpm_root :: lpm_trie
  lpm_n_entries :: nat

definition LPM_KEY_SIZE_MIN :: nat where "LPM_KEY_SIZE_MIN = 4 + 1"
definition LPM_KEY_SIZE_MAX :: nat where "LPM_KEY_SIZE_MAX = 4 + 256"

definition lpm_new :: "nat \<Rightarrow> nat \<Rightarrow> nat \<Rightarrow> lpm_map res" where
  "lpm_new key_size value_size max_entries =
     (if key_size < LPM_KEY_SIZE_MIN \<or> key_size > LPM_KEY_SIZE_MAX then Inl Throw
      else if value_size = 0 \<or> max_entries = 0 then Inl Throw
      else Inr \<lparr>lpm_key_size = key_size, lpm_value_size = value_size,
                lpm_max_entries = max_entries, lpm_data_size = key_size - 4,
                lpm_max_prefixlen = (key_size - 4) * 8, lpm_root = LNil, lpm_n_entries = 0\<rparr>)"

text \<open>\<open>extract_bit\<close>: bit \<open>index\<close>, most significant bit of each byte first.\<close>

definition lpm_extract_bit :: "nat \<Rightarrow> bytes \<Rightarrow> nat \<Rightarrow> bool" where
  "lpm_extract_bit ds d index =
     (if index \<ge> ds * 8 then False else bit (d ! (index div 8)) (7 - index mod 8))"

definition longest_prefix_match :: "nat \<Rightarrow> nat \<Rightarrow> bytes \<Rightarrow> nat \<Rightarrow> bytes \<Rightarrow> nat" where
  "longest_prefix_match ds node_len node_data key_len key_data =
     length (takeWhile (\<lambda>i. lpm_extract_bit ds node_data i = lpm_extract_bit ds key_data i)
       [0..<min node_len key_len])"

text \<open>\<open>create_node\<close> followed by the copy of the key: a new entry, and an intermediate node.\<close>

definition lpm_entry_node :: "nat \<Rightarrow> bytes \<Rightarrow> bytes \<Rightarrow> lpm_trie" where
  "lpm_entry_node key_len key_data v = LNode key_len False (key_data @ v) LNil LNil"

text \<open>\<open>node->data.resize(n)\<close>.\<close>

definition lpm_resize :: "nat \<Rightarrow> bytes \<Rightarrow> bytes" where
  "lpm_resize n d = take n d @ replicate (n - length d) 0"

text \<open>The walk of \<open>elem_lookup\<close>; \<open>found\<close> is the node found so far.\<close>

primrec lpm_walk :: "nat \<Rightarrow> nat \<Rightarrow> nat \<Rightarrow> bytes \<Rightarrow> lpm_trie \<Rightarrow> lpm_trie \<Rightarrow> lpm_trie" where
  "lpm_walk ds maxlen key_len key_data LNil found = found"
| "lpm_walk ds maxlen key_len key_data (LNode pl im d c0 c1) found =
     (let matchlen = longest_prefix_match ds pl d key_len key_data in
      if matchlen = maxlen then LNode pl im d c0 c1
      else if matchlen < pl then found
      else (let found' = (if \<not> im then LNode pl im d c0 c1 else found) in
            if matchlen < key_len then
              (if lpm_extract_bit ds key_data pl
               then lpm_walk ds maxlen key_len key_data c1 found'
               else lpm_walk ds maxlen key_len key_data c0 found')
            else found'))"

definition lpm_key :: "ptr \<Rightarrow> lpm_map \<Rightarrow> (nat \<times> bytes) res" where
  "lpm_key key m = and_then (rd_u32 key) (\<lambda>len.
     if len > lpm_max_prefixlen m then Inl (Errno EINVAL)
     else and_then (rd key (4 + lpm_data_size m)) (\<lambda>bs. Inr (len, drop 4 bs)))"

definition lpm_elem_lookup :: "ptr \<Rightarrow> lpm_map \<Rightarrow> bytes res" where
  "lpm_elem_lookup key m =
     (if key = None then Inl (Errno EINVAL)
      else and_then (lpm_key key m) (\<lambda>(key_len, key_data).
        case lpm_walk (lpm_data_size m) (lpm_max_prefixlen m) key_len key_data (lpm_root m) LNil of
          LNil \<Rightarrow> Inl (Errno ENOENT)
        | LNode pl im d c0 c1 \<Rightarrow>
            (if im then Inl (Errno ENOENT) else load (lpm_data_size m) (lpm_value_size m) d)))"

text \<open>
  The result of an update at the slot reached: the new subtree and whether \<open>n_entries\<close> grows.
  The split puts the old subtree and the new entry below an intermediate node.
\<close>

definition lpm_split ::
  "(nat \<Rightarrow> bool) \<Rightarrow> nat \<Rightarrow> nat \<Rightarrow> bytes \<Rightarrow> bytes res \<Rightarrow> nat \<Rightarrow> lpm_trie \<Rightarrow> (lpm_trie \<times> bool) res"
where
  "lpm_split mk ds key_len key_data val matchlen t =
     (if \<not> mk 0 then Inl (Errno ENOMEM)
      else and_then val (\<lambda>v.
        if \<not> mk 1 then Inl (Errno ENOMEM)
        else (let new_node = lpm_entry_node key_len key_data v in
              Inr (if lpm_extract_bit ds key_data matchlen
                   then LNode matchlen True key_data t new_node
                   else LNode matchlen True key_data new_node t, True))))"

definition lpm_put_here ::
  "(nat \<Rightarrow> bool) \<Rightarrow> lpm_map \<Rightarrow> nat \<Rightarrow> bytes \<Rightarrow> bytes res \<Rightarrow> nat \<Rightarrow> lpm_trie \<Rightarrow> (lpm_trie \<times> bool) res"
where
  "lpm_put_here mk m key_len key_data val flags t = (case t of
     LNil \<Rightarrow>
       (if flags = BPF_EXIST then Inl (Errno ENOENT)
        else if lpm_n_entries m \<ge> lpm_max_entries m then Inl (Errno ENOSPC)
        else if \<not> mk 0 then Inl (Errno ENOMEM)
        else and_then val (\<lambda>v. Inr (lpm_entry_node key_len key_data v, True)))
   | LNode pl im d c0 c1 \<Rightarrow>
       (let ds = lpm_data_size m; matchlen = longest_prefix_match ds pl d key_len key_data in
        if pl = key_len then
          if matchlen = key_len then
            (if flags = BPF_NOEXIST then Inl (Errno EEXIST)
             else if flags = BPF_EXIST \<and> im then Inl (Errno ENOENT)
             else if im \<and> lpm_n_entries m \<ge> lpm_max_entries m then Inl (Errno ENOSPC)
             else and_then val (\<lambda>v.
               and_then (store ds v (if im then lpm_resize (ds + lpm_value_size m) d else d)) (\<lambda>d'.
                 Inr (LNode pl False d' c0 c1, im))))
          else if flags = BPF_EXIST then Inl (Errno ENOENT)
          else if lpm_n_entries m \<ge> lpm_max_entries m then Inl (Errno ENOSPC)
          else lpm_split mk ds key_len key_data val matchlen t
        else if matchlen = key_len then
          (if flags = BPF_EXIST then Inl (Errno ENOENT)
           else if lpm_n_entries m \<ge> lpm_max_entries m then Inl (Errno ENOSPC)
           else if \<not> mk 0 then Inl (Errno ENOMEM)
           else and_then val (\<lambda>v.
             Inr (if lpm_extract_bit ds d matchlen
                  then LNode key_len False (key_data @ v) LNil t
                  else LNode key_len False (key_data @ v) t LNil, True)))
        else if flags = BPF_EXIST then Inl (Errno ENOENT)
        else if lpm_n_entries m \<ge> lpm_max_entries m then Inl (Errno ENOSPC)
        else lpm_split mk ds key_len key_data val matchlen t))"

primrec lpm_put ::
  "(nat \<Rightarrow> bool) \<Rightarrow> lpm_map \<Rightarrow> nat \<Rightarrow> bytes \<Rightarrow> bytes res \<Rightarrow> nat \<Rightarrow> lpm_trie \<Rightarrow> (lpm_trie \<times> bool) res"
where
  "lpm_put mk m key_len key_data val flags LNil = lpm_put_here mk m key_len key_data val flags LNil"
| "lpm_put mk m key_len key_data val flags (LNode pl im d c0 c1) =
     (let matchlen = longest_prefix_match (lpm_data_size m) pl d key_len key_data in
      if pl \<noteq> matchlen \<or> pl = key_len \<or> pl = lpm_max_prefixlen m
      then lpm_put_here mk m key_len key_data val flags (LNode pl im d c0 c1)
      else if lpm_extract_bit (lpm_data_size m) key_data pl
      then and_then (lpm_put mk m key_len key_data val flags c1) (\<lambda>(c, g). Inr (LNode pl im d c0 c, g))
      else and_then (lpm_put mk m key_len key_data val flags c0) (\<lambda>(c, g). Inr (LNode pl im d c c1, g)))"

definition lpm_elem_update ::
  "(nat \<Rightarrow> bool) \<Rightarrow> ptr \<Rightarrow> ptr \<Rightarrow> nat \<Rightarrow> lpm_map \<Rightarrow> unit res \<times> lpm_map"
where
  "lpm_elem_update mk key value flags m =
     (if key = None \<or> value = None then (Inl (Errno EINVAL), m)
      else if flags \<noteq> 0 \<and> flags \<noteq> 1 \<and> flags \<noteq> 2 then (Inl (Errno EINVAL), m)
      else (case and_then (lpm_key key m) (\<lambda>(key_len, key_data).
            lpm_put mk m key_len key_data (rd value (lpm_value_size m)) flags (lpm_root m)) of
          Inl f \<Rightarrow> (Inl f, m)
        | Inr (t, grew) \<Rightarrow>
            (Inr (), m\<lparr>lpm_root := t,
                       lpm_n_entries := (if grew then w64 (lpm_n_entries m + 1) else lpm_n_entries m)\<rparr>)))"

text \<open>The walk of \<open>elem_delete\<close>, and the node marked intermediate.\<close>

primrec lpm_remove :: "lpm_map \<Rightarrow> nat \<Rightarrow> bytes \<Rightarrow> lpm_trie \<Rightarrow> lpm_trie option" where
  "lpm_remove m key_len key_data LNil = None"
| "lpm_remove m key_len key_data (LNode pl im d c0 c1) =
     (let matchlen = longest_prefix_match (lpm_data_size m) pl d key_len key_data in
      if pl \<noteq> matchlen \<or> pl = key_len then
        if pl \<noteq> key_len \<or> matchlen \<noteq> pl \<or> im then None
        else Some (LNode pl True (lpm_resize (lpm_data_size m) d) c0 c1)
      else if lpm_extract_bit (lpm_data_size m) key_data pl
      then map_option (\<lambda>c. LNode pl im d c0 c) (lpm_remove m key_len key_data c1)
      else map_option (\<lambda>c. LNode pl im d c c1) (lpm_remove m key_len key_data c0))"

definition lpm_elem_delete :: "ptr \<Rightarrow> lpm_map \<Rightarrow> unit res \<times> lpm_map" where
  "lpm_elem_delete key m =
     (if key = None then (Inl (Errno EINVAL), m)
      else (case lpm_key key m of
          Inl f \<Rightarrow> (Inl f, m)
        | Inr (key_len, key_data) \<Rightarrow> (case lpm_remove m key_len key_data (lpm_root m) of
              None \<Rightarrow> (Inl (Errno ENOENT), m)
            | Some t \<Rightarrow> (Inr (), m\<lparr>lpm_root := t,
                lpm_n_entries := (if lpm_n_entries m > 0 then lpm_n_entries m - 1 else 0)\<rparr>))))"

text \<open>\<open>map_get_next_key\<close>: the first entry on the leftmost path, for a null key only.\<close>

primrec lpm_leftmost :: "lpm_trie \<Rightarrow> lpm_trie" where
  "lpm_leftmost LNil = LNil"
| "lpm_leftmost (LNode pl im d c0 c1) =
     (if \<not> im then LNode pl im d c0 c1
      else if c0 \<noteq> LNil then lpm_leftmost c0 else lpm_leftmost c1)"

definition lpm_map_get_next_key :: "ptr \<Rightarrow> outbuf \<Rightarrow> lpm_map \<Rightarrow> bytes res" where
  "lpm_map_get_next_key key next_key m =
     (if next_key = None then Inl (Errno EINVAL)
      else if lpm_root m = LNil then Inl (Errno ENOENT)
      else if key = None then
        (case lpm_leftmost (lpm_root m) of
            LNil \<Rightarrow> Inl (Errno ENOENT)
          | LNode pl im d c0 c1 \<Rightarrow>
              copy_out next_key (and_then (load 0 (lpm_data_size m) d) (\<lambda>p. Inr (le_bytes 4 pl @ p))))
      else Inl (Errno ENOENT))"

definition lpm_map_push_elem :: "ptr \<Rightarrow> nat \<Rightarrow> lpm_map \<Rightarrow> unit res" where
  "lpm_map_push_elem value flags m = Inl (Errno ENOTSUP)"

definition lpm_map_pop_elem :: "outbuf \<Rightarrow> lpm_map \<Rightarrow> bytes res" where
  "lpm_map_pop_elem value m = Inl (Errno ENOTSUP)"

definition lpm_map_peek_elem :: "outbuf \<Rightarrow> lpm_map \<Rightarrow> bytes res" where
  "lpm_map_peek_elem value m = Inl (Errno ENOTSUP)"

subsection \<open>Prefixes as bit lists\<close>

definition nbits :: "nat \<Rightarrow> nat \<Rightarrow> bytes \<Rightarrow> bool list" where
  "nbits ds pl d = map (lpm_extract_bit ds d) [0..<pl]"

fun lcp :: "'a list \<Rightarrow> 'a list \<Rightarrow> nat" where
  "lcp (x # xs) (y # ys) = (if x = y then Suc (lcp xs ys) else 0)"
| "lcp _ _ = 0"

lemma length_nbits [simp]: "length (nbits ds pl d) = pl"
  by (simp add: nbits_def)

lemma nth_nbits: "i < pl \<Longrightarrow> nbits ds pl d ! i = lpm_extract_bit ds d i"
  by (simp add: nbits_def)

lemma take_nbits: "n \<le> pl \<Longrightarrow> take n (nbits ds pl d) = nbits ds n d"
  by (simp add: nbits_def take_map)

lemma nbits_take_eq: "take ds d = take ds d' \<Longrightarrow> nbits ds pl d = nbits ds pl d'"
proof -
  assume t: "take ds d = take ds d'"
  have "d ! (i div 8) = d' ! (i div 8)" if "i < ds * 8" for i
  proof -
    have "i div 8 < ds" using that by (simp add: div_less_iff_less_mult mult.commute)
    then show ?thesis using t by (metis nth_take)
  qed
  then show ?thesis by (auto simp: nbits_def lpm_extract_bit_def)
qed

lemma lcp_le: "lcp xs ys \<le> length xs" "lcp xs ys \<le> length ys"
  by (induction xs ys rule: lcp.induct) auto

lemma lcp_prefix: "lcp xs ys = length xs \<longleftrightarrow> prefix xs ys"
  by (induction xs ys rule: lcp.induct) auto

lemma lcp_commute: "lcp xs ys = lcp ys xs"
  by (induction xs ys rule: lcp.induct) auto

lemma lcp_take: "take (lcp xs ys) xs = take (lcp xs ys) ys"
  by (induction xs ys rule: lcp.induct) auto

lemma lcp_differ: "lcp xs ys < length xs \<Longrightarrow> lcp xs ys < length ys \<Longrightarrow> xs ! lcp xs ys \<noteq> ys ! lcp xs ys"
  by (induction xs ys rule: lcp.induct) (auto split: if_splits)

lemma lcp_ge: "prefix p xs \<Longrightarrow> prefix p ys \<Longrightarrow> length p \<le> lcp xs ys"
proof (induction p arbitrary: xs ys)
  case Nil
  then show ?case by simp
next
  case (Cons a p)
  then show ?case by (cases xs; cases ys) auto
qed

lemma takeWhile_lcp:
  "length (takeWhile (\<lambda>i. f i = g i) [a..<a + min n m]) = lcp (map f [a..<a + n]) (map g [a..<a + m])"
proof (induction n arbitrary: a m)
  case 0
  then show ?case by simp
next
  case (Suc n)
  show ?case
  proof (cases m)
    case 0
    then show ?thesis by (simp del: upt_Suc)
  next
    case (Suc m')
    have c: "[a..<a + Suc j] = a # [Suc a..<Suc a + j]" for j by (simp add: upt_conv_Cons del: upt_Suc)
    show ?thesis using Suc.IH [of "Suc a" m'] Suc unfolding Suc min_Suc_Suc c by simp
  qed
qed

lemma longest_prefix_match_lcp:
  "longest_prefix_match ds pl d kl kd = lcp (nbits ds pl d) (nbits ds kl kd)"
  using takeWhile_lcp [of "lpm_extract_bit ds d" "lpm_extract_bit ds kd" 0 pl kl]
  by (simp add: longest_prefix_match_def nbits_def)

lemma prefix_snoc_nth:
  "prefix xs ys \<Longrightarrow> length xs < length ys \<Longrightarrow> prefix (xs @ [b]) ys \<longleftrightarrow> ys ! length xs = b"
  by (auto simp: prefix_def nth_append) (metis append_Cons append_Nil append_eq_append_conv2
      append_self_conv list.exhaust nth_append_length length_append less_irrefl add_0_right list.size(3))

subsection \<open>Well-formed tries and their entries\<close>

primrec lpm_wf :: "nat \<Rightarrow> nat \<Rightarrow> bool list \<Rightarrow> lpm_trie \<Rightarrow> bool" where
  "lpm_wf ds vs p LNil = True"
| "lpm_wf ds vs p (LNode pl im d c0 c1) =
     (pl \<le> ds * 8 \<and> length d = (if im then ds else ds + vs) \<and> prefix p (nbits ds pl d) \<and>
      lpm_wf ds vs (nbits ds pl d @ [False]) c0 \<and> lpm_wf ds vs (nbits ds pl d @ [True]) c1)"

primrec lpm_entries :: "nat \<Rightarrow> lpm_trie \<Rightarrow> (bool list \<times> bytes) list" where
  "lpm_entries ds LNil = []"
| "lpm_entries ds (LNode pl im d c0 c1) =
     (if im then [] else [(nbits ds pl d, drop ds d)]) @ lpm_entries ds c0 @ lpm_entries ds c1"

text \<open>No node of full prefix length is intermediate; only a deletion makes one.\<close>

primrec lpm_full_real :: "nat \<Rightarrow> lpm_trie \<Rightarrow> bool" where
  "lpm_full_real ds LNil = True"
| "lpm_full_real ds (LNode pl im d c0 c1) =
     ((im \<longrightarrow> pl \<noteq> ds * 8) \<and> lpm_full_real ds c0 \<and> lpm_full_real ds c1)"

lemma lpm_entries_prefix:
  "lpm_wf ds vs p t \<Longrightarrow> (q, v) \<in> set (lpm_entries ds t) \<Longrightarrow> prefix p q"
proof (induction t arbitrary: p)
  case LNil
  then show ?case by simp
next
  case (LNode pl im d c0 c1)
  then show ?case
    by (auto split: if_splits) (meson append_prefixD prefix_order.trans)+
qed

lemma lpm_wf_weaken: "lpm_wf ds vs p (LNode pl im d c0 c1) \<Longrightarrow> prefix p' (nbits ds pl d) \<Longrightarrow>
   lpm_wf ds vs p' (LNode pl im d c0 c1)"
  by simp

lemma lpm_entries_node:
  assumes "lpm_wf ds vs p (LNode pl im d c0 c1)" and "(q, v) \<in> set (lpm_entries ds (LNode pl im d c0 c1))"
  shows "prefix (nbits ds pl d) q"
proof -
  have "lpm_wf ds vs (nbits ds pl d) (LNode pl im d c0 c1)" using assms(1) by simp
  then show ?thesis using lpm_entries_prefix assms(2) by blast
qed

lemma lpm_entries_distinct: "lpm_wf ds vs p t \<Longrightarrow> distinct (map fst (lpm_entries ds t))"
proof (induction t arbitrary: p)
  case LNil
  then show ?case by simp
next
  case (LNode pl im d c0 c1)
  let ?N = "nbits ds pl d"
  have c0: "prefix (?N @ [False]) q" if "q \<in> fst ` set (lpm_entries ds c0)" for q
    using that lpm_entries_prefix LNode.prems by force
  have c1: "prefix (?N @ [True]) q" if "q \<in> fst ` set (lpm_entries ds c1)" for q
    using that lpm_entries_prefix LNode.prems by force
  have "fst ` set (lpm_entries ds c0) \<inter> fst ` set (lpm_entries ds c1) = {}"
  proof (rule equals0I)
    fix q
    assume "q \<in> fst ` set (lpm_entries ds c0) \<inter> fst ` set (lpm_entries ds c1)"
    then have "prefix (?N @ [False]) q" "prefix (?N @ [True]) q" using c0 c1 by blast+
    then show False by (auto simp: prefix_def)
  qed
  moreover have "?N \<notin> fst ` set (lpm_entries ds c0)" using c0 [of ?N] by (auto simp: prefix_def)
  moreover have "?N \<notin> fst ` set (lpm_entries ds c1)" using c1 [of ?N] by (auto simp: prefix_def)
  ultimately show ?case using LNode by auto
qed

subsection \<open>Lookup finds the longest prefix\<close>

definition lpm_best :: "nat \<Rightarrow> nat \<Rightarrow> bool list \<Rightarrow> (bool list \<times> bytes) set \<Rightarrow> lpm_trie \<Rightarrow> bool" where
  "lpm_best ds vs K E r \<longleftrightarrow> (\<exists>pl d c0 c1. r = LNode pl False d c0 c1 \<and> length d = ds + vs \<and>
     (nbits ds pl d, drop ds d) \<in> E \<and> prefix (nbits ds pl d) K \<and>
     (\<forall>(q, v)\<in>E. prefix q K \<longrightarrow> length q \<le> pl))"

lemma lpm_walk_best:
  assumes kl: "kl \<le> ds * 8" and K: "K = nbits ds kl kd"
  shows "lpm_wf ds vs p t \<Longrightarrow> lpm_full_real ds t \<Longrightarrow>
    if \<exists>(q, v)\<in>set (lpm_entries ds t). prefix q K
    then lpm_best ds vs K (set (lpm_entries ds t)) (lpm_walk ds (ds * 8) kl kd t found)
    else lpm_walk ds (ds * 8) kl kd t found = found"
proof (induction t arbitrary: p found)
  case LNil
  then show ?case by simp
next
  case (LNode pl im d c0 c1)
  let ?t = "LNode pl im d c0 c1" and ?N = "nbits ds pl d"
  let ?E = "set (lpm_entries ds (LNode pl im d c0 c1))"
  have len: "length K = kl" and pl: "pl \<le> ds * 8" and ld: "length d = (if im then ds else ds + vs)"
    and w0: "lpm_wf ds vs (?N @ [False]) c0" and w1: "lpm_wf ds vs (?N @ [True]) c1"
    using K LNode.prems by auto
  have m: "longest_prefix_match ds pl d kl kd = lcp ?N K" by (simp add: longest_prefix_match_lcp K)
  have self: "lpm_best ds vs K ?E ?t" if "\<not> im" "prefix ?N K" "\<forall>(q, v)\<in>?E. prefix q K \<longrightarrow> length q \<le> pl"
    using that ld unfolding lpm_best_def by auto
  have pre: "prefix ?N q" if "(q, v) \<in> ?E" for q v
    using lpm_entries_node [OF LNode.prems(1) that] .
  show ?case
  proof (cases "prefix ?N K")
    case False
    then have "lcp ?N K \<noteq> pl" using lcp_prefix [of ?N K] by simp
    then have lt: "lcp ?N K < pl" using lcp_le(1) [of ?N K] by simp
    have "\<not> (\<exists>(q, v)\<in>?E. prefix q K)" using pre False by (auto intro: prefix_order.trans)
    moreover have "lpm_walk ds (ds * 8) kl kd ?t found = found" using m lt pl by simp
    ultimately show ?thesis by (simp only: if_False)
  next
    case True
    then have eq: "lcp ?N K = pl" and le: "pl \<le> kl"
      using lcp_prefix [of ?N K] prefix_length_le [OF True] len by simp_all
    show ?thesis
    proof (cases "pl = kl")
      case same: True
      have NK: "?N = K" using True same len by (metis length_nbits not_equal_is_parallel parallelE)
      have b: "\<forall>(q, v)\<in>?E. prefix q K \<longrightarrow> length q \<le> pl" using same len by (auto dest: prefix_length_le)
      have deep: "\<not> prefix q K" if "(q, v) \<in> set (lpm_entries ds c0) \<union> set (lpm_entries ds c1)" for q v
        using that lpm_entries_prefix [OF w0, of q v] lpm_entries_prefix [OF w1, of q v] NK
        by (auto dest!: prefix_length_le)
      show ?thesis
      proof (cases im)
        case True
        then have "pl \<noteq> ds * 8" using LNode.prems(2) by simp
        then have "lpm_walk ds (ds * 8) kl kd ?t found = found" using m eq same True by simp
        moreover have "\<not> (\<exists>(q, v)\<in>?E. prefix q K)" using deep True by auto
        ultimately show ?thesis by (simp only: if_False)
      next
        case False
        then have "lpm_walk ds (ds * 8) kl kd ?t found = ?t" using m eq same by (simp add: Let_def)
        moreover have "\<exists>(q, v)\<in>?E. prefix q K" using False NK by auto
        ultimately show ?thesis using self [OF False True b] by (simp only: if_True)
      qed
    next
      case False
      then have lt: "pl < kl" using le by simp
      let ?b = "lpm_extract_bit ds kd pl" and ?found = "if im then found else ?t"
      let ?c = "if ?b then c1 else c0"
      have Kb: "K ! pl = ?b" using lt by (simp add: K nth_nbits)
      have wk: "lpm_walk ds (ds * 8) kl kd ?t found = lpm_walk ds (ds * 8) kl kd ?c ?found"
        using m eq lt kl by (simp add: Let_def)
      have wc: "lpm_wf ds vs (?N @ [?b]) ?c" and fc: "lpm_full_real ds ?c"
        using w0 w1 LNode.prems(2) by auto
      have other: "(q, v) \<in> set (lpm_entries ds ?c) \<or> \<not> im \<and> q = ?N \<and> v = drop ds d"
        if "(q, v) \<in> ?E" "prefix q K" for q v
      proof -
        have "prefix (?N @ [b]) q \<Longrightarrow> b = ?b" for b
          using that(2) prefix_snoc_nth [OF True, of b] lt len Kb by (metis length_nbits prefix_order.trans)
        then show ?thesis
          using that(1) lpm_entries_prefix [OF w0, of q v] lpm_entries_prefix [OF w1, of q v]
          by (auto split: if_splits)
      qed
      have sub: "set (lpm_entries ds ?c) \<subseteq> ?E" by auto
      have IH: "if \<exists>(q, v)\<in>set (lpm_entries ds ?c). prefix q K
          then lpm_best ds vs K (set (lpm_entries ds ?c)) (lpm_walk ds (ds * 8) kl kd ?c ?found)
          else lpm_walk ds (ds * 8) kl kd ?c ?found = ?found"
        using LNode.IH(1) [OF _ , of "?N @ [?b]" ?found] LNode.IH(2) [of "?N @ [?b]" ?found] wc fc
        by (cases ?b) auto
      show ?thesis
      proof (cases "\<exists>(q, v)\<in>set (lpm_entries ds ?c). prefix q K")
        case ex: True
        then have "lpm_best ds vs K (set (lpm_entries ds ?c)) (lpm_walk ds (ds * 8) kl kd ?c ?found)"
          using IH by (simp only: if_True)
        then obtain pl' d' a0 a1 where r: "lpm_walk ds (ds * 8) kl kd ?c ?found = LNode pl' False d' a0 a1"
          "length d' = ds + vs" "(nbits ds pl' d', drop ds d') \<in> set (lpm_entries ds ?c)"
          "prefix (nbits ds pl' d') K" "\<forall>(q, v)\<in>set (lpm_entries ds ?c). prefix q K \<longrightarrow> length q \<le> pl'"
          unfolding lpm_best_def by blast
        have "prefix (?N @ [?b]) (nbits ds pl' d')" using lpm_entries_prefix [OF wc r(3)] .
        then have "pl < pl'" by (auto dest: prefix_length_le)
        then have "\<forall>(q, v)\<in>?E. prefix q K \<longrightarrow> length q \<le> pl'" using other r(5) by fastforce
        then have "lpm_best ds vs K ?E (lpm_walk ds (ds * 8) kl kd ?t found)"
          unfolding wk r(1) lpm_best_def using r(2,3,4) sub by blast
        moreover have "\<exists>(q, v)\<in>?E. prefix q K" using ex sub by blast
        ultimately show ?thesis by (simp only: if_True)
      next
        case nex: False
        then have w: "lpm_walk ds (ds * 8) kl kd ?t found = ?found" using IH wk by (simp only: if_False)
        show ?thesis
        proof (cases im)
          case True
          then have "\<not> (\<exists>(q, v)\<in>?E. prefix q K)" using other nex by blast
          then show ?thesis using w True by (simp only: if_False if_True)
        next
          case False
          have "\<forall>(q, v)\<in>?E. prefix q K \<longrightarrow> length q \<le> pl" using other nex by fastforce
          moreover have "\<exists>(q, v)\<in>?E. prefix q K" using False True by auto
          ultimately show ?thesis using self [OF False True] w False by (simp only: if_False if_True)
        qed
      qed
    qed
  qed
qed

subsection \<open>Update changes one entry\<close>

definition assign_entry :: "'k \<Rightarrow> 'v \<Rightarrow> ('k \<times> 'v) set \<Rightarrow> ('k \<times> 'v) set" where
  "assign_entry k v E = insert (k, v) {e \<in> E. fst e \<noteq> k}"

definition lpm_put_spec ::
  "nat \<Rightarrow> nat \<Rightarrow> bool list \<Rightarrow> bool list \<Rightarrow> bytes \<Rightarrow> lpm_trie \<Rightarrow> lpm_trie \<times> bool \<Rightarrow> bool"
where
  "lpm_put_spec ds vs p K v t r \<longleftrightarrow> (case r of (t', g) \<Rightarrow>
     lpm_wf ds vs p t' \<and>
     set (lpm_entries ds t') = assign_entry K v (set (lpm_entries ds t)) \<and>
     (g \<longleftrightarrow> K \<notin> fst ` set (lpm_entries ds t)) \<and>
     length (lpm_entries ds t') = length (lpm_entries ds t) + (if g then 1 else 0) \<and>
     (lpm_full_real ds t \<longrightarrow> lpm_full_real ds t'))"

lemma assign_entry_new: "k \<notin> fst ` E \<Longrightarrow> assign_entry k v E = insert (k, v) E"
  by (auto simp: assign_entry_def)

lemma lpm_put_spec_new:
  assumes "lpm_wf ds vs p t'" and "K \<notin> fst ` set (lpm_entries ds t)"
    and "set (lpm_entries ds t') = insert (K, v) (set (lpm_entries ds t))"
    and "length (lpm_entries ds t') = Suc (length (lpm_entries ds t))"
    and "lpm_full_real ds t \<Longrightarrow> lpm_full_real ds t'"
  shows "lpm_put_spec ds vs p K v t (t', True)"
  using assms by (auto simp: lpm_put_spec_def assign_entry_new)

lemma nbits_append [simp]: "length kd = ds \<Longrightarrow> nbits ds n (kd @ v) = nbits ds n kd"
  by (rule nbits_take_eq) simp

lemma lpm_wf_new [simp]:
  "length kd = ds \<Longrightarrow> length v = vs \<Longrightarrow> kl \<le> ds * 8 \<Longrightarrow>
   lpm_wf ds vs p (lpm_entry_node kl kd v) \<longleftrightarrow> prefix p (nbits ds kl kd)"
  by (simp add: lpm_entry_node_def)

lemma lpm_split_spec:
  assumes kd: "length kd = ds" and v: "length v = vs" and kl: "kl \<le> ds * 8"
    and w: "lpm_wf ds vs p (LNode pl im d c0 c1)" and pK: "prefix p (nbits ds kl kd)"
    and j: "j = lcp (nbits ds pl d) (nbits ds kl kd)" "j < pl" "j < kl"
    and r: "lpm_split mk ds kl kd (Inr v) j (LNode pl im d c0 c1) = Inr r"
  shows "lpm_put_spec ds vs p (nbits ds kl kd) v (LNode pl im d c0 c1) r"
proof -
  let ?t = "LNode pl im d c0 c1" and ?N = "nbits ds pl d" and ?K = "nbits ds kl kd"
  have ne: "?N ! j \<noteq> ?K ! j" using lcp_differ [of ?N ?K] j by simp
  have tk: "nbits ds j kd = take j ?K" "nbits ds j kd = take j ?N"
    using lcp_take [of ?N ?K] j by (simp_all add: take_nbits)
  have pN: "prefix p ?N" using w by simp
  have "length p \<le> j" using lcp_ge [OF pN pK] j(1) by simp
  then have pj: "prefix p (nbits ds j kd)"
    using pK by (metis prefix_length_prefix take_is_prefix tk(1) length_nbits)
  have nK: "prefix (nbits ds j kd @ [?K ! j]) ?K" and nN: "prefix (nbits ds j kd @ [?N ! j]) ?N"
    using prefix_snoc_nth [of "nbits ds j kd" ?K "?K ! j"] prefix_snoc_nth [of "nbits ds j kd" ?N "?N ! j"]
      tk j(2,3) take_is_prefix by (metis length_nbits)+
  have not: "?K \<notin> fst ` set (lpm_entries ds ?t)"
  proof
    assume "?K \<in> fst ` set (lpm_entries ds ?t)"
    then have "prefix ?N ?K" using lpm_entries_node [OF w] by fastforce
    then show False using lcp_prefix [of ?N ?K] j by simp
  qed
  have bit: "?K ! j = lpm_extract_bit ds kd j" using j(3) by (simp add: nth_nbits)
  have wt: "lpm_wf ds vs (nbits ds j kd @ [?N ! j]) ?t" using lpm_wf_weaken [OF w nN] .
  have wn: "lpm_wf ds vs (nbits ds j kd @ [?K ! j]) (lpm_entry_node kl kd v)" using nK kd v kl by simp
  have jle: "j < ds * 8" using j(3) kl by simp
  have "?N ! j = (\<not> lpm_extract_bit ds kd j)" using ne bit by auto
  then obtain t' where t': "r = (t', True)" and
      "lpm_wf ds vs p t' \<and> set (lpm_entries ds t') = insert (?K, v) (set (lpm_entries ds ?t)) \<and>
       length (lpm_entries ds t') = Suc (length (lpm_entries ds ?t)) \<and>
       (lpm_full_real ds ?t \<longrightarrow> lpm_full_real ds t')"
    using r wt wn pj jle kd v bit
    by (cases "lpm_extract_bit ds kd j")
       (auto simp: lpm_split_def lpm_entry_node_def Let_def insert_commute split: if_splits)
  then show ?thesis using lpm_put_spec_new [OF _ not] by blast
qed

lemma lpm_above_spec:
  assumes kd: "length kd = ds" and v: "length v = vs" and kl: "kl \<le> ds * 8"
    and w: "lpm_wf ds vs p (LNode pl im d c0 c1)" and pK: "prefix p (nbits ds kl kd)"
    and j: "lcp (nbits ds pl d) (nbits ds kl kd) = kl" "kl < pl"
    and r: "r = (if lpm_extract_bit ds d kl
                  then LNode kl False (kd @ v) LNil (LNode pl im d c0 c1)
                  else LNode kl False (kd @ v) (LNode pl im d c0 c1) LNil, True)"
  shows "lpm_put_spec ds vs p (nbits ds kl kd) v (LNode pl im d c0 c1) r"
proof -
  let ?t = "LNode pl im d c0 c1" and ?N = "nbits ds pl d" and ?K = "nbits ds kl kd"
  have KN: "prefix ?K ?N" using lcp_prefix [of ?K ?N] j by (simp add: lcp_commute)
  have bit: "?N ! kl = lpm_extract_bit ds d kl" using j(2) by (simp add: nth_nbits)
  have nN: "prefix (?K @ [?N ! kl]) ?N"
    using prefix_snoc_nth [OF KN, of "?N ! kl"] j(2) by simp
  have wt: "lpm_wf ds vs (?K @ [?N ! kl]) ?t" using lpm_wf_weaken [OF w nN] .
  have not: "?K \<notin> fst ` set (lpm_entries ds ?t)"
  proof
    assume "?K \<in> fst ` set (lpm_entries ds ?t)"
    then have "prefix ?N ?K" using lpm_entries_node [OF w] by fastforce
    then show False using j(2) prefix_length_le by fastforce
  qed
  obtain t' where t': "r = (t', True)" and
      "lpm_wf ds vs p t' \<and> set (lpm_entries ds t') = insert (?K, v) (set (lpm_entries ds ?t)) \<and>
       length (lpm_entries ds t') = Suc (length (lpm_entries ds ?t)) \<and>
       (lpm_full_real ds ?t \<longrightarrow> lpm_full_real ds t')"
    using r wt kd v kl pK bit by (cases "lpm_extract_bit ds d kl") auto
  then show ?thesis using lpm_put_spec_new [OF _ not] by blast
qed

lemma lpm_set_spec:
  assumes kd: "length kd = ds" and v: "length v = vs"
    and w: "lpm_wf ds vs p (LNode pl im d c0 c1)" and eq: "nbits ds pl d = nbits ds kl kd"
    and r: "store ds v (if im then lpm_resize (ds + vs) d else d) = Inr d'"
  shows "lpm_put_spec ds vs p (nbits ds kl kd) v (LNode pl im d c0 c1) (LNode pl False d' c0 c1, im)"
proof -
  let ?N = "nbits ds pl d"
  have d': "length d' = ds + vs" "take ds d' = take ds d" "drop ds d' = v"
    using r v w by (auto simp: store_def blk_put_def lpm_resize_def split: if_splits)
  then have N': "nbits ds pl d' = ?N" using nbits_take_eq by blast
  have c: "q \<noteq> ?N" if "(q, u) \<in> set (lpm_entries ds c0) \<union> set (lpm_entries ds c1)" for q u
    using that w lpm_entries_prefix [of ds vs "?N @ [False]" c0 q u]
      lpm_entries_prefix [of ds vs "?N @ [True]" c1 q u] by (auto dest: prefix_length_le)
  then show ?thesis
    using w d' N' unfolding eq [symmetric]
    by (auto simp: lpm_put_spec_def assign_entry_def split: if_splits) (force+)?
qed

lemma lpm_put_here_spec:
  assumes kd: "length kd = lpm_data_size m" and v: "length v = lpm_value_size m"
    and kl: "kl \<le> lpm_data_size m * 8" and ml: "lpm_max_prefixlen m = lpm_data_size m * 8"
    and w: "lpm_wf (lpm_data_size m) (lpm_value_size m) p t" and pK: "prefix p (nbits (lpm_data_size m) kl kd)"
    and stop: "\<And>pl im d c0 c1. t = LNode pl im d c0 c1 \<Longrightarrow>
      pl \<noteq> lcp (nbits (lpm_data_size m) pl d) (nbits (lpm_data_size m) kl kd) \<or> pl = kl \<or> pl = lpm_max_prefixlen m"
    and r: "lpm_put_here mk m kl kd (Inr v) flags t = Inr r"
  shows "lpm_put_spec (lpm_data_size m) (lpm_value_size m) p (nbits (lpm_data_size m) kl kd) v t r"
proof (cases t)
  case LNil
  then show ?thesis using r kd v kl pK
    by (auto simp: lpm_put_here_def lpm_put_spec_def assign_entry_def lpm_entry_node_def split: if_splits)
next
  case (LNode pl im d c0 c1)
  let ?ds = "lpm_data_size m"
  let ?N = "nbits ?ds pl d" and ?K = "nbits ?ds kl kd"
  have j: "longest_prefix_match ?ds pl d kl kd = lcp ?N ?K" by (rule longest_prefix_match_lcp)
  have jN: "lcp ?N ?K \<le> pl" and jK: "lcp ?N ?K \<le> kl" using lcp_le [of ?N ?K] by simp_all
  note wt = w [unfolded LNode]
  consider (same) "pl = kl" "lcp ?N ?K = kl" | (above) "pl \<noteq> kl" "lcp ?N ?K = kl" | (split) "lcp ?N ?K \<noteq> kl"
    by blast
  then show ?thesis
  proof cases
    case same
    then have "prefix ?N ?K" using lcp_prefix [of ?N ?K] by simp
    then have "?N = ?K" using same by (metis length_nbits not_equal_is_parallel parallelE)
    moreover obtain d' where "store ?ds v (if im then lpm_resize (?ds + lpm_value_size m) d else d) = Inr d'"
      "r = (LNode pl False d' c0 c1, im)"
      using r same j unfolding LNode lpm_put_here_def
      by (auto split: if_splits sum.splits simp: and_then_def Let_def)
    ultimately show ?thesis using lpm_set_spec [OF kd v wt] LNode by blast
  next
    case above
    then have "kl < pl" using jN by simp
    moreover have "r = (if lpm_extract_bit ?ds d kl
                  then LNode kl False (kd @ v) LNil (LNode pl im d c0 c1)
                  else LNode kl False (kd @ v) (LNode pl im d c0 c1) LNil, True)"
      using r above j unfolding LNode lpm_put_here_def by (auto simp: Let_def split: if_splits)
    ultimately show ?thesis using lpm_above_spec [OF kd v kl wt pK above(2)] LNode by blast
  next
    case split
    then have "lcp ?N ?K < kl" using jK by simp
    moreover have "lcp ?N ?K < pl" using stop [OF LNode] split jN jK kl ml by auto
    moreover have "lpm_split mk ?ds kl kd (Inr v) (lcp ?N ?K) (LNode pl im d c0 c1) = Inr r"
      using r split j unfolding LNode lpm_put_here_def by (auto simp: Let_def split: if_splits)
    ultimately show ?thesis using lpm_split_spec [OF kd v kl wt pK refl] LNode by blast
  qed
qed

lemma lpm_put_spec_child:
  assumes w: "lpm_wf ds vs p (LNode pl im d c0 c1)" and K: "prefix (nbits ds pl d @ [b]) K"
    and c: "lpm_put_spec ds vs (nbits ds pl d @ [b]) K v (if b then c1 else c0) (c, g)"
  shows "lpm_put_spec ds vs p K v (LNode pl im d c0 c1)
    (if b then LNode pl im d c0 c else LNode pl im d c c1, g)"
proof -
  let ?N = "nbits ds pl d" and ?o = "if b then c0 else c1"
  have N: "?N \<noteq> K" using K by (auto dest: prefix_length_le)
  have wo: "lpm_wf ds vs (?N @ [\<not> b]) ?o" using w by simp
  have o: "fst e \<noteq> K" if "e \<in> set (lpm_entries ds ?o)" for e
  proof
    assume "fst e = K"
    then have "prefix (?N @ [\<not> b]) K" using lpm_entries_prefix [OF wo] that by (cases e) auto
    then show False using K by (auto simp: prefix_def)
  qed
  then show ?thesis using w c N
    by (cases b; cases im) (auto simp: lpm_put_spec_def assign_entry_def)
qed

lemma lpm_put_spec:
  assumes kd: "length kd = lpm_data_size m" and v: "length v = lpm_value_size m"
    and kl: "kl \<le> lpm_data_size m * 8" and ml: "lpm_max_prefixlen m = lpm_data_size m * 8"
  shows "lpm_wf (lpm_data_size m) (lpm_value_size m) p t \<Longrightarrow> prefix p (nbits (lpm_data_size m) kl kd) \<Longrightarrow>
    lpm_put mk m kl kd (Inr v) flags t = Inr r \<Longrightarrow>
    lpm_put_spec (lpm_data_size m) (lpm_value_size m) p (nbits (lpm_data_size m) kl kd) v t r"
proof (induction t arbitrary: p r)
  case LNil
  then show ?case using lpm_put_here_spec [OF kd v kl ml LNil(1,2)] by simp
next
  case (LNode pl im d c0 c1)
  let ?ds = "lpm_data_size m" and ?t = "LNode pl im d c0 c1"
  let ?N = "nbits ?ds pl d" and ?K = "nbits ?ds kl kd"
  have j: "longest_prefix_match ?ds pl d kl kd = lcp ?N ?K" by (rule longest_prefix_match_lcp)
  show ?case
  proof (cases "pl \<noteq> lcp ?N ?K \<or> pl = kl \<or> pl = lpm_max_prefixlen m")
    case True
    then have "lpm_put_here mk m kl kd (Inr v) flags ?t = Inr r" using LNode.prems(3) j by simp
    then show ?thesis using lpm_put_here_spec [OF kd v kl ml LNode.prems(1,2)] True by simp
  next
    case False
    let ?b = "lpm_extract_bit ?ds kd pl"
    let ?c = "if ?b then c1 else c0"
    have NK: "prefix ?N ?K" and lt: "pl < kl"
      using False lcp_prefix [of ?N ?K] lcp_le(2) [of ?N ?K] by auto
    have pb: "prefix (?N @ [?b]) ?K" using prefix_snoc_nth [OF NK, of ?b] lt by (simp add: nth_nbits)
    have "and_then (lpm_put mk m kl kd (Inr v) flags ?c)
        (\<lambda>(c, g). Inr (if ?b then LNode pl im d c0 c else LNode pl im d c c1, g)) = Inr r"
      using LNode.prems(3) False j by (cases ?b) (simp_all add: Let_def)
    then obtain c g where c: "lpm_put mk m kl kd (Inr v) flags ?c = Inr (c, g)"
      and r: "r = (if ?b then LNode pl im d c0 c else LNode pl im d c c1, g)"
      by (cases "lpm_put mk m kl kd (Inr v) flags ?c") auto
    have "lpm_put_spec ?ds (lpm_value_size m) (?N @ [?b]) ?K v ?c (c, g)"
      using LNode.IH(1) [of "?N @ [?b]" "(c, g)"] LNode.IH(2) [of "?N @ [?b]" "(c, g)"] LNode.prems(1) pb c
      by (cases ?b) simp_all
    then show ?thesis unfolding r by (rule lpm_put_spec_child [OF LNode.prems(1) pb])
  qed
qed

lemma lpm_put_succeeds:
  "lpm_wf (lpm_data_size m) (lpm_value_size m) p t \<Longrightarrow> length v = lpm_value_size m \<Longrightarrow>
   lpm_n_entries m < lpm_max_entries m \<Longrightarrow> mk 0 \<Longrightarrow> mk 1 \<Longrightarrow>
   \<exists>r. lpm_put mk m kl kd (Inr v) BPF_ANY t = Inr r"
proof (induction t arbitrary: p)
  case LNil
  then show ?case by (auto simp: lpm_put_here_def)
next
  case (LNode pl im d c0 c1)
  have here: "\<exists>r. lpm_put_here mk m kl kd (Inr v) BPF_ANY (LNode pl im d c0 c1) = Inr r"
    using LNode.prems
    by (auto simp: lpm_put_here_def lpm_split_def Let_def store_def lpm_resize_def)
  have "\<exists>r. lpm_put mk m kl kd (Inr v) BPF_ANY c0 = Inr r" "\<exists>r. lpm_put mk m kl kd (Inr v) BPF_ANY c1 = Inr r"
    using LNode.IH LNode.prems by auto
  then show ?case using here by (auto simp: Let_def)
qed

subsection \<open>Delete removes one entry\<close>

definition lpm_remove_spec :: "nat \<Rightarrow> nat \<Rightarrow> bool list \<Rightarrow> bool list \<Rightarrow> lpm_trie \<Rightarrow> lpm_trie option \<Rightarrow> bool" where
  "lpm_remove_spec ds vs p K t r \<longleftrightarrow> (case r of
     None \<Rightarrow> K \<notin> fst ` set (lpm_entries ds t)
   | Some t' \<Rightarrow> K \<in> fst ` set (lpm_entries ds t) \<and> lpm_wf ds vs p t' \<and>
       set (lpm_entries ds t') = {e \<in> set (lpm_entries ds t). fst e \<noteq> K} \<and>
       length (lpm_entries ds t) = Suc (length (lpm_entries ds t')) \<and>
       (lpm_full_real ds t \<longrightarrow> length K < ds * 8 \<longrightarrow> lpm_full_real ds t'))"

lemma lpm_remove_spec_child:
  assumes w: "lpm_wf ds vs p (LNode pl im d c0 c1)" and K: "prefix (nbits ds pl d @ [b]) K"
    and c: "lpm_remove_spec ds vs (nbits ds pl d @ [b]) K (if b then c1 else c0) r"
  shows "lpm_remove_spec ds vs p K (LNode pl im d c0 c1)
    (map_option (\<lambda>c. if b then LNode pl im d c0 c else LNode pl im d c c1) r)"
proof -
  let ?N = "nbits ds pl d" and ?o = "if b then c0 else c1"
  have N: "?N \<noteq> K" using K by (auto dest: prefix_length_le)
  have wo: "lpm_wf ds vs (?N @ [\<not> b]) ?o" using w by simp
  have o: "fst e \<noteq> K" if "e \<in> set (lpm_entries ds ?o)" for e
  proof
    assume "fst e = K"
    then have "prefix (?N @ [\<not> b]) K" using lpm_entries_prefix [OF wo] that by (cases e) auto
    then show False using K by (auto simp: prefix_def)
  qed
  then show ?thesis using w c N
    by (cases b; cases im; cases r) (auto simp: lpm_remove_spec_def)
qed

lemma lpm_remove_spec:
  assumes kd: "length kd = lpm_data_size m"
  shows "lpm_wf (lpm_data_size m) vs p t \<Longrightarrow>
    lpm_remove_spec (lpm_data_size m) vs p (nbits (lpm_data_size m) kl kd) t (lpm_remove m kl kd t)"
proof (induction t arbitrary: p)
  case LNil
  then show ?case by (simp add: lpm_remove_spec_def)
next
  case (LNode pl im d c0 c1)
  let ?ds = "lpm_data_size m" and ?t = "LNode pl im d c0 c1"
  let ?N = "nbits ?ds pl d" and ?K = "nbits ?ds kl kd"
  have j: "longest_prefix_match ?ds pl d kl kd = lcp ?N ?K" by (rule longest_prefix_match_lcp)
  have pre: "prefix ?N q" if "q \<in> fst ` set (lpm_entries ?ds ?t)" for q
    using that lpm_entries_node [OF LNode.prems] by fastforce
  have ch: "q \<noteq> ?N" if "(q, u) \<in> set (lpm_entries ?ds c0) \<union> set (lpm_entries ?ds c1)" for q u
    using that LNode.prems lpm_entries_prefix [of ?ds vs "?N @ [False]" c0 q u]
      lpm_entries_prefix [of ?ds vs "?N @ [True]" c1 q u] by (auto dest: prefix_length_le)
  consider (off) "\<not> prefix ?N ?K" | (here) "?N = ?K" "pl = kl" | (down) "prefix ?N ?K" "pl < kl"
    by (metis le_neq_implies_less length_nbits not_equal_is_parallel parallelE prefix_length_le)
  then show ?case
  proof cases
    case off
    then have rm: "lpm_remove m kl kd ?t = None" using lcp_prefix [of ?N ?K] j by (simp add: Let_def)
    have "?K \<notin> fst ` set (lpm_entries ?ds ?t)" using off pre by blast
    then show ?thesis unfolding rm lpm_remove_spec_def option.case .
  next
    case here
    then have lcp: "lcp ?N ?K = pl" using lcp_prefix [of ?N ?K] by simp
    let ?d = "lpm_resize ?ds d"
    have d: "length ?d = ?ds" "nbits ?ds n ?d = nbits ?ds n d" for n
      using LNode.prems by (auto simp: lpm_resize_def split: if_splits intro!: nbits_take_eq)
    have rm: "lpm_remove m kl kd ?t = (if im then None else Some (LNode pl True ?d c0 c1))"
      using here j lcp by (simp add: Let_def)
    have notin: "\<And>u. (?N, u) \<notin> set (lpm_entries ?ds c0)" "\<And>u. (?N, u) \<notin> set (lpm_entries ?ds c1)"
      using ch by blast+
    show ?thesis unfolding rm here(1) [symmetric] using d LNode.prems notin
      by (cases im) (auto simp: lpm_remove_spec_def)
  next
    case down
    let ?b = "lpm_extract_bit ?ds kd pl"
    let ?c = "if ?b then c1 else c0"
    have pb: "prefix (?N @ [?b]) ?K" using prefix_snoc_nth [OF down(1), of ?b] down(2) by (simp add: nth_nbits)
    have "lpm_remove_spec ?ds vs (?N @ [?b]) ?K ?c (lpm_remove m kl kd ?c)"
      using LNode by (cases ?b) auto
    then have "lpm_remove_spec ?ds vs p ?K ?t
        (map_option (\<lambda>c. if ?b then LNode pl im d c0 c else LNode pl im d c c1) (lpm_remove m kl kd ?c))"
      by (rule lpm_remove_spec_child [OF LNode.prems pb])
    moreover have "lpm_remove m kl kd ?t =
        map_option (\<lambda>c. if ?b then LNode pl im d c0 c else LNode pl im d c c1) (lpm_remove m kl kd ?c)"
      using down j lcp_prefix [of ?N ?K] by (cases ?b) (simp_all add: Let_def)
    ultimately show ?thesis by (simp only:)
  qed
qed

subsection \<open>The map and its abstraction\<close>

definition lpm_inv :: "lpm_map \<Rightarrow> bool" where
  "lpm_inv m \<longleftrightarrow> lpm_max_prefixlen m = lpm_data_size m * 8 \<and> lpm_max_entries m < 2 ^ 32 \<and>
     lpm_wf (lpm_data_size m) (lpm_value_size m) [] (lpm_root m) \<and>
     lpm_n_entries m = length (lpm_entries (lpm_data_size m) (lpm_root m)) \<and>
     lpm_n_entries m \<le> lpm_max_entries m"

definition lpm_full_ok :: "lpm_map \<Rightarrow> bool" where
  "lpm_full_ok m \<longleftrightarrow> lpm_full_real (lpm_data_size m) (lpm_root m)"

definition lpm_content :: "lpm_map \<Rightarrow> (bool list \<times> bytes) set" where
  "lpm_content m = set (lpm_entries (lpm_data_size m) (lpm_root m))"

text \<open>A key that can be read and whose prefix length is in range; the bits of its prefix.\<close>

definition lpm_valid_key :: "lpm_map \<Rightarrow> bytes \<Rightarrow> bool" where
  "lpm_valid_key m k \<longleftrightarrow> 4 + lpm_data_size m \<le> length k \<and> le_nat (take 4 k) \<le> lpm_data_size m * 8"

definition lpm_key_bits :: "lpm_map \<Rightarrow> bytes \<Rightarrow> bool list" where
  "lpm_key_bits m k = nbits (lpm_data_size m) (le_nat (take 4 k)) (drop 4 (take (4 + lpm_data_size m) k))"

lemma lpm_key_valid:
  "lpm_inv m \<Longrightarrow> lpm_valid_key m k \<Longrightarrow>
   lpm_key (Some k) m = Inr (le_nat (take 4 k), drop 4 (take (4 + lpm_data_size m) k))"
  by (simp add: lpm_key_def lpm_valid_key_def lpm_inv_def rd_u32_Some rd_SomeI)

lemma lpm_lookup_cases:
  assumes i: "lpm_inv m" and full: "lpm_full_ok m" and k: "lpm_valid_key m k"
  obtains (none) "lpm_elem_lookup (Some k) m = Inl (Errno ENOENT)"
      "\<And>q v. (q, v) \<in> lpm_content m \<Longrightarrow> \<not> prefix q (lpm_key_bits m k)"
  | (best) q v where "lpm_elem_lookup (Some k) m = Inr v" "(q, v) \<in> lpm_content m"
      "prefix q (lpm_key_bits m k)"
      "\<And>q' v'. (q', v') \<in> lpm_content m \<Longrightarrow> prefix q' (lpm_key_bits m k) \<Longrightarrow> length q' \<le> length q"
proof -
  let ?ds = "lpm_data_size m" and ?kl = "le_nat (take 4 k)"
  let ?kd = "drop 4 (take (4 + lpm_data_size m) k)"
  let ?w = "lpm_walk ?ds (?ds * 8) ?kl ?kd (lpm_root m) LNil"
  have w: "if \<exists>(q, v)\<in>lpm_content m. prefix q (lpm_key_bits m k)
      then lpm_best ?ds (lpm_value_size m) (lpm_key_bits m k) (lpm_content m) ?w else ?w = LNil"
    using i full k unfolding lpm_content_def lpm_inv_def lpm_full_ok_def lpm_valid_key_def lpm_key_bits_def
    by (intro lpm_walk_best [OF _ refl]) blast+
  have look: "lpm_elem_lookup (Some k) m = (case ?w of LNil \<Rightarrow> Inl (Errno ENOENT)
      | LNode pl im d c0 c1 \<Rightarrow> if im then Inl (Errno ENOENT) else load ?ds (lpm_value_size m) d)"
    using lpm_key_valid [OF i k] i by (simp add: lpm_elem_lookup_def lpm_inv_def)
  show thesis
  proof (cases "\<exists>(q, v)\<in>lpm_content m. prefix q (lpm_key_bits m k)")
    case True
    then have "lpm_best ?ds (lpm_value_size m) (lpm_key_bits m k) (lpm_content m) ?w" using w by (simp only: if_True)
    then obtain pl d c0 c1 where b: "?w = LNode pl False d c0 c1" "length d = ?ds + lpm_value_size m"
      "(nbits ?ds pl d, drop ?ds d) \<in> lpm_content m" "prefix (nbits ?ds pl d) (lpm_key_bits m k)"
      "\<forall>(q, v)\<in>lpm_content m. prefix q (lpm_key_bits m k) \<longrightarrow> length q \<le> pl"
      unfolding lpm_best_def by blast
    have "lpm_elem_lookup (Some k) m = Inr (drop ?ds d)"
      using look b(1,2) by (simp add: load_def blk_get_def)
    then show thesis using b(3,4,5) by (intro best [of "drop ?ds d" "nbits ?ds pl d"]) auto
  next
    case False
    then have "?w = LNil" using w by (simp only: if_False)
    then show thesis using look False by (intro none) auto
  qed
qed

definition lpm_update_spec :: "lpm_map \<Rightarrow> bool list \<Rightarrow> bytes \<Rightarrow> lpm_map \<Rightarrow> bool" where
  "lpm_update_spec m K v m' \<longleftrightarrow> lpm_inv m' \<and> (lpm_full_ok m \<longrightarrow> lpm_full_ok m') \<and>
     lpm_content m' = assign_entry K v (lpm_content m) \<and>
     lpm_data_size m' = lpm_data_size m \<and> lpm_value_size m' = lpm_value_size m \<and>
     lpm_max_entries m' = lpm_max_entries m"

lemma lpm_put_here_room:
  "lpm_put_here mk m kl kd val flags t = Inr (t', True) \<Longrightarrow> lpm_n_entries m < lpm_max_entries m"
  by (auto simp: lpm_put_here_def Let_def and_then_Inr_iff split: if_splits lpm_trie.splits)

lemma lpm_put_room:
  "lpm_put mk m kl kd val flags t = Inr (t', True) \<Longrightarrow> lpm_n_entries m < lpm_max_entries m"
proof (induction t arbitrary: t')
  case LNil
  then show ?case using lpm_put_here_room by simp
next
  case (LNode pl im d c0 c1)
  then show ?case
    by (auto simp: Let_def and_then_Inr_iff split: if_splits dest: lpm_put_here_room)
qed

lemma lpm_update_cases:
  assumes i: "lpm_inv m" and k: "lpm_valid_key m k" and v: "lpm_value_size m \<le> length v"
    and r: "lpm_elem_update mk (Some k) (Some v) flags m = (r, m')"
  shows "if r = Inr () then lpm_update_spec m (lpm_key_bits m k) (take (lpm_value_size m) v) m' else m' = m"
proof -
  let ?ds = "lpm_data_size m" and ?vs = "lpm_value_size m" and ?kl = "le_nat (take 4 k)"
  let ?kd = "drop 4 (take (4 + ?ds) k)" and ?v = "take (lpm_value_size m) v"
  let ?put = "lpm_put mk m ?kl ?kd (Inr ?v) flags (lpm_root m)"
  have up: "(r, m') = (if flags \<noteq> 0 \<and> flags \<noteq> 1 \<and> flags \<noteq> 2 then (Inl (Errno EINVAL), m)
      else case ?put of Inl f \<Rightarrow> (Inl f, m) | Inr (t, grew) \<Rightarrow> (Inr (), m\<lparr>lpm_root := t,
           lpm_n_entries := (if grew then w64 (lpm_n_entries m + 1) else lpm_n_entries m)\<rparr>))"
    unfolding r [symmetric] lpm_elem_update_def rd_SomeI [OF v] lpm_key_valid [OF i k] by simp
  show ?thesis
  proof (cases ?put)
    case (Inl f)
    then show ?thesis using up by (auto split: if_splits)
  next
    case (Inr tg)
    obtain t g where tg: "tg = (t, g)" by (cases tg)
    have s: "lpm_put_spec ?ds ?vs [] (lpm_key_bits m k) ?v (lpm_root m) (t, g)"
      unfolding lpm_key_bits_def
      by (rule lpm_put_spec [where mk = mk and flags = flags])
         (use i k v Inr tg in \<open>auto simp: lpm_inv_def lpm_valid_key_def\<close>)
    have "lpm_n_entries m < lpm_max_entries m" if g
      using lpm_put_room [of mk m ?kl ?kd "Inr ?v" flags "lpm_root m" t] Inr tg that by simp
    then have n: "(if g then w64 (lpm_n_entries m + 1) else lpm_n_entries m) = lpm_n_entries m + (if g then 1 else 0)"
      "lpm_n_entries m + (if g then 1 else 0) \<le> lpm_max_entries m"
      using i by (auto simp: lpm_inv_def w64_def)
    let ?m' = "m\<lparr>lpm_root := t, lpm_n_entries := lpm_n_entries m + (if g then 1 else 0)\<rparr>"
    have "lpm_update_spec m (lpm_key_bits m k) ?v ?m'"
      using s i n(2) by (simp add: lpm_update_spec_def lpm_put_spec_def lpm_inv_def lpm_full_ok_def lpm_content_def)
    then show ?thesis using up Inr tg n(1) by (auto split: if_splits)
  qed
qed

lemma lpm_delete_cases:
  assumes i: "lpm_inv m" and k: "lpm_valid_key m k"
    and r: "lpm_elem_delete (Some k) m = (r, m')"
  shows "if lpm_key_bits m k \<in> fst ` lpm_content m
    then r = Inr () \<and> lpm_inv m' \<and>
         (lpm_full_ok m \<and> le_nat (take 4 k) < lpm_data_size m * 8 \<longrightarrow> lpm_full_ok m') \<and>
         lpm_content m' = {e \<in> lpm_content m. fst e \<noteq> lpm_key_bits m k} \<and>
         lpm_data_size m' = lpm_data_size m \<and> lpm_value_size m' = lpm_value_size m \<and>
         lpm_max_entries m' = lpm_max_entries m
    else r = Inl (Errno ENOENT) \<and> m' = m"
proof -
  let ?ds = "lpm_data_size m" and ?kl = "le_nat (take 4 k)"
  let ?kd = "drop 4 (take (4 + lpm_data_size m) k)"
  have s: "lpm_remove_spec ?ds (lpm_value_size m) [] (lpm_key_bits m k) (lpm_root m)
      (lpm_remove m ?kl ?kd (lpm_root m))"
    unfolding lpm_key_bits_def
    by (rule lpm_remove_spec) (use i k in \<open>auto simp: lpm_inv_def lpm_valid_key_def\<close>)
  show ?thesis
  proof (cases "lpm_remove m ?kl ?kd (lpm_root m)")
    case None
    then show ?thesis using s r lpm_key_valid [OF i k]
      by (simp add: lpm_remove_spec_def lpm_elem_delete_def lpm_content_def)
  next
    case (Some t)
    have m': "r = Inr ()" "m' = m\<lparr>lpm_root := t, lpm_n_entries := lpm_n_entries m - 1\<rparr>"
      using r Some lpm_key_valid [OF i k] by (auto simp: lpm_elem_delete_def)
    show ?thesis unfolding m' using s i unfolding Some
      by (auto simp: lpm_remove_spec_def lpm_inv_def lpm_full_ok_def lpm_content_def lpm_key_bits_def)
  qed
qed

subsection \<open>Sequences of updates and deletions\<close>

text \<open>The value of the longest prefix of \<open>K\<close> of length at most \<open>n\<close>.\<close>

primrec match_upto :: "('a list \<rightharpoonup> 'v) \<Rightarrow> 'a list \<Rightarrow> nat \<Rightarrow> 'v option" where
  "match_upto M K 0 = M []"
| "match_upto M K (Suc n) = (case M (take (Suc n) K) of Some v \<Rightarrow> Some v | None \<Rightarrow> match_upto M K n)"

definition longest_match :: "('a list \<rightharpoonup> 'v) \<Rightarrow> 'a list \<Rightarrow> 'v option" where
  "longest_match M K = match_upto M K (length K)"

lemma match_upto_None: "(\<And>q. prefix q K \<Longrightarrow> M q = None) \<Longrightarrow> match_upto M K n = None"
  by (induction n) (simp_all add: take_is_prefix)

lemma match_upto_Some:
  assumes "M q = Some v" and "prefix q K" and "\<And>q'. prefix q' K \<Longrightarrow> M q' \<noteq> None \<Longrightarrow> length q' \<le> length q"
  shows "length q \<le> n \<Longrightarrow> n \<le> length K \<Longrightarrow> match_upto M K n = Some v"
proof (induction n)
  case 0
  then show ?case using assms(1) by simp
next
  case (Suc n)
  show ?case
  proof (cases "length q = Suc n")
    case True
    then have "take (Suc n) K = q" using assms(2) by (auto simp: prefix_def)
    then show ?thesis using assms(1) by simp
  next
    case False
    have "M (take (Suc n) K) = None"
      using assms(3) [of "take (Suc n) K"] Suc.prems False
      by (cases "M (take (Suc n) K)") (auto simp: take_is_prefix)
    then show ?thesis using Suc False by simp
  qed
qed

text \<open>
  The states a map reaches by updates and deletions, with the prefix map they amount to. A
  call that fails leaves the prefix map. Deletions of full-length prefixes are left out.
\<close>

inductive lpm_reach :: "lpm_map \<Rightarrow> (bool list \<rightharpoonup> bytes) \<Rightarrow> bool" where
  lpm_start: "lpm_new ks vs n = Inr m \<Longrightarrow> n < 2 ^ 32 \<Longrightarrow> lpm_reach m Map.empty"
| lpm_updated: "lpm_reach m M \<Longrightarrow> lpm_valid_key m k \<Longrightarrow> lpm_value_size m \<le> length v \<Longrightarrow>
    lpm_elem_update mk (Some k) (Some v) flags m = (r, m') \<Longrightarrow>
    lpm_reach m' (if r = Inr () then M(lpm_key_bits m k \<mapsto> take (lpm_value_size m) v) else M)"
| lpm_deleted: "lpm_reach m M \<Longrightarrow> lpm_valid_key m k \<Longrightarrow> le_nat (take 4 k) < lpm_data_size m * 8 \<Longrightarrow>
    lpm_elem_delete (Some k) m = (r, m') \<Longrightarrow>
    lpm_reach m' (M(lpm_key_bits m k := None))"

lemma lpm_reach_content:
  "lpm_reach m M \<Longrightarrow> lpm_inv m \<and> lpm_full_ok m \<and> (\<forall>q v. (q, v) \<in> lpm_content m \<longleftrightarrow> M q = Some v)"
proof (induction rule: lpm_reach.induct)
  case (lpm_start ks vs n m)
  then show ?case
    by (auto simp: lpm_new_def lpm_inv_def lpm_full_ok_def lpm_content_def split: if_splits)
next
  case (lpm_updated m M k v mk flags r m')
  then have "if r = Inr () then lpm_update_spec m (lpm_key_bits m k) (take (lpm_value_size m) v) m' else m' = m"
    using lpm_update_cases by blast
  then show ?case using lpm_updated.IH by (auto simp: lpm_update_spec_def assign_entry_def split: if_splits)
next
  case (lpm_deleted m M k r m')
  note d = lpm_delete_cases [OF conjunct1 [OF lpm_deleted.IH] lpm_deleted.hyps(2,4)]
  show ?case
  proof (cases "lpm_key_bits m k \<in> fst ` lpm_content m")
    case True
    then show ?thesis using d lpm_deleted.IH lpm_deleted.hyps(3) by auto
  next
    case False
    then have "M (lpm_key_bits m k) = None" using lpm_deleted.IH by (cases "M (lpm_key_bits m k)") force+
    then have "M(lpm_key_bits m k := None) = M" by auto
    then show ?thesis using d False lpm_deleted.IH by simp
  qed
qed

text \<open>
  C2. After any sequence of updates (whatever their flags, and whether or not memory is
  available) and of deletions of prefixes shorter than the full length, \<open>elem_lookup\<close> returns
  the value of the longest stored prefix of the key, where an update that returned 0 stores and
  a deletion removes exactly its own prefix, and \<open>ENOENT\<close> where no stored prefix matches.
\<close>

theorem lpm_lookup_longest_prefix:
  assumes "lpm_reach m M" and "lpm_valid_key m k"
  shows "lpm_elem_lookup (Some k) m =
    (case longest_match M (lpm_key_bits m k) of Some v \<Rightarrow> Inr v | None \<Rightarrow> Inl (Errno ENOENT))"
proof -
  have i: "lpm_inv m" "lpm_full_ok m" and c: "\<And>q v. (q, v) \<in> lpm_content m \<longleftrightarrow> M q = Some v"
    using lpm_reach_content [OF assms(1)] by auto
  show ?thesis
  proof (rule lpm_lookup_cases [OF i assms(2)])
    assume none: "lpm_elem_lookup (Some k) m = Inl (Errno ENOENT)"
      and no: "\<And>q v. (q, v) \<in> lpm_content m \<Longrightarrow> \<not> prefix q (lpm_key_bits m k)"
    have "longest_match M (lpm_key_bits m k) = None"
      unfolding longest_match_def using c no by (intro match_upto_None) (metis not_None_eq)
    then show ?thesis using none by simp
  next
    fix q v
    assume best: "lpm_elem_lookup (Some k) m = Inr v" and q: "(q, v) \<in> lpm_content m" "prefix q (lpm_key_bits m k)"
      and max: "\<And>q' v'. (q', v') \<in> lpm_content m \<Longrightarrow> prefix q' (lpm_key_bits m k) \<Longrightarrow> length q' \<le> length q"
    have "longest_match M (lpm_key_bits m k) = Some v"
      unfolding longest_match_def using c q max by (intro match_upto_Some [of _ q]) (auto dest: prefix_length_le)
    then show ?thesis using best by simp
  qed
qed

text \<open>A map of 8-bit prefixes with the entries \<open>/0\<close> and \<open>128/1\<close>.\<close>

definition lpm_ex :: "nat \<Rightarrow> lpm_trie \<Rightarrow> lpm_map" where
  "lpm_ex n t = \<lparr>lpm_key_size = 5, lpm_value_size = 1, lpm_max_entries = 4, lpm_data_size = 1,
     lpm_max_prefixlen = 8, lpm_root = t, lpm_n_entries = n\<rparr>"

lemma lpm_ex_bit: "lpm_extract_bit (Suc 0) [0x80] 0" "\<not> lpm_extract_bit (Suc 0) [0, 7] 0"
  by code_simp+

lemma lpm_ex_reach:
  "lpm_reach (lpm_ex 2 (LNode 0 False [0, 7] LNil (LNode 1 False [0x80, 9] LNil LNil))) [[] \<mapsto> [7], [True] \<mapsto> [9]]"
proof -
  have "lpm_new 5 1 4 = Inr (lpm_ex 0 LNil)"
    by (simp add: lpm_new_def lpm_ex_def LPM_KEY_SIZE_MIN_def LPM_KEY_SIZE_MAX_def)
  then have 0: "lpm_reach (lpm_ex 0 LNil) Map.empty" by (rule lpm_start) simp
  have 1: "lpm_elem_update (\<lambda>_. True) (Some [0, 0, 0, 0, 0]) (Some [7]) BPF_ANY (lpm_ex 0 LNil) =
      (Inr (), lpm_ex 1 (LNode 0 False [0, 7] LNil LNil))"
    by (simp add: lpm_elem_update_def lpm_ex_def lpm_key_def rd_u32_def rd_def lpm_put_here_def
        lpm_entry_node_def w64_def)
  have 2: "lpm_elem_update (\<lambda>_. True) (Some [1, 0, 0, 0, 0x80]) (Some [9]) BPF_ANY
        (lpm_ex 1 (LNode 0 False [0, 7] LNil LNil)) =
      (Inr (), lpm_ex 2 (LNode 0 False [0, 7] LNil (LNode 1 False [0x80, 9] LNil LNil)))"
    using lpm_ex_bit by (simp add: lpm_elem_update_def lpm_ex_def lpm_key_def rd_u32_def rd_def lpm_put_here_def
        lpm_entry_node_def w64_def longest_prefix_match_def)
  show ?thesis
    using lpm_updated [OF lpm_updated [OF 0 _ _ 1] _ _ 2] lpm_ex_bit
    by (simp add: lpm_valid_key_def lpm_key_bits_def lpm_ex_def nbits_def)
qed

theorem lpm_lookup_longest_prefix_witness:
  "lpm_elem_lookup (Some [3, 0, 0, 0, 0xC0])
     (lpm_ex 2 (LNode 0 False [0, 7] LNil (LNode 1 False [0x80, 9] LNil LNil))) = Inr [9]"
proof -
  let ?m = "lpm_ex 2 (LNode 0 False [0, 7] LNil (LNode 1 False [0x80, 9] LNil LNil))"
  have "lpm_key_bits ?m [3, 0, 0, 0, 0xC0] = [True, True, False]" by (simp add: lpm_ex_def) code_simp
  then have "longest_match [[] \<mapsto> [7], [True] \<mapsto> [9 :: byte]] (lpm_key_bits ?m [3, 0, 0, 0, 0xC0]) = Some [9]"
    by (simp add: longest_match_def numeral_2_eq_2)
  moreover have "lpm_valid_key ?m [3, 0, 0, 0, 0xC0]" by (simp add: lpm_valid_key_def lpm_ex_def)
  ultimately show ?thesis using lpm_lookup_longest_prefix [OF lpm_ex_reach, of "[3, 0, 0, 0, 0xC0]"] by simp
qed

text \<open>
  An update with \<open>BPF_ANY\<close> of a readable key and value succeeds whenever the map is not full
  and memory is available, stores the value under exactly its own prefix, and keeps the trie
  well formed with \<open>n_entries\<close> the number of its entries.
\<close>

theorem lpm_update_stores:
  assumes "lpm_inv m" and "lpm_valid_key m k" and "lpm_value_size m \<le> length v"
    and "lpm_n_entries m < lpm_max_entries m" and "mk 0" and "mk 1"
  shows "case lpm_elem_update mk (Some k) (Some v) BPF_ANY m of (r, m') \<Rightarrow>
    r = Inr () \<and> lpm_inv m' \<and>
    lpm_content m' = assign_entry (lpm_key_bits m k) (take (lpm_value_size m) v) (lpm_content m)"
proof -
  obtain r m' where u: "lpm_elem_update mk (Some k) (Some v) BPF_ANY m = (r, m')"
    by (cases "lpm_elem_update mk (Some k) (Some v) BPF_ANY m")
  obtain t where "lpm_put mk m (le_nat (take 4 k)) (drop 4 (take (4 + lpm_data_size m) k))
      (Inr (take (lpm_value_size m) v)) BPF_ANY (lpm_root m) = Inr t"
    using lpm_put_succeeds [of m "[]" "lpm_root m" "take (lpm_value_size m) v" mk "le_nat (take 4 k)"
        "drop 4 (take (4 + lpm_data_size m) k)"] assms
    by (auto simp: lpm_inv_def)
  then have "r = Inr ()"
    using u unfolding lpm_elem_update_def rd_SomeI [OF assms(3)] lpm_key_valid [OF assms(1,2)]
    by (cases t) auto
  then show ?thesis using lpm_update_cases [OF assms(1-3) u] u by (simp add: lpm_update_spec_def)
qed

theorem lpm_update_stores_witness:
  "case lpm_elem_update (\<lambda>_. True) (Some [1, 0, 0, 0, 0x80]) (Some [9]) BPF_ANY (lpm_ex 0 LNil) of (r, m') \<Rightarrow>
     r = Inr () \<and> lpm_inv m' \<and>
     lpm_content m' = assign_entry (lpm_key_bits (lpm_ex 0 LNil) [1, 0, 0, 0, 0x80]) [9] {}"
  using lpm_update_stores [of "lpm_ex 0 LNil" "[1, 0, 0, 0, 0x80]" "[9]" "\<lambda>_. True"]
  by (simp add: lpm_ex_def lpm_inv_def lpm_valid_key_def lpm_content_def)

subsection \<open>What a deletion leaves behind\<close>

lemma lpm_removed_shape:
  assumes kd: "length kd = ds" and sz: "lpm_data_size m = ds" "lpm_data_size m' = ds" "lpm_max_prefixlen m' = ds * 8"
    and kl: "kl \<le> ds * 8"
  shows "lpm_wf ds vs p t \<Longrightarrow> lpm_remove m kl kd t = Some t' \<Longrightarrow>
    (kl = ds * 8 \<longrightarrow> lpm_is_intermediate (lpm_walk ds (ds * 8) kl kd t' found) \<and>
       lpm_walk ds (ds * 8) kl kd t' found \<noteq> LNil) \<and>
    lpm_put mk m' kl kd val BPF_NOEXIST t' = Inl (Errno EEXIST)"
proof (induction t arbitrary: p t' found)
  case LNil
  then show ?case by simp
next
  case (LNode pl im d c0 c1)
  let ?N = "nbits ds pl d" and ?K = "nbits ds kl kd"
  have j: "longest_prefix_match ds pl d kl kd = lcp ?N ?K" by (rule longest_prefix_match_lcp)
  show ?case
  proof (cases "pl \<noteq> lcp ?N ?K \<or> pl = kl")
    case True
    then have h: "pl = kl" "lcp ?N ?K = kl" "t' = LNode pl True (lpm_resize ds d) c0 c1"
      using LNode.prems(2) j sz by (auto simp: Let_def split: if_splits)
    have "nbits ds pl (lpm_resize ds d) = ?N"
      using LNode.prems(1) by (intro nbits_take_eq) (auto simp: lpm_resize_def split: if_splits)
    then have "longest_prefix_match ds pl (lpm_resize ds d) kl kd = kl"
      using h by (simp add: longest_prefix_match_lcp)
    then show ?thesis using h sz by (cases "kl = ds * 8") (simp_all add: lpm_put_here_def Let_def)
  next
    case False
    let ?b = "lpm_extract_bit ds kd pl"
    have lt: "pl < kl" using False lcp_le(2) [of ?N ?K] by auto
    obtain c where c: "lpm_remove m kl kd (if ?b then c1 else c0) = Some c"
      and t': "t' = (if ?b then LNode pl im d c0 c else LNode pl im d c c1)"
      using LNode.prems(2) False j sz by (cases ?b) (auto simp: Let_def)
    have "(kl = ds * 8 \<longrightarrow> lpm_is_intermediate (lpm_walk ds (ds * 8) kl kd c f) \<and>
         lpm_walk ds (ds * 8) kl kd c f \<noteq> LNil) \<and>
       lpm_put mk m' kl kd val BPF_NOEXIST c = Inl (Errno EEXIST)" for f
      using LNode.IH(1) [of "?N @ [False]" c f] LNode.IH(2) [of "?N @ [True]" c f] LNode.prems(1) c
      by (cases ?b) auto
    then show ?thesis using t' False j sz lt kl by (cases ?b) (auto simp: Let_def)
  qed
qed

lemma lpm_delete_Some:
  assumes "lpm_inv m" and "lpm_valid_key m k" and "lpm_elem_delete (Some k) m = (Inr (), m')"
  obtains t where "lpm_remove m (le_nat (take 4 k)) (drop 4 (take (4 + lpm_data_size m) k)) (lpm_root m) = Some t"
    "m' = m\<lparr>lpm_root := t, lpm_n_entries := lpm_n_entries m - 1\<rparr>"
proof (cases "lpm_remove m (le_nat (take 4 k)) (drop 4 (take (4 + lpm_data_size m) k)) (lpm_root m)")
  case None
  then show ?thesis using assms lpm_key_valid [OF assms(1,2)] by (simp add: lpm_elem_delete_def)
next
  case (Some t)
  then show ?thesis using assms lpm_key_valid [OF assms(1,2)] that [of t]
    by (simp add: lpm_elem_delete_def split: if_splits)
qed

text \<open>
  A deleted prefix of full length hides every shorter prefix of the same key: the node stays
  in the trie as an intermediate one, the walk of \<open>elem_lookup\<close> stops at a full match before it
  looks at \<open>is_intermediate\<close>, and the lookup fails with \<open>ENOENT\<close> whatever else is stored.
\<close>

theorem lpm_full_delete_hides_shorter:
  assumes "lpm_inv m" and "lpm_valid_key m k" and "le_nat (take 4 k) = lpm_data_size m * 8"
    and "lpm_elem_delete (Some k) m = (Inr (), m')"
  shows "lpm_elem_lookup (Some k) m' = Inl (Errno ENOENT)"
proof -
  let ?kd = "drop 4 (take (4 + lpm_data_size m) k)"
  obtain t where t: "lpm_remove m (le_nat (take 4 k)) ?kd (lpm_root m) = Some t"
    "m' = m\<lparr>lpm_root := t, lpm_n_entries := lpm_n_entries m - 1\<rparr>"
    using lpm_delete_Some [OF assms(1,2,4)] .
  let ?w = "lpm_walk (lpm_data_size m) (lpm_data_size m * 8) (le_nat (take 4 k)) ?kd t LNil"
  have len: "length ?kd = lpm_data_size m" using assms(2) by (simp add: lpm_valid_key_def)
  have "lpm_is_intermediate ?w \<and> ?w \<noteq> LNil"
    using lpm_removed_shape [OF len refl refl _ _ _ t(1)] assms(1,3) by (auto simp: lpm_inv_def)
  moreover have "lpm_key (Some k) m' = Inr (le_nat (take 4 k), ?kd)"
    using lpm_key_valid [OF assms(1,2)] t(2) by (simp add: lpm_key_def cong: if_cong)
  ultimately show ?thesis using assms(1) t(2)
    by (cases ?w) (auto simp: lpm_elem_lookup_def lpm_inv_def)
qed

theorem lpm_full_delete_hides_shorter_witness:
  "\<exists>m'. ([], [7]) \<in> lpm_content m' \<and> lpm_elem_lookup (Some [8, 0, 0, 0, 0x80]) m' = Inl (Errno ENOENT)"
proof -
  let ?m = "lpm_ex 2 (LNode 0 False [0, 7] LNil (LNode 8 False [0x80, 9] LNil LNil))"
  let ?m' = "lpm_ex 1 (LNode 0 False [0, 7] LNil (LNode 8 True [0x80] LNil LNil))"
  have b: "longest_prefix_match (Suc 0) 8 [0x80, 9] 8 [0x80] = 8" by code_simp
  have "lpm_elem_delete (Some [8, 0, 0, 0, 0x80]) ?m = (Inr (), ?m')"
    using lpm_ex_bit b by (simp add: lpm_elem_delete_def lpm_ex_def lpm_key_def rd_u32_def rd_def
        longest_prefix_match_def [of _ 0] lpm_resize_def)
  moreover have "nbits (Suc 0) 8 [0x80, 9] = [True, False, False, False, False, False, False, False]"
    by code_simp
  then have "lpm_inv ?m" by (simp add: lpm_inv_def lpm_ex_def nbits_def [of _ 0])
  ultimately have "lpm_elem_lookup (Some [8, 0, 0, 0, 0x80]) ?m' = Inl (Errno ENOENT)"
    by (intro lpm_full_delete_hides_shorter [of ?m]) (simp_all add: lpm_valid_key_def lpm_ex_def)
  moreover have "([], [7]) \<in> lpm_content ?m'" by (simp add: lpm_content_def lpm_ex_def nbits_def)
  ultimately show ?thesis by blast
qed

text \<open>
  After a successful deletion of a prefix, an update of the same prefix with \<open>BPF_NOEXIST\<close>
  fails with \<open>EEXIST\<close>, although the prefix is no longer an entry: the check of the flag comes
  before the test of \<open>is_intermediate\<close>.
\<close>

theorem lpm_noexist_after_delete:
  assumes "lpm_inv m" and "lpm_valid_key m k" and "lpm_elem_delete (Some k) m = (Inr (), m')"
  shows "lpm_elem_update mk (Some k) (Some v) BPF_NOEXIST m' = (Inl (Errno EEXIST), m') \<and>
    lpm_key_bits m k \<notin> fst ` lpm_content m'"
proof -
  let ?kl = "le_nat (take 4 k)" and ?kd = "drop 4 (take (4 + lpm_data_size m) k)"
  obtain t where t: "lpm_remove m ?kl ?kd (lpm_root m) = Some t"
    "m' = m\<lparr>lpm_root := t, lpm_n_entries := lpm_n_entries m - 1\<rparr>"
    using lpm_delete_Some [OF assms] .
  have len: "length ?kd = lpm_data_size m" using assms(2) by (simp add: lpm_valid_key_def)
  have "lpm_put mk m' ?kl ?kd (rd (Some v) (lpm_value_size m)) BPF_NOEXIST t = Inl (Errno EEXIST)"
    using lpm_removed_shape [OF len refl _ _ _ _ t(1), where m' = m'] assms(1,2) t(2)
    by (auto simp: lpm_inv_def lpm_valid_key_def)
  moreover have "lpm_key (Some k) m' = Inr (?kl, ?kd)"
    using lpm_key_valid [OF assms(1,2)] t(2) by (simp add: lpm_key_def cong: if_cong)
  ultimately have "lpm_elem_update mk (Some k) (Some v) BPF_NOEXIST m' = (Inl (Errno EEXIST), m')"
    using t(2) by (simp add: lpm_elem_update_def)
  then show ?thesis using lpm_delete_cases [OF assms] by (auto split: if_splits)
qed

theorem lpm_noexist_after_delete_witness:
  "lpm_elem_update (\<lambda>_. True) (Some [0, 0, 0, 0, 0]) (Some [7]) BPF_NOEXIST (lpm_ex 0 (LNode 0 True [0] LNil LNil)) =
     (Inl (Errno EEXIST), lpm_ex 0 (LNode 0 True [0] LNil LNil))"
proof -
  have "lpm_elem_delete (Some [0, 0, 0, 0, 0]) (lpm_ex 1 (LNode 0 False [0, 7] LNil LNil)) =
      (Inr (), lpm_ex 0 (LNode 0 True [0] LNil LNil))"
    by (simp add: lpm_elem_delete_def lpm_ex_def lpm_key_def rd_u32_def rd_def longest_prefix_match_def lpm_resize_def)
  then show ?thesis
    using lpm_noexist_after_delete [of "lpm_ex 1 (LNode 0 False [0, 7] LNil LNil)" "[0, 0, 0, 0, 0]" _ "\<lambda>_. True"]
    by (simp add: lpm_inv_def lpm_ex_def lpm_valid_key_def)
qed

end
