(* ===== verification/Bloom_Filter.thy ===== *)
theory Bloom_Filter
  imports Bpf_Prelude
begin

text \<open>
  \<open>bloom_filter_map_impl\<close> (\<open>runtime/src/bpf_map/userspace/bloom_filter.cpp\<close>): the sizing of the
  bit array, the two hash families on 32-bit words, and the operations. The random seed drawn
  by the constructor is a parameter.

  The bit array is a power of two within its limits, every hash value is an index of it, and a
  peek returns 0 exactly when each bit of the value was set by some value pushed before.
\<close>

unbundle bit_operations_syntax

type_synonym u32 = "32 word"

datatype bloom_hash_algorithm = DJB2 | JHASH

record bloom_map =
  bf_value_size :: nat
  bf_max_entries :: nat
  bf_nr_hashes :: nat
  bf_hash_algorithm :: bloom_hash_algorithm
  bf_hash_seed :: u32
  bf_size_bits :: nat
  bf_size_bytes :: nat
  bf_mask :: u32
  bf_array :: bytes

subsection \<open>Sizing\<close>

definition bf_optimal_size :: "nat \<Rightarrow> nat \<Rightarrow> nat" where
  "bf_optimal_size max_entries nr_hashes =
     (let optimal_size = w64 (max_entries * nr_hashes * 7) div 5;
          optimal_size = (if optimal_size < 64 then 64 else optimal_size) in
      if optimal_size > 2 ^ 31 then 2 ^ 31 else optimal_size)"

text \<open>The loop doubling a \<open>size_t\<close>; on a size above \<open>2 ^ 63\<close> it would not end.\<close>

partial_function (option) bf_round_up :: "nat \<Rightarrow> nat \<Rightarrow> nat option" where
  "bf_round_up p n = (if p < n then bf_round_up (w64 (p * 2)) n else Some p)"

definition bf_new ::
  "u32 \<Rightarrow> nat \<Rightarrow> nat \<Rightarrow> nat \<Rightarrow> bloom_hash_algorithm \<Rightarrow> bloom_map res"
where
  "bf_new seed value_size max_entries nr_hashes alg =
     (if value_size = 0 \<or> max_entries = 0 then Inl Throw
      else if nr_hashes = 0 \<or> nr_hashes > 15 then Inl Throw
      else (case bf_round_up 1 (bf_optimal_size max_entries nr_hashes) of
          None \<Rightarrow> Inl UB
        | Some bits \<Rightarrow> Inr \<lparr>bf_value_size = value_size, bf_max_entries = max_entries,
            bf_nr_hashes = nr_hashes, bf_hash_algorithm = alg, bf_hash_seed = seed,
            bf_size_bits = bits, bf_size_bytes = (bits + 7) div 8,
            bf_mask = word_of_nat (bits - 1), bf_array = replicate ((bits + 7) div 8) 0\<rparr>))"

subsection \<open>Hashing\<close>

definition rol32 :: "u32 \<Rightarrow> nat \<Rightarrow> u32" where
  "rol32 x n = push_bit n x OR drop_bit (32 - n) x"

definition byte_shl :: "bytes \<Rightarrow> nat \<Rightarrow> nat \<Rightarrow> u32" where
  "byte_shl k i sh = push_bit sh (ucast (k ! i))"

definition jhash_load :: "bytes \<Rightarrow> nat \<Rightarrow> u32" where
  "jhash_load k i = byte_shl k i 0 + byte_shl k (i + 1) 8 + byte_shl k (i + 2) 16 + byte_shl k (i + 3) 24"

definition jhash_mix :: "u32 \<times> u32 \<times> u32 \<Rightarrow> u32 \<times> u32 \<times> u32" where
  "jhash_mix s = (let (a, b, c) = s;
     a = a - c; a = a XOR rol32 c 4; c = c + b;
     b = b - a; b = b XOR rol32 a 6; a = a + c;
     c = c - b; c = c XOR rol32 b 8; b = b + a;
     a = a - c; a = a XOR rol32 c 16; c = c + b;
     b = b - a; b = b XOR rol32 a 19; a = a + c;
     c = c - b; c = c XOR rol32 b 4; b = b + a in (a, b, c))"

function jhash_loop :: "nat \<Rightarrow> bytes \<Rightarrow> u32 \<times> u32 \<times> u32 \<Rightarrow> nat \<times> bytes \<times> u32 \<times> u32 \<times> u32" where
  "jhash_loop len k s =
     (if len > 12 then
        (let (a, b, c) = s in
         jhash_loop (len - 12) (drop 12 k)
           (jhash_mix (a + jhash_load k 0, b + jhash_load k 4, c + jhash_load k 8)))
      else (len, k, s))"
  by auto
termination
  by (relation "measure fst") auto

text \<open>The switch on the last bytes, whose cases fall through.\<close>

definition jhash_tail :: "nat \<Rightarrow> bytes \<Rightarrow> u32 \<times> u32 \<times> u32 \<Rightarrow> u32 \<times> u32 \<times> u32" where
  "jhash_tail len k s = (let (a, b, c) = s;
     c = (if len \<ge> 12 then c + byte_shl k 11 24 else c);
     c = (if len \<ge> 11 then c + byte_shl k 10 16 else c);
     c = (if len \<ge> 10 then c + byte_shl k 9 8 else c);
     c = (if len \<ge> 9 then c + byte_shl k 8 0 else c);
     b = (if len \<ge> 8 then b + byte_shl k 7 24 else b);
     b = (if len \<ge> 7 then b + byte_shl k 6 16 else b);
     b = (if len \<ge> 6 then b + byte_shl k 5 8 else b);
     b = (if len \<ge> 5 then b + byte_shl k 4 0 else b);
     a = (if len \<ge> 4 then a + byte_shl k 3 24 else a);
     a = (if len \<ge> 3 then a + byte_shl k 2 16 else a);
     a = (if len \<ge> 2 then a + byte_shl k 1 8 else a);
     a = (if len \<ge> 1 then a + byte_shl k 0 0 else a) in (a, b, c))"

definition jhash_final :: "u32 \<times> u32 \<times> u32 \<Rightarrow> u32" where
  "jhash_final s = (let (a, b, c) = s;
     c = c XOR b; c = c - rol32 b 14; a = a XOR c; a = a - rol32 c 11;
     b = b XOR a; b = b - rol32 a 25; c = c XOR b; c = c - rol32 b 16;
     a = a XOR c; a = a - rol32 c 4; b = b XOR a; b = b - rol32 a 14;
     c = c XOR b; c = c - rol32 b 24 in c)"

definition jhash :: "bytes \<Rightarrow> nat \<Rightarrow> u32 \<Rightarrow> u32" where
  "jhash key len initval =
     (let i = 0xdeadbeef + word_of_nat len + initval;
          (len', k, s) = jhash_loop len key (i, i, i) in
      if len' = 0 then snd (snd s) else jhash_final (jhash_tail len' k s))"

definition bf_djb2 :: "u32 \<Rightarrow> nat \<Rightarrow> bytes \<Rightarrow> u32" where
  "bf_djb2 seed hash_index data =
     (let hash = seed + word_of_nat hash_index * 0x9e3779b9;
          hash = fold (\<lambda>b h. (push_bit 5 h + h) + ucast b) data hash;
          hash = hash XOR drop_bit 16 hash; hash = hash * 0x85ebca6b;
          hash = hash XOR drop_bit 13 hash; hash = hash * 0xc2b2ae35 in
      hash XOR drop_bit 16 hash)"

definition bf_hash_value :: "bytes \<Rightarrow> nat \<Rightarrow> bloom_map \<Rightarrow> nat" where
  "bf_hash_value v hash_index m =
     unat ((case bf_hash_algorithm m of
        JHASH \<Rightarrow> jhash v (bf_value_size m) (bf_hash_seed m + word_of_nat hash_index)
      | DJB2 \<Rightarrow> bf_djb2 (bf_hash_seed m) hash_index (take (bf_value_size m) v)) AND bf_mask m)"

subsection \<open>Operations\<close>

definition bf_set_bit :: "nat \<Rightarrow> bloom_map \<Rightarrow> bloom_map" where
  "bf_set_bit i m =
     (if i div 8 < length (bf_array m)
      then m\<lparr>bf_array := (bf_array m)[i div 8 := bf_array m ! (i div 8) OR push_bit (i mod 8) 1]\<rparr>
      else m)"

definition bf_test_bit :: "nat \<Rightarrow> bloom_map \<Rightarrow> bool" where
  "bf_test_bit i m =
     (if i div 8 < length (bf_array m) then bf_array m ! (i div 8) AND push_bit (i mod 8) 1 \<noteq> 0 else False)"

definition bf_add :: "bytes \<Rightarrow> bloom_map \<Rightarrow> bloom_map" where
  "bf_add v m = fold (\<lambda>i m'. bf_set_bit (bf_hash_value v i m') m') [0..<bf_nr_hashes m] m"

definition bf_elem_lookup :: "ptr \<Rightarrow> bloom_map \<Rightarrow> bytes res" where
  "bf_elem_lookup key m = Inl (Errno EOPNOTSUPP)"

definition bf_map_push_elem :: "ptr \<Rightarrow> nat \<Rightarrow> bloom_map \<Rightarrow> unit res \<times> bloom_map" where
  "bf_map_push_elem value flags m =
     (if value = None then (Inl (Errno EINVAL), m)
      else if flags \<noteq> BPF_ANY then (Inl (Errno EINVAL), m)
      else (case rd value (bf_value_size m) of
          Inl f \<Rightarrow> (Inl f, m)
        | Inr v \<Rightarrow> (Inr (), bf_add v m)))"

definition bf_elem_update :: "ptr \<Rightarrow> ptr \<Rightarrow> nat \<Rightarrow> bloom_map \<Rightarrow> unit res \<times> bloom_map" where
  "bf_elem_update key value flags m =
     (if value = None then (Inl (Errno EINVAL), m)
      else if flags \<noteq> BPF_ANY then (Inl (Errno EINVAL), m)
      else (case rd value (bf_value_size m) of
          Inl f \<Rightarrow> (Inl f, m)
        | Inr v \<Rightarrow> (Inr (), bf_add v m)))"

definition bf_elem_delete :: "ptr \<Rightarrow> bloom_map \<Rightarrow> unit res \<times> bloom_map" where
  "bf_elem_delete key m = (Inl (Errno EOPNOTSUPP), m)"

definition bf_map_get_next_key :: "ptr \<Rightarrow> outbuf \<Rightarrow> bloom_map \<Rightarrow> bytes res" where
  "bf_map_get_next_key key next_key m = Inl (Errno EOPNOTSUPP)"

definition bf_map_pop_elem :: "outbuf \<Rightarrow> bloom_map \<Rightarrow> bytes res \<times> bloom_map" where
  "bf_map_pop_elem value m = (Inl (Errno EOPNOTSUPP), m)"

definition bf_map_peek_elem :: "ptr \<Rightarrow> bloom_map \<Rightarrow> unit res" where
  "bf_map_peek_elem value m =
     (if value = None then Inl (Errno EINVAL)
      else and_then (rd value (bf_value_size m)) (\<lambda>v.
        if \<forall>i\<in>set [0..<bf_nr_hashes m]. bf_test_bit (bf_hash_value v i m) m then Inr ()
        else Inl (Errno ENOENT)))"

definition bf_get_value_size :: "bloom_map \<Rightarrow> nat" where
  "bf_get_value_size m = bf_value_size m"

definition bf_get_max_entries :: "bloom_map \<Rightarrow> nat" where
  "bf_get_max_entries m = bf_max_entries m"

definition bf_get_nr_hashes :: "bloom_map \<Rightarrow> nat" where
  "bf_get_nr_hashes m = bf_nr_hashes m"

subsection \<open>The size of the bit array\<close>

lemma bf_optimal_size_bounds: "64 \<le> bf_optimal_size n h" "bf_optimal_size n h \<le> 2 ^ 31"
  by (simp_all add: bf_optimal_size_def Let_def)

lemma bf_round_up_power:
  assumes "2 ^ k < n" and "n \<le> 2 ^ 31"
  shows "\<exists>j. bf_round_up (2 ^ k) n = Some (2 ^ j) \<and> n \<le> 2 ^ j \<and> 2 ^ j < 2 * n \<and> j \<le> 31"
  using assms
proof (induction "31 - k" arbitrary: k)
  case 0
  then have "(2 :: nat) ^ 31 \<le> 2 ^ k" by (intro power_increasing) auto
  then show ?case using "0.prems" by simp
next
  case (Suc d)
  have k: "k < 31" using Suc.hyps(2) by simp
  have w: "w64 (2 ^ k * 2) = 2 ^ Suc k"
  proof -
    have "(2 :: nat) ^ Suc k \<le> 2 ^ 31" using k by (intro power_increasing) auto
    then show ?thesis by (simp add: w64_def mult.commute)
  qed
  show ?case
  proof (cases "2 ^ Suc k < n")
    case True
    then show ?thesis using Suc.hyps(1) [of "Suc k"] Suc.hyps(2) Suc.prems w bf_round_up.simps [of "2 ^ k" n]
      by (auto simp: mult.commute)
  next
    case False
    then have "bf_round_up (2 ^ k) n = Some (2 ^ Suc k)"
      using Suc.prems(1) w bf_round_up.simps [of "2 ^ k" n] bf_round_up.simps [of "2 ^ Suc k" n] by simp
    then show ?thesis using False Suc.prems(1) k by (intro exI [of _ "Suc k"]) auto
  qed
qed

lemma bf_round_up_optimal:
  obtains j where "bf_round_up 1 (bf_optimal_size n h) = Some (2 ^ j)" "bf_optimal_size n h \<le> 2 ^ j"
    "6 \<le> j" "j \<le> 31"
proof -
  obtain j where j: "bf_round_up 1 (bf_optimal_size n h) = Some (2 ^ j)" "bf_optimal_size n h \<le> 2 ^ j" "j \<le> 31"
    using bf_round_up_power [of 0 "bf_optimal_size n h"] bf_optimal_size_bounds [of n h] by auto
  have "(2 :: nat) ^ 6 \<le> 2 ^ j" using j(2) bf_optimal_size_bounds(1) [of n h] by simp
  then have "6 \<le> j" by (rule power_le_imp_le_exp [rotated]) simp
  then show ?thesis using that j by blast
qed

subsection \<open>The bits\<close>

definition bf_inv :: "bloom_map \<Rightarrow> bool" where
  "bf_inv m \<longleftrightarrow> (\<exists>j. 6 \<le> j \<and> j \<le> 31 \<and> bf_size_bits m = 2 ^ j \<and> bf_mask m = word_of_nat (2 ^ j - 1) \<and>
     length (bf_array m) = 2 ^ j div 8)"

text \<open>The configuration of a filter, which no operation changes.\<close>

definition bf_conf :: "bloom_map \<Rightarrow> nat \<times> nat \<times> bloom_hash_algorithm \<times> u32 \<times> nat \<times> u32 \<times> nat" where
  "bf_conf m = (bf_value_size m, bf_nr_hashes m, bf_hash_algorithm m, bf_hash_seed m, bf_size_bits m,
     bf_mask m, length (bf_array m))"

definition bf_bits :: "bloom_map \<Rightarrow> nat set" where
  "bf_bits m = {i. bf_test_bit i m}"

definition bf_hashes :: "bytes \<Rightarrow> bloom_map \<Rightarrow> nat set" where
  "bf_hashes v m = (\<lambda>i. bf_hash_value v i m) ` {..<bf_nr_hashes m}"

lemma bf_test_bit_iff:
  "bf_test_bit i m \<longleftrightarrow> i div 8 < length (bf_array m) \<and> bit (bf_array m ! (i div 8)) (i mod 8)"
proof -
  have "w AND push_bit k 1 \<noteq> 0 \<longleftrightarrow> bit w k" if "k < 8" for w :: byte and k
  proof (cases "bit w k")
    case True
    then have "bit (w AND push_bit k 1) k" using that by (simp add: bit_simps)
    then show ?thesis using True by auto
  next
    case False
    then have "w AND push_bit k 1 = 0" by (intro bit_word_eqI) (auto simp: bit_simps)
    then show ?thesis using False by simp
  qed
  then show ?thesis by (simp add: bf_test_bit_def)
qed

lemma bf_conf_set_bit [simp]: "bf_conf (bf_set_bit i m) = bf_conf m"
  by (simp add: bf_conf_def bf_set_bit_def)

lemma bf_hash_value_conf: "bf_conf m = bf_conf m' \<Longrightarrow> bf_hash_value v i m = bf_hash_value v i m'"
  by (cases "bf_hash_algorithm m'") (auto simp: bf_conf_def bf_hash_value_def)

lemma bf_hashes_conf: "bf_conf m = bf_conf m' \<Longrightarrow> bf_hashes v m = bf_hashes v m'"
  using bf_hash_value_conf [of m m' v] by (simp add: bf_conf_def bf_hashes_def)

lemma bf_inv_conf: "bf_conf m = bf_conf m' \<Longrightarrow> bf_inv m = bf_inv m'"
  by (simp add: bf_conf_def bf_inv_def)

lemma bf_hash_value_less:
  assumes "bf_inv m"
  shows "bf_hash_value v i m < bf_size_bits m" "bf_hash_value v i m div 8 < length (bf_array m)"
proof -
  obtain j where j: "6 \<le> j" "j \<le> 31" "bf_size_bits m = 2 ^ j" "bf_mask m = word_of_nat (2 ^ j - 1)"
    "length (bf_array m) = 2 ^ j div 8" using assms unfolding bf_inv_def by blast
  have "(2 :: nat) ^ j \<le> 2 ^ 31" using j(2) by (intro power_increasing) auto
  then have "(2 :: nat) ^ j - 1 < 2 ^ LENGTH(32)" by simp
  then have "unat (bf_mask m) = 2 ^ j - 1" unfolding j(4) by (subst unsigned_of_nat) (simp add: take_bit_nat_eq_self)
  moreover have "unat (w AND bf_mask m) \<le> unat (bf_mask m)" for w :: u32
    using word_and_le1 [of w "bf_mask m"] by (simp add: word_le_nat_alt)
  ultimately have "bf_hash_value v i m \<le> 2 ^ j - 1" by (metis bf_hash_value_def)
  moreover have "(0 :: nat) < 2 ^ j" by simp
  ultimately have l: "bf_hash_value v i m < 2 ^ j" by linarith
  then show "bf_hash_value v i m < bf_size_bits m" using j(3) by simp
  have "(2 :: nat) ^ j = 8 * 2 ^ (j - 3)" using j(1) power_add [of "2 :: nat" 3 "j - 3"] by simp
  then show "bf_hash_value v i m div 8 < length (bf_array m)" using l j(5) by simp
qed

lemma bf_bits_set_bit:
  assumes "i div 8 < length (bf_array m)"
  shows "bf_bits (bf_set_bit i m) = insert i (bf_bits m)"
proof -
  have "bf_test_bit x (bf_set_bit i m) \<longleftrightarrow> x = i \<or> bf_test_bit x m" for x
  proof (cases "x div 8 = i div 8")
    case True
    have "x = i \<longleftrightarrow> x mod 8 = i mod 8" using True by (metis div_mod_decomp)
    then show ?thesis using assms True by (auto simp: bf_test_bit_iff bf_set_bit_def bit_simps)
  next
    case False
    then show ?thesis using assms by (auto simp: bf_test_bit_iff bf_set_bit_def)
  qed
  then show ?thesis by (auto simp: bf_bits_def)
qed

lemma bf_add_bits:
  assumes "bf_inv m"
  shows "bf_conf (bf_add v m) = bf_conf m" "bf_bits (bf_add v m) = bf_bits m \<union> bf_hashes v m"
proof -
  let ?f = "\<lambda>i m'. bf_set_bit (bf_hash_value v i m') m'"
  have *: "bf_conf (fold ?f is m') = bf_conf m \<and>
      bf_bits (fold ?f is m') = bf_bits m' \<union> (\<lambda>i. bf_hash_value v i m) ` set is"
    if "bf_conf m' = bf_conf m" for "is" m'
    using that
  proof (induction "is" arbitrary: m')
    case Nil
    then show ?case by simp
  next
    case (Cons i "is")
    have "bf_bits (?f i m') = insert (bf_hash_value v i m) (bf_bits m')"
      using bf_bits_set_bit bf_hash_value_less(2) bf_inv_conf [OF Cons.prems] bf_hash_value_conf [OF Cons.prems] assms
      by metis
    then show ?case using Cons by simp
  qed
  show "bf_conf (bf_add v m) = bf_conf m" "bf_bits (bf_add v m) = bf_bits m \<union> bf_hashes v m"
    using * [OF refl, of "[0..<bf_nr_hashes m]"] by (simp_all add: bf_add_def bf_hashes_def atLeast0LessThan)
qed

lemma bf_new_inv:
  assumes "bf_new seed vs n h alg = Inr m"
  shows "bf_inv m" "bf_bits m = {}" "bf_value_size m = vs" "bf_nr_hashes m = h" "0 < h" "h \<le> 15"
    "bf_optimal_size n h \<le> bf_size_bits m"
proof -
  obtain j where j: "bf_round_up 1 (bf_optimal_size n h) = Some (2 ^ j)" "bf_optimal_size n h \<le> 2 ^ j"
    "6 \<le> j" "j \<le> 31" using bf_round_up_optimal .
  have "(2 :: nat) ^ j = 8 * 2 ^ (j - 3)" using j(3) power_add [of "2 :: nat" 3 "j - 3"] by simp
  then have "(2 ^ j + 7) div 8 = (2 :: nat) ^ j div 8" by simp
  then show "bf_inv m" "bf_bits m = {}" "bf_value_size m = vs" "bf_nr_hashes m = h" "0 < h" "h \<le> 15"
    "bf_optimal_size n h \<le> bf_size_bits m"
    using assms j by (auto simp: bf_new_def bf_inv_def bf_bits_def bf_test_bit_iff split: if_splits)
qed

subsection \<open>Sequences of operations\<close>

datatype bf_op = BfPush ptr nat | BfUpdate ptr ptr nat | BfDelete ptr | BfPop outbuf

primrec bf_step :: "bf_op \<Rightarrow> bloom_map \<Rightarrow> bloom_map" where
  "bf_step (BfPush v f) m = snd (bf_map_push_elem v f m)"
| "bf_step (BfUpdate k v f) m = snd (bf_elem_update k v f m)"
| "bf_step (BfDelete k) m = snd (bf_elem_delete k m)"
| "bf_step (BfPop b) m = snd (bf_map_pop_elem b m)"

text \<open>The value an operation adds, where it is one that returns 0.\<close>

definition bf_pushed :: "nat \<Rightarrow> ptr \<Rightarrow> nat \<Rightarrow> bytes list" where
  "bf_pushed vs v f = (case rd v vs of Inr w \<Rightarrow> if f = BPF_ANY then [w] else [] | Inl _ \<Rightarrow> [])"

primrec bf_added :: "nat \<Rightarrow> bf_op \<Rightarrow> bytes list" where
  "bf_added vs (BfPush v f) = bf_pushed vs v f"
| "bf_added vs (BfUpdate k v f) = bf_pushed vs v f"
| "bf_added vs (BfDelete k) = []"
| "bf_added vs (BfPop b) = []"

lemma bf_step_eq: "bf_step x m = fold bf_add (bf_added (bf_value_size m) x) m"
  by (cases x) (auto simp: bf_map_push_elem_def bf_elem_update_def bf_elem_delete_def bf_map_pop_elem_def
    bf_pushed_def rd_def split: option.splits)

lemma bf_adds_bits:
  "bf_inv m \<Longrightarrow> bf_conf (fold bf_add ws m) = bf_conf m \<and>
   bf_bits (fold bf_add ws m) = bf_bits m \<union> (\<Union>w\<in>set ws. bf_hashes w m)"
proof (induction ws arbitrary: m)
  case Nil
  then show ?case by simp
next
  case (Cons w ws)
  have c: "bf_conf (bf_add w m) = bf_conf m" and b: "bf_bits (bf_add w m) = bf_bits m \<union> bf_hashes w m"
    using bf_add_bits [OF Cons.prems] by auto
  show ?case using Cons.IH [of "bf_add w m"] bf_inv_conf [OF c] bf_hashes_conf [OF c] c b Cons.prems by auto
qed

lemma bf_run_eq:
  "bf_inv m \<Longrightarrow> bf_value_size m = vs \<Longrightarrow>
   fold bf_step ops m = fold bf_add (concat (map (bf_added vs) ops)) m"
proof (induction ops arbitrary: m)
  case Nil
  then show ?case by simp
next
  case (Cons x ops)
  let ?m = "bf_step x m"
  have c: "bf_conf ?m = bf_conf m" using bf_adds_bits [OF Cons.prems(1)] by (simp add: bf_step_eq)
  have i: "bf_inv ?m" using bf_inv_conf [OF c] Cons.prems(1) by blast
  have v: "bf_value_size ?m = vs" using c Cons.prems(2) unfolding bf_conf_def by blast
  have "fold bf_step (x # ops) m = fold bf_add (concat (map (bf_added vs) ops)) ?m"
    using Cons.IH [OF i v] by simp
  then show ?case unfolding bf_step_eq Cons.prems(2) by simp
qed

lemma bf_peek_eq:
  assumes "bf_value_size m = vs" and "vs \<le> length v"
  shows "bf_map_peek_elem (Some v) m =
    (if bf_hashes (take vs v) m \<subseteq> bf_bits m then Inr () else Inl (Errno ENOENT))"
proof -
  have "(\<forall>i\<in>set [0..<bf_nr_hashes m]. bf_test_bit (bf_hash_value (take vs v) i m) m) \<longleftrightarrow>
      bf_hashes (take vs v) m \<subseteq> bf_bits m"
    unfolding bf_hashes_def bf_bits_def image_subset_iff by auto
  then show ?thesis
    unfolding bf_map_peek_elem_def assms(1) rd_SomeI [OF assms(2)] and_then_simps by simp
qed

text \<open>
  After any sequence of pushes, updates, deletions and pops on a new filter, \<open>map_peek_elem\<close>
  returns 0 exactly when every hash of the value is a hash of some value added by a call that
  returned 0, and fails with \<open>ENOENT\<close> otherwise.
\<close>

theorem bf_peek_exact:
  assumes "bf_new seed vs n h alg = Inr m0" and "vs \<le> length v"
  shows "bf_map_peek_elem (Some v) (fold bf_step ops m0) =
    (if bf_hashes (take vs v) m0 \<subseteq> (\<Union>x\<in>set ops. \<Union>w\<in>set (bf_added vs x). bf_hashes w m0)
     then Inr () else Inl (Errno ENOENT))"
proof -
  let ?ws = "concat (map (bf_added vs) ops)" and ?m = "fold bf_step ops m0"
  note new = bf_new_inv [OF assms(1)]
  have c: "bf_conf ?m = bf_conf m0" and b: "bf_bits ?m = (\<Union>x\<in>set ops. \<Union>w\<in>set (bf_added vs x). bf_hashes w m0)"
    using bf_adds_bits [OF new(1), of ?ws] bf_run_eq [OF new(1,3), of ops] new(2) by auto
  have vs: "bf_value_size ?m = vs" using c new(3) by (simp add: bf_conf_def)
  show ?thesis unfolding bf_peek_eq [OF vs assms(2)] bf_hashes_conf [OF c] b ..
qed

lemma bf_ex_new: "\<exists>m. bf_new 0 1 1 1 DJB2 = Inr m"
  by (rule bf_round_up_optimal [of 1 1]) (simp add: bf_new_def)

theorem bf_peek_exact_witness:
  "\<exists>m. bf_new 0 1 1 1 DJB2 = Inr m \<and> bf_map_peek_elem (Some [5]) m = Inl (Errno ENOENT) \<and>
     bf_map_peek_elem (Some [5]) (bf_step (BfPush (Some [5]) BPF_ANY) m) = Inr ()"
proof -
  obtain m where m: "bf_new 0 1 1 1 DJB2 = Inr m" using bf_ex_new by blast
  have "bf_hashes [5] m \<noteq> {}" using bf_new_inv [OF m] by (simp add: bf_hashes_def lessThan_empty_iff)
  then show ?thesis
    using m bf_peek_exact [OF m, of "[5]" "[]"] bf_peek_exact [OF m, of "[5]" "[BfPush (Some [5]) BPF_ANY]"]
    by (simp add: bf_pushed_def rd_def)
qed

text \<open>
  C8. The contract of a Bloom filter: a value added by a push or an update that returned 0 is
  found by every later peek, whatever other operations come between, with both hash families.
\<close>

theorem bf_no_false_negatives:
  assumes "bf_new seed vs n h alg = Inr m0" and "vs \<le> length v"
    and "take vs v \<in> set (bf_added vs x)"
  shows "bf_map_peek_elem (Some v) (fold bf_step (ops @ x # ops') m0) = Inr ()"
proof -
  let ?ws = "concat (map (bf_added vs) (ops @ x # ops'))" and ?m = "fold bf_step (ops @ x # ops') m0"
  note new = bf_new_inv [OF assms(1)]
  have c: "bf_conf ?m = bf_conf m0" and b: "bf_bits ?m = (\<Union>w\<in>set ?ws. bf_hashes w m0)"
    using bf_adds_bits [OF new(1), of ?ws] bf_run_eq [OF new(1,3), of "ops @ x # ops'"] new(2) by auto
  have "bf_hashes (take vs v) ?m \<subseteq> bf_bits ?m" using assms(3) b bf_hashes_conf [OF c] by auto
  moreover have "bf_value_size ?m = vs" using c new(3) by (simp add: bf_conf_def)
  ultimately show ?thesis using bf_peek_eq assms(2) by simp
qed

theorem bf_no_false_negatives_witness:
  "\<exists>m. bf_new 0 1 1 1 DJB2 = Inr m \<and>
     bf_map_peek_elem (Some [5]) (fold bf_step [BfUpdate None (Some [5]) BPF_ANY, BfDelete None, BfPush (Some [6]) BPF_ANY] m) = Inr ()"
proof -
  obtain m where m: "bf_new 0 1 1 1 DJB2 = Inr m" using bf_ex_new by blast
  show ?thesis
    using m bf_no_false_negatives [OF m, of "[5]" "BfUpdate None (Some [5]) BPF_ANY" "[]" "[BfDelete None, BfPush (Some [6]) BPF_ANY]"]
    by (simp add: bf_pushed_def rd_def)
qed

text \<open>
  A filter with valid parameters is always constructed: the doubling loop ends, the bit array
  has a power of two of bits between 64 and \<open>2 ^ 31\<close>, at least the computed optimum, and every
  hash value of either family indexes a bit of it, so the range checks of \<open>set_bit\<close> and
  \<open>test_bit\<close> never drop a bit.
\<close>

theorem bf_new_sized:
  assumes "0 < vs" and "0 < n" and "0 < h" and "h \<le> 15"
  shows "\<exists>m j. bf_new seed vs n h alg = Inr m \<and> bf_size_bits m = 2 ^ j \<and> 6 \<le> j \<and> j \<le> 31 \<and>
    bf_optimal_size n h \<le> 2 ^ j \<and> 8 * length (bf_array m) = 2 ^ j \<and>
    (\<forall>v i. bf_hash_value v i m < 8 * length (bf_array m))"
proof -
  obtain m where m: "bf_new seed vs n h alg = Inr m"
    by (rule bf_round_up_optimal [of n h]) (use assms in \<open>auto simp: bf_new_def\<close>)
  note new = bf_new_inv [OF m]
  obtain j where j: "6 \<le> j" "j \<le> 31" "bf_size_bits m = 2 ^ j" "length (bf_array m) = 2 ^ j div 8"
    using new(1) unfolding bf_inv_def by blast
  have "(2 :: nat) ^ j = 8 * 2 ^ (j - 3)" using j(1) power_add [of "2 :: nat" 3 "j - 3"] by simp
  then have "8 * length (bf_array m) = 2 ^ j" using j(4) by simp
  then show ?thesis using m j new(7) bf_hash_value_less(1) [OF new(1)] by (intro exI [of _ m] exI [of _ j]) auto
qed

theorem bf_new_sized_witness:
  "\<exists>m j. bf_new 7 4 100 5 JHASH = Inr m \<and> bf_size_bits m = 2 ^ j \<and> 700 \<le> bf_size_bits m"
  using bf_new_sized [of 4 100 5 7 JHASH] by (auto simp: bf_optimal_size_def w64_def)

end
