(* ===== verification/Ringbuf.thy ===== *)
theory Ringbuf
  imports Bpf_Prelude
begin

text \<open>
  \<open>ringbuf\<close> and \<open>ringbuf_map_impl\<close> (\<open>runtime/src/bpf_map/userspace/ringbuf_map.cpp\<close>): the
  multi-producer, single-consumer ring of variable-size records. The consumer page, the producer
  page and the data area of the raw buffer are three fields; a sample pointer is its offset in
  the data area. The page size and the callback of the consumer are parameters. A call runs
  without interleaving with another one: \<open>reserve\<close> holds the spin lock, \<open>submit\<close> is one atomic
  exchange, and there is one consumer.

  The ring is abstracted to the list of its outstanding records. Every call refines the
  corresponding operation on that list, and the consumer delivers the committed records in the
  order in which they were reserved.
\<close>

unbundle bit_operations_syntax

record ringbuf =
  rb_max_ent :: nat
  rb_consumer_pos :: nat
  rb_producer_pos :: nat
  rb_data :: bytes

definition BPF_RINGBUF_BUSY_BIT :: nat where "BPF_RINGBUF_BUSY_BIT = 2147483648"
definition BPF_RINGBUF_DISCARD_BIT :: nat where "BPF_RINGBUF_DISCARD_BIT = 1073741824"
definition BPF_RINGBUF_HDR_SZ :: nat where "BPF_RINGBUF_HDR_SZ = 8"

definition roundup_len :: "nat \<Rightarrow> nat" where
  "roundup_len len =
     (let len = w32 (push_bit 2 len); len = drop_bit 2 len; len = w32 (len + BPF_RINGBUF_HDR_SZ) in
      w32 (len + 7) div 8 * 8)"

definition rb_mask :: "ringbuf \<Rightarrow> nat" where
  "rb_mask m = dec32 (rb_max_ent m)"

text \<open>The vector of \<open>getpagesize() * 2 + max_ent * 2\<close> characters, a 32-bit sum.\<close>

definition rb_new :: "nat \<Rightarrow> nat \<Rightarrow> ringbuf res" where
  "rb_new page_size max_ent =
     (let sz = w32 (page_size * 2 + w32 (max_ent * 2)) in
      if page_size < 8 then Inl Throw
      else if sz \<le> page_size * 2 then Inl UB
      else Inr \<lparr>rb_max_ent = max_ent, rb_consumer_pos = 0, rb_producer_pos = 0,
                rb_data = replicate (sz - page_size * 2) 0\<rparr>)"

definition rb_load_len :: "nat \<Rightarrow> ringbuf \<Rightarrow> nat res" where
  "rb_load_len pos m = and_then (load (pos AND rb_mask m) 4 (rb_data m)) (\<lambda>bs. Inr (le_nat bs))"

text \<open>
  The loops of \<open>fetch_data\<close>: the inner one runs while \<open>cons_pos < prod_pos\<close>, the outer one reads
  \<open>producer_pos\<close> again as long as there was new data. \<open>cb\<close> maps the context and the bytes of a
  sample to the new context and the returned error.
\<close>

partial_function (option) rb_fetch_loop ::
  "('c \<Rightarrow> bytes \<Rightarrow> 'c \<times> int) \<Rightarrow> 'c \<Rightarrow> bool \<Rightarrow> nat \<Rightarrow> nat \<Rightarrow> nat \<Rightarrow> ringbuf \<Rightarrow>
   ((int \<times> 'c) res \<times> ringbuf) option"
where
  "rb_fetch_loop cb ctx got_new_data cnt cons_pos prod_pos m =
     (if cons_pos < prod_pos then
        (case rb_load_len cons_pos m of
           Inl f \<Rightarrow> Some (Inl f, m)
         | Inr len \<Rightarrow>
             if len AND BPF_RINGBUF_BUSY_BIT \<noteq> 0 then Some (Inr (s32 (w32 cnt), ctx), m)
             else if len AND BPF_RINGBUF_DISCARD_BIT = 0 then
               (case load ((cons_pos AND rb_mask m) + BPF_RINGBUF_HDR_SZ) len (rb_data m) of
                  Inl f \<Rightarrow> Some (Inl f, m)
                | Inr sample \<Rightarrow>
                    if snd (cb ctx sample) < 0
                    then Some (Inr (snd (cb ctx sample), fst (cb ctx sample)),
                               m\<lparr>rb_consumer_pos := w64 (cons_pos + roundup_len len)\<rparr>)
                    else rb_fetch_loop cb (fst (cb ctx sample)) True (cnt + 1)
                           (w64 (cons_pos + roundup_len len)) prod_pos
                           (m\<lparr>rb_consumer_pos := w64 (cons_pos + roundup_len len)\<rparr>))
             else rb_fetch_loop cb ctx True cnt (w64 (cons_pos + roundup_len len)) prod_pos
                    (m\<lparr>rb_consumer_pos := w64 (cons_pos + roundup_len len)\<rparr>))
      else if got_new_data then rb_fetch_loop cb ctx False cnt cons_pos (rb_producer_pos m) m
      else Some (Inr (s32 (w32 cnt), ctx), m))"

definition rb_fetch_data ::
  "('c \<Rightarrow> bytes \<Rightarrow> 'c \<times> int) \<Rightarrow> 'c \<Rightarrow> ringbuf \<Rightarrow> ((int \<times> 'c) res \<times> ringbuf) option"
where
  "rb_fetch_data cb ctx m = rb_fetch_loop cb ctx False 0 (rb_consumer_pos m) (rb_producer_pos m) m"

definition rb_has_data :: "ringbuf \<Rightarrow> bool res" where
  "rb_has_data m =
     (if rb_consumer_pos m < rb_producer_pos m then
        and_then (rb_load_len (rb_consumer_pos m) m) (\<lambda>len. Inr (len AND BPF_RINGBUF_BUSY_BIT = 0))
      else Inr False)"

text \<open>\<open>avail_size\<close> is \<open>max_ent - (prod_pos - cons_pos)\<close> at 64 bits.\<close>

definition sub64 :: "nat \<Rightarrow> nat \<Rightarrow> nat" where
  "sub64 a b = w64 (a + (2 ^ 64 - w64 b))"

definition rb_reserve :: "nat \<Rightarrow> int \<Rightarrow> ringbuf \<Rightarrow> nat res \<times> ringbuf" where
  "rb_reserve sz self_fd m =
     (if sz AND (BPF_RINGBUF_BUSY_BIT OR BPF_RINGBUF_DISCARD_BIT) \<noteq> 0 then (Inl (Errno E2BIG), m)
      else
        (let prod_pos = rb_producer_pos m;
             avail_size = sub64 (rb_max_ent m) (sub64 prod_pos (rb_consumer_pos m));
             total_size = w64 (sz + BPF_RINGBUF_HDR_SZ + 7) div 8 * 8;
             header = prod_pos AND rb_mask m in
         if total_size > rb_max_ent m then (Inl (Errno E2BIG), m)
         else if avail_size < total_size then (Inl (Errno ENOSPC), m)
         else (case and_then (store header (le_bytes 4 (sz OR BPF_RINGBUF_BUSY_BIT)) (rb_data m))
                 (store (header + 4) (le_bytes 4 (nat (self_fd mod 2 ^ 32)))) of
             Inl f \<Rightarrow> (Inl f, m)
           | Inr d \<Rightarrow> (Inr (w64 (prod_pos + BPF_RINGBUF_HDR_SZ) AND rb_mask m),
                        m\<lparr>rb_data := d, rb_producer_pos := w64 (prod_pos + total_size)\<rparr>))))"

definition rb_submit :: "nat \<Rightarrow> bool \<Rightarrow> ringbuf \<Rightarrow> unit res \<times> ringbuf" where
  "rb_submit sample discard m =
     (let hdr_offset = sub64 (w32 (rb_mask m + 1) + sample) BPF_RINGBUF_HDR_SZ;
          hdr = hdr_offset AND rb_mask m in
      case and_then (load hdr 4 (rb_data m)) (\<lambda>bs.
          (let new_len = le_nat bs AND (2 ^ 32 - 1 - BPF_RINGBUF_BUSY_BIT);
               new_len = (if discard then new_len OR BPF_RINGBUF_DISCARD_BIT else new_len) in
           store hdr (le_bytes 4 new_len) (rb_data m))) of
        Inl f \<Rightarrow> (Inl f, m)
      | Inr d \<Rightarrow> (Inr (), m\<lparr>rb_data := d\<rparr>))"

text \<open>The operations of \<open>ringbuf_map_impl\<close> that a ring buffer does not have.\<close>

definition rb_elem_lookup :: "ptr \<Rightarrow> ringbuf \<Rightarrow> bytes res" where
  "rb_elem_lookup key m = Inl (Errno ENOTSUP)"

definition rb_elem_update :: "ptr \<Rightarrow> ptr \<Rightarrow> nat \<Rightarrow> ringbuf \<Rightarrow> unit res \<times> ringbuf" where
  "rb_elem_update key value flags m = (Inl (Errno ENOTSUP), m)"

definition rb_elem_delete :: "ptr \<Rightarrow> ringbuf \<Rightarrow> unit res \<times> ringbuf" where
  "rb_elem_delete key m = (Inl (Errno ENOTSUP), m)"

definition rb_map_get_next_key :: "ptr \<Rightarrow> outbuf \<Rightarrow> ringbuf \<Rightarrow> bytes res" where
  "rb_map_get_next_key key next_key m = Inl (Errno ENOTSUP)"

text \<open>What a program does with a reserved sample: a store of \<open>bs\<close> at its pointer.\<close>

definition rb_write :: "nat \<Rightarrow> bytes \<Rightarrow> ringbuf \<Rightarrow> unit res \<times> ringbuf" where
  "rb_write sample bs m = (case store sample bs (rb_data m) of
     Inl f \<Rightarrow> (Inl f, m) | Inr d \<Rightarrow> (Inr (), m\<lparr>rb_data := d\<rparr>))"

subsection \<open>Lengths, headers and offsets\<close>

definition rb_total :: "nat \<Rightarrow> nat" where
  "rb_total sz = (sz + 15) div 8 * 8"

definition rb_hdr :: "nat \<Rightarrow> bool \<Rightarrow> bool \<Rightarrow> nat" where
  "rb_hdr sz busy discard =
     sz + (if busy then BPF_RINGBUF_BUSY_BIT else 0) + (if discard then BPF_RINGBUF_DISCARD_BIT else 0)"

lemmas rb_consts = BPF_RINGBUF_BUSY_BIT_def BPF_RINGBUF_DISCARD_BIT_def BPF_RINGBUF_HDR_SZ_def

lemma rb_total_bounds: "sz + 8 \<le> rb_total sz" "rb_total sz \<le> sz + 15" "0 < rb_total sz" "8 dvd rb_total sz"
  by (simp_all add: rb_total_def)

lemma and_exp_nat: "(n :: nat) AND 2 ^ k = 0 \<longleftrightarrow> \<not> bit n k"
  using and_exp_eq_0_iff_not_bit [of n k] by simp

lemma and_low_nat: "(n :: nat) AND (2 ^ k - 1) = n mod 2 ^ k"
  using take_bit_eq_mask [of k n] by (simp add: mask_eq_exp_minus_1 take_bit_eq_mod)

lemma or_exp_nat: "\<not> bit (n :: nat) k \<Longrightarrow> n OR 2 ^ k = n + 2 ^ k"
  using disjunctive_add_eq_or [of n "2 ^ k"] by (simp add: and_exp_nat)

lemma rb_hdr_bits:
  assumes "sz < 2 ^ 30"
  shows "bit (rb_hdr sz b d) 31 \<longleftrightarrow> b" and "bit (rb_hdr sz b d) 30 \<longleftrightarrow> d"
proof -
  have "rb_hdr sz b d div 2 ^ 31 = of_bool b"
    by (rule div_nat_eqI) (use assms in \<open>auto simp: rb_hdr_def rb_consts\<close>)
  moreover have "rb_hdr sz b d div 2 ^ 30 = 2 * of_bool b + of_bool d"
    by (rule div_nat_eqI) (use assms in \<open>auto simp: rb_hdr_def rb_consts\<close>)
  ultimately show "bit (rb_hdr sz b d) 31 \<longleftrightarrow> b" and "bit (rb_hdr sz b d) 30 \<longleftrightarrow> d"
    unfolding bit_iff_odd by simp_all
qed

lemma rb_hdr_busy: "sz < 2 ^ 30 \<Longrightarrow> rb_hdr sz b d AND BPF_RINGBUF_BUSY_BIT = 0 \<longleftrightarrow> \<not> b"
  using and_exp_nat [of "rb_hdr sz b d" 31] rb_hdr_bits(1) [of sz b d]
  by (simp add: BPF_RINGBUF_BUSY_BIT_def)

lemma rb_hdr_discard: "sz < 2 ^ 30 \<Longrightarrow> rb_hdr sz b d AND BPF_RINGBUF_DISCARD_BIT = 0 \<longleftrightarrow> \<not> d"
  using and_exp_nat [of "rb_hdr sz b d" 30] rb_hdr_bits(2) [of sz b d]
  by (simp add: BPF_RINGBUF_DISCARD_BIT_def)

lemma rb_hdr_less: "sz < 2 ^ 30 \<Longrightarrow> rb_hdr sz b d < 2 ^ 32"
  by (simp add: rb_hdr_def rb_consts)

lemma rb_hdr_reserve: "sz < 2 ^ 30 \<Longrightarrow> sz OR BPF_RINGBUF_BUSY_BIT = rb_hdr sz True False"
  using or_exp_nat [of sz 31] rb_hdr_bits(1) [of sz False False] by (simp add: rb_hdr_def rb_consts)

lemma rb_hdr_submit:
  assumes "sz < 2 ^ 30"
  shows "rb_hdr sz b False AND (2 ^ 32 - 1 - BPF_RINGBUF_BUSY_BIT) = rb_hdr sz False False"
    and "rb_hdr sz False False OR BPF_RINGBUF_DISCARD_BIT = rb_hdr sz False True"
proof -
  have "rb_hdr sz b False AND (2 ^ 31 - 1) = rb_hdr sz b False mod 2 ^ 31" by (rule and_low_nat)
  also have "\<dots> = rb_hdr sz False False" using assms by (simp add: rb_hdr_def rb_consts)
  finally show "rb_hdr sz b False AND (2 ^ 32 - 1 - BPF_RINGBUF_BUSY_BIT) = rb_hdr sz False False"
    by (simp add: rb_consts)
  show "rb_hdr sz False False OR BPF_RINGBUF_DISCARD_BIT = rb_hdr sz False True"
    using or_exp_nat [of "rb_hdr sz False False" 30] rb_hdr_bits(2) [OF assms, of False False]
    by (simp add: rb_hdr_def BPF_RINGBUF_DISCARD_BIT_def)
qed

lemma roundup_len_hdr:
  assumes "sz < 2 ^ 30"
  shows "roundup_len (rb_hdr sz False d) = rb_total sz"
proof -
  have "w32 (push_bit 2 (rb_hdr sz False d)) = sz * 4"
    using assms by (simp add: push_bit_eq_mult rb_hdr_def rb_consts w32_def)
  then show ?thesis using assms by (simp add: roundup_len_def drop_bit_eq_div rb_total_def rb_consts w32_def)
qed

text \<open>Two records within one window of \<open>M\<close> bytes do not overlap in the data area.\<close>

lemma ring_disjoint:
  assumes "p + s \<le> q" and "q + t \<le> p + M" and "0 < (t :: nat)"
  shows "p mod M + s \<le> q mod M \<or> q mod M + t \<le> p mod M"
proof (cases "q div M = p div M")
  case True
  then have "M * (p div M) + q mod M = q" by (metis mult_div_mod_eq)
  moreover have "M * (p div M) + p mod M = p" by simp
  ultimately show ?thesis using assms by linarith
next
  case False
  have M: "0 < M" using assms by linarith
  have "p div M \<le> q div M" using assms(1) by (intro div_le_mono) simp
  moreover have "q div M \<le> (p + M) div M" using assms by (intro div_le_mono) simp
  moreover have "(p + M) div M = p div M + 1" by (rule div_add_self2) (use M in simp)
  ultimately have "q div M = p div M + 1" using False by linarith
  then have "q mod M + M = q - M * (p div M)" using mult_div_mod_eq [of M q] by (simp add: algebra_simps)
  moreover have "p mod M = p - M * (p div M)" by (simp add: minus_mult_div_eq_mod)
  moreover have "M * (p div M) \<le> p" by simp
  ultimately show ?thesis using assms by linarith
qed

subsection \<open>The ring as a list of records\<close>

record rb_rec =
  rr_size :: nat
  rr_busy :: bool
  rr_discard :: bool
  rr_data :: bytes

abbreviation rr_total :: "rb_rec \<Rightarrow> nat" where
  "rr_total r \<equiv> rb_total (rr_size r)"

text \<open>The record \<open>r\<close> at position \<open>p\<close>: its header, and its data where the consumer reads it.\<close>

definition rb_at :: "nat \<Rightarrow> bytes \<Rightarrow> nat \<Rightarrow> rb_rec \<Rightarrow> bool" where
  "rb_at M d p r \<longleftrightarrow> rr_size r < 2 ^ 30 \<and> rr_total r \<le> M \<and> (rr_busy r \<longrightarrow> \<not> rr_discard r) \<and>
     blk_get (p mod M) 4 d = le_bytes 4 (rb_hdr (rr_size r) (rr_busy r) (rr_discard r)) \<and>
     blk_get (p mod M + 8) (rr_size r) d = rr_data r"

primrec rb_chain :: "nat \<Rightarrow> bytes \<Rightarrow> nat \<Rightarrow> rb_rec list \<Rightarrow> bool" where
  "rb_chain M d p [] = True"
| "rb_chain M d p (r # rs) = (rb_at M d p r \<and> rb_chain M d (p + rr_total r) rs)"

abbreviation rb_span :: "rb_rec list \<Rightarrow> nat" where
  "rb_span rs \<equiv> sum_list (map rr_total rs)"

definition rb_ok :: "ringbuf \<Rightarrow> bool" where
  "rb_ok m \<longleftrightarrow> (\<exists>k. 3 \<le> k \<and> k \<le> 30 \<and> rb_max_ent m = 2 ^ k) \<and> length (rb_data m) = 2 * rb_max_ent m"

definition rb_rep :: "ringbuf \<Rightarrow> rb_rec list \<Rightarrow> bool" where
  "rb_rep m rs \<longleftrightarrow> rb_ok m \<and> rb_chain (rb_max_ent m) (rb_data m) (rb_consumer_pos m) rs \<and>
     rb_producer_pos m = rb_consumer_pos m + rb_span rs \<and> rb_span rs \<le> rb_max_ent m \<and>
     rb_producer_pos m < 2 ^ 64 \<and> 8 dvd rb_consumer_pos m"

lemma rb_mask_and:
  assumes "rb_ok m"
  shows "p AND rb_mask m = p mod rb_max_ent m"
proof -
  obtain k where k: "k \<le> 30" "rb_max_ent m = 2 ^ k" using assms unfolding rb_ok_def by blast
  have "(2 :: nat) ^ k \<le> 2 ^ 30" using k(1) by (intro power_increasing) auto
  then have "rb_mask m = 2 ^ k - 1" unfolding rb_mask_def k(2) by (intro dec32_pos) simp_all
  then show ?thesis using and_low_nat k(2) by simp
qed

lemma rb_ok_bounds: "rb_ok m \<Longrightarrow> 8 \<le> rb_max_ent m \<and> rb_max_ent m \<le> 2 ^ 30 \<and> 8 dvd rb_max_ent m"
proof -
  assume "rb_ok m"
  then obtain k where k: "3 \<le> k" "k \<le> 30" "rb_max_ent m = 2 ^ k" unfolding rb_ok_def by blast
  have "(2 :: nat) ^ 3 dvd 2 ^ k" using k(1) by (rule le_imp_power_dvd)
  moreover have "(2 :: nat) ^ k \<le> 2 ^ 30" using k(2) by (intro power_increasing) auto
  moreover have "(2 :: nat) ^ 3 \<le> 2 ^ k" using k(1) by (intro power_increasing) auto
  ultimately show ?thesis using k(3) by simp
qed

lemma rb_chain_append:
  "rb_chain M d p (rs @ rs') \<longleftrightarrow> rb_chain M d p rs \<and> rb_chain M d (p + rb_span rs) rs'"
  by (induction rs arbitrary: p) (auto simp: add.assoc)

lemma rb_at_frame:
  assumes "rb_at M d p r" and "x + length ys \<le> length d"
    and "x + length ys \<le> p mod M \<or> p mod M + rr_total r \<le> x"
  shows "rb_at M (blk_put x ys d) p r"
proof -
  have t: "rr_size r + 8 \<le> rr_total r" by (rule rb_total_bounds)
  have "blk_get (p mod M) 4 (blk_put x ys d) = blk_get (p mod M) 4 d"
    "blk_get (p mod M + 8) (rr_size r) (blk_put x ys d) = blk_get (p mod M + 8) (rr_size r) d"
    using assms(2,3) t by (auto intro!: blk_get_put_other)
  then show ?thesis using assms(1) by (simp add: rb_at_def)
qed

text \<open>A store in a region that is disjoint from the window \<open>[p, q)\<close> keeps the records there.\<close>

lemma rb_chain_frame:
  assumes "rb_chain M d p rs" and "x + length ys \<le> length d"
    and "\<And>a u. p \<le> a \<Longrightarrow> a + u \<le> p + rb_span rs \<Longrightarrow> 0 < u \<Longrightarrow> x + length ys \<le> a mod M \<or> a mod M + u \<le> x"
  shows "rb_chain M (blk_put x ys d) p rs"
  using assms
proof (induction rs arbitrary: p)
  case Nil
  then show ?case by simp
next
  case (Cons r rs)
  have "rb_at M (blk_put x ys d) p r"
    using Cons.prems(1,2) Cons.prems(3) [of p "rr_total r"] rb_total_bounds(3) [of "rr_size r"]
    by (intro rb_at_frame) auto
  moreover have "rb_chain M (blk_put x ys d) (p + rr_total r) rs"
    using Cons.prems by (intro Cons.IH) (auto simp: add.assoc)
  ultimately show ?case by simp
qed

text \<open>
  A store at position \<open>a\<close>, within a window of \<open>M\<close> bytes with the records before and after it,
  keeps those records.
\<close>

lemma rb_chain_before:
  assumes "rb_chain M d p rs" and "a mod M + length ys \<le> length d"
    and "p + rb_span rs \<le> a" and "a + length ys \<le> p + M" and "0 < length ys"
  shows "rb_chain M (blk_put (a mod M) ys d) p rs"
proof (rule rb_chain_frame [OF assms(1,2)])
  fix b u
  assume "p \<le> b" "b + u \<le> p + rb_span rs" "0 < u"
  then show "a mod M + length ys \<le> b mod M \<or> b mod M + u \<le> a mod M"
    using ring_disjoint [of b u a "length ys" M] assms(3-5) by auto
qed

lemma rb_chain_after:
  assumes "rb_chain M d p rs" and "a mod M + length ys \<le> length d"
    and "a + length ys \<le> p" and "p + rb_span rs \<le> a + M"
  shows "rb_chain M (blk_put (a mod M) ys d) p rs"
proof (rule rb_chain_frame [OF assms(1,2)])
  fix b u
  assume "p \<le> b" "b + u \<le> p + rb_span rs" "0 < u"
  then show "a mod M + length ys \<le> b mod M \<or> b mod M + u \<le> a mod M"
    using ring_disjoint [of a "length ys" b u M] assms(3,4) by auto
qed

lemma rb_mod8:
  assumes "8 dvd p" and "8 dvd M" and "0 < (M :: nat)"
  shows "p mod M + 8 \<le> M" "i < 8 \<Longrightarrow> (p + i) mod M = p mod M + i"
proof -
  have "8 dvd p mod M" using assms(1,2) by (simp add: dvd_mod)
  then obtain x where x: "p mod M = 8 * x" by (elim dvdE)
  obtain y where y: "M = 8 * y" using assms(2) by (elim dvdE)
  have "x < y" using mod_less_divisor [OF assms(3), of p] x y by simp
  then show le: "p mod M + 8 \<le> M" using x y by simp
  show "(p + i) mod M = p mod M + i" if "i < 8"
    using mod_add_left_eq [of p M i] le that by simp
qed

lemma rb_span_dvd: "8 dvd rb_span rs"
  by (induction rs) (auto intro: dvd_add rb_total_bounds(4))

lemma rb_rep_pos:
  assumes "rb_rep m (rs1 @ r # rs2)"
  shows "8 dvd rb_consumer_pos m + rb_span rs1" "rr_total r \<le> rb_max_ent m"
    "rb_span rs1 + rr_total r + rb_span rs2 \<le> rb_max_ent m"
    "rb_at (rb_max_ent m) (rb_data m) (rb_consumer_pos m + rb_span rs1) r"
proof -
  show "8 dvd rb_consumer_pos m + rb_span rs1"
    using assms rb_span_dvd by (auto simp: rb_rep_def intro: dvd_add)
  show "rb_at (rb_max_ent m) (rb_data m) (rb_consumer_pos m + rb_span rs1) r"
    using assms by (simp add: rb_rep_def rb_chain_append)
  then show "rr_total r \<le> rb_max_ent m" by (simp add: rb_at_def)
  show "rb_span rs1 + rr_total r + rb_span rs2 \<le> rb_max_ent m" using assms by (simp add: rb_rep_def add.assoc)
qed

lemma rb_rep_update:
  assumes rep: "rb_rep m (rs1 @ r # rs2)" and pos: "pos = rb_consumer_pos m + rb_span rs1"
    and a: "pos \<le> a" "a + length ys \<le> pos + rr_total r" "0 < length ys"
    and x: "x = a mod rb_max_ent m"
    and r': "rb_at (rb_max_ent m) (blk_put x ys (rb_data m)) pos r'" "rr_size r' = rr_size r"
  shows "x + length ys \<le> length (rb_data m)" "rb_rep (m\<lparr>rb_data := blk_put x ys (rb_data m)\<rparr>) (rs1 @ r' # rs2)"
proof -
  note p = rb_rep_pos [OF rep]
  have ok: "rb_ok m" using rep by (simp add: rb_rep_def)
  have len: "length (rb_data m) = 2 * rb_max_ent m" using ok by (simp add: rb_ok_def)
  have M: "8 \<le> rb_max_ent m" using rb_ok_bounds [OF ok] by simp
  have "length ys \<le> rb_max_ent m" using a p(2) by linarith
  moreover have "x < rb_max_ent m" unfolding x using M by (intro mod_less_divisor) simp
  ultimately show le: "x + length ys \<le> length (rb_data m)" using len by linarith
  have "rb_chain (rb_max_ent m) (blk_put x ys (rb_data m)) (rb_consumer_pos m) rs1" unfolding x
    by (rule rb_chain_before) (use rep le x a p(3) pos in \<open>auto simp: rb_rep_def rb_chain_append\<close>)
  moreover have "rb_chain (rb_max_ent m) (blk_put x ys (rb_data m)) (pos + rr_total r) rs2" unfolding x
    by (rule rb_chain_after) (use rep le x a p(3) pos in \<open>auto simp: rb_rep_def rb_chain_append\<close>)
  ultimately show "rb_rep (m\<lparr>rb_data := blk_put x ys (rb_data m)\<rparr>) (rs1 @ r' # rs2)"
    using rep r' le pos by (auto simp: rb_rep_def rb_ok_def rb_chain_append)
qed

subsection \<open>Reserve, write and submit\<close>

text \<open>The pointer of the record behind \<open>rs\<close>, as \<open>reserve\<close> computes it.\<close>

definition rb_ptr :: "ringbuf \<Rightarrow> rb_rec list \<Rightarrow> nat" where
  "rb_ptr m rs = (rb_consumer_pos m + rb_span rs + 8) mod rb_max_ent m"

lemma sub64_le: "b \<le> a \<Longrightarrow> a < 2 ^ 64 \<Longrightarrow> sub64 a b = a - b"
proof -
  assume "b \<le> a" "a < 2 ^ 64"
  then have "a + (2 ^ 64 - w64 b) = (a - b) + 2 ^ 64" "a - b < 2 ^ 64" by simp_all
  then show ?thesis unfolding sub64_def w64_def by (simp only: mod_add_self2 mod_less)
qed

lemma rb_ptr_cases:
  assumes "rb_rep m (rs1 @ r # rs2)" and "pos = rb_consumer_pos m + rb_span rs1"
  shows "rb_ptr m rs1 = pos mod rb_max_ent m + 8 \<and> pos mod rb_max_ent m + 8 < rb_max_ent m \<or>
    rb_ptr m rs1 = 0 \<and> pos mod rb_max_ent m + 8 = rb_max_ent m"
proof -
  have ok: "rb_ok m" using assms by (simp add: rb_rep_def)
  have M: "8 \<le> rb_max_ent m" "8 dvd rb_max_ent m" using rb_ok_bounds [OF ok] by simp_all
  have "pos mod rb_max_ent m + 8 \<le> rb_max_ent m"
    using rb_rep_pos(1) [OF assms(1)] M assms(2) by (intro rb_mod8) auto
  moreover have "rb_ptr m rs1 = (pos mod rb_max_ent m + 8) mod rb_max_ent m"
    unfolding rb_ptr_def assms(2) by (simp add: mod_add_left_eq)
  ultimately show ?thesis by (cases "pos mod rb_max_ent m + 8 = rb_max_ent m") simp_all
qed

lemma rb_submit_refines:
  assumes rep: "rb_rep m (rs1 @ r # rs2)" and busy: "rr_busy r"
  shows "\<exists>m'. rb_submit (rb_ptr m rs1) discard m = (Inr (), m') \<and> rb_consumer_pos m' = rb_consumer_pos m \<and>
    rb_rep m' (rs1 @ r\<lparr>rr_busy := False, rr_discard := discard\<rparr> # rs2)"
proof -
  let ?M = "rb_max_ent m" and ?d = "rb_data m"
  define pos where "pos = rb_consumer_pos m + rb_span rs1"
  define ys where "ys = le_bytes 4 (rb_hdr (rr_size r) False discard)"
  note p = rb_rep_pos [OF rep, folded pos_def]
  have ok: "rb_ok m" using rep by (simp add: rb_rep_def)
  have M: "8 \<le> ?M" "?M \<le> 2 ^ 30" "8 dvd ?M" using rb_ok_bounds [OF ok] by simp_all
  have off: "w32 (rb_mask m + 1) = ?M" using M by (simp add: rb_mask_def dec32_pos)
  have le: "pos mod ?M + 8 \<le> ?M" using rb_mod8(1) [OF p(1) M(3)] M(1) by simp
  have ptr: "sub64 (?M + rb_ptr m rs1) 8 mod ?M = pos mod ?M"
  proof -
    have lt: "rb_ptr m rs1 < ?M" unfolding rb_ptr_def using M(1) by (intro mod_less_divisor) simp
    then have s: "sub64 (?M + rb_ptr m rs1) 8 = ?M + rb_ptr m rs1 - 8" using M by (intro sub64_le) simp_all
    from rb_ptr_cases [OF rep pos_def] show ?thesis
    proof (elim disjE conjE)
      assume "rb_ptr m rs1 = pos mod ?M + 8"
      then have "?M + rb_ptr m rs1 - 8 = pos mod ?M + ?M" by simp
      then show ?thesis unfolding s by (simp only: mod_add_self2 mod_mod_trivial)
    next
      assume "rb_ptr m rs1 = 0" "pos mod ?M + 8 = ?M"
      then have "?M + rb_ptr m rs1 - 8 = pos mod ?M" by simp
      then show ?thesis unfolding s by (simp only: mod_mod_trivial)
    qed
  qed
  have hdr: "sub64 (w32 (rb_mask m + 1) + rb_ptr m rs1) BPF_RINGBUF_HDR_SZ AND rb_mask m = pos mod ?M"
    unfolding rb_mask_and [OF ok] off BPF_RINGBUF_HDR_SZ_def by (fact ptr)
  have at: "rr_size r < 2 ^ 30" "blk_get (pos mod ?M) 4 ?d = le_bytes 4 (rb_hdr (rr_size r) True False)"
    "blk_get (pos mod ?M + 8) (rr_size r) ?d = rr_data r"
    using p(4) busy by (auto simp: rb_at_def)
  have ld: "pos mod ?M + 4 \<le> length ?d" using le ok by (simp add: rb_ok_def)
  have "load (pos mod ?M) 4 ?d = Inr (le_bytes 4 (rb_hdr (rr_size r) True False))"
    using ld at(2) by (simp add: load_def)
  moreover have "le_nat (le_bytes 4 (rb_hdr (rr_size r) True False)) = rb_hdr (rr_size r) True False"
    using rb_hdr_less [OF at(1), of True False] by (simp add: le_nat_le_bytes)
  ultimately have sub: "rb_submit (rb_ptr m rs1) discard m = (Inr (), m\<lparr>rb_data := blk_put (pos mod ?M) ys ?d\<rparr>)"
    using rb_hdr_submit [OF at(1)] ld unfolding rb_submit_def Let_def hdr
    by (cases discard) (simp_all add: store_def ys_def)
  have new: "rb_at ?M (blk_put (pos mod ?M) ys ?d) pos (r\<lparr>rr_busy := False, rr_discard := discard\<rparr>)"
    using p(4) at ld by (auto simp: rb_at_def ys_def blk_get_put_same blk_get_put_other)
  have "rb_rep (m\<lparr>rb_data := blk_put (pos mod ?M) ys ?d\<rparr>) (rs1 @ r\<lparr>rr_busy := False, rr_discard := discard\<rparr> # rs2)"
    by (rule rb_rep_update(2) [OF rep pos_def _ _ _ refl new])
       (use rb_total_bounds(1) [of "rr_size r"] in \<open>simp_all add: ys_def\<close>)
  then show ?thesis using sub by auto
qed

text \<open>
  A write through the sample pointer. The pointer wraps to 0 for a record whose header takes the
  last eight bytes of the ring, where the consumer reads behind the header instead.
\<close>

lemma rb_write_refines:
  assumes rep: "rb_rep m (rs1 @ r # rs2)" and bs: "length bs \<le> rr_size r" "0 < length bs"
  shows "\<exists>m'. rb_write (rb_ptr m rs1) bs m = (Inr (), m') \<and> rb_consumer_pos m' = rb_consumer_pos m \<and>
    rb_rep m' (rs1 @ r\<lparr>rr_data := (if rb_ptr m rs1 = 0 then rr_data r else blk_put 0 bs (rr_data r))\<rparr> # rs2)"
proof -
  let ?M = "rb_max_ent m" and ?d = "rb_data m"
  let ?r = "r\<lparr>rr_data := (if rb_ptr m rs1 = 0 then rr_data r else blk_put 0 bs (rr_data r))\<rparr>"
  define pos where "pos = rb_consumer_pos m + rb_span rs1"
  note p = rb_rep_pos [OF rep, folded pos_def]
  have ok: "rb_ok m" using rep by (simp add: rb_rep_def)
  have M: "8 \<le> ?M" using rb_ok_bounds [OF ok] by simp
  have sz: "rr_size r + 8 \<le> rr_total r" by (rule rb_total_bounds)
  have len: "length ?d = 2 * ?M" using ok by (simp add: rb_ok_def)
  have x: "rb_ptr m rs1 = (pos + 8) mod ?M" by (simp add: rb_ptr_def pos_def)
  have xle: "rb_ptr m rs1 + length bs \<le> length ?d"
  proof -
    have "rb_ptr m rs1 < ?M" unfolding x using M by (intro mod_less_divisor) simp
    then show ?thesis using len bs sz p(2) by linarith
  qed
  have new: "rb_at ?M (blk_put (rb_ptr m rs1) bs ?d) pos ?r"
    using rb_ptr_cases [OF rep pos_def]
  proof (elim disjE conjE)
    assume a: "rb_ptr m rs1 = pos mod ?M + 8" "pos mod ?M + 8 < ?M"
    have le: "pos mod ?M + 8 + rr_size r \<le> length ?d" using a(2) sz p(2) len by linarith
    have "blk_get (pos mod ?M + 8) (rr_size r) (blk_put (pos mod ?M + 8) bs ?d) =
        blk_put 0 bs (blk_get (pos mod ?M + 8) (rr_size r) ?d)"
      using le bs by (simp add: blk_get_def blk_put_def take_drop min_def add.commute)
    then show ?thesis using p(4) a xle by (auto simp: rb_at_def blk_get_put_other)
  next
    assume a: "rb_ptr m rs1 = 0" "pos mod ?M + 8 = ?M"
    then show ?thesis using p(4) xle bs sz p(2) by (auto simp: rb_at_def blk_get_put_other)
  qed
  have "rb_rep (m\<lparr>rb_data := blk_put (rb_ptr m rs1) bs ?d\<rparr>) (rs1 @ ?r # rs2)"
    by (rule rb_rep_update(2) [OF rep pos_def _ _ bs(2) x new]) (use sz bs in simp_all)
  moreover have "rb_write (rb_ptr m rs1) bs m = (Inr (), m\<lparr>rb_data := blk_put (rb_ptr m rs1) bs ?d\<rparr>)"
    using xle by (simp add: rb_write_def store_def)
  ultimately show ?thesis by auto
qed

text \<open>What \<open>reserve\<close> finds in the data area of a new record.\<close>

definition rb_stale :: "nat \<Rightarrow> ringbuf \<Rightarrow> bytes" where
  "rb_stale sz m = blk_get (rb_producer_pos m mod rb_max_ent m + 8) sz (rb_data m)"

lemma and_or_nat: "(a :: nat) AND (b OR c) = (a AND b) OR (a AND c)"
  by (rule bit_eqI) (auto simp: bit_and_iff bit_or_iff)

lemma rb_size_bits:
  "sz AND (BPF_RINGBUF_BUSY_BIT OR BPF_RINGBUF_DISCARD_BIT) = 0 \<longleftrightarrow> \<not> bit sz 31 \<and> \<not> bit sz 30"
proof -
  have "sz AND (BPF_RINGBUF_BUSY_BIT OR BPF_RINGBUF_DISCARD_BIT) = (sz AND 2 ^ 31) OR (sz AND 2 ^ 30)"
    unfolding and_or_nat by (simp add: rb_consts)
  then show ?thesis by (simp only: or_eq_0_iff and_exp_nat)
qed

lemma rb_size_check:
  assumes "sz < 2 ^ 64" and "\<not> bit sz 31"
  shows "w64 (sz + BPF_RINGBUF_HDR_SZ + 7) div 8 * 8 = rb_total sz"
proof -
  have "even (sz div 2 ^ 31)" using assms(2) by (simp only: bit_iff_odd not_not)
  moreover have "sz div 2 ^ 31 < 2 ^ 33" using assms(1) by (simp add: div_less_iff_less_mult)
  ultimately have "sz div 2 ^ 31 \<le> 2 ^ 33 - 2" by (auto elim!: evenE)
  then have "sz + 15 < 2 ^ 64" by simp
  then show ?thesis by (simp add: rb_total_def BPF_RINGBUF_HDR_SZ_def)
qed

lemma rb_reserve_refines:
  assumes rep: "rb_rep m rs" and sz: "sz < 2 ^ 64" and pos: "rb_producer_pos m + rb_max_ent m < 2 ^ 64"
  shows "if rb_max_ent m < rb_total sz then rb_reserve sz fd m = (Inl (Errno E2BIG), m)
    else if rb_max_ent m < rb_span rs + rb_total sz then rb_reserve sz fd m = (Inl (Errno ENOSPC), m)
    else \<exists>m'. rb_reserve sz fd m = (Inr (rb_ptr m rs), m') \<and> rb_consumer_pos m' = rb_consumer_pos m \<and>
      rb_rep m' (rs @ [\<lparr>rr_size = sz, rr_busy = True, rr_discard = False, rr_data = rb_stale sz m\<rparr>])"
proof -
  let ?M = "rb_max_ent m" and ?d = "rb_data m" and ?P = "rb_producer_pos m" and ?C = "rb_consumer_pos m"
  let ?r = "\<lparr>rr_size = sz, rr_busy = True, rr_discard = False, rr_data = rb_stale sz m\<rparr>"
  have ok: "rb_ok m" using rep by (simp add: rb_rep_def)
  have M: "8 \<le> ?M" "?M \<le> 2 ^ 30" "8 dvd ?M" using rb_ok_bounds [OF ok] by simp_all
  have P: "?P = ?C + rb_span rs" "?P < 2 ^ 64" "rb_span rs \<le> ?M" using rep by (simp_all add: rb_rep_def)
  have avail: "sub64 ?M (sub64 ?P ?C) = ?M - rb_span rs"
  proof -
    have "sub64 ?P ?C = rb_span rs" using P by (subst sub64_le) simp_all
    then show ?thesis using P(3) M(2) by (subst sub64_le) simp_all
  qed
  have chk: "rb_reserve sz fd m = (if bit sz 31 \<or> bit sz 30 \<or> ?M < rb_total sz then (Inl (Errno E2BIG), m)
      else if ?M - rb_span rs < rb_total sz then (Inl (Errno ENOSPC), m)
      else case and_then (store (?P mod ?M) (le_bytes 4 (sz OR BPF_RINGBUF_BUSY_BIT)) ?d)
                 (store (?P mod ?M + 4) (le_bytes 4 (nat (fd mod 2 ^ 32)))) of
             Inl f \<Rightarrow> (Inl f, m)
           | Inr d \<Rightarrow> (Inr (w64 (?P + 8) mod ?M), m\<lparr>rb_data := d, rb_producer_pos := w64 (?P + rb_total sz)\<rparr>))"
  proof (cases "bit sz 31 \<or> bit sz 30")
    case True
    then show ?thesis unfolding rb_reserve_def using rb_size_bits [of sz] by auto
  next
    case False
    then have "sz AND (BPF_RINGBUF_BUSY_BIT OR BPF_RINGBUF_DISCARD_BIT) = 0" using rb_size_bits [of sz] by blast
    then show ?thesis unfolding rb_reserve_def Let_def avail rb_mask_and [OF ok] rb_size_check [OF sz conjunct1 [OF False [unfolded de_Morgan_disj]]]
      using False unfolding BPF_RINGBUF_HDR_SZ_def by simp
  qed
  show ?thesis
  proof (cases "?M < rb_total sz")
    case True
    then show ?thesis using chk by simp
  next
    case fits: False
    then have small: "sz < 2 ^ 30" using rb_total_bounds(1) [of sz] M(2) by linarith
    then have bits: "\<not> bit sz 31" "\<not> bit sz 30" using rb_hdr_bits [of sz False False] by (simp_all add: rb_hdr_def)
    show ?thesis
    proof (cases "?M < rb_span rs + rb_total sz")
      case True
      then have "?M - rb_span rs < rb_total sz" using P(3) by linarith
      then show ?thesis using True fits chk bits by simp
    next
      case room: False
      define x where "x = ?P mod ?M"
      define h where "h = le_bytes 4 (rb_hdr sz True False)"
      define f where "f = le_bytes 4 (nat (fd mod 2 ^ 32))"
      define d1 where "d1 = blk_put x h ?d"
      define d2 where "d2 = blk_put (x + 4) f d1"
      have l: "length h = 4" "length f = 4" by (simp_all add: h_def f_def)
      have dP: "8 dvd ?P" using rep rb_span_dvd by (auto simp: rb_rep_def intro: dvd_add)
      have M0: "0 < ?M" using M(1) by simp
      have x8: "x + 8 \<le> ?M" unfolding x_def by (rule rb_mod8(1) [OF dP M(3) M0])
      have x4: "(?P + 4) mod ?M = x + 4" unfolding x_def by (rule rb_mod8(2) [OF dP M(3) M0]) simp
      have len: "length ?d = 2 * ?M" using ok by (simp add: rb_ok_def)
      have len1: "length d1 = 2 * ?M" using len l x8 by (simp add: d1_def)
      have len2: "length d2 = 2 * ?M" using len1 l x8 by (simp add: d2_def)
      have b: "sz + 8 \<le> rb_total sz" by (rule rb_total_bounds)
      have "rb_chain ?M d1 ?C rs" unfolding d1_def x_def
        by (rule rb_chain_before) (use rep l len x8 room P(1) b in \<open>auto simp: rb_rep_def x_def\<close>)
      then have c2: "rb_chain ?M d2 ?C rs" unfolding d2_def x4 [symmetric]
        by (rule rb_chain_before) (use l len1 x4 x8 room P(1) b in auto)
      have at: "rb_at ?M d2 ?P ?r"
        unfolding rb_at_def rb_stale_def x_def [symmetric]
        using small fits len len1 l x8
        by (simp add: d2_def d1_def blk_get_put_other blk_get_put_same h_def)
      have rep': "rb_rep (m\<lparr>rb_data := d2, rb_producer_pos := ?P + rb_total sz\<rparr>) (rs @ [?r])"
        using rep c2 at P(1) room len2 pos fits ok by (auto simp: rb_rep_def rb_chain_append rb_ok_def)
      have "store x (le_bytes 4 (sz OR BPF_RINGBUF_BUSY_BIT)) ?d = Inr d1"
        using rb_hdr_reserve [OF small] x8 len by (simp add: store_def d1_def h_def)
      moreover have "store (x + 4) (le_bytes 4 (nat (fd mod 2 ^ 32))) d1 = Inr d2"
        using x8 len1 l by (simp add: store_def d2_def f_def)
      ultimately have "rb_reserve sz fd m = (Inr (w64 (?P + 8) mod ?M), m\<lparr>rb_data := d2, rb_producer_pos := w64 (?P + rb_total sz)\<rparr>)"
        unfolding chk x_def [symmetric] using bits fits room by simp
      moreover have "w64 (?P + 8) mod ?M = rb_ptr m rs" "w64 (?P + rb_total sz) = ?P + rb_total sz"
        using pos fits M P(1) by (simp_all add: rb_ptr_def)
      ultimately show ?thesis using rep' room fits by auto
    qed
  qed
qed

subsection \<open>The consumer\<close>

text \<open>
  The consumer on the list of records: committed records are taken from the front, discarded ones
  are skipped, and it stops at a record that is still busy or when the callback fails.
\<close>

primrec rb_deliver ::
  "('c \<Rightarrow> bytes \<Rightarrow> 'c \<times> int) \<Rightarrow> 'c \<Rightarrow> nat \<Rightarrow> rb_rec list \<Rightarrow> (int \<times> 'c) \<times> rb_rec list"
where
  "rb_deliver cb ctx cnt [] = ((s32 (w32 cnt), ctx), [])"
| "rb_deliver cb ctx cnt (r # rs) =
     (if rr_busy r then ((s32 (w32 cnt), ctx), r # rs)
      else if rr_discard r then rb_deliver cb ctx cnt rs
      else (case cb ctx (rr_data r) of (ctx', err) \<Rightarrow>
        if err < 0 then ((err, ctx'), rs) else rb_deliver cb ctx' (cnt + 1) rs))"

lemma rb_rep_tail:
  assumes "rb_rep m (r # rs)"
  shows "rb_rep (m\<lparr>rb_consumer_pos := rb_consumer_pos m + rr_total r\<rparr>) rs"
proof -
  have "8 dvd rb_consumer_pos m + rr_total r"
    using assms rb_total_bounds(4) [of "rr_size r"] by (auto simp: rb_rep_def intro: dvd_add)
  then show ?thesis using assms by (auto simp: rb_rep_def rb_ok_def)
qed

lemma rb_rep_head:
  assumes "rb_rep m (r # rs)"
  shows "rb_consumer_pos m < rb_producer_pos m"
    "rb_load_len (rb_consumer_pos m) m = Inr (rb_hdr (rr_size r) (rr_busy r) (rr_discard r))"
    "rr_size r < 2 ^ 30" "rb_consumer_pos m + rr_total r < 2 ^ 64"
    "load ((rb_consumer_pos m AND rb_mask m) + BPF_RINGBUF_HDR_SZ) (rr_size r) (rb_data m) = Inr (rr_data r)"
proof -
  let ?M = "rb_max_ent m" and ?C = "rb_consumer_pos m"
  have ok: "rb_ok m" using assms by (simp add: rb_rep_def)
  note p = rb_rep_pos [of m "[]" r rs, simplified, OF assms]
  have M: "8 \<le> ?M" using rb_ok_bounds [OF ok] by simp
  have t: "rr_size r + 8 \<le> rr_total r" "0 < rr_total r" using rb_total_bounds by auto
  have lt: "?C mod ?M < ?M" using M by (intro mod_less_divisor) simp
  have len: "length (rb_data m) = 2 * ?M" using ok by (simp add: rb_ok_def)
  have le: "?C mod ?M + 8 + rr_size r \<le> length (rb_data m)" using lt t(1) p(2) len by linarith
  have at: "rr_size r < 2 ^ 30" "blk_get (?C mod ?M) 4 (rb_data m) = le_bytes 4 (rb_hdr (rr_size r) (rr_busy r) (rr_discard r))"
    "blk_get (?C mod ?M + 8) (rr_size r) (rb_data m) = rr_data r"
    using p(4) by (auto simp: rb_at_def)
  show "rb_consumer_pos m < rb_producer_pos m" "rb_consumer_pos m + rr_total r < 2 ^ 64"
    using assms t(2) by (auto simp: rb_rep_def)
  show "rr_size r < 2 ^ 30" by (rule at)
  show "rb_load_len ?C m = Inr (rb_hdr (rr_size r) (rr_busy r) (rr_discard r))"
    using le at(2) rb_hdr_less [OF at(1)] unfolding rb_load_len_def rb_mask_and [OF ok]
    by (simp add: load_def le_nat_le_bytes)
  show "load ((?C AND rb_mask m) + BPF_RINGBUF_HDR_SZ) (rr_size r) (rb_data m) = Inr (rr_data r)"
    unfolding rb_mask_and [OF ok] using le at(3) by (simp add: load_def BPF_RINGBUF_HDR_SZ_def)
qed

lemma rb_fetch_loop_delivers:
  "rb_rep m rs \<Longrightarrow> \<exists>m'. rb_fetch_loop cb ctx got cnt (rb_consumer_pos m) (rb_producer_pos m) m =
     Some (Inr (fst (rb_deliver cb ctx cnt rs)), m') \<and> rb_producer_pos m' = rb_producer_pos m \<and>
     rb_max_ent m' = rb_max_ent m \<and> rb_data m' = rb_data m \<and> rb_rep m' (snd (rb_deliver cb ctx cnt rs))"
proof (induction rs arbitrary: m ctx cnt got)
  case Nil
  then have e: "rb_consumer_pos m = rb_producer_pos m" by (simp add: rb_rep_def)
  have "rb_fetch_loop cb ctx False cnt (rb_producer_pos m) (rb_producer_pos m) m = Some (Inr (s32 (w32 cnt), ctx), m)"
    by (subst rb_fetch_loop.simps) simp
  then have "rb_fetch_loop cb ctx got cnt (rb_producer_pos m) (rb_producer_pos m) m = Some (Inr (s32 (w32 cnt), ctx), m)"
    by (cases got) (subst rb_fetch_loop.simps, simp)+
  then show ?case using Nil e by auto
next
  case (Cons r rs)
  note h = rb_rep_head [OF Cons.prems]
  let ?m = "m\<lparr>rb_consumer_pos := rb_consumer_pos m + rr_total r\<rparr>"
  note IH = Cons.IH [OF rb_rep_tail [OF Cons.prems], simplified]
  show ?case
  proof (cases "rr_busy r")
    case True
    then show ?thesis
      using Cons.prems h rb_hdr_busy [OF h(3)] by (subst rb_fetch_loop.simps) auto
  next
    case nb: False
    have pos: "w64 (rb_consumer_pos m + roundup_len (rb_hdr (rr_size r) False d)) = rb_consumer_pos m + rr_total r" for d
      using roundup_len_hdr [OF h(3)] h(4) by simp
    show ?thesis
    proof (cases "rr_discard r")
      case True
      then show ?thesis
        using nb h rb_hdr_busy [OF h(3)] rb_hdr_discard [OF h(3)] pos IH [of ctx True cnt]
        by (subst rb_fetch_loop.simps) simp
    next
      case False
      have hd: "rb_hdr (rr_size r) False False = rr_size r" by (simp add: rb_hdr_def)
      obtain ctx' err where cb: "cb ctx (rr_data r) = (ctx', err)" by (cases "cb ctx (rr_data r)")
      have b: "rr_size r AND BPF_RINGBUF_BUSY_BIT = 0" "rr_size r AND BPF_RINGBUF_DISCARD_BIT = 0"
        using rb_hdr_busy [OF h(3), of False False] rb_hdr_discard [OF h(3), of False False] hd by simp_all
      have p0: "w64 (rb_consumer_pos m + roundup_len (rr_size r)) = rb_consumer_pos m + rr_total r"
        using pos [of False] hd by simp
      have step: "rb_fetch_loop cb ctx got cnt (rb_consumer_pos m) (rb_producer_pos m) m =
          (if err < 0 then Some (Inr (err, ctx'), ?m)
           else rb_fetch_loop cb ctx' True (cnt + 1) (rb_consumer_pos m + rr_total r) (rb_producer_pos m) ?m)"
        by (subst rb_fetch_loop.simps) (use nb False h b p0 cb hd in simp)
      show ?thesis
        unfolding step using nb False cb IH [of ctx' True "cnt + 1"] rb_rep_tail [OF Cons.prems] by simp
    qed
  qed
qed

subsection \<open>Reachable rings\<close>

text \<open>
  The rings reached by calls on a new one, each with the list of its outstanding records: a
  successful reserve appends a busy record, a write and a submit change one busy record, and the
  consumer takes records from the front (its context collects samples here; the choice of the
  type does not matter). The positions stay below \<open>2 ^ 64\<close>.
\<close>

inductive rb_reach :: "ringbuf \<Rightarrow> rb_rec list \<Rightarrow> bool" where
  rb_start: "rb_new ps (2 ^ k) = Inr m \<Longrightarrow> 3 \<le> k \<Longrightarrow> k \<le> 30 \<Longrightarrow> ps \<le> 2 ^ 16 \<Longrightarrow> rb_reach m []"
| rb_reserved: "rb_reach m rs \<Longrightarrow> rb_producer_pos m + rb_max_ent m < 2 ^ 64 \<Longrightarrow> sz < 2 ^ 64 \<Longrightarrow>
    rb_reserve sz fd m = (Inr sample, m') \<Longrightarrow>
    rb_reach m' (rs @ [\<lparr>rr_size = sz, rr_busy = True, rr_discard = False, rr_data = rb_stale sz m\<rparr>])"
| rb_refused: "rb_reach m rs \<Longrightarrow> rb_producer_pos m + rb_max_ent m < 2 ^ 64 \<Longrightarrow> sz < 2 ^ 64 \<Longrightarrow>
    rb_reserve sz fd m = (Inl f, m') \<Longrightarrow> rb_reach m' rs"
| rb_written: "rb_reach m (rs1 @ r # rs2) \<Longrightarrow> rr_busy r \<Longrightarrow> length bs \<le> rr_size r \<Longrightarrow> bs \<noteq> [] \<Longrightarrow>
    rb_write (rb_ptr m rs1) bs m = (res, m') \<Longrightarrow>
    rb_reach m' (rs1 @ r\<lparr>rr_data := (if rb_ptr m rs1 = 0 then rr_data r else blk_put 0 bs (rr_data r))\<rparr> # rs2)"
| rb_submitted: "rb_reach m (rs1 @ r # rs2) \<Longrightarrow> rr_busy r \<Longrightarrow>
    rb_submit (rb_ptr m rs1) discard m = (res, m') \<Longrightarrow>
    rb_reach m' (rs1 @ r\<lparr>rr_busy := False, rr_discard := discard\<rparr> # rs2)"
| rb_fetched: "rb_reach m rs \<Longrightarrow> rb_fetch_data cb (ctx :: bytes list) m = Some (res, m') \<Longrightarrow>
    rb_reach m' (snd (rb_deliver cb ctx 0 rs))"

lemma rb_rep_new:
  assumes "rb_new ps (2 ^ k) = Inr m" and "3 \<le> k" and "k \<le> 30" and "ps \<le> 2 ^ 16"
  shows "rb_rep m []"
proof -
  have "(2 :: nat) ^ k \<le> 2 ^ 30" using assms(3) by (intro power_increasing) auto
  then have "w32 (ps * 2 + w32 (2 ^ k * 2)) = ps * 2 + 2 ^ k * 2" using assms(4) by simp
  then show ?thesis using assms by (auto simp: rb_new_def rb_rep_def rb_ok_def Let_def split: if_splits)
qed

lemma rb_reach_rep: "rb_reach m rs \<Longrightarrow> rb_rep m rs"
proof (induction rule: rb_reach.induct)
  case (rb_start ps k m)
  then show ?case by (rule rb_rep_new)
next
  case (rb_reserved m rs sz fd sample m')
  then show ?case using rb_reserve_refines [of m rs sz fd] by (auto split: if_splits)
next
  case (rb_refused m rs sz fd f m')
  then show ?case using rb_reserve_refines [of m rs sz fd] by (auto split: if_splits)
next
  case (rb_written m rs1 r rs2 bs res m')
  then show ?case using rb_write_refines [of m rs1 r rs2 bs] by auto
next
  case (rb_submitted m rs1 r rs2 discard res m')
  then show ?case using rb_submit_refines [of m rs1 r rs2 discard] by auto
next
  case (rb_fetched m rs cb ctx res m')
  then show ?case using rb_fetch_loop_delivers [of m rs cb ctx False 0] by (auto simp: rb_fetch_data_def)
qed

lemma rb_max_ent_frame:
  "rb_max_ent (snd (rb_reserve sz fd m)) = rb_max_ent m" "rb_max_ent (snd (rb_submit x d m)) = rb_max_ent m"
  "rb_producer_pos (snd (rb_submit x d m)) = rb_producer_pos m"
  by (simp_all add: rb_reserve_def rb_submit_def Let_def split: sum.splits)

text \<open>
  C5. On every reachable ring \<open>fetch_data\<close> returns, and it delivers to the callback exactly the
  committed records at the front of the list of outstanding records, in the order in which they
  were reserved, each with the bytes it holds; it skips the discarded ones, stops at the first
  busy one or at a negative result, and returns the number of records delivered or that result.
\<close>

theorem rb_fetch_in_order:
  assumes "rb_reach m rs"
  shows "\<exists>m'. rb_fetch_data cb ctx m = Some (Inr (fst (rb_deliver cb ctx 0 rs)), m') \<and>
    rb_rep m' (snd (rb_deliver cb ctx 0 rs))"
  using rb_fetch_loop_delivers [OF rb_reach_rep [OF assms], of cb ctx False 0] by (auto simp: rb_fetch_data_def)

text \<open>
  \<open>reserve\<close> on a reachable ring fails with \<open>E2BIG\<close> exactly when the rounded record is larger
  than the ring, with \<open>ENOSPC\<close> exactly when it does not fit beside the outstanding records, and
  otherwise appends a busy record and changes no other one.
\<close>

theorem rb_reserve_spec:
  assumes "rb_reach m rs" and "sz < 2 ^ 64" and "rb_producer_pos m + rb_max_ent m < 2 ^ 64"
  shows "if rb_max_ent m < rb_total sz then rb_reserve sz fd m = (Inl (Errno E2BIG), m)
    else if rb_max_ent m < rb_span rs + rb_total sz then rb_reserve sz fd m = (Inl (Errno ENOSPC), m)
    else \<exists>m'. rb_reserve sz fd m = (Inr (rb_ptr m rs), m') \<and>
      rb_rep m' (rs @ [\<lparr>rr_size = sz, rr_busy = True, rr_discard = False, rr_data = rb_stale sz m\<rparr>])"
  using rb_reserve_refines [OF rb_reach_rep [OF assms(1)] assms(2,3), of fd] by (auto split: if_splits)

text \<open>A ring of 16 bytes with one committed, empty record.\<close>

abbreviation rb_empty_rec :: rb_rec where
  "rb_empty_rec \<equiv> \<lparr>rr_size = 0, rr_busy = False, rr_discard = False, rr_data = []\<rparr>"

lemma rb_store_keeps: "store i bs d = Inr d' \<Longrightarrow> i + length bs \<le> n \<Longrightarrow> drop n d' = drop n d"
  by (auto simp: store_def blk_put_def split: if_splits)

lemma rb_ex_new: "\<exists>m. rb_reach m [] \<and> rb_max_ent m = 16 \<and> rb_producer_pos m = 0 \<and> rb_data m = replicate 32 0"
proof -
  have new: "rb_new 4096 (2 ^ 4) = Inr \<lparr>rb_max_ent = 16, rb_consumer_pos = 0, rb_producer_pos = 0, rb_data = replicate 32 0\<rparr>"
    by (simp add: rb_new_def w32_def)
  show ?thesis using rb_start [OF new]
    by (intro exI [of _ "\<lparr>rb_max_ent = 16, rb_consumer_pos = 0, rb_producer_pos = 0, rb_data = replicate 32 0\<rparr>"]) simp
qed

lemma rb_ex_committed:
  "\<exists>m. rb_reach m [rb_empty_rec] \<and> rb_max_ent m = 16 \<and> rb_producer_pos m = 8 \<and> drop 16 (rb_data m) = replicate 16 0"
proof -
  obtain m where m: "rb_reach m []" "rb_max_ent m = 16" "rb_producer_pos m = 0" and d: "rb_data m = replicate 32 0"
    using rb_ex_new by blast
  have c: "rb_consumer_pos m = 0" using rb_reach_rep [OF m(1)] m(3) by (simp add: rb_rep_def)
  obtain m1 where r: "rb_reserve 0 3 m = (Inr (rb_ptr m []), m1)"
    using rb_reserve_refines [OF rb_reach_rep [OF m(1)], of 0 3] m(2,3) by (auto simp: rb_total_def)
  have m1: "rb_reach m1 [\<lparr>rr_size = 0, rr_busy = True, rr_discard = False, rr_data = []\<rparr>]"
    using rb_reserved [OF m(1) _ _ r] m(2,3) by (simp add: rb_stale_def blk_get_def)
  have m1': "rb_consumer_pos m1 = 0" "rb_max_ent m1 = 16"
    using rb_reserve_refines [OF rb_reach_rep [OF m(1)], of 0 3] r m(2,3) c rb_max_ent_frame(1) [of 0 3 m]
    by (auto simp: rb_total_def)
  then have p1: "rb_producer_pos m1 = 8" using rb_reach_rep [OF m1] by (simp add: rb_rep_def rb_total_def)
  obtain m2 where s: "rb_submit (rb_ptr m1 []) False m1 = (Inr (), m2)"
    using rb_submit_refines [of m1 "[]" _ "[]" False] rb_reach_rep [OF m1] by fastforce
  have "drop 16 (rb_data m1) = replicate 16 0"
    using r m(2,3) d by (auto simp: rb_reserve_def Let_def and_then_Inr_iff split: if_splits sum.splits dest!: rb_store_keeps [where n = 16])
  moreover have "rb_ptr m1 [] = 8" using m1' by (simp add: rb_ptr_def)
  ultimately have "drop 16 (rb_data m2) = replicate 16 0"
    using s m1' by (auto simp: rb_submit_def Let_def and_then_Inr_iff rb_mask_def dec32_def sub64_def w32_def w64_def BPF_RINGBUF_HDR_SZ_def
        split: if_splits sum.splits dest!: rb_store_keeps [where n = 16])
  moreover have "rb_reach m2 [rb_empty_rec]" using s rb_submitted [of m1 "[]" _ "[]" False] m1 by force
  moreover have "rb_max_ent m2 = 16" "rb_producer_pos m2 = 8"
    using rb_max_ent_frame(2,3) [of "rb_ptr m1 []" False m1] s m1'(2) p1 by simp_all
  ultimately show ?thesis by blast
qed

theorem rb_fetch_in_order_witness:
  "\<exists>m m'. rb_reach m [rb_empty_rec] \<and>
     rb_fetch_data (\<lambda>c bs. (c @ [bs], 0)) [] m = Some (Inr (1, [[]]), m') \<and> rb_rep m' []"
proof -
  obtain m where m: "rb_reach m [rb_empty_rec]" using rb_ex_committed by blast
  show ?thesis using rb_fetch_in_order [OF m, of "\<lambda>c bs. (c @ [bs], 0)" "[]"] m by (auto simp: s32_def)
qed

theorem rb_reserve_spec_witness:
  "\<exists>m. rb_reach m [] \<and> rb_reserve 9 3 m = (Inl (Errno E2BIG), m) \<and> (\<exists>m'. rb_reserve 8 3 m = (Inr 8, m'))"
proof -
  obtain m where m: "rb_reach m []" "rb_max_ent m = 16" "rb_producer_pos m = 0" using rb_ex_new by blast
  have c: "rb_consumer_pos m = 0" using rb_reach_rep [OF m(1)] m(3) by (simp add: rb_rep_def)
  show ?thesis using rb_reserve_spec [OF m(1), of 9 3] rb_reserve_spec [OF m(1), of 8 3] m c
    by (auto simp: rb_total_def rb_ptr_def)
qed

text \<open>
  C35. A record whose header takes the last eight bytes of the ring is lost: \<open>reserve\<close> wraps the
  sample pointer to the start of the data area, the consumer reads behind the header in the
  second half, and what the program wrote before \<open>submit\<close> is not what is delivered. The data
  area is twice the ring in size but the two halves are not mapped to the same memory. The ring is any one reached by
  the calls, with the producer position below \<open>2\<^sup>6\<^sup>4\<close>: a following \<open>fetch_data\<close> has for the record the bytes
  \<open>rb_stale sz m\<close> that were in the second half before \<open>reserve\<close>, whatever was written.
\<close>

theorem rb_sample_lost_at_wrap:
  assumes "rb_reach m rs" and "rb_producer_pos m mod rb_max_ent m = rb_max_ent m - 8"
    and "rb_producer_pos m + rb_max_ent m < 2 ^ 64" and "sz < 2 ^ 64"
    and "rb_reserve sz fd m = (Inr sample, m1)" and "bs \<noteq> []" and "length bs \<le> sz"
  shows "sample = 0 \<and> (\<exists>m2 m3 m4. rb_write sample bs m1 = (Inr (), m2) \<and> rb_submit sample False m2 = (Inr (), m3) \<and>
    rb_fetch_data cb ctx m3 = Some (Inr (fst (rb_deliver cb ctx 0
      (rs @ [\<lparr>rr_size = sz, rr_busy = False, rr_discard = False, rr_data = rb_stale sz m\<rparr>]))), m4))"
proof -
  let ?r = "\<lparr>rr_size = sz, rr_busy = True, rr_discard = False, rr_data = rb_stale sz m\<rparr>"
  have rep: "rb_rep m rs" by (rule rb_reach_rep [OF assms(1)])
  then have M: "8 \<le> rb_max_ent m" using rb_ok_bounds by (auto simp: rb_rep_def)
  have r1: "sample = rb_ptr m rs" "rb_consumer_pos m1 = rb_consumer_pos m" "rb_rep m1 (rs @ [?r])"
    using rb_reserve_refines [OF rep assms(4,3), of fd] assms(5) by (auto split: if_splits)
  have M1: "rb_max_ent m1 = rb_max_ent m" using rb_max_ent_frame(1) [of sz fd m] assms(5) by simp
  have "rb_ptr m rs = (rb_producer_pos m mod rb_max_ent m + 8) mod rb_max_ent m"
    using rep by (simp add: rb_ptr_def rb_rep_def mod_add_left_eq)
  then have z: "rb_ptr m rs = 0" using assms(2) M by simp
  then have z1: "rb_ptr m1 rs = 0" using r1(2) M1 by (simp add: rb_ptr_def)
  obtain m2 where m2: "rb_write 0 bs m1 = (Inr (), m2)" "rb_consumer_pos m2 = rb_consumer_pos m1" "rb_rep m2 (rs @ [?r])"
    using rb_write_refines [OF r1(3), of bs] assms(6,7) z1 by auto
  have "rb_max_ent m2 = rb_max_ent m1" using m2(1) by (auto simp: rb_write_def split: sum.splits)
  then have z2: "rb_ptr m2 rs = 0" using z1 m2(2) by (simp add: rb_ptr_def)
  obtain m3 where m3: "rb_submit 0 False m2 = (Inr (), m3)" "rb_rep m3 (rs @ [?r\<lparr>rr_busy := False\<rparr>])"
    using rb_submit_refines [OF m2(3), of False] z2 by auto
  then show ?thesis
    using rb_fetch_loop_delivers [OF m3(2), of cb ctx False 0] z r1(1) m2(1) by (auto simp: rb_fetch_data_def)
qed

theorem rb_sample_lost_at_wrap_witness:
  "\<exists>m m1 m2 m3 m4. rb_reach m [] \<and> rb_reserve 1 3 m = (Inr 0, m1) \<and> rb_write 0 [7] m1 = (Inr (), m2) \<and>
     rb_submit 0 False m2 = (Inr (), m3) \<and> rb_fetch_data (\<lambda>c bs. (c @ [bs], 0)) [] m3 = Some (Inr (1, [[0]]), m4)"
proof -
  let ?cb = "\<lambda>c bs. (c @ [bs], 0 :: int)"
  obtain m0 where m0: "rb_reach m0 [rb_empty_rec]" "rb_max_ent m0 = 16" "rb_producer_pos m0 = 8"
      "drop 16 (rb_data m0) = replicate 16 0"
    using rb_ex_committed by blast
  obtain m where f: "rb_fetch_data ?cb [] m0 = Some (Inr (fst (rb_deliver ?cb [] 0 [rb_empty_rec])), m)"
    and m: "rb_max_ent m = 16" "rb_producer_pos m = 8" "rb_data m = rb_data m0"
    using rb_fetch_loop_delivers [OF rb_reach_rep [OF m0(1)], of ?cb "[]" False 0] m0(2,3)
    by (auto simp: rb_fetch_data_def)
  have st: "rb_stale 1 m = [0]" using m m0(4) by (simp add: rb_stale_def blk_get_def)
  have r: "rb_reach m []" using rb_fetched [OF m0(1) f] by simp
  obtain m1 where "rb_reserve 1 3 m = (Inr (rb_ptr m []), m1)"
    using rb_reserve_refines [OF rb_reach_rep [OF r], of 1 3] m by (auto simp: rb_total_def)
  then show ?thesis
    using rb_sample_lost_at_wrap [OF r, of 1 3 "rb_ptr m []" m1 "[7]" ?cb "[]"] m r st by (auto simp: s32_def)
qed

end
