(* ===== verification/Fd_Array.thy ===== *)
theory Fd_Array
  imports Array_Map
begin

text \<open>
  The two maps that hold one \<open>int32_t\<close> per slot: \<open>perf_event_array_map_impl\<close>
  (\<open>bpf_map/userspace/perf_event_array_map.cpp\<close>), whose values are file descriptors, and
  \<open>prog_array_map_impl\<close> (\<open>bpf_map/userspace/prog_array.cpp\<close>), which takes descriptors and
  stores program ids. The kernel's answers to \<open>bpf(2)\<close> are parameters of the program array.
\<close>

text \<open>Conversions to \<open>uint32_t\<close> and \<open>int32_t\<close>.\<close>

definition to_u32 :: "int \<Rightarrow> nat" where
  "to_u32 x = nat (x mod 2 ^ 32)"

definition to_s32 :: "int \<Rightarrow> int" where
  "to_s32 x = s32 (to_u32 x)"

subsection \<open>The perf event array\<close>

record perf_event_array =
  pea_data :: "int list"

definition pea_new :: "nat \<Rightarrow> nat \<Rightarrow> nat \<Rightarrow> perf_event_array res" where
  "pea_new key_size value_size max_entries =
     (if key_size \<noteq> 4 \<or> value_size \<noteq> 4 then Inl Throw
      else Inr \<lparr>pea_data = replicate max_entries (-1)\<rparr>)"

definition pea_elem_lookup :: "ptr \<Rightarrow> perf_event_array \<Rightarrow> bytes res" where
  "pea_elem_lookup key m = and_then (rd_s32 key) (\<lambda>k.
     if k < 0 \<or> nat k \<ge> length (pea_data m) then Inl (Errno EINVAL)
     else Inr (le_bytes 4 (to_u32 (pea_data m ! nat k))))"

definition pea_elem_update :: "ptr \<Rightarrow> ptr \<Rightarrow> nat \<Rightarrow> perf_event_array \<Rightarrow> unit res \<times> perf_event_array" where
  "pea_elem_update key value flags m = (case rd_s32 key of
       Inl f \<Rightarrow> (Inl f, m)
     | Inr k \<Rightarrow>
         (if k < 0 \<or> nat k \<ge> length (pea_data m) then (Inl (Errno EINVAL), m)
          else (case rd_s32 value of
              Inl f \<Rightarrow> (Inl f, m)
            | Inr v \<Rightarrow> (Inr (), m\<lparr>pea_data := (pea_data m)[nat k := v]\<rparr>))))"

definition pea_elem_delete :: "ptr \<Rightarrow> perf_event_array \<Rightarrow> unit res \<times> perf_event_array" where
  "pea_elem_delete key m = (case rd_s32 key of
       Inl f \<Rightarrow> (Inl f, m)
     | Inr k \<Rightarrow>
         (if k < 0 \<or> nat k \<ge> length (pea_data m) then (Inl (Errno EINVAL), m)
          else (Inr (), m\<lparr>pea_data := (pea_data m)[nat k := -1]\<rparr>)))"

text \<open>
  \<open>k + 1\<close> is an \<open>int\<close> addition, which overflows for the largest key. A negative \<open>k + 1\<close>
  converted to \<open>size_t\<close> is at least \<open>2 ^ 63\<close>, more than any vector holds.
\<close>

definition pea_map_get_next_key :: "ptr \<Rightarrow> outbuf \<Rightarrow> perf_event_array \<Rightarrow> bytes res" where
  "pea_map_get_next_key key next_key m =
     (if key = None then wr_key_u32 next_key 0
      else and_then (rd_s32 key) (\<lambda>k.
        if k = 2 ^ 31 - 1 then Inl UB
        else if k + 1 = int (length (pea_data m)) then Inl (Errno ENOENT)
        else if k < 0 \<or> nat k \<ge> length (pea_data m) then Inl (Errno EINVAL)
        else wr_key_u32 next_key (nat (k + 1))))"

subsection \<open>The program array\<close>

text \<open>
  \<open>my_bpf_syscall_fd\<close> repeats the system call while it returns \<open>-EAGAIN\<close>, five times at
  most; \<open>sys i\<close> is what the \<open>i\<close>-th call returns.
\<close>

fun my_bpf_syscall_loop :: "(nat \<Rightarrow> int) \<Rightarrow> nat \<Rightarrow> nat \<Rightarrow> int" where
  "my_bpf_syscall_loop sys i attempts =
     (let fd = sys i in
      if fd < 0 \<and> fd = -11 \<and> attempts - 1 > 0 then my_bpf_syscall_loop sys (i + 1) (attempts - 1)
      else fd)"

definition my_bpf_syscall_fd :: "(nat \<Rightarrow> int) \<Rightarrow> int" where
  "my_bpf_syscall_fd sys = my_bpf_syscall_loop sys 0 5"

text \<open>
  \<open>get_fd prog_id i\<close> is the result of the \<open>i\<close>-th \<open>BPF_PROG_GET_FD_BY_ID\<close> for that program;
  \<open>get_info fd\<close> that of \<open>BPF_OBJ_GET_INFO_BY_FD\<close>: the return value and the id written to
  the info structure.
\<close>

definition my_bpf_prog_get_fd_by_id :: "(nat \<Rightarrow> nat \<Rightarrow> int) \<Rightarrow> nat \<Rightarrow> int" where
  "my_bpf_prog_get_fd_by_id get_fd prog_id = to_s32 (my_bpf_syscall_fd (get_fd prog_id))"

record prog_array =
  pga_data :: "int list"

definition pga_new :: "nat \<Rightarrow> nat \<Rightarrow> nat \<Rightarrow> prog_array res" where
  "pga_new key_size value_size max_entries =
     (if key_size \<noteq> 4 \<or> value_size \<noteq> 4 then Inl Throw
      else Inr \<lparr>pga_data = replicate max_entries (-1)\<rparr>)"

definition pga_elem_lookup :: "(nat \<Rightarrow> nat \<Rightarrow> int) \<Rightarrow> ptr \<Rightarrow> prog_array \<Rightarrow> bytes res" where
  "pga_elem_lookup get_fd key m = and_then (rd_s32 key) (\<lambda>k.
     if k < 0 \<or> nat k \<ge> length (pga_data m) then Inl (Errno EINVAL)
     else Inr (le_bytes 4 (to_u32 (my_bpf_prog_get_fd_by_id get_fd (to_u32 (pga_data m ! nat k))))))"

definition pga_elem_update ::
  "(int \<Rightarrow> int \<times> nat) \<Rightarrow> ptr \<Rightarrow> ptr \<Rightarrow> nat \<Rightarrow> prog_array \<Rightarrow> unit res \<times> prog_array" where
  "pga_elem_update get_info key value flags m = (case rd_s32 key of
       Inl f \<Rightarrow> (Inl f, m)
     | Inr k \<Rightarrow>
         (if k < 0 \<or> nat k \<ge> length (pga_data m) then (Inl (Errno EINVAL), m)
          else (case rd_s32 value of
              Inl f \<Rightarrow> (Inl f, m)
            | Inr v \<Rightarrow>
                (case get_info v of (err, info_id) \<Rightarrow>
                   if err < 0 then (Inl MinusOne, m)
                   else (Inr (), m\<lparr>pga_data := (pga_data m)[nat k := to_s32 (int info_id)]\<rparr>)))))"

definition pga_elem_delete :: "ptr \<Rightarrow> prog_array \<Rightarrow> unit res \<times> prog_array" where
  "pga_elem_delete key m = (case rd_s32 key of
       Inl f \<Rightarrow> (Inl f, m)
     | Inr k \<Rightarrow>
         (if k < 0 \<or> nat k \<ge> length (pga_data m) then (Inl (Errno EINVAL), m)
          else (Inr (), m\<lparr>pga_data := (pga_data m)[nat k := -1]\<rparr>)))"

definition pga_map_get_next_key :: "ptr \<Rightarrow> outbuf \<Rightarrow> prog_array \<Rightarrow> bytes res" where
  "pga_map_get_next_key key next_key m =
     (if key = None then wr_key_u32 next_key 0
      else and_then (rd_s32 key) (\<lambda>k.
        if k = 2 ^ 31 - 1 then Inl UB
        else if k + 1 = int (length (pga_data m)) then Inl (Errno ENOENT)
        else if k < 0 \<or> nat k \<ge> length (pga_data m) then Inl (Errno EINVAL)
        else wr_key_u32 next_key (nat (k + 1))))"

declare my_bpf_syscall_loop.simps [simp del]

subsection \<open>Conversions\<close>

lemma to_u32_less [simp]: "to_u32 x < 2 ^ 32"
  by (simp add: to_u32_def nat_less_iff)

lemma to_u32_s32: "n < 2 ^ 32 \<Longrightarrow> to_u32 (s32 n) = n"
  by (auto simp: to_u32_def s32_def)

lemma s32_to_u32: "- (2 ^ 31) \<le> x \<Longrightarrow> x < 2 ^ 31 \<Longrightarrow> s32 (to_u32 x) = x"
proof -
  assume x: "- (2 ^ 31) \<le> x" "x < 2 ^ 31"
  show ?thesis
  proof (cases "0 \<le> x")
    case True
    then show ?thesis using x by (simp add: to_u32_def s32_def)
  next
    case False
    have "x mod 2 ^ 32 = (x + 2 ^ 32) mod 2 ^ 32" by simp
    also have "\<dots> = x + 2 ^ 32" using x False by (intro mod_pos_pos_trivial) auto
    finally show ?thesis using x False by (simp add: to_u32_def s32_def)
  qed
qed

lemma rd_s32_Some: "4 \<le> length v \<Longrightarrow> rd_s32 (Some v) = Inr (s32 (le_nat (take 4 v)))"
  by (simp add: rd_s32_def rd_u32_Some)

lemma rd_s32_Inr: "rd_s32 p = Inr x \<Longrightarrow> - (2 ^ 31) \<le> x \<and> x < 2 ^ 31"
proof -
  assume "rd_s32 p = Inr x"
  then obtain bs where "x = s32 (le_nat bs)" "length bs = 4"
    by (auto simp: rd_s32_def rd_u32_def rd_Inr_iff split: sum.splits)
  then show ?thesis using le_nat_less_u32 [of bs] by (simp add: s32_def)
qed

lemma rd_s32_bytes:
  assumes "rd_s32 (Some v) = Inr x"
  shows "4 \<le> length v \<and> le_bytes 4 (to_u32 x) = take 4 v"
proof -
  have v: "4 \<le> length v" "x = s32 (le_nat (take 4 v))"
    using assms by (auto simp: rd_s32_def rd_u32_def rd_Inr_iff split: sum.splits)
  then have l: "length (take 4 v) = 4" by simp
  show ?thesis using v(1) le_bytes_le_nat [OF l]
    unfolding v(2) to_u32_s32 [OF le_nat_less_u32 [OF l]] by blast
qed

subsection \<open>The contracts\<close>

definition s32_keyof :: "'s \<Rightarrow> ptr \<Rightarrow> int option" where
  "s32_keyof s p = (case rd_s32 p of Inl _ \<Rightarrow> None | Inr i \<Rightarrow> Some i)"

lemma s32_keyof_Some: "s32_keyof s p = Some i \<longleftrightarrow> rd_s32 p = Inr i"
  by (auto simp: s32_keyof_def split: sum.splits)

definition pea_view :: "perf_event_array \<Rightarrow> int \<Rightarrow> bytes option" where
  "pea_view m k =
     (if 0 \<le> k \<and> nat k < length (pea_data m) then Some (le_bytes 4 (to_u32 (pea_data m ! nat k))) else None)"

lemma pea_update_success:
  assumes "pea_elem_update p (Some v) fl m = (Inr (), m')" and "rd_s32 p = Inr k"
  shows "0 \<le> k \<and> nat k < length (pea_data m) \<and>
    (\<exists>x. m' = m\<lparr>pea_data := (pea_data m)[nat k := x]\<rparr> \<and> le_bytes 4 (to_u32 x) = take 4 v)"
  using assms rd_s32_bytes by (auto simp: pea_elem_update_def split: if_splits sum.splits)

interpretation peas: framed_store "\<lambda>_. True" pea_view s32_keyof "\<lambda>_. 4" "Errno EINVAL" pea_elem_lookup pea_elem_update
proof
  fix m m' :: perf_event_array and p q v fl f k k'
  show "m' = m" if "pea_elem_update p q fl m = (Inl f, m')"
    using that by (auto simp: pea_elem_update_def split: sum.splits if_splits)
  assume "s32_keyof m p = Some k"
  then have k: "rd_s32 p = Inr k" by (simp add: s32_keyof_Some)
  show "pea_elem_lookup p m = (case pea_view m k of None \<Rightarrow> Inl (Errno EINVAL) | Some v \<Rightarrow> Inr v)"
    using k by (auto simp: pea_elem_lookup_def pea_view_def)
  assume "pea_elem_update p (Some v) fl m = (Inr (), m')"
  then obtain x where x: "0 \<le> k" "nat k < length (pea_data m)"
    "m' = m\<lparr>pea_data := (pea_data m)[nat k := x]\<rparr>" "le_bytes 4 (to_u32 x) = take 4 v"
    using pea_update_success k by blast
  then have view: "pea_view m' = (pea_view m)(k \<mapsto> take 4 v)"
    by (auto simp: pea_view_def fun_eq_iff nth_list_update eq_nat_nat_iff)
  then show "pea_view m' k' = pea_view m k'" if "k' \<noteq> k"
    using that by simp
  show "True \<and> s32_keyof m' = s32_keyof m \<and> 4 = (4::nat) \<and> pea_view m' k = Some (take 4 v) \<and>
      (\<forall>k'. k' \<noteq> k \<longrightarrow> pea_view m' k' = None \<or> pea_view m' k' = pea_view m k')"
    using view by (auto simp: s32_keyof_def fun_eq_iff)
qed

text \<open>The two \<open>map_get_next_key\<close> functions differ only in the vector they measure.\<close>

definition i32_next_key :: "ptr \<Rightarrow> outbuf \<Rightarrow> nat \<Rightarrow> bytes res" where
  "i32_next_key key next_key n =
     (if key = None then wr_key_u32 next_key 0
      else and_then (rd_s32 key) (\<lambda>k.
        if k = 2 ^ 31 - 1 then Inl UB
        else if k + 1 = int n then Inl (Errno ENOENT)
        else if k < 0 \<or> nat k \<ge> n then Inl (Errno EINVAL)
        else wr_key_u32 next_key (nat (k + 1))))"

lemma fd_next_key:
  "pea_map_get_next_key key nk m = i32_next_key key nk (length (pea_data m))"
  "pga_map_get_next_key key nk m' = i32_next_key key nk (length (pga_data m'))"
  by (simp_all add: pea_map_get_next_key_def pga_map_get_next_key_def i32_next_key_def)

lemma i32_next_key_at:
  assumes "n < 2 ^ 31" and "u32_keys n = ks @ k # ks'"
  shows "i32_next_key (Some k) (Some 4) n =
    (case ks' of [] \<Rightarrow> Inl (Errno ENOENT) | _ \<Rightarrow> Inr (le_bytes 4 (Suc (length ks))))"
proof -
  have "n < 2 ^ 32" using assms(1) by simp
  note at = u32_keys_at [OF this assms(2)]
  then have "length ks < 2 ^ 31" using assms(1) by simp
  then have "rd_s32 (Some k) = Inr (int (length ks))" using conjunct1 [OF at] by (simp add: rd_s32_def s32_def)
  then show ?thesis using at assms(1)
    by (auto simp: i32_next_key_def wr_key_u32_def copy_out_def nat_add_distrib split: list.splits)
qed

lemma i32_key_iter: "key_iter (\<lambda>m. 0 < len m \<and> len m < 2 ^ 31) (\<lambda>m. u32_keys (len m)) (\<lambda>p m. i32_next_key p (Some 4) (len m))"
proof
  fix m ks k k' ks'
  assume n: "0 < len m \<and> len m < 2 ^ 31"
  then have n31: "len m < 2 ^ 31" by simp
  then have n32: "len m < 2 ^ 32" by simp
  show "i32_next_key None (Some 4) (len m) = (case u32_keys (len m) of [] \<Rightarrow> Inl (Errno ENOENT) | k # _ \<Rightarrow> Inr k)"
    using n by (simp add: i32_next_key_def wr_key_u32_def copy_out_def u32_keys_def upt_conv_Cons)
  show "i32_next_key (Some k) (Some 4) (len m) = Inr k'" if e: "u32_keys (len m) = ks @ k # k' # ks'"
    using i32_next_key_at [OF n31 e] u32_keys_at [OF n32, of "ks @ [k]" k' ks'] e by simp
  show "i32_next_key (Some k) (Some 4) (len m) = Inl (Errno ENOENT)" if e: "u32_keys (len m) = ks @ [k]"
    using i32_next_key_at [OF n31 e] by simp
qed

interpretation peai: key_iter "\<lambda>m. 0 < length (pea_data m) \<and> length (pea_data m) < 2 ^ 31"
  "\<lambda>m. u32_keys (length (pea_data m))" "\<lambda>p m. pea_map_get_next_key p (Some 4) m"
  unfolding fd_next_key by (rule i32_key_iter)

interpretation pgai: key_iter "\<lambda>m. 0 < length (pga_data m) \<and> length (pga_data m) < 2 ^ 31"
  "\<lambda>m. u32_keys (length (pga_data m))" "\<lambda>p m. pga_map_get_next_key p (Some 4) m"
  unfolding fd_next_key by (rule i32_key_iter)

subsection \<open>Properties\<close>

text \<open>The writes of a client and the table of descriptors they describe.\<close>

datatype pea_op = Pea_Update ptr ptr nat | Pea_Delete ptr

fun pea_step :: "pea_op \<Rightarrow> perf_event_array \<Rightarrow> perf_event_array" where
  "pea_step (Pea_Update key value fl) m = snd (pea_elem_update key value fl m)"
| "pea_step (Pea_Delete key) m = snd (pea_elem_delete key m)"

fun pea_spec :: "pea_op \<Rightarrow> (int \<Rightarrow> int) \<Rightarrow> int \<Rightarrow> int" where
  "pea_spec (Pea_Update key value fl) t =
     (case (rd_s32 key, rd_s32 value) of (Inr k, Inr v) \<Rightarrow> t(k := v) | _ \<Rightarrow> t)"
| "pea_spec (Pea_Delete key) t = (case rd_s32 key of Inr k \<Rightarrow> t(k := -1) | _ \<Rightarrow> t)"

definition pea_rel :: "nat \<Rightarrow> (int \<Rightarrow> int) \<Rightarrow> perf_event_array \<Rightarrow> bool" where
  "pea_rel n t m \<longleftrightarrow> length (pea_data m) = n \<and> (\<forall>i<n. pea_data m ! i = t (int i))"

lemma pea_step_rel: "pea_rel n t m \<Longrightarrow> pea_rel n (pea_spec x t) (pea_step x m)"
  by (cases x)
    (auto simp: pea_rel_def pea_elem_update_def pea_elem_delete_def nth_list_update split: sum.splits)

lemma pea_run_rel: "pea_rel n t m \<Longrightarrow> pea_rel n (fold pea_spec ops t) (fold pea_step ops m)"
  by (induction ops arbitrary: t m) (simp_all add: pea_step_rel)

text \<open>
  after any sequence of updates and deletions on a new perf event array, a lookup of an
  index below \<open>max_entries\<close> returns the descriptor last written there, -1 where none was or
  where it was deleted since, and fails with \<open>EINVAL\<close> for every other index.
\<close>

theorem pea_refines_table:
  assumes "pea_new 4 4 n = Inr m0" and "rd_s32 key = Inr k"
  shows "pea_elem_lookup key (fold pea_step ops m0) =
    (if 0 \<le> k \<and> k < int n then Inr (le_bytes 4 (to_u32 (fold pea_spec ops (\<lambda>_. -1) k)))
     else Inl (Errno EINVAL))"
proof -
  have "pea_rel n (\<lambda>_. -1) m0" using assms(1) by (auto simp: pea_new_def pea_rel_def)
  note pea_run_rel [OF this, of ops]
  then show ?thesis using assms(2)
    by (auto simp: pea_elem_lookup_def pea_rel_def nat_less_iff)
qed

theorem pea_refines_table_witness:
  "pea_elem_lookup (Some [1, 0, 0, 0])
     (fold pea_step [Pea_Update (Some [1, 0, 0, 0]) (Some [7, 0, 0, 0]) 0, Pea_Delete (Some [0, 0, 0, 0])]
       \<lparr>pea_data = [-1, -1]\<rparr>) = Inr [7, 0, 0, 0]"
proof -
  let ?m = "\<lparr>pea_data = [-1, -1]\<rparr>" and ?k = "Some [1, 0, 0, 0]"
  let ?ops = "[Pea_Update ?k (Some [7, 0, 0, 0]) 0, Pea_Delete (Some [0, 0, 0, 0])]"
  have new: "pea_new 4 4 2 = Inr ?m" by (simp add: pea_new_def numeral_2_eq_2)
  have k: "rd_s32 ?k = Inr 1" by (simp add: rd_s32_def rd_u32_def rd_def s32_def)
  have "fold pea_spec ?ops (\<lambda>_. -1) 1 = 7" by (simp add: rd_s32_def rd_u32_def rd_def s32_def)
  moreover have "le_bytes 4 7 = [7, 0, 0, 0]" by code_simp
  then have "le_bytes 4 (to_u32 7) = [7, 0, 0, 0]" by (simp add: to_u32_def)
  ultimately show ?thesis using pea_refines_table [OF new k, of ?ops] by simp
qed

text \<open>
  the program array translates descriptors to ids and back. Where the kernel reports the
  id of the program behind a descriptor, and opens for an id a descriptor of that program,
  a lookup after a successful update returns a descriptor of the program that was stored,
  and leaves the other slots alone.
\<close>

theorem pga_lookup_same_program:
  assumes "pga_elem_update get_info key (Some v) fl m = (Inr (), m')"
    and "rd_s32 key = Inr k" and "rd_s32 (Some v) = Inr fd"
    and info: "\<And>x. 0 \<le> fst (get_info x) \<Longrightarrow> snd (get_info x) = prog_of x \<and> prog_of x < 2 ^ 32"
    and open_id: "\<And>i. 0 \<le> get_fd (prog_of fd) i \<and> get_fd (prog_of fd) i < 2 ^ 31 \<and>
      prog_of (get_fd (prog_of fd) i) = prog_of fd"
  shows "\<exists>fd'. pga_elem_lookup get_fd key m' = Inr (le_bytes 4 (to_u32 fd')) \<and> prog_of fd' = prog_of fd \<and>
    (\<forall>i < length (pga_data m). int i \<noteq> k \<longrightarrow> pga_data m' ! i = pga_data m ! i)"
proof -
  have k: "0 \<le> k" "nat k < length (pga_data m)" and i: "0 \<le> fst (get_info fd)"
    and m': "m' = m\<lparr>pga_data := (pga_data m)[nat k := to_s32 (int (prog_of fd))]\<rparr>"
    using assms(1,2,3) info [of fd] by (auto simp: pga_elem_update_def split: if_splits prod.splits)
  let ?p = "prog_of fd"
  have p: "to_u32 (to_s32 (int ?p)) = ?p"
    using info [OF i] to_u32_s32 [of "to_u32 (int ?p)"] by (simp add: to_s32_def) (simp add: to_u32_def)
  have f: "my_bpf_prog_get_fd_by_id get_fd ?p = get_fd ?p 0"
    using open_id [of 0] s32_to_u32 [of "get_fd ?p 0"]
    by (simp add: my_bpf_prog_get_fd_by_id_def my_bpf_syscall_fd_def my_bpf_syscall_loop.simps [of _ 0 5] to_s32_def)
  have "pga_elem_lookup get_fd key m' = Inr (le_bytes 4 (to_u32 (get_fd ?p 0)))"
    using assms(2) k by (simp add: pga_elem_lookup_def m' p f)
  then show ?thesis using open_id [of 0] k(1) by (intro exI [of _ "get_fd ?p 0"]) (auto simp: m' nth_list_update)
qed

theorem pga_lookup_same_program_witness:
  "\<exists>fd'. pga_elem_lookup (\<lambda>i _. int i) (Some [0, 0, 0, 0]) \<lparr>pga_data = [5]\<rparr> = Inr (le_bytes 4 (to_u32 fd')) \<and>
    nat fd' mod 2 ^ 32 = 5"
proof -
  have "rd_s32 (Some [0, 0, 0, 0]) = Inr 0" "rd_s32 (Some [5, 0, 0, 0]) = Inr 5"
    by (simp_all add: rd_s32_def rd_u32_def rd_def s32_def)
  moreover from this have "pga_elem_update (\<lambda>x. (0, nat x mod 2 ^ 32)) (Some [0, 0, 0, 0]) (Some [5, 0, 0, 0]) 0
      \<lparr>pga_data = [-1]\<rparr> = (Inr (), \<lparr>pga_data = [5]\<rparr>)"
    by (simp add: pga_elem_update_def to_s32_def to_u32_def s32_def)
  ultimately show ?thesis
    using pga_lookup_same_program [of "\<lambda>x. (0, nat x mod 2 ^ 32)" "Some [0, 0, 0, 0]" "[5, 0, 0, 0]" 0
        "\<lparr>pga_data = [-1]\<rparr>" "\<lparr>pga_data = [5]\<rparr>" 0 5 "\<lambda>x. nat x mod 2 ^ 32" "\<lambda>i _. int i"]
    by auto
qed

end
