(* ===== verification/Stack_Trace_Map.thy ===== *)
theory Stack_Trace_Map
  imports Fd_Array
begin

text \<open>
  \<open>stack_trace_map_impl\<close> (\<open>bpf_map/userspace/stack_trace_map.cpp\<close>): a table from a 32-bit id,
  the hash of a stack trace reduced modulo \<open>max_entries\<close>, to the trace. The map has no
  iteration, so the \<open>boost::unordered_map\<close> is a partial function. \<open>boost::hash_combine\<close> is a
  parameter.
\<close>

type_synonym trace = "64 word list"

definition hash_stack_trace :: "(nat \<Rightarrow> 64 word \<Rightarrow> nat) \<Rightarrow> trace \<Rightarrow> nat" where
  "hash_stack_trace hash_combine stk =
     w64 (fold (\<lambda>x seed. hash_combine seed x) stk (hash_combine 0 (word_of_nat (length stk))))"

record stack_trace_map =
  st_max_stack_entries :: nat
  st_max_entries :: nat
  st_data :: "nat \<rightharpoonup> trace"
  st_key_buf :: trace

definition st_new :: "nat \<Rightarrow> nat \<Rightarrow> nat \<Rightarrow> stack_trace_map res" where
  "st_new key_size value_size max_entries =
     (if key_size \<noteq> 4 then Inl Throw
      else if value_size mod 8 \<noteq> 0 then Inl Throw
      else Inr \<lparr>st_max_stack_entries = value_size div 8, st_max_entries = max_entries,
        st_data = Map.empty, st_key_buf = replicate (value_size div 8) 0\<rparr>)"

text \<open>The bytes of a \<open>uint64_vec\<close>, as a reader of its \<open>data()\<close> sees them.\<close>

definition trace_bytes :: "trace \<Rightarrow> bytes" where
  "trace_bytes stk = concat (map (\<lambda>x. le_bytes 8 (unat x)) stk)"

definition st_elem_lookup :: "ptr \<Rightarrow> stack_trace_map \<Rightarrow> bytes res" where
  "st_elem_lookup key m =
     (if key = None then Inl (Errno EINVAL)
      else and_then (rd_u32 key) (\<lambda>index.
        case st_data m index of
          None \<Rightarrow> Inl (Errno ENOENT)
        | Some stk \<Rightarrow> Inr (trace_bytes stk)))"

definition st_elem_update :: "ptr \<Rightarrow> ptr \<Rightarrow> nat \<Rightarrow> stack_trace_map \<Rightarrow> unit res \<times> stack_trace_map" where
  "st_elem_update key value flags m = (Inl (NegErrno ENOTSUP), m)"

definition st_elem_delete :: "ptr \<Rightarrow> stack_trace_map \<Rightarrow> unit res \<times> stack_trace_map" where
  "st_elem_delete key m =
     (if key = None then (Inl (Errno EINVAL), m)
      else (case rd_u32 key of
          Inl f \<Rightarrow> (Inl f, m)
        | Inr index \<Rightarrow>
            (case st_data m index of
               Some _ \<Rightarrow> (Inr (), m\<lparr>st_data := (st_data m)(index := None)\<rparr>)
             | None \<Rightarrow> (Inl (Errno ENOENT), m))))"

definition st_map_get_next_key :: "ptr \<Rightarrow> outbuf \<Rightarrow> stack_trace_map \<Rightarrow> bytes res" where
  "st_map_get_next_key key next_key m = Inl (Errno ENOTSUP)"

text \<open>
  The test of the code for an occupied slot. The inner comparison runs when the sizes
  differ, so it never decides.
\<close>

definition st_equals :: "trace \<Rightarrow> trace \<Rightarrow> bool \<Rightarrow> bool" where
  "st_equals old stk compare_only_by_hash =
     (let equals = True in
      if \<not> compare_only_by_hash then
        (let equals = (equals \<and> length old = length stk) in
         if \<not> equals then equals \<and> stk = take (length stk) old else equals)
      else equals)"

text \<open>The remainder by a zero \<open>max_entries\<close> is undefined; the id is returned as an \<open>int\<close>.\<close>

definition st_fill_stack_trace ::
  "(nat \<Rightarrow> 64 word \<Rightarrow> nat) \<Rightarrow> trace \<Rightarrow> bool \<Rightarrow> bool \<Rightarrow> stack_trace_map \<Rightarrow> int res \<times> stack_trace_map" where
  "st_fill_stack_trace hash_combine stk discard_old_one compare_only_by_hash m =
     (if st_max_entries m = 0 then (Inl UB, m)
      else
        (let to_put_hash = hash_stack_trace hash_combine stk mod st_max_entries m;
             itr = st_data m (w32 to_put_hash);
             m = m\<lparr>st_key_buf := stk\<rparr> in
         case itr of
           None \<Rightarrow>
             (Inr (to_s32 (int to_put_hash)), m\<lparr>st_data := (st_data m)(w32 to_put_hash \<mapsto> st_key_buf m)\<rparr>)
         | Some old \<Rightarrow>
             (if st_equals old stk compare_only_by_hash then (Inr (to_s32 (int to_put_hash)), m)
              else (Inr (to_s32 (int to_put_hash)),
                if discard_old_one then m\<lparr>st_data := (st_data m)(w32 to_put_hash \<mapsto> st_key_buf m)\<rparr> else m))))"

lemma st_equals_eq: "st_equals old stk by_hash \<longleftrightarrow> by_hash \<or> length old = length stk"
  by (auto simp: st_equals_def)

definition st_id :: "(nat \<Rightarrow> 64 word \<Rightarrow> nat) \<Rightarrow> trace \<Rightarrow> stack_trace_map \<Rightarrow> nat" where
  "st_id hash_combine stk m = hash_stack_trace hash_combine stk mod st_max_entries m"

lemma st_id_less: "0 < st_max_entries m \<Longrightarrow> st_id hc stk m < st_max_entries m"
  by (simp add: st_id_def)

lemma st_fill_eq:
  assumes "0 < st_max_entries m" and "st_max_entries m < 2 ^ 32"
  shows "st_fill_stack_trace hc stk discard by_hash m =
    (Inr (to_s32 (int (st_id hc stk m))),
     m\<lparr>st_key_buf := stk,
       st_data := (case st_data m (st_id hc stk m) of
           Some old \<Rightarrow> (if by_hash \<or> length old = length stk \<or> \<not> discard then st_data m
                      else (st_data m)(st_id hc stk m \<mapsto> stk))
         | None \<Rightarrow> (st_data m)(st_id hc stk m \<mapsto> stk))\<rparr>)"
proof -
  have "w32 (hash_stack_trace hc stk mod st_max_entries m) = st_id hc stk m"
    using st_id_less [OF assms(1), of hc stk] assms(2) by (simp add: st_id_def)
  then show ?thesis using assms(1)
    by (auto simp: st_fill_stack_trace_def st_equals_eq Let_def st_id_def split: option.splits)
qed

lemma st_lookup_id:
  "id' < 2 ^ 32 \<Longrightarrow> st_elem_lookup (Some (le_bytes 4 id')) m =
     (case st_data m id' of None \<Rightarrow> Inl (Errno ENOENT) | Some stk \<Rightarrow> Inr (trace_bytes stk))"
  by (simp add: st_elem_lookup_def rd_u32_Some le_nat_le_bytes)

subsection \<open>Properties\<close>

text \<open>
  \<open>fill_stack_trace\<close> on a map with entries returns an id below \<open>max_entries\<close> whose lookup
  succeeds. It finds the trace just filled where the id was free, or where the old entry has
  another length, contents are compared and old entries are discarded; in every other case
  it finds the old entry. No other id changes.
\<close>

theorem st_fill_then_lookup:
  assumes "0 < st_max_entries m" and "st_max_entries m < 2 ^ 32"
  shows "\<exists>i m'. st_fill_stack_trace hc stk discard by_hash m = (Inr (to_s32 (int i)), m') \<and>
    i < st_max_entries m \<and>
    st_elem_lookup (Some (le_bytes 4 i)) m' =
      (case st_elem_lookup (Some (le_bytes 4 i)) m of
         Inl _ \<Rightarrow> Inr (trace_bytes stk)
       | Inr old \<Rightarrow> (if discard \<and> \<not> by_hash \<and> length old \<noteq> length (trace_bytes stk)
           then Inr (trace_bytes stk) else Inr old)) \<and>
    (\<forall>j < 2 ^ 32. j \<noteq> i \<longrightarrow>
      st_elem_lookup (Some (le_bytes 4 j)) m' = st_elem_lookup (Some (le_bytes 4 j)) m)"
proof -
  let ?i = "st_id hc stk m" and ?m' = "snd (st_fill_stack_trace hc stk discard by_hash m)"
  have i: "?i < st_max_entries m" "?i < 2 ^ 32" using st_id_less [OF assms(1)] assms(2) less_trans by blast+
  have len: "length (trace_bytes s) = 8 * length s" for s
    by (induction s) (simp_all add: trace_bytes_def)
  have other: "\<forall>j < 2 ^ 32. j \<noteq> ?i \<longrightarrow>
      st_elem_lookup (Some (le_bytes 4 j)) ?m' = st_elem_lookup (Some (le_bytes 4 j)) m"
    by (auto simp: st_fill_eq [OF assms] st_lookup_id split: option.splits)
  have "st_elem_lookup (Some (le_bytes 4 ?i)) ?m' =
      (case st_elem_lookup (Some (le_bytes 4 ?i)) m of
         Inl _ \<Rightarrow> Inr (trace_bytes stk)
       | Inr old \<Rightarrow> (if discard \<and> \<not> by_hash \<and> length old \<noteq> length (trace_bytes stk)
           then Inr (trace_bytes stk) else Inr old))"
    by (auto simp: st_fill_eq [OF assms] st_lookup_id [OF i(2)] len split: option.splits)
  then show ?thesis using i(1) other st_fill_eq [OF assms, of hc stk discard by_hash]
    by (intro exI [of _ ?i] exI [of _ ?m']) simp
qed

theorem st_fill_then_lookup_witness:
  "\<exists>i m'. st_fill_stack_trace (\<lambda>s _. Suc s) [7] True False
      \<lparr>st_max_stack_entries = 1, st_max_entries = 8, st_data = Map.empty, st_key_buf = [0]\<rparr> =
        (Inr (to_s32 (int i)), m') \<and>
    i < 8 \<and> st_elem_lookup (Some (le_bytes 4 i)) m' = Inr (trace_bytes [7])"
proof -
  let ?m = "\<lparr>st_max_stack_entries = 1, st_max_entries = 8, st_data = Map.empty, st_key_buf = [0]\<rparr>"
  have n: "st_elem_lookup (Some (le_bytes 4 i)) ?m = Inl (Errno ENOENT)" if "i < 8" for i
    using that st_lookup_id [of i ?m] by simp
  show ?thesis using st_fill_then_lookup [of ?m "\<lambda>s _. Suc s" "[7]" True False] n by fastforce
qed

text \<open>
  a trace that falls on the id of another trace of the same length is dropped: with
  comparison by content and replacement of old entries both requested, the returned id still
  finds the old trace. The content comparison stands in the branch where the sizes differ.
\<close>

theorem st_content_never_compared:
  assumes "0 < st_max_entries m" and "st_max_entries m < 2 ^ 32"
    and "st_id hc stk m = st_id hc old m" and "length stk = length old"
    and "st_data m (st_id hc old m) = Some old" and "trace_bytes stk \<noteq> trace_bytes old"
  shows "\<exists>m'. st_fill_stack_trace hc stk True False m = (Inr (to_s32 (int (st_id hc stk m))), m') \<and>
    st_elem_lookup (Some (le_bytes 4 (st_id hc stk m))) m' \<noteq> Inr (trace_bytes stk)"
proof -
  have i: "st_id hc old m < 2 ^ 32" using st_id_less [OF assms(1), of hc old] assms(2) by simp
  show ?thesis using assms(3-6) by (simp add: st_fill_eq [OF assms(1,2)] st_lookup_id [OF i])
qed

theorem st_content_never_compared_witness:
  "\<exists>m'. st_fill_stack_trace (\<lambda>s _. s) [7] True False
      \<lparr>st_max_stack_entries = 1, st_max_entries = 1, st_data = [0 \<mapsto> [5]], st_key_buf = [0]\<rparr> = (Inr 0, m') \<and>
    st_elem_lookup (Some (le_bytes 4 0)) m' \<noteq> Inr (trace_bytes [7])"
proof -
  let ?m = "\<lparr>st_max_stack_entries = 1, st_max_entries = 1, st_data = [0 \<mapsto> [5]], st_key_buf = [0]\<rparr>"
  have i: "st_id (\<lambda>s _. s) stk ?m = 0" for stk by (simp add: st_id_def)
  have "trace_bytes [7] \<noteq> trace_bytes [5]" by code_simp
  moreover have "to_s32 (int 0) = 0" by (simp add: to_s32_def to_u32_def s32_def)
  ultimately show ?thesis
    using st_content_never_compared [of ?m "\<lambda>s _. s" "[7]" "[5]"] unfolding i by simp
qed

end
