(* ===== verification/Perf_Event.thy ===== *)
theory Perf_Event
  imports Ringbuf Fd_Array
begin

text \<open>
  The perf event handlers (\<open>handler/perf_event_handler.cpp\<close>): the variant of the kinds of
  events, the constructors, and the ring of a software perf event with \<open>output_data\<close>.

  The header page of the mapped buffer is the fields \<open>pe_data_head\<close>, \<open>pe_data_tail\<close>,
  \<open>pe_data_offset\<close> and \<open>pe_data_size\<close>; \<open>pe_ring\<close> is the part of \<open>mmap_buffer\<close> behind it, so
  that \<open>mmap_size()\<close> is its length. Of the scratch vector \<open>copy_buffer\<close> only the size
  outlives a call.
\<close>

unbundle bit_operations_syntax

subsection \<open>The software perf event\<close>

record software_perf_event =
  pe_cpu :: int
  pe_config :: int
  pe_sample_type :: int
  pe_pagesize :: nat
  pe_data_head :: nat
  pe_data_tail :: nat
  pe_data_offset :: nat
  pe_data_size :: nat
  pe_ring :: bytes
  pe_copy_size :: nat

definition pe_new :: "nat \<Rightarrow> int \<Rightarrow> int \<Rightarrow> int \<Rightarrow> software_perf_event" where
  "pe_new page cpu config sample_type =
     \<lparr>pe_cpu = cpu, pe_config = config, pe_sample_type = sample_type, pe_pagesize = page,
      pe_data_head = 0, pe_data_tail = 0, pe_data_offset = page, pe_data_size = 0,
      pe_ring = [], pe_copy_size = page\<rparr>"

definition pe_mmap_size :: "software_perf_event \<Rightarrow> nat" where
  "pe_mmap_size m = length (pe_ring m)"

definition pe_has_data :: "software_perf_event \<Rightarrow> bool" where
  "pe_has_data m \<longleftrightarrow> pe_data_tail m \<noteq> pe_data_head m"

fun popcnt :: "nat \<Rightarrow> nat" where
  "popcnt x = (if x = 0 then 0 else x mod 2 + popcnt (x div 2))"

declare popcnt.simps [simp del]

text \<open>
  The result is the address of the buffer, \<open>MinusOne\<close> the null pointer. The buffer is
  resized before the size is tested.
\<close>

definition pe_ensure_mmap_buffer :: "nat \<Rightarrow> software_perf_event \<Rightarrow> unit res \<times> software_perf_event" where
  "pe_ensure_mmap_buffer buffer_size m =
     (if buffer_size > pe_pagesize m + length (pe_ring m) then
        (let m = m\<lparr>pe_ring := pe_ring m @ replicate (buffer_size - pe_pagesize m - length (pe_ring m)) 0,
                   pe_data_size := buffer_size - pe_pagesize m\<rparr> in
         if popcnt (buffer_size - pe_pagesize m) \<noteq> 1 then (Inl MinusOne, m) else (Inr (), m))
      else (Inr (), m))"

text \<open>Conversion to \<open>int64_t\<close>.\<close>

definition to_s64 :: "int \<Rightarrow> int" where
  "to_s64 x = (let y = x mod 2 ^ 64 in if y < 2 ^ 63 then y else y - 2 ^ 64)"

text \<open>
  A \<open>perf_sample_raw\<close> with its data: \<open>type\<close> (\<open>PERF_RECORD_SAMPLE\<close> is 9), \<open>misc\<close> and the 16-bit
  \<open>size\<close> of the header, then the 32-bit data size; \<open>sizeof\<close> is 12.
\<close>

definition pe_head :: "nat \<Rightarrow> bytes" where
  "pe_head sz = le_bytes 4 9 @ le_bytes 2 0 @ le_bytes 2 (12 + sz) @ le_bytes 4 sz"

text \<open>The two ways of copying a record into the ring, from offset \<open>off\<close>.\<close>

definition pe_copy :: "nat \<Rightarrow> bytes \<Rightarrow> bytes \<Rightarrow> bytes res" where
  "pe_copy off rec ring =
     (if length rec + off \<le> length ring then store off rec ring
      else
        (let len_first = length ring - off in
         and_then (store off (take len_first rec) ring) (store 0 (drop len_first rec))))"

text \<open>
  \<open>head.header.size\<close> is a \<open>uint16_t\<close>: the size of the record is reduced modulo \<open>2 ^ 16\<close>. The
  data is copied to \<open>copy_buffer\<close>, which has that many bytes, with the size that was asked.
  The difference of the positions is that of two \<open>int64_t\<close>.
\<close>

definition pe_output_data :: "ptr \<Rightarrow> nat \<Rightarrow> software_perf_event \<Rightarrow> unit res \<times> software_perf_event" where
  "pe_output_data buf sz m =
     (let copy_size = (12 + sz) mod 2 ^ 16;
          data_head = to_s64 (int (pe_data_head m));
          data_tail = to_s64 (int (pe_data_tail m));
          avail = to_s64 (int (pe_mmap_size m) - (data_head - data_tail));
          available_size = (if avail = 0 then int (pe_mmap_size m) else avail) in
      if available_size \<le> int copy_size then (Inr (), m)
      else
        (let m = m\<lparr>pe_copy_size := copy_size\<rparr> in
         if 12 + sz > copy_size then (Inl UB, m)
         else (case rd buf sz of
             Inl f \<Rightarrow> (Inl f, m)
           | Inr bs \<Rightarrow>
               (case pe_copy (pe_data_head m AND sub64 (pe_mmap_size m) 1) (pe_head sz @ bs) (pe_ring m) of
                  Inl f \<Rightarrow> (Inl f, m)
                | Inr ring \<Rightarrow>
                    (Inr (), m\<lparr>pe_ring := ring, pe_data_head := w64 (pe_data_head m + copy_size)\<rparr>)))))"

subsection \<open>The handlers\<close>

record uprobe_perf_event =
  up_offset :: nat
  up_pid :: int
  up_ref_ctr_off :: nat
  up_module_name :: string

record kprobe_perf_event =
  kp_func_name :: string
  kp_addr :: nat
  kp_ref_ctr_off :: nat

record tracepoint_perf_event =
  tp_pid :: int
  tp_tracepoint_id :: int

datatype perf_event_data =
    Uprobe_Data uprobe_perf_event
  | Tracepoint_Data tracepoint_perf_event
  | Software_Data software_perf_event
  | Custom_Data string
  | Kprobe_Data kprobe_perf_event

record perf_event_handler =
  ph_type :: int
  ph_enabled :: bool
  ph_data :: perf_event_data

text \<open>The numbers of \<open>bpf_event_type\<close> (\<open>include/bpftime_shm.hpp\<close>) the constructors use.\<close>

datatype bpf_event_type =
    PERF_TYPE_SOFTWARE | PERF_TYPE_TRACEPOINT | BPF_TYPE_UPROBE | BPF_TYPE_URETPROBE
  | BPF_TYPE_KPROBE | BPF_TYPE_KRETPROBE | BPF_TYPE_UPROBE_OVERRIDE | BPF_TYPE_UREPLACE

fun event_type_code :: "bpf_event_type \<Rightarrow> int" where
  "event_type_code PERF_TYPE_SOFTWARE = 1"
| "event_type_code PERF_TYPE_TRACEPOINT = 2"
| "event_type_code BPF_TYPE_UPROBE = 6"
| "event_type_code BPF_TYPE_URETPROBE = 7"
| "event_type_code BPF_TYPE_KPROBE = 8"
| "event_type_code BPF_TYPE_KRETPROBE = 9"
| "event_type_code BPF_TYPE_UPROBE_OVERRIDE = 1008"
| "event_type_code BPF_TYPE_UREPLACE = 1009"

definition ph_new_custom :: "int \<Rightarrow> string \<Rightarrow> perf_event_handler" where
  "ph_new_custom typ attach_arg =
     \<lparr>ph_type = typ, ph_enabled = False, ph_data = Custom_Data attach_arg\<rparr>"

definition ph_new_override :: "bpf_event_type \<Rightarrow> nat \<Rightarrow> int \<Rightarrow> string \<Rightarrow> bool \<Rightarrow> perf_event_handler" where
  "ph_new_override typ offset pid module_name default_enabled =
     \<lparr>ph_type = event_type_code typ, ph_enabled = default_enabled,
      ph_data = Uprobe_Data \<lparr>up_offset = offset, up_pid = pid, up_ref_ctr_off = 0, up_module_name = module_name\<rparr>\<rparr>"

definition ph_new_uprobe :: "bool \<Rightarrow> nat \<Rightarrow> int \<Rightarrow> string \<Rightarrow> nat \<Rightarrow> perf_event_handler" where
  "ph_new_uprobe is_retprobe offset pid module_name ref_ctr_off =
     \<lparr>ph_type = event_type_code (if is_retprobe then BPF_TYPE_URETPROBE else BPF_TYPE_UPROBE), ph_enabled = False,
      ph_data = Uprobe_Data
        \<lparr>up_offset = offset, up_pid = pid, up_ref_ctr_off = ref_ctr_off, up_module_name = module_name\<rparr>\<rparr>"

definition ph_new_kprobe :: "bool \<Rightarrow> nat \<Rightarrow> string \<Rightarrow> nat \<Rightarrow> perf_event_handler" where
  "ph_new_kprobe is_retprobe addr func_name ref_ctr_off =
     \<lparr>ph_type = event_type_code (if is_retprobe then BPF_TYPE_KRETPROBE else BPF_TYPE_KPROBE), ph_enabled = False,
      ph_data = Kprobe_Data \<lparr>kp_func_name = func_name, kp_addr = addr, kp_ref_ctr_off = ref_ctr_off\<rparr>\<rparr>"

definition ph_new_tracepoint :: "int \<Rightarrow> int \<Rightarrow> perf_event_handler" where
  "ph_new_tracepoint pid tracepoint_id =
     \<lparr>ph_type = event_type_code PERF_TYPE_TRACEPOINT, ph_enabled = False,
      ph_data = Tracepoint_Data \<lparr>tp_pid = pid, tp_tracepoint_id = tracepoint_id\<rparr>\<rparr>"

definition ph_new_software :: "nat \<Rightarrow> int \<Rightarrow> int \<Rightarrow> int \<Rightarrow> perf_event_handler" where
  "ph_new_software page cpu sample_type config =
     \<lparr>ph_type = event_type_code PERF_TYPE_SOFTWARE, ph_enabled = False,
      ph_data = Software_Data (pe_new page cpu config sample_type)\<rparr>"

definition ph_enable :: "perf_event_handler \<Rightarrow> perf_event_handler" where
  "ph_enable h = h\<lparr>ph_enabled := True\<rparr>"

definition ph_disable :: "perf_event_handler \<Rightarrow> perf_event_handler" where
  "ph_disable h = h\<lparr>ph_enabled := False\<rparr>"

definition try_get_software_perf_data_weak_ptr :: "perf_event_handler \<Rightarrow> software_perf_event option" where
  "try_get_software_perf_data_weak_ptr h = (case ph_data h of Software_Data d \<Rightarrow> Some d | _ \<Rightarrow> None)"

text \<open>\<open>None\<close> is the empty optional; otherwise the (possibly null) address of the buffer.\<close>

definition try_get_software_perf_data_raw_buffer ::
  "nat \<Rightarrow> perf_event_handler \<Rightarrow> unit res option \<times> perf_event_handler" where
  "try_get_software_perf_data_raw_buffer buffer_size h = (case ph_data h of
       Software_Data d \<Rightarrow>
         (case pe_ensure_mmap_buffer buffer_size d of (r, d') \<Rightarrow> (Some r, h\<lparr>ph_data := Software_Data d'\<rparr>))
     | _ \<Rightarrow> (None, h))"

subsection \<open>The ring\<close>

lemma popcnt_0: "popcnt x = 0 \<longleftrightarrow> x = 0"
proof (induction x rule: popcnt.induct)
  case (1 x)
  then show ?case by (subst popcnt.simps) auto
qed

lemma popcnt_1: "popcnt x = 1 \<Longrightarrow> \<exists>k. x = 2 ^ k"
proof (induction x rule: popcnt.induct)
  case (1 x)
  then have x: "x \<noteq> 0" "x mod 2 + popcnt (x div 2) = 1" by (auto simp: popcnt.simps [of x] split: if_splits)
  show ?case
  proof (cases "x mod 2 = 0")
    case True
    then obtain k where "x div 2 = 2 ^ k" using 1 x by auto
    then have "x = 2 ^ Suc k" using True by auto
    then show ?thesis ..
  next
    case False
    then have "x div 2 = 0" using x popcnt_0 [of "x div 2"] by simp
    then have "x = 2 ^ 0" using x(1) by simp
    then show ?thesis ..
  qed
qed

lemma nth_blk_put:
  "off + length ys \<le> length xs \<Longrightarrow> i < length xs \<Longrightarrow>
   blk_put off ys xs ! i = (if off \<le> i \<and> i < off + length ys then ys ! (i - off) else xs ! i)"
  by (auto simp: blk_put_def nth_append)

lemma ring_pos: "off < N \<Longrightarrow> i < N \<Longrightarrow> (off + i) mod N = (if off + i < N then off + i else off + i - (N :: nat))"
  using mod_if [of "off + i" N] mod_less [of "off + i - N" N] by simp

text \<open>A copy writes the record at consecutive positions modulo the ring and nothing else.\<close>

lemma pe_copy_nth:
  assumes "off < length ring" and "length rec \<le> length ring"
  shows "\<exists>ring'. pe_copy off rec ring = Inr ring' \<and> length ring' = length ring \<and>
    (\<forall>i < length ring. ring' ! ((off + i) mod length ring) =
      (if i < length rec then rec ! i else ring ! ((off + i) mod length ring)))"
proof (cases "length rec + off \<le> length ring")
  case True
  then show ?thesis using assms
    by (auto simp: pe_copy_def store_def nth_blk_put ring_pos add.commute)
next
  case False
  let ?f = "length ring - off"
  let ?r1 = "blk_put off (take ?f rec) ring"
  have r1: "store off (take ?f rec) ring = Inr ?r1" "length ?r1 = length ring"
    using False assms by (auto simp: store_def)
  have r2: "store 0 (drop ?f rec) ?r1 = Inr (blk_put 0 (drop ?f rec) ?r1)"
    using False assms r1 by (simp add: store_def)
  have "blk_put 0 (drop ?f rec) ?r1 ! ((off + i) mod length ring) =
      (if i < length rec then rec ! i else ring ! ((off + i) mod length ring))" if "i < length ring" for i
    using that False assms by (auto simp: nth_blk_put ring_pos)
  then show ?thesis using False r1 r2 assms by (simp add: pe_copy_def Let_def)
qed

definition pe_pending :: "software_perf_event \<Rightarrow> bytes" where
  "pe_pending m = map (\<lambda>i. pe_ring m ! ((pe_data_tail m + i) mod length (pe_ring m)))
     [0..<pe_data_head m - pe_data_tail m]"

definition pe_record :: "bytes \<Rightarrow> bytes" where
  "pe_record p = pe_head (length p) @ p"

lemma length_pe_head [simp]: "length (pe_head sz) = 12"
  by (simp add: pe_head_def)

lemma pe_head_not_Nil [simp]: "pe_head n \<noteq> []"
  using length_pe_head [of n] by (metis list.size(3) zero_neq_numeral)

lemma length_pe_record [simp]: "length (pe_record p) = 12 + length p"
  by (simp add: pe_record_def)

definition pe_rep :: "software_perf_event \<Rightarrow> bytes list \<Rightarrow> bool" where
  "pe_rep m ps \<longleftrightarrow> (pe_ring m = [] \<or> (\<exists>k. length (pe_ring m) = 2 ^ k)) \<and> length (pe_ring m) < 2 ^ 63 \<and>
     pe_data_tail m \<le> pe_data_head m \<and> pe_data_head m < 2 ^ 63 \<and>
     (pe_data_head m = pe_data_tail m \<or> pe_data_head m - pe_data_tail m < length (pe_ring m)) \<and>
     pe_pending m = concat (map pe_record ps) \<and> (\<forall>p \<in> set ps. 12 + length p < 2 ^ 16)"

lemma pe_pending_append:
  assumes "pe_copy (pe_data_head m mod length (pe_ring m)) rec (pe_ring m) = Inr ring'"
    and "0 < length (pe_ring m)" and "pe_data_tail m \<le> pe_data_head m"
    and "pe_data_head m - pe_data_tail m + length rec \<le> length (pe_ring m)"
  shows "length ring' = length (pe_ring m) \<and>
    pe_pending (m\<lparr>pe_ring := ring', pe_data_head := pe_data_head m + length rec\<rparr>) = pe_pending m @ rec"
proof -
  let ?N = "length (pe_ring m)" and ?T = "pe_data_tail m" and ?H = "pe_data_head m"
  let ?s = "?H - ?T"
  have off: "?H mod ?N < ?N" using assms(2) by simp
  have len: "length ring' = ?N" and nth: "\<And>i. i < ?N \<Longrightarrow> ring' ! ((?H + i) mod ?N) =
      (if i < length rec then rec ! i else pe_ring m ! ((?H + i) mod ?N))"
    using pe_copy_nth [OF off, of rec] assms(1,4) by (auto simp: mod_add_left_eq)
  have old: "ring' ! ((?T + i) mod ?N) = pe_ring m ! ((?T + i) mod ?N)" if "i < ?s" for i
  proof -
    have e: "?H + (?N - ?s + i) = (?T + i) + ?N" using that assms(3,4) by simp
    have p: "(?H + (?N - ?s + i)) mod ?N = (?T + i) mod ?N" unfolding e by simp
    have b: "?N - ?s + i < ?N" "\<not> ?N - ?s + i < length rec" using that assms(4) by linarith+
    show ?thesis using nth [OF b(1)] unfolding p if_not_P [OF b(2)] .
  qed
  have new: "ring' ! ((?T + i) mod ?N) = rec ! (i - ?s)" if "?s \<le> i" "i < ?s + length rec" for i
  proof -
    have e: "?H + (i - ?s) = ?T + i" and b: "i - ?s < ?N" "i - ?s < length rec"
      using that assms(3,4) by linarith+
    show ?thesis using nth [OF b(1)] unfolding e if_P [OF b(2)] .
  qed
  have "pe_pending (m\<lparr>pe_ring := ring', pe_data_head := ?H + length rec\<rparr>) = pe_pending m @ rec"
    by (rule nth_equalityI) (use assms(3) len old new in \<open>auto simp: pe_pending_def nth_append\<close>)
  then show ?thesis using len by simp
qed

lemma to_s64_id [simp]: "0 \<le> x \<Longrightarrow> x < 2 ^ 63 \<Longrightarrow> to_s64 x = x"
  by (simp add: to_s64_def)

text \<open>On a ring that holds whole records the signed arithmetic computes the free space.\<close>

lemma pe_avail:
  assumes "pe_rep m ps"
  shows "to_s64 (int (pe_data_head m)) = int (pe_data_head m)" "to_s64 (int (pe_data_tail m)) = int (pe_data_tail m)"
    "(if to_s64 (int (length (pe_ring m)) - (int (pe_data_head m) - int (pe_data_tail m))) = 0
      then int (length (pe_ring m))
      else to_s64 (int (length (pe_ring m)) - (int (pe_data_head m) - int (pe_data_tail m)))) =
     int (length (pe_ring m) - (pe_data_head m - pe_data_tail m))"
proof -
  let ?N = "length (pe_ring m)" and ?T = "pe_data_tail m" and ?H = "pe_data_head m"
  have r: "?T \<le> ?H" "?H < 2 ^ 63" "?N < 2 ^ 63" "?H = ?T \<or> ?H - ?T < ?N"
    using assms by (auto simp: pe_rep_def)
  let ?av = "to_s64 (int ?N - (int ?H - int ?T))"
  have "?av = int ?N - (int ?H - int ?T)" by (rule to_s64_id) (use r in auto)
  then show "(if ?av = 0 then int ?N else ?av) = int (?N - (?H - ?T))" using r by auto
  show "to_s64 (int ?H) = int ?H" "to_s64 (int ?T) = int ?T" using r by simp_all
qed

text \<open>
  What \<open>output_data\<close> does on a ring that holds whole records: it drops a record that would
  fill the ring and appends every other one.
\<close>

lemma pe_output_refines:
  assumes "pe_rep m ps" and "12 + sz < 2 ^ 16" and "sz \<le> length b" and "pe_data_head m + 2 ^ 16 < 2 ^ 63"
  shows "if length (pe_ring m) - (pe_data_head m - pe_data_tail m) \<le> 12 + sz
    then pe_output_data (Some b) sz m = (Inr (), m)
    else \<exists>m'. pe_output_data (Some b) sz m = (Inr (), m') \<and> pe_rep m' (ps @ [take sz b]) \<and>
      length (pe_ring m') = length (pe_ring m)"
proof -
  let ?N = "length (pe_ring m)" and ?T = "pe_data_tail m" and ?H = "pe_data_head m"
  let ?rec = "pe_head sz @ take sz b"
  have r: "?T \<le> ?H" "?H < 2 ^ 63" "?N < 2 ^ 63" "?H = ?T \<or> ?H - ?T < ?N"
    using assms(1) by (auto simp: pe_rep_def)
  have cs: "(12 + sz) mod 2 ^ 16 = 12 + sz" using assms(2) by (rule mod_less)
  note eq = pe_output_data_def [of "Some b" sz m, unfolded Let_def cs pe_mmap_size_def pe_avail [OF assms(1)] of_nat_le_iff]
  show ?thesis
  proof (cases "?N - (?H - ?T) \<le> 12 + sz")
    case True
    then show ?thesis by (simp add: eq)
  next
    case False
    then obtain k where k: "?N = 2 ^ k" using assms(1) by (auto simp: pe_rep_def)
    have fit: "?H - ?T + length ?rec < ?N" "0 < ?N" using False assms(3) by auto
    have "sub64 ?N 1 = ?N - 1" using fit(2) r(3) by (intro sub64_le) (simp_all add: Suc_le_eq)
    then have off: "?H AND sub64 ?N 1 = ?H mod ?N" unfolding k by (simp only: and_low_nat)
    obtain ring' where c: "pe_copy (?H mod ?N) ?rec (pe_ring m) = Inr ring'"
      using pe_copy_nth [of "?H mod ?N" "pe_ring m" ?rec] fit by auto
    let ?m = "m\<lparr>pe_copy_size := 12 + sz\<rparr>"
    let ?m' = "?m\<lparr>pe_ring := ring', pe_data_head := ?H + length ?rec\<rparr>"
    have pend: "length ring' = ?N" "pe_pending ?m' = pe_pending ?m @ ?rec"
      using pe_pending_append [of ?m ?rec ring'] c fit r(1) by auto
    have hd: "w64 (?H + (12 + sz)) = ?H + length ?rec" using assms(2-4) by simp
    have out: "pe_output_data (Some b) sz m = (Inr (), ?m')"
      using False assms(3) off c hd by (simp add: eq rd_def)
    have "pe_pending ?m' = concat (map pe_record (ps @ [take sz b]))"
      unfolding pend(2) using assms(1,3) by (simp add: pe_rep_def pe_pending_def pe_record_def min_def)
    then have "pe_rep ?m' (ps @ [take sz b])"
      using assms r(1) k fit pend(1) unfolding pe_rep_def by auto
    then show ?thesis using False out pend(1) by auto
  qed
qed

lemma pe_ensure_rep:
  assumes "pe_rep m []" and "pe_ensure_mmap_buffer n m = (Inr (), m')" and "n < 2 ^ 63"
  shows "pe_rep m' []"
proof -
  have e: "pe_data_head m = pe_data_tail m" using assms(1) by (auto simp: pe_rep_def pe_pending_def)
  show ?thesis
  proof (cases "n > pe_pagesize m + length (pe_ring m)")
    case True
    then have p: "popcnt (n - pe_pagesize m) = 1" and m': "length (pe_ring m') = n - pe_pagesize m"
      "pe_data_head m' = pe_data_head m" "pe_data_tail m' = pe_data_tail m"
      using assms(2) by (auto simp: pe_ensure_mmap_buffer_def Let_def split: if_splits)
    then show ?thesis using popcnt_1 [OF p] assms(1,3) e by (auto simp: pe_rep_def pe_pending_def)
  next
    case False
    then show ?thesis using assms(1,2) by (simp add: pe_ensure_mmap_buffer_def)
  qed
qed

subsection \<open>The consumer\<close>

text \<open>
  How a reader of the mapped ring takes it apart: a sample has type 9, the size of the header
  leads to the next record, and the data size says how many bytes follow.
\<close>

function pe_decode :: "bytes \<Rightarrow> bytes list option" where
  "pe_decode bs =
     (if bs = [] then Some []
      else
        (let rec_size = le_nat (blk_get 6 2 bs); n = le_nat (blk_get 8 4 bs) in
         if length bs < 12 \<or> le_nat (take 4 bs) \<noteq> 9 \<or> rec_size \<noteq> 12 + n \<or> length bs < rec_size then None
         else map_option ((#) (blk_get 12 n bs)) (pe_decode (drop rec_size bs))))"
  by pat_completeness auto
termination by (relation "measure length") auto

declare pe_decode.simps [simp del]

lemma pe_head_fields:
  assumes "12 + sz < 2 ^ 16"
  shows "le_nat (take 4 (pe_head sz @ bs)) = 9 \<and> le_nat (blk_get 6 2 (pe_head sz @ bs)) = 12 + sz \<and>
    le_nat (blk_get 8 4 (pe_head sz @ bs)) = sz \<and> blk_get 12 n (pe_head sz @ bs) = take n bs"
proof -
  have "take 4 (pe_head sz @ bs) = le_bytes 4 9" "blk_get 6 2 (pe_head sz @ bs) = le_bytes 2 (12 + sz)"
    "blk_get 8 4 (pe_head sz @ bs) = le_bytes 4 sz" "blk_get 12 n (pe_head sz @ bs) = take n bs"
    by (simp_all add: pe_head_def blk_get_def)
  then show ?thesis using assms by (simp add: le_nat_le_bytes)
qed

lemma pe_decode_record:
  assumes "12 + length p < 2 ^ 16"
  shows "pe_decode (pe_record p @ bs) = map_option ((#) p) (pe_decode bs)"
proof -
  show ?thesis
    using pe_head_fields [OF assms, of "p @ bs" "length p"]
    by (subst pe_decode.simps) (simp add: pe_record_def Let_def)
qed

lemma pe_decode_records: "\<forall>p \<in> set ps. 12 + length p < 2 ^ 16 \<Longrightarrow> pe_decode (concat (map pe_record ps)) = Some ps"
  by (induction ps) (simp_all add: pe_decode_record pe_decode.simps [of "[]"])

text \<open>Taking the first record: the reader advances \<open>data_tail\<close> by the size in its header.\<close>

definition pe_consume :: "software_perf_event \<Rightarrow> software_perf_event" where
  "pe_consume m = m\<lparr>pe_data_tail := pe_data_tail m + le_nat (blk_get 6 2 (pe_pending m))\<rparr>"

lemma pe_pending_drop:
  "n \<le> pe_data_head m - pe_data_tail m \<Longrightarrow>
   pe_pending (m\<lparr>pe_data_tail := pe_data_tail m + n\<rparr>) = drop n (pe_pending m)"
  by (rule nth_equalityI) (auto simp: pe_pending_def add.assoc)

lemma pe_consume_rep:
  assumes "pe_rep m (p # ps)"
  shows "pe_rep (pe_consume m) ps"
proof -
  have p: "12 + length p < 2 ^ 16" "pe_pending m = pe_record p @ concat (map pe_record ps)"
    using assms by (auto simp: pe_rep_def)
  let ?n = "12 + length p"
  have c: "pe_consume m = m\<lparr>pe_data_tail := pe_data_tail m + ?n\<rparr>"
    using pe_head_fields [OF p(1), of "p @ concat (map pe_record ps)"] p(2)
    by (simp add: pe_consume_def pe_record_def)
  have "length (pe_pending m) = pe_data_head m - pe_data_tail m" by (simp add: pe_pending_def)
  then have n: "?n \<le> pe_data_head m - pe_data_tail m" using p(2) by simp
  show ?thesis unfolding c using assms n pe_pending_drop [OF n] p(2) by (auto simp: pe_rep_def)
qed

text \<open>
  The life of a ring between its writer and its reader. The buffer grows while it is empty, as
  \<open>mmap\<close> does before the first event; sizes and positions stay below the bounds of the words
  that hold them.
\<close>

inductive pe_reach :: "software_perf_event \<Rightarrow> bytes list \<Rightarrow> bool" where
  new: "pe_reach (pe_new page cpu config sample_type) []"
| ensure: "pe_reach m [] \<Longrightarrow> n < 2 ^ 63 \<Longrightarrow> pe_ensure_mmap_buffer n m = (Inr (), m') \<Longrightarrow> pe_reach m' []"
| emit: "pe_reach m ps \<Longrightarrow> 12 + sz < 2 ^ 16 \<Longrightarrow> sz \<le> length b \<Longrightarrow> pe_data_head m + 2 ^ 16 < 2 ^ 63 \<Longrightarrow>
    12 + sz < length (pe_ring m) - length (pe_pending m) \<Longrightarrow>
    pe_reach (snd (pe_output_data (Some b) sz m)) (ps @ [take sz b])"
| drop: "pe_reach m ps \<Longrightarrow> 12 + sz < 2 ^ 16 \<Longrightarrow> sz \<le> length b \<Longrightarrow> pe_data_head m + 2 ^ 16 < 2 ^ 63 \<Longrightarrow>
    length (pe_ring m) - length (pe_pending m) \<le> 12 + sz \<Longrightarrow>
    pe_reach (snd (pe_output_data (Some b) sz m)) ps"
| consume: "pe_reach m (p # ps) \<Longrightarrow> pe_reach (pe_consume m) ps"

lemma pe_reach_rep: "pe_reach m ps \<Longrightarrow> pe_rep m ps"
proof (induction rule: pe_reach.induct)
  case (new page cpu config sample_type)
  then show ?case by (simp add: pe_rep_def pe_new_def pe_pending_def)
next
  case (ensure m n m')
  then show ?case using pe_ensure_rep by blast
next
  case (emit m ps sz b)
  then show ?case using pe_output_refines [of m ps sz b] by (auto simp: pe_pending_def)
next
  case (drop m ps sz b)
  then show ?case using pe_output_refines [of m ps sz b] by (auto simp: pe_pending_def)
next
  case (consume m p ps)
  from consume.IH show ?case by (rule pe_consume_rep)
qed

subsection \<open>Properties\<close>


lemma pe_ex_ring: "\<exists>m. pe_reach m [] \<and> length (pe_ring m) = 2 ^ 13 \<and> pe_data_head m = 0 \<and> pe_pending m = []"
proof -
  let ?new = "pe_new 4096 0 0 0"
  have p: "popcnt (2 ^ k) = 1" for k
    by (induction k) (simp_all add: popcnt.simps [of "Suc 0"] popcnt.simps [of 0] popcnt.simps [of "2 * 2 ^ _"])
  let ?m = "snd (pe_ensure_mmap_buffer 12288 ?new)"
  have e: "pe_ensure_mmap_buffer 12288 ?new = (Inr (), ?m)"
    using p [of 13] by (simp add: pe_ensure_mmap_buffer_def pe_new_def)
  have "pe_reach ?m []" by (rule pe_reach.ensure [OF pe_reach.new _ e]) simp
  moreover have "length (pe_ring ?m) = 2 ^ 13 \<and> pe_data_head ?m = 0 \<and> pe_pending ?m = []"
    by (simp add: pe_ensure_mmap_buffer_def pe_new_def Let_def pe_pending_def)
  ultimately show ?thesis by blast
qed


text \<open>
  an event of \<open>2 ^ 16 - 12\<close> bytes or more is not refused. The 16-bit size of the record
  wraps, the test against the free space passes on the wrapped size, and the data is copied
  beyond the end of the scratch buffer, which has the wrapped size.
\<close>

theorem pe_large_event_overflows:
  assumes "pe_reach m ps" and "2 ^ 16 \<le> 12 + sz"
    and "(12 + sz) mod 2 ^ 16 < length (pe_ring m) - length (pe_pending m)"
  shows "fst (pe_output_data (Some b) sz m) = Inl UB"
proof -
  let ?N = "length (pe_ring m)" and ?T = "pe_data_tail m" and ?H = "pe_data_head m"
  let ?c = "(12 + sz) mod 2 ^ 16"
  have rep: "pe_rep m ps" by (rule pe_reach_rep [OF assms(1)])
  note eq = pe_output_data_def [of "Some b" sz m, unfolded Let_def pe_mmap_size_def pe_avail [OF rep] of_nat_le_iff]
  have "?c < 2 ^ 16" by simp
  then have c: "?c < 12 + sz" using assms(2) by linarith
  have a: "\<not> ?N - (?H - ?T) \<le> ?c" using assms(3) by (simp add: pe_pending_def)
  show ?thesis unfolding eq using a c by (simp only: if_True if_False not_less fst_conv)
qed

theorem pe_large_event_overflows_witness:
  "\<exists>m. pe_reach m [] \<and> fst (pe_output_data (Some (replicate 65524 0)) 65524 m) = Inl UB"
proof -
  obtain m where m: "pe_reach m []" "length (pe_ring m) = 2 ^ 13" "pe_pending m = []"
    using pe_ex_ring by blast
  show ?thesis using pe_large_event_overflows [OF m(1), of 65524 "replicate 65524 0"] m by auto
qed

end
