(* ===== verification/Map_Handler.thy ===== *)
theory Map_Handler
  imports Queue_Map Stack_Map Array_Map Percpu_Array Fix_Hash_Map Lru_Hash_Map Percpu_Hash Lpm_Trie
    Bloom_Filter Ringbuf Stack_Trace_Map Perf_Event
begin

text \<open>
  \<open>bpf_map_handler\<close> (\<open>handler/map_handler.cpp\<close>): the dispatch of the map operations on the map
  type, and the creation and destruction of the implementation as a named object of the
  shared memory segment.

  The segment is a table from names to object identifiers and one from identifiers to
  objects; identifiers are not used again, so a pointer to a destroyed object stays
  dangling. \<open>construct\<close> on a name in use returns the null pointer, as Boost.Interprocess
  documents. The spin lock of the handler is not modelled: a call is one step.

  Maps shared with the kernel are outside the model; they are objects of the type
  \<open>kernel_user_map\<close>, with their operations among the parameters.
\<close>

unbundle bit_operations_syntax

subsection \<open>Types\<close>

datatype bpf_map_type =
    BPF_MAP_TYPE_HASH | BPF_MAP_TYPE_ARRAY | BPF_MAP_TYPE_PROG_ARRAY | BPF_MAP_TYPE_PERF_EVENT_ARRAY
  | BPF_MAP_TYPE_PERCPU_HASH | BPF_MAP_TYPE_PERCPU_ARRAY | BPF_MAP_TYPE_STACK_TRACE | BPF_MAP_TYPE_LRU_HASH
  | BPF_MAP_TYPE_LPM_TRIE | BPF_MAP_TYPE_ARRAY_OF_MAPS | BPF_MAP_TYPE_QUEUE | BPF_MAP_TYPE_STACK
  | BPF_MAP_TYPE_RINGBUF | BPF_MAP_TYPE_BLOOM_FILTER | BPF_MAP_TYPE_KERNEL_USER_HASH
  | BPF_MAP_TYPE_KERNEL_USER_ARRAY | BPF_MAP_TYPE_KERNEL_USER_PERCPU_ARRAY
  | BPF_MAP_TYPE_KERNEL_USER_PERF_EVENT_ARRAY | BPF_MAP_TYPE_OTHER int

text \<open>\<open>(bpf_map_type)type\<close>; the types without a case of their own keep their number.\<close>

definition map_type_of :: "int \<Rightarrow> bpf_map_type" where
  "map_type_of n =
     (if n = 1 then BPF_MAP_TYPE_HASH else if n = 2 then BPF_MAP_TYPE_ARRAY
      else if n = 3 then BPF_MAP_TYPE_PROG_ARRAY else if n = 4 then BPF_MAP_TYPE_PERF_EVENT_ARRAY
      else if n = 5 then BPF_MAP_TYPE_PERCPU_HASH else if n = 6 then BPF_MAP_TYPE_PERCPU_ARRAY
      else if n = 7 then BPF_MAP_TYPE_STACK_TRACE else if n = 9 then BPF_MAP_TYPE_LRU_HASH
      else if n = 11 then BPF_MAP_TYPE_LPM_TRIE else if n = 12 then BPF_MAP_TYPE_ARRAY_OF_MAPS
      else if n = 22 then BPF_MAP_TYPE_QUEUE else if n = 23 then BPF_MAP_TYPE_STACK
      else if n = 27 then BPF_MAP_TYPE_RINGBUF else if n = 30 then BPF_MAP_TYPE_BLOOM_FILTER
      else if n = 1001 then BPF_MAP_TYPE_KERNEL_USER_HASH else if n = 1002 then BPF_MAP_TYPE_KERNEL_USER_ARRAY
      else if n = 1006 then BPF_MAP_TYPE_KERNEL_USER_PERCPU_ARRAY
      else if n = 1004 then BPF_MAP_TYPE_KERNEL_USER_PERF_EVENT_ARRAY
      else BPF_MAP_TYPE_OTHER n)"

record bpf_map_attr =
  at_type :: int
  at_key_size :: nat
  at_value_size :: nat
  at_max_ents :: nat
  at_flags :: nat
  at_ifindex :: nat
  at_btf_vmlinux_value_type_id :: nat
  at_btf_id :: nat
  at_btf_key_type_id :: nat
  at_btf_value_type_id :: nat
  at_map_extra :: nat
  at_kernel_bpf_map_id :: nat
  at_gpu_thread_count :: nat

typedecl kernel_user_map

datatype map_impl =
    Hash_Impl fix_hash
  | Array_Impl array_map
  | Ringbuf_Impl ringbuf
  | Perf_Event_Array_Impl perf_event_array
  | Percpu_Array_Impl percpu_array
  | Percpu_Hash_Impl percpu_hash
  | Stack_Trace_Impl stack_trace_map
  | Queue_Impl queue_map
  | Stack_Impl stack_map
  | Bloom_Impl bloom_map
  | Lru_Impl lru_map
  | Lpm_Impl lpm_map
  | Prog_Array_Impl prog_array
  | Array_Of_Maps_Impl array_map
  | Kernel_User_Impl bpf_map_type kernel_user_map

primrec impl_type :: "map_impl \<Rightarrow> bpf_map_type" where
  "impl_type (Hash_Impl m) = BPF_MAP_TYPE_HASH"
| "impl_type (Array_Impl m) = BPF_MAP_TYPE_ARRAY"
| "impl_type (Ringbuf_Impl m) = BPF_MAP_TYPE_RINGBUF"
| "impl_type (Perf_Event_Array_Impl m) = BPF_MAP_TYPE_PERF_EVENT_ARRAY"
| "impl_type (Percpu_Array_Impl m) = BPF_MAP_TYPE_PERCPU_ARRAY"
| "impl_type (Percpu_Hash_Impl m) = BPF_MAP_TYPE_PERCPU_HASH"
| "impl_type (Stack_Trace_Impl m) = BPF_MAP_TYPE_STACK_TRACE"
| "impl_type (Queue_Impl m) = BPF_MAP_TYPE_QUEUE"
| "impl_type (Stack_Impl m) = BPF_MAP_TYPE_STACK"
| "impl_type (Bloom_Impl m) = BPF_MAP_TYPE_BLOOM_FILTER"
| "impl_type (Lru_Impl m) = BPF_MAP_TYPE_LRU_HASH"
| "impl_type (Lpm_Impl m) = BPF_MAP_TYPE_LPM_TRIE"
| "impl_type (Prog_Array_Impl m) = BPF_MAP_TYPE_PROG_ARRAY"
| "impl_type (Array_Of_Maps_Impl m) = BPF_MAP_TYPE_ARRAY_OF_MAPS"
| "impl_type (Kernel_User_Impl t m) = t"

text \<open>What a lookup points to: the bytes of an element, or the handle of an inner map.\<close>

datatype elem = Elem bytes | Handle nat

text \<open>The table of operations for map types that are not built in, one row per type.\<close>

record map_ops =
  op_alloc_map :: "(int \<Rightarrow> string \<Rightarrow> bpf_map_attr \<Rightarrow> unit res) option"
  op_map_free :: "(int \<Rightarrow> unit) option"
  op_elem_lookup :: "(int \<Rightarrow> ptr \<Rightarrow> bool \<Rightarrow> elem res) option"
  op_elem_update :: "(int \<Rightarrow> ptr \<Rightarrow> ptr \<Rightarrow> nat \<Rightarrow> bool \<Rightarrow> unit res) option"
  op_elem_delete :: "(int \<Rightarrow> ptr \<Rightarrow> bool \<Rightarrow> unit res) option"
  op_map_get_next_key :: "(int \<Rightarrow> ptr \<Rightarrow> outbuf \<Rightarrow> bool \<Rightarrow> bytes res) option"

definition no_ops :: map_ops where
  "no_ops = \<lparr>op_alloc_map = None, op_map_free = None, op_elem_lookup = None, op_elem_update = None,
     op_elem_delete = None, op_map_get_next_key = None\<rparr>"

text \<open>
  What the process and its machine provide: the processors, the page size, the random seed of
  a bloom filter, the iteration order of the hash containers, the success of a node
  allocation, the kernel's program ids, the agent configuration, the table of operations of
  external map types, and the maps shared with the kernel.
\<close>

record runtime_env =
  re_cpu :: nat
  re_ncpu :: nat
  re_page_size :: nat
  re_seed :: u32
  re_ins :: "bytes inserter"
  re_lru_ins :: "lru_value inserter"
  re_lpm_alloc :: "nat \<Rightarrow> bool"
  re_prog_fd :: "nat \<Rightarrow> nat \<Rightarrow> int"
  re_prog_info :: "int \<Rightarrow> int \<times> nat"
  re_allow_non_buildin :: bool
  re_ops :: "map_ops list"
  re_ku_new :: "bpf_map_type \<Rightarrow> nat \<Rightarrow> kernel_user_map res"
  re_ku_lookup :: "ptr \<Rightarrow> kernel_user_map \<Rightarrow> elem res \<times> kernel_user_map"
  re_ku_update :: "ptr \<Rightarrow> ptr \<Rightarrow> nat \<Rightarrow> kernel_user_map \<Rightarrow> unit res \<times> kernel_user_map"
  re_ku_delete :: "ptr \<Rightarrow> kernel_user_map \<Rightarrow> unit res \<times> kernel_user_map"
  re_ku_next_key :: "ptr \<Rightarrow> outbuf \<Rightarrow> kernel_user_map \<Rightarrow> bytes res"

text \<open>\<open>global_map_ops_table[(int)type]\<close>: the index is not tested.\<close>

definition ops_at :: "runtime_env \<Rightarrow> int \<Rightarrow> map_ops res" where
  "ops_at e t = (if 0 \<le> t \<and> nat t < length (re_ops e) then Inr (re_ops e ! nat t) else Inl UB)"

definition bpftime_register_map_ops :: "int \<Rightarrow> map_ops \<Rightarrow> map_ops list \<Rightarrow> unit res \<times> map_ops list" where
  "bpftime_register_map_ops map_type ops tbl =
     (if map_type < 0 \<or> map_type \<ge> 2048 then (Inl MinusOne, tbl) else (Inr (), tbl[nat map_type := ops]))"

subsection \<open>The operations of an implementation\<close>

definition as_elem :: "bytes res \<Rightarrow> elem res" where
  "as_elem r = (case r of Inl f \<Rightarrow> Inl f | Inr bs \<Rightarrow> Inr (Elem bs))"

definition as_impl :: "('m \<Rightarrow> map_impl) \<Rightarrow> 'a \<times> 'm \<Rightarrow> 'a \<times> map_impl" where
  "as_impl C p = (case p of (r, m) \<Rightarrow> (r, C m))"

primrec impl_lookup :: "runtime_env \<Rightarrow> ptr \<Rightarrow> bool \<Rightarrow> map_impl \<Rightarrow> elem res \<times> map_impl" where
  "impl_lookup e key from_syscall (Hash_Impl m) = (as_elem (fh_elem_lookup key m), Hash_Impl m)"
| "impl_lookup e key from_syscall (Array_Impl m) = (as_elem (arr_elem_lookup key m), Array_Impl m)"
| "impl_lookup e key from_syscall (Ringbuf_Impl m) = (as_elem (rb_elem_lookup key m), Ringbuf_Impl m)"
| "impl_lookup e key from_syscall (Perf_Event_Array_Impl m) = (as_elem (pea_elem_lookup key m), Perf_Event_Array_Impl m)"
| "impl_lookup e key from_syscall (Percpu_Array_Impl m) =
     (as_elem (if from_syscall then pca_elem_lookup_userspace key m else pca_elem_lookup (re_cpu e) key m),
      Percpu_Array_Impl m)"
| "impl_lookup e key from_syscall (Percpu_Hash_Impl m) =
     (as_elem (if from_syscall then pch_elem_lookup_userspace key m else pch_elem_lookup (re_cpu e) key m),
      Percpu_Hash_Impl m)"
| "impl_lookup e key from_syscall (Stack_Trace_Impl m) = (as_elem (st_elem_lookup key m), Stack_Trace_Impl m)"
| "impl_lookup e key from_syscall (Queue_Impl m) = (as_elem (queue_elem_lookup key m), Queue_Impl m)"
| "impl_lookup e key from_syscall (Stack_Impl m) = (as_elem (stack_elem_lookup key m), Stack_Impl m)"
| "impl_lookup e key from_syscall (Bloom_Impl m) = (as_elem (bf_elem_lookup key m), Bloom_Impl m)"
| "impl_lookup e key from_syscall (Lru_Impl m) = (case lru_elem_lookup key m of (r, m') \<Rightarrow> (as_elem r, Lru_Impl m'))"
| "impl_lookup e key from_syscall (Lpm_Impl m) = (as_elem (lpm_elem_lookup key m), Lpm_Impl m)"
| "impl_lookup e key from_syscall (Prog_Array_Impl m) =
     (as_elem (pga_elem_lookup (re_prog_fd e) key m), Prog_Array_Impl m)"
| "impl_lookup e key from_syscall (Array_Of_Maps_Impl m) =
     (and_then (aom_elem_lookup key m) (\<lambda>n. Inr (Handle n)), Array_Of_Maps_Impl m)"
| "impl_lookup e key from_syscall (Kernel_User_Impl t m) = as_impl (Kernel_User_Impl t) (re_ku_lookup e key m)"

primrec impl_update ::
  "runtime_env \<Rightarrow> ptr \<Rightarrow> ptr \<Rightarrow> nat \<Rightarrow> bool \<Rightarrow> map_impl \<Rightarrow> unit res \<times> map_impl"
where
  "impl_update e key value flags from_syscall (Hash_Impl m) = as_impl Hash_Impl (fh_elem_update key value flags m)"
| "impl_update e key value flags from_syscall (Array_Impl m) = as_impl Array_Impl (arr_elem_update key value flags m)"
| "impl_update e key value flags from_syscall (Ringbuf_Impl m) = as_impl Ringbuf_Impl (rb_elem_update key value flags m)"
| "impl_update e key value flags from_syscall (Perf_Event_Array_Impl m) =
     as_impl Perf_Event_Array_Impl (pea_elem_update key value flags m)"
| "impl_update e key value flags from_syscall (Percpu_Array_Impl m) =
     as_impl Percpu_Array_Impl
       (if from_syscall then pca_elem_update_userspace key value flags m
        else pca_elem_update (re_cpu e) key value flags m)"
| "impl_update e key value flags from_syscall (Percpu_Hash_Impl m) =
     as_impl Percpu_Hash_Impl
       (if from_syscall then pch_elem_update_userspace (re_ins e) key value flags m
        else pch_elem_update (re_ins e) (re_cpu e) key value flags m)"
| "impl_update e key value flags from_syscall (Stack_Trace_Impl m) =
     as_impl Stack_Trace_Impl (st_elem_update key value flags m)"
| "impl_update e key value flags from_syscall (Queue_Impl m) = as_impl Queue_Impl (queue_elem_update key value flags m)"
| "impl_update e key value flags from_syscall (Stack_Impl m) = as_impl Stack_Impl (stack_elem_update key value flags m)"
| "impl_update e key value flags from_syscall (Bloom_Impl m) = as_impl Bloom_Impl (bf_elem_update key value flags m)"
| "impl_update e key value flags from_syscall (Lru_Impl m) =
     as_impl Lru_Impl (lru_elem_update (re_lru_ins e) key value flags m)"
| "impl_update e key value flags from_syscall (Lpm_Impl m) =
     as_impl Lpm_Impl (lpm_elem_update (re_lpm_alloc e) key value flags m)"
| "impl_update e key value flags from_syscall (Prog_Array_Impl m) =
     as_impl Prog_Array_Impl (pga_elem_update (re_prog_info e) key value flags m)"
| "impl_update e key value flags from_syscall (Array_Of_Maps_Impl m) =
     as_impl Array_Of_Maps_Impl (arr_elem_update key value flags m)"
| "impl_update e key value flags from_syscall (Kernel_User_Impl t m) =
     as_impl (Kernel_User_Impl t) (re_ku_update e key value flags m)"

primrec impl_delete :: "runtime_env \<Rightarrow> ptr \<Rightarrow> bool \<Rightarrow> map_impl \<Rightarrow> unit res \<times> map_impl" where
  "impl_delete e key from_syscall (Hash_Impl m) = as_impl Hash_Impl (fh_elem_delete key m)"
| "impl_delete e key from_syscall (Array_Impl m) = (arr_elem_delete key m, Array_Impl m)"
| "impl_delete e key from_syscall (Ringbuf_Impl m) = as_impl Ringbuf_Impl (rb_elem_delete key m)"
| "impl_delete e key from_syscall (Perf_Event_Array_Impl m) = as_impl Perf_Event_Array_Impl (pea_elem_delete key m)"
| "impl_delete e key from_syscall (Percpu_Array_Impl m) =
     ((if from_syscall then pca_elem_delete_userspace key m else pca_elem_delete key m), Percpu_Array_Impl m)"
| "impl_delete e key from_syscall (Percpu_Hash_Impl m) =
     as_impl Percpu_Hash_Impl
       (if from_syscall then pch_elem_delete_userspace key m else pch_elem_delete (re_cpu e) key m)"
| "impl_delete e key from_syscall (Stack_Trace_Impl m) = as_impl Stack_Trace_Impl (st_elem_delete key m)"
| "impl_delete e key from_syscall (Queue_Impl m) = as_impl Queue_Impl (queue_elem_delete key m)"
| "impl_delete e key from_syscall (Stack_Impl m) = as_impl Stack_Impl (stack_elem_delete key m)"
| "impl_delete e key from_syscall (Bloom_Impl m) = as_impl Bloom_Impl (bf_elem_delete key m)"
| "impl_delete e key from_syscall (Lru_Impl m) = as_impl Lru_Impl (lru_elem_delete key m)"
| "impl_delete e key from_syscall (Lpm_Impl m) = as_impl Lpm_Impl (lpm_elem_delete key m)"
| "impl_delete e key from_syscall (Prog_Array_Impl m) = as_impl Prog_Array_Impl (pga_elem_delete key m)"
| "impl_delete e key from_syscall (Array_Of_Maps_Impl m) = (arr_elem_delete key m, Array_Of_Maps_Impl m)"
| "impl_delete e key from_syscall (Kernel_User_Impl t m) = as_impl (Kernel_User_Impl t) (re_ku_delete e key m)"

primrec impl_next_key :: "runtime_env \<Rightarrow> ptr \<Rightarrow> outbuf \<Rightarrow> map_impl \<Rightarrow> bytes res" where
  "impl_next_key e key next_key (Hash_Impl m) = fh_map_get_next_key key next_key m"
| "impl_next_key e key next_key (Array_Impl m) = arr_map_get_next_key key next_key m"
| "impl_next_key e key next_key (Ringbuf_Impl m) = rb_map_get_next_key key next_key m"
| "impl_next_key e key next_key (Perf_Event_Array_Impl m) = pea_map_get_next_key key next_key m"
| "impl_next_key e key next_key (Percpu_Array_Impl m) = pca_map_get_next_key key next_key m"
| "impl_next_key e key next_key (Percpu_Hash_Impl m) = pch_map_get_next_key key next_key m"
| "impl_next_key e key next_key (Stack_Trace_Impl m) = st_map_get_next_key key next_key m"
| "impl_next_key e key next_key (Queue_Impl m) = queue_map_get_next_key key next_key m"
| "impl_next_key e key next_key (Stack_Impl m) = stack_map_get_next_key key next_key m"
| "impl_next_key e key next_key (Bloom_Impl m) = bf_map_get_next_key key next_key m"
| "impl_next_key e key next_key (Lru_Impl m) = lru_map_get_next_key key next_key m"
| "impl_next_key e key next_key (Lpm_Impl m) = lpm_map_get_next_key key next_key m"
| "impl_next_key e key next_key (Prog_Array_Impl m) = pga_map_get_next_key key next_key m"
| "impl_next_key e key next_key (Array_Of_Maps_Impl m) = arr_map_get_next_key key next_key m"
| "impl_next_key e key next_key (Kernel_User_Impl t m) = re_ku_next_key e key next_key m"

primrec impl_push :: "ptr \<Rightarrow> nat \<Rightarrow> map_impl \<Rightarrow> unit res \<times> map_impl" where
  "impl_push value flags (Queue_Impl m) = as_impl Queue_Impl (queue_map_push_elem value flags m)"
| "impl_push value flags (Stack_Impl m) = as_impl Stack_Impl (stack_map_push_elem value flags m)"
| "impl_push value flags (Bloom_Impl m) = as_impl Bloom_Impl (bf_map_push_elem value flags m)"
| "impl_push value flags (Hash_Impl m) = (Inl UB, Hash_Impl m)"
| "impl_push value flags (Array_Impl m) = (Inl UB, Array_Impl m)"
| "impl_push value flags (Ringbuf_Impl m) = (Inl UB, Ringbuf_Impl m)"
| "impl_push value flags (Perf_Event_Array_Impl m) = (Inl UB, Perf_Event_Array_Impl m)"
| "impl_push value flags (Percpu_Array_Impl m) = (Inl UB, Percpu_Array_Impl m)"
| "impl_push value flags (Percpu_Hash_Impl m) = (Inl UB, Percpu_Hash_Impl m)"
| "impl_push value flags (Stack_Trace_Impl m) = (Inl UB, Stack_Trace_Impl m)"
| "impl_push value flags (Lru_Impl m) = (Inl UB, Lru_Impl m)"
| "impl_push value flags (Lpm_Impl m) = (Inl UB, Lpm_Impl m)"
| "impl_push value flags (Prog_Array_Impl m) = (Inl UB, Prog_Array_Impl m)"
| "impl_push value flags (Array_Of_Maps_Impl m) = (Inl UB, Array_Of_Maps_Impl m)"
| "impl_push value flags (Kernel_User_Impl t m) = (Inl UB, Kernel_User_Impl t m)"

definition impl_pop :: "outbuf \<Rightarrow> map_impl \<Rightarrow> bytes res \<times> map_impl" where
  "impl_pop value x = (case x of
       Queue_Impl m \<Rightarrow> as_impl Queue_Impl (queue_map_pop_elem value m)
     | Stack_Impl m \<Rightarrow> as_impl Stack_Impl (stack_map_pop_elem value m)
     | _ \<Rightarrow> (Inl UB, x))"

text \<open>
  \<open>map_peek_elem(void *value)\<close> writes the element for a queue or a stack; a bloom filter reads
  the value to test from it. \<open>value\<close> is the buffer with its contents.
\<close>

definition impl_peek :: "ptr \<Rightarrow> map_impl \<Rightarrow> bytes res \<times> map_impl" where
  "impl_peek value x = (case x of
       Queue_Impl m \<Rightarrow> (queue_map_peek_elem (map_option length value) m, x)
     | Stack_Impl m \<Rightarrow> (stack_map_peek_elem (map_option length value) m, x)
     | Bloom_Impl m \<Rightarrow> (and_then (bf_map_peek_elem value m) (\<lambda>_. Inr (case value of None \<Rightarrow> [] | Some bs \<Rightarrow> bs)), x)
     | _ \<Rightarrow> (Inl UB, x))"

subsection \<open>The segment\<close>

record segment =
  sg_names :: "string \<rightharpoonup> nat"
  sg_objs :: "nat \<rightharpoonup> map_impl"
  sg_next :: nat

definition sg_construct :: "string \<Rightarrow> map_impl res \<Rightarrow> segment \<Rightarrow> nat option res \<times> segment" where
  "sg_construct name impl s = (case sg_names s name of
       Some _ \<Rightarrow> (Inr None, s)
     | None \<Rightarrow> (case impl of
           Inl f \<Rightarrow> (Inl f, s)
         | Inr x \<Rightarrow> (Inr (Some (sg_next s)),
             s\<lparr>sg_names := (sg_names s)(name \<mapsto> sg_next s), sg_objs := (sg_objs s)(sg_next s \<mapsto> x),
               sg_next := sg_next s + 1\<rparr>)))"

text \<open>\<open>destroy<T>(name)\<close>: runs the destructor of \<open>T\<close> on the object of that name, if there is one.\<close>

definition sg_destroy :: "bpf_map_type \<Rightarrow> string \<Rightarrow> segment \<Rightarrow> unit res \<times> segment" where
  "sg_destroy t name s = (case sg_names s name of
       None \<Rightarrow> (Inr (), s)
     | Some i \<Rightarrow> (case sg_objs s i of
           None \<Rightarrow> (Inl UB, s)
         | Some x \<Rightarrow>
             (if impl_type x \<noteq> t then (Inl UB, s)
              else (Inr (), s\<lparr>sg_names := (sg_names s)(name := None), sg_objs := (sg_objs s)(i := None)\<rparr>))))"

subsection \<open>The handler\<close>

record map_handler =
  mh_attr :: bpf_map_attr
  mh_type :: bpf_map_type
  mh_name :: string
  mh_id :: int
  mh_map_impl_ptr :: "nat option"
  mh_max_entries :: nat
  mh_flags :: nat
  mh_key_size :: nat
  mh_value_size :: nat

text \<open>The constructor drops its \<open>id\<close> argument: the field keeps its initial value 0.\<close>

definition mh_new :: "int \<Rightarrow> string \<Rightarrow> bpf_map_attr \<Rightarrow> map_handler" where
  "mh_new ident name attr =
     \<lparr>mh_attr = attr, mh_type = map_type_of (at_type attr), mh_name = name, mh_id = 0, mh_map_impl_ptr = None,
      mh_max_entries = at_max_ents attr, mh_flags = at_flags attr, mh_key_size = at_key_size attr,
      mh_value_size = at_value_size attr\<rparr>"

definition get_container_name :: "map_handler \<Rightarrow> string" where
  "get_container_name h = ''ebpf_map_fd_'' @ mh_name h"

definition get_userspace_value_size :: "runtime_env \<Rightarrow> map_handler \<Rightarrow> nat" where
  "get_userspace_value_size e h =
     (let result = mh_value_size h;
          result = (if mh_type h = BPF_MAP_TYPE_PERCPU_ARRAY \<or> mh_type h = BPF_MAP_TYPE_PERCPU_HASH
            then w32 (result * re_ncpu e) else result) in
      if mh_type h = BPF_MAP_TYPE_OTHER 1502 then w32 (result * at_gpu_thread_count (mh_attr h)) else result)"

text \<open>The constructor calls of \<open>map_init\<close>.\<close>

definition impl_new :: "runtime_env \<Rightarrow> map_handler \<Rightarrow> map_impl res" where
  "impl_new e h =
     (let max_entries = mh_max_entries h; key_size = mh_key_size h; value_size = mh_value_size h in
      case mh_type h of
        BPF_MAP_TYPE_HASH \<Rightarrow> Inr (Hash_Impl (fh_new max_entries key_size value_size))
      | BPF_MAP_TYPE_ARRAY \<Rightarrow> Inr (Array_Impl (arr_new value_size max_entries))
      | BPF_MAP_TYPE_RINGBUF \<Rightarrow> and_then (rb_new (re_page_size e) max_entries) (\<lambda>m. Inr (Ringbuf_Impl m))
      | BPF_MAP_TYPE_PERF_EVENT_ARRAY \<Rightarrow>
          and_then (pea_new key_size value_size max_entries) (\<lambda>m. Inr (Perf_Event_Array_Impl m))
      | BPF_MAP_TYPE_PERCPU_ARRAY \<Rightarrow> Inr (Percpu_Array_Impl (pca_new value_size max_entries (re_ncpu e)))
      | BPF_MAP_TYPE_PERCPU_HASH \<Rightarrow> Inr (Percpu_Hash_Impl (pch_new key_size value_size max_entries (re_ncpu e)))
      | BPF_MAP_TYPE_QUEUE \<Rightarrow> and_then (queue_new value_size max_entries) (\<lambda>m. Inr (Queue_Impl m))
      | BPF_MAP_TYPE_STACK \<Rightarrow> and_then (stack_new value_size max_entries) (\<lambda>m. Inr (Stack_Impl m))
      | BPF_MAP_TYPE_BLOOM_FILTER \<Rightarrow>
          (let nr_hashes = at_map_extra (mh_attr h) AND 15;
               nr_hashes = (if nr_hashes = 0 then 5 else nr_hashes) in
           and_then (bf_new (re_seed e) value_size max_entries nr_hashes JHASH) (\<lambda>m. Inr (Bloom_Impl m)))
      | BPF_MAP_TYPE_PROG_ARRAY \<Rightarrow> and_then (pga_new key_size value_size max_entries) (\<lambda>m. Inr (Prog_Array_Impl m))
      | BPF_MAP_TYPE_STACK_TRACE \<Rightarrow> and_then (st_new key_size value_size max_entries) (\<lambda>m. Inr (Stack_Trace_Impl m))
      | BPF_MAP_TYPE_ARRAY_OF_MAPS \<Rightarrow> Inr (Array_Of_Maps_Impl (aom_new max_entries))
      | BPF_MAP_TYPE_LRU_HASH \<Rightarrow> Inr (Lru_Impl (lru_new key_size value_size max_entries))
      | BPF_MAP_TYPE_LPM_TRIE \<Rightarrow> and_then (lpm_new key_size value_size max_entries) (\<lambda>m. Inr (Lpm_Impl m))
      | t \<Rightarrow> and_then (re_ku_new e t (at_kernel_bpf_map_id (mh_attr h))) (\<lambda>m. Inr (Kernel_User_Impl t m)))"

definition map_init :: "runtime_env \<Rightarrow> map_handler \<Rightarrow> segment \<Rightarrow> unit res \<times> map_handler \<times> segment" where
  "map_init e h s = (case mh_type h of
       BPF_MAP_TYPE_OTHER t \<Rightarrow>
         (if re_allow_non_buildin e then
            (and_then (ops_at e t) (\<lambda>ops. case op_alloc_map ops of
                 Some f \<Rightarrow> f (mh_id h) (mh_name h) (mh_attr h)
               | None \<Rightarrow> Inr ()),
             h\<lparr>mh_map_impl_ptr := None\<rparr>, s)
          else (Inl MinusOne, h, s))
     | t \<Rightarrow>
         (if t = BPF_MAP_TYPE_RINGBUF \<and> popcnt (mh_max_entries h) \<noteq> 1 then (Inl MinusOne, h, s)
          else if t = BPF_MAP_TYPE_BLOOM_FILTER \<and> mh_key_size h \<noteq> 0 then (Inl MinusOne, h, s)
          else (case sg_construct (get_container_name h) (impl_new e h) s of
              (Inl f, s') \<Rightarrow> (Inl f, h, s')
            | (Inr p, s') \<Rightarrow> (Inr (), h\<lparr>mh_map_impl_ptr := p\<rparr>, s'))))"

text \<open>The switch of \<open>map_free\<close> has no case for an array of maps: it takes the default branch.\<close>

definition map_free :: "runtime_env \<Rightarrow> map_handler \<Rightarrow> segment \<Rightarrow> unit res \<times> map_handler \<times> segment" where
  "map_free e h s =
     (let default = (\<lambda>t. and_then (ops_at e t) (\<lambda>_. Inr ()));
          (r, s') = (case mh_type h of
              BPF_MAP_TYPE_OTHER t \<Rightarrow> (default t, s)
            | BPF_MAP_TYPE_ARRAY_OF_MAPS \<Rightarrow> (default 12, s)
            | t \<Rightarrow> sg_destroy t (get_container_name h) s) in
      (r, h\<lparr>mh_map_impl_ptr := None\<rparr>, s'))"

text \<open>
  A call through \<open>static_cast<T *>(map_impl_ptr.get())\<close>. A null pointer, a pointer to a
  destroyed object and an object of another type are undefined.
\<close>

definition mh_call :: "(map_impl \<Rightarrow> 'a res \<times> map_impl) \<Rightarrow> map_handler \<Rightarrow> segment \<Rightarrow> 'a res \<times> segment" where
  "mh_call f h s = (case mh_map_impl_ptr h of
       None \<Rightarrow> (Inl UB, s)
     | Some i \<Rightarrow> (case sg_objs s i of
           None \<Rightarrow> (Inl UB, s)
         | Some x \<Rightarrow>
             (if impl_type x \<noteq> mh_type h then (Inl UB, s)
              else (case f x of (r, x') \<Rightarrow> (r, s\<lparr>sg_objs := (sg_objs s)(i \<mapsto> x')\<rparr>)))))"

definition map_lookup_elem :: "runtime_env \<Rightarrow> ptr \<Rightarrow> bool \<Rightarrow> map_handler \<Rightarrow> segment \<Rightarrow> elem res \<times> segment" where
  "map_lookup_elem e key from_syscall h s = (case mh_type h of
       BPF_MAP_TYPE_OTHER t \<Rightarrow>
         (and_then (ops_at e t) (\<lambda>ops. case op_elem_lookup ops of
              Some f \<Rightarrow> f (mh_id h) key from_syscall
            | None \<Rightarrow> Inl MinusOne), s)
     | _ \<Rightarrow> mh_call (impl_lookup e key from_syscall) h s)"

definition map_update_elem ::
  "runtime_env \<Rightarrow> ptr \<Rightarrow> ptr \<Rightarrow> nat \<Rightarrow> bool \<Rightarrow> map_handler \<Rightarrow> segment \<Rightarrow> unit res \<times> segment"
where
  "map_update_elem e key value flags from_syscall h s = (case mh_type h of
       BPF_MAP_TYPE_OTHER t \<Rightarrow>
         (and_then (ops_at e t) (\<lambda>ops. case op_elem_update ops of
              Some f \<Rightarrow> f (mh_id h) key value flags from_syscall
            | None \<Rightarrow> Inl MinusOne), s)
     | t \<Rightarrow>
         (if t = BPF_MAP_TYPE_ARRAY_OF_MAPS \<and> \<not> from_syscall then (Inl (NegErrno EINVAL), s)
          else mh_call (impl_update e key value flags from_syscall) h s))"

definition bpf_map_get_next_key ::
  "runtime_env \<Rightarrow> ptr \<Rightarrow> outbuf \<Rightarrow> bool \<Rightarrow> map_handler \<Rightarrow> segment \<Rightarrow> bytes res \<times> segment"
where
  "bpf_map_get_next_key e key next_key from_syscall h s = (case mh_type h of
       BPF_MAP_TYPE_OTHER t \<Rightarrow>
         (and_then (ops_at e t) (\<lambda>ops. case op_map_get_next_key ops of
              Some f \<Rightarrow> f (mh_id h) key next_key from_syscall
            | None \<Rightarrow> Inl MinusOne), s)
     | _ \<Rightarrow> mh_call (\<lambda>x. (impl_next_key e key next_key x, x)) h s)"

definition map_delete_elem :: "runtime_env \<Rightarrow> ptr \<Rightarrow> bool \<Rightarrow> map_handler \<Rightarrow> segment \<Rightarrow> unit res \<times> segment" where
  "map_delete_elem e key from_syscall h s = (case mh_type h of
       BPF_MAP_TYPE_OTHER t \<Rightarrow>
         (and_then (ops_at e t) (\<lambda>ops. case op_elem_delete ops of
              Some f \<Rightarrow> f (mh_id h) key from_syscall
            | None \<Rightarrow> Inl MinusOne), s)
     | t \<Rightarrow>
         (if t = BPF_MAP_TYPE_ARRAY_OF_MAPS \<and> \<not> from_syscall then (Inl (NegErrno EINVAL), s)
          else mh_call (impl_delete e key from_syscall) h s))"

definition map_push_elem :: "ptr \<Rightarrow> nat \<Rightarrow> bool \<Rightarrow> map_handler \<Rightarrow> segment \<Rightarrow> unit res \<times> segment" where
  "map_push_elem value flags from_syscall h s =
     (if mh_type h = BPF_MAP_TYPE_QUEUE \<or> mh_type h = BPF_MAP_TYPE_STACK \<or> mh_type h = BPF_MAP_TYPE_BLOOM_FILTER
      then mh_call (impl_push value flags) h s
      else (Inl (NegErrno ENOTSUP), s))"

definition map_pop_elem :: "outbuf \<Rightarrow> bool \<Rightarrow> map_handler \<Rightarrow> segment \<Rightarrow> bytes res \<times> segment" where
  "map_pop_elem value from_syscall h s =
     (if mh_type h = BPF_MAP_TYPE_QUEUE \<or> mh_type h = BPF_MAP_TYPE_STACK then mh_call (impl_pop value) h s
      else (Inl (NegErrno ENOTSUP), s))"

definition map_peek_elem :: "ptr \<Rightarrow> bool \<Rightarrow> map_handler \<Rightarrow> segment \<Rightarrow> bytes res \<times> segment" where
  "map_peek_elem value from_syscall h s =
     (if mh_type h = BPF_MAP_TYPE_QUEUE \<or> mh_type h = BPF_MAP_TYPE_STACK \<or> mh_type h = BPF_MAP_TYPE_BLOOM_FILTER
      then mh_call (impl_peek value) h s
      else (Inl (NegErrno ENOTSUP), s))"

text \<open>
  \<open>None\<close> is the empty optional; the inner option is the (possibly null) pointer.
\<close>

definition try_get_ringbuf_map_impl :: "map_handler \<Rightarrow> nat option option" where
  "try_get_ringbuf_map_impl h = (if mh_type h \<noteq> BPF_MAP_TYPE_RINGBUF then None else Some (mh_map_impl_ptr h))"

definition try_get_array_map_impl :: "map_handler \<Rightarrow> nat option option" where
  "try_get_array_map_impl h = (if mh_type h \<noteq> BPF_MAP_TYPE_ARRAY then None else Some (mh_map_impl_ptr h))"

definition try_get_stack_trace_map_impl :: "map_handler \<Rightarrow> nat option option" where
  "try_get_stack_trace_map_impl h =
     (if mh_type h \<noteq> BPF_MAP_TYPE_STACK_TRACE then None else Some (mh_map_impl_ptr h))"

definition try_get_shared_perf_event_array_map_impl :: "map_handler \<Rightarrow> nat option option" where
  "try_get_shared_perf_event_array_map_impl h =
     (if mh_type h \<noteq> BPF_MAP_TYPE_KERNEL_USER_PERF_EVENT_ARRAY then None else Some (mh_map_impl_ptr h))"

subsection \<open>Calls and the segment\<close>

text \<open>How a call may change the segment: one object, which keeps its type.\<close>

definition sg_frame :: "nat option \<Rightarrow> segment \<Rightarrow> segment \<Rightarrow> bool" where
  "sg_frame p s s' \<longleftrightarrow> sg_names s' = sg_names s \<and> sg_next s' = sg_next s \<and>
     (\<forall>j. p \<noteq> Some j \<longrightarrow> sg_objs s' j = sg_objs s j) \<and>
     (\<forall>j. map_option impl_type (sg_objs s' j) = map_option impl_type (sg_objs s j))"

lemma sg_frame_refl [simp]: "sg_frame p s s"
  by (simp add: sg_frame_def)

lemma sg_frame_trans: "sg_frame p s s' \<Longrightarrow> sg_frame p s' s'' \<Longrightarrow> sg_frame p s s''"
  by (simp add: sg_frame_def)

text \<open>The contract of an operation on an implementation: it keeps the type of the object.\<close>

locale impl_op =
  fixes f :: "map_impl \<Rightarrow> 'a res \<times> map_impl"
  assumes type_kept: "impl_type (snd (f x)) = impl_type x"
begin

lemma call_frame: "sg_frame (mh_map_impl_ptr h) s (snd (mh_call f h s))"
  using type_kept
  by (auto simp: mh_call_def sg_frame_def split: option.splits prod.splits)
    (metis snd_conv)

lemma call_defined:
  assumes "mh_map_impl_ptr h = Some i" and "sg_objs s i = Some x" and "impl_type x = mh_type h"
  shows "fst (mh_call f h s) = fst (f x) \<and> sg_objs (snd (mh_call f h s)) i = Some (snd (f x))"
  using assms by (simp add: mh_call_def split: prod.splits)

end

lemma as_impl_simps: "fst (as_impl C p) = fst p" "snd (as_impl C p) = C (snd p)"
  by (simp_all add: as_impl_def split: prod.splits)

interpretation lkp: impl_op "impl_lookup e key from_syscall" for e key from_syscall
proof
  show "impl_type (snd (impl_lookup e key from_syscall x)) = impl_type x" for x
    by (cases x) (simp_all add: as_impl_simps split: prod.splits)
qed

interpretation upd: impl_op "impl_update e key value flags from_syscall" for e key "value" flags from_syscall
proof
  show "impl_type (snd (impl_update e key value flags from_syscall x)) = impl_type x" for x
    by (cases x) (simp_all add: as_impl_simps)
qed

interpretation del: impl_op "impl_delete e key from_syscall" for e key from_syscall
proof
  show "impl_type (snd (impl_delete e key from_syscall x)) = impl_type x" for x
    by (cases x) (simp_all add: as_impl_simps)
qed

interpretation nxt: impl_op "\<lambda>x. (impl_next_key e key next_key x, x)" for e key next_key
  by unfold_locales simp

interpretation psh: impl_op "impl_push value flags" for "value" flags
proof
  show "impl_type (snd (impl_push value flags x)) = impl_type x" for x
    by (cases x) (simp_all add: as_impl_simps)
qed

interpretation pop: impl_op "impl_pop value" for "value"
proof
  show "impl_type (snd (impl_pop value x)) = impl_type x" for x
    by (cases x) (simp_all add: impl_pop_def as_impl_simps)
qed

interpretation pek: impl_op "impl_peek value" for "value"
proof
  show "impl_type (snd (impl_peek value x)) = impl_type x" for x
    by (cases x) (simp_all add: impl_peek_def)
qed

definition built_in :: "map_handler \<Rightarrow> bool" where
  "built_in h \<longleftrightarrow> (\<forall>t. mh_type h \<noteq> BPF_MAP_TYPE_OTHER t)"

lemma dispatch_frame:
  "sg_frame (mh_map_impl_ptr h) s (snd (map_lookup_elem e key b h s))"
  "sg_frame (mh_map_impl_ptr h) s (snd (map_update_elem e key v fl b h s))"
  "sg_frame (mh_map_impl_ptr h) s (snd (map_delete_elem e key b h s))"
  "sg_frame (mh_map_impl_ptr h) s (snd (bpf_map_get_next_key e key nk b h s))"
  "sg_frame (mh_map_impl_ptr h) s (snd (map_push_elem v fl b h s))"
  "sg_frame (mh_map_impl_ptr h) s (snd (map_pop_elem out b h s))"
  "sg_frame (mh_map_impl_ptr h) s (snd (map_peek_elem v b h s))"
  subgoal by (cases "mh_type h") (simp_all add: map_lookup_elem_def lkp.call_frame)
  subgoal by (cases "mh_type h") (simp_all add: map_update_elem_def upd.call_frame)
  subgoal by (cases "mh_type h") (simp_all add: map_delete_elem_def del.call_frame)
  subgoal by (cases "mh_type h") (simp_all add: bpf_map_get_next_key_def nxt.call_frame)
  subgoal by (simp add: map_push_elem_def psh.call_frame)
  subgoal by (simp add: map_pop_elem_def pop.call_frame)
  subgoal by (simp add: map_peek_elem_def pek.call_frame)
  done

text \<open>What a handler returns depends on its own object only.\<close>

definition same_object :: "map_handler \<Rightarrow> segment \<Rightarrow> segment \<Rightarrow> bool" where
  "same_object h s s' \<longleftrightarrow> (\<forall>i. mh_map_impl_ptr h = Some i \<longrightarrow> sg_objs s' i = sg_objs s i)"

lemma mh_call_local: "same_object h s s' \<Longrightarrow> fst (mh_call f h s') = fst (mh_call f h s)"
  by (auto simp: mh_call_def same_object_def split: option.splits prod.splits)

lemma dispatch_local:
  assumes "same_object h s s'"
  shows "fst (map_lookup_elem e key b h s') = fst (map_lookup_elem e key b h s)"
    and "fst (map_update_elem e key v fl b h s') = fst (map_update_elem e key v fl b h s)"
    and "fst (map_delete_elem e key b h s') = fst (map_delete_elem e key b h s)"
    and "fst (bpf_map_get_next_key e key nk b h s') = fst (bpf_map_get_next_key e key nk b h s)"
    and "fst (map_push_elem v fl b h s') = fst (map_push_elem v fl b h s)"
    and "fst (map_pop_elem out b h s') = fst (map_pop_elem out b h s)"
    and "fst (map_peek_elem v b h s') = fst (map_peek_elem v b h s)"
  subgoal by (cases "mh_type h") (simp_all add: map_lookup_elem_def mh_call_local [OF assms])
  subgoal by (cases "mh_type h") (simp_all add: map_update_elem_def mh_call_local [OF assms])
  subgoal by (cases "mh_type h") (simp_all add: map_delete_elem_def mh_call_local [OF assms])
  subgoal by (cases "mh_type h") (simp_all add: bpf_map_get_next_key_def mh_call_local [OF assms])
  subgoal by (simp add: map_push_elem_def mh_call_local [OF assms])
  subgoal by (simp add: map_pop_elem_def mh_call_local [OF assms])
  subgoal by (simp add: map_peek_elem_def mh_call_local [OF assms])
  done

lemma map_lookup_built_in: "built_in h \<Longrightarrow> map_lookup_elem e key b h s = mh_call (impl_lookup e key b) h s"
  by (cases "mh_type h") (simp_all add: map_lookup_elem_def built_in_def)

lemma impl_new_type: "built_in h \<Longrightarrow> impl_new e h = Inr x \<Longrightarrow> impl_type x = mh_type h"
  by (cases "mh_type h") (auto simp: impl_new_def Let_def built_in_def and_then_Inr_iff)

lemma map_init_built_in:
  assumes "built_in h"
  shows "map_init e h s =
    (if mh_type h = BPF_MAP_TYPE_RINGBUF \<and> popcnt (mh_max_entries h) \<noteq> 1 \<or>
        mh_type h = BPF_MAP_TYPE_BLOOM_FILTER \<and> mh_key_size h \<noteq> 0 then (Inl MinusOne, h, s)
     else (case sg_construct (get_container_name h) (impl_new e h) s of
         (Inl f, s') \<Rightarrow> (Inl f, h, s')
       | (Inr p, s') \<Rightarrow> (Inr (), h\<lparr>mh_map_impl_ptr := p\<rparr>, s')))"
  using assms by (cases "mh_type h") (simp_all add: map_init_def built_in_def)

lemma map_init_success:
  assumes "built_in h" and "map_init e h s = (Inr (), h', s')" and "sg_names s (get_container_name h) = None"
  shows "\<exists>x. impl_new e h = Inr x \<and> impl_type x = mh_type h \<and> h' = h\<lparr>mh_map_impl_ptr := Some (sg_next s)\<rparr> \<and>
    s' = s\<lparr>sg_names := (sg_names s)(get_container_name h \<mapsto> sg_next s),
           sg_objs := (sg_objs s)(sg_next s \<mapsto> x), sg_next := sg_next s + 1\<rparr>"
  using assms(2,3) impl_new_type [OF assms(1)]
  by (auto simp: map_init_built_in [OF assms(1)] sg_construct_def split: if_splits sum.splits)

lemma map_free_built_in:
  assumes "built_in h" and "mh_type h \<noteq> BPF_MAP_TYPE_ARRAY_OF_MAPS"
  shows "map_free e h s =
    (case sg_destroy (mh_type h) (get_container_name h) s of (r, s') \<Rightarrow> (r, h\<lparr>mh_map_impl_ptr := None\<rparr>, s'))"
  using assms by (cases "mh_type h") (simp_all add: map_free_def built_in_def split: prod.split)

lemma get_container_name_ptr [simp]: "get_container_name (h\<lparr>mh_map_impl_ptr := p\<rparr>) = get_container_name h"
  by (simp add: get_container_name_def)

lemma get_container_name_inj: "get_container_name h = get_container_name h' \<longleftrightarrow> mh_name h = mh_name h'"
  by (simp add: get_container_name_def)

subsection \<open>Properties\<close>

text \<open>
  C12: creation and destruction of a map. When \<open>map_init\<close> returns 0 for a built-in type and a
  name that is not in use, the handler points to a fresh object of its type, on which a
  lookup runs the operation of that implementation; no other object and no other name
  changed. Except for an array of maps, \<open>map_free\<close> then gives back the segment as it was.
\<close>

theorem map_init_free_round_trip:
  assumes "built_in h" and "mh_map_impl_ptr h = None" and "sg_names s (get_container_name h) = None"
    and "\<forall>i \<ge> sg_next s. sg_objs s i = None" and "map_init e h s = (Inr (), h', s')"
  shows "\<exists>x. impl_new e h = Inr x \<and> impl_type x = mh_type h \<and>
    mh_map_impl_ptr h' = Some (sg_next s) \<and> sg_objs s' = (sg_objs s)(sg_next s \<mapsto> x) \<and>
    sg_names s' = (sg_names s)(get_container_name h \<mapsto> sg_next s) \<and>
    fst (map_lookup_elem e key b h' s') = fst (impl_lookup e key b x) \<and>
    (mh_type h \<noteq> BPF_MAP_TYPE_ARRAY_OF_MAPS \<longrightarrow>
      map_free e h' s' = (Inr (), h, s\<lparr>sg_next := sg_next s + 1\<rparr>))"
proof -
  obtain x where x: "impl_new e h = Inr x" "impl_type x = mh_type h"
    "h' = h\<lparr>mh_map_impl_ptr := Some (sg_next s)\<rparr>"
    "s' = s\<lparr>sg_names := (sg_names s)(get_container_name h \<mapsto> sg_next s),
            sg_objs := (sg_objs s)(sg_next s \<mapsto> x), sg_next := sg_next s + 1\<rparr>"
    using map_init_success [OF assms(1,5,3)] by blast
  have "map_lookup_elem e key b h' s' = mh_call (impl_lookup e key b) h' s'"
    using assms(1) x(3) by (intro map_lookup_built_in) (simp add: built_in_def)
  moreover have "fst (mh_call (impl_lookup e key b) h' s') = fst (impl_lookup e key b x)"
    using lkp.call_defined [of h' "sg_next s" s' x e key b] x by simp
  moreover have "map_free e h' s' = (Inr (), h, s\<lparr>sg_next := sg_next s + 1\<rparr>)"
    if "mh_type h \<noteq> BPF_MAP_TYPE_ARRAY_OF_MAPS"
  proof -
    have "built_in h'" "mh_type h' \<noteq> BPF_MAP_TYPE_ARRAY_OF_MAPS" using assms(1) x(3) that by (simp_all add: built_in_def)
    moreover have "(sg_names s)(get_container_name h := None) = sg_names s"
      "(sg_objs s)(sg_next s := None) = sg_objs s" using assms(3,4) by auto
    ultimately show ?thesis using x assms(2) by (simp add: map_free_built_in sg_destroy_def)
  qed
  ultimately show ?thesis using x by simp
qed

abbreviation sample_attr :: "int \<Rightarrow> bpf_map_attr" where
  "sample_attr t \<equiv> \<lparr>at_type = t, at_key_size = 4, at_value_size = 1, at_max_ents = 2, at_flags = 0, at_ifindex = 0,
     at_btf_vmlinux_value_type_id = 0, at_btf_id = 0, at_btf_key_type_id = 0, at_btf_value_type_id = 0,
     at_map_extra = 0, at_kernel_bpf_map_id = 0, at_gpu_thread_count = 1000\<rparr>"

definition sample_env :: runtime_env where
  "sample_env = \<lparr>re_cpu = 0, re_ncpu = 1, re_page_size = 4096, re_seed = 0, re_ins = \<lambda>k v d. (k, v) # d,
     re_lru_ins = \<lambda>k v d. (k, v) # d, re_lpm_alloc = \<lambda>_. True, re_prog_fd = \<lambda>_ _. -1, re_prog_info = \<lambda>_. (-1, 0),
     re_allow_non_buildin = False, re_ops = replicate 2048 no_ops, re_ku_new = \<lambda>_ _. Inl MinusOne,
     re_ku_lookup = \<lambda>_ m. (Inl MinusOne, m), re_ku_update = \<lambda>_ _ _ m. (Inl MinusOne, m),
     re_ku_delete = \<lambda>_ m. (Inl MinusOne, m), re_ku_next_key = \<lambda>_ _ _. Inl MinusOne\<rparr>"

text \<open>An array map of two one-byte elements, before and after \<open>map_init\<close> in an empty segment.\<close>

definition sample_map :: "nat option \<Rightarrow> map_handler" where
  "sample_map p = (mh_new 3 ''m'' (sample_attr 2))\<lparr>mh_map_impl_ptr := p\<rparr>"

abbreviation empty_segment :: "nat \<Rightarrow> segment" where
  "empty_segment n \<equiv> \<lparr>sg_names = Map.empty, sg_objs = Map.empty, sg_next = n\<rparr>"

abbreviation sample_segment :: segment where
  "sample_segment \<equiv> \<lparr>sg_names = [''ebpf_map_fd_m'' \<mapsto> 0], sg_objs = [0 \<mapsto> Array_Impl (arr_new 1 2)], sg_next = 1\<rparr>"

lemma sample_map_simps [simp]:
  "mh_type (sample_map p) = BPF_MAP_TYPE_ARRAY" "mh_name (sample_map p) = ''m''"
  "mh_map_impl_ptr (sample_map p) = p" "built_in (sample_map p)" "get_container_name (sample_map p) = ''ebpf_map_fd_m''"
  "(sample_map p)\<lparr>mh_map_impl_ptr := q\<rparr> = sample_map q" "impl_new e (sample_map p) = Inr (Array_Impl (arr_new 1 2))"
  by (simp_all add: sample_map_def mh_new_def map_type_of_def built_in_def get_container_name_def impl_new_def)

lemma sample_map_init:
  "map_init e (sample_map None) (empty_segment 0) = (Inr (), sample_map (Some 0), sample_segment)"
  "map_init e (sample_map None) sample_segment = (Inr (), sample_map None, sample_segment)"
  by (simp_all add: map_init_built_in sg_construct_def)

theorem map_init_free_round_trip_witness:
  "map_free sample_env (sample_map (Some 0)) sample_segment = (Inr (), sample_map None, empty_segment 1)"
proof -
  have "\<forall>i \<ge> sg_next (empty_segment 0). sg_objs (empty_segment 0) i = None" by simp
  moreover have "sg_names (empty_segment 0) (get_container_name (sample_map None)) = None" by simp
  ultimately have "mh_type (sample_map None) \<noteq> BPF_MAP_TYPE_ARRAY_OF_MAPS \<longrightarrow>
      map_free sample_env (sample_map (Some 0)) sample_segment =
      (Inr (), sample_map None, (empty_segment 0)\<lparr>sg_next := sg_next (empty_segment 0) + 1\<rparr>)"
    using map_init_free_round_trip [OF sample_map_simps(4,3) _ _ sample_map_init(1) [of sample_env], of None False] by blast
  then show ?thesis by simp
qed

text \<open>
  C39: two maps with one name and one built-in type that is not an array of maps. \<open>map_init\<close> of the second, with
  sizes that its tests admit, returns 0 but leaves its handler with a null pointer, so that every lookup through it
  dereferences null; and when the second is closed, \<open>map_free\<close> destroys the object of the first by its
  name, so that the first handler, which answered lookups before, is left with a dangling pointer.
\<close>

theorem same_name_maps_break:
  assumes "built_in h" and "mh_type h \<noteq> BPF_MAP_TYPE_ARRAY_OF_MAPS"
    and "mh_type h2 = mh_type h" and "mh_name h2 = mh_name h" and "mh_map_impl_ptr h2 = None"
    and "mh_map_impl_ptr h = Some i" and "sg_names s (get_container_name h) = Some i"
    and "sg_objs s i = Some x" and "impl_type x = mh_type h"
    and "mh_type h = BPF_MAP_TYPE_RINGBUF \<Longrightarrow> popcnt (mh_max_entries h2) = 1"
    and "mh_type h = BPF_MAP_TYPE_BLOOM_FILTER \<Longrightarrow> mh_key_size h2 = 0"
  shows "map_init e h2 s = (Inr (), h2, s) \<and> fst (map_lookup_elem e key b h2 s) = Inl UB \<and>
    fst (map_lookup_elem e key b h s) = fst (impl_lookup e key b x) \<and>
    (\<exists>s'. map_free e h2 s = (Inr (), h2, s') \<and> fst (map_lookup_elem e key b h s') = Inl UB)"
proof -
  have b2: "built_in h2" using assms(1,3) by (simp add: built_in_def)
  have n: "get_container_name h2 = get_container_name h" using assms(4) by (simp add: get_container_name_inj)
  have init: "map_init e h2 s = (Inr (), h2, s)"
    using assms(3,5,7,10,11) n by (auto simp: map_init_built_in [OF b2] sg_construct_def)
  let ?s = "s\<lparr>sg_names := (sg_names s)(get_container_name h := None), sg_objs := (sg_objs s)(i := None)\<rparr>"
  have "map_free e h2 s = (Inr (), h2, ?s)"
    using assms(2,3,5,7,8,9) n by (simp add: map_free_built_in [OF b2] sg_destroy_def)
  moreover have "fst (mh_call (impl_lookup e key b) h ?s) = Inl UB" "fst (mh_call (impl_lookup e key b) h2 s) = Inl UB"
    using assms(5,6) by (simp_all add: mh_call_def)
  moreover have "fst (mh_call (impl_lookup e key b) h s) = fst (impl_lookup e key b x)"
    using lkp.call_defined [OF assms(6,8,9)] by blast
  ultimately show ?thesis using init map_lookup_built_in [OF assms(1)] map_lookup_built_in [OF b2] by simp
qed

theorem same_name_maps_break_witness:
  "map_init sample_env (sample_map None) sample_segment = (Inr (), sample_map None, sample_segment) \<and>
   fst (map_lookup_elem sample_env (Some [0, 0, 0, 0]) False (sample_map None) sample_segment) = Inl UB \<and>
   fst (map_lookup_elem sample_env (Some [0, 0, 0, 0]) False (sample_map (Some 0)) sample_segment) = Inr (Elem [0]) \<and>
   (\<exists>s'. map_free sample_env (sample_map None) sample_segment = (Inr (), sample_map None, s') \<and>
     fst (map_lookup_elem sample_env (Some [0, 0, 0, 0]) False (sample_map (Some 0)) s') = Inl UB)"
proof -
  have h: "mh_type (sample_map (Some 0)) \<noteq> BPF_MAP_TYPE_ARRAY_OF_MAPS" "mh_type (sample_map None) = mh_type (sample_map (Some 0))"
    "mh_name (sample_map None) = mh_name (sample_map (Some 0))"
    "sg_names sample_segment (get_container_name (sample_map (Some 0))) = Some 0"
    "sg_objs sample_segment 0 = Some (Array_Impl (arr_new 1 2))"
    "impl_type (Array_Impl (arr_new 1 2)) = mh_type (sample_map (Some 0))"
    by simp_all
  have v: "arr_elem_lookup (Some [0, 0, 0, 0]) (arr_new 1 2) = Inr [0]"
    by (simp add: arr_elem_lookup_def arr_new_def arr_off_def rd_u32_def rd_def load_def blk_get_def w32_def)
  show ?thesis
    using same_name_maps_break [OF sample_map_simps(4) h(1-3) sample_map_simps(3) sample_map_simps(3) h(4-6),
        of sample_env "Some [0, 0, 0, 0]" False]
    by (simp add: as_elem_def v [unfolded One_nat_def])
qed

end
