(* ===== verification/Handler_Manager.thy ===== *)
theory Handler_Manager
  imports Map_Handler
begin

text \<open>
  \<open>handler_manager\<close> (\<open>handler/handler_manager.cpp\<close>): the table of handlers by file descriptor,
  with the handlers of links (\<open>handler/link_handler.hpp\<close>), programs
  (\<open>handler/prog_handler.cpp\<close>), epoll instances and memfds. The table and the segment are
  passed along; what the constructors and \<open>map_free\<close> may raise is the fault of the result.
\<close>

subsection \<open>The other handlers\<close>

record link_create_args =
  la_prog_fd :: nat
  la_target_fd :: nat
  la_attach_type :: nat
  la_flags :: nat

text \<open>\<open>lk_args\<close> is \<open>None\<close> where the constructor leaves it uninitialised.\<close>

record link_handler =
  lk_args :: "link_create_args option"
  lk_prog_id :: int
  lk_attach_target_id :: int
  lk_attach_cookie :: "nat option"

definition lk_new_args :: "link_create_args \<Rightarrow> link_handler" where
  "lk_new_args args = \<lparr>lk_args = Some args, lk_prog_id = to_s32 (int (la_prog_fd args)),
     lk_attach_target_id = to_s32 (int (la_target_fd args)), lk_attach_cookie = None\<rparr>"

definition lk_new_cookie :: "int \<Rightarrow> int \<Rightarrow> nat option \<Rightarrow> link_handler" where
  "lk_new_cookie prog_id attach_target_id cookie =
     \<lparr>lk_args = None, lk_prog_id = prog_id, lk_attach_target_id = attach_target_id, lk_attach_cookie = cookie\<rparr>"

text \<open>The constructor of a program never uses \<open>prog_type\<close>: the field \<open>type\<close> stays uninitialised.\<close>

record prog_handler =
  pr_type :: "int option"
  pr_insns :: "64 word list"
  pr_aot_insns :: bytes
  pr_name :: string

definition pr_new :: "64 word list \<Rightarrow> string \<Rightarrow> int \<Rightarrow> prog_handler" where
  "pr_new insn prog_name prog_type =
     \<lparr>pr_type = None, pr_insns = insn, pr_aot_insns = [], pr_name = prog_name\<rparr>"

text \<open>
  A file of an epoll instance: a weak pointer to a software perf event, which is the descriptor
  it was added with and the number of times that descriptor had been cleared before, or to
  the object of a ring buffer; with the user's data.
\<close>

datatype epoll_file = Perf_File int nat nat | Ringbuf_File nat nat

datatype handler_variant =
    Unused
  | Map_H map_handler
  | Link_H link_handler
  | Prog_H prog_handler
  | Perf_H perf_event_handler
  | Epoll_H "epoll_file list"
  | Memfd_H string int

subsection \<open>The manager\<close>

definition hm_new :: "nat \<Rightarrow> handler_variant list" where
  "hm_new max_fd_count = replicate max_fd_count Unused"

definition hm_get_handler :: "int \<Rightarrow> handler_variant list \<Rightarrow> handler_variant res" where
  "hm_get_handler fd hs = (if 0 \<le> fd \<and> nat fd < length hs then Inr (hs ! nat fd) else Inl UB)"

definition is_allocated :: "int \<Rightarrow> handler_variant list \<Rightarrow> bool" where
  "is_allocated fd hs = (if fd < 0 \<or> nat fd \<ge> length hs then False else hs ! nat fd \<noteq> Unused)"

function find_unused_from :: "nat \<Rightarrow> handler_variant list \<Rightarrow> int" where
  "find_unused_from i hs =
     (if i < length hs then (if \<not> is_allocated (int i) hs then int i else find_unused_from (i + 1) hs) else -1)"
  by pat_completeness auto
termination by (relation "measure (\<lambda>(i, hs). length hs - i)") auto

declare find_unused_from.simps [simp del]

definition find_minimal_unused_idx :: "handler_variant list \<Rightarrow> int" where
  "find_minimal_unused_idx hs = find_unused_from 0 hs"

text \<open>
  The result of \<open>map_init\<close> is ignored, but an exception of a constructor leaves the function.
  A descriptor outside the table is not refused.
\<close>

definition set_handler ::
  "runtime_env \<Rightarrow> int \<Rightarrow> handler_variant \<Rightarrow> handler_variant list \<Rightarrow> segment \<Rightarrow>
   int res \<times> handler_variant list \<times> segment"
where
  "set_handler e fd h hs s =
     (if is_allocated fd hs then (Inl (NegErrno EEXIST), hs, s)
      else if h = Unused then (Inl (NegErrno ENOTSUP), hs, s)
      else if fd < 0 \<or> nat fd \<ge> length hs then (Inl UB, hs, s)
      else (case h of
          Map_H m \<Rightarrow> (case map_init e m s of (r, m', s') \<Rightarrow>
            ((case r of Inl Throw \<Rightarrow> Inl Throw | Inl UB \<Rightarrow> Inl UB | _ \<Rightarrow> Inr fd), hs[nat fd := Map_H m'], s'))
        | _ \<Rightarrow> (Inr fd, hs[nat fd := h], s)))"

definition set_handler_at_empty_slot ::
  "runtime_env \<Rightarrow> handler_variant \<Rightarrow> handler_variant list \<Rightarrow> segment \<Rightarrow>
   int res \<times> handler_variant list \<times> segment"
where
  "set_handler_at_empty_slot e h hs s =
     (let ident = find_minimal_unused_idx hs in
      if ident < 0 then (Inl MinusOne, hs, s) else set_handler e ident h hs s)"

text \<open>
  The loop of \<open>clear_id_at\<close> over the links that a test selects. The recursive call finds a link,
  for which none of the branches of \<open>clear_id_at\<close> runs: it only resets the slot.
\<close>

function clear_links :: "(link_handler \<Rightarrow> bool) \<Rightarrow> nat \<Rightarrow> handler_variant list \<Rightarrow> handler_variant list" where
  "clear_links P i hs =
     (if i < length hs then
        clear_links P (i + 1) (case hs ! i of Link_H l \<Rightarrow> (if P l then hs[i := Unused] else hs) | _ \<Rightarrow> hs)
      else hs)"
  by pat_completeness auto
termination by (relation "measure (\<lambda>(P, i, hs). length hs - i)") (auto split: handler_variant.split)

declare clear_links.simps [simp del]

definition clear_id_at ::
  "runtime_env \<Rightarrow> int \<Rightarrow> handler_variant list \<Rightarrow> segment \<Rightarrow> unit res \<times> handler_variant list \<times> segment"
where
  "clear_id_at e fd hs s =
     (if fd < 0 \<or> nat fd \<ge> length hs then (Inr (), hs, s)
      else (case hs ! nat fd of
          Map_H m \<Rightarrow> (case map_free e m s of
              (Inl f, m', s') \<Rightarrow> (Inl f, hs[nat fd := Map_H m'], s')
            | (Inr _, m', s') \<Rightarrow> (Inr (), hs[nat fd := Unused], s'))
        | Perf_H _ \<Rightarrow> (Inr (), (clear_links (\<lambda>l. lk_attach_target_id l = fd) 0 hs)[nat fd := Unused], s)
        | Prog_H _ \<Rightarrow> (Inr (), (clear_links (\<lambda>l. lk_prog_id l = fd) 0 hs)[nat fd := Unused], s)
        | _ \<Rightarrow> (Inr (), hs[nat fd := Unused], s)))"

text \<open>\<open>n\<close> counts the slots that remain.\<close>

primrec clear_all_from ::
  "runtime_env \<Rightarrow> nat \<Rightarrow> handler_variant list \<Rightarrow> segment \<Rightarrow> unit res \<times> handler_variant list \<times> segment"
where
  "clear_all_from e 0 hs s = (Inr (), hs, s)"
| "clear_all_from e (Suc n) hs s =
     (let i = int (length hs - Suc n) in
      if is_allocated i hs then
        (case clear_id_at e i hs s of
           (Inl f, hs', s') \<Rightarrow> (Inl f, hs', s')
         | (Inr _, hs', s') \<Rightarrow> clear_all_from e n hs' s')
      else clear_all_from e n hs s)"

definition clear_all ::
  "runtime_env \<Rightarrow> handler_variant list \<Rightarrow> segment \<Rightarrow> unit res \<times> handler_variant list \<times> segment"
where
  "clear_all e hs s = clear_all_from e (length hs) hs s"

subsection \<open>Slots\<close>

lemma is_allocated_nat: "i < length hs \<Longrightarrow> is_allocated (int i) hs \<longleftrightarrow> hs ! i \<noteq> Unused"
  by (simp add: is_allocated_def)

lemma find_unused_from_cases:
  "find_unused_from i hs = -1 \<and> (\<forall>j. i \<le> j \<and> j < length hs \<longrightarrow> hs ! j \<noteq> Unused) \<or>
   (\<exists>j. find_unused_from i hs = int j \<and> i \<le> j \<and> j < length hs \<and> hs ! j = Unused \<and>
      (\<forall>k. i \<le> k \<and> k < j \<longrightarrow> hs ! k \<noteq> Unused))"
proof (induction i hs rule: find_unused_from.induct)
  case (1 i hs)
  show ?case
  proof (cases "i < length hs \<and> hs ! i \<noteq> Unused")
    case True
    then have "is_allocated (int i) hs" by (simp add: is_allocated_nat)
    then have r: "find_unused_from i hs = find_unused_from (i + 1) hs"
      using True by (simp add: find_unused_from.simps [of i])
    have "k = i \<or> i + 1 \<le> k" if "i \<le> k" for k using that by linarith
    then show ?thesis using 1 True \<open>is_allocated (int i) hs\<close> unfolding r
      by (metis add_leD1 less_imp_le_nat)
  next
    case False
    then show ?thesis by (auto simp: find_unused_from.simps [of i] is_allocated_nat)
  qed
qed

lemma clear_links_nth:
  "length (clear_links P i hs) = length hs \<and>
   (\<forall>j < length hs. clear_links P i hs ! j =
      (case hs ! j of Link_H l \<Rightarrow> (if i \<le> j \<and> P l then Unused else Link_H l) | h \<Rightarrow> h))"
proof (induction P i hs rule: clear_links.induct)
  case (1 P i hs)
  show ?case
  proof (cases "i < length hs")
    case False
    then show ?thesis by (auto simp: clear_links.simps [of P i] split: handler_variant.split)
  next
    case True
    let ?hs = "case hs ! i of Link_H l \<Rightarrow> (if P l then hs[i := Unused] else hs) | _ \<Rightarrow> hs"
    have l: "length ?hs = length hs" by (simp split: handler_variant.split)
    have at: "?hs ! j = (if j = i then (case hs ! i of Link_H l \<Rightarrow> (if P l then Unused else Link_H l) | h \<Rightarrow> h) else hs ! j)"
      if "j < length hs" for j using that True by (auto split: handler_variant.split)
    have r: "clear_links P i hs = clear_links P (i + 1) ?hs" using True by (simp add: clear_links.simps [of P i])
    show ?thesis unfolding r using 1 [OF True] True l
      by (auto simp: at split: handler_variant.split)
  qed
qed

lemma length_clear_links [simp]: "length (clear_links P i hs) = length hs"
  using clear_links_nth by blast

lemma clear_links_other: "j < length hs \<Longrightarrow> (\<And>l. hs ! j \<noteq> Link_H l) \<Longrightarrow> clear_links P i hs ! j = hs ! j"
  using clear_links_nth [of P i hs] by (auto split: handler_variant.splits)

lemma clear_links_link:
  "j < length hs \<Longrightarrow> hs ! j = Link_H l \<Longrightarrow> clear_links P 0 hs ! j = (if P l then Unused else Link_H l)"
  using clear_links_nth [of P 0 hs] by auto

lemma clear_links_cases:
  "j < length hs \<Longrightarrow> clear_links P 0 hs ! j = hs ! j \<or> clear_links P 0 hs ! j = Unused"
  using clear_links_other [of j hs P 0] clear_links_link [of j hs _ P] by (cases "hs ! j") auto

lemma length_set_handler: "set_handler e fd h hs s = (r, hs', s') \<Longrightarrow> length hs' = length hs"
  by (auto simp: set_handler_def split: if_splits handler_variant.splits prod.splits)

lemma length_clear_id_at: "clear_id_at e fd hs s = (r, hs', s') \<Longrightarrow> length hs' = length hs"
  by (auto simp: clear_id_at_def split: if_splits handler_variant.splits prod.splits sum.splits)

text \<open>The outcomes of \<open>clear_id_at\<close> on a slot of the table.\<close>

lemma clear_id_at_cases:
  assumes "clear_id_at e fd hs s = (r, hs', s')"
  obtains (outside) "fd < 0 \<or> nat fd \<ge> length hs" "r = Inr ()" "hs' = hs" "s' = s"
  | (map_failed) m f where "0 \<le> fd" "nat fd < length hs" "hs ! nat fd = Map_H m" "r = Inl f"
      "map_free e m s = (Inl f, m\<lparr>mh_map_impl_ptr := None\<rparr>, s')" "hs' = hs[nat fd := Map_H (m\<lparr>mh_map_impl_ptr := None\<rparr>)]"
  | (map_freed) m where "0 \<le> fd" "nat fd < length hs" "hs ! nat fd = Map_H m" "r = Inr ()"
      "map_free e m s = (Inr (), m\<lparr>mh_map_impl_ptr := None\<rparr>, s')" "hs' = hs[nat fd := Unused]"
  | (prog) p where "0 \<le> fd" "nat fd < length hs" "hs ! nat fd = Prog_H p" "r = Inr ()" "s' = s"
      "hs' = (clear_links (\<lambda>l. lk_prog_id l = fd) 0 hs)[nat fd := Unused]"
  | (perf) p where "0 \<le> fd" "nat fd < length hs" "hs ! nat fd = Perf_H p" "r = Inr ()" "s' = s"
      "hs' = (clear_links (\<lambda>l. lk_attach_target_id l = fd) 0 hs)[nat fd := Unused]"
  | (plain) "0 \<le> fd" "nat fd < length hs" "\<And>m. hs ! nat fd \<noteq> Map_H m" "\<And>p. hs ! nat fd \<noteq> Prog_H p" "r = Inr ()"
      "s' = s" "hs' = hs[nat fd := Unused]"
proof (cases "fd < 0 \<or> nat fd \<ge> length hs")
  case True
  then have "r = Inr ()" "hs' = hs" "s' = s" using assms by (simp_all add: clear_id_at_def)
  then show ?thesis using outside True by blast
next
  case False
  then have fd: "0 \<le> fd" "nat fd < length hs" by auto
  have c: "clear_id_at e fd hs s = (case hs ! nat fd of
          Map_H m \<Rightarrow> (case map_free e m s of
              (Inl f, m', s') \<Rightarrow> (Inl f, hs[nat fd := Map_H m'], s')
            | (Inr _, m', s') \<Rightarrow> (Inr (), hs[nat fd := Unused], s'))
        | Perf_H _ \<Rightarrow> (Inr (), (clear_links (\<lambda>l. lk_attach_target_id l = fd) 0 hs)[nat fd := Unused], s)
        | Prog_H _ \<Rightarrow> (Inr (), (clear_links (\<lambda>l. lk_prog_id l = fd) 0 hs)[nat fd := Unused], s)
        | _ \<Rightarrow> (Inr (), hs[nat fd := Unused], s))"
    using False by (simp only: clear_id_at_def if_False)
  show ?thesis
  proof (cases "hs ! nat fd")
    case (Map_H m)
    obtain q t where f: "map_free e m s = (q, m\<lparr>mh_map_impl_ptr := None\<rparr>, t)"
      by (cases "map_free e m s") (auto simp: map_free_def Let_def split: prod.splits)
    show ?thesis
      using assms map_failed [OF fd Map_H] map_freed [OF fd Map_H] unfolding c by (cases q) (auto simp: Map_H f)
  next
    case (Prog_H p)
    then show ?thesis using assms prog [OF fd Prog_H] unfolding c by auto
  next
    case (Perf_H p)
    then show ?thesis using assms perf [OF fd Perf_H] unfolding c by auto
  qed (use assms plain [OF fd] in \<open>unfold c, auto\<close>)
qed

subsection \<open>Invariants of the table\<close>

text \<open>An invariant of the table and the segment that closing a descriptor keeps.\<close>

locale manager_inv =
  fixes I :: "handler_variant list \<Rightarrow> segment \<Rightarrow> bool"
  assumes clear_keeps: "I hs s \<Longrightarrow> clear_id_at e fd hs s = (Inr (), hs', s') \<Longrightarrow> I hs' s'"
begin

lemma clear_all_from_keeps: "I hs s \<Longrightarrow> clear_all_from e n hs s = (Inr (), hs', s') \<Longrightarrow> I hs' s'"
proof (induction n arbitrary: hs s)
  case 0
  then show ?case by simp
next
  case (Suc n)
  show ?case
  proof (cases "is_allocated (int (length hs - Suc n)) hs")
    case True
    obtain r hs1 s1 where c: "clear_id_at e (int (length hs - Suc n)) hs s = (r, hs1, s1)" by (metis prod_cases3)
    then have "r = Inr ()" "clear_all_from e n hs1 s1 = (Inr (), hs', s')"
      using Suc.prems(2) True by (cases r; simp add: Let_def)+
    then show ?thesis using Suc.IH [of hs1 s1] clear_keeps [OF Suc.prems(1)] c by blast
  next
    case False
    then show ?thesis using Suc by (simp add: Let_def)
  qed
qed

lemma clear_all_keeps: "I hs s \<Longrightarrow> clear_all e hs s = (Inr (), hs', s') \<Longrightarrow> I hs' s'"
  using clear_all_from_keeps by (simp add: clear_all_def)

end

text \<open>Every link belongs to a program that is still in the table.\<close>

definition links_ok :: "handler_variant list \<Rightarrow> bool" where
  "links_ok hs \<longleftrightarrow> (\<forall>i < length hs. \<forall>l. hs ! i = Link_H l \<longrightarrow>
     (\<exists>p. hm_get_handler (lk_prog_id l) hs = Inr (Prog_H p)))"

lemma hm_get_handler_iff:
  "hm_get_handler fd hs = Inr h \<longleftrightarrow> 0 \<le> fd \<and> nat fd < length hs \<and> hs ! nat fd = h"
  by (auto simp: hm_get_handler_def)

lemma links_okI:
  assumes "links_ok hs" and "length hs' = length hs"
    and "\<And>i l. i < length hs \<Longrightarrow> hs' ! i = Link_H l \<Longrightarrow> hs ! i = Link_H l"
    and "\<And>i l p. i < length hs \<Longrightarrow> hs' ! i = Link_H l \<Longrightarrow> 0 \<le> lk_prog_id l \<Longrightarrow> nat (lk_prog_id l) < length hs \<Longrightarrow>
      hs ! nat (lk_prog_id l) = Prog_H p \<Longrightarrow> hs' ! nat (lk_prog_id l) = Prog_H p"
  shows "links_ok hs'"
  unfolding links_ok_def
proof (intro allI impI)
  fix i l
  assume i: "i < length hs'" "hs' ! i = Link_H l"
  then have i': "i < length hs" "hs ! i = Link_H l" using assms(2,3) by auto
  then obtain p where p: "0 \<le> lk_prog_id l" "nat (lk_prog_id l) < length hs" "hs ! nat (lk_prog_id l) = Prog_H p"
    using assms(1) unfolding links_ok_def hm_get_handler_iff by blast
  have "hs' ! nat (lk_prog_id l) = Prog_H p" by (rule assms(4) [OF i'(1) i(2) p])
  then show "\<exists>p. hm_get_handler (lk_prog_id l) hs' = Inr (Prog_H p)"
    using p assms(2) unfolding hm_get_handler_iff by auto
qed

lemma links_ok_reset:
  assumes "links_ok hs" and "\<And>p. hs ! i \<noteq> Prog_H p" and "\<And>l. h \<noteq> Link_H l"
  shows "links_ok (hs[i := h])"
proof (rule links_okI [OF assms(1)])
  fix j l p
  assume j: "j < length hs" "hs[i := h] ! j = Link_H l"
  then have "j \<noteq> i" using assms(3) by auto
  then show "hs ! j = Link_H l" using j by simp
  assume "hs ! nat (lk_prog_id l) = Prog_H p"
  moreover from this have "nat (lk_prog_id l) \<noteq> i" using assms(2) by auto
  ultimately show "hs[i := h] ! nat (lk_prog_id l) = Prog_H p" by simp
qed simp

lemma links_ok_clear:
  assumes "links_ok hs" and "clear_id_at e fd hs s = (r, hs', s')"
  shows "links_ok hs'"
  using assms(2)
proof (cases rule: clear_id_at_cases)
  case outside
  then show ?thesis using assms(1) by simp
next
  case (map_failed m f)
  then show ?thesis using links_ok_reset [OF assms(1)] by simp
next
  case (map_freed m)
  then show ?thesis using links_ok_reset [OF assms(1)] by simp
next
  case (prog p)
  let ?P = "\<lambda>l. lk_prog_id l = fd"
  show ?thesis unfolding prog(6)
  proof (rule links_okI [OF assms(1)])
    fix i l
    assume i: "i < length hs" "(clear_links ?P 0 hs)[nat fd := Unused] ! i = Link_H l"
    then have c: "clear_links ?P 0 hs ! i = Link_H l" using prog(2) by (auto simp: nth_list_update split: if_splits)
    then show l: "hs ! i = Link_H l" using clear_links_cases [OF i(1), of ?P] by auto
    then have n: "lk_prog_id l \<noteq> fd" using c clear_links_link [OF i(1) l, of ?P] by auto
    show "(clear_links ?P 0 hs)[nat fd := Unused] ! nat (lk_prog_id l) = Prog_H q"
      if "0 \<le> lk_prog_id l" "nat (lk_prog_id l) < length hs" "hs ! nat (lk_prog_id l) = Prog_H q" for q
      using that n prog(1) clear_links_other [of "nat (lk_prog_id l)" hs ?P 0] by (simp add: nth_list_update eq_nat_nat_iff)
  qed simp
next
  case (perf p)
  let ?P = "\<lambda>l. lk_attach_target_id l = fd"
  have "links_ok (clear_links ?P 0 hs)"
  proof (rule links_okI [OF assms(1)])
    fix i l q
    assume i: "i < length hs" "clear_links ?P 0 hs ! i = Link_H l"
    then show "hs ! i = Link_H l" using clear_links_cases [OF i(1), of ?P] by auto
    show "clear_links ?P 0 hs ! nat (lk_prog_id l) = Prog_H q"
      if "nat (lk_prog_id l) < length hs" "hs ! nat (lk_prog_id l) = Prog_H q"
      using that clear_links_other [of "nat (lk_prog_id l)" hs ?P 0] by simp
  qed simp
  moreover have "clear_links ?P 0 hs ! nat fd = Perf_H p" using perf clear_links_other [of "nat fd" hs ?P 0] by simp
  ultimately show ?thesis unfolding perf(6) by (intro links_ok_reset) auto
next
  case plain
  then show ?thesis using links_ok_reset [OF assms(1)] by simp
qed

interpretation lnk: manager_inv "\<lambda>hs s. links_ok hs"
  by unfold_locales (rule links_ok_clear)

lemma links_ok_set:
  assumes "links_ok hs" and "set_handler e fd h hs s = (r, hs', s')"
    and "\<And>l. h = Link_H l \<Longrightarrow> \<exists>p. hm_get_handler (lk_prog_id l) hs = Inr (Prog_H p)"
  shows "links_ok hs'"
proof -
  have free: "hs ! nat fd = Unused" if "\<not> is_allocated fd hs" "\<not> (fd < 0 \<or> nat fd \<ge> length hs)"
    using that by (auto simp: is_allocated_def)
  consider "hs' = hs" | m where "hs' = hs[nat fd := Map_H m]" "hs ! nat fd = Unused"
    | "hs' = hs[nat fd := h]" "hs ! nat fd = Unused" "0 \<le> fd" "nat fd < length hs"
    using assms(2) free unfolding set_handler_def by (auto split: if_splits handler_variant.splits prod.splits)
  then show ?thesis
  proof cases
    case 1
    then show ?thesis using assms(1) by simp
  next
    case (2 m)
    then show ?thesis using links_ok_reset [OF assms(1)] by simp
  next
    case 3
    have k: "\<exists>p. hm_get_handler (lk_prog_id l) hs' = Inr (Prog_H p)"
      if "\<exists>p. hm_get_handler (lk_prog_id l) hs = Inr (Prog_H p)" for l
    proof -
      obtain p where p: "0 \<le> lk_prog_id l" "nat (lk_prog_id l) < length hs" "hs ! nat (lk_prog_id l) = Prog_H p"
        using \<open>\<exists>p. _\<close> unfolding hm_get_handler_iff by blast
      then have "nat (lk_prog_id l) \<noteq> nat fd" using 3(2) by auto
      then show ?thesis using p 3(1) unfolding hm_get_handler_iff by simp
    qed
    show ?thesis unfolding links_ok_def
    proof (intro allI impI)
      fix i l
      assume i: "i < length hs'" "hs' ! i = Link_H l"
      show "\<exists>p. hm_get_handler (lk_prog_id l) hs' = Inr (Prog_H p)"
      proof (cases "i = nat fd")
        case True
        then have "h = Link_H l" using i 3 by simp
        then show ?thesis using assms(3) k by blast
      next
        case False
        then have "hs ! i = Link_H l" "i < length hs" using i 3 by simp_all
        then show ?thesis using assms(1) k unfolding links_ok_def by blast
      qed
    qed
  qed
qed

text \<open>The maps of a table, and the agreement of the maps with the segment.\<close>

definition hm_map :: "handler_variant list \<Rightarrow> nat \<Rightarrow> map_handler \<Rightarrow> bool" where
  "hm_map hs i m \<longleftrightarrow> i < length hs \<and> hs ! i = Map_H m"

definition hm_ok :: "handler_variant list \<Rightarrow> segment \<Rightarrow> bool" where
  "hm_ok hs s \<longleftrightarrow>
     (\<forall>i m. hm_map hs i m \<longrightarrow> built_in m \<and> mh_type m \<noteq> BPF_MAP_TYPE_ARRAY_OF_MAPS \<and>
        (\<forall>p. mh_map_impl_ptr m = Some p \<longrightarrow> sg_names s (get_container_name m) = Some p)) \<and>
     (\<forall>i j m n. hm_map hs i m \<and> hm_map hs j n \<and> mh_name m = mh_name n \<longrightarrow> i = j) \<and>
     (\<forall>n p. sg_names s n = Some p \<longrightarrow> (\<exists>i m x. hm_map hs i m \<and> get_container_name m = n \<and>
        mh_map_impl_ptr m = Some p \<and> sg_objs s p = Some x \<and> impl_type x = mh_type m)) \<and>
     (\<forall>p. sg_objs s p \<noteq> None \<longrightarrow> p < sg_next s \<and> (\<exists>n. sg_names s n = Some p)) \<and>
     (\<forall>n n' p. sg_names s n = Some p \<and> sg_names s n' = Some p \<longrightarrow> n = n')"

lemma hm_okD:
  assumes "hm_ok hs s"
  shows "hm_map hs i m \<Longrightarrow> built_in m \<and> mh_type m \<noteq> BPF_MAP_TYPE_ARRAY_OF_MAPS"
    and "hm_map hs i m \<Longrightarrow> mh_map_impl_ptr m = Some p \<Longrightarrow> sg_names s (get_container_name m) = Some p"
    and "hm_map hs i m \<Longrightarrow> hm_map hs j m' \<Longrightarrow> mh_name m = mh_name m' \<Longrightarrow> i = j"
    and "sg_names s n = Some p \<Longrightarrow> \<exists>i m x. hm_map hs i m \<and> get_container_name m = n \<and>
        mh_map_impl_ptr m = Some p \<and> sg_objs s p = Some x \<and> impl_type x = mh_type m"
    and "sg_objs s p = Some x \<Longrightarrow> p < sg_next s \<and> (\<exists>n. sg_names s n = Some p)"
    and "sg_names s n = Some p \<Longrightarrow> sg_names s n' = Some p \<Longrightarrow> n = n'"
proof -
  note c = assms [unfolded hm_ok_def]
  note c1 = conjunct1 [OF c] and c2 = conjunct1 [OF conjunct2 [OF c]]
    and c3 = conjunct1 [OF conjunct2 [OF conjunct2 [OF c]]]
    and c4 = conjunct1 [OF conjunct2 [OF conjunct2 [OF conjunct2 [OF c]]]]
    and c5 = conjunct2 [OF conjunct2 [OF conjunct2 [OF conjunct2 [OF c]]]]
  show "hm_map hs i m \<Longrightarrow> built_in m \<and> mh_type m \<noteq> BPF_MAP_TYPE_ARRAY_OF_MAPS" using c1 by blast
  show "hm_map hs i m \<Longrightarrow> mh_map_impl_ptr m = Some p \<Longrightarrow> sg_names s (get_container_name m) = Some p" using c1 by blast
  show "hm_map hs i m \<Longrightarrow> hm_map hs j m' \<Longrightarrow> mh_name m = mh_name m' \<Longrightarrow> i = j" using c2 by blast
  show "sg_names s n = Some p \<Longrightarrow> \<exists>i m x. hm_map hs i m \<and> get_container_name m = n \<and>
      mh_map_impl_ptr m = Some p \<and> sg_objs s p = Some x \<and> impl_type x = mh_type m" using c3 by blast
  show "sg_objs s p = Some x \<Longrightarrow> p < sg_next s \<and> (\<exists>n. sg_names s n = Some p)" using c4 [rule_format, of p] by simp
  show "sg_names s n = Some p \<Longrightarrow> sg_names s n' = Some p \<Longrightarrow> n = n'" using c5 by blast
qed

lemma hm_map_unique: "hm_map hs i m \<Longrightarrow> hm_map hs i m' \<Longrightarrow> m = m'"
  by (simp add: hm_map_def)

lemma hm_ok_cong: "(\<And>i m. hm_map hs' i m \<longleftrightarrow> hm_map hs i m) \<Longrightarrow> hm_ok hs' s \<longleftrightarrow> hm_ok hs s"
proof -
  assume "\<And>i m. hm_map hs' i m \<longleftrightarrow> hm_map hs i m"
  then have "hm_map hs' = hm_map hs" by (intro ext) simp
  then show ?thesis by (simp only: hm_ok_def)
qed

lemma hm_okI:
  assumes "\<And>i m. hm_map hs i m \<Longrightarrow> built_in m \<and> mh_type m \<noteq> BPF_MAP_TYPE_ARRAY_OF_MAPS"
    and "\<And>i m p. hm_map hs i m \<Longrightarrow> mh_map_impl_ptr m = Some p \<Longrightarrow> sg_names s (get_container_name m) = Some p"
    and "\<And>i j m m'. hm_map hs i m \<Longrightarrow> hm_map hs j m' \<Longrightarrow> mh_name m = mh_name m' \<Longrightarrow> i = j"
    and "\<And>n p. sg_names s n = Some p \<Longrightarrow> \<exists>i m x. hm_map hs i m \<and> get_container_name m = n \<and>
        mh_map_impl_ptr m = Some p \<and> sg_objs s p = Some x \<and> impl_type x = mh_type m"
    and "\<And>p x. sg_objs s p = Some x \<Longrightarrow> p < sg_next s \<and> (\<exists>n. sg_names s n = Some p)"
    and "\<And>n n' p. sg_names s n = Some p \<Longrightarrow> sg_names s n' = Some p \<Longrightarrow> n = n'"
  shows "hm_ok hs s"
  unfolding hm_ok_def
proof (intro conjI allI impI)
  show "built_in m" "mh_type m \<noteq> BPF_MAP_TYPE_ARRAY_OF_MAPS" if "hm_map hs i m" for i m using assms(1) that by blast+
  show "sg_names s (get_container_name m) = Some p" if "hm_map hs i m" "mh_map_impl_ptr m = Some p" for i m p
    using assms(2) that by blast
  show "i = j" if "hm_map hs i m \<and> hm_map hs j n \<and> mh_name m = mh_name n" for i j m n using assms(3) that by blast
  show "p < sg_next s" "\<exists>n. sg_names s n = Some p" if "sg_objs s p \<noteq> None" for p using assms(5) that by blast+
  show "n = n'" if "sg_names s n = Some p \<and> sg_names s n' = Some p" for n n' p using assms(6) that by blast
qed (rule assms(4))

text \<open>The object of a map that has one.\<close>

lemma hm_ok_object:
  assumes "hm_ok hs s" and "hm_map hs i m" and "mh_map_impl_ptr m = Some p"
  shows "\<exists>x. sg_objs s p = Some x \<and> impl_type x = mh_type m"
proof -
  obtain j m' x where "hm_map hs j m'" "get_container_name m' = get_container_name m"
    "sg_objs s p = Some x" "impl_type x = mh_type m'"
    using hm_okD(4) [OF assms(1) hm_okD(2) [OF assms]] by blast
  moreover from this have "j = i"
    using hm_okD(3) [OF assms(1) _ assms(2)] get_container_name_inj by blast
  ultimately show ?thesis using hm_map_unique assms(2) by blast
qed

lemma hm_ok_frame:
  assumes "hm_ok hs s" and "sg_frame q s s'"
  shows "hm_ok hs s'"
proof -
  have f: "sg_names s' = sg_names s" "sg_next s' = sg_next s"
    "\<And>j. map_option impl_type (sg_objs s' j) = map_option impl_type (sg_objs s j)"
    using assms(2) by (auto simp: sg_frame_def)
  have o: "\<exists>x'. sg_objs s' p = Some x' \<and> impl_type x' = impl_type x" if "sg_objs s p = Some x" for p x
    using f(3) [of p] that by auto
  have d: "\<exists>x. sg_objs s p = Some x" if "sg_objs s' p = Some x'" for p x'
    using f(3) [of p] that by (cases "sg_objs s p") auto
  show ?thesis
  proof (rule hm_okI)
    show "sg_names s' n = Some p \<Longrightarrow> \<exists>i m x. hm_map hs i m \<and> get_container_name m = n \<and>
        mh_map_impl_ptr m = Some p \<and> sg_objs s' p = Some x \<and> impl_type x = mh_type m" for n p
      using hm_okD(4) [OF assms(1), of n p] o unfolding f by fastforce
    show "sg_objs s' p = Some x \<Longrightarrow> p < sg_next s' \<and> (\<exists>n. sg_names s' n = Some p)" for p x
      using hm_okD(5) [OF assms(1)] d unfolding f by blast
    show "hm_map hs i m \<Longrightarrow> hm_map hs j m' \<Longrightarrow> mh_name m = mh_name m' \<Longrightarrow> i = j" for i j m m'
      using hm_okD(3) [OF assms(1)] by blast
  qed (use hm_okD(1,2,6) [OF assms(1)] in \<open>auto simp: f\<close>)
qed

lemma hm_ok_remove:
  assumes ok: "hm_ok hs s" and m: "hm_map hs k m"
  shows "\<exists>s'. map_free e m s = (Inr (), m\<lparr>mh_map_impl_ptr := None\<rparr>, s') \<and>
    (\<forall>hs'. (\<forall>i m'. hm_map hs' i m' \<longleftrightarrow> hm_map hs i m' \<and> i \<noteq> k) \<longrightarrow> hm_ok hs' s')"
proof -
  let ?n = "get_container_name m"
  have b: "built_in m" "mh_type m \<noteq> BPF_MAP_TYPE_ARRAY_OF_MAPS" using hm_okD(1) [OF ok m] by auto
  have other: "get_container_name m' \<noteq> ?n" if "hm_map hs i m'" "i \<noteq> k" for i m'
    using hm_okD(3) [OF ok that(1) m] that(2) get_container_name_inj by blast
  show ?thesis
  proof (cases "sg_names s ?n")
    case None
    have k: "i \<noteq> k" if "hm_map hs i m'" "sg_names s (get_container_name m') = Some p" for i m' p
      using that None hm_map_unique [OF _ m] by auto
    have "hm_ok hs' s" if e: "\<forall>i m'. hm_map hs' i m' \<longleftrightarrow> hm_map hs i m' \<and> i \<noteq> k" for hs'
    proof (rule hm_okI)
      show "hm_map hs' i m \<Longrightarrow> hm_map hs' j m' \<Longrightarrow> mh_name m = mh_name m' \<Longrightarrow> i = j" for i j m m'
        using hm_okD(3) [OF ok] e by blast
      show "sg_names s n = Some p \<Longrightarrow> \<exists>i m x. hm_map hs' i m \<and> get_container_name m = n \<and>
          mh_map_impl_ptr m = Some p \<and> sg_objs s p = Some x \<and> impl_type x = mh_type m" for n p
        using hm_okD(4) [OF ok, of n p] e k by blast
    qed (use hm_okD(1,2,5,6) [OF ok] e in blast)+
    then show ?thesis using b None by (simp add: map_free_built_in sg_destroy_def)
  next
    case (Some p)
    let ?s = "s\<lparr>sg_names := (sg_names s)(?n := None), sg_objs := (sg_objs s)(p := None)\<rparr>"
    obtain x where x: "sg_objs s p = Some x" "impl_type x = mh_type m"
      using hm_okD(4) [OF ok Some] other m hm_map_unique by metis
    have f: "map_free e m s = (Inr (), m\<lparr>mh_map_impl_ptr := None\<rparr>, ?s)"
      using b Some x by (simp add: map_free_built_in sg_destroy_def)
    have "hm_ok hs' ?s" if e: "\<forall>i m'. hm_map hs' i m' \<longleftrightarrow> hm_map hs i m' \<and> i \<noteq> k" for hs'
    proof (rule hm_okI)
      show "built_in m' \<and> mh_type m' \<noteq> BPF_MAP_TYPE_ARRAY_OF_MAPS" if "hm_map hs' i m'" for i m'
        using that hm_okD(1) [OF ok] e by blast
      show "sg_names ?s (get_container_name m') = Some q" if "hm_map hs' i m'" "mh_map_impl_ptr m' = Some q" for i m' q
        using that hm_okD(2) [OF ok] other e by auto
      show "i = j" if "hm_map hs' i m'" "hm_map hs' j m''" "mh_name m' = mh_name m''" for i j m' m''
        using that hm_okD(3) [OF ok] e by blast
      show "\<exists>i m' x. hm_map hs' i m' \<and> get_container_name m' = n \<and> mh_map_impl_ptr m' = Some q \<and>
          sg_objs ?s q = Some x \<and> impl_type x = mh_type m'" if "sg_names ?s n = Some q" for n q
      proof -
        have n: "n \<noteq> ?n" "sg_names s n = Some q" using that by (auto split: if_splits)
        obtain i m' y where i: "hm_map hs i m'" "get_container_name m' = n" "mh_map_impl_ptr m' = Some q"
          "sg_objs s q = Some y" "impl_type y = mh_type m'" using hm_okD(4) [OF ok n(2)] by blast
        have "q \<noteq> p" using hm_okD(6) [OF ok n(2)] Some n(1) by blast
        moreover have "i \<noteq> k" using i(1,2) n(1) hm_map_unique [OF _ m] by auto
        ultimately show ?thesis using i e by (intro exI [of _ i] exI [of _ m'] exI [of _ y]) simp
      qed
      show "q < sg_next ?s \<and> (\<exists>n. sg_names ?s n = Some q)" if "sg_objs ?s q = Some y" for q y
      proof -
        have y: "q \<noteq> p" "sg_objs s q = Some y" using that by (auto split: if_splits)
        obtain n where n: "q < sg_next s" "sg_names s n = Some q" using hm_okD(5) [OF ok y(2)] by blast
        then have "n \<noteq> ?n" using Some y(1) by auto
        then show ?thesis using n by (intro conjI exI [of _ n]) simp_all
      qed
      show "n = n'" if "sg_names ?s n = Some q" "sg_names ?s n' = Some q" for n n' q
        using that hm_okD(6) [OF ok, of n q n'] by (auto split: if_splits)
    qed
    then show ?thesis using f by blast
  qed
qed

lemma hm_fresh_name:
  assumes ok: "hm_ok hs s" and fresh: "\<forall>i m'. hm_map hs i m' \<longrightarrow> mh_name m' \<noteq> mh_name m"
  shows "sg_names s (get_container_name m) = None"
    and "\<And>i m'. hm_map hs i m' \<Longrightarrow> get_container_name m' \<noteq> get_container_name m"
proof -
  show other: "get_container_name m' \<noteq> get_container_name m" if "hm_map hs i m'" for i m'
    using fresh that get_container_name_inj by blast
  show "sg_names s (get_container_name m) = None"
  proof (rule ccontr)
    assume "sg_names s (get_container_name m) \<noteq> None"
    then obtain i m' where "hm_map hs i m'" "get_container_name m' = get_container_name m" using hm_okD(4) [OF ok] by blast
    then show False using other by blast
  qed
qed

lemma hm_next_free: "hm_ok hs s \<Longrightarrow> sg_names s n \<noteq> Some (sg_next s)"
  using hm_okD(4) [of hs s n "sg_next s"] hm_okD(5) [of hs s "sg_next s"] by auto

lemma hm_ok_insert_null:
  assumes ok: "hm_ok hs s" and b: "built_in m" "mh_type m \<noteq> BPF_MAP_TYPE_ARRAY_OF_MAPS" "mh_map_impl_ptr m = None"
    and fresh: "\<forall>i m'. hm_map hs i m' \<longrightarrow> mh_name m' \<noteq> mh_name m"
    and e: "\<And>i m'. hm_map hs1 i m' \<longleftrightarrow> (i = k \<and> m' = m) \<or> hm_map hs i m'"
  shows "hm_ok hs1 s"
proof -
  have names: "i = j" if "hm_map hs1 i m'" "hm_map hs1 j m''" "mh_name m' = mh_name m''" for i j m' m''
    using that hm_okD(3) [OF ok, of i m' j m''] fresh [rule_format, of i m'] fresh [rule_format, of j m''] unfolding e by auto
  show ?thesis
  proof (rule hm_okI [OF _ _ names])
    show "\<exists>i m x. hm_map hs1 i m \<and> get_container_name m = n \<and>
        mh_map_impl_ptr m = Some p \<and> sg_objs s p = Some x \<and> impl_type x = mh_type m" if "sg_names s n = Some p" for n p
      using hm_okD(4) [OF ok that] unfolding e by blast
  qed (use hm_okD(1,2,5,6) [OF ok] b e in fastforce)+
qed

lemma hm_ok_insert_object:
  assumes ok: "hm_ok hs s" and b: "built_in m" "mh_type m \<noteq> BPF_MAP_TYPE_ARRAY_OF_MAPS"
    and fresh: "\<forall>i m'. hm_map hs i m' \<longrightarrow> mh_name m' \<noteq> mh_name m" and x: "impl_type x = mh_type m"
    and m1: "m1 = m\<lparr>mh_map_impl_ptr := Some (sg_next s)\<rparr>"
    and s1: "s1 = s\<lparr>sg_names := (sg_names s)(get_container_name m \<mapsto> sg_next s),
      sg_objs := (sg_objs s)(sg_next s \<mapsto> x), sg_next := sg_next s + 1\<rparr>"
    and e: "\<And>i m'. hm_map hs1 i m' \<longleftrightarrow> (i = k \<and> m' = m1) \<or> hm_map hs i m'"
  shows "hm_ok hs1 s1"
proof (rule hm_okI)
  note none = hm_fresh_name(1) [OF ok fresh] and other = hm_fresh_name(2) [OF ok fresh] and free = hm_next_free [OF ok]
  show "i = j" if "hm_map hs1 i m'" "hm_map hs1 j m''" "mh_name m' = mh_name m''" for i j m' m''
    using that hm_okD(3) [OF ok, of i m' j m''] fresh [rule_format, of i m'] fresh [rule_format, of j m''] unfolding e m1 by auto
  show "built_in m' \<and> mh_type m' \<noteq> BPF_MAP_TYPE_ARRAY_OF_MAPS" if "hm_map hs1 i m'" for i m'
    using that hm_okD(1) [OF ok] b unfolding e m1 by (auto simp: built_in_def)
  show "sg_names s1 (get_container_name m') = Some p" if "hm_map hs1 i m'" "mh_map_impl_ptr m' = Some p" for i m' p
    using that hm_okD(2) [OF ok, of i m' p] other [of i m'] unfolding e m1 s1 by auto
  show "\<exists>i m x. hm_map hs1 i m \<and> get_container_name m = n \<and>
      mh_map_impl_ptr m = Some p \<and> sg_objs s1 p = Some x \<and> impl_type x = mh_type m" if n: "sg_names s1 n = Some p" for n p
  proof (cases "n = get_container_name m")
    case True
    then show ?thesis using n m1 s1 x e by (intro exI [of _ k] exI [of _ m1] exI [of _ x]) simp
  next
    case False
    then have n': "sg_names s n = Some p" using n s1 by simp
    then have "p \<noteq> sg_next s" using free [of n] by auto
    then show ?thesis using hm_okD(4) [OF ok n'] unfolding e s1 by auto
  qed
  show "p < sg_next s1 \<and> (\<exists>n. sg_names s1 n = Some p)" if p: "sg_objs s1 p = Some y" for p y
  proof (cases "p = sg_next s")
    case True
    then show ?thesis using s1 by auto
  next
    case False
    then obtain n where n: "p < sg_next s" "sg_names s n = Some p" using p hm_okD(5) [OF ok, of p y] s1 by auto
    then have "n \<noteq> get_container_name m" using none by auto
    then show ?thesis using n s1 by auto
  qed
  show "n = n'" if "sg_names s1 n = Some p" "sg_names s1 n' = Some p" for n n' p
    using that hm_okD(6) [OF ok, of n p n'] free [of n] free [of n'] unfolding s1 by (auto split: if_splits)
qed

lemma hm_ok_add:
  assumes ok: "hm_ok hs s" and b: "built_in m" "mh_type m \<noteq> BPF_MAP_TYPE_ARRAY_OF_MAPS" "mh_map_impl_ptr m = None"
    and fresh: "\<forall>i m'. hm_map hs i m' \<longrightarrow> mh_name m' \<noteq> mh_name m"
    and init: "map_init e m s = (r, m1, s1)"
    and maps: "\<And>i m'. hm_map hs1 i m' \<longleftrightarrow> (i = k \<and> m' = m1) \<or> hm_map hs i m'"
  shows "hm_ok hs1 s1"
proof -
  note none = hm_fresh_name(1) [OF ok fresh]
  show ?thesis
  proof (cases "m1 = m \<and> s1 = s")
    case True
    then show ?thesis using hm_ok_insert_null [OF ok b fresh, of hs1 k] maps by simp
  next
    case False
    then obtain x where x: "impl_new e m = Inr x"
      using init none by (cases "impl_new e m") (auto simp: map_init_built_in [OF b(1)] sg_construct_def split: if_split_asm)
    have "m1 = m\<lparr>mh_map_impl_ptr := Some (sg_next s)\<rparr> \<and>
      s1 = s\<lparr>sg_names := (sg_names s)(get_container_name m \<mapsto> sg_next s),
        sg_objs := (sg_objs s)(sg_next s \<mapsto> x), sg_next := sg_next s + 1\<rparr>"
      using init none x False by (auto simp: map_init_built_in [OF b(1)] sg_construct_def split: if_split_asm)
    then show ?thesis
      using hm_ok_insert_object [OF ok b(1,2) fresh impl_new_type [OF b(1) x], of m1 s1 hs1 k] maps by simp
  qed
qed

lemma hm_ok_clear:
  assumes "hm_ok hs s" and "clear_id_at e fd hs s = (r, hs', s')"
  shows "r = Inr () \<and> hm_ok hs' s'"
  using assms(2)
proof (cases rule: clear_id_at_cases)
  case outside
  then show ?thesis using assms(1) by simp
next
  case (map_failed m f)
  then have "hm_map hs (nat fd) m" by (simp add: hm_map_def)
  then show ?thesis using hm_ok_remove [OF assms(1), of "nat fd" m e] map_failed(5) by auto
next
  case (map_freed m)
  then have "hm_map hs (nat fd) m" by (simp add: hm_map_def)
  moreover have "hm_map hs' i m' \<longleftrightarrow> hm_map hs i m' \<and> i \<noteq> nat fd" for i m'
    using map_freed(2) by (auto simp: hm_map_def map_freed(6) nth_list_update)
  ultimately show ?thesis using hm_ok_remove [OF assms(1), of "nat fd" m e] map_freed(4,5) by auto
next
  case (prog p)
  have "hm_map hs' i m \<longleftrightarrow> hm_map hs i m" for i m
    using prog(2,3) clear_links_cases [of i hs "\<lambda>l. lk_prog_id l = fd"] clear_links_other [of i hs "\<lambda>l. lk_prog_id l = fd" 0]
    by (auto simp: hm_map_def prog(6) nth_list_update)
  then show ?thesis using assms(1) prog(4,5) hm_ok_cong by blast
next
  case (perf p)
  have "hm_map hs' i m \<longleftrightarrow> hm_map hs i m" for i m
    using perf(2,3) clear_links_cases [of i hs "\<lambda>l. lk_attach_target_id l = fd"]
      clear_links_other [of i hs "\<lambda>l. lk_attach_target_id l = fd" 0]
    by (auto simp: hm_map_def perf(6) nth_list_update)
  then show ?thesis using assms(1) perf(4,5) hm_ok_cong by blast
next
  case plain
  have "hm_map hs' i m \<longleftrightarrow> hm_map hs i m" for i m
    using plain(2,3) by (auto simp: hm_map_def plain(7) nth_list_update)
  then show ?thesis using assms(1) plain(5,6) hm_ok_cong by blast
qed

interpretation mps: manager_inv hm_ok
  by unfold_locales (use hm_ok_clear in blast)

lemma clear_id_at_done:
  assumes "clear_id_at e fd hs s = (Inr (), hs', s')" and "j < length hs"
  shows "hs' ! j = Unused \<or> hs' ! j = hs ! j \<and> int j \<noteq> fd"
  using assms(1)
proof (cases rule: clear_id_at_cases)
  case (prog p)
  then show ?thesis using assms(2) clear_links_cases [OF assms(2)] by (auto simp: nth_list_update)
next
  case (perf p)
  then show ?thesis using assms(2) clear_links_cases [OF assms(2)] by (auto simp: nth_list_update)
qed (use assms(2) in \<open>auto simp: nth_list_update\<close>)

lemma clear_all_from_done:
  "hm_ok hs s \<Longrightarrow> n \<le> length hs \<Longrightarrow> \<forall>j < length hs - n. hs ! j = Unused \<Longrightarrow>
   \<exists>hs' s'. clear_all_from e n hs s = (Inr (), hs', s') \<and> length hs' = length hs \<and> (\<forall>j < length hs. hs' ! j = Unused)"
proof (induction n arbitrary: hs s)
  case 0
  then show ?case by simp
next
  case (Suc n)
  let ?i = "length hs - Suc n"
  have i: "?i < length hs" "length hs - n = Suc ?i" using Suc.prems(2) by simp_all
  show ?case
  proof (cases "is_allocated (int ?i) hs")
    case True
    obtain r hs1 s1 where c: "clear_id_at e (int ?i) hs s = (r, hs1, s1)" by (metis prod_cases3)
    then have ok: "r = Inr ()" "hm_ok hs1 s1" using hm_ok_clear [OF Suc.prems(1)] by blast+
    then have c: "clear_id_at e (int ?i) hs s = (Inr (), hs1, s1)" using c by simp
    note l = length_clear_id_at [OF c]
    have "\<forall>j < length hs1 - n. hs1 ! j = Unused"
    proof (intro allI impI)
      fix j
      assume j: "j < length hs1 - n"
      then have "j < length hs" using i l by simp
      then show "hs1 ! j = Unused"
        using clear_id_at_done [OF c, of j] Suc.prems(3) j i(2) l by (cases "j = ?i") auto
    qed
    then show ?thesis using Suc.IH [OF ok(2)] Suc.prems(2) l True c by (simp add: Let_def)
  next
    case False
    then have "hs ! ?i = Unused" using i(1) is_allocated_nat by blast
    then have "\<forall>j < length hs - n. hs ! j = Unused" using Suc.prems(3) i(2) less_Suc_eq by metis
    then show ?thesis using Suc.IH [OF Suc.prems(1)] Suc.prems(2) False by (simp add: Let_def)
  qed
qed

subsection \<open>Properties\<close>

text \<open>
  \<open>set_handler_at_empty_slot\<close> uses the least free slot. It fails with -1 exactly when every
  slot is taken; otherwise it does what \<open>set_handler\<close> does at the least free slot, which is
  then allocated, and no other slot changes.
\<close>

theorem empty_slot_least:
  assumes "h \<noteq> Unused" and "set_handler_at_empty_slot e h hs s = (r, hs', s')"
  shows "if \<forall>j < length hs. hs ! j \<noteq> Unused then r = Inl MinusOne \<and> hs' = hs \<and> s' = s
    else \<exists>i < length hs. hs ! i = Unused \<and> (\<forall>j < i. hs ! j \<noteq> Unused) \<and>
      set_handler e (int i) h hs s = (r, hs', s') \<and> is_allocated (int i) hs' \<and>
      (\<forall>j < length hs. j \<noteq> i \<longrightarrow> hs' ! j = hs ! j)"
proof (cases "\<forall>j < length hs. hs ! j \<noteq> Unused")
  case True
  then have "find_minimal_unused_idx hs = -1"
    using find_unused_from_cases [of 0 hs] by (auto simp: find_minimal_unused_idx_def)
  then show ?thesis using True assms(2) by (simp add: set_handler_at_empty_slot_def)
next
  case False
  then obtain i where i: "find_minimal_unused_idx hs = int i" "i < length hs" "hs ! i = Unused" "\<forall>j < i. hs ! j \<noteq> Unused"
    using find_unused_from_cases [of 0 hs] unfolding find_minimal_unused_idx_def by auto
  then have set: "set_handler e (int i) h hs s = (r, hs', s')"
    using assms(2) by (simp add: set_handler_at_empty_slot_def)
  have "\<exists>h'. hs' = hs[i := h'] \<and> h' \<noteq> Unused"
    using set assms(1) i(2,3) unfolding set_handler_def
    by (cases h) (auto simp: is_allocated_nat split: prod.splits)
  then have "is_allocated (int i) hs' \<and> (\<forall>j < length hs. j \<noteq> i \<longrightarrow> hs' ! j = hs ! j)"
    using i(2) by (auto simp: is_allocated_def)
  then show ?thesis using False i set by auto
qed

theorem empty_slot_least_witness:
  "set_handler_at_empty_slot sample_env (Epoll_H []) [Memfd_H ''a'' 0, Unused] (empty_segment 0) =
     (Inr 1, [Memfd_H ''a'' 0, Epoll_H []], empty_segment 0) \<and> is_allocated 1 [Memfd_H ''a'' 0, Epoll_H []]"
proof -
  let ?hs = "[Memfd_H ''a'' 0, Unused]" and ?hs' = "[Memfd_H ''a'' 0, Epoll_H []]"
  have s: "set_handler_at_empty_slot sample_env (Epoll_H []) ?hs (empty_segment 0) = (Inr 1, ?hs', empty_segment 0)"
    by (simp add: set_handler_at_empty_slot_def find_minimal_unused_idx_def find_unused_from.simps [of 0]
        find_unused_from.simps [of 1] find_unused_from.simps [of "Suc 0"] is_allocated_def set_handler_def)
  have n: "\<not> (\<forall>j < length ?hs. ?hs ! j \<noteq> Unused)" by (auto intro: exI [of _ 1])
  obtain i where "i < length ?hs" "?hs ! i = Unused" "is_allocated (int i) ?hs'"
    using empty_slot_least [OF _ s, unfolded if_not_P [OF n]] by blast
  moreover from this have "i = 1" by (cases i) auto
  ultimately show ?thesis using s by simp
qed

text \<open>
  C11: closing everything leaves nothing behind. On a table whose maps have built-in types
  other than array of maps, distinct names and their objects in the segment,
  \<open>clear_all\<close> returns, every slot is unused, and the segment holds no name and no object.
\<close>

theorem clear_all_gives_back:
  assumes "hm_ok hs s"
  shows "\<exists>hs' s'. clear_all e hs s = (Inr (), hs', s') \<and> length hs' = length hs \<and>
    (\<forall>j < length hs. hs' ! j = Unused) \<and> sg_names s' = Map.empty \<and> sg_objs s' = Map.empty"
proof -
  obtain hs' s' where c: "clear_all e hs s = (Inr (), hs', s')" "length hs' = length hs" "\<forall>j < length hs. hs' ! j = Unused"
    using clear_all_from_done [OF assms, of "length hs" e] by (auto simp: clear_all_def)
  have ok: "hm_ok hs' s'" by (rule mps.clear_all_keeps [OF assms c(1)])
  have none: "sg_names s' n = None" for n
    using hm_okD(4) [OF ok, of n] c(2,3) by (cases "sg_names s' n") (auto simp: hm_map_def)
  moreover have "sg_objs s' p = None" for p
    using hm_okD(5) [OF ok, of p] none by (cases "sg_objs s' p") auto
  ultimately show ?thesis using c by auto
qed

lemma sample_hm_ok: "hm_ok [Map_H (sample_map (Some 0))] sample_segment"
proof -
  have "hm_ok [Unused] (empty_segment 0)" by (rule hm_okI) (auto simp: hm_map_def)
  then show ?thesis
    by (rule hm_ok_add [OF _ _ _ _ _ sample_map_init(1), where k = 0]) (auto simp: hm_map_def)
qed

theorem clear_all_gives_back_witness:
  "\<exists>hs' s'. clear_all sample_env [Map_H (sample_map (Some 0))] sample_segment = (Inr (), hs', s') \<and>
    hs' ! 0 = Unused \<and> sg_objs s' = Map.empty"
  using clear_all_gives_back [OF sample_hm_ok, of sample_env] by auto

end
