(* ===== verification/Bpftime_Shm.thy ===== *)
theory Bpftime_Shm
  imports Handler_Manager
begin

text \<open>
  \<open>bpftime_shm\<close> (\<open>bpftime_shm_internal.cpp\<close>): the shared memory of the runtime with its table of
  handlers, and the operations behind the \<open>bpf(2)\<close> and \<open>perf_event_open(2)\<close> calls it stands in
  for. \<open>sh_manager\<close> is \<open>None\<close> where the code has no manager (\<open>SHM_NO_CREATE\<close>). The agent
  configuration is a parameter. \<open>os i\<close> is what the \<open>i\<close>-th \<open>open\<close> or \<open>dup\<close> of a call returns.
  \<open>sh_cleared fd\<close> counts how often the slot of \<open>fd\<close> was cleared: a weak pointer to the event of a
  slot is the descriptor with the count at which it was made, and is expired at a later one.
\<close>

record bpftime_shm =
  sh_manager :: "handler_variant list option"
  sh_segment :: segment
  sh_syscall_installed_pids :: "int set"
  sh_injected_pids :: "int set"
  sh_cleared :: "int \<Rightarrow> nat"

text \<open>\<open>SHM_REMOVE_AND_CREATE\<close> with a table of \<open>max_fd_count\<close> slots.\<close>

definition shm_new :: "nat \<Rightarrow> bpftime_shm" where
  "shm_new max_fd_count = \<lparr>sh_manager = Some (hm_new max_fd_count), sh_segment = empty_segment 0,
     sh_syscall_installed_pids = {}, sh_injected_pids = {}, sh_cleared = (\<lambda>_. 0)\<rparr>"

definition check_syscall_trace_setup :: "int \<Rightarrow> bpftime_shm \<Rightarrow> bool" where
  "check_syscall_trace_setup pid sh = (pid \<in> sh_syscall_installed_pids sh)"

definition set_syscall_trace_setup :: "int \<Rightarrow> bool \<Rightarrow> bpftime_shm \<Rightarrow> bpftime_shm" where
  "set_syscall_trace_setup pid whether sh =
     (if whether then sh\<lparr>sh_syscall_installed_pids := insert pid (sh_syscall_installed_pids sh)\<rparr>
      else sh\<lparr>sh_syscall_installed_pids := sh_syscall_installed_pids sh - {pid}\<rparr>)"

definition add_pid_into_alive_agent_set :: "int \<Rightarrow> bpftime_shm \<Rightarrow> bpftime_shm" where
  "add_pid_into_alive_agent_set pid sh = sh\<lparr>sh_injected_pids := insert pid (sh_injected_pids sh)\<rparr>"

definition remove_pid_from_alive_agent_set :: "int \<Rightarrow> bpftime_shm \<Rightarrow> bpftime_shm" where
  "remove_pid_from_alive_agent_set pid sh = sh\<lparr>sh_injected_pids := sh_injected_pids sh - {pid}\<rparr>"

subsection \<open>Descriptors\<close>

text \<open>The handler of a descriptor, \<open>None\<close> where the tests of the code return false.\<close>

definition sh_slot :: "int \<Rightarrow> bpftime_shm \<Rightarrow> handler_variant option" where
  "sh_slot fd sh = (case sh_manager sh of
       None \<Rightarrow> None
     | Some hs \<Rightarrow> (if fd < 0 \<or> nat fd \<ge> length hs then None else Some (hs ! nat fd)))"

definition is_map_fd :: "int \<Rightarrow> bpftime_shm \<Rightarrow> bool" where
  "is_map_fd fd sh = (case sh_slot fd sh of Some (Map_H _) \<Rightarrow> True | _ \<Rightarrow> False)"

definition is_epoll_fd :: "int \<Rightarrow> bpftime_shm \<Rightarrow> bool" where
  "is_epoll_fd fd sh = (case sh_slot fd sh of Some (Epoll_H _) \<Rightarrow> True | _ \<Rightarrow> False)"

definition is_prog_fd :: "int \<Rightarrow> bpftime_shm \<Rightarrow> bool" where
  "is_prog_fd fd sh = (case sh_slot fd sh of Some (Prog_H _) \<Rightarrow> True | _ \<Rightarrow> False)"

definition is_perf_fd :: "int \<Rightarrow> bpftime_shm \<Rightarrow> bool" where
  "is_perf_fd fd sh = (case sh_slot fd sh of Some (Perf_H _) \<Rightarrow> True | _ \<Rightarrow> False)"

definition is_perf_event_handler_fd :: "int \<Rightarrow> bpftime_shm \<Rightarrow> bool" where
  "is_perf_event_handler_fd fd sh = (case sh_slot fd sh of Some (Perf_H _) \<Rightarrow> True | _ \<Rightarrow> False)"

definition is_software_perf_event_handler_fd :: "int \<Rightarrow> bpftime_shm \<Rightarrow> bool" where
  "is_software_perf_event_handler_fd fd sh = (case sh_slot fd sh of
       Some (Perf_H h) \<Rightarrow> ph_type h = event_type_code PERF_TYPE_SOFTWARE
     | _ \<Rightarrow> False)"

definition is_stack_trace_map_fd :: "int \<Rightarrow> bpftime_shm \<Rightarrow> bool" where
  "is_stack_trace_map_fd fd sh =
     (case sh_slot fd sh of Some (Map_H m) \<Rightarrow> mh_type m = BPF_MAP_TYPE_STACK_TRACE | _ \<Rightarrow> False)"

definition is_ringbuf_map_fd :: "int \<Rightarrow> bpftime_shm \<Rightarrow> bool" where
  "is_ringbuf_map_fd fd sh =
     (case sh_slot fd sh of Some (Map_H m) \<Rightarrow> mh_type m = BPF_MAP_TYPE_RINGBUF | _ \<Rightarrow> False)"

definition is_shared_perf_event_array_map_fd :: "int \<Rightarrow> bpftime_shm \<Rightarrow> bool" where
  "is_shared_perf_event_array_map_fd fd sh =
     (case sh_slot fd sh of Some (Map_H m) \<Rightarrow> mh_type m = BPF_MAP_TYPE_KERNEL_USER_PERF_EVENT_ARRAY | _ \<Rightarrow> False)"

definition is_array_map_fd :: "int \<Rightarrow> bpftime_shm \<Rightarrow> bool" where
  "is_array_map_fd fd sh =
     (case sh_slot fd sh of Some (Map_H m) \<Rightarrow> mh_type m = BPF_MAP_TYPE_ARRAY | _ \<Rightarrow> False)"

definition is_prog_array_map_fd :: "int \<Rightarrow> bpftime_shm \<Rightarrow> bool" where
  "is_prog_array_map_fd fd sh =
     (case sh_slot fd sh of Some (Map_H m) \<Rightarrow> mh_type m = BPF_MAP_TYPE_PROG_ARRAY | _ \<Rightarrow> False)"

definition is_exist_fake_fd :: "int \<Rightarrow> bpftime_shm \<Rightarrow> bool" where
  "is_exist_fake_fd fd sh = (case sh_manager sh of
       None \<Rightarrow> False
     | Some hs \<Rightarrow> (if fd < 0 \<or> nat fd \<ge> length hs then False else is_allocated fd hs))"

definition find_minimal_unused_fd :: "bpftime_shm \<Rightarrow> int" where
  "find_minimal_unused_fd sh = (case sh_manager sh of None \<Rightarrow> -1 | Some hs \<Rightarrow> find_minimal_unused_idx hs)"

text \<open>\<open>None\<close> is the empty optional.\<close>

definition sh_try_get_stack_trace_impl :: "int \<Rightarrow> bpftime_shm \<Rightarrow> nat option option" where
  "sh_try_get_stack_trace_impl fd sh =
     (if \<not> is_stack_trace_map_fd fd sh then None
      else (case sh_slot fd sh of Some (Map_H m) \<Rightarrow> try_get_stack_trace_map_impl m | _ \<Rightarrow> None))"

definition sh_try_get_ringbuf_map_impl :: "int \<Rightarrow> bpftime_shm \<Rightarrow> nat option option" where
  "sh_try_get_ringbuf_map_impl fd sh =
     (if \<not> is_ringbuf_map_fd fd sh then None
      else (case sh_slot fd sh of Some (Map_H m) \<Rightarrow> try_get_ringbuf_map_impl m | _ \<Rightarrow> None))"

definition sh_try_get_array_map_impl :: "int \<Rightarrow> bpftime_shm \<Rightarrow> nat option option" where
  "sh_try_get_array_map_impl fd sh =
     (if \<not> is_array_map_fd fd sh then None
      else (case sh_slot fd sh of Some (Map_H m) \<Rightarrow> try_get_array_map_impl m | _ \<Rightarrow> None))"

text \<open>\<open>/dev/null\<close> is opened, and duplicated at most four times to stay clear of descriptors 0 to 2.\<close>

fun open_fake_fd_loop :: "(nat \<Rightarrow> int) \<Rightarrow> nat \<Rightarrow> nat \<Rightarrow> int \<Rightarrow> int" where
  "open_fake_fd_loop os i cnt fd =
     (if fd \<le> 2 \<and> fd \<ge> 0 \<and> cnt - 1 > 0 then open_fake_fd_loop os (i + 1) (cnt - 1) (os i) else fd)"

declare open_fake_fd_loop.simps [simp del]

definition open_fake_fd :: "(nat \<Rightarrow> int) \<Rightarrow> int" where
  "open_fake_fd os = open_fake_fd_loop os 1 5 (os 0)"

subsection \<open>Map operations\<close>

definition sh_map_call ::
  "(map_handler \<Rightarrow> segment \<Rightarrow> 'a res \<times> segment) \<Rightarrow> int \<Rightarrow> bpftime_shm \<Rightarrow> 'a res \<times> bpftime_shm"
where
  "sh_map_call f fd sh = (case sh_slot fd sh of
       Some (Map_H m) \<Rightarrow> (case f m (sh_segment sh) of (r, s) \<Rightarrow> (r, sh\<lparr>sh_segment := s\<rparr>))
     | _ \<Rightarrow> (Inl (Errno ENOENT), sh))"

definition shm_map_value_size :: "runtime_env \<Rightarrow> int \<Rightarrow> bpftime_shm \<Rightarrow> nat res" where
  "shm_map_value_size e fd sh = (case sh_slot fd sh of
       Some (Map_H m) \<Rightarrow> Inr (get_userspace_value_size e m)
     | _ \<Rightarrow> Inl (Errno ENOENT))"

definition shm_map_lookup_elem :: "runtime_env \<Rightarrow> int \<Rightarrow> ptr \<Rightarrow> bool \<Rightarrow> bpftime_shm \<Rightarrow> elem res \<times> bpftime_shm" where
  "shm_map_lookup_elem e fd key from_syscall = sh_map_call (map_lookup_elem e key from_syscall) fd"

definition shm_map_update_elem ::
  "runtime_env \<Rightarrow> int \<Rightarrow> ptr \<Rightarrow> ptr \<Rightarrow> nat \<Rightarrow> bool \<Rightarrow> bpftime_shm \<Rightarrow> unit res \<times> bpftime_shm"
where
  "shm_map_update_elem e fd key value flags from_syscall =
     sh_map_call (map_update_elem e key value flags from_syscall) fd"

definition shm_delete_elem :: "runtime_env \<Rightarrow> int \<Rightarrow> ptr \<Rightarrow> bool \<Rightarrow> bpftime_shm \<Rightarrow> unit res \<times> bpftime_shm" where
  "shm_delete_elem e fd key from_syscall = sh_map_call (map_delete_elem e key from_syscall) fd"

definition shm_map_push_elem :: "int \<Rightarrow> ptr \<Rightarrow> nat \<Rightarrow> bool \<Rightarrow> bpftime_shm \<Rightarrow> unit res \<times> bpftime_shm" where
  "shm_map_push_elem fd value flags from_syscall = sh_map_call (map_push_elem value flags from_syscall) fd"

definition shm_map_pop_elem :: "int \<Rightarrow> outbuf \<Rightarrow> bool \<Rightarrow> bpftime_shm \<Rightarrow> bytes res \<times> bpftime_shm" where
  "shm_map_pop_elem fd value from_syscall = sh_map_call (map_pop_elem value from_syscall) fd"

definition shm_map_peek_elem :: "int \<Rightarrow> ptr \<Rightarrow> bool \<Rightarrow> bpftime_shm \<Rightarrow> bytes res \<times> bpftime_shm" where
  "shm_map_peek_elem fd value from_syscall = sh_map_call (map_peek_elem value from_syscall) fd"

definition shm_map_get_next_key ::
  "runtime_env \<Rightarrow> int \<Rightarrow> ptr \<Rightarrow> outbuf \<Rightarrow> bool \<Rightarrow> bpftime_shm \<Rightarrow> bytes res \<times> bpftime_shm"
where
  "shm_map_get_next_key e fd key next_key from_syscall =
     sh_map_call (bpf_map_get_next_key e key next_key from_syscall) fd"

definition bpftime_map_get_info :: "int \<Rightarrow> bpftime_shm \<Rightarrow> (bpf_map_attr \<times> string \<times> bpf_map_type) res" where
  "bpftime_map_get_info fd sh = (case sh_slot fd sh of
       Some (Map_H m) \<Rightarrow> Inr (mh_attr m, mh_name m, mh_type m)
     | _ \<Rightarrow> Inl (Errno ENOENT))"

subsection \<open>Creating and closing handlers\<close>

text \<open>\<open>manager->set_handler\<close> and \<open>manager->clear_id_at\<close>; most callers do not test the pointer.\<close>

definition sh_set :: "runtime_env \<Rightarrow> int \<Rightarrow> handler_variant \<Rightarrow> bpftime_shm \<Rightarrow> int res \<times> bpftime_shm" where
  "sh_set e fd h sh = (case sh_manager sh of
       None \<Rightarrow> (Inl UB, sh)
     | Some hs \<Rightarrow> (case set_handler e fd h hs (sh_segment sh) of (r, hs', s') \<Rightarrow>
         (r, sh\<lparr>sh_manager := Some hs', sh_segment := s'\<rparr>)))"

definition sh_clear :: "runtime_env \<Rightarrow> int \<Rightarrow> bpftime_shm \<Rightarrow> unit res \<times> bpftime_shm" where
  "sh_clear e fd sh = (case sh_manager sh of
       None \<Rightarrow> (Inr (), sh)
     | Some hs \<Rightarrow> (case clear_id_at e fd hs (sh_segment sh) of (r, hs', s') \<Rightarrow>
         (r, sh\<lparr>sh_manager := Some hs', sh_segment := s', sh_cleared := (sh_cleared sh)(fd := sh_cleared sh fd + 1)\<rparr>)))"

definition close_fd :: "runtime_env \<Rightarrow> int \<Rightarrow> bpftime_shm \<Rightarrow> unit res \<times> bpftime_shm" where
  "close_fd e fd sh = sh_clear e fd sh"

definition new_fd :: "(nat \<Rightarrow> int) \<Rightarrow> int \<Rightarrow> int" where
  "new_fd os fd = (if fd < 0 then open_fake_fd os else fd)"

definition add_kprobe ::
  "runtime_env \<Rightarrow> (nat \<Rightarrow> int) \<Rightarrow> int option \<Rightarrow> string \<Rightarrow> nat \<Rightarrow> bool \<Rightarrow> nat \<Rightarrow> bpftime_shm \<Rightarrow> int res \<times> bpftime_shm"
where
  "add_kprobe e os fd func_name addr retprobe ref_ctr_off sh =
     (let new_fd = (case fd of Some x \<Rightarrow> x | None \<Rightarrow> open_fake_fd os) in
      sh_set e new_fd (Perf_H (ph_new_kprobe retprobe addr func_name ref_ctr_off)) sh)"

definition add_uprobe ::
  "runtime_env \<Rightarrow> (nat \<Rightarrow> int) \<Rightarrow> int \<Rightarrow> int \<Rightarrow> string \<Rightarrow> nat \<Rightarrow> bool \<Rightarrow> nat \<Rightarrow> bpftime_shm \<Rightarrow> int res \<times> bpftime_shm"
where
  "add_uprobe e os fd pid name offset retprobe ref_ctr_off sh =
     sh_set e (new_fd os fd) (Perf_H (ph_new_uprobe retprobe offset pid name ref_ctr_off)) sh"

definition add_uprobe_override ::
  "runtime_env \<Rightarrow> (nat \<Rightarrow> int) \<Rightarrow> int \<Rightarrow> int \<Rightarrow> string \<Rightarrow> nat \<Rightarrow> bool \<Rightarrow> bpftime_shm \<Rightarrow> int res \<times> bpftime_shm"
where
  "add_uprobe_override e os fd pid name offset is_replace sh =
     (if is_replace
      then sh_set e (new_fd os fd) (Perf_H (ph_new_override BPF_TYPE_UREPLACE offset pid name True)) sh
      else sh_set e (new_fd os fd) (Perf_H (ph_new_override BPF_TYPE_UPROBE_OVERRIDE offset pid name True)) sh)"

definition add_tracepoint ::
  "runtime_env \<Rightarrow> (nat \<Rightarrow> int) \<Rightarrow> int \<Rightarrow> int \<Rightarrow> int \<Rightarrow> bpftime_shm \<Rightarrow> int res \<times> bpftime_shm"
where
  "add_tracepoint e os fd pid tracepoint_id sh =
     sh_set e (new_fd os fd) (Perf_H (ph_new_tracepoint pid tracepoint_id)) sh"

definition add_software_perf_event ::
  "runtime_env \<Rightarrow> int \<Rightarrow> int \<Rightarrow> int \<Rightarrow> int \<Rightarrow> bpftime_shm \<Rightarrow> int res \<times> bpftime_shm"
where
  "add_software_perf_event e fd cpu sample_type config sh =
     sh_set e fd (Perf_H (ph_new_software (re_page_size e) cpu sample_type config)) sh"

text \<open>The result of \<open>set_handler\<close> is dropped: the new id is returned in any case.\<close>

definition add_bpf_prog_attach_target ::
  "runtime_env \<Rightarrow> (nat \<Rightarrow> int) \<Rightarrow> int \<Rightarrow> int \<Rightarrow> nat option \<Rightarrow> bpftime_shm \<Rightarrow> int res \<times> bpftime_shm"
where
  "add_bpf_prog_attach_target e os perf_fd bpf_fd cookie sh =
     (if \<not> is_prog_fd bpf_fd sh then (Inl (Errno ENOENT), sh)
      else
        (let next_id = open_fake_fd os in
         if next_id < 0 then (Inl (NegErrno ENOSPC), sh)
         else (case sh_set e next_id (Link_H (lk_new_cookie bpf_fd perf_fd cookie)) sh of
             (Inl UB, sh') \<Rightarrow> (Inl UB, sh')
           | (_, sh') \<Rightarrow> (Inr next_id, sh'))))"

definition attach_perf_to_bpf ::
  "runtime_env \<Rightarrow> (nat \<Rightarrow> int) \<Rightarrow> int \<Rightarrow> int \<Rightarrow> nat option \<Rightarrow> bpftime_shm \<Rightarrow> int res \<times> bpftime_shm"
where
  "attach_perf_to_bpf e os perf_fd bpf_fd cookie sh =
     (if \<not> is_perf_fd perf_fd sh then (Inl (Errno ENOENT), sh)
      else add_bpf_prog_attach_target e os perf_fd bpf_fd cookie sh)"

text \<open>A change of the handler in a slot.\<close>

definition sh_put :: "int \<Rightarrow> handler_variant \<Rightarrow> bpftime_shm \<Rightarrow> bpftime_shm" where
  "sh_put fd h sh = sh\<lparr>sh_manager := map_option (\<lambda>hs. hs[nat fd := h]) (sh_manager sh)\<rparr>"

definition shm_perf_event_enable :: "int \<Rightarrow> bpftime_shm \<Rightarrow> unit res \<times> bpftime_shm" where
  "shm_perf_event_enable fd sh = (case sh_slot fd sh of
       Some (Perf_H h) \<Rightarrow> (Inr (), sh_put fd (Perf_H (ph_enable h)) sh)
     | _ \<Rightarrow> (Inl (Errno ENOENT), sh))"

definition shm_perf_event_disable :: "int \<Rightarrow> bpftime_shm \<Rightarrow> unit res \<times> bpftime_shm" where
  "shm_perf_event_disable fd sh = (case sh_slot fd sh of
       Some (Perf_H h) \<Rightarrow> (Inr (), sh_put fd (Perf_H (ph_disable h)) sh)
     | _ \<Rightarrow> (Inl (Errno ENOENT), sh))"

text \<open>A null buffer is a null pointer; the empty optional cannot occur for a software event.\<close>

definition get_software_perf_event_raw_buffer :: "int \<Rightarrow> nat \<Rightarrow> bpftime_shm \<Rightarrow> unit res option \<times> bpftime_shm" where
  "get_software_perf_event_raw_buffer fd buffer_sz sh =
     (if \<not> is_software_perf_event_handler_fd fd sh then (Some (Inl (Errno EINVAL)), sh)
      else (case sh_slot fd sh of
          Some (Perf_H h) \<Rightarrow> (case try_get_software_perf_data_raw_buffer buffer_sz h of
            (r, h') \<Rightarrow> (r, sh_put fd (Perf_H h') sh))
        | _ \<Rightarrow> (None, sh)))"

definition add_software_perf_event_to_epoll :: "int \<Rightarrow> int \<Rightarrow> nat \<Rightarrow> bpftime_shm \<Rightarrow> unit res \<times> bpftime_shm" where
  "add_software_perf_event_to_epoll swpe_fd epoll_fd extra_data sh = (case sh_slot epoll_fd sh of
       Some (Epoll_H files) \<Rightarrow>
         (if \<not> is_software_perf_event_handler_fd swpe_fd sh then (Inl (Errno EINVAL), sh)
          else (case sh_slot swpe_fd sh of
              Some (Perf_H h) \<Rightarrow>
                (if ph_type h \<noteq> event_type_code PERF_TYPE_SOFTWARE then (Inl (Errno EINVAL), sh)
                 else (case try_get_software_perf_data_weak_ptr h of
                     Some _ \<Rightarrow> (Inr (), sh_put epoll_fd (Epoll_H (files @ [Perf_File swpe_fd (sh_cleared sh swpe_fd) extra_data])) sh)
                   | None \<Rightarrow> (Inl (Errno EINVAL), sh)))
            | _ \<Rightarrow> (Inl (Errno EINVAL), sh)))
     | _ \<Rightarrow> (Inl (Errno EINVAL), sh))"

text \<open>
  The condition \<open>if (opt.has_value(); auto val = opt.value())\<close> evaluates \<open>value()\<close> in any case,
  which raises for a map that is not a ring buffer.
\<close>

definition add_ringbuf_to_epoll :: "int \<Rightarrow> int \<Rightarrow> nat \<Rightarrow> bpftime_shm \<Rightarrow> unit res \<times> bpftime_shm" where
  "add_ringbuf_to_epoll ringbuf_fd epoll_fd extra_data sh = (case sh_slot epoll_fd sh of
       Some (Epoll_H files) \<Rightarrow>
         (case sh_slot ringbuf_fd sh of
            Some (Map_H m) \<Rightarrow>
              (case try_get_ringbuf_map_impl m of
                 None \<Rightarrow> (Inl Throw, sh)
               | Some (Some val) \<Rightarrow> (Inr (), sh_put epoll_fd (Epoll_H (files @ [Ringbuf_File val extra_data])) sh)
               | Some None \<Rightarrow> (Inl (Errno EINVAL), sh))
          | _ \<Rightarrow> (Inl (Errno EINVAL), sh))
     | _ \<Rightarrow> (Inl (Errno EINVAL), sh))"

definition epoll_create :: "runtime_env \<Rightarrow> (nat \<Rightarrow> int) \<Rightarrow> bpftime_shm \<Rightarrow> int res \<times> bpftime_shm" where
  "epoll_create e os sh =
     (let fd = open_fake_fd os in
      if is_exist_fake_fd fd sh then (Inl MinusOne, sh) else sh_set e fd (Epoll_H []) sh)"

definition add_bpf_prog ::
  "runtime_env \<Rightarrow> (nat \<Rightarrow> int) \<Rightarrow> int \<Rightarrow> 64 word list \<Rightarrow> string \<Rightarrow> int \<Rightarrow> bpftime_shm \<Rightarrow> int res \<times> bpftime_shm"
where
  "add_bpf_prog e os fd insn prog_name prog_type sh =
     sh_set e (new_fd os fd) (Prog_H (pr_new insn prog_name prog_type)) sh"

text \<open>\<open>args->prog_fd\<close> is read before the test of \<open>args\<close>: a null pointer is dereferenced.\<close>

definition add_bpf_link ::
  "runtime_env \<Rightarrow> (nat \<Rightarrow> int) \<Rightarrow> int \<Rightarrow> link_create_args option \<Rightarrow> bpftime_shm \<Rightarrow> int res \<times> bpftime_shm"
where
  "add_bpf_link e os fd args sh = (case args of
       None \<Rightarrow> (Inl UB, sh)
     | Some a \<Rightarrow>
         (if \<not> is_prog_fd (to_s32 (int (la_prog_fd a))) sh then (Inl (Errno EBADF), sh)
          else sh_set e (new_fd os fd) (Link_H (lk_new_args a)) sh))"

text \<open>The step shared by \<open>add_bpf_map\<close> and \<open>dup_bpf_map\<close>: clear an occupied slot.\<close>

definition sh_vacate :: "runtime_env \<Rightarrow> int \<Rightarrow> bpftime_shm \<Rightarrow> unit res \<times> bpftime_shm" where
  "sh_vacate e fd sh = (case sh_slot fd sh of
       None \<Rightarrow> (Inl UB, sh)
     | Some Unused \<Rightarrow> (Inr (), sh)
     | Some _ \<Rightarrow> sh_clear e fd sh)"

text \<open>
  The build without the verifier. With it the map is also described to the verifier, whose tables belong to a thread of the
  server and not to the shared memory: \<open>server_add_bpf_map\<close> of \<open>Syscall_Context\<close>.
\<close>

definition add_bpf_map ::
  "runtime_env \<Rightarrow> (nat \<Rightarrow> int) \<Rightarrow> int \<Rightarrow> string \<Rightarrow> bpf_map_attr \<Rightarrow> bpftime_shm \<Rightarrow> int res \<times> bpftime_shm"
where
  "add_bpf_map e os fd name attr sh =
     (if sh_manager sh = None then (Inl MinusOne, sh)
      else (case sh_vacate e (new_fd os fd) sh of
          (Inl f, sh') \<Rightarrow> (Inl f, sh')
        | (Inr _, sh') \<Rightarrow> sh_set e (new_fd os fd) (Map_H (mh_new (new_fd os fd) name attr)) sh'))"

text \<open>
  The attributes of the old handler are read after the slot of the new one is cleared: for
  \<open>oldfd == newfd\<close> they belong to a destroyed handler.
\<close>

definition dup_bpf_map ::
  "runtime_env \<Rightarrow> (nat \<Rightarrow> int) \<Rightarrow> int \<Rightarrow> int \<Rightarrow> bpftime_shm \<Rightarrow> int res \<times> bpftime_shm"
where
  "dup_bpf_map e os oldfd newfd sh = (case sh_slot oldfd sh of
       Some (Map_H m) \<Rightarrow>
         (case sh_vacate e (new_fd os newfd) sh of
            (Inl f, sh') \<Rightarrow> (Inl f, sh')
          | (Inr _, sh') \<Rightarrow>
              (if new_fd os newfd = oldfd then (Inl UB, sh')
               else sh_set e (new_fd os newfd) (Map_H (mh_new (new_fd os newfd) (''dup_'' @ mh_name m) (mh_attr m))) sh'))
     | _ \<Rightarrow> (Inl (Errno EBADF), sh))"

definition add_custom_perf_event ::
  "runtime_env \<Rightarrow> (nat \<Rightarrow> int) \<Rightarrow> int \<Rightarrow> string \<Rightarrow> bpftime_shm \<Rightarrow> int res \<times> bpftime_shm"
where
  "add_custom_perf_event e os typ attach_argument sh =
     (let fd = open_fake_fd os in
      if fd < 0 then (Inl MinusOne, sh)
      else (case sh_set e fd (Perf_H (ph_new_custom typ attach_argument)) sh of
          (Inl UB, sh') \<Rightarrow> (Inl UB, sh')
        | (_, sh') \<Rightarrow> (Inr fd, sh')))"

definition add_memfd_handler ::
  "runtime_env \<Rightarrow> (nat \<Rightarrow> int) \<Rightarrow> string \<Rightarrow> int \<Rightarrow> bpftime_shm \<Rightarrow> int res \<times> bpftime_shm"
where
  "add_memfd_handler e os name flags sh = sh_set e (open_fake_fd os) (Memfd_H name flags) sh"

subsection \<open>Executions\<close>

datatype map_op =
    M_Lookup ptr bool
  | M_Update ptr ptr nat bool
  | M_Delete ptr bool
  | M_Next_Key ptr outbuf bool
  | M_Push ptr nat bool
  | M_Pop outbuf bool
  | M_Peek ptr bool

datatype shm_op =
    Map_Op int map_op
  | Add_Kprobe "nat \<Rightarrow> int" "int option" string nat bool nat
  | Add_Uprobe "nat \<Rightarrow> int" int int string nat bool nat
  | Add_Uprobe_Override "nat \<Rightarrow> int" int int string nat bool
  | Add_Tracepoint "nat \<Rightarrow> int" int int int
  | Add_Software_Perf_Event int int int int
  | Attach_Perf_To_Bpf "nat \<Rightarrow> int" int int "nat option"
  | Perf_Event_Enable int
  | Perf_Event_Disable int
  | Raw_Buffer int nat
  | Perf_To_Epoll int int nat
  | Ringbuf_To_Epoll int int nat
  | Epoll_Create "nat \<Rightarrow> int"
  | Add_Bpf_Prog "nat \<Rightarrow> int" int "64 word list" string int
  | Add_Bpf_Link "nat \<Rightarrow> int" int "link_create_args option"
  | Close_Fd int
  | Add_Bpf_Map "nat \<Rightarrow> int" int string bpf_map_attr
  | Dup_Bpf_Map "nat \<Rightarrow> int" int int
  | Add_Custom_Perf_Event "nat \<Rightarrow> int" int string
  | Add_Memfd "nat \<Rightarrow> int" string int

definition no_value :: "'a res \<times> 's \<Rightarrow> unit res \<times> 's" where
  "no_value p = (case p of (r, s) \<Rightarrow> (and_then r (\<lambda>_. Inr ()), s))"

text \<open>The result of a map operation: a status, and the element or the bytes that it hands out.\<close>

definition returns :: "('a \<Rightarrow> elem option) \<Rightarrow> 'a res \<times> 's \<Rightarrow> elem option res \<times> 's" where
  "returns f p = (case p of (r, s) \<Rightarrow> (and_then r (\<lambda>x. Inr (f x)), s))"

primrec map_step :: "runtime_env \<Rightarrow> int \<Rightarrow> map_op \<Rightarrow> bpftime_shm \<Rightarrow> elem option res \<times> bpftime_shm" where
  "map_step e fd (M_Lookup key b) sh = returns Some (shm_map_lookup_elem e fd key b sh)"
| "map_step e fd (M_Update key v fl b) sh = returns (\<lambda>_. None) (shm_map_update_elem e fd key v fl b sh)"
| "map_step e fd (M_Delete key b) sh = returns (\<lambda>_. None) (shm_delete_elem e fd key b sh)"
| "map_step e fd (M_Next_Key key nk b) sh = returns (\<lambda>bs. Some (Elem bs)) (shm_map_get_next_key e fd key nk b sh)"
| "map_step e fd (M_Push v fl b) sh = returns (\<lambda>_. None) (shm_map_push_elem fd v fl b sh)"
| "map_step e fd (M_Pop out b) sh = returns (\<lambda>bs. Some (Elem bs)) (shm_map_pop_elem fd out b sh)"
| "map_step e fd (M_Peek v b) sh = returns (\<lambda>bs. Some (Elem bs)) (shm_map_peek_elem fd v b sh)"

primrec shm_step :: "runtime_env \<Rightarrow> shm_op \<Rightarrow> bpftime_shm \<Rightarrow> unit res \<times> bpftime_shm" where
  "shm_step e (Map_Op fd x) sh = no_value (map_step e fd x sh)"
| "shm_step e (Add_Kprobe os fd f a r c) sh = no_value (add_kprobe e os fd f a r c sh)"
| "shm_step e (Add_Uprobe os fd p n off r c) sh = no_value (add_uprobe e os fd p n off r c sh)"
| "shm_step e (Add_Uprobe_Override os fd p n off r) sh = no_value (add_uprobe_override e os fd p n off r sh)"
| "shm_step e (Add_Tracepoint os fd p t) sh = no_value (add_tracepoint e os fd p t sh)"
| "shm_step e (Add_Software_Perf_Event fd c t g) sh = no_value (add_software_perf_event e fd c t g sh)"
| "shm_step e (Attach_Perf_To_Bpf os p b c) sh = no_value (attach_perf_to_bpf e os p b c sh)"
| "shm_step e (Perf_Event_Enable fd) sh = shm_perf_event_enable fd sh"
| "shm_step e (Perf_Event_Disable fd) sh = shm_perf_event_disable fd sh"
| "shm_step e (Raw_Buffer fd n) sh = (Inr (), snd (get_software_perf_event_raw_buffer fd n sh))"
| "shm_step e (Perf_To_Epoll p fd d) sh = add_software_perf_event_to_epoll p fd d sh"
| "shm_step e (Ringbuf_To_Epoll m fd d) sh = add_ringbuf_to_epoll m fd d sh"
| "shm_step e (Epoll_Create os) sh = no_value (epoll_create e os sh)"
| "shm_step e (Add_Bpf_Prog os fd i n t) sh = no_value (add_bpf_prog e os fd i n t sh)"
| "shm_step e (Add_Bpf_Link os fd a) sh = no_value (add_bpf_link e os fd a sh)"
| "shm_step e (Close_Fd fd) sh = close_fd e fd sh"
| "shm_step e (Add_Bpf_Map os fd n a) sh = no_value (add_bpf_map e os fd n a sh)"
| "shm_step e (Dup_Bpf_Map os a b) sh = no_value (dup_bpf_map e os a b sh)"
| "shm_step e (Add_Custom_Perf_Event os t a) sh = no_value (add_custom_perf_event e os t a sh)"
| "shm_step e (Add_Memfd os n f) sh = no_value (add_memfd_handler e os n f sh)"

text \<open>An execution ends without a state at the first undefined operation.\<close>

fun shm_run :: "runtime_env \<Rightarrow> shm_op list \<Rightarrow> bpftime_shm \<Rightarrow> bpftime_shm option" where
  "shm_run e [] sh = Some sh"
| "shm_run e (x # xs) sh = (case shm_step e x sh of
       (r, sh') \<Rightarrow> (if r = Inl UB then None else shm_run e xs sh'))"

lemma no_value_snd [simp]: "snd (no_value p) = snd p"
  by (simp add: no_value_def split: prod.split)

lemma returns_snd [simp]: "snd (returns f p) = snd p"
  by (simp add: returns_def split: prod.split)

text \<open>A map operation changes the segment only, and there only the object of its map.\<close>

lemma sh_map_call_frame:
  assumes "\<And>m s. sg_frame (mh_map_impl_ptr m) s (snd (f m s))"
  shows "\<exists>s'. snd (sh_map_call f fd sh) = sh\<lparr>sh_segment := s'\<rparr> \<and>
    (case sh_slot fd sh of Some (Map_H m) \<Rightarrow> sg_frame (mh_map_impl_ptr m) (sh_segment sh) s' | _ \<Rightarrow> s' = sh_segment sh)"
proof (cases "\<exists>m. sh_slot fd sh = Some (Map_H m)")
  case True
  then obtain m where m: "sh_slot fd sh = Some (Map_H m)" by blast
  obtain r s where "f m (sh_segment sh) = (r, s)" by fastforce
  then show ?thesis using assms [of m "sh_segment sh"] m by (auto simp: sh_map_call_def)
next
  case False
  then have "snd (sh_map_call f fd sh) = sh\<lparr>sh_segment := sh_segment sh\<rparr>"
    by (auto simp: sh_map_call_def split: option.splits handler_variant.splits)
  then show ?thesis using False by (intro exI [of _ "sh_segment sh"]) (auto split: option.split handler_variant.split)
qed

lemma map_step_frame:
  "\<exists>s'. snd (map_step e fd x sh) = sh\<lparr>sh_segment := s'\<rparr> \<and>
    (case sh_slot fd sh of Some (Map_H m) \<Rightarrow> sg_frame (mh_map_impl_ptr m) (sh_segment sh) s' | _ \<Rightarrow> s' = sh_segment sh)"
  by (cases x)
    (simp_all only: map_step.simps returns_snd shm_map_lookup_elem_def shm_map_update_elem_def shm_delete_elem_def
      shm_map_get_next_key_def shm_map_push_elem_def shm_map_pop_elem_def shm_map_peek_elem_def
      sh_map_call_frame [OF dispatch_frame(1)] sh_map_call_frame [OF dispatch_frame(2)]
      sh_map_call_frame [OF dispatch_frame(3)] sh_map_call_frame [OF dispatch_frame(4)]
      sh_map_call_frame [OF dispatch_frame(5)] sh_map_call_frame [OF dispatch_frame(6)]
      sh_map_call_frame [OF dispatch_frame(7)])

lemma sh_slot_Some: "sh_slot fd sh = Some h \<longleftrightarrow>
    (\<exists>hs. sh_manager sh = Some hs \<and> 0 \<le> fd \<and> nat fd < length hs \<and> hs ! nat fd = h)"
  by (auto simp: sh_slot_def split: option.splits)

subsection \<open>Invariants of executions\<close>

text \<open>
  An invariant of the table and the segment, with the handlers that may be entered under it:
  any handler but a link or a map, a link of a program in the table, and the maps that
  \<open>adm\<close> admits.
\<close>

definition plain_handler :: "handler_variant \<Rightarrow> bool" where
  "plain_handler h = (case h of Map_H _ \<Rightarrow> False | Link_H _ \<Rightarrow> False | _ \<Rightarrow> True)"

locale shm_inv =
  fixes J :: "handler_variant list \<Rightarrow> segment \<Rightarrow> bool"
    and adm :: "handler_variant list \<Rightarrow> map_handler \<Rightarrow> bool"
  assumes clear_law: "J hs s \<Longrightarrow> clear_id_at e fd hs s = (r, hs', s') \<Longrightarrow> J hs' s'"
    and set_plain: "J hs s \<Longrightarrow> plain_handler h \<Longrightarrow> set_handler e fd h hs s = (q, hs', s') \<Longrightarrow> J hs' s'"
    and set_link: "J hs s \<Longrightarrow> hm_get_handler (lk_prog_id l) hs = Inr (Prog_H p) \<Longrightarrow>
      set_handler e fd (Link_H l) hs s = (q, hs', s') \<Longrightarrow> J hs' s'"
    and set_map: "J hs s \<Longrightarrow> adm hs m \<Longrightarrow> set_handler e fd (Map_H m) hs s = (q, hs', s') \<Longrightarrow> J hs' s'"
    and put_perf: "J hs s \<Longrightarrow> i < length hs \<Longrightarrow> hs ! i = Perf_H v \<Longrightarrow> J (hs[i := Perf_H v']) s"
    and put_epoll: "J hs s \<Longrightarrow> i < length hs \<Longrightarrow> hs ! i = Epoll_H fs \<Longrightarrow> J (hs[i := Epoll_H gs]) s"
    and call_law: "J hs s \<Longrightarrow> sg_frame a s s' \<Longrightarrow> J hs s'"
begin

definition holds :: "bpftime_shm \<Rightarrow> bool" where
  "holds sh = (case sh_manager sh of None \<Rightarrow> True | Some hs \<Rightarrow> J hs (sh_segment sh))"

text \<open>What an operation needs: the maps it enters are admitted.\<close>

definition admitted :: "runtime_env \<Rightarrow> shm_op \<Rightarrow> bpftime_shm \<Rightarrow> bool" where
  "admitted e x sh = (case x of
       Add_Bpf_Map os fd n a \<Rightarrow> (\<forall>sh' hs. sh_vacate e (new_fd os fd) sh = (Inr (), sh') \<longrightarrow> sh_manager sh' = Some hs \<longrightarrow>
         adm hs (mh_new (new_fd os fd) n a))
     | Dup_Bpf_Map os a b \<Rightarrow> (\<forall>sh' hs m. sh_slot a sh = Some (Map_H m) \<longrightarrow> sh_vacate e (new_fd os b) sh = (Inr (), sh') \<longrightarrow>
         sh_manager sh' = Some hs \<longrightarrow> adm hs (mh_new (new_fd os b) (''dup_'' @ mh_name m) (mh_attr m)))
     | _ \<Rightarrow> True)"

lemma set_keeps:
  assumes "holds sh" and "sh_set e fd h sh = (r, sh')" and "plain_handler h \<or>
    (\<exists>l p hs. h = Link_H l \<and> sh_manager sh = Some hs \<and> hm_get_handler (lk_prog_id l) hs = Inr (Prog_H p)) \<or>
    (\<exists>m. h = Map_H m \<and> (\<forall>hs. sh_manager sh = Some hs \<longrightarrow> adm hs m))"
  shows "holds sh'"
proof (cases "sh_manager sh")
  case None
  then show ?thesis using assms(1,2) by (simp add: sh_set_def)
next
  case (Some hs)
  obtain r' hs' s' where s: "set_handler e fd h hs (sh_segment sh) = (r', hs', s')" by (metis prod_cases3)
  have j: "J hs (sh_segment sh)" using assms(1) Some by (simp add: holds_def)
  from assms(3) have "J hs' s'"
  proof (elim disjE exE conjE)
    assume "plain_handler h"
    then show ?thesis by (rule set_plain [OF j _ s])
  next
    fix l p g
    assume "h = Link_H l" "sh_manager sh = Some g" "hm_get_handler (lk_prog_id l) g = Inr (Prog_H p)"
    then show ?thesis using set_link [OF j, of l p] s Some by simp
  next
    fix m
    assume "h = Map_H m" "\<forall>g. sh_manager sh = Some g \<longrightarrow> adm g m"
    then show ?thesis using set_map [OF j, of m] s Some by simp
  qed
  then show ?thesis using assms(2) Some s by (auto simp: sh_set_def holds_def)
qed

lemma clear_keeps: "holds sh \<Longrightarrow> sh_clear e fd sh = (r, sh') \<Longrightarrow> holds sh'"
  using clear_law by (auto simp: sh_clear_def holds_def split: option.splits prod.splits)

lemma vacate_keeps: "holds sh \<Longrightarrow> sh_vacate e fd sh = (r, sh') \<Longrightarrow> holds sh'"
  using clear_keeps by (auto simp: sh_vacate_def split: option.splits handler_variant.splits)

lemma put_keeps:
  "holds sh \<Longrightarrow> sh_slot fd sh = Some (Perf_H p) \<Longrightarrow> holds (sh_put fd (Perf_H q) sh)"
  "holds sh \<Longrightarrow> sh_slot fd sh = Some (Epoll_H fs) \<Longrightarrow> holds (sh_put fd (Epoll_H gs) sh)"
proof -
  assume h: "holds sh"
  show "holds (sh_put fd (Perf_H q) sh)" if f: "sh_slot fd sh = Some (Perf_H p)"
  proof -
    obtain hs where hs: "sh_manager sh = Some hs" "nat fd < length hs" "hs ! nat fd = Perf_H p"
      using f unfolding sh_slot_Some by blast
    then show ?thesis using h put_perf [of hs "sh_segment sh" "nat fd" p q] by (simp add: sh_put_def holds_def)
  qed
  show "holds (sh_put fd (Epoll_H gs) sh)" if f: "sh_slot fd sh = Some (Epoll_H fs)"
  proof -
    obtain hs where hs: "sh_manager sh = Some hs" "nat fd < length hs" "hs ! nat fd = Epoll_H fs"
      using f unfolding sh_slot_Some by blast
    then show ?thesis using h put_epoll [of hs "sh_segment sh" "nat fd" fs gs] by (simp add: sh_put_def holds_def)
  qed
qed

lemma map_step_keeps: "holds sh \<Longrightarrow> holds (snd (map_step e fd x sh))"
proof -
  assume h: "holds sh"
  obtain s' where s: "snd (map_step e fd x sh) = sh\<lparr>sh_segment := s'\<rparr>"
    "case sh_slot fd sh of Some (Map_H m) \<Rightarrow> sg_frame (mh_map_impl_ptr m) (sh_segment sh) s' | _ \<Rightarrow> s' = sh_segment sh"
    using map_step_frame by blast
  have "\<exists>p. sg_frame p (sh_segment sh) s'"
    using s(2) sg_frame_refl by (auto split: option.splits handler_variant.splits)
  then obtain p where "sg_frame p (sh_segment sh) s'" by blast
  then show ?thesis using h call_law [of _ "sh_segment sh" p s'] unfolding s(1) by (simp add: holds_def split: option.splits)
qed

lemma put_plain: "plain_handler h \<Longrightarrow> holds sh \<Longrightarrow> holds (snd (sh_set e fd h sh))"
  using set_keeps [of sh e fd h] by (cases "sh_set e fd h sh") simp

lemma put_link:
  assumes "holds sh" and "is_prog_fd (lk_prog_id l) sh"
  shows "holds (snd (sh_set e fd (Link_H l) sh))"
proof -
  obtain p where "sh_slot (lk_prog_id l) sh = Some (Prog_H p)"
    using assms(2) by (auto simp: is_prog_fd_def split: option.splits handler_variant.splits)
  then obtain hs where "sh_manager sh = Some hs" "hm_get_handler (lk_prog_id l) hs = Inr (Prog_H p)"
    unfolding sh_slot_Some hm_get_handler_iff by blast
  then show ?thesis using set_keeps [of sh e fd "Link_H l"] assms(1) by (cases "sh_set e fd (Link_H l) sh") auto
qed

lemma put_map:
  assumes "holds sh" and "\<forall>hs. sh_manager sh = Some hs \<longrightarrow> adm hs m"
  shows "holds (snd (sh_set e fd (Map_H m) sh))"
  using set_keeps [of sh e fd "Map_H m"] assms by (cases "sh_set e fd (Map_H m) sh") auto

lemma keep_result:
  "snd (case p of (Inl UB, x) \<Rightarrow> (Inl UB, x) | (_, x) \<Rightarrow> (q, x)) = snd p"
  by (auto split: prod.split sum.split fault.split)

lemma attach_keeps: "holds sh \<Longrightarrow> holds (snd (attach_perf_to_bpf e os p b c sh))"
  using put_link [of sh "lk_new_cookie b p c" e]
  by (simp add: attach_perf_to_bpf_def add_bpf_prog_attach_target_def Let_def keep_result lk_new_cookie_def)

lemma link_keeps: "holds sh \<Longrightarrow> holds (snd (add_bpf_link e os fd a sh))"
  using put_link [of sh "lk_new_args _" e] by (simp add: add_bpf_link_def lk_new_args_def split: option.split)

lemma epoll_keeps:
  "holds sh \<Longrightarrow> holds (snd (add_software_perf_event_to_epoll p fd d sh))"
  "holds sh \<Longrightarrow> holds (snd (add_ringbuf_to_epoll p fd d sh))"
  using put_keeps(2) [of sh fd]
  by (auto simp: add_software_perf_event_to_epoll_def add_ringbuf_to_epoll_def
      split: option.splits handler_variant.splits)

lemma perf_keeps:
  "holds sh \<Longrightarrow> holds (snd (shm_perf_event_enable fd sh))"
  "holds sh \<Longrightarrow> holds (snd (shm_perf_event_disable fd sh))"
  "holds sh \<Longrightarrow> holds (snd (get_software_perf_event_raw_buffer fd n sh))"
  using put_keeps(1) [of sh fd]
  by (auto simp: shm_perf_event_enable_def shm_perf_event_disable_def get_software_perf_event_raw_buffer_def
      split: option.splits handler_variant.splits prod.splits)

lemma add_map_keeps:
  assumes "holds sh" and "admitted e (Add_Bpf_Map os fd n a) sh"
  shows "holds (snd (add_bpf_map e os fd n a sh))"
proof -
  obtain r sh1 where v: "sh_vacate e (new_fd os fd) sh = (r, sh1)" by fastforce
  then have h: "holds sh1" using vacate_keeps assms(1) by blast
  show ?thesis
  proof (cases r)
    case (Inl f)
    then show ?thesis using h assms(1) v by (simp add: add_bpf_map_def)
  next
    case (Inr u)
    then have "\<forall>hs. sh_manager sh1 = Some hs \<longrightarrow> adm hs (mh_new (new_fd os fd) n a)"
      using assms(2) v by (simp add: admitted_def)
    then show ?thesis using put_map [OF h] assms(1) v Inr by (simp add: add_bpf_map_def)
  qed
qed

lemma dup_map_keeps:
  assumes "holds sh" and "admitted e (Dup_Bpf_Map os a b) sh"
  shows "holds (snd (dup_bpf_map e os a b sh))"
proof (cases "\<exists>m. sh_slot a sh = Some (Map_H m)")
  case True
  then obtain m where m: "sh_slot a sh = Some (Map_H m)" by blast
  obtain r sh1 where v: "sh_vacate e (new_fd os b) sh = (r, sh1)" by fastforce
  then have h: "holds sh1" using vacate_keeps assms(1) by blast
  show ?thesis
  proof (cases r)
    case (Inl f)
    then show ?thesis using h m v by (simp add: dup_bpf_map_def)
  next
    case (Inr u)
    then have "\<forall>hs. sh_manager sh1 = Some hs \<longrightarrow> adm hs (mh_new (new_fd os b) (''dup_'' @ mh_name m) (mh_attr m))"
      using assms(2) v m by (simp add: admitted_def)
    then show ?thesis using put_map [OF h] h m v Inr by (simp add: dup_bpf_map_def)
  qed
next
  case False
  then show ?thesis using assms(1) by (auto simp: dup_bpf_map_def split: option.splits handler_variant.splits)
qed

lemma step_keeps:
  assumes "holds sh" and "admitted e x sh"
  shows "holds (snd (shm_step e x sh))"
proof (cases x)
  case (Close_Fd fd)
  then show ?thesis using clear_keeps [OF assms(1)] by (cases "sh_clear e fd sh") (simp add: close_fd_def)
qed (use assms in \<open>simp_all add: map_step_keeps add_map_keeps dup_map_keeps attach_keeps link_keeps epoll_keeps
      perf_keeps put_plain plain_handler_def keep_result Let_def add_kprobe_def add_uprobe_def add_uprobe_override_def
      add_tracepoint_def add_software_perf_event_def epoll_create_def add_bpf_prog_def add_custom_perf_event_def
      add_memfd_handler_def\<close>)

primrec admitted_run :: "runtime_env \<Rightarrow> shm_op list \<Rightarrow> bpftime_shm \<Rightarrow> bool" where
  "admitted_run e [] sh = True"
| "admitted_run e (x # xs) sh = (admitted e x sh \<and> admitted_run e xs (snd (shm_step e x sh)))"

lemma run_keeps: "holds sh \<Longrightarrow> admitted_run e xs sh \<Longrightarrow> shm_run e xs sh = Some sh' \<Longrightarrow> holds sh'"
proof (induction xs arbitrary: sh)
  case Nil
  then show ?case by simp
next
  case (Cons x xs)
  have "shm_run e xs (snd (shm_step e x sh)) = Some sh'"
    using Cons.prems(3) by (auto split: prod.splits if_splits)
  then show ?case using Cons.IH step_keeps Cons.prems(1,2) by auto
qed

end

subsection \<open>The invariants of the table on executions\<close>

definition fits :: "handler_variant list \<Rightarrow> map_handler \<Rightarrow> bool" where
  "fits hs m \<longleftrightarrow> built_in m \<and> mh_type m \<noteq> BPF_MAP_TYPE_ARRAY_OF_MAPS \<and> mh_map_impl_ptr m = None \<and>
     (\<forall>i m'. hm_map hs i m' \<longrightarrow> mh_name m' \<noteq> mh_name m)"

lemma set_handler_entered:
  assumes "set_handler e fd h hs s = (q, hs', s')" and "\<And>m. h \<noteq> Map_H m"
  shows "s' = s \<and> (hs' = hs \<or> 0 \<le> fd \<and> nat fd < length hs \<and> hs ! nat fd = Unused \<and> hs' = hs[nat fd := h])"
  using assms by (cases h) (auto simp: set_handler_def is_allocated_def split: if_splits)

lemma set_handler_map:
  assumes "set_handler e fd (Map_H m) hs s = (q, hs', s')"
  shows "hs' = hs \<and> s' = s \<or> nat fd < length hs \<and> hs ! nat fd = Unused \<and>
    (\<exists>m' r. map_init e m s = (r, m', s') \<and> hs' = hs[nat fd := Map_H m'])"
proof -
  obtain r m' t where "map_init e m s = (r, m', t)" by (metis prod_cases3)
  then show ?thesis using assms by (auto simp: set_handler_def is_allocated_def split: if_splits)
qed

lemma hm_ok_set_other:
  assumes "hm_ok hs s" and "set_handler e fd h hs s = (q, hs', s')" and "\<And>m. h \<noteq> Map_H m"
  shows "hm_ok hs' s'"
proof -
  have "hm_map hs' i m \<longleftrightarrow> hm_map hs i m" for i m
    using set_handler_entered [OF assms(2,3)] assms(3) [of m] by (cases "i = nat fd") (auto simp: hm_map_def)
  then show ?thesis using assms(1) hm_ok_cong set_handler_entered [OF assms(2,3)] by blast
qed

lemma hm_ok_put:
  assumes "hm_ok hs s" and "\<And>m. hs ! i \<noteq> Map_H m" and "\<And>m. h \<noteq> Map_H m"
  shows "hm_ok (hs[i := h]) s"
proof -
  have "hm_map (hs[i := h]) j m \<longleftrightarrow> hm_map hs j m" for j m
    using assms(2) [of m] assms(3) [of m] by (cases "j = i") (auto simp: hm_map_def)
  then show ?thesis using assms(1) hm_ok_cong by blast
qed

lemma hm_ok_set_map:
  assumes "hm_ok hs s" and "fits hs m" and "set_handler e fd (Map_H m) hs s = (q, hs', s')"
  shows "hm_ok hs' s'"
  using set_handler_map [OF assms(3)]
proof (elim disjE conjE exE)
  assume "hs' = hs" "s' = s"
  then show ?thesis using assms(1) by simp
next
  fix m' r
  assume free: "nat fd < length hs" "hs ! nat fd = Unused" and init: "map_init e m s = (r, m', s')"
    and hs': "hs' = hs[nat fd := Map_H m']"
  have "hm_map hs' i n \<longleftrightarrow> (i = nat fd \<and> n = m') \<or> hm_map hs i n" for i n
    using free by (auto simp: hm_map_def nth_list_update hs')
  then show ?thesis using hm_ok_add [OF assms(1) _ _ _ _ init, of hs' "nat fd"] assms(2) by (simp add: fits_def)
qed

interpretation lks: shm_inv "\<lambda>hs s. links_ok hs" "\<lambda>hs m. True"
proof
  fix hs hs' :: "handler_variant list" and s s' :: segment and e fd q h l p m i and v v' :: perf_event_handler
    and fs gs :: "epoll_file list" and r :: "unit res"
  assume ok: "links_ok hs"
  show "clear_id_at e fd hs s = (r, hs', s') \<Longrightarrow> links_ok hs'" using links_ok_clear [OF ok] .
  show "plain_handler h \<Longrightarrow> set_handler e fd h hs s = (q, hs', s') \<Longrightarrow> links_ok hs'"
    using links_ok_set [OF ok, of e fd h s q hs' s'] by (cases h) (simp_all add: plain_handler_def)
  show "hm_get_handler (lk_prog_id l) hs = Inr (Prog_H p) \<Longrightarrow> set_handler e fd (Link_H l) hs s = (q, hs', s') \<Longrightarrow> links_ok hs'"
    using links_ok_set [OF ok, of e fd "Link_H l" s q hs' s'] by simp
  show "set_handler e fd (Map_H m) hs s = (q, hs', s') \<Longrightarrow> links_ok hs'"
    using links_ok_set [OF ok, of e fd "Map_H m" s q hs' s'] by simp
  show "hs ! i = Perf_H v \<Longrightarrow> links_ok (hs[i := Perf_H v'])" using links_ok_reset [OF ok] by simp
  show "hs ! i = Epoll_H fs \<Longrightarrow> links_ok (hs[i := Epoll_H gs])" using links_ok_reset [OF ok] by simp
  show "links_ok hs" by (rule ok)
qed

interpretation mpi: shm_inv hm_ok fits
proof
  fix hs hs' :: "handler_variant list" and s s' :: segment and e fd q h l p m i a and v v' :: perf_event_handler
    and fs gs :: "epoll_file list" and r :: "unit res"
  assume ok: "hm_ok hs s"
  show "clear_id_at e fd hs s = (r, hs', s') \<Longrightarrow> hm_ok hs' s'" using hm_ok_clear [OF ok] by blast
  show "plain_handler h \<Longrightarrow> set_handler e fd h hs s = (q, hs', s') \<Longrightarrow> hm_ok hs' s'"
    using hm_ok_set_other [OF ok, of e fd h q hs' s'] by (cases h) (simp_all add: plain_handler_def)
  show "set_handler e fd (Link_H l) hs s = (q, hs', s') \<Longrightarrow> hm_ok hs' s'" using hm_ok_set_other [OF ok] by blast
  show "fits hs m \<Longrightarrow> set_handler e fd (Map_H m) hs s = (q, hs', s') \<Longrightarrow> hm_ok hs' s'" using hm_ok_set_map [OF ok] .
  show "hs ! i = Perf_H v \<Longrightarrow> hm_ok (hs[i := Perf_H v']) s" using hm_ok_put [OF ok] by simp
  show "hs ! i = Epoll_H fs \<Longrightarrow> hm_ok (hs[i := Epoll_H gs]) s" using hm_ok_put [OF ok] by simp
  show "sg_frame a s s' \<Longrightarrow> hm_ok hs s'" using hm_ok_frame [OF ok] .
qed

text \<open>
  The discipline under which maps do not disturb each other: a map is entered with a built-in
  type other than array of maps, under a name that no map in another slot has.
\<close>

definition fresh_map :: "int \<Rightarrow> string \<Rightarrow> bpf_map_attr \<Rightarrow> bpftime_shm \<Rightarrow> bool" where
  "fresh_map fd name attr sh \<longleftrightarrow>
     (case map_type_of (at_type attr) of BPF_MAP_TYPE_OTHER _ \<Rightarrow> False | BPF_MAP_TYPE_ARRAY_OF_MAPS \<Rightarrow> False | _ \<Rightarrow> True) \<and>
     (case sh_manager sh of
        None \<Rightarrow> True
      | Some hs \<Rightarrow> (\<forall>i < length hs. case hs ! i of Map_H m \<Rightarrow> int i = fd \<or> mh_name m \<noteq> name | _ \<Rightarrow> True))"

definition disciplined :: "shm_op \<Rightarrow> bpftime_shm \<Rightarrow> bool" where
  "disciplined x sh = (case x of
       Add_Bpf_Map os fd name attr \<Rightarrow> fresh_map (new_fd os fd) name attr sh
     | Dup_Bpf_Map os oldfd newfd \<Rightarrow>
         (case sh_slot oldfd sh of Some (Map_H m) \<Rightarrow> fresh_map (new_fd os newfd) (''dup_'' @ mh_name m) (mh_attr m) sh | _ \<Rightarrow> True)
     | _ \<Rightarrow> True)"

primrec disciplined_run :: "runtime_env \<Rightarrow> shm_op list \<Rightarrow> bpftime_shm \<Rightarrow> bool" where
  "disciplined_run e [] sh = True"
| "disciplined_run e (x # xs) sh = (disciplined x sh \<and> disciplined_run e xs (snd (shm_step e x sh)))"

lemma vacate_maps:
  assumes "sh_vacate e fd sh = (Inr (), sh')" and "sh_manager sh' = Some hs'" and "hm_map hs' i m"
  shows "int i \<noteq> fd \<and> (\<exists>hs. sh_manager sh = Some hs \<and> hm_map hs i m)"
proof -
  obtain h where h: "sh_slot fd sh = Some h" using assms(1) by (auto simp: sh_vacate_def split: option.splits)
  then obtain hs where hs: "sh_manager sh = Some hs" "hs ! nat fd = h" "0 \<le> fd" "nat fd < length hs"
    unfolding sh_slot_Some by blast
  show ?thesis
  proof (cases "h = Unused")
    case True
    then have "sh' = sh" using assms(1) h by (simp add: sh_vacate_def)
    then show ?thesis using assms(2,3) hs True by (auto simp: hm_map_def)
  next
    case False
    then have "sh_clear e fd sh = (Inr (), sh')" using assms(1) h by (cases h) (simp_all add: sh_vacate_def)
    then obtain s' where c: "clear_id_at e fd hs (sh_segment sh) = (Inr (), hs', s')"
      using hs(1) assms(2) by (auto simp: sh_clear_def split: prod.splits)
    then show ?thesis
      using clear_id_at_done [OF c, of i] length_clear_id_at [OF c] assms(3) hs(1) by (auto simp: hm_map_def)
  qed
qed

lemma fresh_map_fits:
  assumes "fresh_map fd name attr sh" and "sh_vacate e fd sh = (Inr (), sh')" and "sh_manager sh' = Some hs'"
  shows "fits hs' (mh_new fd name attr)"
proof -
  have "mh_name m \<noteq> name" if map: "hm_map hs' i m" for i m
  proof -
    obtain hs where "int i \<noteq> fd" "sh_manager sh = Some hs" "i < length hs" "hs ! i = Map_H m"
      using vacate_maps [OF assms(2,3) map] unfolding hm_map_def by blast
    then show ?thesis using assms(1) by (auto simp: fresh_map_def)
  qed
  moreover have "\<forall>t. map_type_of (at_type attr) \<noteq> BPF_MAP_TYPE_OTHER t"
    "map_type_of (at_type attr) \<noteq> BPF_MAP_TYPE_ARRAY_OF_MAPS"
    using assms(1) by (auto simp: fresh_map_def)
  ultimately show ?thesis by (auto simp: fits_def mh_new_def built_in_def)
qed

lemma disciplined_admitted: "disciplined x sh \<Longrightarrow> mpi.admitted e x sh"
  using fresh_map_fits [of _ _ _ sh e] by (cases x) (auto simp: disciplined_def mpi.admitted_def)

lemma disciplined_run_admitted: "disciplined_run e xs sh \<Longrightarrow> mpi.admitted_run e xs sh"
  by (induction xs arbitrary: sh) (auto simp: disciplined_admitted)

lemma links_admitted_run: "lks.admitted_run e xs sh"
proof -
  have "lks.admitted e x sh" for x sh by (cases x) (auto simp: lks.admitted_def)
  then show ?thesis by (induction xs arbitrary: sh) auto
qed

lemma disciplined_ok:
  assumes "disciplined_run e xs (shm_new n)" and "shm_run e xs (shm_new n) = Some sh" and "sh_manager sh = Some hs"
  shows "hm_ok hs (sh_segment sh)"
proof -
  have "hm_ok (hm_new n) (empty_segment 0)" by (rule hm_okI) (auto simp: hm_map_def hm_new_def)
  then have "mpi.holds (shm_new n)" by (simp add: mpi.holds_def shm_new_def)
  from mpi.run_keeps [OF this disciplined_run_admitted [OF assms(1)] assms(2)]
  show ?thesis using assms(3) by (simp add: mpi.holds_def)
qed

text \<open>A map operation keeps every handler, and the object of every map in another slot.\<close>

lemma map_step_slots: "sh_slot fd (snd (map_step e a x sh)) = sh_slot fd sh"
proof -
  obtain s' where "snd (map_step e a x sh) = sh\<lparr>sh_segment := s'\<rparr>" using map_step_frame by blast
  then show ?thesis by (simp add: sh_slot_def)
qed

lemma map_step_other_object:
  assumes ok: "hm_ok hs (sh_segment sh)" and hs: "sh_manager sh = Some hs"
    and b: "sh_slot b sh = Some (Map_H m)" and ab: "a \<noteq> b"
  shows "same_object m (sh_segment sh) (sh_segment (snd (map_step e a x sh)))"
  unfolding same_object_def
proof (intro allI impI)
  fix p
  assume p: "mh_map_impl_ptr m = Some p"
  have bm: "hm_map hs (nat b) m" "0 \<le> b" using b hs by (auto simp: sh_slot_Some hm_map_def)
  obtain s' where s': "snd (map_step e a x sh) = sh\<lparr>sh_segment := s'\<rparr>"
    "case sh_slot a sh of Some (Map_H m) \<Rightarrow> sg_frame (mh_map_impl_ptr m) (sh_segment sh) s' | _ \<Rightarrow> s' = sh_segment sh"
    using map_step_frame by blast
  have "sg_objs s' p = sg_objs (sh_segment sh) p"
  proof (cases "\<exists>n. sh_slot a sh = Some (Map_H n)")
    case True
    then obtain n where n: "sh_slot a sh = Some (Map_H n)" by blast
    then have an: "hm_map hs (nat a) n" "0 \<le> a" using hs by (auto simp: sh_slot_Some hm_map_def)
    have "mh_map_impl_ptr n \<noteq> Some p"
    proof
      assume "mh_map_impl_ptr n = Some p"
      then have "get_container_name n = get_container_name m"
        using hm_okD(2) [OF ok an(1)] hm_okD(2) [OF ok bm(1) p] hm_okD(6) [OF ok] by blast
      then have "nat a = nat b" using hm_okD(3) [OF ok an(1) bm(1)] by (simp add: get_container_name_inj)
      then show False using ab an(2) bm(2) by simp
    qed
    then show ?thesis using s'(2) n by (simp add: sg_frame_def)
  next
    case False
    then show ?thesis using s'(2) by (auto split: option.splits handler_variant.splits)
  qed
  then show "sg_objs (sh_segment (snd (map_step e a x sh))) p = sg_objs (sh_segment sh) p" by (simp add: s'(1))
qed

lemma sh_map_call_local:
  assumes "sh_slot fd sh' = sh_slot fd sh"
    and "\<And>m. sh_slot fd sh = Some (Map_H m) \<Longrightarrow> fst (f m (sh_segment sh')) = fst (f m (sh_segment sh))"
  shows "fst (sh_map_call f fd sh') = fst (sh_map_call f fd sh)"
  using assms by (auto simp: sh_map_call_def split: option.split handler_variant.split prod.split)

lemma fst_returns: "fst (returns f p) = and_then (fst p) (\<lambda>x. Inr (f x))"
  by (simp add: returns_def split: prod.split)

subsection \<open>Properties\<close>

text \<open>
  no link outlives its program. Whatever operations are run on a new shared memory, as
  long as none of them is undefined, the program of every link in the table is a program
  of the table: closing a program has closed its links, and no link is made without one.
\<close>

theorem links_have_programs:
  assumes "shm_run e xs (shm_new n) = Some sh" and "sh_slot fd sh = Some (Link_H l)"
  shows "is_prog_fd (lk_prog_id l) sh"
proof -
  have "links_ok (hm_new n)" by (simp add: hm_new_def links_ok_def)
  then have "lks.holds (shm_new n)" by (simp add: lks.holds_def shm_new_def)
  from lks.run_keeps [OF this links_admitted_run assms(1)] have "lks.holds sh" .
  obtain hs where hs: "sh_manager sh = Some hs" "nat fd < length hs" "hs ! nat fd = Link_H l"
    using assms(2) unfolding sh_slot_Some by blast
  with \<open>lks.holds sh\<close> have "links_ok hs" by (simp add: lks.holds_def)
  then obtain p where "hm_get_handler (lk_prog_id l) hs = Inr (Prog_H p)" using hs unfolding links_ok_def by blast
  then have "sh_slot (lk_prog_id l) sh = Some (Prog_H p)" using hs(1) unfolding sh_slot_Some hm_get_handler_iff by blast
  then show ?thesis by (simp add: is_prog_fd_def)
qed

definition sample_args :: link_create_args where
  "sample_args = \<lparr>la_prog_fd = 0, la_target_fd = 7, la_attach_type = 0, la_flags = 0\<rparr>"

definition sample_shm :: "handler_variant list \<Rightarrow> bpftime_shm" where
  "sample_shm hs = (shm_new 2)\<lparr>sh_manager := Some hs\<rparr>"

theorem links_have_programs_witness:
  "shm_run sample_env [Add_Bpf_Prog (\<lambda>_. 5) 0 [] ''p'' 0, Add_Bpf_Link (\<lambda>_. 5) 1 (Some sample_args)] (shm_new 2) =
     Some (sample_shm [Prog_H (pr_new [] ''p'' 0), Link_H (lk_new_args sample_args)]) \<and>
   is_prog_fd (lk_prog_id (lk_new_args sample_args)) (sample_shm [Prog_H (pr_new [] ''p'' 0), Link_H (lk_new_args sample_args)])"
  (is "?run = Some ?sh \<and> _")
proof
  show run: "?run = Some ?sh"
    by (simp add: shm_new_def hm_new_def sample_shm_def add_bpf_prog_def add_bpf_link_def sh_set_def new_fd_def
        set_handler_def is_allocated_def no_value_def is_prog_fd_def sh_slot_def sample_args_def to_s32_def s32_def to_u32_def numeral_2_eq_2
        split: prod.split)
  have "sh_slot 1 ?sh = Some (Link_H (lk_new_args sample_args))" by (simp add: sh_slot_def sample_shm_def)
  from links_have_programs [OF run this] show "is_prog_fd (lk_prog_id (lk_new_args sample_args)) ?sh" .
qed


text \<open>Two array maps in the first two slots.\<close>

definition array_attr :: bpf_map_attr where
  "array_attr = sample_attr 2"

definition array_handler :: "string \<Rightarrow> nat option \<Rightarrow> map_handler" where
  "array_handler n p = (mh_new 0 n array_attr)\<lparr>mh_map_impl_ptr := p\<rparr>"

lemma array_handler_simps [simp]:
  "map_type_of (at_type array_attr) = BPF_MAP_TYPE_ARRAY"
  "mh_type (array_handler n p) = BPF_MAP_TYPE_ARRAY" "mh_name (array_handler n p) = n"
  "mh_map_impl_ptr (array_handler n p) = p" "built_in (array_handler n p)"
  "(array_handler n p)\<lparr>mh_map_impl_ptr := q\<rparr> = array_handler n q"
  "impl_new e (array_handler n p) = Inr (Array_Impl (arr_new 1 2))" "mh_new fd n array_attr = array_handler n None"
  by (simp_all add: array_attr_def array_handler_def mh_new_def map_type_of_def built_in_def impl_new_def)

definition two_maps :: bpftime_shm where
  "two_maps = (shm_new 2)\<lparr>sh_manager := Some [Map_H (array_handler ''m'' (Some 0)), Map_H (array_handler ''k'' (Some 1))],
     sh_segment := \<lparr>sg_names = [''ebpf_map_fd_m'' \<mapsto> 0, ''ebpf_map_fd_k'' \<mapsto> 1],
       sg_objs = [0 \<mapsto> Array_Impl (arr_new 1 2), 1 \<mapsto> Array_Impl (arr_new 1 2)], sg_next = 2\<rparr>\<rparr>"

definition one_map :: bpftime_shm where
  "one_map = (shm_new 2)\<lparr>sh_manager := Some [Map_H (array_handler ''m'' (Some 0)), Unused],
     sh_segment := \<lparr>sg_names = [''ebpf_map_fd_m'' \<mapsto> 0], sg_objs = [0 \<mapsto> Array_Impl (arr_new 1 2)], sg_next = 1\<rparr>\<rparr>"

lemma hm_new_two: "hm_new 2 = [Unused, Unused]"
  by (simp add: hm_new_def numeral_2_eq_2)

lemma add_array_map:
  "shm_step e (Add_Bpf_Map os 0 ''m'' array_attr) (shm_new 2) = (Inr (), one_map)"
  "shm_step e (Add_Bpf_Map os 1 ''k'' array_attr) one_map = (Inr (), two_maps)"
  by (simp_all add: shm_new_def hm_new_two one_map_def two_maps_def add_bpf_map_def new_fd_def sh_vacate_def sh_slot_def
      sh_set_def set_handler_def is_allocated_def map_init_built_in sg_construct_def get_container_name_def no_value_def)


end
