(* ===== verification/Bpftime_Api.thy ===== *)
theory Bpftime_Api
  imports Bpftime_Shm
begin

text \<open>
  The functions of \<open>bpftime_shm.cpp\<close> on the global shared memory: the calls that turn an
  exception into -1, the ring buffer and perf event calls, \<open>bpftime_epoll_wait\<close>, and the map
  pointers of programs. The functions that only pass their arguments on are the operations
  of \<open>Bpftime_Shm\<close> themselves.
\<close>

unbundle bit_operations_syntax

subsection \<open>Map calls\<close>

text \<open>\<open>catch (std::exception &ex)\<close>: the result is -1 or a null pointer.\<close>

definition caught :: "'a res \<times> 's \<Rightarrow> 'a res \<times> 's" where
  "caught p = (case p of (Inl Throw, s) \<Rightarrow> (Inl MinusOne, s) | (r, s) \<Rightarrow> (r, s))"

definition bpftime_helper_map_get_next_key ::
  "runtime_env \<Rightarrow> int \<Rightarrow> ptr \<Rightarrow> outbuf \<Rightarrow> bpftime_shm \<Rightarrow> bytes res \<times> bpftime_shm"
where
  "bpftime_helper_map_get_next_key e fd key next_key sh = caught (shm_map_get_next_key e fd key next_key False sh)"

definition bpftime_map_lookup_elem :: "runtime_env \<Rightarrow> int \<Rightarrow> ptr \<Rightarrow> bpftime_shm \<Rightarrow> elem res \<times> bpftime_shm" where
  "bpftime_map_lookup_elem e fd key sh = caught (shm_map_lookup_elem e fd key True sh)"

definition bpftime_map_update_elem ::
  "runtime_env \<Rightarrow> int \<Rightarrow> ptr \<Rightarrow> ptr \<Rightarrow> nat \<Rightarrow> bpftime_shm \<Rightarrow> unit res \<times> bpftime_shm"
where
  "bpftime_map_update_elem e fd key value flags sh = caught (shm_map_update_elem e fd key value flags True sh)"

definition bpftime_map_delete_elem :: "runtime_env \<Rightarrow> int \<Rightarrow> ptr \<Rightarrow> bpftime_shm \<Rightarrow> unit res \<times> bpftime_shm" where
  "bpftime_map_delete_elem e fd key sh = caught (shm_delete_elem e fd key True sh)"

definition bpftime_map_lookup_and_delete_elem :: "int \<Rightarrow> outbuf \<Rightarrow> bpftime_shm \<Rightarrow> bytes res \<times> bpftime_shm" where
  "bpftime_map_lookup_and_delete_elem fd value sh = caught (shm_map_pop_elem fd value True sh)"

definition bpftime_map_push_elem :: "int \<Rightarrow> ptr \<Rightarrow> nat \<Rightarrow> bpftime_shm \<Rightarrow> unit res \<times> bpftime_shm" where
  "bpftime_map_push_elem fd value flags sh = caught (shm_map_push_elem fd value flags True sh)"

definition bpftime_map_pop_elem :: "int \<Rightarrow> outbuf \<Rightarrow> bpftime_shm \<Rightarrow> bytes res \<times> bpftime_shm" where
  "bpftime_map_pop_elem fd value sh = caught (shm_map_pop_elem fd value True sh)"

definition bpftime_map_peek_elem :: "int \<Rightarrow> ptr \<Rightarrow> bpftime_shm \<Rightarrow> bytes res \<times> bpftime_shm" where
  "bpftime_map_peek_elem fd value sh = caught (shm_map_peek_elem fd value True sh)"

definition bpftime_map_get_next_key ::
  "runtime_env \<Rightarrow> int \<Rightarrow> ptr \<Rightarrow> outbuf \<Rightarrow> bpftime_shm \<Rightarrow> bytes res \<times> bpftime_shm"
where
  "bpftime_map_get_next_key e fd key next_key sh = caught (shm_map_get_next_key e fd key next_key True sh)"

definition bpftime_kprobe_create ::
  "runtime_env \<Rightarrow> (nat \<Rightarrow> int) \<Rightarrow> int \<Rightarrow> string \<Rightarrow> nat \<Rightarrow> bool \<Rightarrow> nat \<Rightarrow> bpftime_shm \<Rightarrow> int res \<times> bpftime_shm"
where
  "bpftime_kprobe_create e os fd func_name addr retprobe ref_ctr_off sh =
     add_kprobe e os (if fd = -1 then None else Some fd) func_name addr retprobe ref_ctr_off sh"

definition bpftime_add_software_perf_event ::
  "runtime_env \<Rightarrow> (nat \<Rightarrow> int) \<Rightarrow> int \<Rightarrow> int \<Rightarrow> int \<Rightarrow> bpftime_shm \<Rightarrow> int res \<times> bpftime_shm"
where
  "bpftime_add_software_perf_event e os cpu sample_type config sh =
     add_software_perf_event e (open_fake_fd os) cpu sample_type config sh"

text \<open>The object of an array map; a null pointer and a destroyed object are undefined.\<close>

definition bpftime_get_array_map_raw_data :: "int \<Rightarrow> bpftime_shm \<Rightarrow> bytes res" where
  "bpftime_get_array_map_raw_data fd sh = (case sh_try_get_array_map_impl fd sh of
       None \<Rightarrow> Inl (Errno EINVAL)
     | Some None \<Rightarrow> Inl UB
     | Some (Some p) \<Rightarrow> (case sg_objs (sh_segment sh) p of
           Some (Array_Impl m) \<Rightarrow> Inr (arr_get_raw_data m)
         | _ \<Rightarrow> Inl UB))"

subsection \<open>Ring buffers\<close>

text \<open>A call on the object of a ring buffer map.\<close>

definition on_ringbuf ::
  "(ringbuf \<Rightarrow> 'a res \<times> ringbuf) \<Rightarrow> int \<Rightarrow> bpftime_shm \<Rightarrow> 'a res \<times> bpftime_shm"
where
  "on_ringbuf f fd sh = (case sh_try_get_ringbuf_map_impl fd sh of
       None \<Rightarrow> (Inl (Errno EINVAL), sh)
     | Some None \<Rightarrow> (Inl UB, sh)
     | Some (Some p) \<Rightarrow> (case sg_objs (sh_segment sh) p of
           Some (Ringbuf_Impl m) \<Rightarrow> (case f m of (r, m') \<Rightarrow>
             (r, sh\<lparr>sh_segment := (sh_segment sh)\<lparr>sg_objs := (sg_objs (sh_segment sh))(p \<mapsto> Ringbuf_Impl m')\<rparr>\<rparr>))
         | _ \<Rightarrow> (Inl UB, sh)))"

text \<open>The pages hold the two positions.\<close>

definition bpftime_get_ringbuf_consumer_page :: "int \<Rightarrow> bpftime_shm \<Rightarrow> nat res" where
  "bpftime_get_ringbuf_consumer_page ringbuf_fd sh = fst (on_ringbuf (\<lambda>m. (Inr (rb_consumer_pos m), m)) ringbuf_fd sh)"

definition bpftime_get_ringbuf_producer_page :: "int \<Rightarrow> bpftime_shm \<Rightarrow> nat res" where
  "bpftime_get_ringbuf_producer_page ringbuf_fd sh = fst (on_ringbuf (\<lambda>m. (Inr (rb_producer_pos m), m)) ringbuf_fd sh)"

definition bpftime_ringbuf_reserve :: "int \<Rightarrow> nat \<Rightarrow> bpftime_shm \<Rightarrow> nat res \<times> bpftime_shm" where
  "bpftime_ringbuf_reserve fd sz = on_ringbuf (rb_reserve sz fd) fd"

definition bpftime_ringbuf_submit :: "int \<Rightarrow> nat \<Rightarrow> bool \<Rightarrow> bpftime_shm \<Rightarrow> unit res \<times> bpftime_shm" where
  "bpftime_ringbuf_submit fd data discard = on_ringbuf (rb_submit data discard) fd"

text \<open>A descriptor of another kind gives \<open>-EINVAL\<close>. \<open>None\<close> is a call that does not return.\<close>

definition bpftime_poll_from_ringbuf ::
  "int \<Rightarrow> 'c \<Rightarrow> ('c \<Rightarrow> bytes \<Rightarrow> 'c \<times> int) \<Rightarrow> bpftime_shm \<Rightarrow> ((int \<times> 'c) res \<times> bpftime_shm) option"
where
  "bpftime_poll_from_ringbuf rb_fd ctx cb sh = (case sh_try_get_ringbuf_map_impl rb_fd sh of
       None \<Rightarrow> Some (Inl (NegErrno EINVAL), sh)
     | Some None \<Rightarrow> Some (Inl UB, sh)
     | Some (Some p) \<Rightarrow> (case sg_objs (sh_segment sh) p of
           Some (Ringbuf_Impl m) \<Rightarrow> map_option (\<lambda>(r, m').
             (r, sh\<lparr>sh_segment := (sh_segment sh)\<lparr>sg_objs := (sg_objs (sh_segment sh))(p \<mapsto> Ringbuf_Impl m')\<rparr>\<rparr>))
             (rb_fetch_data cb ctx m)
         | _ \<Rightarrow> Some (Inl UB, sh)))"

subsection \<open>Perf events\<close>

definition bpftime_perf_event_output :: "int \<Rightarrow> ptr \<Rightarrow> nat \<Rightarrow> bpftime_shm \<Rightarrow> unit res \<times> bpftime_shm" where
  "bpftime_perf_event_output fd buf sz sh = (case sh_slot fd sh of
       Some (Perf_H h) \<Rightarrow> (case ph_data h of
           Software_Data d \<Rightarrow> (case pe_output_data buf sz d of (r, d') \<Rightarrow>
             (r, sh_put fd (Perf_H (h\<lparr>ph_data := Software_Data d'\<rparr>)) sh))
         | _ \<Rightarrow> (Inl (Errno ENOTSUP), sh))
     | _ \<Rightarrow> (Inl (Errno EINVAL), sh))"

text \<open>The outer \<open>value_or(nullptr)\<close>: the empty optional is a null pointer.\<close>

definition bpftime_get_software_perf_event_raw_buffer :: "int \<Rightarrow> nat \<Rightarrow> bpftime_shm \<Rightarrow> unit res \<times> bpftime_shm" where
  "bpftime_get_software_perf_event_raw_buffer fd expected_size sh =
     (case get_software_perf_event_raw_buffer fd expected_size sh of
        (Some r, sh') \<Rightarrow> (r, sh')
      | (None, sh') \<Rightarrow> (Inl MinusOne, sh'))"

subsection \<open>Waiting\<close>

text \<open>
  \<open>lock()\<close> and \<open>has_data()\<close> of a file: an expired weak pointer has no data.
\<close>

definition file_ready :: "bpftime_shm \<Rightarrow> epoll_file \<Rightarrow> bool res" where
  "file_ready sh p = (case p of
       Perf_File fd n d \<Rightarrow>
         (if sh_cleared sh fd \<noteq> n then Inr False
          else (case sh_slot fd sh of
              Some (Perf_H h) \<Rightarrow> (case ph_data h of Software_Data m \<Rightarrow> Inr (pe_has_data m) | _ \<Rightarrow> Inr False)
            | _ \<Rightarrow> Inr False))
     | Ringbuf_File q d \<Rightarrow>
         (case sg_objs (sh_segment sh) q of Some (Ringbuf_Impl m) \<Rightarrow> rb_has_data m | _ \<Rightarrow> Inr False))"

primrec file_data :: "epoll_file \<Rightarrow> nat" where
  "file_data (Perf_File fd n d) = d"
| "file_data (Ringbuf_File q d) = d"

text \<open>One pass over the files; the events are their user data.\<close>

primrec epoll_scan :: "bpftime_shm \<Rightarrow> int \<Rightarrow> epoll_file list \<Rightarrow> nat list \<Rightarrow> nat list res" where
  "epoll_scan sh max_evt [] out_evts = Inr out_evts"
| "epoll_scan sh max_evt (p # ps) out_evts =
     and_then (file_ready sh p) (\<lambda>has_data.
       epoll_scan sh max_evt ps
         (if has_data \<and> int (length out_evts) < max_evt then out_evts @ [file_data p] else out_evts))"

text \<open>
  What happens around the loop while it runs: \<open>ew_state i\<close> is the memory in the \<open>i\<close>-th
  iteration, which other threads and processes change, \<open>ew_elapsed i\<close> the milliseconds since
  the call, and \<open>ew_signal i\<close> what \<open>sigtimedwait\<close> returns there. \<open>ew_mask\<close> is whether the first
  \<open>sigprocmask\<close> succeeds.
\<close>

record epoll_world =
  ew_state :: "nat \<Rightarrow> bpftime_shm"
  ew_elapsed :: "nat \<Rightarrow> int"
  ew_signal :: "nat \<Rightarrow> int"
  ew_mask :: bool

text \<open>
  The result carries whether \<open>SIGINT\<close> and \<open>SIGTERM\<close> are left blocked: the return for a timeout
  of 0 does not restore the mask. \<open>None\<close> is a loop that does not end.
\<close>

partial_function (option) epoll_loop ::
  "epoll_world \<Rightarrow> int \<Rightarrow> int \<Rightarrow> int \<Rightarrow> nat \<Rightarrow> nat list \<Rightarrow> (nat list res \<times> bool) option"
where
  "epoll_loop w fd max_evt timeout i out_evts =
     (if int (length out_evts) < max_evt then
        if timeout = 0 then Some (Inr [], True)
        else if timeout > 0 \<and> ew_elapsed w i > timeout then Some (Inr out_evts, False)
        else (case sh_slot fd (ew_state w i) of
            Some (Epoll_H files) \<Rightarrow>
              (case epoll_scan (ew_state w i) max_evt files out_evts of
                 Inl f \<Rightarrow> Some (Inl f, True)
               | Inr evts \<Rightarrow>
                   (if evts = [] \<and> ew_signal w i > 0 then Some (Inl (Errno EINTR), False)
                    else epoll_loop w fd max_evt timeout (i + 1) evts))
          | _ \<Rightarrow> Some (Inl UB, True))
      else Some (Inr out_evts, False))"

definition bpftime_epoll_wait :: "epoll_world \<Rightarrow> int \<Rightarrow> int \<Rightarrow> int \<Rightarrow> (nat list res \<times> bool) option" where
  "bpftime_epoll_wait w fd max_evt timeout =
     (if timeout < -1 then Some (Inl (Errno EINVAL), False)
      else if \<not> is_epoll_fd fd (ew_state w 0) then Some (Inl (Errno EINVAL), False)
      else if \<not> ew_mask w then Some (Inl (Errno EINVAL), False)
      else epoll_loop w fd max_evt timeout 0 [])"

subsection \<open>Map pointers\<close>

definition INVALID_MAP_PTR :: "64 word" where
  "INVALID_MAP_PTR = 0 - 1"

definition map_ptr_by_fd :: "32 word \<Rightarrow> bpftime_shm \<Rightarrow> 64 word" where
  "map_ptr_by_fd fd sh =
     (if sh_manager sh = None \<or> \<not> is_map_fd (sint fd) sh then INVALID_MAP_PTR
      else push_bit 32 (ucast fd) OR 0xffffffff)"

text \<open>\<open>(int)(map_ptr >> 32)\<close>.\<close>

definition map_ptr_fd :: "64 word \<Rightarrow> int" where
  "map_ptr_fd map_ptr = sint (ucast (drop_bit 32 map_ptr) :: 32 word)"

text \<open>
  The value of the first key. The buffer of the key has \<open>attr.key_size\<close> zero bytes before the
  first key is copied into it. A null pointer is \<open>Errno\<close> or \<open>MinusOne\<close>.
\<close>

definition map_val :: "runtime_env \<Rightarrow> 64 word \<Rightarrow> bpftime_shm \<Rightarrow> elem res \<times> bpftime_shm" where
  "map_val e map_ptr sh =
     (let fd = map_ptr_fd map_ptr in
      case sh_slot fd sh of
        Some (Map_H m) \<Rightarrow>
          (let sz = at_key_size (mh_attr m) in
           case bpf_map_get_next_key e None (Some sz) False m (sh_segment sh) of
             (Inl Throw, s) \<Rightarrow> (Inl Throw, sh\<lparr>sh_segment := s\<rparr>)
           | (Inl UB, s) \<Rightarrow> (Inl UB, sh\<lparr>sh_segment := s\<rparr>)
           | (Inl _, s) \<Rightarrow> (Inl (Errno ENOENT), sh\<lparr>sh_segment := s\<rparr>)
           | (Inr key, s) \<Rightarrow>
               (case map_lookup_elem e (Some (key @ replicate (sz - length key) 0)) False m s of
                  (r, s') \<Rightarrow> (r, sh\<lparr>sh_segment := s'\<rparr>)))
      | _ \<Rightarrow> (Inl (Errno ENOENT), sh))"

subsection \<open>One pass over the files\<close>

definition ready_data :: "bpftime_shm \<Rightarrow> epoll_file list \<Rightarrow> nat list" where
  "ready_data sh files = map file_data (filter (\<lambda>p. file_ready sh p = Inr True) files)"

lemma epoll_scan_ready:
  "\<forall>p \<in> set files. \<exists>b. file_ready sh p = Inr b \<Longrightarrow> int (length out_evts) \<le> max_evt \<Longrightarrow>
   epoll_scan sh max_evt files out_evts =
     Inr (out_evts @ take (nat max_evt - length out_evts) (ready_data sh files))"
proof (induction files arbitrary: out_evts)
  case Nil
  then show ?case by (simp add: ready_data_def)
next
  case (Cons p ps)
  obtain b where b: "file_ready sh p = Inr b" using Cons.prems(1) by auto
  show ?case
  proof (cases "b \<and> int (length out_evts) < max_evt")
    case True
    then have n: "nat max_evt - length out_evts = Suc (nat max_evt - Suc (length out_evts))" by linarith
    show ?thesis using Cons.IH [of "out_evts @ [file_data p]"] Cons.prems True b
      by (simp add: and_then_def ready_data_def n)
  next
    case False
    then show ?thesis using Cons.IH [of out_evts] Cons.prems b by (auto simp: and_then_def ready_data_def)
  qed
qed

lemma epoll_scan_Inr:
  "epoll_scan sh max_evt files out_evts = Inr evts \<Longrightarrow> \<forall>p \<in> set files. \<exists>b. file_ready sh p = Inr b"
  by (induction files arbitrary: out_evts) (auto simp: and_then_Inr_iff)

lemma take_ready_data: "d \<in> set (take n (ready_data sh files)) \<Longrightarrow>
    \<exists>p \<in> set files. file_data p = d \<and> file_ready sh p = Inr True"
  using in_set_takeD [of d n "ready_data sh files"] by (auto simp: ready_data_def)

subsection \<open>The loop\<close>

definition reported :: "epoll_world \<Rightarrow> int \<Rightarrow> nat \<Rightarrow> bool" where
  "reported w fd d \<longleftrightarrow> (\<exists>i files p. sh_slot fd (ew_state w i) = Some (Epoll_H files) \<and> p \<in> set files \<and>
     file_data p = d \<and> file_ready (ew_state w i) p = Inr True)"

lemma epoll_scan_reported:
  assumes "epoll_scan (ew_state w i) max_evt files out_evts = Inr evts" and "int (length out_evts) \<le> max_evt"
    and "sh_slot fd (ew_state w i) = Some (Epoll_H files)" and "\<forall>d \<in> set out_evts. reported w fd d"
  shows "int (length evts) \<le> max_evt \<and> (\<forall>d \<in> set evts. reported w fd d)"
proof -
  have e: "evts = out_evts @ take (nat max_evt - length out_evts) (ready_data (ew_state w i) files)"
    using epoll_scan_ready [OF epoll_scan_Inr [OF assms(1)] assms(2)] assms(1) by simp
  have "reported w fd d" if "d \<in> set (take (nat max_evt - length out_evts) (ready_data (ew_state w i) files))" for d
    using take_ready_data [OF that] assms(3) unfolding reported_def by blast
  then show ?thesis using assms(2,4) unfolding e by auto
qed

text \<open>An event found before or during the loop is the one of a file that was ready.\<close>

definition loop_reports :: "epoll_world \<Rightarrow> int \<Rightarrow> int \<Rightarrow> nat list \<Rightarrow> nat list res \<times> bool \<Rightarrow> bool" where
  "loop_reports w fd max_evt out_evts y \<longleftrightarrow>
     (int (length out_evts) \<le> max_evt \<or> out_evts = []) \<and> (\<forall>d \<in> set out_evts. reported w fd d) \<longrightarrow>
     (\<forall>evts. fst y = Inr evts \<longrightarrow> length evts \<le> nat max_evt \<and> (\<forall>d \<in> set evts. reported w fd d))"

lemma epoll_loop_step:
  assumes "int (length out_evts) < max_evt" and "timeout \<noteq> 0" and "\<not> (timeout > 0 \<and> ew_elapsed w i > timeout)"
    and "sh_slot fd (ew_state w i) = Some (Epoll_H files)"
    and "epoll_scan (ew_state w i) max_evt files out_evts = Inr evts" and "\<not> (evts = [] \<and> ew_signal w i > 0)"
  shows "epoll_loop w fd max_evt timeout i out_evts = epoll_loop w fd max_evt timeout (i + 1) evts"
  using assms by (subst epoll_loop.simps) auto

lemma epoll_loop_reported:
  assumes "epoll_loop w fd max_evt timeout i out_evts = Some y"
  shows "loop_reports w fd max_evt out_evts y"
proof (rule epoll_loop.raw_induct [where P = "\<lambda>w fd max_evt timeout i out_evts y. loop_reports w fd max_evt out_evts y", OF _ assms])
  fix loop w fd max_evt timeout i out_evts y
  assume IH: "\<And>w fd max_evt timeout i out_evts y. loop w fd max_evt timeout i out_evts = Some y \<Longrightarrow> loop_reports w fd max_evt out_evts y"
    and body: "(if int (length out_evts) < max_evt then
        if timeout = 0 then Some (Inr [], True)
        else if timeout > 0 \<and> ew_elapsed w i > timeout then Some (Inr out_evts, False)
        else (case sh_slot fd (ew_state w i) of
            Some (Epoll_H files) \<Rightarrow>
              (case epoll_scan (ew_state w i) max_evt files out_evts of
                 Inl f \<Rightarrow> Some (Inl f, True)
               | Inr evts \<Rightarrow>
                   (if evts = [] \<and> ew_signal w i > 0 then Some (Inl (Errno EINTR), False)
                    else loop w fd max_evt timeout (i + 1) evts))
          | _ \<Rightarrow> Some (Inl UB, True))
      else Some (Inr out_evts, False)) = Some y"
  show "loop_reports w fd max_evt out_evts y"
    unfolding loop_reports_def
  proof (intro impI, elim conjE)
    assume len: "int (length out_evts) \<le> max_evt \<or> out_evts = []" and rep: "\<forall>d \<in> set out_evts. reported w fd d"
    consider "y = (Inr [], True) \<or> y = (Inr out_evts, False) \<or> (\<exists>f. fst y = Inl f)"
      | files evts where "sh_slot fd (ew_state w i) = Some (Epoll_H files)" "int (length out_evts) < max_evt"
        "epoll_scan (ew_state w i) max_evt files out_evts = Inr evts" "loop w fd max_evt timeout (i + 1) evts = Some y"
      using body by (auto split: if_splits option.splits handler_variant.splits sum.splits)
    then show "\<forall>evts. fst y = Inr evts \<longrightarrow> length evts \<le> nat max_evt \<and> (\<forall>d \<in> set evts. reported w fd d)"
    proof cases
      case 1
      then show ?thesis using len rep by auto
    next
      case (2 files evts)
      then show ?thesis using IH [OF 2(4)] epoll_scan_reported [OF 2(3) _ 2(1) rep] by (simp add: loop_reports_def)
    qed
  qed
qed

text \<open>The condition under which an iteration scans its files without a fault.\<close>

definition scannable :: "epoll_world \<Rightarrow> int \<Rightarrow> nat \<Rightarrow> bool" where
  "scannable w fd i \<longleftrightarrow> (\<exists>files. sh_slot fd (ew_state w i) = Some (Epoll_H files) \<and>
     (\<forall>p \<in> set files. \<exists>b. file_ready (ew_state w i) p = Inr b))"

lemma epoll_loop_ends:
  assumes "0 < timeout" and "timeout < ew_elapsed w k" and "\<forall>i. scannable w fd i" and "\<forall>i. ew_signal w i \<le> 0"
  shows "i \<le> k \<Longrightarrow> \<exists>evts. epoll_loop w fd max_evt timeout i out_evts = Some (Inr evts, False)"
proof (induction "k - i" arbitrary: i out_evts)
  case 0
  then have "ew_elapsed w i > timeout" using assms(2) by simp
  then show ?case using assms(1) by (subst epoll_loop.simps) simp
next
  case (Suc n)
  show ?case
  proof (cases "int (length out_evts) < max_evt \<and> \<not> ew_elapsed w i > timeout")
    case False
    then show ?thesis using assms(1) by (subst epoll_loop.simps) auto
  next
    case True
    obtain files where f: "sh_slot fd (ew_state w i) = Some (Epoll_H files)"
      "\<forall>p \<in> set files. \<exists>b. file_ready (ew_state w i) p = Inr b" using assms(3) unfolding scannable_def by blast
    obtain evts where e: "epoll_scan (ew_state w i) max_evt files out_evts = Inr evts"
      using epoll_scan_ready [OF f(2)] True by fastforce
    have "\<not> (evts = [] \<and> ew_signal w i > 0)" using assms(4) [rule_format, of i] by simp
    then have "epoll_loop w fd max_evt timeout i out_evts = epoll_loop w fd max_evt timeout (i + 1) evts"
      using epoll_loop_step [OF _ _ _ f(1) e] True assms(1) by simp
    moreover have "n = k - (i + 1)" "i + 1 \<le> k" using Suc.hyps(2) by simp_all
    ultimately show ?thesis using Suc.hyps(1) by simp
  qed
qed

text \<open>A loop that has an event, has room for more and finds no further one.\<close>

definition starving :: "epoll_world \<Rightarrow> int \<Rightarrow> nat \<Rightarrow> bool" where
  "starving w fd n \<longleftrightarrow> (\<forall>i \<ge> n. \<exists>files. sh_slot fd (ew_state w i) = Some (Epoll_H files) \<and>
     (\<forall>p \<in> set files. file_ready (ew_state w i) p = Inr False))"

lemma starving_scan:
  assumes "starving w fd n" and "n \<le> i" and "int (length out_evts) \<le> max_evt"
  shows "\<exists>files. sh_slot fd (ew_state w i) = Some (Epoll_H files) \<and>
    epoll_scan (ew_state w i) max_evt files out_evts = Inr out_evts"
proof -
  obtain files where f: "sh_slot fd (ew_state w i) = Some (Epoll_H files)"
    "\<forall>p \<in> set files. file_ready (ew_state w i) p = Inr False" using assms(1,2) unfolding starving_def by blast
  then have "ready_data (ew_state w i) files = []" by (auto simp: ready_data_def filter_empty_conv)
  then show ?thesis using epoll_scan_ready [of files "ew_state w i" out_evts max_evt] f assms(3) by auto
qed

definition loop_stuck :: "epoll_world \<Rightarrow> int \<Rightarrow> int \<Rightarrow> int \<Rightarrow> nat \<Rightarrow> nat list \<Rightarrow> bool" where
  "loop_stuck w fd max_evt timeout i out_evts \<longleftrightarrow>
     starving w fd i \<and> timeout = -1 \<and> out_evts \<noteq> [] \<and> int (length out_evts) < max_evt"

lemma epoll_loop_stuck:
  assumes "loop_stuck w fd max_evt timeout i out_evts"
  shows "epoll_loop w fd max_evt timeout i out_evts = None"
proof (rule ccontr)
  assume "epoll_loop w fd max_evt timeout i out_evts \<noteq> None"
  then obtain y where y: "epoll_loop w fd max_evt timeout i out_evts = Some y" by blast
  have "\<not> loop_stuck w fd max_evt timeout i out_evts"
  proof (rule epoll_loop.raw_induct
      [where P = "\<lambda>w fd max_evt timeout i out_evts y. \<not> loop_stuck w fd max_evt timeout i out_evts", OF _ y])
    fix loop w fd max_evt timeout i out_evts and y :: "nat list res \<times> bool"
    assume IH: "\<And>w fd max_evt timeout i out_evts y. loop w fd max_evt timeout i out_evts = Some y \<Longrightarrow>
        \<not> loop_stuck w fd max_evt timeout i out_evts"
      and body: "(if int (length out_evts) < max_evt then
        if timeout = 0 then Some (Inr [], True)
        else if timeout > 0 \<and> ew_elapsed w i > timeout then Some (Inr out_evts, False)
        else (case sh_slot fd (ew_state w i) of
            Some (Epoll_H files) \<Rightarrow>
              (case epoll_scan (ew_state w i) max_evt files out_evts of
                 Inl f \<Rightarrow> Some (Inl f, True)
               | Inr evts \<Rightarrow>
                   (if evts = [] \<and> ew_signal w i > 0 then Some (Inl (Errno EINTR), False)
                    else loop w fd max_evt timeout (i + 1) evts))
          | _ \<Rightarrow> Some (Inl UB, True))
      else Some (Inr out_evts, False)) = Some y"
    show "\<not> loop_stuck w fd max_evt timeout i out_evts"
    proof
      assume s: "loop_stuck w fd max_evt timeout i out_evts"
      then obtain files where "sh_slot fd (ew_state w i) = Some (Epoll_H files)"
        "epoll_scan (ew_state w i) max_evt files out_evts = Inr out_evts"
        using starving_scan [of w fd i i out_evts max_evt] by (auto simp: loop_stuck_def)
      then have "loop w fd max_evt timeout (i + 1) out_evts = Some y" using body s by (simp add: loop_stuck_def)
      moreover have "loop_stuck w fd max_evt timeout (i + 1) out_evts" using s by (simp add: loop_stuck_def starving_def)
      ultimately show False using IH by blast
    qed
  qed
  then show False using assms by blast
qed

subsection \<open>Map pointers and outputs\<close>

lemma map_ptr_shift: "ucast (drop_bit 32 (push_bit 32 (ucast fd) OR 0xffffffff :: 64 word)) = (fd :: 32 word)"
proof -
  have m: "(0xffffffff :: 64 word) = mask 32" by (simp add: mask_eq_exp_minus_1)
  show ?thesis unfolding m by (rule bit_word_eqI) (simp add: bit_simps)
qed

lemma map_ptr_fd_invalid: "map_ptr_fd INVALID_MAP_PTR = -1"
proof -
  have "ucast (drop_bit 32 (- 1 :: 64 word)) = (- 1 :: 32 word)" by (rule bit_word_eqI) (simp add: bit_simps)
  then show ?thesis by (simp add: map_ptr_fd_def INVALID_MAP_PTR_def)
qed

lemma output_has_data:
  assumes "pe_reach m ps" and "12 + sz < 2 ^ 16" and "sz \<le> length b" and "pe_data_head m + 2 ^ 16 < 2 ^ 63"
    and "12 + sz < length (pe_ring m) - length (pe_pending m)"
  shows "\<exists>m'. pe_output_data (Some b) sz m = (Inr (), m') \<and> pe_has_data m'"
proof -
  have rep: "pe_rep m ps" by (rule pe_reach_rep [OF assms(1)])
  have "\<not> length (pe_ring m) - (pe_data_head m - pe_data_tail m) \<le> 12 + sz"
    using assms(5) by (simp add: pe_pending_def)
  then obtain m' where m': "pe_output_data (Some b) sz m = (Inr (), m')" "pe_rep m' (ps @ [take sz b])"
    using pe_output_refines [OF rep assms(2-4)] by auto
  have "pe_pending m' \<noteq> []" using m'(2) by (auto simp: pe_rep_def pe_record_def)
  then have "pe_has_data m'" by (auto simp: pe_has_data_def pe_pending_def)
  then show ?thesis using m'(1) by blast
qed

lemma sh_slot_put:
  "sh_slot fd sh = Some g \<Longrightarrow> sh_slot fd' (sh_put fd h sh) = (if fd' = fd then Some h else sh_slot fd' sh)"
  by (auto simp: sh_slot_def sh_put_def split: option.splits if_splits)

lemma sh_cleared_put [simp]: "sh_cleared (sh_put fd h sh) = sh_cleared sh"
  by (simp add: sh_put_def)

subsection \<open>Properties\<close>

text \<open>An epoll instance at descriptor 0 with the software event at 1, whose head position is \<open>n\<close>.\<close>

definition event_memory :: "nat \<Rightarrow> bpftime_shm" where
  "event_memory n = (shm_new 2)\<lparr>sh_manager := Some [Epoll_H [Perf_File 1 0 7],
     Perf_H \<lparr>ph_type = 1, ph_enabled = False, ph_data = Software_Data ((pe_new 4096 0 0 0)\<lparr>pe_data_head := n\<rparr>)\<rparr>]\<rparr>"

definition event_world :: "(nat \<Rightarrow> nat) \<Rightarrow> epoll_world" where
  "event_world f = \<lparr>ew_state = \<lambda>i. event_memory (f i), ew_elapsed = int, ew_signal = \<lambda>_. 0, ew_mask = True\<rparr>"

lemma event_memory_simps [simp]:
  "sh_slot 0 (event_memory n) = Some (Epoll_H [Perf_File 1 0 7])"
  "file_ready (event_memory n) (Perf_File 1 0 7) = Inr (n \<noteq> 0)"
  by (simp_all add: event_memory_def sh_slot_def file_ready_def shm_new_def pe_new_def pe_has_data_def)

lemma event_world_simps [simp]:
  "ew_state (event_world f) i = event_memory (f i)" "ew_elapsed (event_world f) i = int i"
  "ew_signal (event_world f) i = 0" "ew_mask (event_world f)"
  by (simp_all add: event_world_def)

text \<open>
  \<open>epoll_wait\<close> reports only what is there. Whatever other threads do to the memory while the
  loop runs, it returns at most \<open>max_evt\<close> events, and each of them is the user data of a file
  of the epoll instance that had data in some iteration.
\<close>

theorem epoll_wait_reports_ready:
  assumes "bpftime_epoll_wait w fd max_evt timeout = Some (Inr evts, b)"
  shows "length evts \<le> nat max_evt \<and> (\<forall>d \<in> set evts. \<exists>i files p. sh_slot fd (ew_state w i) = Some (Epoll_H files) \<and>
    p \<in> set files \<and> file_data p = d \<and> file_ready (ew_state w i) p = Inr True)"
proof -
  have "epoll_loop w fd max_evt timeout 0 [] = Some (Inr evts, b)"
    using assms by (auto simp: bpftime_epoll_wait_def split: if_splits)
  from epoll_loop_reported [OF this] show ?thesis by (simp add: loop_reports_def reported_def)
qed

theorem epoll_wait_reports_ready_witness:
  "bpftime_epoll_wait (event_world (\<lambda>_. 5)) 0 1 (-1) = Some (Inr [7], False) \<and>
   (\<exists>i files p. sh_slot 0 (ew_state (event_world (\<lambda>_. 5)) i) = Some (Epoll_H files) \<and> p \<in> set files \<and> file_data p = 7 \<and>
      file_ready (ew_state (event_world (\<lambda>_. 5)) i) p = Inr True)"
proof -
  let ?w = "event_world (\<lambda>_. 5)"
  have "epoll_loop ?w 0 1 (-1) 0 [] = epoll_loop ?w 0 1 (-1) (0 + 1) [7]"
    by (rule epoll_loop_step [where files = "[Perf_File 1 0 7]"]) (simp_all add: and_then_def)
  also have "\<dots> = Some (Inr [7], False)" by (subst epoll_loop.simps) simp
  finally have r: "bpftime_epoll_wait ?w 0 1 (-1) = Some (Inr [7], False)"
    by (simp add: bpftime_epoll_wait_def is_epoll_fd_def)
  show ?thesis using epoll_wait_reports_ready [OF r] r by simp
qed

text \<open>
  C34: a wait with a positive timeout ends. When the clock passes the timeout in some iteration,
  the instance stays open, its files can be read and no signal comes, \<open>epoll_wait\<close> returns the
  number of its events and restores the signal mask.
\<close>

theorem epoll_wait_times_out:
  assumes "0 < timeout" and "timeout < ew_elapsed w k" and "ew_mask w"
    and "\<forall>i. \<exists>files. sh_slot fd (ew_state w i) = Some (Epoll_H files) \<and>
      (\<forall>p \<in> set files. \<exists>b. file_ready (ew_state w i) p = Inr b)"
    and "\<forall>i. ew_signal w i \<le> 0"
  shows "\<exists>evts. bpftime_epoll_wait w fd max_evt timeout = Some (Inr evts, False)"
proof -
  have s: "\<forall>i. scannable w fd i" using assms(4) by (simp add: scannable_def)
  obtain files where "sh_slot fd (ew_state w 0) = Some (Epoll_H files)" using assms(4) by blast
  then have "is_epoll_fd fd (ew_state w 0)" by (simp add: is_epoll_fd_def)
  then show ?thesis
    using epoll_loop_ends [OF assms(1,2) s assms(5), of 0 max_evt "[]"] assms(1,3) by (simp add: bpftime_epoll_wait_def)
qed

theorem epoll_wait_times_out_witness:
  "\<exists>evts. bpftime_epoll_wait (event_world (\<lambda>_. 0)) 0 4 3 = Some (Inr evts, False)"
  by (rule epoll_wait_times_out [where k = 4]) auto

text \<open>
  an event can be found and never be returned. If some file has data in the first iteration,
  but fewer than \<open>max_evt\<close> do, and none has data later, a wait without timeout does not return,
  although \<open>epoll_wait(2)\<close> returns as soon as there is an event.
\<close>

theorem epoll_wait_keeps_event:
  assumes "sh_slot fd (ew_state w 0) = Some (Epoll_H files)" and "\<forall>p \<in> set files. \<exists>b. file_ready (ew_state w 0) p = Inr b"
    and "ready_data (ew_state w 0) files \<noteq> []" and "int (length (ready_data (ew_state w 0) files)) < max_evt"
    and "\<forall>i \<ge> 1. \<exists>files. sh_slot fd (ew_state w i) = Some (Epoll_H files) \<and>
      (\<forall>p \<in> set files. file_ready (ew_state w i) p = Inr False)"
    and "ew_mask w"
  shows "bpftime_epoll_wait w fd max_evt (-1) = None"
proof -
  let ?evts = "ready_data (ew_state w 0) files"
  have scan: "epoll_scan (ew_state w 0) max_evt files [] = Inr ?evts"
    using epoll_scan_ready [OF assms(2), of "[]" max_evt] assms(4) by simp
  have "epoll_loop w fd max_evt (-1) 0 [] = epoll_loop w fd max_evt (-1) (0 + 1) ?evts"
    by (rule epoll_loop_step [OF _ _ _ assms(1) scan]) (use assms(3,4) in auto)
  also have "\<dots> = None"
    by (rule epoll_loop_stuck) (use assms(3-5) in \<open>simp add: loop_stuck_def starving_def\<close>)
  finally show ?thesis using assms(1,6) by (simp add: bpftime_epoll_wait_def is_epoll_fd_def)
qed

theorem epoll_wait_keeps_event_witness:
  "ready_data (ew_state (event_world (\<lambda>i. if i = 0 then 5 else 0)) 0) [Perf_File 1 0 7] = [7] \<and>
   bpftime_epoll_wait (event_world (\<lambda>i. if i = 0 then 5 else 0)) 0 2 (-1) = None"
proof
  show r: "ready_data (ew_state (event_world (\<lambda>i. if i = 0 then 5 else 0)) 0) [Perf_File 1 0 7] = [7]"
    by (simp add: ready_data_def)
  show "bpftime_epoll_wait (event_world (\<lambda>i. if i = 0 then 5 else 0)) 0 2 (-1) = None"
    by (rule epoll_wait_keeps_event [where files = "[Perf_File 1 0 7]"]) (use r in auto)
qed

text \<open>A wait with timeout 0 looks at no file and leaves the two signals blocked.\<close>

lemma epoll_wait_poll:
  assumes "is_epoll_fd fd (ew_state w 0)" and "ew_mask w" and "0 < max_evt"
  shows "bpftime_epoll_wait w fd max_evt 0 = Some (Inr [], True)"
  using assms by (simp add: bpftime_epoll_wait_def) (subst epoll_loop.simps, simp)

text \<open>
  map pointers. The pointer that \<open>map_ptr_by_fd\<close> makes for a map names its descriptor again;
  for anything else it is the invalid pointer, which names no descriptor, so that \<open>map_val\<close> on
  it fails with \<open>ENOENT\<close>.
\<close>

theorem map_ptr_round_trip:
  "map_ptr_fd (map_ptr_by_fd fd sh) = (if is_map_fd (sint fd) sh then sint fd else -1) \<and>
   (if is_map_fd (sint fd) sh then True else map_val e (map_ptr_by_fd fd sh) sh = (Inl (Errno ENOENT), sh))"
proof -
  have "sh_manager sh \<noteq> None" if "is_map_fd (sint fd) sh"
    using that by (cases "sh_manager sh") (simp_all add: is_map_fd_def sh_slot_def)
  moreover have "sh_slot (-1) sh = None" by (simp add: sh_slot_def split: option.split)
  moreover have "map_ptr_fd (push_bit 32 (ucast fd) OR 0xffffffff) = sint fd" by (simp only: map_ptr_fd_def map_ptr_shift)
  ultimately show ?thesis by (auto simp: map_ptr_by_fd_def map_ptr_fd_invalid map_val_def)
qed

text \<open>
  C33: an event that a program emits wakes its reader. When a software perf event is added to an
  empty epoll instance and a record that fits is then put in its ring, a wait for at most one event and without a timeout
  that starts in this state returns the user data of the event.
\<close>

theorem epoll_delivers_output:
  assumes "sh_slot ep sh = Some (Epoll_H [])" and "sh_slot swpe sh = Some (Perf_H h)"
    and "ph_data h = Software_Data m" and "pe_reach m ps" and "12 + sz < 2 ^ 16" and "sz \<le> length b"
    and "pe_data_head m + 2 ^ 16 < 2 ^ 63" and "12 + sz < length (pe_ring m) - length (pe_pending m)"
    and "add_software_perf_event_to_epoll swpe ep d sh = (Inr (), sh1)"
    and "ew_state w 0 = snd (bpftime_perf_event_output swpe (Some b) sz sh1)" and "ew_mask w"
  shows "fst (bpftime_perf_event_output swpe (Some b) sz sh1) = Inr () \<and>
    bpftime_epoll_wait w ep 1 (-1) = Some (Inr [d], False)"
proof -
  obtain m' where m': "pe_output_data (Some b) sz m = (Inr (), m')" "pe_has_data m'"
    using output_has_data [OF assms(4-8)] by blast
  have ne: "swpe \<noteq> ep" using assms(1,2) by auto
  let ?f = "Perf_File swpe (sh_cleared sh swpe) d"
  have sh1: "sh1 = sh_put ep (Epoll_H [?f]) sh"
    using assms(1-3,9) by (auto simp: add_software_perf_event_to_epoll_def try_get_software_perf_data_weak_ptr_def
        split: if_splits)
  let ?sh2 = "sh_put swpe (Perf_H (h\<lparr>ph_data := Software_Data m'\<rparr>)) sh1"
  have s1: "sh_slot swpe sh1 = Some (Perf_H h)" using sh_slot_put [OF assms(1)] assms(2) ne by (simp add: sh1)
  then have out: "bpftime_perf_event_output swpe (Some b) sz sh1 = (Inr (), ?sh2)"
    using assms(3) m'(1) by (simp add: bpftime_perf_event_output_def)
  have slots: "sh_slot ep ?sh2 = Some (Epoll_H [?f])" "sh_slot swpe ?sh2 = Some (Perf_H (h\<lparr>ph_data := Software_Data m'\<rparr>))"
    using sh_slot_put [OF s1] sh_slot_put [OF assms(1)] ne by (simp_all add: sh1)
  have "epoll_scan ?sh2 1 [?f] [] = Inr [d]"
    using m'(2) slots(2) by (simp add: file_ready_def and_then_def sh1)
  then have "epoll_loop w ep 1 (-1) 0 [] = epoll_loop w ep 1 (-1) (0 + 1) [d]"
    using slots(1) assms(10) out by (intro epoll_loop_step) auto
  also have "\<dots> = Some (Inr [d], False)" by (subst epoll_loop.simps) simp
  finally show ?thesis using out slots(1) assms(10,11) by (simp add: bpftime_epoll_wait_def is_epoll_fd_def)
qed

theorem epoll_delivers_output_witness: "\<exists>w. bpftime_epoll_wait w 0 1 (-1) = Some (Inr [7], False)"
proof -
  obtain m where m: "pe_reach m []" "length (pe_ring m) = 2 ^ 13" "pe_data_head m = 0" "pe_pending m = []"
    using pe_ex_ring by blast
  define h where "h = \<lparr>ph_type = 1, ph_enabled = False, ph_data = Software_Data m\<rparr>"
  define sh where "sh = (shm_new 2)\<lparr>sh_manager := Some [Epoll_H [], Perf_H h]\<rparr>"
  have slots: "sh_slot 0 sh = Some (Epoll_H [])" "sh_slot 1 sh = Some (Perf_H h)" by (simp_all add: sh_def sh_slot_def)
  obtain sh1 where sh1: "add_software_perf_event_to_epoll 1 0 7 sh = (Inr (), sh1)"
    using slots by (simp add: add_software_perf_event_to_epoll_def is_software_perf_event_handler_fd_def h_def
        try_get_software_perf_data_weak_ptr_def)
  define w where "w = (event_world (\<lambda>_. 0))\<lparr>ew_state := \<lambda>_. snd (bpftime_perf_event_output 1 (Some [1, 2]) 2 sh1)\<rparr>"
  have "ew_mask w" "ew_state w 0 = snd (bpftime_perf_event_output 1 (Some [1, 2]) 2 sh1)"
    by (simp_all add: w_def event_world_def)
  then have "bpftime_epoll_wait w 0 1 (-1) = Some (Inr [7], False)"
    using epoll_delivers_output [OF slots _ m(1) _ _ _ _ sh1, of 2 "[1, 2]" w] m by (simp add: h_def)
  then show ?thesis by blast
qed

end
