(* ===== verification/Decimal_Text.thy ===== *)
theory Decimal_Text
  imports Bpf_Prelude
begin

text \<open>
  Decimal numbers as text, as \<open>std::to_string\<close>, \<open>std::stoul\<close> and \<open>std::stoi\<close> write and read them
  where a perf event is handed to an attach implementation as a string.
\<close>

definition digit_char :: "nat \<Rightarrow> char" where
  "digit_char d = char_of (48 + d)"

definition is_digit :: "char \<Rightarrow> bool" where
  "is_digit c \<longleftrightarrow> 48 \<le> (of_char c :: nat) \<and> (of_char c :: nat) \<le> 57"

definition digit_val :: "char \<Rightarrow> nat" where
  "digit_val c = of_char c - 48"

fun dec_nat :: "nat \<Rightarrow> string" where
  "dec_nat n = (if n < 10 then [digit_char n] else dec_nat (n div 10) @ [digit_char (n mod 10)])"

declare dec_nat.simps [simp del]

definition dec_int :: "int \<Rightarrow> string" where
  "dec_int i = (if i < 0 then CHR ''-'' # dec_nat (nat (- i)) else dec_nat (nat i))"

definition read_dec :: "string \<Rightarrow> nat" where
  "read_dec ds = foldl (\<lambda>a c. 10 * a + digit_val c) 0 ds"

definition is_blank :: "char \<Rightarrow> bool" where
  "is_blank c \<longleftrightarrow> (of_char c :: nat) \<in> {9, 10, 11, 12, 13, 32}"

text \<open>The sign and the digits at the front of a text, behind white space.\<close>

definition split_number :: "string \<Rightarrow> bool \<times> string" where
  "split_number s =
     (let s = dropWhile is_blank s in
      case s of
        [] \<Rightarrow> (False, [])
      | c # cs \<Rightarrow>
          (if c = CHR ''-'' then (True, takeWhile is_digit cs)
           else if c = CHR ''+'' then (False, takeWhile is_digit cs)
           else (False, takeWhile is_digit s)))"

text \<open>
  \<open>std::stoul\<close> raises when there is no digit and when the value has more than 64 bits; a minus sign
  negates modulo \<open>2 ^ 64\<close>. \<open>std::stoi\<close> raises outside the range of \<open>int\<close>. Text behind the
  digits is ignored.
\<close>

definition stoul :: "string \<Rightarrow> nat res" where
  "stoul s = (case split_number s of (neg, ds) \<Rightarrow>
     if ds = [] \<or> read_dec ds \<ge> 2 ^ 64 then Inl Throw
     else Inr (if neg then (2 ^ 64 - read_dec ds) mod 2 ^ 64 else read_dec ds))"

definition stoi :: "string \<Rightarrow> int res" where
  "stoi s = (case split_number s of (neg, ds) \<Rightarrow>
     let v = (if neg then - int (read_dec ds) else int (read_dec ds)) in
     if ds = [] \<or> v < - (2 ^ 31) \<or> v \<ge> 2 ^ 31 then Inl Throw else Inr v)"

subsection \<open>Reading back\<close>

lemma of_char_digit: "d < 10 \<Longrightarrow> of_char (digit_char d) = 48 + d"
  by (simp add: digit_char_def)

lemma digit_char_simps [simp]:
  "d < 10 \<Longrightarrow> is_digit (digit_char d)" "d < 10 \<Longrightarrow> digit_val (digit_char d) = d"
  by (simp_all add: is_digit_def digit_val_def of_char_digit)

lemma dec_nat_digits: "\<forall>c \<in> set (dec_nat n). is_digit c"
proof (induction n rule: dec_nat.induct)
  case (1 n)
  then show ?case by (subst dec_nat.simps) auto
qed

lemma dec_nat_not_Nil [simp]: "dec_nat n \<noteq> []"
  by (subst dec_nat.simps) simp

lemma read_dec_dec_nat [simp]: "read_dec (dec_nat n) = n"
proof (induction n rule: dec_nat.induct)
  case (1 n)
  show ?case
  proof (cases "n < 10")
    case True
    then show ?thesis by (subst dec_nat.simps) (simp add: read_dec_def)
  next
    case False
    then have "read_dec (dec_nat n) = 10 * read_dec (dec_nat (n div 10)) + n mod 10"
      by (subst dec_nat.simps) (simp add: read_dec_def)
    then show ?thesis using 1 False by simp
  qed
qed

lemma is_digit_cases:
  assumes "is_digit c"
  shows "\<not> is_blank c" "c \<noteq> CHR ''-''" "c \<noteq> CHR ''+''" "c \<noteq> CHR '':''"
  using assms by (auto simp: is_digit_def is_blank_def)

lemma takeWhile_digits: "\<forall>c \<in> set ds. is_digit c \<Longrightarrow> takeWhile is_digit ds = ds"
  by (simp add: takeWhile_eq_all_conv)

lemma split_number_digits:
  assumes "\<forall>c \<in> set ds. is_digit c" and "ds \<noteq> []"
  shows "split_number ds = (False, ds)" and "split_number (CHR ''-'' # ds) = (True, ds)"
proof -
  obtain c cs where ds: "ds = c # cs" using assms(2) by (cases ds) auto
  then have c: "\<not> is_blank c" "c \<noteq> CHR ''-''" "c \<noteq> CHR ''+''" using assms(1) is_digit_cases [of c] by auto
  then show "split_number ds = (False, ds)"
    using takeWhile_digits [OF assms(1)] ds by (simp add: split_number_def)
  have "\<not> is_blank (CHR ''-'')" by (simp add: is_blank_def)
  then show "split_number (CHR ''-'' # ds) = (True, ds)"
    using takeWhile_digits [OF assms(1)] by (simp add: split_number_def)
qed

lemma stoul_dec_nat: "n < 2 ^ 64 \<Longrightarrow> stoul (dec_nat n) = Inr n"
  using split_number_digits(1) [OF dec_nat_digits, of n] by (simp add: stoul_def)

lemma stoi_dec_int: "- (2 ^ 31) \<le> i \<Longrightarrow> i < 2 ^ 31 \<Longrightarrow> stoi (dec_int i) = Inr i"
  using split_number_digits [OF dec_nat_digits, of "nat (- i)"] split_number_digits [OF dec_nat_digits, of "nat i"]
  by (simp add: stoi_def dec_int_def) linarith

end
