(* ===== verification/Attach_Base.thy ===== *)
theory Attach_Base
  imports Decimal_Text
begin

text \<open>
  The interface of the attach implementations (\<open>attach/base_attach_impl\<close>) and the simplest of
  them, \<open>simple_attach_impl\<close>.

  The closure that an attach implementation gets to run a program is named by the program
  instance and the cookie it captures; \<open>Then_Set_Retval\<close> is the wrapper that
  \<open>frida_attach_impl\<close> puts around it for a replaced function. Attach ids are unbounded: the
  counter \<open>next_id\<close> is an \<open>int\<close> that is taken not to overflow.
\<close>

datatype ebpf_cb =
    Run_Prog nat "nat option"
  | Then_Set_Retval ebpf_cb

primrec cb_prog :: "ebpf_cb \<Rightarrow> nat" where
  "cb_prog (Run_Prog p cookie) = p"
| "cb_prog (Then_Set_Retval cb) = cb_prog cb"

text \<open>The classes derived from \<open>attach_private_data\<close>.\<close>

datatype attach_data =
    Syscall_Data int bool
  | Frida_Data nat string
  | Simple_Data string

subsection \<open>The contract\<close>

text \<open>
  \<open>create_attach_with_ebpf_callback\<close> returns a new id that is live from then on, or fails and
  changes nothing; \<open>detach_by_id\<close> of a live id ends it and no other.
\<close>

locale attach_manager =
  fixes create :: "ebpf_cb \<Rightarrow> attach_data \<Rightarrow> int \<Rightarrow> 's \<Rightarrow> int res \<times> 's"
    and detach :: "int \<Rightarrow> 's \<Rightarrow> unit res \<times> 's"
    and live :: "'s \<Rightarrow> int \<rightharpoonup> ebpf_cb"
    and good :: "'s \<Rightarrow> bool"
  assumes create_law: "good s \<Longrightarrow> create cb d t s = (r, s') \<Longrightarrow> good s' \<and> (case r of
      Inl f \<Rightarrow> live s' = live s
    | Inr i \<Rightarrow> live s i = None \<and> (\<exists>cb'. cb_prog cb' = cb_prog cb \<and> live s' = (live s)(i \<mapsto> cb')))"
    and detach_law: "good s \<Longrightarrow> live s i = Some cb \<Longrightarrow>
      \<exists>s'. detach i s = (Inr (), s') \<and> good s' \<and> live s' = (live s)(i := None)"
begin

text \<open>An attachment that is made and taken back leaves the live ones as they were.\<close>

lemma create_detach:
  assumes "good s" and "create cb d t s = (Inr i, s1)"
  shows "\<exists>s2. detach i s1 = (Inr (), s2) \<and> good s2 \<and> live s2 = live s"
proof -
  obtain cb' where c: "good s1" "live s i = None" "live s1 = (live s)(i \<mapsto> cb')"
    using create_law [OF assms] by auto
  then show ?thesis using detach_law [of s1 i cb'] by (auto simp: fun_upd_idem)
qed

end

subsection \<open>\<open>simple_attach_impl\<close>\<close>

text \<open>\<open>sa_cb\<close> is \<open>None\<close> before the first attach; \<open>sa_usable_id\<close> is -1 when nothing is attached.\<close>

record simple_attach =
  sa_next_id :: int
  sa_type :: int
  sa_cb :: "ebpf_cb option"
  sa_usable_id :: int
  sa_argument :: string

definition sa_new :: "int \<Rightarrow> simple_attach" where
  "sa_new attach_type = \<lparr>sa_next_id = 1, sa_type = attach_type, sa_cb = None, sa_usable_id = -1, sa_argument = []\<rparr>"

definition sa_is_attached :: "simple_attach \<Rightarrow> bool" where
  "sa_is_attached s = (sa_usable_id s \<noteq> -1)"

text \<open>Private data of another class makes the reference cast raise, which is not caught here.\<close>

definition sa_create :: "ebpf_cb \<Rightarrow> attach_data \<Rightarrow> int \<Rightarrow> simple_attach \<Rightarrow> int res \<times> simple_attach" where
  "sa_create cb private_data attach_type s =
     (if sa_usable_id s \<noteq> -1 then (Inl MinusOne, s)
      else if attach_type \<noteq> sa_type s then (Inl MinusOne, s)
      else (case private_data of
          Simple_Data arg \<Rightarrow>
            (Inr (sa_next_id s), s\<lparr>sa_argument := arg, sa_cb := Some cb, sa_usable_id := sa_next_id s, sa_next_id := sa_next_id s + 1\<rparr>)
        | _ \<Rightarrow> (Inl Throw, s)))"

definition sa_detach :: "int \<Rightarrow> simple_attach \<Rightarrow> unit res \<times> simple_attach" where
  "sa_detach ident s =
     (if sa_usable_id s = -1 then (Inl MinusOne, s)
      else if sa_usable_id s \<noteq> ident then (Inl MinusOne, s)
      else (Inr (), s\<lparr>sa_usable_id := -1\<rparr>))"

text \<open>\<open>callback\<close> is the function of the user; it gets the two arguments and the program to run.\<close>

definition sa_trigger :: "(string \<Rightarrow> string \<Rightarrow> ebpf_cb option \<Rightarrow> int) \<Rightarrow> string \<Rightarrow> simple_attach \<Rightarrow> int" where
  "sa_trigger callback trigger_argument s =
     (if sa_usable_id s = -1 then 1 else callback (sa_argument s) trigger_argument (sa_cb s))"

definition sa_live :: "simple_attach \<Rightarrow> int \<rightharpoonup> ebpf_cb" where
  "sa_live s = (if sa_usable_id s = -1 then Map.empty
     else (case sa_cb s of None \<Rightarrow> Map.empty | Some cb \<Rightarrow> [sa_usable_id s \<mapsto> cb]))"

definition sa_good :: "simple_attach \<Rightarrow> bool" where
  "sa_good s \<longleftrightarrow> 0 < sa_next_id s \<and> (sa_usable_id s \<noteq> -1 \<longrightarrow> sa_cb s \<noteq> None)"

lemma sa_good_new: "sa_good (sa_new t)"
  by (simp add: sa_good_def sa_new_def)

interpretation sat: attach_manager sa_create sa_detach sa_live sa_good
proof
  show "sa_good s' \<and> (case r of Inl f \<Rightarrow> sa_live s' = sa_live s
      | Inr i \<Rightarrow> sa_live s i = None \<and> (\<exists>cb'. cb_prog cb' = cb_prog cb \<and> sa_live s' = (sa_live s)(i \<mapsto> cb')))"
    if "sa_good s" "sa_create cb d t s = (r, s')" for s cb d t r s'
    using that by (auto simp: sa_create_def sa_good_def sa_live_def split: if_splits attach_data.splits)
  show "\<exists>s'. sa_detach i s = (Inr (), s') \<and> sa_good s' \<and> sa_live s' = (sa_live s)(i := None)"
    if "sa_good s" "sa_live s i = Some cb" for s i cb
    using that by (auto simp: sa_detach_def sa_good_def sa_live_def split: if_splits option.splits)
qed

end
