(* ===== verification/Syscall_Trace.thy ===== *)
theory Syscall_Trace
  imports Attach_Base
begin

text \<open>
  \<open>syscall_trace_attach_impl\<close>: programs attached to the entry and the exit of system calls, and
  the dispatcher that runs them around the original call.

  An entry is owned by \<open>attach_entries\<close>; the pointers to it in the callback sets are its id.
  The sets are ordered by address: the order in which a set is walked is a parameter \<open>ord\<close>.
  The system call numbers are those of x86-64.
\<close>

record syscall_entry =
  se_cb :: ebpf_cb
  se_sys_nr :: int
  se_is_enter :: bool

record syscall_trace =
  sy_next_id :: int
  sy_entries :: "int \<rightharpoonup> syscall_entry"
  sy_global_enter :: "int set"
  sy_global_exit :: "int set"
  sy_enter :: "int \<Rightarrow> int set"
  sy_exit :: "int \<Rightarrow> int set"

definition sy_new :: syscall_trace where
  "sy_new = \<lparr>sy_next_id = 1, sy_entries = Map.empty, sy_global_enter = {}, sy_global_exit = {},
     sy_enter = \<lambda>_. {}, sy_exit = \<lambda>_. {}\<rparr>"

definition ATTACH_SYSCALL_TRACE :: int where
  "ATTACH_SYSCALL_TRACE = 2"

definition sy_create :: "ebpf_cb \<Rightarrow> attach_data \<Rightarrow> int \<Rightarrow> syscall_trace \<Rightarrow> int res \<times> syscall_trace" where
  "sy_create cb private_data attach_type s =
     (if attach_type \<noteq> ATTACH_SYSCALL_TRACE then (Inl (NegErrno ENOTSUP), s)
      else (case private_data of
          Syscall_Data nr is_enter \<Rightarrow>
            (if nr \<ge> 512 \<or> nr < -1 then (Inl (NegErrno EINVAL), s)
             else
               (let i = sy_next_id s;
                    s = s\<lparr>sy_next_id := i + 1,
                          sy_entries := (sy_entries s)(i \<mapsto> \<lparr>se_cb = cb, se_sys_nr = nr, se_is_enter = is_enter\<rparr>)\<rparr> in
                (Inr i,
                 if is_enter then
                   (if nr = -1 then s\<lparr>sy_global_enter := insert i (sy_global_enter s)\<rparr>
                    else s\<lparr>sy_enter := (sy_enter s)(nr := insert i (sy_enter s nr))\<rparr>)
                 else
                   (if nr = -1 then s\<lparr>sy_global_exit := insert i (sy_global_exit s)\<rparr>
                    else s\<lparr>sy_exit := (sy_exit s)(nr := insert i (sy_exit s nr))\<rparr>))))
        | _ \<Rightarrow> (Inl (NegErrno EINVAL), s)))"

definition sy_detach :: "int \<Rightarrow> syscall_trace \<Rightarrow> unit res \<times> syscall_trace" where
  "sy_detach ident s = (case sy_entries s ident of
       None \<Rightarrow> (Inl (NegErrno ENOENT), s)
     | Some ent \<Rightarrow>
         (let s =
            (if se_is_enter ent \<and> se_sys_nr ent = -1 then s\<lparr>sy_global_enter := sy_global_enter s - {ident}\<rparr>
             else if \<not> se_is_enter ent \<and> se_sys_nr ent = -1 then s\<lparr>sy_global_exit := sy_global_exit s - {ident}\<rparr>
             else if se_is_enter ent
             then s\<lparr>sy_enter := (sy_enter s)(se_sys_nr ent := sy_enter s (se_sys_nr ent) - {ident})\<rparr>
             else s\<lparr>sy_exit := (sy_exit s)(se_sys_nr ent := sy_exit s (se_sys_nr ent) - {ident})\<rparr>) in
          (Inr (), s\<lparr>sy_entries := (sy_entries s)(ident := None)\<rparr>)))"

subsection \<open>The dispatcher\<close>

text \<open>What a program sees: \<open>trace_event_raw_sys_enter\<close> and \<open>trace_event_raw_sys_exit\<close>.\<close>

datatype sys_event =
    Sys_Enter int "64 word list"
  | Sys_Exit int "64 word"

text \<open>
  \<open>run cb ev w\<close> runs a program in the world \<open>w\<close>; it returns the value of its last call of
  \<open>bpf_set_retval\<close> or \<open>bpf_override_return\<close>, if it makes one. A pointer to an entry that no longer
  exists is undefined.
\<close>

primrec run_entries ::
  "(ebpf_cb \<Rightarrow> sys_event \<Rightarrow> 'w \<Rightarrow> 64 word option \<times> 'w) \<Rightarrow> sys_event \<Rightarrow> (int \<rightharpoonup> syscall_entry) \<Rightarrow> int list \<Rightarrow>
   64 word option \<Rightarrow> 'w \<Rightarrow> (64 word option \<times> 'w) res"
where
  "run_entries run ev es [] ovr w = Inr (ovr, w)"
| "run_entries run ev es (i # is) ovr w = (case es i of
       None \<Rightarrow> Inl UB
     | Some ent \<Rightarrow> (case run (se_cb ent) ev w of (v, w') \<Rightarrow>
         run_entries run ev es is (case v of None \<Rightarrow> ovr | Some _ \<Rightarrow> v) w'))"

text \<open>\<open>__NR_exit\<close> is 60 and \<open>__NR_exit_group\<close> 231. The arrays have 512 sets; the number is not tested.\<close>

definition dispatch_syscall ::
  "(ebpf_cb \<Rightarrow> sys_event \<Rightarrow> 'w \<Rightarrow> 64 word option \<times> 'w) \<Rightarrow> (int \<Rightarrow> 64 word list \<Rightarrow> 'w \<Rightarrow> 64 word \<times> 'w) \<Rightarrow>
   (int set \<Rightarrow> int list) \<Rightarrow> int \<Rightarrow> 64 word list \<Rightarrow> syscall_trace \<Rightarrow> 'w \<Rightarrow> (64 word \<times> 'w) res"
where
  "dispatch_syscall run orig_syscall ord sys_nr args s w =
     (if sys_nr = 231 \<or> sys_nr = 60 then Inr (orig_syscall sys_nr args w)
      else if sys_nr < 0 \<or> sys_nr \<ge> 512 then Inl UB
      else
        and_then (run_entries run (Sys_Enter sys_nr args) (sy_entries s) (ord (sy_enter s sys_nr)) None w) (\<lambda>(o1, w1).
        and_then (run_entries run (Sys_Enter sys_nr args) (sy_entries s) (ord (sy_global_enter s)) o1 w1) (\<lambda>(o2, w2).
          case o2 of
            Some user_ret \<Rightarrow> Inr (user_ret, w2)
          | None \<Rightarrow>
              (case orig_syscall sys_nr args w2 of (ret, w3) \<Rightarrow>
                and_then (run_entries run (Sys_Exit sys_nr ret) (sy_entries s) (ord (sy_exit s sys_nr)) None w3) (\<lambda>(o3, w4).
                and_then (run_entries run (Sys_Exit sys_nr ret) (sy_entries s) (ord (sy_global_exit s)) o3 w4) (\<lambda>(o4, w5).
                  Inr (case o4 of Some user_ret \<Rightarrow> user_ret | None \<Rightarrow> ret, w5)))))))"

subsection \<open>Private data\<close>

text \<open>
  \<open>initialize_from_string\<close>: the text of a tracepoint id. \<open>tp\<close> is the table of tracepoint names,
  which is read from the kernel, and \<open>nr_of\<close> the generated table of system call numbers. For a
  name with neither prefix the code looks up the empty name and would use an uninitialised
  \<open>is_enter\<close>.
\<close>

definition starts_with :: "string \<Rightarrow> string \<Rightarrow> bool" where
  "starts_with p s = (take (length p) s = p)"

definition syscall_data_from_string :: "(int \<rightharpoonup> string) \<Rightarrow> (string \<rightharpoonup> int) \<Rightarrow> string \<Rightarrow> attach_data res" where
  "syscall_data_from_string tp nr_of sv =
     and_then (stoi sv) (\<lambda>tp_id. case tp tp_id of
         None \<Rightarrow> Inl (NegErrno EEXIST)
       | Some name \<Rightarrow>
           (if name = ''*SYS_ENTER'' then Inr (Syscall_Data (-1) True)
            else if name = ''*SYS_EXIT'' then Inr (Syscall_Data (-1) False)
            else if starts_with ''sys_enter_'' name then
              (case nr_of (drop 10 name) of Some nr \<Rightarrow> Inr (Syscall_Data nr True) | None \<Rightarrow> Inl (NegErrno EEXIST))
            else if starts_with ''sys_exit_'' name then
              (case nr_of (drop 9 name) of Some nr \<Rightarrow> Inr (Syscall_Data nr False) | None \<Rightarrow> Inl (NegErrno EEXIST))
            else (case nr_of [] of Some nr \<Rightarrow> Inl UB | None \<Rightarrow> Inl (NegErrno EEXIST))))"

subsection \<open>The tables agree\<close>

definition sy_match :: "syscall_trace \<Rightarrow> bool \<Rightarrow> int \<Rightarrow> int set" where
  "sy_match s is_enter nr = {i. \<exists>e. sy_entries s i = Some e \<and> se_is_enter e = is_enter \<and> se_sys_nr e = nr}"

definition sy_good :: "syscall_trace \<Rightarrow> bool" where
  "sy_good s \<longleftrightarrow> (\<forall>i. sy_entries s i \<noteq> None \<longrightarrow> i < sy_next_id s) \<and> finite (dom (sy_entries s)) \<and>
     sy_global_enter s = sy_match s True (-1) \<and> sy_global_exit s = sy_match s False (-1) \<and>
     (\<forall>nr. nr \<noteq> -1 \<longrightarrow> sy_enter s nr = sy_match s True nr \<and> sy_exit s nr = sy_match s False nr)"

definition sy_live :: "syscall_trace \<Rightarrow> int \<rightharpoonup> ebpf_cb" where
  "sy_live s i = map_option se_cb (sy_entries s i)"

lemma sy_live_upd: "sy_entries s' = (sy_entries s)(i := v) \<Longrightarrow> sy_live s' = (sy_live s)(i := map_option se_cb v)"
  by (auto simp: sy_live_def fun_eq_iff)

lemma sy_good_new: "sy_good sy_new"
  by (simp add: sy_good_def sy_new_def sy_match_def)

lemma sy_create_Inl: "sy_create cb d t s = (Inl f, s') \<Longrightarrow> s' = s"
  by (auto simp: sy_create_def Let_def split: if_splits attach_data.splits)

lemma sy_create_Inr:
  assumes "sy_create cb d t s = (Inr i, s')"
  obtains nr b where "d = Syscall_Data nr b" "i = sy_next_id s" "-1 \<le> nr" "nr < 512" "t = ATTACH_SYSCALL_TRACE"
    "sy_entries s' = (sy_entries s)(i \<mapsto> \<lparr>se_cb = cb, se_sys_nr = nr, se_is_enter = b\<rparr>)" "sy_next_id s' = i + 1"
proof (cases d)
  case (Syscall_Data nr b)
  then show ?thesis using assms that [of nr b] by (auto simp: sy_create_def Let_def split: if_splits)
qed (use assms in \<open>auto simp: sy_create_def split: if_splits\<close>)

lemma sy_create_good:
  assumes "sy_good s" and "sy_create cb d t s = (r, s')"
  shows "sy_good s'"
proof (cases r)
  case (Inl f)
  then show ?thesis using assms sy_create_Inl by blast
next
  case (Inr i)
  then obtain nr b where d: "d = Syscall_Data nr b" "i = sy_next_id s"
    and entries: "sy_entries s' = (sy_entries s)(i \<mapsto> \<lparr>se_cb = cb, se_sys_nr = nr, se_is_enter = b\<rparr>)" "sy_next_id s' = i + 1"
    using assms(2) sy_create_Inr by metis
  let ?i = i
  have fresh: "sy_entries s ?i = None" using assms(1) d(2) by (cases "sy_entries s ?i") (auto simp: sy_good_def)
  have m: "sy_match s' b' n = (if b' = b \<and> n = nr then insert ?i (sy_match s b' n) else sy_match s b' n)" for b' n
    using fresh by (auto simp: sy_match_def entries)
  have sets: "sy_global_enter s' = (if b \<and> nr = -1 then insert ?i (sy_global_enter s) else sy_global_enter s)"
    "sy_global_exit s' = (if \<not> b \<and> nr = -1 then insert ?i (sy_global_exit s) else sy_global_exit s)"
    "sy_enter s' n = (if b \<and> nr \<noteq> -1 \<and> n = nr then insert ?i (sy_enter s n) else sy_enter s n)"
    "sy_exit s' n = (if \<not> b \<and> nr \<noteq> -1 \<and> n = nr then insert ?i (sy_exit s n) else sy_exit s n)" for n
    using Inr assms(2) d by (auto simp: sy_create_def Let_def split: if_splits)
  show ?thesis using assms(1) d(2) unfolding sy_good_def sets m by (auto simp: entries)
qed

lemma sy_detach_good:
  assumes "sy_good s" and "sy_entries s i = Some e"
  shows "\<exists>s'. sy_detach i s = (Inr (), s') \<and> sy_good s' \<and> sy_entries s' = (sy_entries s)(i := None)"
proof -
  obtain s' where s': "sy_detach i s = (Inr (), s')" using assms(2) by (simp add: sy_detach_def Let_def)
  have entries: "sy_entries s' = (sy_entries s)(i := None)" "sy_next_id s' = sy_next_id s"
    using s' assms(2) by (auto simp: sy_detach_def Let_def split: if_splits)
  let ?b = "se_is_enter e" and ?nr = "se_sys_nr e"
  have m: "sy_match s' b n = (if b = ?b \<and> n = ?nr then sy_match s b n - {i} else sy_match s b n)" for b n
    using assms(2) by (auto simp: sy_match_def entries)
  have sets: "sy_global_enter s' = (if ?b \<and> ?nr = -1 then sy_global_enter s - {i} else sy_global_enter s)"
    "sy_global_exit s' = (if \<not> ?b \<and> ?nr = -1 then sy_global_exit s - {i} else sy_global_exit s)"
    "sy_enter s' n = (if ?b \<and> ?nr \<noteq> -1 \<and> n = ?nr then sy_enter s n - {i} else sy_enter s n)"
    "sy_exit s' n = (if \<not> ?b \<and> ?nr \<noteq> -1 \<and> n = ?nr then sy_exit s n - {i} else sy_exit s n)" for n
    using s' assms(2) by (auto simp: sy_detach_def Let_def split: if_splits)
  have "sy_good s'" using assms(1) unfolding sy_good_def sets m by (auto simp: entries)
  then show ?thesis using s' entries by blast
qed

interpretation sys: attach_manager sy_create sy_detach sy_live sy_good
proof
  show "sy_good s' \<and> (case r of Inl f \<Rightarrow> sy_live s' = sy_live s
      | Inr i \<Rightarrow> sy_live s i = None \<and> (\<exists>cb'. cb_prog cb' = cb_prog cb \<and> sy_live s' = (sy_live s)(i \<mapsto> cb')))"
    if g: "sy_good s" and c: "sy_create cb d t s = (r, s')" for s cb d t r s'
  proof (cases r)
    case (Inl f)
    then show ?thesis using sy_create_good [OF g c] sy_create_Inl [of cb d t s f s'] c by simp
  next
    case (Inr i)
    then obtain nr b where i: "i = sy_next_id s"
      "sy_entries s' = (sy_entries s)(i \<mapsto> \<lparr>se_cb = cb, se_sys_nr = nr, se_is_enter = b\<rparr>)"
      using c sy_create_Inr by metis
    then have "sy_entries s i = None" using g by (cases "sy_entries s i") (auto simp: sy_good_def)
    then show ?thesis using sy_create_good [OF g c] sy_live_upd [OF i(2)] Inr by (auto simp: sy_live_def [of s])
  qed
  show "\<exists>s'. sy_detach i s = (Inr (), s') \<and> sy_good s' \<and> sy_live s' = (sy_live s)(i := None)"
    if "sy_good s" "sy_live s i = Some cb" for s i cb
    using sy_detach_good [OF that(1), of i] that(2) sy_live_upd [of _ s i None] by (auto simp: sy_live_def [of s])
qed

subsection \<open>What a dispatch runs\<close>

primrec run_cbs ::
  "(ebpf_cb \<Rightarrow> sys_event \<Rightarrow> 'w \<Rightarrow> 64 word option \<times> 'w) \<Rightarrow> sys_event \<Rightarrow> ebpf_cb list \<Rightarrow> 64 word option \<Rightarrow> 'w \<Rightarrow>
   64 word option \<times> 'w"
where
  "run_cbs run ev [] ovr w = (ovr, w)"
| "run_cbs run ev (cb # cbs) ovr w = (case run cb ev w of (v, w') \<Rightarrow>
     run_cbs run ev cbs (case v of None \<Rightarrow> ovr | Some _ \<Rightarrow> v) w')"

text \<open>
  The programs \<open>enters\<close> run first. If one of them overrides the result, the system call is not
  made and nothing else runs; otherwise the call is made, the programs \<open>exits\<close> see its result,
  and the last override among them replaces it.
\<close>

definition dispatch_spec ::
  "(ebpf_cb \<Rightarrow> sys_event \<Rightarrow> 'w \<Rightarrow> 64 word option \<times> 'w) \<Rightarrow> (int \<Rightarrow> 64 word list \<Rightarrow> 'w \<Rightarrow> 64 word \<times> 'w) \<Rightarrow>
   ebpf_cb list \<Rightarrow> ebpf_cb list \<Rightarrow> int \<Rightarrow> 64 word list \<Rightarrow> 'w \<Rightarrow> 64 word \<times> 'w"
where
  "dispatch_spec run orig enters exits nr args w = (case run_cbs run (Sys_Enter nr args) enters None w of
       (Some v, w1) \<Rightarrow> (v, w1)
     | (None, w1) \<Rightarrow> (case orig nr args w1 of (ret, w2) \<Rightarrow>
         (case run_cbs run (Sys_Exit nr ret) exits None w2 of
            (v, w3) \<Rightarrow> (case v of Some x \<Rightarrow> x | None \<Rightarrow> ret, w3))))"

lemma run_cbs_append:
  "run_cbs run ev (xs @ ys) ovr w = (case run_cbs run ev xs ovr w of (v, w') \<Rightarrow> run_cbs run ev ys v w')"
  by (induction xs arbitrary: ovr w) (auto split: prod.splits)

definition cbs_of :: "syscall_trace \<Rightarrow> int list \<Rightarrow> ebpf_cb list" where
  "cbs_of s is = map (\<lambda>i. se_cb (the (sy_entries s i))) is"

lemma cbs_of_append: "cbs_of s (xs @ ys) = cbs_of s xs @ cbs_of s ys"
  by (simp add: cbs_of_def)

lemma run_entries_cbs:
  "set is \<subseteq> dom (sy_entries s) \<Longrightarrow> run_entries run ev (sy_entries s) is ovr w = Inr (run_cbs run ev (cbs_of s is) ovr w)"
  by (induction "is" arbitrary: ovr w) (auto simp: cbs_of_def split: prod.splits option.splits)

text \<open>The states an implementation goes through.\<close>

inductive sy_reach :: "syscall_trace \<Rightarrow> bool" where
  new: "sy_reach sy_new"
| create: "sy_reach s \<Longrightarrow> sy_reach (snd (sy_create cb d t s))"
| detach: "sy_reach s \<Longrightarrow> sy_reach (snd (sy_detach i s))"

lemma sy_reach_good: "sy_reach s \<Longrightarrow> sy_good s"
proof (induction rule: sy_reach.induct)
  case new
  then show ?case by (rule sy_good_new)
next
  case (create s cb d t)
  then show ?case using sy_create_good [OF create.IH] by (metis prod.collapse)
next
  case (detach s i)
  show ?case
  proof (cases "sy_entries s i")
    case None
    then show ?thesis using detach.IH by (simp add: sy_detach_def)
  next
    case (Some e)
    then show ?thesis using sy_detach_good [OF detach.IH] by fastforce
  qed
qed

lemma sy_match_entries: "sy_good s \<Longrightarrow> sy_match s b nr \<subseteq> dom (sy_entries s) \<and> finite (sy_match s b nr)"
  by (auto simp: sy_good_def sy_match_def intro: finite_subset [of _ "dom (sy_entries s)"])

subsection \<open>Properties\<close>

text \<open>
  C14: the dispatcher runs the attached programs. In every state reached by attaching and
  detaching, for a system call number of the table that is not an exit, a dispatch runs exactly
  the programs attached to the entry of that number and then those attached to every entry,
  makes the call unless one of them overrode its result, and runs the programs attached to the
  exit in the same way; no detached entry is touched.
\<close>

theorem dispatch_runs_attached:
  assumes "sy_reach s" and "\<forall>A. finite A \<longrightarrow> set (ord A) = A \<and> distinct (ord A)"
    and "0 \<le> nr" and "nr < 512" and "nr \<noteq> 60" and "nr \<noteq> 231"
  shows "dispatch_syscall run orig ord nr args s w = Inr (dispatch_spec run orig
    (cbs_of s (ord (sy_match s True nr) @ ord (sy_match s True (-1))))
    (cbs_of s (ord (sy_match s False nr) @ ord (sy_match s False (-1)))) nr args w)"
proof -
  have g: "sy_good s" by (rule sy_reach_good [OF assms(1)])
  have sub: "set (ord (sy_match s b n)) \<subseteq> dom (sy_entries s)" for b n
    using assms(2) sy_match_entries [OF g, of b n] by auto
  have sets: "sy_enter s nr = sy_match s True nr" "sy_exit s nr = sy_match s False nr"
    "sy_global_enter s = sy_match s True (-1)" "sy_global_exit s = sy_match s False (-1)"
    using g assms(3) by (auto simp: sy_good_def)
  show ?thesis using assms(3-6)
    by (simp add: dispatch_syscall_def dispatch_spec_def sets run_entries_cbs [OF sub] and_then_def cbs_of_append
        run_cbs_append split: prod.split option.split)
qed

text \<open>A system call number outside the arrays is not refused.\<close>

lemma dispatch_out_of_range: "512 \<le> nr \<Longrightarrow> dispatch_syscall run orig ord nr args s w = Inl UB"
  by (simp add: dispatch_syscall_def)

theorem dispatch_runs_attached_witness:
  "dispatch_syscall (\<lambda>cb ev n. (Some (of_nat (cb_prog cb)), Suc n)) (\<lambda>nr args n. (0, n)) sorted_list_of_set 1 []
     (snd (sy_create (Run_Prog 7 None) (Syscall_Data 1 True) 2 sy_new)) (0 :: nat) = Inr (7, 1)"
proof -
  let ?s = "snd (sy_create (Run_Prog 7 None) (Syscall_Data 1 True) 2 sy_new)"
  have s: "sy_entries ?s = [1 \<mapsto> \<lparr>se_cb = Run_Prog 7 None, se_sys_nr = 1, se_is_enter = True\<rparr>]"
    by (simp add: sy_create_def sy_new_def ATTACH_SYSCALL_TRACE_def)
  have m: "sy_match ?s True 1 = {1}" "sy_match ?s True (-1) = {}" by (auto simp: sy_match_def s split: if_splits)
  have r: "sy_reach ?s" by (intro sy_reach.intros)
  have o: "\<forall>A. finite A \<longrightarrow> set (sorted_list_of_set A) = A \<and> distinct (sorted_list_of_set (A :: int set))" by simp
  show ?thesis
    by (subst dispatch_runs_attached [OF r o]) (simp_all add: dispatch_spec_def m cbs_of_def s)
qed

end
