(* ===== verification/Frida_Attach.thy ===== *)
theory Frida_Attach
  imports Attach_Base
begin

text \<open>
  \<open>frida_attach_impl\<close>: programs attached to the entry or the exit of functions, or in place of a
  function. The model has the two tables of the implementation, the entries by id and the
  internal entries by function address, with the pointers between them as ids and addresses.

  Frida's interceptor, the file system and the memory map of the process are outside the model;
  \<open>frida_env\<close> holds what the code asks of them. \<open>curr_thread_override_return_callback\<close> of the thread is an argument and a
  result of a call; the saved CPU context, which only a stack walk reads, is left out.
\<close>

text \<open>
  \<open>gum f\<close> is whether installing the hook at the address \<open>f\<close> succeeds, \<open>module_base\<close> the base address
  of a module or 0, \<open>proc_maps\<close> the path in each line of \<open>/proc/self/maps\<close> that has one. \<open>equivalent\<close>
  raises for paths that cannot be compared.
\<close>

record frida_env =
  gum :: "nat \<Rightarrow> bool"
  module_base :: "string \<Rightarrow> nat"
  proc_maps :: "string option list"
  file_exists :: "string \<Rightarrow> bool"
  equivalent :: "string \<Rightarrow> string \<Rightarrow> bool res"
  exec_path :: string

definition ATTACH_UPROBE :: int where "ATTACH_UPROBE = 6"
definition ATTACH_URETPROBE :: int where "ATTACH_URETPROBE = 7"
definition ATTACH_UPROBE_OVERRIDE :: int where "ATTACH_UPROBE_OVERRIDE = 1008"
definition ATTACH_UREPLACE :: int where "ATTACH_UREPLACE = 1009"

lemmas attach_types = ATTACH_UPROBE_def ATTACH_URETPROBE_def ATTACH_UPROBE_OVERRIDE_def ATTACH_UREPLACE_def

text \<open>\<open>Direct_Cb k n\<close> is the \<open>k\<close>-th alternative of \<open>callback_variant\<close>, a function \<open>n\<close> of the user.\<close>

datatype frida_cb =
    Direct_Cb nat nat
  | Ebpf_Args ebpf_cb int

definition from_cb_idx_to_attach_type :: "nat \<Rightarrow> int" where
  "from_cb_idx_to_attach_type idx =
     (if idx = 0 then ATTACH_UPROBE else if idx = 2 then ATTACH_UPROBE_OVERRIDE else if idx = 1 then ATTACH_URETPROBE else -1)"

fun cb_type :: "frida_cb \<Rightarrow> int" where
  "cb_type (Direct_Cb k n) = from_cb_idx_to_attach_type k"
| "cb_type (Ebpf_Args cb t) = t"

record frida_entry =
  fe_cb :: frida_cb
  fe_function :: nat

text \<open>How the function is hooked: by a listener, by a replacement, or not at all.\<close>

datatype gum_hook = Listener | Replacement | No_Hook

text \<open>
  \<open>fi_object\<close> tells the objects apart that are created for one function: it is the id of the attach that
  created the object. The last three fields are what \<open>override_return_callback\<close> stores.
\<close>

record frida_internal =
  fi_object :: int
  fi_user :: "int list"
  fi_hook :: gum_hook
  fi_is_overrided :: bool
  fi_user_ret :: "64 word"
  fi_user_ret_ctx :: "64 word"

record frida_attach =
  fr_next_id :: int
  fr_attaches :: "int \<rightharpoonup> frida_entry"
  fr_internal :: "nat \<rightharpoonup> frida_internal"

definition fr_new :: frida_attach where
  "fr_new = \<lparr>fr_next_id = 1, fr_attaches = Map.empty, fr_internal = Map.empty\<rparr>"

subsection \<open>The internal entries\<close>

text \<open>The constructor raises when the hook cannot be installed.\<close>

definition fi_init :: "int \<Rightarrow> gum_hook \<Rightarrow> frida_internal" where
  "fi_init obj hook = \<lparr>fi_object = obj, fi_user = [], fi_hook = hook, fi_is_overrided = False, fi_user_ret = 0, fi_user_ret_ctx = 0\<rparr>"

definition fi_new :: "frida_env \<Rightarrow> int \<Rightarrow> nat \<Rightarrow> int \<Rightarrow> frida_internal res" where
  "fi_new env obj function basic_attach_type =
     (if basic_attach_type = ATTACH_UPROBE \<or> basic_attach_type = ATTACH_URETPROBE then
        (if gum env function then Inr (fi_init obj Listener) else Inl Throw)
      else if basic_attach_type = ATTACH_UPROBE_OVERRIDE then
        (if gum env function then Inr (fi_init obj Replacement) else Inl Throw)
      else Inr (fi_init obj No_Hook))"

text \<open>The entries of a function with a type, in the order of \<open>user_attaches\<close>.\<close>

definition fi_entries :: "int \<Rightarrow> frida_attach \<Rightarrow> frida_internal \<Rightarrow> int list" where
  "fi_entries t s it =
     filter (\<lambda>i. case fr_attaches s i of Some e \<Rightarrow> cb_type (fe_cb e) = t | None \<Rightarrow> False) (fi_user it)"

definition has_override :: "frida_attach \<Rightarrow> frida_internal \<Rightarrow> bool" where
  "has_override s it = (fi_entries ATTACH_UPROBE_OVERRIDE s it \<noteq> [])"

definition has_uprobe_or_uretprobe :: "frida_attach \<Rightarrow> frida_internal \<Rightarrow> bool" where
  "has_uprobe_or_uretprobe s it \<longleftrightarrow> fi_entries ATTACH_UPROBE s it \<noteq> [] \<or> fi_entries ATTACH_URETPROBE s it \<noteq> []"

subsection \<open>Attaching and detaching\<close>

definition attach_at :: "frida_env \<Rightarrow> nat \<Rightarrow> frida_cb \<Rightarrow> frida_attach \<Rightarrow> int res \<times> frida_attach" where
  "attach_at env func_addr cb s =
     (if func_addr = 0 then (Inl (NegErrno EINVAL), s)
      else (case (case fr_internal s func_addr of
            None \<Rightarrow> fi_new env (fr_next_id s) func_addr (cb_type cb)
          | Some it \<Rightarrow> (if has_override s it then Inl (NegErrno EEXIST) else Inr it)) of
          Inl f \<Rightarrow> (Inl f, s)
        | Inr it \<Rightarrow>
            (let used_id = fr_next_id s in
             (Inr used_id, s\<lparr>fr_next_id := used_id + 1,
                fr_attaches := (fr_attaches s)(used_id \<mapsto> \<lparr>fe_cb = cb, fe_function = func_addr\<rparr>),
                fr_internal := (fr_internal s)(func_addr \<mapsto> it\<lparr>fi_user := fi_user it @ [used_id]\<rparr>)\<rparr>))))"

definition attach_at_with_ebpf_callback :: "frida_env \<Rightarrow> nat \<Rightarrow> ebpf_cb \<Rightarrow> int \<Rightarrow> frida_attach \<Rightarrow> int res \<times> frida_attach" where
  "attach_at_with_ebpf_callback env func_addr cb attach_type s = attach_at env func_addr (Ebpf_Args cb attach_type) s"

definition create_uprobe_at :: "frida_env \<Rightarrow> nat \<Rightarrow> nat \<Rightarrow> frida_attach \<Rightarrow> int res \<times> frida_attach" where
  "create_uprobe_at env func_addr n s = attach_at env func_addr (Direct_Cb 0 n) s"

definition create_uretprobe_at :: "frida_env \<Rightarrow> nat \<Rightarrow> nat \<Rightarrow> frida_attach \<Rightarrow> int res \<times> frida_attach" where
  "create_uretprobe_at env func_addr n s = attach_at env func_addr (Direct_Cb 1 n) s"

definition create_uprobe_override_at :: "frida_env \<Rightarrow> nat \<Rightarrow> nat \<Rightarrow> frida_attach \<Rightarrow> int res \<times> frida_attach" where
  "create_uprobe_override_at env func_addr n s = attach_at env func_addr (Direct_Cb 2 n) s"

text \<open>An unknown id is only reported in \<open>errno\<close>, with the wrong sign; the result is 0.\<close>

definition fr_detach :: "int \<Rightarrow> frida_attach \<Rightarrow> unit res \<times> frida_attach" where
  "fr_detach ident s = (case fr_attaches s ident of
       None \<Rightarrow> (Inr (), s)
     | Some ent \<Rightarrow> (case fr_internal s (fe_function ent) of
           None \<Rightarrow> (Inl UB, s)
         | Some p \<Rightarrow>
             (let us = filter (\<lambda>v. v \<noteq> ident) (fi_user p) in
              (Inr (), s\<lparr>fr_attaches := (fr_attaches s)(ident := None),
                 fr_internal := (fr_internal s)(fe_function ent :=
                   (if us = [] then None else Some (p\<lparr>fi_user := us\<rparr>)))\<rparr>))))"

definition detach_by_func_addr :: "nat \<Rightarrow> frida_attach \<Rightarrow> unit res \<times> frida_attach" where
  "detach_by_func_addr func s = (case fr_internal s func of
       None \<Rightarrow> (Inl (NegErrno ENOENT), s)
     | Some it \<Rightarrow> (Inr (), s\<lparr>fr_attaches := fr_attaches s |` (- set (fi_user it)), fr_internal := (fr_internal s)(func := None)\<rparr>))"

text \<open>The lines of the memory map in order, up to the first module that is the wanted one.\<close>

fun module_in_maps :: "frida_env \<Rightarrow> string \<Rightarrow> string option list \<Rightarrow> bool res" where
  "module_in_maps env module_name [] = Inr False"
| "module_in_maps env module_name (None # lines) = module_in_maps env module_name lines"
| "module_in_maps env module_name (Some curr_module # lines) =
     (if file_exists env curr_module then
        and_then (equivalent env module_name curr_module) (\<lambda>matched.
          if matched then Inr True else module_in_maps env module_name lines)
      else module_in_maps env module_name lines)"

text \<open>Only the failed cast to the class of the private data is caught.\<close>

definition fr_create :: "frida_env \<Rightarrow> ebpf_cb \<Rightarrow> attach_data \<Rightarrow> int \<Rightarrow> frida_attach \<Rightarrow> int res \<times> frida_attach" where
  "fr_create env cb private_data attach_type s = (case private_data of
       Frida_Data addr module_name \<Rightarrow>
         (case (if module_name \<noteq> [] then module_in_maps env module_name (proc_maps env) else Inr True) of
            Inl f \<Rightarrow> (Inl f, s)
          | Inr ok \<Rightarrow>
              (if \<not> ok then (Inl (NegErrno EINVAL), s)
               else if attach_type = ATTACH_UPROBE \<or> attach_type = ATTACH_URETPROBE \<or> attach_type = ATTACH_UPROBE_OVERRIDE
               then attach_at_with_ebpf_callback env addr cb attach_type s
               else if attach_type = ATTACH_UREPLACE
               then attach_at_with_ebpf_callback env addr (Then_Set_Retval cb) ATTACH_UPROBE_OVERRIDE s
               else (Inl (NegErrno ENOTSUP), s)))
     | _ \<Rightarrow> (Inl (NegErrno EINVAL), s))"

subsection \<open>A call of a hooked function\<close>

text \<open>
  A program or callback asks for a result of the hooked function with \<open>bpf_override_return\<close> or
  \<open>bpf_set_retval\<close>. Both call \<open>curr_thread_override_return_callback\<close> of the thread, here \<open>cur\<close>, which is empty or
  holds the lambda of one internal entry, a pointer to that object: its function and its
  \<open>fi_object\<close>. The lambda stores in the object; if the object is gone, the store is undefined. Without a lambda the helper raises.
\<close>

type_synonym entry_ptr = "nat \<times> int"

definition override_return_callback :: "entry_ptr \<Rightarrow> 64 word \<Rightarrow> 64 word \<Rightarrow> frida_attach \<Rightarrow> frida_attach res" where
  "override_return_callback this ctx v s = (case fr_internal s (fst this) of
       None \<Rightarrow> Inl UB
     | Some it \<Rightarrow>
         (if fi_object it = snd this
          then Inr (s\<lparr>fr_internal := (fr_internal s)(fst this \<mapsto>
                 it\<lparr>fi_is_overrided := True, fi_user_ret := v, fi_user_ret_ctx := ctx\<rparr>)\<rparr>)
          else Inl UB))"

definition bpftime_override_return :: "entry_ptr option \<Rightarrow> 64 word \<Rightarrow> 64 word \<Rightarrow> frida_attach \<Rightarrow> frida_attach res" where
  "bpftime_override_return cur ctx v s = (case cur of
       Some this \<Rightarrow> override_return_callback this ctx v s
     | None \<Rightarrow> Inl Throw)"

text \<open>
  \<open>run c ret w\<close> is a run of a callback in the world \<open>w\<close>: the results it asks for, each with a context (0 for \<open>bpf_set_retval\<close>),
  and the new world; \<open>ret\<close> is the result of the function that it sees at the exit.
\<close>

type_synonym 'w cb_run = "frida_cb \<Rightarrow> 64 word option \<Rightarrow> 'w \<Rightarrow> (64 word \<times> 64 word) list \<times> 'w"

primrec ask_results :: "entry_ptr option \<Rightarrow> (64 word \<times> 64 word) list \<Rightarrow> frida_attach \<Rightarrow> frida_attach res" where
  "ask_results cur [] s = Inr s"
| "ask_results cur (x # xs) s = and_then (bpftime_override_return cur (fst x) (snd x) s) (ask_results cur xs)"

definition run_callback ::
  "'w cb_run \<Rightarrow> entry_ptr option \<Rightarrow> 64 word option \<Rightarrow> frida_entry \<Rightarrow> frida_attach \<Rightarrow> 'w \<Rightarrow> (frida_attach \<times> 'w) res"
where
  "run_callback run cur ret e s w = (case run (fe_cb e) ret w of
     (xs, w') \<Rightarrow> and_then (ask_results cur xs s) (\<lambda>s'. Inr (s', w')))"

text \<open>
  What runs when the function at an address is called: with a listener the uprobes, the
  function and the uretprobes; with a replacement the first override entry, whose absence
  raises, and the function unless the entry set a result. The replacement leaves its lambda in \<open>cur\<close>;
  nothing in frida's part takes it out. A pointer to an entry that no longer
  exists is undefined. \<open>func\<close> is a function that calls no hooked function itself.
\<close>

primrec run_users ::
  "'w cb_run \<Rightarrow> entry_ptr option \<Rightarrow> 64 word option \<Rightarrow> int list \<Rightarrow> frida_attach \<Rightarrow> 'w \<Rightarrow> (frida_attach \<times> 'w) res"
where
  "run_users run cur ret [] s w = Inr (s, w)"
| "run_users run cur ret (i # is) s w = (case fr_attaches s i of
       None \<Rightarrow> Inl UB
     | Some e \<Rightarrow> and_then (run_callback run cur ret e s w) (\<lambda>(s', w'). run_users run cur ret is s' w'))"

definition uprobe_listener_on_enter ::
  "'w cb_run \<Rightarrow> entry_ptr option \<Rightarrow> frida_internal \<Rightarrow> frida_attach \<Rightarrow> 'w \<Rightarrow> (frida_attach \<times> 'w) res"
where
  "uprobe_listener_on_enter run cur hook_entry s w = run_users run cur None (fi_entries ATTACH_UPROBE s hook_entry) s w"

definition uprobe_listener_on_leave ::
  "'w cb_run \<Rightarrow> entry_ptr option \<Rightarrow> 64 word \<Rightarrow> frida_internal \<Rightarrow> frida_attach \<Rightarrow> 'w \<Rightarrow> (frida_attach \<times> 'w) res"
where
  "uprobe_listener_on_leave run cur ret hook_entry s w =
     run_users run cur (Some ret) (fi_entries ATTACH_URETPROBE s hook_entry) s w"

definition run_filter_callback ::
  "'w cb_run \<Rightarrow> entry_ptr option \<Rightarrow> frida_internal \<Rightarrow> frida_attach \<Rightarrow> 'w \<Rightarrow> (frida_attach \<times> 'w) res"
where
  "run_filter_callback run cur hook_entry s w = (case fi_entries ATTACH_UPROBE_OVERRIDE s hook_entry of
       [] \<Rightarrow> Inl Throw
     | i # _ \<Rightarrow> (case fr_attaches s i of None \<Rightarrow> Inl UB | Some e \<Rightarrow> run_callback run cur None e s w))"

type_synonym 'w call_end = "(64 word \<times> frida_attach \<times> entry_ptr option \<times> 'w) res"

definition override_handler ::
  "'w cb_run \<Rightarrow> ('w \<Rightarrow> 64 word \<times> 'w) \<Rightarrow> nat \<Rightarrow> frida_internal \<Rightarrow> frida_attach \<Rightarrow> 'w \<Rightarrow> 'w call_end"
where
  "override_handler run func function hook_entry s w =
     (let s = s\<lparr>fr_internal := (fr_internal s)(function \<mapsto> hook_entry\<lparr>fi_is_overrided := False\<rparr>)\<rparr>;
          cur = Some (function, fi_object hook_entry) in
      and_then (run_filter_callback run cur hook_entry s w) (\<lambda>(s, w).
        case fr_internal s function of
          None \<Rightarrow> Inl UB
        | Some it \<Rightarrow> Inr (if fi_is_overrided it then (fi_user_ret it, s, cur, w)
            else (case func w of (ret, w') \<Rightarrow> (ret, s, cur, w')))))"

definition frida_call ::
  "'w cb_run \<Rightarrow> ('w \<Rightarrow> 64 word \<times> 'w) \<Rightarrow> nat \<Rightarrow> frida_attach \<Rightarrow> entry_ptr option \<Rightarrow> 'w \<Rightarrow> 'w call_end"
where
  "frida_call run func addr s cur w =
     (let unhooked = (case func w of (ret, w') \<Rightarrow> Inr (ret, s, cur, w')) in
      case fr_internal s addr of
        None \<Rightarrow> unhooked
      | Some it \<Rightarrow> (case fi_hook it of
            Listener \<Rightarrow>
              and_then (uprobe_listener_on_enter run cur it s w) (\<lambda>(s1, w1).
                case func w1 of (ret, w2) \<Rightarrow>
                  and_then (uprobe_listener_on_leave run cur ret it s1 w2) (\<lambda>(s3, w3). Inr (ret, s3, cur, w3)))
          | Replacement \<Rightarrow> override_handler run func addr it s w
          | No_Hook \<Rightarrow> unhooked))"

lemmas frida_call_defs = frida_call_def override_handler_def run_filter_callback_def uprobe_listener_on_enter_def
  uprobe_listener_on_leave_def run_callback_def

subsection \<open>Private data\<close>

definition resolve_function_addr_by_module_offset :: "frida_env \<Rightarrow> string \<Rightarrow> nat \<Rightarrow> nat res" where
  "resolve_function_addr_by_module_offset env module_name func_offset =
     and_then (equivalent env module_name (exec_path env)) (\<lambda>same.
       let module_base_addr = (if same then module_base env [] else module_base env module_name) in
       Inr (if module_base_addr = 0 then 0 else (module_base_addr + func_offset) mod 2 ^ 64))"

text \<open>
  \<open>initialize_from_string\<close>: a decimal address, or the name of a module and an offset behind the
  last colon.
\<close>

definition after_last_colon :: "string \<Rightarrow> string" where
  "after_last_colon sv = rev (takeWhile (\<lambda>c. c \<noteq> CHR '':'') (rev sv))"

definition frida_data_from_string :: "frida_env \<Rightarrow> string \<Rightarrow> attach_data res" where
  "frida_data_from_string env sv =
     (if CHR '':'' \<notin> set sv then and_then (stoul sv) (\<lambda>addr. Inr (Frida_Data addr []))
      else
        (let offset_part = after_last_colon sv; module_part = take (length sv - length offset_part - 1) sv in
         if offset_part = [] then Inl (NegErrno EINVAL)
         else and_then (stoul offset_part) (\<lambda>offset.
           and_then (resolve_function_addr_by_module_offset env module_part offset) (\<lambda>addr.
             Inr (Frida_Data addr module_part)))))"

subsection \<open>Registers\<close>

text \<open>The x86-64 registers of a program's context and of frida's.\<close>

record pt_regs =
  pt_r15 :: "64 word"  pt_r14 :: "64 word"  pt_r13 :: "64 word"  pt_r12 :: "64 word"
  pt_bp :: "64 word"  pt_bx :: "64 word"  pt_r11 :: "64 word"  pt_r10 :: "64 word"
  pt_r9 :: "64 word"  pt_r8 :: "64 word"  pt_ax :: "64 word"  pt_cx :: "64 word"
  pt_dx :: "64 word"  pt_si :: "64 word"  pt_di :: "64 word"  pt_orig_ax :: "64 word"
  pt_ip :: "64 word"  pt_cs :: "64 word"  pt_flags :: "64 word"  pt_sp :: "64 word"  pt_ss :: "64 word"

record gum_context =
  g_rip :: "64 word"
  g_r15 :: "64 word"  g_r14 :: "64 word"  g_r13 :: "64 word"  g_r12 :: "64 word"
  g_r11 :: "64 word"  g_r10 :: "64 word"  g_r9 :: "64 word"  g_r8 :: "64 word"
  g_rdi :: "64 word"  g_rsi :: "64 word"  g_rbp :: "64 word"  g_rsp :: "64 word"
  g_rbx :: "64 word"  g_rdx :: "64 word"  g_rcx :: "64 word"  g_rax :: "64 word"

definition convert_gum_cpu_context_to_pt_regs :: "gum_context \<Rightarrow> pt_regs \<Rightarrow> pt_regs" where
  "convert_gum_cpu_context_to_pt_regs c regs = regs\<lparr>pt_ip := g_rip c,
     pt_r15 := g_r15 c, pt_r14 := g_r14 c, pt_r13 := g_r13 c, pt_r12 := g_r12 c, pt_r11 := g_r11 c, pt_r10 := g_r10 c,
     pt_r9 := g_r9 c, pt_r8 := g_r8 c, pt_di := g_rdi c, pt_si := g_rsi c, pt_bp := g_rbp c, pt_sp := g_rsp c,
     pt_bx := g_rbx c, pt_dx := g_rdx c, pt_cx := g_rcx c, pt_ax := g_rax c\<rparr>"

definition convert_pt_regs_to_gum_cpu_context :: "pt_regs \<Rightarrow> gum_context \<Rightarrow> gum_context" where
  "convert_pt_regs_to_gum_cpu_context regs c = c\<lparr>g_rip := pt_ip regs,
     g_r15 := pt_r15 regs, g_r14 := pt_r14 regs, g_r13 := pt_r13 regs, g_r12 := pt_r12 regs, g_r11 := pt_r11 regs,
     g_r10 := pt_r10 regs, g_r9 := pt_r9 regs, g_r8 := pt_r8 regs, g_rdi := pt_di regs, g_rsi := pt_si regs,
     g_rbp := pt_bp regs, g_rsp := pt_sp regs, g_rbx := pt_bx regs, g_rdx := pt_dx regs, g_rcx := pt_cx regs, g_rax := pt_ax regs\<rparr>"

lemma regs_round_trip:
  "convert_pt_regs_to_gum_cpu_context (convert_gum_cpu_context_to_pt_regs c regs) c' = c"
  by (simp add: convert_gum_cpu_context_to_pt_regs_def convert_pt_regs_to_gum_cpu_context_def)

subsection \<open>The tables agree\<close>

definition fr_users :: "frida_attach \<Rightarrow> nat \<Rightarrow> int list" where
  "fr_users s a = (case fr_internal s a of None \<Rightarrow> [] | Some it \<Rightarrow> fi_user it)"

definition fr_at :: "frida_attach \<Rightarrow> nat \<Rightarrow> int set" where
  "fr_at s a = {i. \<exists>e. fr_attaches s i = Some e \<and> fe_function e = a}"

definition fr_good :: "frida_attach \<Rightarrow> bool" where
  "fr_good s \<longleftrightarrow> (\<forall>i. fr_attaches s i \<noteq> None \<longrightarrow> i < fr_next_id s) \<and>
     (\<forall>a. sorted_wrt (<) (fr_users s a) \<and> set (fr_users s a) = fr_at s a \<and> (fr_internal s a \<noteq> None \<longrightarrow> fr_users s a \<noteq> []))"

definition fr_live :: "frida_attach \<Rightarrow> int \<rightharpoonup> ebpf_cb" where
  "fr_live s i = (case fr_attaches s i of
       Some e \<Rightarrow> (case fe_cb e of Ebpf_Args cb t \<Rightarrow> Some cb | Direct_Cb k n \<Rightarrow> None)
     | None \<Rightarrow> None)"

lemma fr_good_new: "fr_good fr_new"
  by (simp add: fr_good_def fr_new_def fr_users_def fr_at_def)

lemma fi_new_user: "fi_new env obj a t = Inr it \<Longrightarrow> fi_user it = []"
  by (auto simp: fi_new_def fi_init_def split: if_splits)

text \<open>An attach either fails and changes nothing, or takes the next id and goes last in its function.\<close>

lemma attach_at_cases:
  assumes "attach_at env a cb s = (r, s')"
  obtains f where "r = Inl f" "s' = s"
  | "r = Inr (fr_next_id s)" "a \<noteq> 0" "fr_next_id s' = fr_next_id s + 1"
    "fr_attaches s' = (fr_attaches s)(fr_next_id s \<mapsto> \<lparr>fe_cb = cb, fe_function = a\<rparr>)"
    "fr_internal s' a \<noteq> None" "fr_users s' a = fr_users s a @ [fr_next_id s]"
    "\<And>b. b \<noteq> a \<Longrightarrow> fr_internal s' b = fr_internal s b"
  using assms by (fastforce simp: attach_at_def fr_users_def dest: fi_new_user simp: Let_def split: if_splits option.splits sum.splits)

lemma attach_at_good:
  assumes g: "fr_good s" and a: "attach_at env a cb s = (r, s')"
  shows "fr_good s'"
  using a
proof (cases rule: attach_at_cases)
  case 2
  have n: "fr_attaches s (fr_next_id s) = None" using g by (auto simp: fr_good_def)
  have lt: "i < fr_next_id s" if "i \<in> fr_at s b" for i b using that g by (auto simp: fr_good_def fr_at_def)
  have at: "fr_at s' b = (if b = a then insert (fr_next_id s) (fr_at s b) else fr_at s b)" for b
    using 2(4) n by (auto simp: fr_at_def)
  have us: "fr_users s' b = (if b = a then fr_users s b @ [fr_next_id s] else fr_users s b)" for b
    using 2(6,7) by (simp add: fr_users_def)
  have "sorted_wrt (<) (fr_users s' b) \<and> set (fr_users s' b) = fr_at s' b \<and> (fr_internal s' b \<noteq> None \<longrightarrow> fr_users s' b \<noteq> [])" for b
    using g lt [of _ a] 2(7) [of b] by (auto simp: fr_good_def at us sorted_wrt_append)
  moreover have "fr_attaches s' i \<noteq> None \<longrightarrow> i < fr_next_id s'" for i
    using g 2(3,4) by (auto simp: fr_good_def less_Suc_eq intro: order.strict_trans)
  ultimately show ?thesis by (simp add: fr_good_def)
qed (use g in simp)

lemma fr_good_internal:
  assumes "fr_good s" and "fr_attaches s i = Some e"
  shows "\<exists>p. fr_internal s (fe_function e) = Some p \<and> i \<in> set (fi_user p)"
proof -
  have "i \<in> set (fr_users s (fe_function e))" using assms by (auto simp: fr_good_def fr_at_def)
  then show ?thesis by (cases "fr_internal s (fe_function e)") (auto simp: fr_users_def)
qed

lemma fr_detach_live:
  assumes g: "fr_good s" and e: "fr_attaches s i = Some e"
  shows "\<exists>s'. fr_detach i s = (Inr (), s') \<and> fr_good s' \<and> fr_attaches s' = (fr_attaches s)(i := None)"
proof -
  obtain p where p: "fr_internal s (fe_function e) = Some p" using fr_good_internal [OF g e] by blast
  define s' where "s' = snd (fr_detach i s)"
  have d: "fr_detach i s = (Inr (), s')" "fr_attaches s' = (fr_attaches s)(i := None)" "fr_next_id s' = fr_next_id s"
    using e p by (simp_all add: s'_def fr_detach_def Let_def)
  have at: "fr_at s' b = fr_at s b - {i}" for b using d(2) by (auto simp: fr_at_def)
  have ni: "filter (\<lambda>v. v \<noteq> i) (fr_users s b) = fr_users s b" if "b \<noteq> fe_function e" for b
    using g e that by (auto simp: filter_id_conv fr_good_def fr_at_def)
  have us: "fr_users s' b = filter (\<lambda>v. v \<noteq> i) (fr_users s b)" for b
    using e p ni [of b] by (auto simp: s'_def fr_detach_def Let_def fr_users_def)
  have ne: "fr_internal s' b \<noteq> None \<longrightarrow> fr_users s' b \<noteq> []" for b
    using g e p by (auto simp: s'_def fr_detach_def Let_def fr_users_def fr_good_def)
  have "fr_good s'" using g d(2,3) ne by (auto simp: fr_good_def at us sorted_wrt_filter)
  then show ?thesis using d by blast
qed

lemma detach_by_func_addr_good:
  assumes g: "fr_good s"
  shows "fr_good (snd (detach_by_func_addr f s))"
proof (cases "fr_internal s f")
  case (Some it)
  define s' where "s' = snd (detach_by_func_addr f s)"
  have it: "set (fi_user it) = fr_at s f" using g Some by (auto simp: fr_good_def fr_users_def dest: spec [of _ f])
  have at: "fr_at s' b = (if b = f then {} else fr_at s b)" for b
    using Some it by (auto simp: s'_def detach_by_func_addr_def fr_at_def restrict_map_def split: if_splits)
  have us: "fr_users s' b = (if b = f then [] else fr_users s b)" for b
    using Some by (simp add: s'_def detach_by_func_addr_def fr_users_def)
  have "fr_attaches s' i \<noteq> None \<longrightarrow> i < fr_next_id s'" for i
    using g Some by (auto simp: s'_def detach_by_func_addr_def fr_good_def restrict_map_def split: if_splits)
  moreover have "fr_internal s' b \<noteq> None \<longrightarrow> fr_users s' b \<noteq> []" for b
    using g Some by (auto simp: s'_def detach_by_func_addr_def fr_users_def fr_good_def)
  ultimately show ?thesis using g by (auto simp: fr_good_def at us simp flip: s'_def)
qed (use g in \<open>simp add: detach_by_func_addr_def\<close>)

text \<open>The interface attaches with a type that has a hook, or fails and changes nothing.\<close>

lemma fr_create_cases:
  obtains f where "fr_create env cb d t s = (Inl f, s)"
  | a cb' t' where "fr_create env cb d t s = attach_at env a (Ebpf_Args cb' t') s" "cb_prog cb' = cb_prog cb"
    "t' \<in> {ATTACH_UPROBE, ATTACH_URETPROBE, ATTACH_UPROBE_OVERRIDE}"
proof (cases d)
  case (Frida_Data addr m)
  define ok where "ok = (if m \<noteq> [] then module_in_maps env m (proc_maps env) else Inr True)"
  have c: "fr_create env cb d t s = (case ok of Inl f \<Rightarrow> (Inl f, s) | Inr ok \<Rightarrow>
      if \<not> ok then (Inl (NegErrno EINVAL), s)
      else if t = ATTACH_UPROBE \<or> t = ATTACH_URETPROBE \<or> t = ATTACH_UPROBE_OVERRIDE then attach_at env addr (Ebpf_Args cb t) s
      else if t = ATTACH_UREPLACE then attach_at env addr (Ebpf_Args (Then_Set_Retval cb) ATTACH_UPROBE_OVERRIDE) s
      else (Inl (NegErrno ENOTSUP), s))"
    by (simp only: fr_create_def Frida_Data ok_def attach_at_with_ebpf_callback_def attach_data.case)
  show ?thesis
  proof (cases ok)
    case (Inr b)
    then show ?thesis
      using that(1) [of "NegErrno EINVAL"] that(1) [of "NegErrno ENOTSUP"] that(2) [of addr cb t]
        that(2) [of addr "Then_Set_Retval cb" ATTACH_UPROBE_OVERRIDE] c
      by (simp split: if_splits)
  qed (use that(1) c in simp)
qed (use that(1) in \<open>simp_all add: fr_create_def\<close>)

interpretation frd: attach_manager "fr_create env" fr_detach fr_live fr_good for env
proof
  show "fr_good s' \<and> (case r of Inl f \<Rightarrow> fr_live s' = fr_live s
      | Inr i \<Rightarrow> fr_live s i = None \<and> (\<exists>cb'. cb_prog cb' = cb_prog cb \<and> fr_live s' = (fr_live s)(i \<mapsto> cb')))"
    if g: "fr_good s" and c: "fr_create env cb d t s = (r, s')" for s cb d t r s'
  proof -
    show ?thesis
    proof (cases rule: fr_create_cases [of env cb d t s])
      case (2 a cb' t')
      have a: "attach_at env a (Ebpf_Args cb' t') s = (r, s')" using c 2(1) by simp
      have "fr_attaches s (fr_next_id s) = None" using g by (auto simp: fr_good_def)
      then show ?thesis using attach_at_good [OF g a] 2(2)
        by (cases rule: attach_at_cases [OF a]) (auto simp: fr_live_def fun_eq_iff)
    qed (use g c in simp)
  qed
  show "\<exists>s'. fr_detach i s = (Inr (), s') \<and> fr_good s' \<and> fr_live s' = (fr_live s)(i := None)"
    if g: "fr_good s" and l: "fr_live s i = Some cb" for s i cb
  proof -
    obtain e where e: "fr_attaches s i = Some e" using l by (auto simp: fr_live_def split: option.splits)
    show ?thesis using fr_detach_live [OF g e] by (auto simp: fr_live_def fun_eq_iff)
  qed
qed

subsection \<open>Reachable states\<close>

text \<open>Any sequence of the operations that other code calls, and of the results that calls leave in the entries.\<close>

inductive fr_reach :: "frida_env \<Rightarrow> frida_attach \<Rightarrow> bool" for env where
  fr_start: "fr_reach env fr_new"
| fr_creates: "fr_reach env s \<Longrightarrow> fr_reach env (snd (fr_create env cb d t s))"
| fr_uprobe: "fr_reach env s \<Longrightarrow> fr_reach env (snd (create_uprobe_at env a n s))"
| fr_uretprobe: "fr_reach env s \<Longrightarrow> fr_reach env (snd (create_uretprobe_at env a n s))"
| fr_override: "fr_reach env s \<Longrightarrow> fr_reach env (snd (create_uprobe_override_at env a n s))"
| fr_detaches: "fr_reach env s \<Longrightarrow> fr_reach env (snd (fr_detach i s))"
| fr_detaches_func: "fr_reach env s \<Longrightarrow> fr_reach env (snd (detach_by_func_addr a s))"
| fr_result: "fr_reach env s \<Longrightarrow> fr_internal s a = Some it \<Longrightarrow>
    fr_reach env (s\<lparr>fr_internal := (fr_internal s)(a \<mapsto> it\<lparr>fi_is_overrided := b, fi_user_ret := v, fi_user_ret_ctx := x\<rparr>)\<rparr>)"

text \<open>A replaced function has one entry, an override; every hooked function has a hook.\<close>

definition hook_ok :: "frida_attach \<Rightarrow> frida_internal \<Rightarrow> bool" where
  "hook_ok s it = (case fi_hook it of
       Listener \<Rightarrow> True
     | Replacement \<Rightarrow> (case fi_user it of
           [i] \<Rightarrow> (case fr_attaches s i of Some e \<Rightarrow> cb_type (fe_cb e) = ATTACH_UPROBE_OVERRIDE | None \<Rightarrow> False)
         | _ \<Rightarrow> False)
     | No_Hook \<Rightarrow> False)"

definition fr_hooks :: "frida_attach \<Rightarrow> bool" where
  "fr_hooks s \<longleftrightarrow> (\<forall>a it. fr_internal s a = Some it \<longrightarrow> hook_ok s it)"

text \<open>The entries of a hook alone decide about it.\<close>

lemma hook_ok_cong:
  "hook_ok s it \<Longrightarrow> (\<And>i. i \<in> set (fi_user it) \<Longrightarrow> fr_attaches s' i = fr_attaches s i) \<Longrightarrow> hook_ok s' it"
  by (auto simp: hook_ok_def split: gum_hook.splits list.splits)

lemma hook_ok_listener: "hook_ok s it \<Longrightarrow> \<not> has_override s it \<Longrightarrow> fi_hook it = Listener"
  by (auto simp: hook_ok_def has_override_def fi_entries_def split: gum_hook.splits list.splits option.splits)

lemma fr_good_user:
  "fr_good s \<Longrightarrow> fr_internal s a = Some it \<Longrightarrow> i \<in> set (fi_user it) \<longleftrightarrow> (\<exists>e. fr_attaches s i = Some e \<and> fe_function e = a)"
  unfolding fr_good_def by (drule conjunct2, drule spec [of _ a]) (simp add: fr_users_def fr_at_def)

lemma attach_at_hooks:
  assumes g: "fr_good s" "fr_hooks s" and a: "attach_at env a cb s = (r, s')"
    and t: "cb_type cb \<in> {ATTACH_UPROBE, ATTACH_URETPROBE, ATTACH_UPROBE_OVERRIDE}"
  shows "fr_hooks s'"
  using a
proof (cases rule: attach_at_cases)
  case 2
  have n: "fr_attaches s (fr_next_id s) = None" using g by (auto simp: fr_good_def)
  have other: "hook_ok s' it" if b: "b \<noteq> a" and it: "fr_internal s' b = Some it" for b it
  proof -
    have s: "fr_internal s b = Some it" using b it 2(7) by simp
    then have "hook_ok s it" using g(2) by (simp add: fr_hooks_def)
    then show ?thesis
    proof (rule hook_ok_cong)
      show "fr_attaches s' i = fr_attaches s i" if "i \<in> set (fi_user it)" for i
        using that fr_good_user [OF g(1) s, of i] 2(4) n by auto
    qed
  qed
  have same: "hook_ok s' it" if i: "fr_internal s' a = Some it" for it
  proof (cases "fr_internal s a")
    case None
    then show ?thesis using a i t 2(1)
      by (auto simp: attach_at_def fi_new_def fi_init_def attach_types Let_def hook_ok_def split: if_splits)
  next
    case (Some p)
    have o: "\<not> has_override s p" using a Some 2(1) by (auto simp: attach_at_def split: if_splits)
    have "fi_hook it = fi_hook p" using a Some i o 2(1,2) by (auto simp: attach_at_def Let_def)
    moreover have "fi_hook p = Listener" using g(2) Some o hook_ok_listener [of s p] by (simp add: fr_hooks_def)
    ultimately show ?thesis by (simp add: hook_ok_def)
  qed
  show ?thesis unfolding fr_hooks_def using other same by metis
qed (use g in simp)

lemma attach_at_keeps:
  assumes "fr_good s \<and> fr_hooks s" and "cb_type cb \<in> {ATTACH_UPROBE, ATTACH_URETPROBE, ATTACH_UPROBE_OVERRIDE}"
  shows "fr_good (snd (attach_at env a cb s)) \<and> fr_hooks (snd (attach_at env a cb s))"
  using assms attach_at_good [OF _ prod.collapse [symmetric]] attach_at_hooks [OF _ _ prod.collapse [symmetric]] by blast

lemma fr_detach_hooks:
  assumes "fr_good s" and "fr_hooks s"
  shows "fr_hooks (snd (fr_detach i s))"
proof (cases "fr_attaches s i")
  case (Some e)
  define s' where "s' = snd (fr_detach i s)"
  have "hook_ok s' it" if it: "fr_internal s' b = Some it" for b it
  proof -
    obtain q where q: "fr_internal s (fe_function e) = Some q" and i: "i \<in> set (fi_user q)"
      using fr_good_internal [OF assms(1) Some] by blast
    show ?thesis
    proof (cases "b = fe_function e")
      case True
      then have "it = q\<lparr>fi_user := filter (\<lambda>v. v \<noteq> i) (fi_user q)\<rparr>" "fi_user it \<noteq> []"
        using it q Some by (auto simp: s'_def fr_detach_def Let_def split: if_splits)
      moreover have "hook_ok s q" using assms(2) q by (simp add: fr_hooks_def)
      ultimately show ?thesis using i by (auto simp: hook_ok_def split: gum_hook.splits list.splits if_splits)
    next
      case False
      then have s: "fr_internal s b = Some it" using it q Some by (simp add: s'_def fr_detach_def Let_def)
      then have "hook_ok s it" using assms(2) by (simp add: fr_hooks_def)
      then show ?thesis
      proof (rule hook_ok_cong)
        show "fr_attaches s' k = fr_attaches s k" if "k \<in> set (fi_user it)" for k
          using that False fr_good_user [OF assms(1) s, of k] Some q by (auto simp: s'_def fr_detach_def Let_def)
      qed
    qed
  qed
  then show ?thesis by (simp add: fr_hooks_def s'_def)
qed (use assms in \<open>simp add: fr_detach_def\<close>)

lemma detach_by_func_addr_hooks:
  assumes "fr_good s" and "fr_hooks s"
  shows "fr_hooks (snd (detach_by_func_addr f s))"
proof (cases "fr_internal s f")
  case (Some p)
  define s' where "s' = snd (detach_by_func_addr f s)"
  have "hook_ok s' it" if it: "fr_internal s' b = Some it" for b it
  proof -
    have b: "b \<noteq> f" "fr_internal s b = Some it" using it Some by (auto simp: s'_def detach_by_func_addr_def split: if_splits)
    then have "hook_ok s it" using assms(2) by (simp add: fr_hooks_def)
    then show ?thesis
    proof (rule hook_ok_cong)
      show "fr_attaches s' i = fr_attaches s i" if "i \<in> set (fi_user it)" for i
        using that b(1) fr_good_user [OF assms(1) b(2), of i] fr_good_user [OF assms(1) Some, of i]
        by (auto simp: s'_def detach_by_func_addr_def Some restrict_map_def)
    qed
  qed
  then show ?thesis by (simp add: fr_hooks_def s'_def)
qed (use assms in \<open>simp add: detach_by_func_addr_def\<close>)

text \<open>A result that is left in an entry changes nothing else.\<close>

definition with_result :: "nat \<Rightarrow> bool \<Rightarrow> 64 word \<Rightarrow> 64 word \<Rightarrow> frida_attach \<Rightarrow> frida_attach" where
  "with_result a b v x s = (case fr_internal s a of
       Some it \<Rightarrow> s\<lparr>fr_internal := (fr_internal s)(a \<mapsto> it\<lparr>fi_is_overrided := b, fi_user_ret := v, fi_user_ret_ctx := x\<rparr>)\<rparr>
     | None \<Rightarrow> s)"

lemma with_result_simps [simp]:
  "fr_attaches (with_result a b v x s) = fr_attaches s" "fr_next_id (with_result a b v x s) = fr_next_id s"
  "fr_users (with_result a b v x s) = fr_users s" "fr_at (with_result a b v x s) = fr_at s"
  "fr_internal (with_result a b v x s) c = None \<longleftrightarrow> fr_internal s c = None"
  by (auto simp: with_result_def fr_users_def fr_at_def fun_eq_iff split: option.split)

lemma with_result_internal:
  "fr_internal (with_result a b v x s) c = Some it' \<Longrightarrow>
   \<exists>it. fr_internal s c = Some it \<and> fi_user it' = fi_user it \<and> fi_hook it' = fi_hook it \<and> fi_object it' = fi_object it"
  by (auto simp: with_result_def split: option.splits if_splits)

lemma hook_ok_eq:
  "hook_ok s it \<Longrightarrow> fi_hook it' = fi_hook it \<Longrightarrow> fi_user it' = fi_user it \<Longrightarrow> fr_attaches s' = fr_attaches s \<Longrightarrow> hook_ok s' it'"
  by (auto simp: hook_ok_def split: gum_hook.splits list.splits)

lemma with_result_keeps:
  assumes "fr_good s \<and> fr_hooks s"
  shows "fr_good (with_result a b v x s) \<and> fr_hooks (with_result a b v x s)"
proof
  show "fr_good (with_result a b v x s)" using assms unfolding fr_good_def with_result_simps by blast
  have "hook_ok (with_result a b v x s) it'" if i: "fr_internal (with_result a b v x s) c = Some it'" for c it'
  proof -
    obtain it where it: "fr_internal s c = Some it" "fi_user it' = fi_user it" "fi_hook it' = fi_hook it"
      using with_result_internal [OF i] by blast
    then show ?thesis using assms hook_ok_eq [of s it it'] by (simp add: fr_hooks_def)
  qed
  then show "fr_hooks (with_result a b v x s)" by (simp add: fr_hooks_def)
qed

lemma fr_reach_good: "fr_reach env s \<Longrightarrow> fr_good s \<and> fr_hooks s"
proof (induction rule: fr_reach.induct)
  case fr_start
  then show ?case using fr_good_new by (simp add: fr_hooks_def fr_new_def)
next
  case (fr_creates s cb d t)
  show ?case
    by (cases rule: fr_create_cases [of env cb d t s]) (use fr_creates.IH attach_at_keeps [of s] in auto)
next
  case (fr_detaches s i)
  have "fr_good (snd (fr_detach i s))"
    using fr_detaches.IH fr_detach_live [of s i] by (cases "fr_attaches s i") (auto simp: fr_detach_def)
  then show ?case using fr_detaches.IH fr_detach_hooks by blast
next
  case (fr_detaches_func s a)
  then show ?case using detach_by_func_addr_good detach_by_func_addr_hooks by blast
next
  case (fr_result s a it x v b)
  then show ?case using with_result_keeps [of s a b v x] by (simp add: with_result_def)
qed (auto intro!: attach_at_keeps simp: create_uprobe_at_def create_uretprobe_at_def create_uprobe_override_at_def
      from_cb_idx_to_attach_type_def)

subsection \<open>What a call runs\<close>

text \<open>The callbacks of a type on a function, in the order they were attached, and a run of them.\<close>

definition fr_cbs :: "frida_attach \<Rightarrow> int \<Rightarrow> nat \<Rightarrow> frida_cb list" where
  "fr_cbs s t a = map (\<lambda>i. fe_cb (the (fr_attaches s i))) (sorted_list_of_set
     {i. \<exists>e. fr_attaches s i = Some e \<and> fe_function e = a \<and> cb_type (fe_cb e) = t})"

definition run_probes :: "'w cb_run \<Rightarrow> 64 word option \<Rightarrow> frida_cb list \<Rightarrow> 'w \<Rightarrow> 'w" where
  "run_probes run ret cbs w = fold (\<lambda>c w. snd (run c ret w)) cbs w"

definition replaced :: "frida_attach \<Rightarrow> nat \<Rightarrow> bool" where
  "replaced s a = (case fr_internal s a of Some it \<Rightarrow> fi_hook it = Replacement | None \<Rightarrow> False)"

definition hooked_call :: "'w cb_run \<Rightarrow> ('w \<Rightarrow> 64 word \<times> 'w) \<Rightarrow> nat \<Rightarrow> frida_attach \<Rightarrow> 'w \<Rightarrow> 64 word \<times> 'w" where
  "hooked_call run func a s w =
     (if replaced s a then
        (case run (hd (fr_cbs s ATTACH_UPROBE_OVERRIDE a)) None w of
           (xs, w1) \<Rightarrow> (if xs = [] then func w1 else (snd (last xs), w1)))
      else
        (case func (run_probes run None (fr_cbs s ATTACH_UPROBE a) w) of
           (ret, w2) \<Rightarrow> (ret, run_probes run (Some ret) (fr_cbs s ATTACH_URETPROBE a) w2)))"

text \<open>Probes ask for no result: only an override can give one.\<close>

definition probes_quiet :: "'w cb_run \<Rightarrow> bool" where
  "probes_quiet run \<longleftrightarrow> (\<forall>c ret w. cb_type c \<noteq> ATTACH_UPROBE_OVERRIDE \<longrightarrow> fst (run c ret w) = [])"

lemma fi_entries_cbs:
  assumes g: "fr_good s" and it: "fr_internal s a = Some it"
  shows "fr_cbs s t a = map (\<lambda>i. fe_cb (the (fr_attaches s i))) (fi_entries t s it)"
proof -
  have "sorted_wrt (<) (fr_users s a)" using g by (simp add: fr_good_def)
  then have "sorted_wrt (<) (fi_entries t s it)" using it by (simp add: fr_users_def fi_entries_def sorted_wrt_filter)
  moreover have "set (fi_entries t s it) = {i. \<exists>e. fr_attaches s i = Some e \<and> fe_function e = a \<and> cb_type (fe_cb e) = t}"
    using fr_good_user [OF g it] by (auto simp: fi_entries_def split: option.splits)
  ultimately show ?thesis unfolding fr_cbs_def
    by (metis sorted_list_of_set.idem_if_sorted_distinct strict_sorted_iff)
qed

lemma run_users_probes:
  assumes "\<And>i. i \<in> set is \<Longrightarrow> \<exists>e. fr_attaches s i = Some e \<and> (\<forall>w. fst (run (fe_cb e) ret w) = [])"
  shows "run_users run cur ret is s w = Inr (s, run_probes run ret (map (\<lambda>i. fe_cb (the (fr_attaches s i))) is) w)"
  using assms
proof (induction "is" arbitrary: w)
  case (Cons i "is")
  obtain e where e: "fr_attaches s i = Some e" "fst (run (fe_cb e) ret w) = []" using Cons.prems [of i] by auto
  have "run_callback run cur ret e s w = Inr (s, snd (run (fe_cb e) ret w))" using e(2) by (simp add: run_callback_def case_prod_beta)
  then show ?case using Cons e(1) by (simp add: run_probes_def)
qed (simp add: run_probes_def)

lemma fi_entries_type: "i \<in> set (fi_entries t s it) \<Longrightarrow> \<exists>e. fr_attaches s i = Some e \<and> cb_type (fe_cb e) = t"
  by (auto simp: fi_entries_def split: option.splits)

lemma run_entries_probes:
  assumes "probes_quiet run" and "t \<noteq> ATTACH_UPROBE_OVERRIDE"
  shows "run_users run cur ret (fi_entries t s it) s w =
    Inr (s, run_probes run ret (map (\<lambda>i. fe_cb (the (fr_attaches s i))) (fi_entries t s it)) w)"
  by (rule run_users_probes) (use assms fi_entries_type [of _ t s it] in \<open>fastforce simp: probes_quiet_def\<close>)

text \<open>A result that an override asks for is stored in its own entry, which lives; the last one stays.\<close>

lemma ask_results_live:
  "fr_internal s a = Some it \<Longrightarrow> ask_results (Some (a, fi_object it)) xs s =
     Inr (if xs = [] then s else with_result a True (snd (last xs)) (fst (last xs)) s)"
proof (induction xs arbitrary: s it)
  case (Cons x xs)
  let ?it = "it\<lparr>fi_is_overrided := True, fi_user_ret := snd x, fi_user_ret_ctx := fst x\<rparr>"
  let ?s = "s\<lparr>fr_internal := (fr_internal s)(a \<mapsto> ?it)\<rparr>"
  have "bpftime_override_return (Some (a, fi_object it)) (fst x) (snd x) s = Inr ?s"
    using Cons.prems by (simp add: bpftime_override_return_def override_return_callback_def)
  moreover have "fr_internal ?s a = Some ?it" "fi_object ?it = fi_object it" by simp_all
  ultimately show ?case using Cons.IH [of ?s ?it] Cons.prems by (simp add: with_result_def)
qed simp

lemma fr_reach_result: "fr_reach env s \<Longrightarrow> fr_reach env (with_result a b v x s)"
  by (cases "fr_internal s a") (auto simp: with_result_def intro: fr_result)

lemma fi_entries_live: "i \<in> set (fi_entries t s it) \<Longrightarrow> fr_attaches s i \<noteq> None"
  by (auto simp: fi_entries_def split: option.splits)

lemma no_internal_cbs:
  assumes "fr_good s" and "fr_internal s a = None"
  shows "fr_cbs s t a = []"
proof -
  have none: "{i. \<exists>e. fr_attaches s i = Some e \<and> fe_function e = a \<and> cb_type (fe_cb e) = t} = {}"
    using fr_good_internal [OF assms(1)] assms(2) by fastforce
  show ?thesis unfolding fr_cbs_def none by simp
qed

lemma override_handler_runs:
  assumes it: "fr_internal s a = Some it" and i: "fi_entries ATTACH_UPROBE_OVERRIDE s it = i # is" and e: "fr_attaches s i = Some e"
  shows "\<exists>b v x. override_handler run func a it s w = (case run (fe_cb e) None w of (xs, w1) \<Rightarrow>
    case (if xs = [] then func w1 else (snd (last xs), w1)) of
      (ret, w') \<Rightarrow> Inr (ret, with_result a b v x s, Some (a, fi_object it), w'))"
proof -
  obtain xs w1 where r: "run (fe_cb e) None w = (xs, w1)" by fastforce
  let ?s = "s\<lparr>fr_internal := (fr_internal s)(a \<mapsto> it\<lparr>fi_is_overrided := False\<rparr>)\<rparr>"
  have s: "?s = with_result a False (fi_user_ret it) (fi_user_ret_ctx it) s" using it by (simp add: with_result_def)
  have "fi_entries ATTACH_UPROBE_OVERRIDE ?s it = i # is" using i by (simp add: fi_entries_def)
  moreover have "ask_results (Some (a, fi_object it)) xs ?s =
      Inr (if xs = [] then ?s else with_result a True (snd (last xs)) (fst (last xs)) ?s)"
    using ask_results_live [of ?s a "it\<lparr>fi_is_overrided := False\<rparr>" xs] by simp
  ultimately have f: "run_filter_callback run (Some (a, fi_object it)) it ?s w =
      Inr (if xs = [] then ?s else with_result a True (snd (last xs)) (fst (last xs)) ?s, w1)"
    using e r by (simp add: run_filter_callback_def run_callback_def)
  show ?thesis
  proof (cases "xs = []")
    case True
    then have "override_handler run func a it s w = (case func w1 of
        (ret, w') \<Rightarrow> Inr (ret, with_result a False (fi_user_ret it) (fi_user_ret_ctx it) s, Some (a, fi_object it), w'))"
      using f by (simp add: override_handler_def Let_def flip: s split: prod.split)
    then show ?thesis using r True by auto
  next
    case False
    have "with_result a True (snd (last xs)) (fst (last xs)) ?s = with_result a True (snd (last xs)) (fst (last xs)) s"
      using it by (simp add: with_result_def)
    then have "override_handler run func a it s w =
        Inr (snd (last xs), with_result a True (snd (last xs)) (fst (last xs)) s, Some (a, fi_object it), w1)"
      using f False it by (simp add: override_handler_def Let_def with_result_def)
    then show ?thesis using r False by auto
  qed
qed

lemma listener_runs:
  assumes "probes_quiet run" and "fr_internal s a = Some it" and "fi_hook it = Listener" and "fr_good s"
  shows "frida_call run func a s cur w = (case hooked_call run func a s w of (r, w') \<Rightarrow> Inr (r, s, cur, w'))"
  using assms run_entries_probes [OF assms(1), of ATTACH_UPROBE] run_entries_probes [OF assms(1), of ATTACH_URETPROBE]
  by (simp add: frida_call_def uprobe_listener_on_enter_def uprobe_listener_on_leave_def hooked_call_def replaced_def
      fi_entries_cbs [OF assms(4,2)] attach_types Let_def split: prod.split)


text \<open>An environment in which every hook can be installed, and a function with two uprobes.\<close>

definition sample_frida_env :: frida_env where
  "sample_frida_env = \<lparr>gum = \<lambda>_. True, module_base = \<lambda>_. 4096, proc_maps = [Some ''/bin/app''],
     file_exists = \<lambda>_. True, equivalent = \<lambda>p q. Inr (p = q), exec_path = ''/bin/app''\<rparr>"

definition sample_frida :: frida_attach where
  "sample_frida = snd (create_uprobe_at sample_frida_env 16 5
     (snd (fr_create sample_frida_env (Run_Prog 3 None) (Frida_Data 16 []) 6 fr_new)))"

lemma sample_frida_reach: "fr_reach sample_frida_env sample_frida"
  unfolding sample_frida_def by (intro fr_uprobe fr_creates fr_start)

lemmas frida_eval = sample_frida_def sample_frida_env_def create_uprobe_at_def create_uprobe_override_at_def fr_create_def
  attach_at_with_ebpf_callback_def attach_at_def fi_new_def fr_new_def attach_types from_cb_idx_to_attach_type_def
  has_override_def fi_entries_def fi_init_def


text \<open>
  An override that is attached to a function with a uprobe or uretprobe on it gets an id, but
  never runs: every call goes on as before. It also keeps anything else from being attached there.
\<close>

theorem frida_override_after_probe:
  assumes "fr_reach env s" and "fr_internal s a \<noteq> None" and "\<not> replaced s a"
    and "create_uprobe_override_at env a n s = (Inr i, s')" and "probes_quiet run"
  shows "frida_call run func a s' cur w = (case hooked_call run func a s w of (r, w') \<Rightarrow> Inr (r, s', cur, w')) \<and>
    attach_at env a cb s' = (Inl (NegErrno EEXIST), s')"
proof -
  obtain it where it: "fr_internal s a = Some it" using assms(2) by blast
  have g: "fr_good s" and h: "hook_ok s it" using fr_reach_good [OF assms(1)] it by (auto simp: fr_hooks_def)
  have "fr_reach env s'" using fr_override [OF assms(1), of a n] assms(4) by simp
  then have g': "fr_good s'" using fr_reach_good by blast
  have l: "fi_hook it = Listener" using h assms(3) it by (auto simp: hook_ok_def replaced_def split: gum_hook.splits)
  have n: "fr_attaches s (fr_next_id s) = None" using g by (auto simp: fr_good_def)
  define it' where "it' = it\<lparr>fi_user := fi_user it @ [fr_next_id s]\<rparr>"
  have a: "a \<noteq> 0" "fr_internal s' a = Some it'"
    "fr_attaches s' = (fr_attaches s)(fr_next_id s \<mapsto> \<lparr>fe_cb = Direct_Cb 2 n, fe_function = a\<rparr>)"
    using assms(4) it by (auto simp: create_uprobe_override_at_def attach_at_def Let_def it'_def split: if_splits)
  have u: "j \<noteq> fr_next_id s" if "j \<in> set (fi_user it)" for j using that n fr_good_user [OF g it, of j] by auto
  have e: "fi_entries t s' it' = fi_entries t s it" if "t \<noteq> ATTACH_UPROBE_OVERRIDE" for t
    using that u by (auto simp: fi_entries_def it'_def a(3) from_cb_idx_to_attach_type_def intro!: filter_cong)
  have m: "fr_next_id s \<notin> set (fi_entries t s it)" for t using fi_entries_live n by blast
  have "fr_cbs s' t a = fr_cbs s t a" if "t \<noteq> ATTACH_UPROBE_OVERRIDE" for t
    using e [OF that] m a(3)
    by (auto simp: fi_entries_cbs [OF g it] fi_entries_cbs [OF g' a(2)] intro!: map_cong)
  then have c: "hooked_call run func a s' w = hooked_call run func a s w"
    using it l a(2) by (simp add: hooked_call_def replaced_def it'_def attach_types)
  have o: "has_override s' it'"
    by (simp add: has_override_def fi_entries_def it'_def a(3) from_cb_idx_to_attach_type_def)
  have "fi_hook it' = Listener" by (simp add: it'_def l)
  then show ?thesis using listener_runs [OF assms(5) a(2) _ g', of func cur w] c a(1,2) o by (simp add: attach_at_def)
qed

theorem frida_override_after_probe_witness:
  "fst (create_uprobe_override_at sample_frida_env 16 9 sample_frida) = Inr 3 \<and>
   attach_at sample_frida_env 16 (Direct_Cb 0 1) (snd (create_uprobe_override_at sample_frida_env 16 9 sample_frida)) =
     (Inl (NegErrno EEXIST), snd (create_uprobe_override_at sample_frida_env 16 9 sample_frida))"
proof -
  have f: "fst (create_uprobe_override_at sample_frida_env 16 9 sample_frida) = Inr 3"
    by (simp add: frida_eval Let_def)
  have "fr_internal sample_frida 16 \<noteq> None" "\<not> replaced sample_frida 16"
    by (simp_all add: frida_eval replaced_def Let_def)
  moreover have "probes_quiet (\<lambda>c _ w. ([], w :: unit))" by (simp add: probes_quiet_def)
  ultimately show ?thesis
    using frida_override_after_probe [OF sample_frida_reach, of 16 9 3
        "snd (create_uprobe_override_at sample_frida_env 16 9 sample_frida)" "\<lambda>c _ w. ([], w)" "\<lambda>w. (7, w)" None "()" "Direct_Cb 0 1"] f
    by (simp add: prod_eq_iff)
qed

text \<open>
  Nothing takes the lambda of an override out of the thread. Once the override ran in a thread and was detached, the lambda
  points to a destroyed object; a uprobe program that then asks for a result in this thread writes there. In a thread
  that never ran an override the same program only raises.
\<close>

theorem frida_stale_override_callback:
  assumes "fr_reach env s" and "replaced s a" and "frida_call run func a s cur w = Inr (r, s1, cur1, w1)"
    and "detach_by_func_addr a s1 = (Inr (), s2)"
    and "fr_internal s2 b = Some it" and "fi_hook it = Listener" and "fi_entries ATTACH_UPROBE s2 it = i # is"
    and "fr_attaches s2 i = Some e" and "fst (run (fe_cb e) None w1) \<noteq> []"
  shows "frida_call run func b s2 cur1 w1 = Inl UB \<and> frida_call run func b s2 None w1 = Inl Throw"
proof -
  obtain h where h: "fr_internal s a = Some h" "fi_hook h = Replacement"
    using assms(2) by (auto simp: replaced_def split: option.splits)
  have cur: "cur1 = Some (a, fi_object h)"
    using assms(3) h by (auto simp: frida_call_def override_handler_def Let_def and_then_Inr_iff split: option.splits if_splits prod.splits)
  have gone: "fr_internal s2 a = None" using assms(4) by (auto simp: detach_by_func_addr_def split: option.splits)
  obtain x xs w2 where x: "run (fe_cb e) None w1 = (x # xs, w2)" using assms(9) by (cases "run (fe_cb e) None w1") (auto simp: neq_Nil_conv)
  have "run_callback run cur1 None e s2 w1 = Inl UB" "run_callback run None None e s2 w1 = Inl Throw"
    using x gone by (simp_all add: run_callback_def cur bpftime_override_return_def override_return_callback_def)
  then show ?thesis using assms(5-8) by (simp add: frida_call_def uprobe_listener_on_enter_def)
qed

theorem frida_stale_override_callback_witness:
  "\<exists>s s1 cur1 w1 s2. replaced s 16 \<and>
     frida_call (\<lambda>c _ w. ([(0, 3)], w)) (\<lambda>w. (7, w)) 16 s None () = Inr (3, s1, cur1, w1) \<and>
     detach_by_func_addr 16 s1 = (Inr (), s2) \<and> frida_call (\<lambda>c _ w. ([(0, 3)], w)) (\<lambda>w. (7, w)) 32 s2 cur1 w1 = Inl UB"
proof -
  let ?run = "\<lambda>c _ w. ([(0, 3)], w :: unit)" and ?func = "\<lambda>w :: unit. (7 :: 64 word, w)"
  define s where "s = snd (create_uprobe_at sample_frida_env 32 5 (snd (create_uprobe_override_at sample_frida_env 16 9 fr_new)))"
  have reach: "fr_reach sample_frida_env s" unfolding s_def by (intro fr_uprobe fr_override fr_start)
  have r: "replaced s 16" by (simp add: s_def replaced_def frida_eval Let_def)
  obtain s1 cur1 w1 where c: "frida_call ?run ?func 16 s None () = Inr (3, s1, cur1, w1)"
    and s1: "fr_attaches s1 = fr_attaches s" "fr_internal s1 32 = fr_internal s 32" "\<exists>it. fr_internal s1 16 = Some it \<and> fi_user it = [1]"
    by (simp add: s_def frida_eval frida_call_defs Let_def bpftime_override_return_def override_return_callback_def)
  obtain s2 where d: "detach_by_func_addr 16 s1 = (Inr (), s2)" "fr_internal s2 32 = fr_internal s 32"
      "fr_attaches s2 2 = fr_attaches s 2"
    using s1 by (auto simp: detach_by_func_addr_def restrict_map_def)
  have i: "fr_internal s 32 = Some ((fi_init 2 Listener)\<lparr>fi_user := [2]\<rparr>)" "fr_attaches s 2 = Some \<lparr>fe_cb = Direct_Cb 0 5, fe_function = 32\<rparr>"
    by (simp_all add: s_def frida_eval Let_def)
  have "fi_entries ATTACH_UPROBE s2 ((fi_init 2 Listener)\<lparr>fi_user := [2]\<rparr>) = [2]"
    using d i by (simp add: fi_entries_def from_cb_idx_to_attach_type_def)
  then show ?thesis
    using frida_stale_override_callback [OF reach r c d(1), of 32 "(fi_init 2 Listener)\<lparr>fi_user := [2]\<rparr>" 2 "[]"] d i r c
    by (auto simp: fi_init_def)
qed

subsection \<open>The text of the private data\<close>

lemma after_last_colon_append: "CHR '':'' \<notin> set t \<Longrightarrow> after_last_colon (m @ CHR '':'' # t) = t"
proof -
  assume "CHR '':'' \<notin> set t"
  then have "takeWhile (\<lambda>c. c \<noteq> CHR '':'') (rev t @ CHR '':'' # rev m) = rev t"
    by (subst takeWhile_append2) auto
  then show ?thesis by (simp add: after_last_colon_def)
qed

text \<open>A module and an offset that are written with a colon between them are read back, also if the name has a colon.\<close>

lemma frida_data_module_offset:
  assumes "off < 2 ^ 64"
  shows "frida_data_from_string env (m @ CHR '':'' # dec_nat off) =
    and_then (resolve_function_addr_by_module_offset env m off) (\<lambda>addr. Inr (Frida_Data addr m))"
proof -
  have c: "CHR '':'' \<notin> set (dec_nat off)" using dec_nat_digits [of off] is_digit_cases by fastforce
  have ne: "dec_nat off \<noteq> []" by (subst dec_nat.simps) simp
  show ?thesis using ne
    by (simp add: frida_data_from_string_def Let_def after_last_colon_append [OF c] stoul_dec_nat [OF assms])
qed

end
