(* ===== verification/Bpf_Prog.thy ===== *)
theory Bpf_Prog
  imports Bpf_Prelude
begin

text \<open>
  \<open>bpftime_prog\<close> (\<open>bpftime_prog.cpp\<close>), a program loaded into a virtual machine, and
  \<open>bpftime_helper_group\<close> (\<open>bpf_helper.cpp\<close>), the tables of helper functions a program can call.

  The virtual machine is outside the model: \<open>vm_ops\<close> holds the calls of \<open>ebpf-vm.h\<close> the code makes,
  over any type of machines \<open>'vm\<close> and of compiled functions \<open>'fn\<close>. Helper functions are named.
\<close>

subsection \<open>Helper groups\<close>

record helper_info =
  hi_index :: nat
  hi_name :: string
  hi_fn :: string

text \<open>The \<open>std::map\<close> of a group, in the order of its keys; a key that is there already is not replaced.\<close>

type_synonym helper_group = "helper_info list"

primrec hg_insert :: "helper_info \<Rightarrow> helper_group \<Rightarrow> helper_group" where
  "hg_insert h [] = [h]"
| "hg_insert h (g # gs) =
     (if hi_index h < hi_index g then h # g # gs
      else if hi_index h = hi_index g then g # gs
      else g # hg_insert h gs)"

definition hg_find :: "nat \<Rightarrow> helper_group \<Rightarrow> helper_info option" where
  "hg_find i g = find (\<lambda>h. hi_index h = i) g"

definition hg_of_list :: "helper_info list \<Rightarrow> helper_group" where
  "hg_of_list hs = fold hg_insert hs []"

definition register_helper :: "helper_info \<Rightarrow> helper_group \<Rightarrow> unit res \<times> helper_group" where
  "register_helper info g =
     (if hi_index info > 999 then (Inl MinusOne, g)
      else (case hg_find (hi_index info) g of
          None \<Rightarrow> (Inr (), hg_insert info g)
        | Some h \<Rightarrow> (if hi_fn h \<noteq> hi_fn info then (Inl MinusOne, g) else (Inr (), g))))"

definition hg_append :: "helper_group \<Rightarrow> helper_group \<Rightarrow> unit res \<times> helper_group" where
  "hg_append another g =
     (if \<exists>h \<in> set another. hg_find (hi_index h) g \<noteq> None then (Inl MinusOne, g)
      else (Inr (), fold hg_insert another g))"

definition get_helper_ids :: "helper_group \<Rightarrow> nat list" where
  "get_helper_ids g = map hi_index g"

definition helper :: "nat \<Rightarrow> string \<Rightarrow> string \<Rightarrow> helper_info" where
  "helper i n f = \<lparr>hi_index = i, hi_name = n, hi_fn = f\<rparr>"

definition get_kernel_utils_helper_group :: helper_group where
  "get_kernel_utils_helper_group = hg_of_list
     [helper 4 ''bpf_probe_read'' ''bpftime_probe_read'',
      helper 8 ''bpf_get_smp_processor_id'' ''bpftime_get_smp_processor_id'',
      helper 28 ''bpf_csum_diff'' ''bpftime_csum_diff'',
      helper 44 ''bpf_xdp_adjust_head'' ''bpftime_xdp_adjust_head'',
      helper 65 ''bpf_xdp_adjust_tail'' ''bpftime_xdp_adjust_tail'',
      helper 113 ''bpf_probe_read_kernel'' ''bpftime_probe_read'',
      helper 112 ''bpf_probe_read_user'' ''bpftime_probe_read'',
      helper 5 ''bpf_ktime_get_ns'' ''bpftime_ktime_get_ns'',
      helper 6 ''bpf_trace_printk'' ''bpftime_trace_printk'',
      helper 7 ''bpf_get_prandom_u32'' ''bpftime_get_prandom_u32'',
      helper 14 ''bpf_get_current_pid_tgid'' ''bpftime_get_current_pid_tgid'',
      helper 15 ''bpf_get_current_uid_gid'' ''bpf_get_current_uid_gid'',
      helper 16 ''bpf_get_current_comm'' ''bpftime_get_current_comm'',
      helper 58 ''bpf_override_return'' ''bpftime_override_return'',
      helper 182 ''bpf_strncmp'' ''bpftime_strncmp'',
      helper 36 ''bpf_probe_write_user'' ''bpftime_probe_write_user'',
      helper 187 ''bpf_set_retval'' ''bpftime_set_retval'',
      helper 114 ''bpf_probe_read_str'' ''bpf_probe_read_str'',
      helper 45 ''bpf_probe_str'' ''bpf_probe_read_str'',
      helper 67 ''bpf_get_stack'' ''bpftime_get_stack'',
      helper 27 ''bpf_get_stackid'' ''bpftime_get_stackid'',
      helper 160 ''bpf_ktime_get_coarse_ns'' ''bpf_ktime_get_coarse_ns'',
      helper 131 ''bpf_ringbuf_reserve'' ''bpf_ringbuf_reserve'',
      helper 132 ''bpf_ringbuf_submit'' ''bpf_ringbuf_submit'',
      helper 133 ''bpf_ringbuf_discard'' ''bpf_ringbuf_discard'',
      helper 25 ''bpf_perf_event_output'' ''bpf_perf_event_output'',
      helper 130 ''bpf_ringbuf_output'' ''bpf_ringbuf_output'',
      helper 12 ''bpf_tail_call'' ''bpftime_tail_call'',
      helper 174 ''bpf_get_attach_cookie'' ''bpftime_get_attach_cookie'']"

definition get_shm_maps_helper_group :: helper_group where
  "get_shm_maps_helper_group = hg_of_list
     [helper 1 ''bpf_map_lookup_elem'' ''bpftime_map_lookup_elem_helper'',
      helper 2 ''bpf_map_update_elem'' ''bpftime_map_update_elem_helper'',
      helper 3 ''bpf_map_delete_elem'' ''bpftime_map_delete_elem_helper'',
      helper 87 ''bpf_map_push_elem'' ''bpftime_map_push_elem_helper'',
      helper 88 ''bpf_map_pop_elem'' ''bpftime_map_pop_elem_helper'',
      helper 89 ''bpf_map_peek_elem'' ''bpftime_map_peek_elem_helper'']"

subsection \<open>Programs\<close>

text \<open>
  \<open>vm_new name\<close> is \<open>ebpf_create\<close> with the map helpers set, \<open>vm_load\<close> returns the negative result of a
  failed \<open>ebpf_load\<close> as its fault, \<open>vm_compile\<close> is \<open>None\<close> where \<open>ebpf_compile\<close> returns a null function.
  \<open>vm_call\<close> calls a compiled function and \<open>vm_exec\<close> interprets; both act on the world \<open>'w\<close>.
\<close>

record ('vm, 'fn, 'w) vm_ops =
  vm_new :: 'vm
  vm_register :: "helper_info \<Rightarrow> 'vm \<Rightarrow> 'vm"
  vm_load :: "64 word list \<Rightarrow> 'vm \<Rightarrow> unit res \<times> 'vm"
  vm_unload :: "'vm \<Rightarrow> 'vm"
  vm_compile :: "'vm \<Rightarrow> 'fn option \<times> 'vm"
  vm_aot :: "bytes \<Rightarrow> 'vm \<Rightarrow> 'fn option \<times> 'vm"
  vm_call :: "'fn \<Rightarrow> bytes \<Rightarrow> 'w \<Rightarrow> 64 word \<times> 'w"
  vm_exec :: "'vm \<Rightarrow> bytes \<Rightarrow> 'w \<Rightarrow> (unit res \<times> 64 word) \<times> 'w"

text \<open>\<open>bp_jitted\<close> and \<open>bp_fn\<close> are \<open>None\<close> where the constructor leaves them uninitialised.\<close>

record ('vm, 'fn) bpftime_prog =
  bp_name :: string
  bp_insns :: "64 word list"
  bp_vm :: 'vm
  bp_jitted :: "bool option"
  bp_fn :: "'fn option"

definition bp_new :: "('vm, 'fn, 'w) vm_ops \<Rightarrow> 64 word list \<Rightarrow> string \<Rightarrow> ('vm, 'fn) bpftime_prog" where
  "bp_new ops insn name = \<lparr>bp_name = name, bp_insns = insn, bp_vm = vm_new ops, bp_jitted = None, bp_fn = None\<rparr>"

definition bpftime_prog_load ::
  "('vm, 'fn, 'w) vm_ops \<Rightarrow> bool \<Rightarrow> ('vm, 'fn) bpftime_prog \<Rightarrow> unit res \<times> ('vm, 'fn) bpftime_prog"
where
  "bpftime_prog_load ops jit p = (case vm_load ops (bp_insns p) (bp_vm p) of
       (Inl f, v) \<Rightarrow> (Inl f, p\<lparr>bp_vm := v\<rparr>)
     | (Inr _, v) \<Rightarrow>
         (if jit then
            (case vm_compile ops v of
               (None, v') \<Rightarrow> (Inl MinusOne, p\<lparr>bp_vm := v', bp_jitted := Some True\<rparr>)
             | (Some fn, v') \<Rightarrow> (Inr (), p\<lparr>bp_vm := v', bp_jitted := Some True, bp_fn := Some fn\<rparr>))
          else (Inr (), p\<lparr>bp_vm := v, bp_jitted := Some False\<rparr>)))"

text \<open>Reading a field that was never set is undefined.\<close>

definition bpftime_prog_unload ::
  "('vm, 'fn, 'w) vm_ops \<Rightarrow> ('vm, 'fn) bpftime_prog \<Rightarrow> unit res \<times> ('vm, 'fn) bpftime_prog"
where
  "bpftime_prog_unload ops p = (case bp_jitted p of
       None \<Rightarrow> (Inl UB, p)
     | Some True \<Rightarrow> (Inr (), p)
     | Some False \<Rightarrow> (Inr (), p\<lparr>bp_vm := vm_unload ops (bp_vm p)\<rparr>))"

definition bpftime_prog_exec ::
  "('vm, 'fn, 'w) vm_ops \<Rightarrow> bytes \<Rightarrow> ('vm, 'fn) bpftime_prog \<Rightarrow> 'w \<Rightarrow> (unit res \<times> 64 word) res \<times> 'w"
where
  "bpftime_prog_exec ops memory p w = (case bp_jitted p of
       None \<Rightarrow> (Inl UB, w)
     | Some True \<Rightarrow> (case bp_fn p of
           None \<Rightarrow> (Inl UB, w)
         | Some fn \<Rightarrow> (case vm_call ops fn memory w of (val, w') \<Rightarrow> (Inr (Inr (), val), w')))
     | Some False \<Rightarrow> (case vm_exec ops (bp_vm p) memory w of ((r, val), w') \<Rightarrow> (Inr (r, val), w')))"

definition bpftime_prog_register_raw_helper ::
  "('vm, 'fn, 'w) vm_ops \<Rightarrow> helper_info \<Rightarrow> ('vm, 'fn) bpftime_prog \<Rightarrow> ('vm, 'fn) bpftime_prog"
where
  "bpftime_prog_register_raw_helper ops info p = p\<lparr>bp_vm := vm_register ops info (bp_vm p)\<rparr>"

definition load_aot_object ::
  "('vm, 'fn, 'w) vm_ops \<Rightarrow> bytes \<Rightarrow> ('vm, 'fn) bpftime_prog \<Rightarrow> unit res \<times> ('vm, 'fn) bpftime_prog"
where
  "load_aot_object ops buf p = (case vm_aot ops buf (bp_vm p) of
       (None, v) \<Rightarrow> (Inl MinusOne, p\<lparr>bp_vm := v\<rparr>)
     | (Some fn, v) \<Rightarrow> (Inr (), p\<lparr>bp_vm := v, bp_fn := Some fn, bp_jitted := Some True\<rparr>))"

definition add_helper_group_to_prog ::
  "('vm, 'fn, 'w) vm_ops \<Rightarrow> helper_group \<Rightarrow> ('vm, 'fn) bpftime_prog \<Rightarrow> ('vm, 'fn) bpftime_prog"
where
  "add_helper_group_to_prog ops g p = fold (bpftime_prog_register_raw_helper ops) g p"

text \<open>The fields of \<open>agent_config\<close> that decide what a program can call and how it runs.\<close>

record agent_config =
  cf_jit_enabled :: bool
  cf_enable_kernel_helper_group :: bool
  cf_enable_ufunc_helper_group :: bool
  cf_enable_shm_maps_helper_group :: bool

text \<open>The group of the extension helpers, \<open>ufunc\<close>, is a parameter.\<close>

definition load_prog_and_helpers ::
  "('vm, 'fn, 'w) vm_ops \<Rightarrow> helper_group \<Rightarrow> agent_config \<Rightarrow> ('vm, 'fn) bpftime_prog \<Rightarrow>
   unit res \<times> ('vm, 'fn) bpftime_prog"
where
  "load_prog_and_helpers ops ufunc config p =
     (let p = (if cf_enable_kernel_helper_group config then add_helper_group_to_prog ops get_kernel_utils_helper_group p else p);
          p = (if cf_enable_ufunc_helper_group config then add_helper_group_to_prog ops ufunc p else p);
          p = (if cf_enable_shm_maps_helper_group config then add_helper_group_to_prog ops get_shm_maps_helper_group p else p) in
      bpftime_prog_load ops (cf_jit_enabled config) p)"

subsection \<open>Groups are tables\<close>

definition hg_ok :: "helper_group \<Rightarrow> bool" where
  "hg_ok g \<longleftrightarrow> sorted_wrt (<) (get_helper_ids g)"

lemma hg_insert_ids: "set (get_helper_ids (hg_insert h g)) = insert (hi_index h) (set (get_helper_ids g))"
  by (induction g) (auto simp: get_helper_ids_def)

lemma hg_insert_ok: "hg_ok g \<Longrightarrow> hg_ok (hg_insert h g)"
proof (induction g)
  case (Cons a g)
  have "set (get_helper_ids (hg_insert h g)) = insert (hi_index h) (set (get_helper_ids g))" by (rule hg_insert_ids)
  then show ?case using Cons by (auto simp: hg_ok_def get_helper_ids_def)
qed (simp add: hg_ok_def get_helper_ids_def)

lemma hg_fold_ok: "hg_ok g \<Longrightarrow> hg_ok (fold hg_insert hs g)"
  by (induction hs arbitrary: g) (simp_all add: hg_insert_ok)

lemma hg_find_insert:
  "hg_ok g \<Longrightarrow> hg_find i (hg_insert h g) = (if i = hi_index h \<and> hg_find i g = None then Some h else hg_find i g)"
proof (induction g)
  case (Cons a g)
  have "hg_find (hi_index h) g = None" if "hi_index h < hi_index a"
    using that Cons.prems by (auto simp: hg_find_def find_None_iff hg_ok_def get_helper_ids_def)
  then show ?case using Cons by (auto simp: hg_find_def hg_ok_def get_helper_ids_def)
qed (simp add: hg_find_def)

text \<open>Registering a helper adds it and changes no other; it fails for an id out of range or taken by another function.\<close>

lemma register_helper_spec:
  assumes "hg_ok g" and "register_helper info g = (r, g')"
  shows "hg_ok g' \<and> (\<forall>i. i \<noteq> hi_index info \<longrightarrow> hg_find i g' = hg_find i g) \<and>
    (r = Inr () \<longrightarrow> (\<exists>h. hg_find (hi_index info) g' = Some h \<and> hi_fn h = hi_fn info)) \<and> (r \<noteq> Inr () \<longrightarrow> g' = g)"
  using assms hg_insert_ok [of g info] hg_find_insert [of g _ info]
  by (auto simp: register_helper_def split: if_splits option.splits)

lemma hg_append_spec:
  assumes "hg_ok g" and "hg_append another g = (Inr (), g')"
  shows "hg_ok g' \<and> set (get_helper_ids g') = set (get_helper_ids another) \<union> set (get_helper_ids g)"
proof -
  have "set (get_helper_ids (fold hg_insert hs k)) = set (get_helper_ids hs) \<union> set (get_helper_ids k)" for hs k
    by (induction hs arbitrary: k) (auto simp: hg_insert_ids, auto simp: get_helper_ids_def)
  then show ?thesis using assms hg_fold_ok by (auto simp: hg_append_def split: if_splits)
qed

end
