(* ===== verification/Attach_Ctx.thy ===== *)
theory Attach_Ctx
  imports Handler_Manager Bpf_Prog Syscall_Trace Frida_Attach
begin

text \<open>
  \<open>bpf_attach_ctx\<close> (\<open>attach/bpf_attach_ctx.cpp\<close>): the agent's side of the runtime. It reads the
  table of handlers, loads the programs into virtual machines, and attaches them through the
  registered implementations of \<open>base_attach_impl\<close>.

  The implementations are owned by the context; a pointer to one is its position in
  \<open>ac_holders\<close>. A program object is an address in the heap \<open>ac_heap\<close>, freed where the code
  replaces the owning pointer. The table may be another one each time it is read. GPU programs are left out, as in a build without CUDA.
\<close>

subsection \<open>The implementations behind the interface\<close>

datatype attach_impl =
    Syscall_Impl syscall_trace
  | Frida_Impl frida_attach
  | Simple_Impl simple_attach

fun impl_create :: "frida_env \<Rightarrow> ebpf_cb \<Rightarrow> attach_data \<Rightarrow> int \<Rightarrow> attach_impl \<Rightarrow> int res \<times> attach_impl" where
  "impl_create fe cb d t (Syscall_Impl s) = map_prod id Syscall_Impl (sy_create cb d t s)"
| "impl_create fe cb d t (Frida_Impl s) = map_prod id Frida_Impl (fr_create fe cb d t s)"
| "impl_create fe cb d t (Simple_Impl s) = map_prod id Simple_Impl (sa_create cb d t s)"

fun impl_detach :: "int \<Rightarrow> attach_impl \<Rightarrow> unit res \<times> attach_impl" where
  "impl_detach i (Syscall_Impl s) = map_prod id Syscall_Impl (sy_detach i s)"
| "impl_detach i (Frida_Impl s) = map_prod id Frida_Impl (fr_detach i s)"
| "impl_detach i (Simple_Impl s) = map_prod id Simple_Impl (sa_detach i s)"

text \<open>\<open>register_custom_helpers\<close>: only the uprobe implementation has helpers of its own.\<close>

fun custom_helpers :: "attach_impl \<Rightarrow> helper_info list" where
  "custom_helpers (Frida_Impl s) =
     [helper 183 ''bpf_get_func_arg'' ''bpftime_get_func_arg'',
      helper 184 ''bpf_get_func_ret_id'' ''bpftime_get_func_ret'',
      helper 186 ''bpf_get_retval'' ''bpftime_get_retval'']"
| "custom_helpers _ = []"

subsection \<open>The context\<close>

record ('vm, 'fn) attach_ctx =
  ac_helpers :: helper_group
  ac_heap :: "nat \<rightharpoonup> ('vm, 'fn) bpftime_prog"
  ac_next :: nat
  ac_progs :: "int \<rightharpoonup> nat"
  ac_links :: "int \<rightharpoonup> int \<times> nat option"
  ac_perf_events :: "int \<rightharpoonup> attach_data option \<times> int"
  ac_impls :: "int \<rightharpoonup> nat \<times> (string \<Rightarrow> attach_data res)"
  ac_holders :: "attach_impl list"
  ac_instantiated :: "int set"

definition ac_new :: "('vm, 'fn) attach_ctx" where
  "ac_new = \<lparr>ac_helpers = [], ac_heap = Map.empty, ac_next = 0, ac_progs = Map.empty, ac_links = Map.empty,
     ac_perf_events = Map.empty, ac_impls = Map.empty, ac_holders = [], ac_instantiated = {}\<rparr>"

text \<open>What the context depends on: the virtual machine, the extension helpers, the configuration, frida.\<close>

record ('vm, 'fn, 'w) agent_env =
  ae_ops :: "('vm, 'fn, 'w) vm_ops"
  ae_ufunc :: helper_group
  ae_config :: agent_config
  ae_frida :: frida_env

text \<open>\<open>helpers[idx] = info\<close>: a helper of the same index is replaced.\<close>

definition put_helper :: "helper_info \<Rightarrow> helper_group \<Rightarrow> helper_group" where
  "put_helper h g = hg_insert h (filter (\<lambda>x. hi_index x \<noteq> hi_index h) g)"

text \<open>\<open>private_data_creator\<close> fails with the code it stores in \<open>err\<close>, or raises.\<close>

definition register_attach_impl ::
  "int list \<Rightarrow> attach_impl \<Rightarrow> (string \<Rightarrow> attach_data res) \<Rightarrow> ('vm, 'fn) attach_ctx \<Rightarrow> ('vm, 'fn) attach_ctx"
where
  "register_attach_impl attach_types impl private_data_creator c =
     (let k = length (ac_holders c) in
      c\<lparr>ac_helpers := fold put_helper (custom_helpers impl) (ac_helpers c),
        ac_holders := ac_holders c @ [impl],
        ac_impls := fold (\<lambda>ty m. m(ty \<mapsto> (k, private_data_creator))) attach_types (ac_impls c)\<rparr>)"

definition instantiate_prog_handler_at ::
  "('vm, 'fn, 'w) agent_env \<Rightarrow> int \<Rightarrow> prog_handler \<Rightarrow> ('vm, 'fn) attach_ctx \<Rightarrow> unit res \<times> ('vm, 'fn) attach_ctx"
where
  "instantiate_prog_handler_at env ident handler c =
     (let n = ac_next c;
          heap = (case ac_progs c ident of None \<Rightarrow> ac_heap c | Some old \<Rightarrow> (ac_heap c)(old := None));
          c = c\<lparr>ac_next := n + 1, ac_progs := (ac_progs c)(ident \<mapsto> n)\<rparr> in
      case load_prog_and_helpers (ae_ops env) (ae_ufunc env) (ae_config env)
             (bp_new (ae_ops env) (pr_insns handler) (pr_name handler)) of
        (Inl f, prog) \<Rightarrow> (Inl f, c\<lparr>ac_heap := heap(n \<mapsto> prog)\<rparr>)
      | (Inr _, prog) \<Rightarrow>
          (Inr (), c\<lparr>ac_heap := heap(n \<mapsto> fold (bpftime_prog_register_raw_helper (ae_ops env)) (ac_helpers c) prog),
             ac_instantiated := insert ident (ac_instantiated c)\<rparr>))"

text \<open>The text from which the implementation makes its private data; a wrong alternative of the variant raises.\<close>

definition event_argument :: "perf_event_handler \<Rightarrow> string res" where
  "event_argument h =
     (if ph_type h \<in> {event_type_code BPF_TYPE_UPROBE_OVERRIDE, event_type_code BPF_TYPE_UPROBE,
          event_type_code BPF_TYPE_URETPROBE, event_type_code BPF_TYPE_UREPLACE} then
        (case ph_data h of Uprobe_Data u \<Rightarrow> Inr (up_module_name u @ CHR '':'' # dec_nat (up_offset u)) | _ \<Rightarrow> Inl Throw)
      else if ph_type h = event_type_code PERF_TYPE_TRACEPOINT then
        (case ph_data h of Tracepoint_Data t \<Rightarrow> Inr (dec_int (tp_tracepoint_id t)) | _ \<Rightarrow> Inl Throw)
      else if ph_type h \<in> {event_type_code BPF_TYPE_KPROBE, event_type_code BPF_TYPE_KRETPROBE} then
        (case ph_data h of Kprobe_Data k \<Rightarrow> Inr (kp_func_name k) | _ \<Rightarrow> Inl Throw)
      else (case ph_data h of Custom_Data a \<Rightarrow> Inr a | _ \<Rightarrow> Inl Throw))"

definition instantiate_perf_event_handler_at ::
  "int \<Rightarrow> perf_event_handler \<Rightarrow> ('vm, 'fn) attach_ctx \<Rightarrow> unit res \<times> ('vm, 'fn) attach_ctx"
where
  "instantiate_perf_event_handler_at ident h c =
     (if ph_type h = event_type_code PERF_TYPE_SOFTWARE then (Inr (), c)
      else (case ac_impls c (ph_type h) of
          None \<Rightarrow> (Inl (NegErrno ENOENT), c)
        | Some (impl, private_data_gen) \<Rightarrow>
            (case and_then (event_argument h) private_data_gen of
               Inl f \<Rightarrow> (Inl f, c)
             | Inr priv_data \<Rightarrow>
                 (Inr (), c\<lparr>ac_instantiated := insert ident (ac_instantiated c),
                    ac_perf_events := (ac_perf_events c)(ident \<mapsto> (Some priv_data, ph_type h))\<rparr>))))"

text \<open>
  \<open>instantiated_perf_events[...]\<close> enters a null pointer and attach type 0 for a target that is not
  there; a null pointer is dereferenced if type 0 is registered. \<open>instantiated_progs.at\<close> raises.
\<close>

definition instantiate_bpf_link_handler_at ::
  "('vm, 'fn, 'w) agent_env \<Rightarrow> int \<Rightarrow> link_handler \<Rightarrow> ('vm, 'fn) attach_ctx \<Rightarrow> unit res \<times> ('vm, 'fn) attach_ctx"
where
  "instantiate_bpf_link_handler_at env ident handler c =
     (let c = (case ac_perf_events c (lk_attach_target_id handler) of
           None \<Rightarrow> c\<lparr>ac_perf_events := (ac_perf_events c)(lk_attach_target_id handler \<mapsto> (None, 0))\<rparr>
         | Some _ \<Rightarrow> c);
          (priv_data, attach_type) = the (ac_perf_events c (lk_attach_target_id handler)) in
      case ac_impls c attach_type of
        None \<Rightarrow> (Inl (NegErrno ENOTSUP), c)
      | Some (k, private_data_gen) \<Rightarrow>
          (case ac_progs c (lk_prog_id handler) of
             None \<Rightarrow> (Inl Throw, c)
           | Some prog \<Rightarrow>
               (case priv_data of
                  None \<Rightarrow> (Inl UB, c)
                | Some d \<Rightarrow>
                    (case impl_create (ae_frida env) (Run_Prog prog (lk_attach_cookie handler)) d attach_type (ac_holders c ! k) of
                       (Inl f, m) \<Rightarrow> (Inl f, c\<lparr>ac_holders := (ac_holders c)[k := m]\<rparr>)
                     | (Inr attach_id, m) \<Rightarrow>
                         (Inr (), c\<lparr>ac_holders := (ac_holders c)[k := m],
                            ac_links := (ac_links c)(ident \<mapsto> (attach_id, Some k)),
                            ac_instantiated := insert ident (ac_instantiated c)\<rparr>)))))"

lemma insert_shrinks:
  assumes "\<not> (i < 0 \<or> n \<le> nat i)" and "i \<notin> A"
  shows "card ({0..<int n} - insert i A) < card ({0..<int n} - A)"
proof (rule psubset_card_mono)
  have "i \<in> {0..<int n} - A" using assms by (auto simp: not_less not_le nat_less_iff)
  then show "{0..<int n} - insert i A \<subset> {0..<int n} - A" by blast
qed simp

text \<open>
  A handler with what it depends on. The set \<open>stk\<close> of handlers being instantiated is passed on
  as it is: an error ends all the calls that share it, and a call that succeeds takes its own
  id out again.
\<close>

function instantiate_handler_at ::
  "('vm, 'fn, 'w) agent_env \<Rightarrow> handler_variant list \<Rightarrow> int \<Rightarrow> int set \<Rightarrow> ('vm, 'fn) attach_ctx \<Rightarrow>
   unit res \<times> ('vm, 'fn) attach_ctx"
where
  "instantiate_handler_at env hs ident stk c =
     (if ident \<in> ac_instantiated c then (Inr (), c)
      else if ident \<in> stk then (Inl MinusOne, c)
      else if ident < 0 \<or> nat ident \<ge> length hs then (Inl UB, c)
      else (case hs ! nat ident of
          Prog_H h \<Rightarrow> instantiate_prog_handler_at env ident h c
        | Perf_H h \<Rightarrow> instantiate_perf_event_handler_at ident h c
        | Link_H h \<Rightarrow>
            (case instantiate_handler_at env hs (lk_prog_id h) (insert ident stk) c of
               (Inl f, c1) \<Rightarrow> (Inl f, c1)
             | (Inr _, c1) \<Rightarrow>
                 (case instantiate_handler_at env hs (lk_attach_target_id h) (insert ident stk) c1 of
                    (Inl f, c2) \<Rightarrow> (Inl f, c2)
                  | (Inr _, c2) \<Rightarrow> instantiate_bpf_link_handler_at env ident h c2))
        | _ \<Rightarrow> (Inr (), c)))"
  by pat_completeness auto
termination
  by (relation "measure (\<lambda>(env, hs, ident, stk, c). card ({0..<int (length hs)} - stk))")
    (simp, (simp only: in_measure prod.case, rule insert_shrinks, assumption+)+)

declare instantiate_handler_at.simps [simp del]

text \<open>One of the two loops over the table; an exception or undefined behaviour ends it, an error code does not.\<close>

primrec instantiate_all ::
  "('vm, 'fn, 'w) agent_env \<Rightarrow> handler_variant list \<Rightarrow> nat list \<Rightarrow> ('vm, 'fn) attach_ctx \<Rightarrow> unit res \<times> ('vm, 'fn) attach_ctx"
where
  "instantiate_all env hs [] c = (Inr (), c)"
| "instantiate_all env hs (i # is) c =
     (if is_allocated (int i) hs then
        (case instantiate_handler_at env hs (int i) {} c of
           (Inl Throw, c') \<Rightarrow> (Inl Throw, c')
         | (Inl UB, c') \<Rightarrow> (Inl UB, c')
         | (_, c') \<Rightarrow> instantiate_all env hs is c')
      else instantiate_all env hs is c)"

definition init_attach_ctx_from_handlers ::
  "('vm, 'fn, 'w) agent_env \<Rightarrow> handler_variant list option \<Rightarrow> ('vm, 'fn) attach_ctx \<Rightarrow> unit res \<times> ('vm, 'fn) attach_ctx"
where
  "init_attach_ctx_from_handlers env manager c = (case manager of
       None \<Rightarrow> (Inl MinusOne, c)
     | Some hs \<Rightarrow> (case instantiate_all env hs [0..<length hs] c of
           (Inl f, c1) \<Rightarrow> (Inl f, c1)
         | (Inr _, c1) \<Rightarrow> instantiate_all env hs [0..<length hs] c1))"

definition destroy_instantiated_attach_link :: "int \<Rightarrow> ('vm, 'fn) attach_ctx \<Rightarrow> unit res \<times> ('vm, 'fn) attach_ctx" where
  "destroy_instantiated_attach_link link_id c = (case ac_links c link_id of
       None \<Rightarrow> (Inl (NegErrno ENOENT), c)
     | Some (attach_id, None) \<Rightarrow> (Inr (), c)
     | Some (attach_id, Some k) \<Rightarrow>
         (case impl_detach attach_id (ac_holders c ! k) of
            (Inl f, m) \<Rightarrow> (Inl f, c\<lparr>ac_holders := (ac_holders c)[k := m]\<rparr>)
          | (Inr _, m) \<Rightarrow> (Inr (), c\<lparr>ac_holders := (ac_holders c)[k := m], ac_links := (ac_links c)(link_id := None)\<rparr>)))"

primrec destroy_links :: "int list \<Rightarrow> ('vm, 'fn) attach_ctx \<Rightarrow> unit res \<times> ('vm, 'fn) attach_ctx" where
  "destroy_links [] c = (Inr (), c)"
| "destroy_links (k # ks) c = (case destroy_instantiated_attach_link k c of
       (Inl f, c') \<Rightarrow> (Inl f, c')
     | (Inr _, c') \<Rightarrow> destroy_links ks c')"

definition destroy_all_attach_links :: "('vm, 'fn) attach_ctx \<Rightarrow> unit res \<times> ('vm, 'fn) attach_ctx" where
  "destroy_all_attach_links c = destroy_links (sorted_list_of_set (dom (ac_links c))) c"

definition get_attach_impl_by_attach_type :: "int \<Rightarrow> ('vm, 'fn) attach_ctx \<Rightarrow> nat option" where
  "get_attach_impl_by_attach_type attach_type c = map_option fst (ac_impls c attach_type)"

subsection \<open>Running an attached program\<close>

text \<open>
  The closure that \<open>instantiate_bpf_link_handler_at\<close> hands to the implementation, with the wrapper of
  \<open>frida_attach_impl\<close>. \<open>cookie\<close> stores the thread's cookie and \<open>retval\<close> is \<open>bpftime_set_retval\<close>.
\<close>

primrec run_ebpf_cb ::
  "('vm, 'fn, 'w) vm_ops \<Rightarrow> (nat option \<Rightarrow> 'w \<Rightarrow> 'w) \<Rightarrow> (64 word \<Rightarrow> 'w \<Rightarrow> 'w) \<Rightarrow> (nat \<rightharpoonup> ('vm, 'fn) bpftime_prog) \<Rightarrow>
   ebpf_cb \<Rightarrow> bytes \<Rightarrow> 'w \<Rightarrow> (unit res \<times> 64 word) res \<times> 'w"
where
  "run_ebpf_cb ops cookie retval heap (Run_Prog n ck) memory w = (case heap n of
       None \<Rightarrow> (Inl UB, w)
     | Some prog \<Rightarrow> bpftime_prog_exec ops memory prog (cookie ck w))"
| "run_ebpf_cb ops cookie retval heap (Then_Set_Retval cb) memory w =
     (case run_ebpf_cb ops cookie retval heap cb memory w of
        (Inr (Inr _, val), w') \<Rightarrow> (Inr (Inr (), val), retval val w')
      | other \<Rightarrow> other)"

subsection \<open>The implementations keep the contract\<close>

fun impl_live :: "attach_impl \<Rightarrow> int \<rightharpoonup> ebpf_cb" where
  "impl_live (Syscall_Impl s) = sy_live s"
| "impl_live (Frida_Impl s) = fr_live s"
| "impl_live (Simple_Impl s) = sa_live s"

fun impl_good :: "attach_impl \<Rightarrow> bool" where
  "impl_good (Syscall_Impl s) = sy_good s"
| "impl_good (Frida_Impl s) = fr_good s"
| "impl_good (Simple_Impl s) = sa_good s"

interpretation imp: attach_manager "impl_create fe" impl_detach impl_live impl_good for fe
proof
  show "impl_good s' \<and> (case r of Inl f \<Rightarrow> impl_live s' = impl_live s
      | Inr i \<Rightarrow> impl_live s i = None \<and> (\<exists>cb'. cb_prog cb' = cb_prog cb \<and> impl_live s' = (impl_live s)(i \<mapsto> cb')))"
    if g: "impl_good s" and c: "impl_create fe cb d t s = (r, s')" for s cb d t r s'
  proof (cases s)
    case (Syscall_Impl x)
    then obtain x' where "sy_create cb d t x = (r, x')" "s' = Syscall_Impl x'"
      using c by (auto simp: map_prod_def split: prod.splits)
    then show ?thesis using g Syscall_Impl sys.create_law [of x cb d t r x'] by (simp split: sum.splits)
  next
    case (Frida_Impl x)
    then obtain x' where "fr_create fe cb d t x = (r, x')" "s' = Frida_Impl x'"
      using c by (auto simp: map_prod_def split: prod.splits)
    then show ?thesis using g Frida_Impl frd.create_law [of x fe cb d t r x'] by (simp split: sum.splits)
  next
    case (Simple_Impl x)
    then obtain x' where "sa_create cb d t x = (r, x')" "s' = Simple_Impl x'"
      using c by (auto simp: map_prod_def split: prod.splits)
    then show ?thesis using g Simple_Impl sat.create_law [of x cb d t r x'] by (simp split: sum.splits)
  qed
  show "\<exists>s'. impl_detach i s = (Inr (), s') \<and> impl_good s' \<and> impl_live s' = (impl_live s)(i := None)"
    if "impl_good s" "impl_live s i = Some cb" for s i cb
    using that sys.detach_law [of _ i cb] frd.detach_law [of _ i cb] sat.detach_law [of _ i cb] by (cases s) force+
qed

subsection \<open>Who owns what\<close>

definition loaded :: "('vm, 'fn) bpftime_prog \<Rightarrow> bool" where
  "loaded p \<longleftrightarrow> (case bp_jitted p of None \<Rightarrow> False | Some j \<Rightarrow> j \<longrightarrow> bp_fn p \<noteq> None)"

definition impls_ok :: "('vm, 'fn) attach_ctx \<Rightarrow> bool" where
  "impls_ok c \<longleftrightarrow> (\<forall>k < length (ac_holders c). impl_good (ac_holders c ! k)) \<and>
     (\<forall>t k g. ac_impls c t = Some (k, g) \<longrightarrow> k < length (ac_holders c))"

text \<open>Every link of the context is an attachment of its own.\<close>

definition links_live :: "('vm, 'fn) attach_ctx \<Rightarrow> bool" where
  "links_live c \<longleftrightarrow> finite (dom (ac_links c)) \<and>
     (\<forall>l i ko. ac_links c l = Some (i, ko) \<longrightarrow> l \<in> ac_instantiated c \<and>
        (\<exists>k cb. ko = Some k \<and> k < length (ac_holders c) \<and> impl_live (ac_holders c ! k) i = Some cb)) \<and>
     (\<forall>l l' x. ac_links c l = Some x \<longrightarrow> ac_links c l' = Some x \<longrightarrow> l = l')"

text \<open>Every attachment belongs to a link and runs a program the context owns.\<close>

definition live_linked :: "('vm, 'fn) attach_ctx \<Rightarrow> bool" where
  "live_linked c \<longleftrightarrow> (\<forall>k i cb. k < length (ac_holders c) \<longrightarrow> impl_live (ac_holders c ! k) i = Some cb \<longrightarrow>
     (\<exists>l. ac_links c l = Some (i, Some k)) \<and> (\<exists>p \<in> ac_instantiated c. ac_progs c p = Some (cb_prog cb)))"

definition progs_ok :: "handler_variant list \<Rightarrow> ('vm, 'fn) attach_ctx \<Rightarrow> bool" where
  "progs_ok hs c \<longleftrightarrow>
     (\<forall>p n. ac_progs c p = Some n \<longrightarrow> n < ac_next c \<and>
        (if p \<in> ac_instantiated c then \<exists>q. ac_heap c n = Some q \<and> loaded q else \<exists>h. hs ! nat p = Prog_H h)) \<and>
     (\<forall>p p' n. ac_progs c p = Some n \<longrightarrow> ac_progs c p' = Some n \<longrightarrow> p = p')"

definition ctx_ok :: "handler_variant list \<Rightarrow> ('vm, 'fn) attach_ctx \<Rightarrow> bool" where
  "ctx_ok hs c \<longleftrightarrow> impls_ok c \<and> links_live c \<and> live_linked c \<and> progs_ok hs c"

lemmas ctx_defs = ctx_ok_def impls_ok_def links_live_def live_linked_def progs_ok_def

lemma links_liveD:
  "links_live c \<Longrightarrow> ac_links c l = Some (i, ko) \<Longrightarrow> l \<in> ac_instantiated c \<and>
     (\<exists>k cb. ko = Some k \<and> k < length (ac_holders c) \<and> impl_live (ac_holders c ! k) i = Some cb)"
  unfolding links_live_def by blast

lemma links_live_inj: "links_live c \<Longrightarrow> ac_links c l = Some x \<Longrightarrow> ac_links c l' = Some x \<Longrightarrow> l = l'"
  unfolding links_live_def by blast

lemma live_linkedD:
  "live_linked c \<Longrightarrow> k < length (ac_holders c) \<Longrightarrow> impl_live (ac_holders c ! k) i = Some cb \<Longrightarrow>
     (\<exists>l. ac_links c l = Some (i, Some k)) \<and> (\<exists>p \<in> ac_instantiated c. ac_progs c p = Some (cb_prog cb))"
  unfolding live_linked_def by blast

lemma ctx_ok_new: "ctx_ok hs ac_new"
  by (simp add: ctx_defs ac_new_def)

lemma loaded_register: "loaded (bpftime_prog_register_raw_helper ops h p) = loaded p"
  by (cases "bp_jitted p") (simp_all add: loaded_def bpftime_prog_register_raw_helper_def)

lemma loaded_registers: "loaded (fold (bpftime_prog_register_raw_helper ops) hs p) = loaded p"
  by (induction hs arbitrary: p) (simp_all add: loaded_register)

lemma load_loaded: "load_prog_and_helpers ops ufunc config p = (Inr u, q) \<Longrightarrow> loaded q"
  by (auto simp: load_prog_and_helpers_def bpftime_prog_load_def loaded_def Let_def
      split: prod.splits sum.splits option.splits if_splits)

subsection \<open>What instantiation leaves alone\<close>

fun same_impl :: "attach_impl \<Rightarrow> attach_impl \<Rightarrow> bool" where
  "same_impl (Syscall_Impl _) (Syscall_Impl _) = True"
| "same_impl (Frida_Impl _) (Frida_Impl _) = True"
| "same_impl (Simple_Impl _) (Simple_Impl _) = True"
| "same_impl _ _ = False"

lemma same_impl_refl [simp]: "same_impl m m"
  by (cases m) auto

lemma same_impl_trans: "same_impl a b \<Longrightarrow> same_impl b c \<Longrightarrow> same_impl a c"
  by (cases a; cases b; cases c) auto

lemma impl_create_same: "impl_create fe cb d t m = (r, m') \<Longrightarrow> same_impl m m'"
  by (cases m) (auto simp: map_prod_def split: prod.splits)

text \<open>\<open>extends c c'\<close>: what was instantiated and what was attached in \<open>c\<close> is as it was in \<open>c'\<close>.\<close>

definition extends :: "('vm, 'fn) attach_ctx \<Rightarrow> ('vm, 'fn) attach_ctx \<Rightarrow> bool" where
  "extends c c' \<longleftrightarrow> ac_instantiated c \<subseteq> ac_instantiated c' \<and> ac_impls c' = ac_impls c \<and> ac_helpers c' = ac_helpers c \<and>
     length (ac_holders c') = length (ac_holders c) \<and>
     (\<forall>x \<in> ac_instantiated c. ac_progs c' x = ac_progs c x \<and> ac_links c' x = ac_links c x \<and>
        (\<forall>v. ac_perf_events c x = Some v \<longrightarrow> ac_perf_events c' x = Some v)) \<and>
     (\<forall>k < length (ac_holders c). same_impl (ac_holders c ! k) (ac_holders c' ! k) \<and>
        (\<forall>i cb. impl_live (ac_holders c ! k) i = Some cb \<longrightarrow> impl_live (ac_holders c' ! k) i = Some cb))"

lemma extends_refl [simp]: "extends c c"
  by (simp add: extends_def)

lemma extends_trans:
  assumes "extends c d" and "extends d e"
  shows "extends c e"
  using assms unfolding extends_def by (auto intro: same_impl_trans)

lemma extends_prog:
  "ident \<notin> ac_instantiated c \<Longrightarrow> instantiate_prog_handler_at env ident h c = (r, c') \<Longrightarrow> extends c c'"
  by (auto simp: extends_def instantiate_prog_handler_at_def Let_def split: prod.splits sum.splits)

lemma extends_perf:
  "ident \<notin> ac_instantiated c \<Longrightarrow> instantiate_perf_event_handler_at ident h c = (r, c') \<Longrightarrow> extends c c'"
  by (auto simp: extends_def instantiate_perf_event_handler_at_def split: if_splits option.splits sum.splits)

text \<open>What an instantiated handler of the table has to show for it.\<close>

definition event_data :: "('vm, 'fn) attach_ctx \<Rightarrow> perf_event_handler \<Rightarrow> attach_data res" where
  "event_data c h = (case ac_impls c (ph_type h) of
       None \<Rightarrow> Inl (NegErrno ENOENT)
     | Some (k, gen) \<Rightarrow> and_then (event_argument h) gen)"

definition link_attached :: "('vm, 'fn) attach_ctx \<Rightarrow> int \<Rightarrow> link_handler \<Rightarrow> bool" where
  "link_attached c l h \<longleftrightarrow> (\<exists>i k cb. ac_links c l = Some (i, Some k) \<and> k < length (ac_holders c) \<and>
     impl_live (ac_holders c ! k) i = Some cb \<and> lk_prog_id h \<in> ac_instantiated c \<and> ac_progs c (lk_prog_id h) = Some (cb_prog cb))"

definition settled :: "handler_variant list \<Rightarrow> ('vm, 'fn) attach_ctx \<Rightarrow> int \<Rightarrow> bool" where
  "settled hs c x = (case hs ! nat x of
       Prog_H h \<Rightarrow> ac_progs c x \<noteq> None
     | Perf_H h \<Rightarrow> (\<exists>d. event_data c h = Inr d \<and> ac_perf_events c x = Some (Some d, ph_type h))
     | Link_H h \<Rightarrow> link_attached c x h
     | _ \<Rightarrow> True)"

lemma settled_extends:
  assumes "extends c c'" and "x \<in> ac_instantiated c" and "settled hs c x"
  shows "settled hs c' x"
proof (cases "hs ! nat x")
  case (Link_H h)
  have "ac_links c' x = ac_links c x" using assms(1,2) by (simp add: extends_def)
  then show ?thesis using assms Link_H unfolding settled_def link_attached_def extends_def by auto
qed (use assms in \<open>auto simp: settled_def extends_def event_data_def\<close>)

lemma prog_step:
  assumes ok: "ctx_ok hs c" and new: "ident \<notin> ac_instantiated c"
    and h: "0 \<le> ident" "nat ident < length hs" "hs ! nat ident = Prog_H h"
    and s: "instantiate_prog_handler_at env ident h c = (r, c')"
  shows "ctx_ok hs c'"
proof -
  define heap where "heap = (case ac_progs c ident of None \<Rightarrow> ac_heap c | Some old \<Rightarrow> (ac_heap c)(old := None))"
  obtain q where c': "ac_holders c' = ac_holders c" "ac_impls c' = ac_impls c" "ac_links c' = ac_links c"
      "ac_next c' = ac_next c + 1" "ac_progs c' = (ac_progs c)(ident \<mapsto> ac_next c)" "ac_heap c' = heap(ac_next c \<mapsto> q)"
      "ac_instantiated c' = ac_instantiated c \<or> ac_instantiated c' = insert ident (ac_instantiated c) \<and> loaded q"
    using s load_loaded by (fastforce simp: instantiate_prog_handler_at_def Let_def heap_def loaded_registers split: prod.splits sum.splits)
  have p: "progs_ok hs c" using ok by (simp add: ctx_ok_def)
  have lt: "n < ac_next c" if "ac_progs c p = Some n" for p n using p that by (simp add: progs_ok_def)
  have keep: "heap n = ac_heap c n" if "ac_progs c p = Some n" "p \<noteq> ident" for p n
    using that p by (auto simp: heap_def progs_ok_def split: option.splits)
  have "progs_ok hs c'"
    using p lt keep h c'(4-7) new unfolding progs_ok_def
    by (auto simp: less_Suc_eq)
  moreover have "live_linked c'"
    using ok new c' unfolding ctx_ok_def live_linked_def by (metis fun_upd_apply insertCI)
  moreover have "impls_ok c'" "links_live c'" using ok c' by (auto simp: ctx_ok_def impls_ok_def links_live_def)
  ultimately show ?thesis by (simp add: ctx_ok_def)
qed

text \<open>Marking something other than a program as instantiated.\<close>

lemma ctx_ok_instantiated:
  assumes "ctx_ok hs c" and "ac_progs c ident = None"
  shows "ctx_ok hs (c\<lparr>ac_instantiated := insert ident (ac_instantiated c), ac_perf_events := pe\<rparr>)" (is "ctx_ok hs ?c'")
proof -
  have "impls_ok ?c'" using assms(1) by (simp add: ctx_ok_def impls_ok_def)
  moreover have "links_live ?c'" using assms(1) by (simp add: ctx_ok_def links_live_def)
  moreover have "live_linked ?c'" using assms(1) by (simp add: ctx_ok_def live_linked_def)
  moreover have "progs_ok hs ?c'" using assms by (simp add: ctx_ok_def progs_ok_def)
  ultimately show ?thesis by (simp add: ctx_ok_def)
qed

lemma perf_step:
  assumes "ctx_ok hs c" and "ac_progs c ident = None" and "instantiate_perf_event_handler_at ident h c = (r, c')"
  shows "ctx_ok hs c'"
  using assms(3,1) ctx_ok_instantiated [OF assms(1,2)]
  by (auto simp: instantiate_perf_event_handler_at_def split: if_splits option.splits sum.splits)

lemma ctx_ok_perf_events: "ctx_ok hs (c\<lparr>ac_perf_events := pe\<rparr>) = ctx_ok hs c"
  by (simp add: ctx_defs)

lemma create_step:
  assumes ok: "ctx_ok hs c" and k: "k < length (ac_holders c)" and new: "ident \<notin> ac_instantiated c" "ac_progs c ident = None"
    and p: "p \<in> ac_instantiated c" "ac_progs c p = Some n"
    and s: "impl_create fe (Run_Prog n ck) d t (ac_holders c ! k) = (Inr i, m)"
  shows "ctx_ok hs (c\<lparr>ac_holders := (ac_holders c)[k := m], ac_links := (ac_links c)(ident \<mapsto> (i, Some k)),
    ac_instantiated := insert ident (ac_instantiated c)\<rparr>)" (is "ctx_ok hs ?c'")
proof -
  have g: "impl_good (ac_holders c ! k)" using ok k by (simp add: ctx_ok_def impls_ok_def)
  obtain cb where m: "impl_good m" "impl_live (ac_holders c ! k) i = None" "cb_prog cb = n"
      "impl_live m = (impl_live (ac_holders c ! k))(i \<mapsto> cb)"
    using imp.create_law [OF g s] by auto
  have li: "ac_links c l \<noteq> Some (i, Some k)" for l
    using ok m(2) links_liveD [of c l i] by (auto simp: ctx_ok_def)
  have no: "ac_links c ident = None" using ok new(1) links_liveD [of c ident] by (cases "ac_links c ident") (auto simp: ctx_ok_def)
  have live: "impl_live ((ac_holders c)[k := m] ! j) a =
      (if j = k \<and> a = i then Some cb else impl_live (ac_holders c ! j) a)" for j a
    using k m(4) by (cases "j = k") auto
  have "impls_ok ?c'" using ok k m(1) by (auto simp: ctx_ok_def impls_ok_def nth_list_update)
  moreover have "links_live ?c'" unfolding links_live_def
  proof (intro conjI allI impI)
    have L: "links_live c" using ok by (simp add: ctx_ok_def)
    show "finite (dom (ac_links ?c'))" using L by (simp add: links_live_def)
    show "l = l'" if "ac_links ?c' l = Some x" "ac_links ?c' l' = Some x" for l l' x
      using that li links_live_inj [OF L] by (cases "l = ident"; cases "l' = ident") auto
    show "l \<in> ac_instantiated ?c'" if "ac_links ?c' l = Some (a, ko)" for l a ko
      using that links_liveD [OF L] by (cases "l = ident") auto
    show "\<exists>j cb'. ko = Some j \<and> j < length (ac_holders ?c') \<and> impl_live (ac_holders ?c' ! j) a = Some cb'"
      if x: "ac_links ?c' l = Some (a, ko)" for l a ko
    proof (cases "l = ident")
      case False
      then obtain j cb' where "ko = Some j" "j < length (ac_holders c)" "impl_live (ac_holders c ! j) a = Some cb'"
        using x links_liveD [OF L, of l a ko] by auto
      then show ?thesis using live [of j a] by auto
    qed (use x k live [of k i] in auto)
  qed
  moreover have "live_linked ?c'"
  proof -
    have L: "live_linked c" using ok by (simp add: ctx_ok_def)
    have "(\<exists>l. ((ac_links c)(ident \<mapsto> (i, Some k))) l = Some (a, Some j)) \<and>
        (\<exists>p \<in> insert ident (ac_instantiated c). ac_progs c p = Some (cb_prog cb'))"
      if j: "j < length (ac_holders c)" and lv: "impl_live ((ac_holders c)[k := m] ! j) a = Some cb'" for j a cb'
    proof (cases "j = k \<and> a = i")
      case True
      then have "cb' = cb" using lv live [of j a] by simp
      then show ?thesis using True p m(3) by auto
    next
      case False
      then have "impl_live (ac_holders c ! j) a = Some cb'" using lv live [of j a] by (simp split: if_splits)
      then obtain l q where "ac_links c l = Some (a, Some j)" "q \<in> ac_instantiated c" "ac_progs c q = Some (cb_prog cb')"
        using live_linkedD [OF L j] by blast
      moreover from this(1) have "l \<noteq> ident" using no by auto
      ultimately show ?thesis by auto
    qed
    then show ?thesis by (simp add: live_linked_def)
  qed
  moreover have "progs_ok hs ?c'" using ok new by (simp add: ctx_ok_def progs_ok_def)
  ultimately show ?thesis by (simp add: ctx_ok_def)
qed

lemma create_failed_step:
  assumes ok: "ctx_ok hs c" and k: "k < length (ac_holders c)"
    and s: "impl_create fe cb d t (ac_holders c ! k) = (Inl f, m)"
  shows "ctx_ok hs (c\<lparr>ac_holders := (ac_holders c)[k := m]\<rparr>)" (is "ctx_ok hs ?c'")
proof -
  have m: "impl_good m" "impl_live m = impl_live (ac_holders c ! k)"
    using imp.create_law [OF _ s] ok k by (auto simp: ctx_ok_def impls_ok_def)
  have live: "impl_live ((ac_holders c)[k := m] ! j) = impl_live (ac_holders c ! j)" for j
    using k m(2) by (cases "j = k") auto
  have "impls_ok ?c'" using ok k m(1) by (auto simp: ctx_ok_def impls_ok_def nth_list_update)
  then show ?thesis using ok by (simp add: ctx_ok_def links_live_def live_linked_def progs_ok_def live)
qed

lemma extends_create:
  assumes ok: "ctx_ok hs c" and k: "k < length (ac_holders c)" and new: "ident \<notin> ac_instantiated c"
    and p: "p \<in> ac_instantiated c" "ac_progs c p = Some n" and h: "lk_prog_id h = p"
    and s: "impl_create fe (Run_Prog n ck) d t (ac_holders c ! k) = (Inr i, m)"
    and c': "c' = c\<lparr>ac_holders := (ac_holders c)[k := m], ac_links := (ac_links c)(ident \<mapsto> (i, Some k)),
      ac_instantiated := insert ident (ac_instantiated c)\<rparr>"
  shows "extends c c' \<and> link_attached c' ident h"
proof -
  have g: "impl_good (ac_holders c ! k)" using ok k by (simp add: ctx_ok_def impls_ok_def)
  obtain cb where m: "impl_live (ac_holders c ! k) i = None" "cb_prog cb = n" "impl_live m = (impl_live (ac_holders c ! k))(i \<mapsto> cb)"
    using imp.create_law [OF g s] by auto
  have sm: "same_impl (ac_holders c ! k) m" using s by (rule impl_create_same)
  have "link_attached c' ident h" using k p h m unfolding link_attached_def c' by auto
  moreover have "extends c c'" using m(1,3) sm new k unfolding extends_def c' by (auto simp: nth_list_update)
  ultimately show ?thesis by blast
qed

lemma extends_create_failed:
  assumes ok: "ctx_ok hs c" and k: "k < length (ac_holders c)"
    and s: "impl_create fe cb d t (ac_holders c ! k) = (Inl f, m)"
  shows "extends c (c\<lparr>ac_holders := (ac_holders c)[k := m]\<rparr>)"
proof -
  have "impl_good (ac_holders c ! k)" using ok k by (simp add: ctx_ok_def impls_ok_def)
  from imp.create_law [OF this s] have "impl_live m = impl_live (ac_holders c ! k)" by simp
  moreover have "same_impl (ac_holders c ! k) m" using s by (rule impl_create_same)
  ultimately show ?thesis using k by (auto simp: extends_def nth_list_update)
qed

lemma progs_are_programs: "ctx_ok hs c \<Longrightarrow> ac_progs c p \<noteq> None \<Longrightarrow> p \<notin> ac_instantiated c \<Longrightarrow> \<exists>h. hs ! nat p = Prog_H h"
  unfolding ctx_ok_def progs_ok_def by (metis option.exhaust)

lemma link_step:
  assumes ok: "ctx_ok hs c" and new: "ident \<notin> ac_instantiated c" "ac_progs c ident = None"
    and p: "ac_progs c (lk_prog_id h) \<noteq> None \<Longrightarrow> lk_prog_id h \<in> ac_instantiated c"
    and s: "instantiate_bpf_link_handler_at env ident h c = (r, c')"
  shows "ctx_ok hs c' \<and> ac_instantiated c' = (if r = Inr () then insert ident (ac_instantiated c) else ac_instantiated c) \<and>
    extends c c' \<and> (r = Inr () \<longrightarrow> link_attached c' ident h)"
proof -
  define d where "d = (case ac_perf_events c (lk_attach_target_id h) of
      None \<Rightarrow> c\<lparr>ac_perf_events := (ac_perf_events c)(lk_attach_target_id h \<mapsto> (None, 0))\<rparr> | Some _ \<Rightarrow> c)"
  have d: "ctx_ok hs d" "ac_instantiated d = ac_instantiated c" "ac_progs d = ac_progs c"
    using ok by (auto simp: d_def ctx_ok_perf_events split: option.split)
  have x: "extends c d" by (auto simp: d_def extends_def split: option.split)
  obtain pd t where e: "the (ac_perf_events d (lk_attach_target_id h)) = (pd, t)" by fastforce
  have s': "(case ac_impls d t of None \<Rightarrow> (Inl (NegErrno ENOTSUP), d)
      | Some (k, gen) \<Rightarrow> (case ac_progs d (lk_prog_id h) of None \<Rightarrow> (Inl Throw, d)
      | Some prog \<Rightarrow> (case pd of None \<Rightarrow> (Inl UB, d)
      | Some x \<Rightarrow> (case impl_create (ae_frida env) (Run_Prog prog (lk_attach_cookie h)) x t (ac_holders d ! k) of
          (Inl f, m) \<Rightarrow> (Inl f, d\<lparr>ac_holders := (ac_holders d)[k := m]\<rparr>)
        | (Inr i, m) \<Rightarrow> (Inr (), d\<lparr>ac_holders := (ac_holders d)[k := m], ac_links := (ac_links d)(ident \<mapsto> (i, Some k)),
            ac_instantiated := insert ident (ac_instantiated d)\<rparr>))))) = (r, c')"
    using s unfolding instantiate_bpf_link_handler_at_def d_def [symmetric] Let_def e by simp
  have k: "k < length (ac_holders d)" if "ac_impls d t = Some (k, gen)" for k gen
    using that d(1) unfolding ctx_ok_def impls_ok_def by blast
  show ?thesis
  proof (cases "ac_impls d t")
    case (Some a)
    obtain k gen where a: "a = (k, gen)" by fastforce
    show ?thesis
    proof (cases "ac_progs d (lk_prog_id h) = None \<or> pd = None")
      case False
      then obtain n x where n: "ac_progs d (lk_prog_id h) = Some n" "pd = Some x" by auto
      then have q: "lk_prog_id h \<in> ac_instantiated d" using p d by simp
      obtain z m where z: "impl_create (ae_frida env) (Run_Prog n (lk_attach_cookie h)) x t (ac_holders d ! k) = (z, m)" by fastforce
      note k = k [OF Some [unfolded a]]
      show ?thesis
      proof (cases z)
        case (Inl f)
        then have c': "c' = d\<lparr>ac_holders := (ac_holders d)[k := m]\<rparr>" "r = Inl f" using s' Some a n z by auto
        have "extends d c'" unfolding c' by (rule extends_create_failed [OF d(1) k z [unfolded Inl]])
        then show ?thesis using c' create_failed_step [OF d(1) k z [unfolded Inl]] d(2) extends_trans [OF x] by simp
      next
        case (Inr i)
        then have c': "c' = d\<lparr>ac_holders := (ac_holders d)[k := m], ac_links := (ac_links d)(ident \<mapsto> (i, Some k)),
            ac_instantiated := insert ident (ac_instantiated d)\<rparr>" "r = Inr ()" using s' Some a n z by auto
        have "extends d c' \<and> link_attached c' ident h" unfolding c'
          using extends_create [OF d(1) k _ q n(1) refl z [unfolded Inr] refl] new d(2) by simp
        then show ?thesis using c' create_step [OF d(1) k _ _ q n(1) z [unfolded Inr]] new d(2,3) extends_trans [OF x] by simp
      qed
    qed (use s' Some a d x in \<open>auto split: option.splits\<close>)
  qed (use s' d x in auto)
qed

lemma prog_instantiated:
  "instantiate_prog_handler_at env ident h c = (r, c') \<Longrightarrow>
   ac_instantiated c' = (if r = Inr () then insert ident (ac_instantiated c) else ac_instantiated c)"
  by (auto simp: instantiate_prog_handler_at_def Let_def split: prod.splits sum.splits)

lemma perf_instantiated:
  "instantiate_perf_event_handler_at ident h c = (r, c') \<Longrightarrow>
   ac_instantiated c' = ac_instantiated c \<or> ac_instantiated c' = insert ident (ac_instantiated c)"
  by (auto simp: instantiate_perf_event_handler_at_def split: if_splits option.splits sum.splits)

text \<open>
  \<open>steps hs stk c c'\<close>: a well-formed extension in which everything new is settled and nothing of
  \<open>stk\<close> is new.
\<close>

definition steps :: "handler_variant list \<Rightarrow> int set \<Rightarrow> ('vm, 'fn) attach_ctx \<Rightarrow> ('vm, 'fn) attach_ctx \<Rightarrow> bool" where
  "steps hs stk c c' \<longleftrightarrow> ctx_ok hs c' \<and> extends c c' \<and> (\<forall>x \<in> ac_instantiated c' - ac_instantiated c. settled hs c' x \<and> x \<notin> stk)"

lemma steps_refl: "ctx_ok hs c \<Longrightarrow> steps hs stk c c"
  by (simp add: steps_def)

lemma steps_trans:
  assumes "steps hs stk c d" and "steps hs stk d e"
  shows "steps hs stk c e"
proof -
  have "settled hs e x \<and> x \<notin> stk" if "x \<in> ac_instantiated e - ac_instantiated c" for x
    using that assms settled_extends [of d e x hs] by (cases "x \<in> ac_instantiated d") (auto simp: steps_def)
  then show ?thesis using assms extends_trans [of c d e] by (simp add: steps_def)
qed

lemma steps_mono: "steps hs (insert i stk) c c' \<Longrightarrow> steps hs stk c c'"
  by (auto simp: steps_def)

lemma steps_one:
  assumes "ctx_ok hs c'" and "extends c c'" and "ac_instantiated c' \<subseteq> insert i (ac_instantiated c)" and "i \<notin> stk"
    and "i \<in> ac_instantiated c' \<Longrightarrow> settled hs c' i"
  shows "steps hs stk c c'"
  using assms by (auto simp: steps_def)

lemma prog_settled: "hs ! nat ident = Prog_H h \<Longrightarrow> instantiate_prog_handler_at env ident h c = (r, c') \<Longrightarrow> settled hs c' ident"
  by (auto simp: settled_def instantiate_prog_handler_at_def Let_def split: prod.splits sum.splits)

lemma perf_settled:
  "hs ! nat ident = Perf_H h \<Longrightarrow> instantiate_perf_event_handler_at ident h c = (r, c') \<Longrightarrow> ident \<notin> ac_instantiated c \<Longrightarrow>
   ident \<in> ac_instantiated c' \<Longrightarrow> settled hs c' ident"
  by (auto simp: settled_def event_data_def instantiate_perf_event_handler_at_def split: if_splits option.splits sum.splits)

text \<open>The table entry of a handler that is neither instantiated nor in progress.\<close>

lemma instantiate_new:
  assumes "ident \<notin> ac_instantiated c" and "ident \<notin> stk" and "\<not> (ident < 0 \<or> nat ident \<ge> length hs)"
  shows "instantiate_handler_at env hs ident stk c = (case hs ! nat ident of
      Prog_H h \<Rightarrow> instantiate_prog_handler_at env ident h c
    | Perf_H h \<Rightarrow> instantiate_perf_event_handler_at ident h c
    | Link_H h \<Rightarrow>
        (case instantiate_handler_at env hs (lk_prog_id h) (insert ident stk) c of
           (Inl f, c1) \<Rightarrow> (Inl f, c1)
         | (Inr _, c1) \<Rightarrow>
             (case instantiate_handler_at env hs (lk_attach_target_id h) (insert ident stk) c1 of
                (Inl f, c2) \<Rightarrow> (Inl f, c2)
              | (Inr _, c2) \<Rightarrow> instantiate_bpf_link_handler_at env ident h c2))
    | _ \<Rightarrow> (Inr (), c))"
  using assms by (subst instantiate_handler_at.simps) simp

lemma not_prog: "ctx_ok hs c \<Longrightarrow> p \<notin> ac_instantiated c \<Longrightarrow> (\<And>h. hs ! nat p \<noteq> Prog_H h) \<Longrightarrow> ac_progs c p = None"
  using progs_are_programs [of hs c p] by (cases "ac_progs c p") auto

text \<open>A link after its program and its target.\<close>

lemma link_handler_step:
  assumes i2: "steps hs (insert ident stk) c c2" and n: "ident \<notin> ac_instantiated c" "ident \<notin> stk"
    and h: "hs ! nat ident = Link_H h" and p: "\<And>g. hs ! nat (lk_prog_id h) = Prog_H g \<Longrightarrow> lk_prog_id h \<in> ac_instantiated c2"
    and s: "instantiate_bpf_link_handler_at env ident h c2 = (r, c')"
  shows "steps hs stk c c'"
proof -
  have ok2: "ctx_ok hs c2" and nc: "ident \<notin> ac_instantiated c2" using i2 n(1) by (auto simp: steps_def)
  have np: "ac_progs c2 ident = None" using not_prog [OF ok2 nc] h by simp
  have pp: "lk_prog_id h \<in> ac_instantiated c2" if "ac_progs c2 (lk_prog_id h) \<noteq> None"
    using that progs_are_programs [OF ok2] p by blast
  note st = link_step [OF ok2 nc np pp s]
  have "steps hs stk c2 c'"
    using st n(2) nc h by (intro steps_one [where i = ident]) (auto simp: settled_def split: if_splits)
  then show ?thesis using i2 steps_mono steps_trans by blast
qed

text \<open>
  Instantiating a handler keeps the context well-formed, never touches a handler that is being
  instantiated further up, and leaves a program instantiated if it succeeds.
\<close>

lemma handler_steps:
  assumes "ctx_ok hs c" and "instantiate_handler_at env hs ident stk c = (r, c')"
  shows "steps hs stk c c' \<and> (r = Inr () \<longrightarrow> (\<forall>h. hs ! nat ident = Prog_H h \<longrightarrow> ident \<in> ac_instantiated c'))"
  using assms
proof (induction env hs ident stk c arbitrary: r c' rule: instantiate_handler_at.induct)
  case (1 env hs ident stk c)
  show ?case
  proof (cases "ident \<in> ac_instantiated c \<or> ident \<in> stk \<or> ident < 0 \<or> nat ident \<ge> length hs")
    case True
    then show ?thesis using 1(3,4) steps_refl by (subst (asm) instantiate_handler_at.simps) (auto split: if_splits)
  next
    case False
    then have n: "ident \<notin> ac_instantiated c" "ident \<notin> stk" "\<not> (ident < 0 \<or> nat ident \<ge> length hs)" by auto
    note e = 1(4) [unfolded instantiate_new [OF n]]
    show ?thesis
    proof (cases "hs ! nat ident")
      case (Prog_H h)
      then have s: "instantiate_prog_handler_at env ident h c = (r, c')" using e by simp
      have "steps hs stk c c'"
        using prog_step [OF 1(3) n(1) _ _ Prog_H s] n prog_instantiated [OF s] extends_prog [OF n(1) s] prog_settled [OF Prog_H s]
        by (intro steps_one [where i = ident]) (auto split: if_splits)
      then show ?thesis using prog_instantiated [OF s] by simp
    next
      case (Perf_H h)
      then have s: "instantiate_perf_event_handler_at ident h c = (r, c')" using e by simp
      have np: "ac_progs c ident = None" using not_prog [OF 1(3) n(1)] Perf_H by simp
      have "steps hs stk c c'"
        using perf_step [OF 1(3) np s] n perf_instantiated [OF s] extends_perf [OF n(1) s] perf_settled [OF Perf_H s n(1)]
        by (intro steps_one [where i = ident]) auto
      then show ?thesis using Perf_H by simp
    next
      case (Link_H h)
      obtain r1 c1 where s1: "instantiate_handler_at env hs (lk_prog_id h) (insert ident stk) c = (r1, c1)" by fastforce
      obtain r2 c2 where s2: "instantiate_handler_at env hs (lk_attach_target_id h) (insert ident stk) c1 = (r2, c2)" by fastforce
      note i1 = 1(1) [OF n Link_H 1(3) s1]
      show ?thesis
      proof (cases r1)
        case (Inr u1)
        have "ctx_ok hs c1" using i1 by (simp add: steps_def)
        from 1(2) [OF n Link_H s1 [symmetric] Inr this s2] have i2: "steps hs (insert ident stk) c1 c2" by simp
        have i: "steps hs (insert ident stk) c c2" using i1 i2 steps_trans by blast
        have p: "lk_prog_id h \<in> ac_instantiated c2" if "hs ! nat (lk_prog_id h) = Prog_H g" for g
          using that i1 i2 Inr by (auto simp: steps_def extends_def)
        have l: "steps hs stk c c'" if "instantiate_bpf_link_handler_at env ident h c2 = (r, c')"
          using link_handler_step [OF i n(1,2) Link_H _ that] p by blast
        show ?thesis using e Link_H s1 s2 Inr l steps_mono [OF i] by (cases r2) auto
      qed (use e Link_H s1 i1 steps_mono in auto)
    qed (use e 1(3) steps_refl in auto)
  qed
qed

lemma handler_step:
  assumes "ctx_ok hs c" and "instantiate_handler_at env hs ident stk c = (r, c')"
  shows "ctx_ok hs c' \<and> extends c c' \<and> (\<forall>x \<in> ac_instantiated c' - ac_instantiated c. settled hs c' x) \<and>
    (r = Inr () \<longrightarrow> (\<forall>h. hs ! nat ident = Prog_H h \<longrightarrow> ident \<in> ac_instantiated c'))"
  using handler_steps [OF assms] by (simp add: steps_def)

subsection \<open>Reachable contexts\<close>

text \<open>
  Contexts that are reached by registering implementations before they are used, reading tables and destroying links. The table
  may change between two reads (\<open>ac_changes\<close>), with one restriction: a descriptor under which a program failed to load holds a
  program again when the context next reads the table. \<open>hs\<close> is the table that is read next.
\<close>

definition failed_progs :: "('vm, 'fn) attach_ctx \<Rightarrow> int set" where
  "failed_progs c = dom (ac_progs c) - ac_instantiated c"

fun impl_fresh :: "attach_impl \<Rightarrow> bool" where
  "impl_fresh (Syscall_Impl s) = (s = sy_new)"
| "impl_fresh (Frida_Impl s) = (s = fr_new)"
| "impl_fresh (Simple_Impl s) = (\<exists>t. s = sa_new t)"

inductive ac_reach :: "('vm, 'fn, 'w) agent_env \<Rightarrow> handler_variant list \<Rightarrow> ('vm, 'fn) attach_ctx \<Rightarrow> bool" for env where
  ac_start: "ac_reach env hs ac_new"
| ac_changes: "ac_reach env hs c \<Longrightarrow> (\<And>p. p \<in> failed_progs c \<Longrightarrow> \<exists>h. hs' ! nat p = Prog_H h) \<Longrightarrow> ac_reach env hs' c"
| ac_registers: "ac_reach env hs c \<Longrightarrow> impl_fresh m \<Longrightarrow> ac_reach env hs (register_attach_impl ts m gen c)"
| ac_inits: "ac_reach env hs c \<Longrightarrow> ac_reach env hs (snd (init_attach_ctx_from_handlers env (Some hs) c))"
| ac_destroys: "ac_reach env hs c \<Longrightarrow> ac_reach env hs (snd (destroy_instantiated_attach_link l c))"
| ac_destroys_all: "ac_reach env hs c \<Longrightarrow> ac_reach env hs (snd (destroy_all_attach_links c))"

lemma all_step: "ctx_ok hs c \<Longrightarrow> ctx_ok hs (snd (instantiate_all env hs is c))"
proof (induction "is" arbitrary: c)
  case (Cons i "is")
  obtain r c' where "instantiate_handler_at env hs (int i) {} c = (r, c')" by fastforce
  then show ?case using Cons handler_step [of hs c env "int i" "{}" r c']
    by (auto split: sum.splits fault.splits)
qed simp

lemma init_step: "ctx_ok hs c \<Longrightarrow> ctx_ok hs (snd (init_attach_ctx_from_handlers env (Some hs) c))"
  using all_step [of hs c env "[0..<length hs]"] all_step [of hs "snd (instantiate_all env hs [0..<length hs] c)" env "[0..<length hs]"]
  by (cases "instantiate_all env hs [0..<length hs] c") (simp add: init_attach_ctx_from_handlers_def split: sum.splits)

lemma fresh_good: "impl_fresh m \<Longrightarrow> impl_good m \<and> impl_live m = Map.empty"
proof (cases m)
  case (Syscall_Impl s)
  assume "impl_fresh m"
  then show ?thesis using Syscall_Impl sy_good_new by (auto simp: sy_live_def sy_new_def fun_eq_iff)
next
  case (Frida_Impl s)
  assume "impl_fresh m"
  then show ?thesis using Frida_Impl fr_good_new by (auto simp: fr_live_def fr_new_def fun_eq_iff)
next
  case (Simple_Impl s)
  assume "impl_fresh m"
  then show ?thesis using Simple_Impl sa_good_new by (auto simp: sa_live_def sa_new_def)
qed

lemma fold_impls: "fold (\<lambda>ty m. m(ty \<mapsto> x)) ts M t = (if t \<in> set ts then Some x else M t)"
  by (induction ts arbitrary: M) auto

lemma register_step:
  assumes ok: "ctx_ok hs c" and m: "impl_fresh m"
  shows "ctx_ok hs (register_attach_impl ts m gen c)" (is "ctx_ok hs ?c'")
proof -
  have new: "impl_good m" "impl_live m = Map.empty" using fresh_good [OF m] by auto
  have f: "ac_links ?c' = ac_links c" "ac_instantiated ?c' = ac_instantiated c" "ac_progs ?c' = ac_progs c" "ac_heap ?c' = ac_heap c"
      "ac_next ?c' = ac_next c" "ac_holders ?c' = ac_holders c @ [m]"
      "\<And>t. ac_impls ?c' t = (if t \<in> set ts then Some (length (ac_holders c), gen) else ac_impls c t)"
    by (simp_all add: register_attach_impl_def Let_def fold_impls)
  have "impls_ok ?c'" using ok new(1) unfolding ctx_ok_def impls_ok_def f
    by (auto simp: nth_append less_Suc_eq split: if_splits)
  moreover have "links_live ?c'" using ok unfolding ctx_ok_def links_live_def f
    by (simp add: nth_append) (metis less_Suc_eq)
  moreover have "live_linked ?c'" using ok new(2) unfolding ctx_ok_def live_linked_def f by (auto simp: nth_append less_Suc_eq)
  moreover have "progs_ok hs ?c'" using ok unfolding ctx_ok_def progs_ok_def f by simp
  ultimately show ?thesis by (simp add: ctx_ok_def)
qed

text \<open>Destroying a link of the context always succeeds.\<close>

lemma destroy_step:
  assumes ok: "ctx_ok hs c" and l: "ac_links c l = Some x"
  shows "\<exists>c'. destroy_instantiated_attach_link l c = (Inr (), c') \<and> ctx_ok hs c' \<and> ac_links c' = (ac_links c)(l := None)"
proof -
  have L: "links_live c" using ok by (simp add: ctx_ok_def)
  obtain i k cb where x: "x = (i, Some k)" "k < length (ac_holders c)" "impl_live (ac_holders c ! k) i = Some cb"
    using links_liveD [OF L, of l "fst x" "snd x"] l by (cases x) auto
  have "impl_good (ac_holders c ! k)" using ok x(2) by (simp add: ctx_ok_def impls_ok_def)
  then obtain m where m: "impl_detach i (ac_holders c ! k) = (Inr (), m)" "impl_good m"
      "impl_live m = (impl_live (ac_holders c ! k))(i := None)"
    using imp.detach_law x(3) by blast
  define c' where "c' = c\<lparr>ac_holders := (ac_holders c)[k := m], ac_links := (ac_links c)(l := None)\<rparr>"
  have d: "destroy_instantiated_attach_link l c = (Inr (), c')"
    using l x m by (simp add: destroy_instantiated_attach_link_def c'_def)
  have live: "impl_live ((ac_holders c)[k := m] ! j) a = (if j = k \<and> a = i then None else impl_live (ac_holders c ! j) a)" for j a
    using x(2) m(3) by (cases "j = k") auto
  have "impls_ok c'" using ok m(2) x(2) unfolding ctx_ok_def impls_ok_def c'_def by (auto simp: nth_list_update)
  moreover have "progs_ok hs c'" using ok by (simp add: ctx_ok_def progs_ok_def c'_def)
  moreover have "live_linked c'" unfolding live_linked_def
  proof (intro allI impI)
    fix j a cb' assume j: "j < length (ac_holders c')" and v: "impl_live (ac_holders c' ! j) a = Some cb'"
    have v': "impl_live (ac_holders c ! j) a = Some cb'" "\<not> (j = k \<and> a = i)" using v live [of j a] by (auto simp: c'_def split: if_splits)
    then obtain l' where "ac_links c l' = Some (a, Some j)" "\<exists>p \<in> ac_instantiated c. ac_progs c p = Some (cb_prog cb')"
      using live_linkedD [of c j a cb'] ok j by (auto simp: ctx_ok_def c'_def)
    moreover from this(1) have "l' \<noteq> l" using l x(1) v'(2) by auto
    ultimately show "(\<exists>l. ac_links c' l = Some (a, Some j)) \<and> (\<exists>p \<in> ac_instantiated c'. ac_progs c' p = Some (cb_prog cb'))"
      by (auto simp: c'_def)
  qed
  moreover have "links_live c'" unfolding links_live_def
  proof (intro conjI allI impI)
    show "finite (dom (ac_links c'))" using L by (simp add: links_live_def c'_def)
    show "l1 = l2" if "ac_links c' l1 = Some y" "ac_links c' l2 = Some y" for l1 l2 y
      using that links_live_inj [OF L] by (auto simp: c'_def split: if_splits)
    show "l' \<in> ac_instantiated c'" if "ac_links c' l' = Some (a, ko)" for l' a ko
      using that links_liveD [OF L] by (auto simp: c'_def split: if_splits)
    show "\<exists>j cb'. ko = Some j \<and> j < length (ac_holders c') \<and> impl_live (ac_holders c' ! j) a = Some cb'"
      if y: "ac_links c' l' = Some (a, ko)" for l' a ko
    proof -
      have "ac_links c l' = Some (a, ko)" "l' \<noteq> l" using y by (auto simp: c'_def split: if_splits)
      then obtain j cb' where "ko = Some j" "j < length (ac_holders c)" "impl_live (ac_holders c ! j) a = Some cb'" "\<not> (j = k \<and> a = i)"
        using links_liveD [OF L, of l' a ko] links_live_inj [OF L, of l' _ l] l x(1) by auto
      then show ?thesis using live [of j a] by (auto simp: c'_def)
    qed
  qed
  ultimately show ?thesis using d by (auto simp: ctx_ok_def c'_def)
qed

lemma destroy_any: "ctx_ok hs c \<Longrightarrow> ctx_ok hs (snd (destroy_instantiated_attach_link l c))"
  using destroy_step [of hs c l] by (cases "ac_links c l") (auto simp: destroy_instantiated_attach_link_def)

lemma destroy_links_step:
  assumes "ctx_ok hs c" and "distinct ls" and "set ls \<subseteq> dom (ac_links c)"
  shows "\<exists>c'. destroy_links ls c = (Inr (), c') \<and> ctx_ok hs c' \<and> ac_links c' = ac_links c |` (- set ls)"
  using assms
proof (induction ls arbitrary: c)
  case (Cons l ls)
  then obtain x where "ac_links c l = Some x" by auto
  then obtain c1 where c1: "destroy_instantiated_attach_link l c = (Inr (), c1)" "ctx_ok hs c1" "ac_links c1 = (ac_links c)(l := None)"
    using destroy_step [OF Cons.prems(1)] by blast
  have "set ls \<subseteq> dom (ac_links c1)" using c1(3) Cons.prems by auto
  then obtain c2 where "destroy_links ls c1 = (Inr (), c2)" "ctx_ok hs c2" "ac_links c2 = ac_links c1 |` (- set ls)"
    using Cons.IH [OF c1(2)] Cons.prems(2) by auto
  then show ?case using c1 by (auto simp: restrict_map_def fun_eq_iff)
qed (simp add: restrict_map_def)

lemma restrict_compl_dom: "m |` (- dom m) = Map.empty"
  by (rule ext) (auto simp: restrict_map_def)

lemma destroy_all_step:
  assumes "ctx_ok hs c"
  shows "\<exists>c'. destroy_all_attach_links c = (Inr (), c') \<and> ctx_ok hs c' \<and> ac_links c' = Map.empty"
proof -
  have f: "finite (dom (ac_links c))" using assms by (simp add: ctx_ok_def links_live_def)
  show ?thesis using restrict_compl_dom [of "ac_links c"] destroy_links_step [OF assms, of "sorted_list_of_set (dom (ac_links c))"] f
    by (simp add: destroy_all_attach_links_def)
qed

lemma ctx_ok_changes:
  "ctx_ok hs c \<Longrightarrow> (\<And>p. p \<in> failed_progs c \<Longrightarrow> \<exists>h. hs' ! nat p = Prog_H h) \<Longrightarrow> ctx_ok hs' c"
  unfolding ctx_ok_def progs_ok_def failed_progs_def by (auto split: if_splits)

lemma reach_ok: "ac_reach env hs c \<Longrightarrow> ctx_ok hs c"
proof (induction rule: ac_reach.induct)
  case (ac_destroys_all hs c)
  then show ?case using destroy_all_step [of hs c] by auto
next
  case (ac_changes hs c hs')
  then show ?case using ctx_ok_changes [of hs c hs'] by blast
qed (simp_all add: ctx_ok_new register_step init_step destroy_any)

end
