(* ===== verification/Agent.thy ===== *)
theory Agent
  imports Attach_Ctx Bpftime_Shm
begin

text \<open>
  What the agent can rely on: the programs it attached can run, all of them can be detached again,
  and the links of the table it reads are attached through the implementations that \<open>agent.cpp\<close>
  registers.
\<close>

subsection \<open>The agent\<close>

text \<open>The implementations the agent registers (\<open>agent.cpp\<close>). \<open>tp\<close> and \<open>nr_of\<close> are the tables of system call tracepoints.\<close>

definition agent_setup :: "frida_env \<Rightarrow> (int \<rightharpoonup> string) \<Rightarrow> (string \<rightharpoonup> int) \<Rightarrow> ('vm, 'fn) attach_ctx" where
  "agent_setup fe tp nr_of =
     register_attach_impl [ATTACH_UPROBE, ATTACH_URETPROBE, ATTACH_UPROBE_OVERRIDE, ATTACH_UREPLACE]
       (Frida_Impl fr_new) (frida_data_from_string fe)
       (register_attach_impl [ATTACH_SYSCALL_TRACE] (Syscall_Impl sy_new) (syscall_data_from_string tp nr_of) ac_new)"

text \<open>
  The global state of the agent. \<open>ag_ctx\<close> is \<open>None\<close> before the context is constructed. \<open>opened\<close> is
  whether the shared memory can be opened, \<open>injected\<close> whether frida injected the agent. An
  exception that ends the instantiation is caught and logged.
\<close>

record ('vm, 'fn) agent =
  ag_initialized :: bool
  ag_ctx :: "('vm, 'fn) attach_ctx option"
  ag_shm :: bpftime_shm

definition bpftime_agent_main ::
  "('vm, 'fn, 'w) agent_env \<Rightarrow> (int \<rightharpoonup> string) \<Rightarrow> (string \<rightharpoonup> int) \<Rightarrow> bool \<Rightarrow> bool \<Rightarrow> int \<Rightarrow> ('vm, 'fn) agent \<Rightarrow>
   unit res \<times> ('vm, 'fn) agent"
where
  "bpftime_agent_main env tp nr_of opened injected pid a =
     (if ag_initialized a then (Inr (), a)
      else if \<not> opened then (Inr (), a\<lparr>ag_initialized := True\<rparr>)
      else
        (let shm = (if injected then add_pid_into_alive_agent_set pid (ag_shm a) else ag_shm a) in
         case init_attach_ctx_from_handlers env (sh_manager shm) (agent_setup (ae_frida env) tp nr_of) of
           (r, c) \<Rightarrow> (if r = Inl UB then Inl UB else Inr (), a\<lparr>ag_initialized := True, ag_ctx := Some c, ag_shm := shm\<rparr>)))"

text \<open>A failed detach is only logged.\<close>

definition sig_handler_sigusr1_detach :: "int \<Rightarrow> ('vm, 'fn) agent \<Rightarrow> unit res \<times> ('vm, 'fn) agent" where
  "sig_handler_sigusr1_detach pid a = (case ag_ctx a of
       None \<Rightarrow> (Inl UB, a)
     | Some c \<Rightarrow> (case destroy_all_attach_links c of
           (Inl f, c') \<Rightarrow> (if f = UB then Inl UB else if f = Throw then Inl Throw else Inr (), a\<lparr>ag_ctx := Some c'\<rparr>)
         | (Inr _, c') \<Rightarrow> (Inr (), a\<lparr>ag_ctx := Some c', ag_shm := remove_pid_from_alive_agent_set pid (ag_shm a), ag_initialized := False\<rparr>)))"

subsection \<open>Attached programs can run\<close>

lemma exec_loaded: "loaded p \<Longrightarrow> \<exists>v w'. bpftime_prog_exec ops memory p w = (Inr v, w')"
  by (auto simp: loaded_def bpftime_prog_exec_def split: option.splits bool.splits prod.splits)

lemma run_loaded:
  assumes "heap (cb_prog cb) = Some p" and "loaded p"
  shows "\<exists>v w'. run_ebpf_cb ops cookie retval heap cb memory w = (Inr v, w')"
  using assms
proof (induction cb)
  case (Run_Prog n ck)
  then show ?case using exec_loaded [of p ops memory "cookie ck w"] by simp
next
  case (Then_Set_Retval cb)
  then obtain v w' where r: "run_ebpf_cb ops cookie retval heap cb memory w = (Inr v, w')" by auto
  obtain e val where "v = (e, val)" by fastforce
  then show ?case using r by (cases e) simp_all
qed

text \<open>
  C15. Whatever implementations are registered, tables read and links destroyed, provided that a descriptor under which a
  program failed to load holds a program again in the tables read later: every live
  attachment belongs to a link of the context, and running its callback reaches a program
  object that is still owned, was loaded, and has compiled code if it is meant to be jitted. No
  callback follows a pointer to a freed or half-loaded program.
\<close>

theorem attached_programs_run:
  assumes "ac_reach env hs c" and "k < length (ac_holders c)" and "impl_live (ac_holders c ! k) i = Some cb"
  shows "(\<exists>l. ac_links c l = Some (i, Some k)) \<and>
    (\<exists>v w'. run_ebpf_cb (ae_ops env) cookie retval (ac_heap c) cb memory w = (Inr v, w'))"
proof -
  have ok: "ctx_ok hs c" using assms(1) by (rule reach_ok)
  obtain l p where l: "ac_links c l = Some (i, Some k)" and p: "p \<in> ac_instantiated c" "ac_progs c p = Some (cb_prog cb)"
    using live_linkedD [of c k i cb] ok assms(2,3) by (auto simp: ctx_ok_def)
  obtain q where "ac_heap c (cb_prog cb) = Some q" "loaded q" using ok p unfolding ctx_ok_def progs_ok_def by metis
  then show ?thesis using l run_loaded [of "ac_heap c" cb q "ae_ops env" cookie retval memory w] by blast
qed

lemma no_links_no_live:
  "ctx_ok hs c \<Longrightarrow> ac_links c = Map.empty \<Longrightarrow> k < length (ac_holders c) \<Longrightarrow> impl_live (ac_holders c ! k) = Map.empty"
  using live_linkedD [of c k] by (fastforce simp: ctx_ok_def fun_eq_iff)

text \<open>
  \<open>destroy_all_attach_links\<close> always succeeds in a context that was reached by registering,
  reading a table and destroying links, and leaves no program attached anywhere.
\<close>

theorem destroy_all_detaches:
  assumes "ac_reach env hs c"
  shows "\<exists>c'. destroy_all_attach_links c = (Inr (), c') \<and> ac_links c' = Map.empty \<and>
    (\<forall>k. k < length (ac_holders c') \<longrightarrow> impl_live (ac_holders c' ! k) = Map.empty)"
proof -
  obtain c' where c': "destroy_all_attach_links c = (Inr (), c')" "ctx_ok hs c'" "ac_links c' = Map.empty"
    using destroy_all_step [OF reach_ok [OF assms]] by blast
  then show ?thesis using no_links_no_live [OF c'(2,3)] by blast
qed

subsection \<open>Links of the table get attached\<close>

definition all_settled :: "handler_variant list \<Rightarrow> ('vm, 'fn) attach_ctx \<Rightarrow> bool" where
  "all_settled hs c \<longleftrightarrow> (\<forall>x \<in> ac_instantiated c. settled hs c x)"

lemma all_settled_step:
  assumes "ctx_ok hs c" and "all_settled hs c" and "instantiate_handler_at env hs ident stk c = (r, c')"
  shows "ctx_ok hs c' \<and> all_settled hs c' \<and> extends c c'"
proof -
  note st = handler_step [OF assms(1,3)]
  have "settled hs c' x" if "x \<in> ac_instantiated c'" for x
    using st that assms(2) settled_extends [of c c' x hs] by (cases "x \<in> ac_instantiated c") (auto simp: all_settled_def)
  then show ?thesis using st by (simp add: all_settled_def)
qed

text \<open>A loop that is not cut short comes to every handler of the table.\<close>

lemma instantiate_all_reaches:
  assumes "ctx_ok hs c" and "all_settled hs c" and "instantiate_all env hs is c = (Inr (), c')"
  shows "ctx_ok hs c' \<and> all_settled hs c' \<and> extends c c' \<and> (\<forall>i \<in> set is. is_allocated (int i) hs \<longrightarrow>
    (\<exists>c1 r c2. ctx_ok hs c1 \<and> all_settled hs c1 \<and> extends c c1 \<and> instantiate_handler_at env hs (int i) {} c1 = (r, c2) \<and> extends c2 c'))"
  using assms
proof (induction "is" arbitrary: c)
  case (Cons i "is")
  show ?case
  proof (cases "is_allocated (int i) hs")
    case True
    obtain r c2 where s: "instantiate_handler_at env hs (int i) {} c = (r, c2)" by fastforce
    note st = all_settled_step [OF Cons.prems(1,2) s]
    have "instantiate_all env hs is c2 = (Inr (), c')"
      using Cons.prems(3) True s by (auto split: sum.splits fault.splits)
    then have i: "ctx_ok hs c' \<and> all_settled hs c' \<and> extends c2 c' \<and> (\<forall>i \<in> set is. is_allocated (int i) hs \<longrightarrow>
      (\<exists>c1 r c3. ctx_ok hs c1 \<and> all_settled hs c1 \<and> extends c2 c1 \<and> instantiate_handler_at env hs (int i) {} c1 = (r, c3) \<and> extends c3 c'))"
      using Cons.IH [of c2] st by blast
    have e: "extends c x" if "extends c2 x" for x using that st extends_trans [of c c2 x] by blast
    show ?thesis using i e st s Cons.prems(1,2) extends_refl [of c] by (simp only: set_simps Ball_def insert_iff) blast
  next
    case False
    then show ?thesis using Cons by simp
  qed
qed simp

lemma prog_succeeds:
  assumes "0 \<le> p" and "nat p < length hs" and "hs ! nat p = Prog_H h" and "p \<notin> stk"
    and "fst (load_prog_and_helpers (ae_ops env) (ae_ufunc env) (ae_config env) (bp_new (ae_ops env) (pr_insns h) (pr_name h))) = Inr ()"
  shows "fst (instantiate_handler_at env hs p stk c) = Inr ()"
  using assms by (subst instantiate_handler_at.simps) (auto simp: instantiate_prog_handler_at_def Let_def split: prod.splits)

lemma perf_succeeds:
  assumes "0 \<le> e" and "nat e < length hs" and "hs ! nat e = Perf_H h" and "e \<notin> stk"
    and "event_data c h = Inr d" and "ph_type h \<noteq> event_type_code PERF_TYPE_SOFTWARE"
  shows "fst (instantiate_handler_at env hs e stk c) = Inr () \<and> e \<in> ac_instantiated (snd (instantiate_handler_at env hs e stk c))"
  using assms by (subst (1 2) instantiate_handler_at.simps)
    (auto simp: instantiate_perf_event_handler_at_def event_data_def split: option.splits prod.splits)

text \<open>
  The restriction on the tables is needed. If the descriptor of a program that failed to load holds an event in the next
  table, it counts as instantiated with the program that is not loaded, and a program that a later
  table has under the descriptor is not loaded again.
\<close>

theorem failed_program_instantiated:
  assumes "ac_progs c p = Some n" and "0 \<le> p" and "nat p < length hs" and "hs ! nat p = Perf_H h" and "p \<notin> ac_instantiated c"
    and "event_data c h = Inr d" and "ph_type h \<noteq> event_type_code PERF_TYPE_SOFTWARE"
  shows "\<exists>c'. instantiate_handler_at env hs p {} c = (Inr (), c') \<and> ac_progs c' p = Some n \<and> ac_heap c' = ac_heap c \<and>
    instantiate_handler_at env hs' p stk c' = (Inr (), c')"
proof -
  define c' where "c' = snd (instantiate_handler_at env hs p {} c)"
  have s: "instantiate_handler_at env hs p {} c = (Inr (), c')" "p \<in> ac_instantiated c'"
    using perf_succeeds [OF assms(2-4) _ assms(6,7), of "{}" env] by (simp_all add: c'_def prod_eq_iff)
  have "instantiate_perf_event_handler_at p h c = (Inr (), c')"
    using s(1) assms(2-5) by (subst (asm) instantiate_handler_at.simps) simp
  then have "ac_progs c' p = Some n" "ac_heap c' = ac_heap c" using assms(1)
    by (auto simp: instantiate_perf_event_handler_at_def split: if_splits option.splits sum.splits)
  moreover have "instantiate_handler_at env hs' p stk c' = (Inr (), c')" using s(2) by (subst instantiate_handler_at.simps) simp
  ultimately show ?thesis using s(1) by blast
qed

lemma agent_setup_simps:
  "ac_instantiated (agent_setup fe tp nr_of) = {}"
  "ac_impls (agent_setup fe tp nr_of) ATTACH_SYSCALL_TRACE = Some (0, syscall_data_from_string tp nr_of)"
  "ac_holders (agent_setup fe tp nr_of) = [Syscall_Impl sy_new, Frida_Impl fr_new]"
  by (simp_all add: agent_setup_def register_attach_impl_def ac_new_def Let_def attach_types ATTACH_SYSCALL_TRACE_def)

lemma agent_setup_reach: "ac_reach env hs (agent_setup fe tp nr_of)"
  unfolding agent_setup_def by (intro ac_registers ac_start) simp_all

lemma sy_create_succeeds: "-1 \<le> nr \<Longrightarrow> nr < 512 \<Longrightarrow> \<exists>i s'. sy_create cb (Syscall_Data nr b) ATTACH_SYSCALL_TRACE s = (Inr i, s')"
  by (auto simp: sy_create_def Let_def)

text \<open>A link from a program that loads to a tracepoint of a system call is attached, whatever was before.\<close>

lemma tracepoint_link_step:
  assumes ok: "ctx_ok hs c" "all_settled hs c"
    and im: "ac_impls c ATTACH_SYSCALL_TRACE = Some (k, gen)" "k < length (ac_holders c)" "same_impl (Syscall_Impl s0) (ac_holders c ! k)"
    and l: "0 \<le> l" "nat l < length hs" "hs ! nat l = Link_H lk"
    and p: "0 \<le> lk_prog_id lk" "nat (lk_prog_id lk) < length hs" "hs ! nat (lk_prog_id lk) = Prog_H ph"
    and ld: "fst (load_prog_and_helpers (ae_ops env) (ae_ufunc env) (ae_config env) (bp_new (ae_ops env) (pr_insns ph) (pr_name ph))) = Inr ()"
    and e: "0 \<le> lk_attach_target_id lk" "nat (lk_attach_target_id lk) < length hs" "hs ! nat (lk_attach_target_id lk) = Perf_H h"
    and d: "ph_type h = ATTACH_SYSCALL_TRACE" "and_then (event_argument h) gen = Inr (Syscall_Data nr b)" "-1 \<le> nr" "nr < 512"
    and s: "instantiate_handler_at env hs l {} c = (r, c')"
  shows "l \<in> ac_instantiated c'"
proof (cases "l \<in> ac_instantiated c")
  case True
  then show ?thesis using all_settled_step [OF ok s] by (auto simp: extends_def)
next
  case False
  define p_id e_id where "p_id = lk_prog_id lk" and "e_id = lk_attach_target_id lk"
  have ne: "p_id \<noteq> l" "e_id \<noteq> l" using l p e by (auto simp: p_id_def e_id_def)
  obtain c1 where s1: "instantiate_handler_at env hs p_id {l} c = (Inr (), c1)"
    using prog_succeeds [of p_id hs ph "{l}" env c] p ld ne by (metis p_id_def prod.collapse singletonD)
  note st1 = all_settled_step [OF ok s1] handler_step [OF ok(1) s1]
  have ed: "event_data x h = Inr (Syscall_Data nr b)" if "extends c x" for x :: "('a, 'b) attach_ctx"
    using that im(1) d by (simp add: event_data_def extends_def)
  have ty: "ph_type h \<noteq> event_type_code PERF_TYPE_SOFTWARE" using d(1) by (simp add: ATTACH_SYSCALL_TRACE_def)
  obtain c2 where s2: "instantiate_handler_at env hs e_id {l} c1 = (Inr (), c2)" and e2: "e_id \<in> ac_instantiated c2"
    using perf_succeeds [of e_id hs h "{l}" c1 "Syscall_Data nr b" env] e ne ed [of c1] st1 ty by (metis e_id_def prod.collapse singletonD)
  have st2: "ctx_ok hs c2" "all_settled hs c2" "extends c1 c2" using all_settled_step [OF _ _ s2] st1 by blast+
  have x2: "extends c c2" using st1 st2 extends_trans [of c c1 c2] by blast
  obtain n where n: "ac_progs c2 p_id = Some n"
  proof -
    have "p_id \<in> ac_instantiated c1" using st1(2) p(3) p_id_def by auto
    then have "settled hs c2 p_id" using st2 by (auto simp: all_settled_def extends_def)
    then show ?thesis using that p(3) by (auto simp: settled_def p_id_def)
  qed
  have pe: "ac_perf_events c2 e_id = Some (Some (Syscall_Data nr b), ATTACH_SYSCALL_TRACE)"
    using st2(2) e2 e(3) ed [OF x2] d(1) by (auto simp: all_settled_def settled_def e_id_def)
  obtain sx where h2: "ac_holders c2 ! k = Syscall_Impl sx"
    using x2 im(2,3) by (cases "ac_holders c2 ! k"; cases "ac_holders c ! k") (auto simp: extends_def)
  have i2: "ac_impls c2 ATTACH_SYSCALL_TRACE = Some (k, gen)" using x2 im(1) by (simp add: extends_def)
  have "instantiate_bpf_link_handler_at env l lk c2 = (r, c')"
    using s False l s1 s2 by (subst (asm) instantiate_handler_at.simps) (simp add: p_id_def e_id_def)
  then show ?thesis using sy_create_succeeds [OF d(3,4), of "Run_Prog n (lk_attach_cookie lk)" b sx] pe i2 n h2
    by (auto simp: instantiate_bpf_link_handler_at_def Let_def p_id_def e_id_def)
qed

text \<open>
  C16. Reading a table into the agent's new context, if no exception cuts it short, attaches
  every link whose program loads and whose target is a tracepoint of a system call: the link has
  a live attachment in an implementation, and what it runs is the object of its own program. It
  does not matter what else is in the table.
\<close>

theorem agent_traces_syscalls:
  assumes i: "init_attach_ctx_from_handlers env (Some hs) (agent_setup (ae_frida env) tp nr_of) = (Inr (), c)"
    and l: "0 \<le> l" "nat l < length hs" "hs ! nat l = Link_H lk"
    and p: "0 \<le> lk_prog_id lk" "nat (lk_prog_id lk) < length hs" "hs ! nat (lk_prog_id lk) = Prog_H ph"
    and ld: "fst (load_prog_and_helpers (ae_ops env) (ae_ufunc env) (ae_config env) (bp_new (ae_ops env) (pr_insns ph) (pr_name ph))) = Inr ()"
    and e: "0 \<le> lk_attach_target_id lk" "nat (lk_attach_target_id lk) < length hs" "hs ! nat (lk_attach_target_id lk) = Perf_H h"
    and d: "ph_type h = ATTACH_SYSCALL_TRACE" "ph_data h = Tracepoint_Data t"
      "syscall_data_from_string tp nr_of (dec_int (tp_tracepoint_id t)) = Inr (Syscall_Data nr b)" "-1 \<le> nr" "nr < 512"
  shows "link_attached c l lk"
proof -
  define c0 :: "('a, 'b) attach_ctx" where "c0 = agent_setup (ae_frida env) tp nr_of"
  have ok0: "ctx_ok hs c0" "all_settled hs c0"
    using reach_ok [OF agent_setup_reach [of env hs "ae_frida env" tp nr_of]] by (simp_all add: c0_def all_settled_def agent_setup_simps)
  have ev: "and_then (event_argument h) (syscall_data_from_string tp nr_of) = Inr (Syscall_Data nr b)"
    using d by (simp add: event_argument_def ATTACH_SYSCALL_TRACE_def)
  obtain cm where m: "instantiate_all env hs [0..<length hs] c0 = (Inr (), cm)" "instantiate_all env hs [0..<length hs] cm = (Inr (), c)"
    using i by (auto simp: init_attach_ctx_from_handlers_def c0_def split: prod.splits sum.splits)
  have al: "is_allocated (int (nat l)) hs" using l by (simp add: is_allocated_def)
  note r1 = instantiate_all_reaches [OF ok0 m(1)]
  have r2: "all_settled hs c" "extends cm c" using instantiate_all_reaches [OF _ _ m(2)] r1 by blast+
  obtain c1 r c2 where c1: "ctx_ok hs c1" "all_settled hs c1" "extends c0 c1" "instantiate_handler_at env hs l {} c1 = (r, c2)" "extends c2 cm"
    using r1 al l by force
  have im: "ac_impls c1 ATTACH_SYSCALL_TRACE = Some (0, syscall_data_from_string tp nr_of)" "0 < length (ac_holders c1)"
      "same_impl (Syscall_Impl sy_new) (ac_holders c1 ! 0)"
    using c1(3) by (auto simp: extends_def c0_def agent_setup_simps)
  have "l \<in> ac_instantiated c2"
    by (rule tracepoint_link_step [OF c1(1,2) im l p ld e d(1) ev d(4,5) c1(4)])
  then have "l \<in> ac_instantiated c" using c1(5) r2(2) by (auto simp: extends_def)
  then show ?thesis using r2(1) l(3) by (auto simp: all_settled_def settled_def)
qed

text \<open>
  C40. Once a link has been destroyed it is never attached again: the context still counts it as
  instantiated, and reading the same table leaves it without an attachment.
\<close>

theorem destroyed_link_stays_detached:
  assumes "ac_reach env hs c" and "ac_links c l = Some x" and "destroy_instantiated_attach_link l c = (Inr (), c1)"
    and "init_attach_ctx_from_handlers env (Some hs) c1 = (r, c2)"
  shows "ac_links c1 l = None \<and> ac_links c2 l = None"
proof -
  have ok: "ctx_ok hs c" using assms(1) by (rule reach_ok)
  have c1: "ctx_ok hs c1" "ac_links c1 l = None" using destroy_step [OF ok assms(2)] assms(3) by auto
  have "l \<in> ac_instantiated c" using ok assms(2) links_liveD [of c l "fst x" "snd x"] by (auto simp: ctx_ok_def)
  then have l: "l \<in> ac_instantiated c1" using assms(3)
    by (auto simp: destroy_instantiated_attach_link_def split: option.splits prod.splits sum.splits)
  have a: "extends a b" if "ctx_ok hs a" "snd (instantiate_all env hs is a) = b" for a b "is"
    using that
  proof (induction "is" arbitrary: a)
    case (Cons i "is")
    obtain q a1 where s: "instantiate_handler_at env hs (int i) {} a = (q, a1)" by fastforce
    note st = handler_step [OF Cons.prems(1) s]
    show ?case using Cons.prems(2) Cons.IH [of a] Cons.IH [of a1] Cons.prems(1) st s extends_trans [of a a1 b]
      by (auto split: if_splits sum.splits fault.splits)
  qed simp
  define cm where "cm = snd (instantiate_all env hs [0..<length hs] c1)"
  have m: "extends c1 cm" "ctx_ok hs cm" using a [OF c1(1), of _ cm] all_step [OF c1(1)] by (simp_all add: cm_def)
  have "c2 = cm \<or> c2 = snd (instantiate_all env hs [0..<length hs] cm)"
    using assms(4) by (auto simp: init_attach_ctx_from_handlers_def cm_def split: prod.splits sum.splits)
  then have "extends c1 c2" using m a [OF m(2)] extends_trans [of c1 cm c2] by metis
  then show ?thesis using l c1(2) by (simp add: extends_def)
qed

text \<open>
  C21. The text that the context makes of a uprobe event is read back by the implementation as the
  same module and offset, also if the name of the module has colons in it, and the text of a
  tracepoint as the same id.
\<close>

theorem event_argument_round_trip:
  assumes "ph_type h \<in> {ATTACH_UPROBE, ATTACH_URETPROBE, ATTACH_UPROBE_OVERRIDE, ATTACH_UREPLACE}" and "ph_data h = Uprobe_Data u"
    and "up_offset u < 2 ^ 64"
    and "ph_type g = ATTACH_SYSCALL_TRACE" and "ph_data g = Tracepoint_Data t"
    and "- (2 ^ 31) \<le> tp_tracepoint_id t" and "tp_tracepoint_id t < 2 ^ 31"
  shows "and_then (event_argument h) (frida_data_from_string fe) =
      and_then (resolve_function_addr_by_module_offset fe (up_module_name u) (up_offset u))
        (\<lambda>addr. Inr (Frida_Data addr (up_module_name u))) \<and>
    and_then (event_argument g) stoi = Inr (tp_tracepoint_id t)"
proof -
  have "event_argument h = Inr (up_module_name u @ CHR '':'' # dec_nat (up_offset u))"
    using assms(1,2) by (auto simp: event_argument_def attach_types)
  moreover have "event_argument g = Inr (dec_int (tp_tracepoint_id t))"
    using assms(4,5) by (simp add: event_argument_def ATTACH_SYSCALL_TRACE_def)
  ultimately show ?thesis using frida_data_module_offset [OF assms(3)] stoi_dec_int assms(6,7) by simp
qed

text \<open>
  C17. After the agent has been started, the detach signal always succeeds: no program stays
  attached, the process leaves the set of live agents, and the agent can be started again. Started
  again on the same table, it has the same context as the first time.
\<close>

theorem agent_detach_reattach:
  assumes "\<not> ag_initialized a" and "bpftime_agent_main env tp nr_of True injected pid a = (Inr (), a1)"
    and "sig_handler_sigusr1_detach pid a1 = (r, a2)"
  shows "r = Inr () \<and> \<not> ag_initialized a2 \<and> pid \<notin> sh_injected_pids (ag_shm a2) \<and>
    (\<exists>c. ag_ctx a2 = Some c \<and> (\<forall>k. k < length (ac_holders c) \<longrightarrow> impl_live (ac_holders c ! k) = Map.empty)) \<and>
    ag_ctx (snd (bpftime_agent_main env tp nr_of True injected pid a2)) = ag_ctx a1"
proof -
  define shm where "shm = (if injected then add_pid_into_alive_agent_set pid (ag_shm a) else ag_shm a)"
  obtain q c where i: "init_attach_ctx_from_handlers env (sh_manager shm) (agent_setup (ae_frida env) tp nr_of) = (q, c)" by fastforce
  have a1: "ag_ctx a1 = Some c" "ag_shm a1 = shm"
    using assms(1,2) i by (auto simp: bpftime_agent_main_def shm_def Let_def split: if_splits)
  have "\<exists>hs. ac_reach env hs c"
  proof (cases "sh_manager shm")
    case None
    then show ?thesis using i agent_setup_reach [of env] by (auto simp: init_attach_ctx_from_handlers_def)
  next
    case (Some hs)
    then show ?thesis using i ac_inits [OF agent_setup_reach [of env hs "ae_frida env" tp nr_of]] by (auto intro!: exI [of _ hs])
  qed
  then obtain hs c' where c': "destroy_all_attach_links c = (Inr (), c')" "ctx_ok hs c'" "ac_links c' = Map.empty"
    using destroy_all_step reach_ok by blast
  have live: "impl_live (ac_holders c' ! k) = Map.empty" if "k < length (ac_holders c')" for k
    using no_links_no_live [OF c'(2,3) that] .
  have a2: "r = Inr ()" "ag_ctx a2 = Some c'" "ag_shm a2 = remove_pid_from_alive_agent_set pid shm" "\<not> ag_initialized a2"
    using assms(3) a1 c'(1) by (auto simp: sig_handler_sigusr1_detach_def)
  have m: "sh_manager (if injected then add_pid_into_alive_agent_set pid (ag_shm a2) else ag_shm a2) = sh_manager shm"
    by (simp add: a2(3) add_pid_into_alive_agent_set_def remove_pid_from_alive_agent_set_def)
  have "ag_ctx (snd (bpftime_agent_main env tp nr_of True injected pid a2)) = Some c"
    using a2(4) i m by (simp add: bpftime_agent_main_def Let_def)
  then show ?thesis using a1 a2 live by (simp add: remove_pid_from_alive_agent_set_def)
qed

subsection \<open>An agent with one link\<close>

text \<open>A machine that keeps the list of what it was asked to do.\<close>

datatype vm_event = Ev_Register nat | Ev_Load | Ev_Compile

definition log_ops :: "(vm_event list, unit, nat) vm_ops" where
  "log_ops = \<lparr>vm_new = [], vm_register = \<lambda>h v. v @ [Ev_Register (hi_index h)], vm_load = \<lambda>insns v. (Inr (), v @ [Ev_Load]),
     vm_unload = id, vm_compile = \<lambda>v. (Some (), v @ [Ev_Compile]), vm_aot = \<lambda>b v. (None, v),
     vm_call = \<lambda>f m w. (0, w + 1), vm_exec = \<lambda>v m w. ((Inr (), 0), w + 1)\<rparr>"

definition log_env :: "(vm_event list, unit, nat) agent_env" where
  "log_env = \<lparr>ae_ops = log_ops, ae_ufunc = [],
     ae_config = \<lparr>cf_jit_enabled = True, cf_enable_kernel_helper_group = False, cf_enable_ufunc_helper_group = False,
       cf_enable_shm_maps_helper_group = False\<rparr>,
     ae_frida = sample_frida_env\<rparr>"

definition log_tp :: "int \<rightharpoonup> string" where
  "log_tp = [5 \<mapsto> ''sys_enter_read'']"

definition log_nr :: "string \<rightharpoonup> int" where
  "log_nr = [''read'' \<mapsto> 0]"

definition log_link :: link_handler where
  "log_link = lk_new_cookie 0 1 None"

definition log_event :: perf_event_handler where
  "log_event = \<lparr>ph_type = 2, ph_enabled = True, ph_data = Tracepoint_Data \<lparr>tp_pid = -1, tp_tracepoint_id = 5\<rparr>\<rparr>"

definition log_table :: "handler_variant list" where
  "log_table = [Prog_H (pr_new [] ''p'' 0), Perf_H log_event, Link_H log_link]"

lemma log_table_simps:
  "length log_table = 3" "log_table ! 0 = Prog_H (pr_new [] ''p'' 0)" "log_table ! 1 = Perf_H log_event" "log_table ! 2 = Link_H log_link"
  "log_table ! Suc 0 = Perf_H log_event" "length log_table = Suc (Suc (Suc 0))"
  by (simp_all add: log_table_def)

lemma log_data: "syscall_data_from_string log_tp log_nr (dec_int 5) = Inr (Syscall_Data 0 True)"
  by (simp add: syscall_data_from_string_def stoi_dec_int log_tp_def log_nr_def starts_with_def)

lemma log_load:
  "load_prog_and_helpers log_ops [] (ae_config log_env) p =
     (Inr (), p\<lparr>bp_vm := bp_vm p @ [Ev_Load, Ev_Compile], bp_jitted := Some True, bp_fn := Some ()\<rparr>)"
  by (simp add: load_prog_and_helpers_def log_env_def log_ops_def bpftime_prog_load_def Let_def)

lemma log_prog: "fst (load_prog_and_helpers (ae_ops log_env) (ae_ufunc log_env) (ae_config log_env)
    (bp_new (ae_ops log_env) (pr_insns (pr_new [] ''p'' 0)) (pr_name (pr_new [] ''p'' 0)))) = Inr ()"
proof -
  have "ae_ops log_env = log_ops" "ae_ufunc log_env = []" by (simp_all add: log_env_def)
  then show ?thesis by (simp only: log_load fst_conv)
qed

text \<open>The three handlers one after the other.\<close>

lemma log_env_simps: "ae_ops log_env = log_ops" "ae_ufunc log_env = []" "ae_frida log_env = sample_frida_env"
  by (simp_all add: log_env_def)

definition log_object :: "(vm_event list, unit) bpftime_prog" where
  "log_object = fold (bpftime_prog_register_raw_helper log_ops) (ac_helpers (agent_setup sample_frida_env log_tp log_nr :: (vm_event list, unit) attach_ctx))
     ((bp_new log_ops [] ''p'')\<lparr>bp_vm := [Ev_Load, Ev_Compile], bp_jitted := Some True, bp_fn := Some ()\<rparr>)"

definition log_ctx1 :: "(vm_event list, unit) attach_ctx" where
  "log_ctx1 = (agent_setup sample_frida_env log_tp log_nr)\<lparr>ac_next := 1, ac_progs := [0 \<mapsto> 0], ac_heap := [0 \<mapsto> log_object],
     ac_instantiated := {0}\<rparr>"

definition log_ctx2 :: "(vm_event list, unit) attach_ctx" where
  "log_ctx2 = log_ctx1\<lparr>ac_instantiated := {1, 0}, ac_perf_events := [1 \<mapsto> (Some (Syscall_Data 0 True), 2)]\<rparr>"

definition log_ctx3 :: "(vm_event list, unit) attach_ctx" where
  "log_ctx3 = log_ctx2\<lparr>ac_holders := [Syscall_Impl (snd (sy_create (Run_Prog 0 None) (Syscall_Data 0 True) 2 sy_new)), Frida_Impl fr_new],
     ac_links := [2 \<mapsto> (1, Some 0)], ac_instantiated := {2, 1, 0}\<rparr>"

lemma agent_setup_fields:
  "ac_next (agent_setup fe tp nr_of) = 0" "ac_progs (agent_setup fe tp nr_of) = Map.empty" "ac_heap (agent_setup fe tp nr_of) = Map.empty"
  "ac_perf_events (agent_setup fe tp nr_of) = Map.empty" "ac_links (agent_setup fe tp nr_of) = Map.empty"
  by (simp_all add: agent_setup_def register_attach_impl_def ac_new_def Let_def)

lemma agent_impl2: "ac_impls (agent_setup fe tp nr_of) 2 = Some (0, syscall_data_from_string tp nr_of)"
  using agent_setup_simps(2) [of fe tp nr_of] by (simp add: ATTACH_SYSCALL_TRACE_def)

lemma log_new: "vm_new log_ops = []"
  by (simp add: log_ops_def)

lemma log_step0: "instantiate_handler_at log_env log_table 0 {} (agent_setup sample_frida_env log_tp log_nr) = (Inr (), log_ctx1)"
  by (subst instantiate_handler_at.simps)
    (simp add: agent_setup_simps agent_setup_fields log_table_simps instantiate_prog_handler_at_def Let_def log_env_simps log_load
      bp_new_def pr_new_def log_ctx1_def log_object_def log_new)

lemma log_step1: "instantiate_handler_at log_env log_table 1 {} log_ctx1 = (Inr (), log_ctx2)"
  by (subst instantiate_handler_at.simps)
    (simp add: log_ctx1_def log_table_simps instantiate_perf_event_handler_at_def log_event_def event_argument_def
      agent_impl2 log_data agent_setup_fields log_ctx2_def)

lemma log_step2: "instantiate_handler_at log_env log_table 2 {} log_ctx2 = (Inr (), log_ctx3)"
proof -
  have i: "instantiate_handler_at log_env log_table x {2} log_ctx2 = (Inr (), log_ctx2)" if "x = 0 \<or> x = 1" for x
    using that by (subst instantiate_handler_at.simps) (auto simp: log_ctx2_def)
  have l: "instantiate_bpf_link_handler_at log_env 2 log_link log_ctx2 = (Inr (), log_ctx3)"
    by (simp add: log_link_def lk_new_cookie_def instantiate_bpf_link_handler_at_def Let_def log_ctx2_def log_ctx1_def
        agent_setup_simps(1,3) agent_impl2 agent_setup_fields ATTACH_SYSCALL_TRACE_def log_ctx3_def sy_create_def sy_new_def log_env_simps)
  have f: "2 \<notin> ac_instantiated log_ctx2" "lk_prog_id log_link = 0" "lk_attach_target_id log_link = 1"
    by (simp_all add: log_ctx2_def log_link_def lk_new_cookie_def)
  show ?thesis by (subst instantiate_handler_at.simps) (simp add: f i l log_table_simps)
qed

lemma log_again: "x \<in> {0, 1, 2} \<Longrightarrow> instantiate_handler_at log_env log_table x {} log_ctx3 = (Inr (), log_ctx3)"
  by (subst instantiate_handler_at.simps) (auto simp: log_ctx3_def)

lemma log_agent: "init_attach_ctx_from_handlers log_env (Some log_table) (agent_setup sample_frida_env log_tp log_nr) = (Inr (), log_ctx3)"
proof -
  have u: "[0..<length log_table] = [0, 1, 2]" by (simp add: log_table_simps upt_rec)
  have a: "is_allocated 0 log_table" "is_allocated 1 log_table" "is_allocated 2 log_table"
    by (simp_all add: is_allocated_def log_table_def)
  have "instantiate_all log_env log_table [0, 1, 2] (agent_setup sample_frida_env log_tp log_nr) = (Inr (), log_ctx3)"
    using a by (simp add: log_step0 log_step1 log_step2)
  moreover have "instantiate_all log_env log_table [0, 1, 2] log_ctx3 = (Inr (), log_ctx3)"
    using a by (simp add: log_again)
  ultimately show ?thesis by (simp add: init_attach_ctx_from_handlers_def u)
qed

lemma log_reach: "ac_reach log_env log_table log_ctx3"
  using ac_inits [OF agent_setup_reach [of log_env log_table sample_frida_env log_tp log_nr]] by (simp add: log_agent)

text \<open>The helpers of the uprobe implementation are registered after the program was compiled.\<close>

lemma custom_helpers_come_late:
  "bp_vm (the (ac_heap log_ctx3 0)) = [Ev_Load, Ev_Compile, Ev_Register 183, Ev_Register 184, Ev_Register 186]"
  by (simp add: log_ctx3_def log_ctx2_def log_ctx1_def log_object_def agent_setup_def register_attach_impl_def ac_new_def Let_def
      put_helper_def helper_def bpftime_prog_register_raw_helper_def log_ops_def)

lemma log_live: "length (ac_holders log_ctx3) = 2" "impl_live (ac_holders log_ctx3 ! 0) 1 = Some (Run_Prog 0 None)"
  by (simp_all add: log_ctx3_def sy_live_def sy_create_def sy_new_def ATTACH_SYSCALL_TRACE_def)

theorem attached_programs_run_witness:
  "\<exists>v w'. run_ebpf_cb log_ops (\<lambda>_ w. w) (\<lambda>_ w. w) (ac_heap log_ctx3) (Run_Prog 0 None) [] 7 = (Inr v, w')"
  using attached_programs_run [OF log_reach _ log_live(2), of "\<lambda>_ w. w" "\<lambda>_ w. w" "[]" 7] log_live(1)
  by (simp add: log_env_simps)

theorem destroy_all_detaches_witness:
  "\<exists>c'. destroy_all_attach_links log_ctx3 = (Inr (), c') \<and> ac_links c' = Map.empty"
  using destroy_all_detaches [OF log_reach] by blast

theorem agent_traces_syscalls_witness: "link_attached log_ctx3 2 log_link"
proof (rule agent_traces_syscalls [where env = log_env and hs = log_table and tp = log_tp and nr_of = log_nr and ph = "pr_new [] ''p'' 0"
      and h = log_event and t = "\<lparr>tp_pid = -1, tp_tracepoint_id = 5\<rparr>" and nr = 0 and b = True])
  show "init_attach_ctx_from_handlers log_env (Some log_table) (agent_setup (ae_frida log_env) log_tp log_nr) = (Inr (), log_ctx3)"
    using log_agent by (simp add: log_env_simps)
  show "syscall_data_from_string log_tp log_nr (dec_int (tp_tracepoint_id \<lparr>tp_pid = -1, tp_tracepoint_id = 5\<rparr>)) = Inr (Syscall_Data 0 True)"
    using log_data by simp
qed (simp_all add: log_table_simps log_prog log_link_def lk_new_cookie_def log_event_def ATTACH_SYSCALL_TRACE_def)

theorem destroyed_link_stays_detached_witness:
  "ac_links (snd (init_attach_ctx_from_handlers log_env (Some log_table) (snd (destroy_instantiated_attach_link 2 log_ctx3)))) 2 = None"
proof -
  have l: "ac_links log_ctx3 2 = Some (1, Some 0)" by (simp add: log_ctx3_def)
  then obtain c1 where "destroy_instantiated_attach_link 2 log_ctx3 = (Inr (), c1)"
    using destroy_step [OF reach_ok [OF log_reach]] by blast
  then show ?thesis
    using destroyed_link_stays_detached [OF log_reach l, of c1 "fst (init_attach_ctx_from_handlers log_env (Some log_table) c1)"] by simp
qed

theorem event_argument_round_trip_witness:
  "and_then (event_argument log_event) stoi = Inr 5"
  using event_argument_round_trip [of "\<lparr>ph_type = 6, ph_enabled = True, ph_data = Uprobe_Data \<lparr>up_offset = 64, up_pid = -1,
      up_ref_ctr_off = 0, up_module_name = ''/bin/a:b''\<rparr>\<rparr>" "\<lparr>up_offset = 64, up_pid = -1, up_ref_ctr_off = 0, up_module_name = ''/bin/a:b''\<rparr>"
      log_event "\<lparr>tp_pid = -1, tp_tracepoint_id = 5\<rparr>" sample_frida_env]
  by (simp add: log_event_def attach_types ATTACH_SYSCALL_TRACE_def)

theorem agent_detach_reattach_witness:
  "\<not> ag_initialized (snd (sig_handler_sigusr1_detach 9 (snd (bpftime_agent_main log_env log_tp log_nr True True 9
     \<lparr>ag_initialized = False, ag_ctx = None, ag_shm = (shm_new 0)\<lparr>sh_manager := Some log_table\<rparr>\<rparr>))))"
proof -
  define a :: "(vm_event list, unit) agent" where
    "a = \<lparr>ag_initialized = False, ag_ctx = None, ag_shm = (shm_new 0)\<lparr>sh_manager := Some log_table\<rparr>\<rparr>"
  have "fst (bpftime_agent_main log_env log_tp log_nr True True 9 a) = Inr ()"
    using log_agent by (simp add: bpftime_agent_main_def a_def Let_def add_pid_into_alive_agent_set_def log_env_simps)
  then have m: "bpftime_agent_main log_env log_tp log_nr True True 9 a = (Inr (), snd (bpftime_agent_main log_env log_tp log_nr True True 9 a))"
    by (simp add: prod_eq_iff)
  have "\<not> ag_initialized a" by (simp add: a_def)
  from agent_detach_reattach [OF this m prod.collapse [symmetric]] show ?thesis by (simp add: a_def)
qed

end
