(* ===== verification/Bpf_Helper.thy ===== *)
theory Bpf_Helper
  imports Bpftime_Api Attach_Ctx
begin

text \<open>
  The helper functions that programs call (\<open>bpf_helper.cpp\<close>), in a build without the checks of
  \<open>ENABLE_PROBE_READ_CHECK\<close> and \<open>ENABLE_PROBE_WRITE_CHECK\<close>. Pointers are byte lists as elsewhere; the
  XDP helpers, which move data inside one packet buffer, work on a flat memory. The process ids, the
  current CPU, the stack walker and the kernel are parameters.
\<close>

unbundle bit_operations_syntax

subsection \<open>Maps\<close>

text \<open>A map argument carries the descriptor in its upper half.\<close>

definition bpftime_map_lookup_elem_helper :: "runtime_env \<Rightarrow> 64 word \<Rightarrow> ptr \<Rightarrow> bpftime_shm \<Rightarrow> elem res \<times> bpftime_shm" where
  "bpftime_map_lookup_elem_helper e m key sh = shm_map_lookup_elem e (map_ptr_fd m) key False sh"

definition bpftime_map_update_elem_helper ::
  "runtime_env \<Rightarrow> 64 word \<Rightarrow> ptr \<Rightarrow> ptr \<Rightarrow> nat \<Rightarrow> bpftime_shm \<Rightarrow> unit res \<times> bpftime_shm"
where
  "bpftime_map_update_elem_helper e m key value flags sh = shm_map_update_elem e (map_ptr_fd m) key value flags False sh"

definition bpftime_map_delete_elem_helper :: "runtime_env \<Rightarrow> 64 word \<Rightarrow> ptr \<Rightarrow> bpftime_shm \<Rightarrow> unit res \<times> bpftime_shm" where
  "bpftime_map_delete_elem_helper e m key sh = shm_delete_elem e (map_ptr_fd m) key False sh"

definition bpftime_map_push_elem_helper :: "64 word \<Rightarrow> ptr \<Rightarrow> nat \<Rightarrow> bpftime_shm \<Rightarrow> unit res \<times> bpftime_shm" where
  "bpftime_map_push_elem_helper m value flags sh = shm_map_push_elem (map_ptr_fd m) value flags False sh"

definition bpftime_map_pop_elem_helper :: "64 word \<Rightarrow> outbuf \<Rightarrow> bpftime_shm \<Rightarrow> bytes res \<times> bpftime_shm" where
  "bpftime_map_pop_elem_helper m value sh = shm_map_pop_elem (map_ptr_fd m) value False sh"

definition bpftime_map_peek_elem_helper :: "64 word \<Rightarrow> ptr \<Rightarrow> bpftime_shm \<Rightarrow> bytes res \<times> bpftime_shm" where
  "bpftime_map_peek_elem_helper m value sh = shm_map_peek_elem (map_ptr_fd m) value False sh"

subsection \<open>Ring buffers and perf events\<close>

text \<open>\<open>flags\<close> only gives a warning; the result of the submit is not looked at.\<close>

definition bpf_ringbuf_output :: "64 word \<Rightarrow> bytes \<Rightarrow> nat \<Rightarrow> bpftime_shm \<Rightarrow> unit res \<times> bpftime_shm" where
  "bpf_ringbuf_output rb data sz sh =
     (let fd = map_ptr_fd rb in
      case bpftime_ringbuf_reserve fd sz sh of
        (Inl UB, sh) \<Rightarrow> (Inl UB, sh)
      | (Inl Throw, sh) \<Rightarrow> (Inl Throw, sh)
      | (Inl _, sh) \<Rightarrow> (Inl MinusOne, sh)
      | (Inr buf, sh) \<Rightarrow>
          (case on_ringbuf (\<lambda>r. case load 0 sz data of Inl f \<Rightarrow> (Inl f, r) | Inr bs \<Rightarrow> rb_write buf bs r) fd sh of
             (Inl f, sh) \<Rightarrow> (Inl f, sh)
           | (Inr _, sh) \<Rightarrow>
               (case bpftime_ringbuf_submit fd buf False sh of
                  (Inl UB, sh) \<Rightarrow> (Inl UB, sh)
                | (Inl Throw, sh) \<Rightarrow> (Inl Throw, sh)
                | (_, sh) \<Rightarrow> (Inr (), sh))))"

definition bpf_ringbuf_reserve :: "64 word \<Rightarrow> nat \<Rightarrow> bpftime_shm \<Rightarrow> nat res \<times> bpftime_shm" where
  "bpf_ringbuf_reserve rb sz sh = bpftime_ringbuf_reserve (map_ptr_fd rb) sz sh"

text \<open>
  The thread is bound to its CPU while the event is put out. \<open>pinned\<close> is whether it still is
  afterwards; the early returns do not undo it. \<open>cpu\<close> is -1 where it cannot be found, \<open>bind\<close> is
  whether \<open>sched_setaffinity\<close> succeeds. The output to a map shared with the kernel is a parameter.
\<close>

definition bpf_perf_event_output ::
  "runtime_env \<Rightarrow> int \<Rightarrow> bool \<Rightarrow> (int \<Rightarrow> bytes \<Rightarrow> nat \<Rightarrow> unit res) \<Rightarrow> 64 word \<Rightarrow> bytes \<Rightarrow> nat \<Rightarrow> bpftime_shm \<Rightarrow>
   unit res \<times> bool \<times> bpftime_shm"
where
  "bpf_perf_event_output e cpu bind shared m data sz sh =
     (if cpu = -1 then (Inl MinusOne, False, sh)
      else if \<not> bind then (Inl (Errno EINVAL), False, sh)
      else
        (let fd = map_ptr_fd m in
         case bpftime_map_get_info fd sh of
           Inl f \<Rightarrow> (Inl MinusOne, True, sh)
         | Inr (attr, name, map_ty) \<Rightarrow>
             (if map_ty = BPF_MAP_TYPE_PERF_EVENT_ARRAY then
                (case shm_map_lookup_elem e fd (Some (le_bytes 4 (nat (cpu mod 2 ^ 32)))) False sh of
                   (Inl UB, sh) \<Rightarrow> (Inl UB, True, sh)
                 | (Inl Throw, sh) \<Rightarrow> (Inl Throw, True, sh)
                 | (Inl _, sh) \<Rightarrow> (Inl (Errno EINVAL), True, sh)
                 | (Inr (Handle _), sh) \<Rightarrow> (Inl UB, True, sh)
                 | (Inr (Elem val), sh) \<Rightarrow>
                     (case bpftime_perf_event_output (to_s32 (int (le_nat (take 4 val)))) (Some data) sz sh of
                        (r, sh) \<Rightarrow> (r, r = Inl UB \<or> r = Inl Throw, sh)))
              else if map_ty = BPF_MAP_TYPE_KERNEL_USER_PERF_EVENT_ARRAY then (shared fd data sz, False, sh)
              else (Inl MinusOne, False, sh))))"

subsection \<open>Checksums\<close>

text \<open>\<open>n\<close> little-endian 16-bit words from a buffer.\<close>

primrec words16 :: "nat \<Rightarrow> bytes \<Rightarrow> nat list res" where
  "words16 0 bs = Inr []"
| "words16 (Suc n) bs = (case bs of
       b0 # b1 # rest \<Rightarrow> and_then (words16 n rest) (\<lambda>ws. Inr (le_nat [b0, b1] # ws))
     | _ \<Rightarrow> Inl UB)"

text \<open>\<open>csum_diff += w\<close> on an \<open>int\<close>; a signed overflow is undefined.\<close>

primrec csum_add :: "nat list \<Rightarrow> int \<Rightarrow> int res" where
  "csum_add [] acc = Inr acc"
| "csum_add (w # ws) acc = (if acc + int w \<ge> 2 ^ 31 then Inl UB else csum_add ws (acc + int w))"

definition csum_buffer :: "(nat \<Rightarrow> nat) \<Rightarrow> ptr \<Rightarrow> int \<Rightarrow> int \<Rightarrow> int res" where
  "csum_buffer f buf sz acc = (case buf of
       None \<Rightarrow> Inr acc
     | Some bs \<Rightarrow> and_then (words16 (nat (sz div 2)) bs) (\<lambda>ws. csum_add (map f ws) acc))"

definition bpftime_csum_diff :: "ptr \<Rightarrow> int \<Rightarrow> ptr \<Rightarrow> int \<Rightarrow> int \<Rightarrow> int res" where
  "bpftime_csum_diff from_buf from_size to_buf to_size seed =
     (if from_size mod 4 \<noteq> 0 \<or> to_size mod 4 \<noteq> 0 then Inr (- errno_code EINVAL)
      else and_then (csum_buffer id to_buf to_size seed) (\<lambda>acc.
        and_then (csum_buffer (\<lambda>w. 65535 - w) from_buf from_size acc) (\<lambda>csum_diff.
          Inr (if csum_diff < 0 then - errno_code EINVAL else csum_diff))))"

subsection \<open>XDP\<close>

record xdp_md =
  xdp_data :: "64 word"
  xdp_data_end :: "64 word"
  xdp_buffer_start :: "64 word"
  xdp_buffer_end :: "64 word"

type_synonym memory = "64 word \<Rightarrow> byte"

definition memmove :: "64 word \<Rightarrow> 64 word \<Rightarrow> 64 word \<Rightarrow> memory \<Rightarrow> memory" where
  "memmove dst src n mem = (\<lambda>a. if a - dst < n then mem (src + (a - dst)) else mem a)"

definition bpftime_xdp_adjust_head :: "int \<Rightarrow> xdp_md \<Rightarrow> memory \<Rightarrow> unit res \<times> xdp_md \<times> memory" where
  "bpftime_xdp_adjust_head offset xdp mem =
     (let data = xdp_data xdp + word_of_int offset in
      if data > xdp_data_end xdp - 14 \<or> data > xdp_buffer_end xdp then (Inl (NegErrno EINVAL), xdp, mem)
      else if data < xdp_buffer_start xdp then
        (Inr (), xdp\<lparr>xdp_data := xdp_buffer_start xdp\<rparr>,
         memmove (xdp_buffer_start xdp + (xdp_buffer_start xdp - data)) (xdp_data xdp) (xdp_data_end xdp - xdp_data xdp) mem)
      else (Inr (), xdp\<lparr>xdp_data := data\<rparr>, mem))"

definition bpftime_xdp_adjust_tail :: "int \<Rightarrow> xdp_md \<Rightarrow> unit res \<times> xdp_md" where
  "bpftime_xdp_adjust_tail delta xdp =
     (let data = xdp_data_end xdp + word_of_int delta in
      if data < xdp_data xdp \<or> data < xdp_buffer_start xdp \<or> data > xdp_buffer_end xdp then (Inl (NegErrno EINVAL), xdp)
      else (Inr (), xdp\<lparr>xdp_data_end := data\<rparr>))"

definition bpftime_xdp_load_bytes :: "32 word \<Rightarrow> 32 word \<Rightarrow> xdp_md \<Rightarrow> memory \<Rightarrow> bytes res" where
  "bpftime_xdp_load_bytes offset len xdp mem =
     (let data = xdp_data xdp + ucast offset in
      if data + ucast len > xdp_data_end xdp then Inl (NegErrno EINVAL)
      else Inr (map (\<lambda>i. mem (data + of_nat i)) [0..<unat len]))"

subsection \<open>Identity\<close>

definition bpftime_get_current_pid_tgid :: "int \<Rightarrow> int \<Rightarrow> 64 word" where
  "bpftime_get_current_pid_tgid tgid tid = push_bit 32 (word_of_int tgid) OR word_of_int tid"

text \<open>The user id is not asked for.\<close>

definition bpf_get_current_uid_gid :: "int \<Rightarrow> 64 word" where
  "bpf_get_current_uid_gid gid = push_bit 32 (word_of_int gid) OR word_of_int gid"

definition bpftime_get_smp_processor_id :: "int \<Rightarrow> 64 word" where
  "bpftime_get_smp_processor_id cpu = (if cpu = -1 then 0 else word_of_int cpu)"

text \<open>The cookie that the callback of the link stored for this thread, 0 if there is none.\<close>

definition bpftime_get_attach_cookie :: "nat option \<Rightarrow> 64 word" where
  "bpftime_get_attach_cookie current_thread_bpf_cookie =
     (case current_thread_bpf_cookie of Some cookie \<Rightarrow> of_nat cookie | None \<Rightarrow> 0)"

subsection \<open>Memory and strings\<close>

text \<open>The copy itself; a negative size is refused.\<close>

definition bpftime_probe_read :: "int \<Rightarrow> ptr \<Rightarrow> bytes res" where
  "bpftime_probe_read sz src =
     (if sz < 0 then Inl (NegErrno EFAULT) else (case src of Some bs \<Rightarrow> load 0 (nat sz) bs | None \<Rightarrow> if sz = 0 then Inr [] else Inl UB))"

definition bpftime_probe_write_user :: "int \<Rightarrow> ptr \<Rightarrow> bytes \<Rightarrow> bytes res" where
  "bpftime_probe_write_user len src dst =
     (if len < 0 then Inl (NegErrno EFAULT)
      else and_then (case src of Some bs \<Rightarrow> load 0 (nat len) bs | None \<Rightarrow> if len = 0 then Inr [] else Inl UB) (\<lambda>bs. store 0 bs dst))"

text \<open>
  \<open>strncpy\<close>: up to \<open>n\<close> characters of a string, the rest of the buffer filled with zeroes. A string
  that ends neither with a zero nor within \<open>n\<close> characters is read beyond its end.
\<close>

definition strncpy :: "bytes \<Rightarrow> nat \<Rightarrow> bytes res" where
  "strncpy src n =
     (if 0 \<notin> set src \<and> length src < n then Inl UB
      else (let s = takeWhile (\<lambda>b. b \<noteq> 0) (take n src) in Inr (s @ replicate (n - length s) 0)))"

definition bpf_probe_read_str :: "bytes \<Rightarrow> nat \<Rightarrow> bytes res" where
  "bpf_probe_read_str src bufsz = strncpy src bufsz"

text \<open>The name of the executable behind the last slash, with its terminator; \<open>None\<close> where the link cannot be read.\<close>

definition bpftime_get_current_comm :: "bytes option \<Rightarrow> nat \<Rightarrow> bytes res option" where
  "bpftime_get_current_comm exe sz = (case exe of
       None \<Rightarrow> None
     | Some path \<Rightarrow> Some (strncpy (rev (takeWhile (\<lambda>b. b \<noteq> 47) (rev path)) @ [0]) sz))"

text \<open>\<open>strncmp\<close>, of whose result only the sign is defined.\<close>

fun bpftime_strncmp :: "bytes \<Rightarrow> nat \<Rightarrow> bytes \<Rightarrow> int res" where
  "bpftime_strncmp s1 0 s2 = Inr 0"
| "bpftime_strncmp (a # s1) (Suc n) (b # s2) =
     (if a < b then Inr (-1) else if b < a then Inr 1 else if a = 0 then Inr 0 else bpftime_strncmp s1 n s2)"
| "bpftime_strncmp s1 (Suc n) s2 = Inl UB"

subsection \<open>Stacks\<close>

text \<open>
  The flags of \<open>linux/bpf.h\<close>. \<open>stack\<close> is what the uprobe implementation's stack walker returns, a
  null pointer where no hook is running.
\<close>

abbreviation (input) BPF_F_SKIP_FIELD_MASK :: "64 word" where "BPF_F_SKIP_FIELD_MASK \<equiv> 255"
abbreviation (input) BPF_F_USER_STACK :: "64 word" where "BPF_F_USER_STACK \<equiv> 256"
abbreviation (input) BPF_F_FAST_STACK_CMP :: "64 word" where "BPF_F_FAST_STACK_CMP \<equiv> 512"
abbreviation (input) BPF_F_REUSE_STACKID :: "64 word" where "BPF_F_REUSE_STACKID \<equiv> 1024"
abbreviation (input) BPF_F_USER_BUILD_ID :: "64 word" where "BPF_F_USER_BUILD_ID \<equiv> 2048"

definition collect_stack :: "('vm, 'fn) attach_ctx \<Rightarrow> trace option \<Rightarrow> 64 word \<Rightarrow> trace res" where
  "collect_stack ctx stack flags = (case get_attach_impl_by_attach_type ATTACH_UPROBE ctx of
       None \<Rightarrow> Inl (NegErrno ENOTSUP)
     | Some _ \<Rightarrow> (case stack of
           None \<Rightarrow> Inl (NegErrno ENOENT)
         | Some frames \<Rightarrow> Inr (drop (unat (flags AND BPF_F_SKIP_FIELD_MASK)) frames)))"

text \<open>\<open>std::get\<close> raises for a handler that is no map; the empty optional of another map is dereferenced.\<close>

definition bpftime_get_stackid ::
  "(nat \<Rightarrow> 64 word \<Rightarrow> nat) \<Rightarrow> ('vm, 'fn) attach_ctx \<Rightarrow> trace option \<Rightarrow> 64 word \<Rightarrow> 64 word \<Rightarrow> bpftime_shm \<Rightarrow> nat res \<times> bpftime_shm"
where
  "bpftime_get_stackid hash_combine ctx stack m flags sh =
     (if flags AND BPF_F_USER_STACK = 0 then (Inl (NegErrno ENOTSUP), sh)
      else (case collect_stack ctx stack flags of
          Inl f \<Rightarrow> (Inl f, sh)
        | Inr frames \<Rightarrow>
            (let fd = map_ptr_fd m in
             case sh_slot fd sh of
               Some (Map_H _) \<Rightarrow> (case sh_try_get_stack_trace_impl fd sh of
                   Some (Some p) \<Rightarrow> (case sg_objs (sh_segment sh) p of
                       Some (Stack_Trace_Impl t) \<Rightarrow>
                         (case st_fill_stack_trace hash_combine frames (flags AND BPF_F_REUSE_STACKID \<noteq> 0)
                                 (flags AND BPF_F_FAST_STACK_CMP \<noteq> 0) t of
                            (r, t') \<Rightarrow> (and_then r (\<lambda>i. Inr (nat (i mod 2 ^ 32))),
                              sh\<lparr>sh_segment := (sh_segment sh)\<lparr>sg_objs := (sg_objs (sh_segment sh))(p \<mapsto> Stack_Trace_Impl t')\<rparr>\<rparr>))
                     | _ \<Rightarrow> (Inl UB, sh))
                 | _ \<Rightarrow> (Inl UB, sh))
             | Some _ \<Rightarrow> (Inl Throw, sh)
             | None \<Rightarrow> (Inl UB, sh))))"

text \<open>
  The bytes written into the buffer. The test of \<open>BPF_F_USER_BUILD_ID\<close> refuses calls without the flag,
  and the smaller of the number of frames and the size of the buffer is taken as a number of bytes.
\<close>

definition bpftime_get_stack :: "('vm, 'fn) attach_ctx \<Rightarrow> trace option \<Rightarrow> nat \<Rightarrow> 64 word \<Rightarrow> bytes res" where
  "bpftime_get_stack ctx stack sz flags =
     (if flags AND BPF_F_USER_STACK = 0 then Inl (NegErrno ENOTSUP)
      else if flags AND BPF_F_USER_BUILD_ID = 0 then Inl (NegErrno ENOTSUP)
      else and_then (collect_stack ctx stack flags) (\<lambda>frames.
        Inr (take (min (length frames) sz) (concat (map (\<lambda>f. le_bytes 8 (unat f)) frames)))))"

subsection \<open>Checksums: properties\<close>

text \<open>The sum of the 16-bit words of a buffer.\<close>

fun sum16 :: "bytes \<Rightarrow> int" where
  "sum16 (a # b # bs) = int (le_nat [a, b]) + sum16 bs"
| "sum16 bs = 0"

lemma le_nat2_bound: "le_nat [a, b :: byte] < 65536"
  using le_nat_bound [of "[a, b]"] by simp

lemma words16_spec:
  "length bs = 2 * n \<Longrightarrow> \<exists>ws. words16 n bs = Inr ws \<and> length ws = n \<and> (\<forall>w \<in> set ws. w < 65536) \<and>
     sum_list (map int ws) = sum16 bs"
proof (induction n arbitrary: bs)
  case (Suc n)
  obtain a b r where bs: "bs = a # b # r" using Suc.prems by (cases bs; cases "tl bs") auto
  obtain ws where "words16 n r = Inr ws" "length ws = n" "\<forall>w \<in> set ws. w < 65536" "sum_list (map int ws) = sum16 r"
    using Suc.IH [of r] Suc.prems bs by auto
  then show ?case using bs le_nat2_bound [of a b] by (simp add: and_then_def)
qed simp

lemma csum_add_spec: "acc + sum_list (map int ws) < 2 ^ 31 \<Longrightarrow> csum_add ws acc = Inr (acc + sum_list (map int ws))"
proof (induction ws arbitrary: acc)
  case (Cons w ws)
  have "0 \<le> sum_list (map int ws)" by (rule sum_list_nonneg) auto
  then show ?case using Cons by (simp add: add.assoc)
qed simp

lemma sum_list_bound: "\<forall>w \<in> set ws. w \<le> k \<Longrightarrow> sum_list (map int ws) \<le> int k * int (length ws)"
  by (induction ws) (auto simp: algebra_simps intro: add_mono)

lemma sum_complement: "\<forall>w \<in> set ws. w < 65536 \<Longrightarrow>
  sum_list (map (int \<circ> (\<lambda>w. 65535 - w)) ws) = 65535 * int (length ws) - sum_list (map int ws)"
  by (induction ws) (auto simp: algebra_simps of_nat_diff)

lemma csum_buffer_spec:
  assumes "length bs = 2 * n" and "0 \<le> acc" and "acc + 65535 * int n < 2 ^ 31"
  shows "csum_buffer id (Some bs) (int (length bs)) acc = Inr (acc + sum16 bs)"
    and "csum_buffer (\<lambda>w. 65535 - w) (Some bs) (int (length bs)) acc = Inr (acc + 65535 * int n - sum16 bs)"
    and "0 \<le> sum16 bs" and "sum16 bs \<le> 65535 * int n"
proof -
  obtain ws where ws: "words16 n bs = Inr ws" "length ws = n" "\<forall>w \<in> set ws. w < 65536" "sum_list (map int ws) = sum16 bs"
    using words16_spec [OF assms(1)] by blast
  have n: "nat (int (length bs) div 2) = n" using assms(1) by simp
  show b: "0 \<le> sum16 bs" unfolding ws(4) [symmetric] by (rule sum_list_nonneg) auto
  show b': "sum16 bs \<le> 65535 * int n" using sum_list_bound [of ws 65535] ws(2,3,4) by fastforce
  show "csum_buffer id (Some bs) (int (length bs)) acc = Inr (acc + sum16 bs)"
    using csum_add_spec [of acc ws] assms(3) b' ws(4) by (simp add: csum_buffer_def n ws(1) and_then_def del: of_nat_mult)
  show "csum_buffer (\<lambda>w. 65535 - w) (Some bs) (int (length bs)) acc = Inr (acc + 65535 * int n - sum16 bs)"
    using csum_add_spec [of acc "map (\<lambda>w. 65535 - w) ws"] sum_complement [OF ws(3)] assms(3) b ws(2,4)
    by (simp add: csum_buffer_def n ws(1) and_then_def)
qed

text \<open>
  C19: the checksum difference. For two buffers of whole 32-bit words, a seed that is not negative and a sum that fits an \<open>int\<close> the
  helper returns, and what it returns is a one's complement sum: modulo 65535 it is the seed plus
  the 16-bit words of the new buffer minus those of the old one. It is not negative then.
\<close>

theorem csum_diff_ones_complement:
  assumes "length fb = 4 * n" and "length tb = 4 * k" and "0 \<le> seed" and "seed + 65535 * int (2 * (n + k)) < 2 ^ 31"
  shows "\<exists>r. bpftime_csum_diff (Some fb) (int (length fb)) (Some tb) (int (length tb)) seed = Inr r \<and>
    0 \<le> r \<and> r mod 65535 = (seed + sum16 tb - sum16 fb) mod 65535"
proof -
  have t: "length tb = 2 * (2 * k)" "seed + 65535 * int (2 * k) < 2 ^ 31" using assms by simp_all
  note ct = csum_buffer_spec [OF t(1) assms(3) t(2)]
  have f: "length fb = 2 * (2 * n)" "0 \<le> seed + sum16 tb" "seed + sum16 tb + 65535 * int (2 * n) < 2 ^ 31"
    using assms ct(3,4) by simp_all
  note cf = csum_buffer_spec [OF f]
  let ?r = "seed + sum16 tb + 65535 * int (2 * n) - sum16 fb"
  have m: "int (length fb) mod 4 = 0" "int (length tb) mod 4 = 0" using assms(1,2) by simp_all
  have r: "0 \<le> ?r" using cf(4) f(2) by linarith
  have "bpftime_csum_diff (Some fb) (int (length fb)) (Some tb) (int (length tb)) seed = Inr ?r"
    unfolding bpftime_csum_diff_def ct(1) and_then_def sum.case cf(2) using m r by simp
  moreover have "?r mod 65535 = (seed + sum16 tb - sum16 fb) mod 65535"
    using mod_mult_self1 [of "seed + sum16 tb - sum16 fb" "int (2 * n)" 65535] by (simp add: algebra_simps)
  ultimately show ?thesis using r by blast
qed

theorem csum_diff_ones_complement_witness:
  "\<exists>r. bpftime_csum_diff (Some [1, 0, 2, 0]) 4 (Some [5, 0, 7, 0]) 4 3 = Inr r \<and> r mod 65535 = 12"
  using csum_diff_ones_complement [of "[1, 0, 2, 0]" 1 "[5, 0, 7, 0]" 1 3] by auto

subsection \<open>XDP: properties\<close>

text \<open>The packet lies in its buffer.\<close>

definition xdp_ok :: "xdp_md \<Rightarrow> bool" where
  "xdp_ok x \<longleftrightarrow> xdp_buffer_start x \<le> xdp_data x \<and> xdp_data x \<le> xdp_data_end x \<and> xdp_data_end x \<le> xdp_buffer_end x"

text \<open>An \<open>int\<close> added to an address, modulo \<open>2 ^ 64\<close>.\<close>

lemma uint_add_offset: "uint ((a :: 64 word) + word_of_int d) = (uint a + d) mod 2 ^ 64"
  by (simp add: uint_word_ariths uint_word_of_int mod_simps)

lemma uint_add_cases:
  assumes "- (2 ^ 31) \<le> d" and "d < 2 ^ 31" and "uint (a :: 64 word) < 2 ^ 64 - 2 ^ 31"
  shows "uint (a + word_of_int d) = (if uint a + d < 0 then uint a + d + 2 ^ 64 else uint a + d)"
proof (cases "uint a + d < 0")
  case True
  have "- 2147483648 \<le> d" using assms(1) by simp
  then have "0 \<le> uint a + d + 18446744073709551616" using uint_ge_0 [of a] by linarith
  then have "(uint a + d + 2 ^ 64) mod 2 ^ 64 = uint a + d + 2 ^ 64" using True by (intro mod_pos_pos_trivial) simp_all
  then show ?thesis using True by (simp add: uint_add_offset)
next
  case False
  then have "(uint a + d) mod 2 ^ 64 = uint a + d" using assms by (intro mod_pos_pos_trivial) simp_all
  then show ?thesis using False by (simp add: uint_add_offset)
qed

lemmas xdp_simps = xdp_ok_def word_le_def word_less_def Let_def

text \<open>
  C20: the end of a packet. \<open>bpftime_xdp_adjust_tail\<close> succeeds exactly when the moved end lies between
  the start of the data and the end of the buffer; then only the end moves, by \<open>delta\<close>. Otherwise it
  gives \<open>-EINVAL\<close> and changes nothing. In both cases the packet stays inside its buffer, for
  every \<open>int\<close> and every buffer that does not touch the end of the address space.
\<close>

theorem xdp_adjust_tail_in_buffer:
  assumes "xdp_ok x" and "- (2 ^ 31) \<le> delta" and "delta < 2 ^ 31" and "uint (xdp_buffer_end x) < 2 ^ 64 - 2 ^ 31"
    and "bpftime_xdp_adjust_tail delta x = (r, x')"
  shows "xdp_ok x' \<and>
    (if uint (xdp_data x) \<le> uint (xdp_data_end x) + delta \<and> uint (xdp_data_end x) + delta \<le> uint (xdp_buffer_end x)
     then r = Inr () \<and> uint (xdp_data_end x') = uint (xdp_data_end x) + delta \<and> xdp_data x' = xdp_data x
     else r = Inl (NegErrno EINVAL) \<and> x' = x)"
proof -
  have e: "uint (xdp_data_end x) < 2 ^ 64 - 2 ^ 31" using assms(1,4) by (simp add: xdp_simps)
  note u = uint_add_cases [OF assms(2,3) e]
  have n: "uint (xdp_buffer_end x) < uint (xdp_data_end x) + delta + 2 ^ 64" and p: "\<not> uint (xdp_data x) \<le> v" if "v < 0" for v
    using assms(2,4) uint_ge_0 [of "xdp_data_end x"] uint_ge_0 [of "xdp_data x"] that by linarith+
  show ?thesis
  proof (cases "uint (xdp_data_end x) + delta < 0")
    case True
    then show ?thesis using assms(1,5) u n [OF True] p [OF True] by (auto simp: bpftime_xdp_adjust_tail_def xdp_simps)
  next
    case False
    then show ?thesis using assms(1,5) u by (auto simp: bpftime_xdp_adjust_tail_def xdp_simps split: if_splits)
  qed
qed

definition sample_xdp :: xdp_md where
  "sample_xdp = \<lparr>xdp_data = 100, xdp_data_end = 200, xdp_buffer_start = 100, xdp_buffer_end = 210\<rparr>"

theorem xdp_adjust_tail_in_buffer_witness:
  "\<exists>x'. bpftime_xdp_adjust_tail (-60) sample_xdp = (Inr (), x') \<and> xdp_ok x' \<and> uint (xdp_data_end x') = 140"
proof -
  obtain r x' where a: "bpftime_xdp_adjust_tail (-60) sample_xdp = (r, x')" by fastforce
  then show ?thesis
    using xdp_adjust_tail_in_buffer [of sample_xdp "-60" r x'] by (auto simp: sample_xdp_def xdp_simps)
qed

text \<open>
  The start of a packet can be moved back inside the buffer or up to 14 bytes before the end, and
  the packet stays inside its buffer.
\<close>

lemma xdp_adjust_head_in_buffer:
  assumes "xdp_ok x" and "- (2 ^ 31) \<le> offset" and "offset < 2 ^ 31" and "uint (xdp_buffer_end x) < 2 ^ 64 - 2 ^ 31"
    and "14 \<le> uint (xdp_data_end x)" and "uint (xdp_buffer_start x) \<le> uint (xdp_data x) + offset"
  shows "bpftime_xdp_adjust_head offset x mem =
    (if uint (xdp_data x) + offset \<le> uint (xdp_data_end x) - 14
     then (Inr (), x\<lparr>xdp_data := xdp_data x + word_of_int offset\<rparr>, mem) else (Inl (NegErrno EINVAL), x, mem))"
proof -
  have d: "uint (xdp_data x) < 2 ^ 64 - 2 ^ 31" using assms(1,4) by (simp add: xdp_simps)
  have "\<not> uint (xdp_data x) + offset < 0" using assms(6) uint_ge_0 [of "xdp_buffer_start x"] by linarith
  then have u: "uint (xdp_data x + word_of_int offset) = uint (xdp_data x) + offset"
    using uint_add_cases [OF assms(2,3) d] by simp
  have v: "uint (xdp_data_end x - 14) = uint (xdp_data_end x) - 14"
    using uint_add_cases [of "-14" "xdp_data_end x"] assms(1,4,5) by (simp add: xdp_simps)
  show ?thesis using assms(1,6) u v by (auto simp: bpftime_xdp_adjust_head_def xdp_simps)
qed

text \<open>
  Where the new start lies before the buffer, the packet is moved: to the mirror image of the
  wanted start, with its end left where it was. The sample's last bytes are written behind the
  end of the buffer.
\<close>

theorem xdp_adjust_head_writes_beyond_buffer:
  "xdp_ok sample_xdp \<and>
   (case bpftime_xdp_adjust_head (-50) sample_xdp (\<lambda>a. if a < 200 then 1 else 0) of
      (r, x, mem) \<Rightarrow> r = Inr () \<and> xdp_data_end x = 200 \<and> xdp_buffer_end sample_xdp < 249 \<and> mem 249 = 1)"
  by (simp add: sample_xdp_def xdp_ok_def bpftime_xdp_adjust_head_def memmove_def)

subsection \<open>Output to a ring buffer: properties\<close>

lemma map_ptr_fd_by_fd:
  assumes "is_map_fd (sint fd) sh"
  shows "map_ptr_fd (map_ptr_by_fd fd sh) = sint fd"
proof -
  have "sh_manager sh \<noteq> None" using assms by (cases "sh_manager sh") (simp_all add: is_map_fd_def sh_slot_def)
  then have "map_ptr_by_fd fd sh = push_bit 32 (ucast fd) OR 0xffffffff" using assms by (auto simp: map_ptr_by_fd_def)
  then show ?thesis by (simp only: map_ptr_fd_def map_ptr_shift)
qed

lemma ringbuf_is_map: "sh_try_get_ringbuf_map_impl fd sh = Some x \<Longrightarrow> is_map_fd fd sh"
  by (auto simp: sh_try_get_ringbuf_map_impl_def is_ringbuf_map_fd_def is_map_fd_def split: if_splits option.splits handler_variant.splits)

text \<open>The memory with another object at a pointer.\<close>

definition put_obj :: "nat \<Rightarrow> map_impl \<Rightarrow> bpftime_shm \<Rightarrow> bpftime_shm" where
  "put_obj p obj sh = sh\<lparr>sh_segment := (sh_segment sh)\<lparr>sg_objs := (sg_objs (sh_segment sh))(p \<mapsto> obj)\<rparr>\<rparr>"

lemma put_obj_simps [simp]:
  "sg_objs (sh_segment (put_obj p obj sh)) p = Some obj"
  "sh_try_get_ringbuf_map_impl fd (put_obj p obj sh) = sh_try_get_ringbuf_map_impl fd sh"
  by (simp_all add: put_obj_def sh_try_get_ringbuf_map_impl_def is_ringbuf_map_fd_def sh_slot_def)

lemma on_ringbuf_at:
  assumes "sh_try_get_ringbuf_map_impl fd sh = Some (Some p)" and "sg_objs (sh_segment sh) p = Some (Ringbuf_Impl m)"
  shows "on_ringbuf f fd sh = (fst (f m), put_obj p (Ringbuf_Impl (snd (f m))) sh)"
  using assms by (simp add: on_ringbuf_def put_obj_def split: prod.split)

lemma rb_stale_length:
  assumes "rb_rep m rs" and "rb_total sz \<le> rb_max_ent m"
  shows "length (rb_stale sz m) = sz"
proof -
  have ok: "rb_ok m" using assms(1) by (simp add: rb_rep_def)
  define q where "q = rb_producer_pos m mod rb_max_ent m"
  have "q < rb_max_ent m" using rb_ok_bounds [OF ok] by (simp add: q_def)
  moreover have "sz + 8 \<le> rb_max_ent m" using rb_total_bounds(1) [of sz] assms(2) by simp
  ultimately show ?thesis using ok by (simp add: rb_ok_def rb_stale_def blk_get_def q_def [symmetric])
qed

text \<open>Reserve, copy and submit, one after the other, on a ring with room for the sample.\<close>

lemma rb_output:
  assumes reach: "rb_reach m rs" and pos: "rb_producer_pos m + rb_max_ent m < 2 ^ 64" and ne: "bs \<noteq> []"
    and room: "rb_span rs + rb_total (length bs) \<le> rb_max_ent m" and ptr: "rb_ptr m rs \<noteq> 0"
  shows "\<exists>m1 m2 m3. rb_reserve (length bs) fd m = (Inr (rb_ptr m rs), m1) \<and>
    rb_write (rb_ptr m rs) bs m1 = (Inr (), m2) \<and> rb_submit (rb_ptr m rs) False m2 = (Inr (), m3) \<and>
    rb_reach m3 (rs @ [\<lparr>rr_size = length bs, rr_busy = False, rr_discard = False, rr_data = bs\<rparr>])"
proof -
  let ?r = "\<lparr>rr_size = length bs, rr_busy = True, rr_discard = False, rr_data = rb_stale (length bs) m\<rparr>"
  have rep: "rb_rep m rs" by (rule rb_reach_rep [OF reach])
  have sz: "length bs < 2 ^ 64"
    using room rb_total_bounds(1) [of "length bs"] rb_ok_bounds [of m] rep by (simp add: rb_rep_def)
  obtain m1 where m1: "rb_reserve (length bs) fd m = (Inr (rb_ptr m rs), m1)" "rb_consumer_pos m1 = rb_consumer_pos m"
    using rb_reserve_refines [OF rep sz pos, of fd] room by (auto split: if_splits)
  have r1: "rb_reach m1 (rs @ ?r # [])" using rb_reserved [OF reach pos sz m1(1)] .
  have p1: "rb_ptr m1 rs = rb_ptr m rs" using m1 rb_max_ent_frame(1) [of "length bs" fd m] by (simp add: rb_ptr_def)
  obtain m2 where m2: "rb_write (rb_ptr m rs) bs m1 = (Inr (), m2)" "rb_consumer_pos m2 = rb_consumer_pos m1"
    using rb_write_refines [OF rb_reach_rep [OF r1], of bs] ne p1 by auto
  have b: "blk_put 0 bs (rb_stale (length bs) m) = bs" using rb_stale_length [OF rep] room by (simp add: blk_put_def)
  have r2: "rb_reach m2 (rs @ ?r\<lparr>rr_data := bs\<rparr> # [])"
    using rb_written [OF r1 _ _ ne, of "Inr ()" m2] m2(1) p1 ptr b by simp
  have p2: "rb_ptr m2 rs = rb_ptr m rs"
    using m2 p1 by (auto simp: rb_ptr_def rb_write_def split: sum.splits)
  obtain m3 where m3: "rb_submit (rb_ptr m rs) False m2 = (Inr (), m3)"
    using rb_submit_refines [OF rb_reach_rep [OF r2], of False] p2 by auto
  have "rb_reach m3 (rs @ [\<lparr>rr_size = length bs, rr_busy = False, rr_discard = False, rr_data = bs\<rparr>])"
    using rb_submitted [OF r2, of False "Inr ()" m3] m3 p2 by simp
  then show ?thesis using m1(1) m2(1) m3 by blast
qed

text \<open>The samples of a list of records: what the consumer hands out when no record is busy and the callback does not fail.\<close>

definition rb_samples :: "rb_rec list \<Rightarrow> bytes list" where
  "rb_samples rs = map rr_data (filter (\<lambda>r. \<not> rr_discard r) rs)"

lemma rb_deliver_all:
  assumes "\<forall>r\<in>set rs. \<not> rr_busy r" and "\<forall>c bs. 0 \<le> snd (cb c bs)"
  shows "fst (rb_deliver cb ctx n rs) = (s32 (w32 (n + length (rb_samples rs))), fold (\<lambda>bs c. fst (cb c bs)) (rb_samples rs) ctx)"
  using assms
proof (induction rs arbitrary: ctx n)
  case (Cons r rs)
  have "\<not> snd (cb ctx (rr_data r)) < 0" using Cons.prems(2) by (simp add: not_less)
  then show ?case using Cons by (auto simp: rb_samples_def case_prod_beta)
qed (simp add: rb_samples_def)

lemma rb_span_length: "8 * length rs \<le> rb_span rs"
proof (induction rs)
  case (Cons r rs)
  then show ?case using rb_total_bounds(1) [of "rr_size r"] by simp
qed simp

lemma rb_samples_count:
  assumes "rb_rep m rs"
  shows "s32 (w32 (length (rb_samples rs))) = int (length (rb_samples rs))"
proof -
  have "length (rb_samples rs) \<le> length rs" by (simp add: rb_samples_def)
  then have "8 * length (rb_samples rs) \<le> 2 ^ 30"
    using assms rb_span_length [of rs] rb_ok_bounds [of m] by (simp add: rb_rep_def)
  then show ?thesis by (simp add: s32_def w32_def)
qed

lemma ringbuf_output_polled:
  assumes "sh_try_get_ringbuf_map_impl (sint fd) sh = Some (Some p)" and "sg_objs (sh_segment sh) p = Some (Ringbuf_Impl m)"
    and "rb_reach m rs" and "rb_producer_pos m + rb_max_ent m < 2 ^ 64" and "data \<noteq> []"
    and "rb_span rs + rb_total (length data) \<le> rb_max_ent m" and "rb_ptr m rs \<noteq> 0"
  shows "\<exists>sh' sh'' m'. bpf_ringbuf_output (map_ptr_by_fd fd sh) data (length data) sh = (Inr (), sh') \<and>
    bpftime_poll_from_ringbuf (sint fd) ctx cb sh' = Some (Inr (fst (rb_deliver cb ctx 0
      (rs @ [\<lparr>rr_size = length data, rr_busy = False, rr_discard = False, rr_data = data\<rparr>]))), sh'') \<and>
    rb_rep m' (rs @ [\<lparr>rr_size = length data, rr_busy = False, rr_discard = False, rr_data = data\<rparr>])"
proof -
  obtain m1 m2 m3 where m: "rb_reserve (length data) (sint fd) m = (Inr (rb_ptr m rs), m1)"
      "rb_write (rb_ptr m rs) data m1 = (Inr (), m2)" "rb_submit (rb_ptr m rs) False m2 = (Inr (), m3)"
    and r: "rb_reach m3 (rs @ [\<lparr>rr_size = length data, rr_busy = False, rr_discard = False, rr_data = data\<rparr>])"
    using rb_output [OF assms(3-7)] by blast
  have fd: "map_ptr_fd (map_ptr_by_fd fd sh) = sint fd" by (rule map_ptr_fd_by_fd [OF ringbuf_is_map [OF assms(1)]])
  have ld: "load 0 (length data) data = Inr data" by (simp add: load_def blk_get_def)
  let ?p = "\<lambda>m. put_obj p (Ringbuf_Impl m)"
  let ?sh = "?p m3 (?p m2 (?p m1 sh))"
  have "bpf_ringbuf_output (map_ptr_by_fd fd sh) data (length data) sh = (Inr (), ?sh)"
    using m assms(1,2) ld
    by (simp add: bpf_ringbuf_output_def fd bpftime_ringbuf_reserve_def bpftime_ringbuf_submit_def on_ringbuf_at)
  moreover have "\<exists>sh''. bpftime_poll_from_ringbuf (sint fd) ctx cb ?sh = Some (Inr (fst (rb_deliver cb ctx 0
      (rs @ [\<lparr>rr_size = length data, rr_busy = False, rr_discard = False, rr_data = data\<rparr>]))), sh'')"
    using rb_fetch_loop_delivers [OF rb_reach_rep [OF r], of cb ctx False 0] assms(1)
    by (auto simp: bpftime_poll_from_ringbuf_def rb_fetch_data_def)
  ultimately show ?thesis using rb_reach_rep [OF r] by blast
qed

text \<open>
  C18: what a program outputs reaches user space. On the pointer that the program was given for a
  ring buffer map, \<open>bpf_ringbuf_output\<close> of a nonempty sample that fits beside the outstanding records
  succeeds, and a poll of the map from user space then returns, hands the callback the samples of the
  outstanding records followed by this one, with exactly its bytes, and returns their number. The sample must not start
  at the wrap-around of the ring, where it is lost, and delivery stops at a record that is still busy and
  at a negative result of the callback: the earlier records are committed and the callback
  never returns one.
\<close>

theorem ringbuf_output_delivered:
  assumes "sh_try_get_ringbuf_map_impl (sint fd) sh = Some (Some p)" and "sg_objs (sh_segment sh) p = Some (Ringbuf_Impl m)"
    and "rb_reach m rs" and "rb_producer_pos m + rb_max_ent m < 2 ^ 64" and "data \<noteq> []"
    and "rb_span rs + rb_total (length data) \<le> rb_max_ent m" and "rb_ptr m rs \<noteq> 0"
    and "\<forall>r\<in>set rs. \<not> rr_busy r" and "\<forall>c bs. 0 \<le> snd (cb c bs)"
  shows "\<exists>sh' sh''. bpf_ringbuf_output (map_ptr_by_fd fd sh) data (length data) sh = (Inr (), sh') \<and>
    bpftime_poll_from_ringbuf (sint fd) ctx cb sh' = Some (Inr (int (length (rb_samples rs) + 1),
      fold (\<lambda>bs c. fst (cb c bs)) (rb_samples rs @ [data]) ctx), sh'')"
proof -
  let ?rs = "rs @ [\<lparr>rr_size = length data, rr_busy = False, rr_discard = False, rr_data = data\<rparr>]"
  obtain sh' sh'' m' where p: "bpf_ringbuf_output (map_ptr_by_fd fd sh) data (length data) sh = (Inr (), sh')"
      "bpftime_poll_from_ringbuf (sint fd) ctx cb sh' = Some (Inr (fst (rb_deliver cb ctx 0 ?rs)), sh'')" "rb_rep m' ?rs"
    using ringbuf_output_polled [OF assms(1-7), of ctx cb] by blast
  have s: "rb_samples ?rs = rb_samples rs @ [data]" by (simp add: rb_samples_def)
  have "fst (rb_deliver cb ctx 0 ?rs) = (int (length (rb_samples ?rs)), fold (\<lambda>bs c. fst (cb c bs)) (rb_samples ?rs) ctx)"
    using rb_deliver_all [of ?rs cb ctx 0] assms(8,9) rb_samples_count [OF p(3)] by simp
  then show ?thesis using p(1,2) unfolding s by auto
qed

text \<open>One ring buffer map of 16 bytes at descriptor 0.\<close>

definition ringbuf_shm :: "ringbuf \<Rightarrow> bpftime_shm" where
  "ringbuf_shm m = (let sh = shm_new 2 in sh\<lparr>
     sh_manager := Some [Map_H ((mh_new 0 ''rb'' (array_attr\<lparr>at_type := 27\<rparr>))\<lparr>mh_type := BPF_MAP_TYPE_RINGBUF, mh_map_impl_ptr := Some 0\<rparr>)],
     sh_segment := (sh_segment sh)\<lparr>sg_objs := [0 \<mapsto> Ringbuf_Impl m]\<rparr>\<rparr>)"

theorem ringbuf_output_delivered_witness:
  "\<exists>m sh' sh''. bpf_ringbuf_output (map_ptr_by_fd 0 (ringbuf_shm m)) [7, 8] 2 (ringbuf_shm m) = (Inr (), sh') \<and>
     bpftime_poll_from_ringbuf 0 [] (\<lambda>c bs. (c @ [bs], 0)) sh' = Some (Inr (1, [[7, 8]]), sh'')"
proof -
  obtain m where m: "rb_reach m []" "rb_max_ent m = 16" "rb_producer_pos m = 0" using rb_ex_new by blast
  have c: "rb_consumer_pos m = 0" using rb_reach_rep [OF m(1)] m(3) by (simp add: rb_rep_def)
  have "sh_try_get_ringbuf_map_impl (sint (0 :: 32 word)) (ringbuf_shm m) = Some (Some 0)"
    "sg_objs (sh_segment (ringbuf_shm m)) 0 = Some (Ringbuf_Impl m)"
    by (simp_all add: ringbuf_shm_def Let_def sh_try_get_ringbuf_map_impl_def is_ringbuf_map_fd_def sh_slot_def
        try_get_ringbuf_map_impl_def)
  note out = ringbuf_output_delivered [OF this m(1), of "[7, 8]" "\<lambda>c bs. (c @ [bs], 0)" "[]"]
  have l: "length [7, 8 :: byte] = 2" by simp
  show ?thesis using out [unfolded l] m(2,3) c by (auto simp: rb_total_def rb_ptr_def rb_samples_def)
qed

subsection \<open>Identities and stacks: properties\<close>

lemma bit_of_int32:
  assumes "0 \<le> x" and "(x :: int) < 2 ^ 31" and "bit x n"
  shows "n < 32"
proof (rule ccontr)
  assume "\<not> n < 32"
  then have "x < 2 ^ n" using assms(2) power_increasing [of 32 n "2 :: int"] by simp
  then show False using assms(1,3) by (simp add: bit_iff_odd div_pos_pos_trivial)
qed

text \<open>Process and thread id are both recovered from the packed value.\<close>

lemma pid_tgid_round_trip:
  assumes "0 \<le> tgid" and "tgid < 2 ^ 31" and "0 \<le> tid" and "tid < 2 ^ 31"
  shows "uint (drop_bit 32 (bpftime_get_current_pid_tgid tgid tid)) = tgid \<and>
    uint (bpftime_get_current_pid_tgid tgid tid AND mask 32) = tid"
proof -
  note b = bit_of_int32 [OF assms(1,2)] bit_of_int32 [OF assms(3,4)]
  have "drop_bit 32 (bpftime_get_current_pid_tgid tgid tid) = word_of_int tgid"
    by (rule bit_word_eqI) (use b in \<open>auto simp: bpftime_get_current_pid_tgid_def bit_simps\<close>)
  moreover have "bpftime_get_current_pid_tgid tgid tid AND mask 32 = word_of_int tid"
    by (rule bit_word_eqI) (use b in \<open>auto simp: bpftime_get_current_pid_tgid_def bit_simps\<close>)
  ultimately show ?thesis using assms by (simp add: uint_word_of_int)
qed

text \<open>The lower half of the group and user id is the group id, whatever the user.\<close>

lemma uid_gid_is_gid:
  assumes "0 \<le> gid" and "gid < 2 ^ 31"
  shows "uint (bpf_get_current_uid_gid gid AND mask 32) = gid"
  using pid_tgid_round_trip [OF assms assms]
  by (simp add: bpf_get_current_uid_gid_def bpftime_get_current_pid_tgid_def)

text \<open>
  \<open>bpftime_get_stack\<close> writes at most as many bytes as there are frames of eight bytes each, so never
  a whole stack, and only for calls that ask for build ids.
\<close>

lemma get_stack_truncates:
  assumes "bpftime_get_stack ctx (Some frames) sz flags = Inr bs"
  shows "flags AND BPF_F_USER_BUILD_ID \<noteq> 0 \<and> length bs \<le> length frames"
  using assms by (auto simp: bpftime_get_stack_def collect_stack_def and_then_def split: if_splits option.splits)

lemma get_stack_no_build_id:
  assumes "flags AND BPF_F_USER_BUILD_ID = 0"
  shows "bpftime_get_stack ctx stack sz flags = Inl (NegErrno ENOTSUP)"
  using assms by (simp add: bpftime_get_stack_def)

text \<open>The early returns of \<open>bpf_perf_event_output\<close> leave the thread bound to its CPU.\<close>

lemma perf_event_output_stays_pinned:
  assumes "cpu \<noteq> -1" and "bind" and "bpftime_map_get_info (map_ptr_fd m) sh = Inl f"
  shows "bpf_perf_event_output e cpu bind shared m data sz sh = (Inl MinusOne, True, sh)"
  using assms by (simp add: bpf_perf_event_output_def Let_def)

end
