(* ===== verification/Crab_Number.thy ===== *)
theory Crab_Number
  imports Bpf_Prelude "HOL-Library.Signed_Division"
begin

text \<open>
  The numbers of the eBPF verifier (\<open>z_number\<close> of \<open>crab_utils/bignums.hpp\<close>). They are unbounded, so
  they are \<open>int\<close> here; \<open>/\<close> and \<open>%\<close> truncate towards zero, as \<open>sdiv\<close> and \<open>smod\<close> do. This theory has
  the conversions to machine integers. \<open>CRAB_ERROR\<close> raises. The conversion of a \<open>cpp_int\<close> to \<open>uint64_t\<close> is code of Boost and the
  parameter \<open>conv\<close>.
\<close>

unbundle bit_operations_syntax

definition fits_sint32 :: "int \<Rightarrow> bool" where
  "fits_sint32 n \<longleftrightarrow> n \<ge> - (2 ^ 31) \<and> n \<le> 2 ^ 31 - 1"

definition fits_uint32 :: "int \<Rightarrow> bool" where
  "fits_uint32 n \<longleftrightarrow> n \<ge> 0 \<and> n \<le> 2 ^ 32 - 1"

definition fits_sint64 :: "int \<Rightarrow> bool" where
  "fits_sint64 n \<longleftrightarrow> n \<ge> - (2 ^ 63) \<and> n \<le> 2 ^ 63 - 1"

definition fits_uint64 :: "int \<Rightarrow> bool" where
  "fits_uint64 n \<longleftrightarrow> n \<ge> 0 \<and> n \<le> 2 ^ 64 - 1"

definition fits_cast_to_int64 :: "int \<Rightarrow> bool" where
  "fits_cast_to_int64 n \<longleftrightarrow> fits_uint64 n \<or> fits_sint64 n"

text \<open>A conversion to a signed type of \<open>w\<close> bits.\<close>

definition wrap_signed :: "nat \<Rightarrow> int \<Rightarrow> int" where
  "wrap_signed w n = (let y = n mod 2 ^ w in if y < 2 ^ (w - 1) then y else y - 2 ^ w)"

definition cast_to_uint64 :: "int \<Rightarrow> int res" where
  "cast_to_uint64 n = (if fits_uint64 n then Inr n else if fits_sint64 n then Inr (n mod 2 ^ 64) else Inl Throw)"

text \<open>
  The conversion of a \<open>cpp_int\<close> to \<open>uint64_t\<close> belongs to Boost: \<open>conv\<close> is its result. It is relied on for numbers that fit; for others
  it raises or takes the low 64 bits.
\<close>

definition u64_conversion :: "(int \<Rightarrow> int res) \<Rightarrow> bool" where
  "u64_conversion conv \<longleftrightarrow> (\<forall>n. if fits_uint64 n then conv n = Inr n else conv n = Inl Throw \<or> conv n = Inr (n mod 2 ^ 64))"

definition truncate_to_uint64 :: "(int \<Rightarrow> int res) \<Rightarrow> int \<Rightarrow> int res" where
  "truncate_to_uint64 conv n = (if fits_sint64 n then Inr (n mod 2 ^ 64) else conv n)"

definition cast_to_uint32 :: "int \<Rightarrow> int res" where
  "cast_to_uint32 n = (if fits_uint32 n then Inr n else if fits_sint32 n then Inr (n mod 2 ^ 32) else Inl Throw)"

definition truncate_to_uint32 :: "(int \<Rightarrow> int res) \<Rightarrow> int \<Rightarrow> int res" where
  "truncate_to_uint32 conv n = and_then (truncate_to_uint64 conv n) (\<lambda>m. Inr (m mod 2 ^ 32))"

definition cast_to_sint64 :: "int \<Rightarrow> int res" where
  "cast_to_sint64 n = (if fits_sint64 n then Inr n else if fits_uint64 n then Inr (wrap_signed 64 n) else Inl Throw)"

definition truncate_to_sint64 :: "(int \<Rightarrow> int res) \<Rightarrow> int \<Rightarrow> int res" where
  "truncate_to_sint64 conv n = (if fits_sint64 n then Inr n else and_then (conv n) (\<lambda>m. Inr (wrap_signed 64 m)))"

definition cast_to_sint32 :: "int \<Rightarrow> int res" where
  "cast_to_sint32 n = and_then (cast_to_sint64 n) (\<lambda>m. Inr (wrap_signed 32 m))"

definition truncate_to_sint32 :: "(int \<Rightarrow> int res) \<Rightarrow> int \<Rightarrow> int res" where
  "truncate_to_sint32 conv n = and_then (truncate_to_sint64 conv n) (\<lambda>m. Inr (wrap_signed 32 m))"

text \<open>Width 0 is no conversion.\<close>

definition cast_to_signed_finite_width :: "nat \<Rightarrow> int \<Rightarrow> int res" where
  "cast_to_signed_finite_width w n =
     (if w = 0 then Inr n else if w = 32 then cast_to_sint32 n else if w = 64 then cast_to_sint64 n else Inl Throw)"

definition cast_to_unsigned_finite_width :: "nat \<Rightarrow> int \<Rightarrow> int res" where
  "cast_to_unsigned_finite_width w n =
     (if w = 0 then Inr n else if w = 32 then cast_to_uint32 n else if w = 64 then cast_to_uint64 n else Inl Throw)"

definition truncate_to_signed_finite_width :: "(int \<Rightarrow> int res) \<Rightarrow> nat \<Rightarrow> int \<Rightarrow> int res" where
  "truncate_to_signed_finite_width conv w n =
     (if w = 0 then Inr n else if w = 32 then truncate_to_sint32 conv n
      else if w = 64 then truncate_to_sint64 conv n else Inl Throw)"

definition truncate_to_unsigned_finite_width :: "(int \<Rightarrow> int res) \<Rightarrow> nat \<Rightarrow> int \<Rightarrow> int res" where
  "truncate_to_unsigned_finite_width conv w n =
     (if w = 0 then Inr n else if w = 32 then truncate_to_uint32 conv n
      else if w = 64 then truncate_to_uint64 conv n else Inl Throw)"

text \<open>Division and remainder; a zero divisor raises.\<close>

definition zn_div :: "int \<Rightarrow> int \<Rightarrow> int res" where
  "zn_div a b = (if b = 0 then Inl Throw else Inr (a sdiv b))"

definition zn_mod :: "int \<Rightarrow> int \<Rightarrow> int res" where
  "zn_mod a b = (if b = 0 then Inl Throw else Inr (a smod b))"

definition zn_shr :: "int \<Rightarrow> int \<Rightarrow> int res" where
  "zn_shr a k = (if \<not> fits_sint32 k then Inl Throw else if k < 0 then Inl Throw else Inr (a div 2 ^ nat k))"

text \<open>The least \<open>2 ^ k - 1\<close> not below the number, by doubling.\<close>

function fill_from :: "int \<Rightarrow> nat \<Rightarrow> int" where
  "fill_from n r = (if int r < n then fill_from n (2 * r + 1) else int r)"
  by pat_completeness auto

termination
  by (relation "measure (\<lambda>(n, r). nat n - r)") auto

declare fill_from.simps [simp del]

definition fill_ones :: "int \<Rightarrow> int" where
  "fill_ones n = (if n = 0 then 0 else fill_from n 1)"

subsection \<open>Lemmas\<close>

lemmas fits_defs = fits_sint32_def fits_uint32_def fits_sint64_def fits_uint64_def fits_cast_to_int64_def

lemma wrap_signed_mod: "wrap_signed w n mod 2 ^ w = n mod 2 ^ w"
  by (simp add: wrap_signed_def Let_def)

lemma wrap_signed_range:
  assumes "0 < w"
  shows "- (2 ^ (w - 1)) \<le> wrap_signed w n \<and> wrap_signed w n < 2 ^ (w - 1)"
proof -
  define y h where "y = n mod 2 ^ w" and "h = (2 :: int) ^ (w - 1)"
  have "(2 :: int) ^ w = 2 * h" using assms by (cases w) (simp_all add: h_def)
  moreover have "0 \<le> y" "y < 2 ^ w" by (simp_all add: y_def)
  ultimately show ?thesis unfolding wrap_signed_def y_def [symmetric] h_def [symmetric] Let_def by auto
qed

text \<open>The conversion is the one representative in the range.\<close>

lemma mod_unique_range:
  fixes a b m :: int
  assumes "a mod m = b mod m" and "l \<le> a" "a < l + m" "l \<le> b" "b < l + m"
  shows "a = b"
proof -
  have "(a - l) mod m = (b - l) mod m" using assms(1) by (metis mod_diff_left_eq)
  then show ?thesis using assms(2-5) by simp
qed

lemma wrap_signed_id:
  assumes "0 < w" and "- (2 ^ (w - 1)) \<le> n" and "n < 2 ^ (w - 1)"
  shows "wrap_signed w n = n"
proof -
  define h where "h = (2 :: int) ^ (w - 1)"
  have w: "(2 :: int) ^ w = h + h" using assms(1) by (cases w) (simp_all add: h_def)
  have r: "- h \<le> wrap_signed w n" "wrap_signed w n < h" "- h \<le> n" "n < h"
    using wrap_signed_range [OF assms(1), of n] assms(2,3) by (simp_all add: h_def)
  show ?thesis
    by (rule mod_unique_range [OF wrap_signed_mod [of w n], of "- h"]) (use r w in simp_all)
qed

lemma wrap_signed_64_mod: "wrap_signed 64 (n mod 2 ^ 64) = wrap_signed 64 n"
  by (simp add: wrap_signed_def)

lemma wrap_signed_32_64: "wrap_signed 32 (wrap_signed 64 n) = wrap_signed 32 n"
proof -
  have "wrap_signed 64 n mod 2 ^ 32 = n mod 2 ^ 32"
    using arg_cong [OF wrap_signed_mod [of 64 n], of "\<lambda>x. x mod 2 ^ 32"] by (simp add: mod_mod_cancel)
  then show ?thesis by (simp add: wrap_signed_def)
qed

text \<open>A truncation raises or wraps the number, and does not raise for one that fits a 64-bit type.\<close>

lemma truncate_64:
  assumes "u64_conversion conv"
  shows "truncate_to_uint64 conv n = Inr (n mod 2 ^ 64) \<or> truncate_to_uint64 conv n = Inl Throw \<and> \<not> fits_cast_to_int64 n"
    "truncate_to_sint64 conv n = Inr (wrap_signed 64 n) \<or> truncate_to_sint64 conv n = Inl Throw \<and> \<not> fits_cast_to_int64 n"
proof -
  have c: "conv n = Inr (n mod 2 ^ 64) \<or> conv n = Inl Throw \<and> \<not> fits_cast_to_int64 n" if "\<not> fits_sint64 n"
    using assms that by (cases "fits_uint64 n") (auto simp: u64_conversion_def fits_cast_to_int64_def fits_uint64_def dest: spec [of _ n])
  have s: "wrap_signed 64 n = n" if "fits_sint64 n" using that by (simp add: wrap_signed_id fits_sint64_def)
  show "truncate_to_uint64 conv n = Inr (n mod 2 ^ 64) \<or> truncate_to_uint64 conv n = Inl Throw \<and> \<not> fits_cast_to_int64 n"
    using c by (auto simp: truncate_to_uint64_def)
  show "truncate_to_sint64 conv n = Inr (wrap_signed 64 n) \<or> truncate_to_sint64 conv n = Inl Throw \<and> \<not> fits_cast_to_int64 n"
    using c s wrap_signed_64_mod [of n] by (auto simp: truncate_to_sint64_def)
qed

lemma truncate_32:
  assumes "u64_conversion conv"
  shows "truncate_to_uint32 conv n = Inr (n mod 2 ^ 32) \<or> truncate_to_uint32 conv n = Inl Throw \<and> \<not> fits_cast_to_int64 n"
    "truncate_to_sint32 conv n = Inr (wrap_signed 32 n) \<or> truncate_to_sint32 conv n = Inl Throw \<and> \<not> fits_cast_to_int64 n"
  using truncate_64 [OF assms, of n] wrap_signed_32_64 [of n]
  by (auto simp: truncate_to_uint32_def truncate_to_sint32_def mod_mod_cancel)

lemma fill_from_ones: "\<exists>k. fill_from n (2 ^ j - 1) = 2 ^ k - 1 \<and> n \<le> 2 ^ k - 1"
proof (induction "nat n - (2 ^ j - 1)" arbitrary: j rule: less_induct)
  case less
  show ?case
  proof (cases "int (2 ^ j - 1) < n")
    case True
    have p: "0 < (2 :: nat) ^ j" by simp
    then have e: "2 * (2 ^ j - 1) + 1 = (2 :: nat) ^ (Suc j) - 1" by (cases "(2 :: nat) ^ j") simp_all
    have "2 ^ j - 1 < nat n" using True by linarith
    moreover have "2 ^ Suc j - 1 = 2 ^ j - 1 + (2 :: nat) ^ j" using p by (cases "(2 :: nat) ^ j") simp_all
    ultimately have lt: "nat n - (2 ^ Suc j - 1) < nat n - (2 ^ j - 1)" using p by linarith
    show ?thesis using less [OF lt] True by (subst fill_from.simps) (simp only: e if_True)
  next
    case False
    have "int (2 ^ j - 1) = 2 ^ j - 1" by (simp add: of_nat_diff)
    then show ?thesis using False by (subst fill_from.simps) auto
  qed
qed

lemma fill_ones_spec: "0 \<le> n \<Longrightarrow> \<exists>k. fill_ones n = 2 ^ k - 1 \<and> n \<le> 2 ^ k - 1"
  using fill_from_ones [of n 1] by (auto simp: fill_ones_def intro: exI [of _ 0])

end
