(* ===== verification/Crab_Soundness.thy ===== *)
theory Crab_Soundness
  imports Crab_Interval
begin

text \<open>
  Soundness of the interval domain: what an operation on two intervals returns contains every
  result of the operation on numbers they contain. The contract is a locale, interpreted on the
  operations of the code. The bitwise operations
  and the operations for which the contract fails are in \<open>Crab_Bits\<close>.
\<close>

unbundle bit_operations_syntax

subsection \<open>Bounds\<close>

definition bound_ok :: "bound \<Rightarrow> bool" where
  "bound_ok b \<longleftrightarrow> (bd_is_infinite b \<longrightarrow> bd_n b = 1 \<or> bd_n b = -1)"

lemma infinity_simps [simp]:
  "plus_infinity = \<lparr>bd_is_infinite = True, bd_n = 1\<rparr>" "minus_infinity = \<lparr>bd_is_infinite = True, bd_n = -1\<rparr>"
  by (simp_all add: plus_infinity_def minus_infinity_def mk_bound_def)

lemma bound_ok_simps [simp]: "bound_ok (bd_fin n)" "bound_ok \<lparr>bd_is_infinite = True, bd_n = 1\<rparr>" "bound_ok \<lparr>bd_is_infinite = True, bd_n = -1\<rparr>"
  by (simp_all add: bound_ok_def)

lemma bound_cases [consumes 1, case_names fin plus minus]:
  assumes "bound_ok b"
  obtains (fin) n where "b = bd_fin n" | (plus) "b = plus_infinity" | (minus) "b = minus_infinity"
  using assms by (cases b) (auto simp: bound_ok_def)

lemma bound_ok_iff: "bound_ok b \<longleftrightarrow> (\<exists>n. b = bd_fin n) \<or> b = plus_infinity \<or> b = minus_infinity"
  by (cases b) (auto simp: bound_ok_def)

lemma mk_bound_ok [simp]: "bound_ok (mk_bound f n)"
  by (simp add: mk_bound_def bound_ok_def)

lemma bd_neg_ok [simp]: "bound_ok (bd_neg b)"
  by (simp add: bd_neg_def)

lemma bd_mult_ok: "bound_ok a \<Longrightarrow> bound_ok b \<Longrightarrow> bound_ok (bd_mult a b)"
  by (simp add: bd_mult_def)

lemma bd_min_max_ok [simp]:
  "bound_ok a \<Longrightarrow> bound_ok b \<Longrightarrow> bound_ok (bd_min a b)" "bound_ok a \<Longrightarrow> bound_ok b \<Longrightarrow> bound_ok (bd_max a b)"
  by (simp_all add: bd_min_def bd_max_def)

lemma bd_le_refl [simp]: "bd_le a a"
  by (simp add: bd_le_def)

lemma bd_le_simps [simp]:
  "bd_le (bd_fin a) (bd_fin b) \<longleftrightarrow> a \<le> b" "bd_le (bd_fin a) \<lparr>bd_is_infinite = True, bd_n = k\<rparr> \<longleftrightarrow> k > 0"
  "bd_le \<lparr>bd_is_infinite = True, bd_n = k\<rparr> (bd_fin a) \<longleftrightarrow> k < 0"
  by (simp_all add: bd_le_def)

lemma bd_le_trans: "bound_ok a \<Longrightarrow> bound_ok b \<Longrightarrow> bound_ok c \<Longrightarrow> bd_le a b \<Longrightarrow> bd_le b c \<Longrightarrow> bd_le a c"
  by (auto simp: bd_le_def bound_ok_def split: if_splits)

lemma bd_le_total: "bound_ok a \<Longrightarrow> bound_ok b \<Longrightarrow> bd_le a b \<or> bd_le b a"
  by (auto simp: bd_le_def bound_ok_def split: if_splits)

lemma bd_le_antisym: "bound_ok a \<Longrightarrow> bound_ok b \<Longrightarrow> bd_le a b \<Longrightarrow> bd_le b a \<Longrightarrow> a = b"
  by (auto simp: bd_le_def bound_ok_def split: if_splits)

lemma bd_ge_le: "bound_ok a \<Longrightarrow> bound_ok b \<Longrightarrow> bd_ge a b = bd_le b a"
  by (auto simp: bd_le_def bd_ge_def bound_ok_def)

lemma bd_less_le: "bound_ok a \<Longrightarrow> bound_ok b \<Longrightarrow> bd_less a b \<longleftrightarrow> \<not> bd_le b a"
  by (simp add: bd_less_def bd_ge_le)

lemma bd_min_le:
  assumes "bound_ok a" "bound_ok b"
  shows "bd_le (bd_min a b) a" "bd_le (bd_min a b) b"
  using bd_le_total [OF assms] by (auto simp: bd_min_def)

lemma bd_max_ge:
  assumes "bound_ok a" "bound_ok b"
  shows "bd_le a (bd_max a b)" "bd_le b (bd_max a b)"
  using bd_le_total [OF assms] by (auto simp: bd_max_def)

text \<open>The least and the greatest of four.\<close>

lemma bd_min4_le:
  assumes "bound_ok a" "bound_ok b" "bound_ok c" "bound_ok d" and "x \<in> {a, b, c, d}"
  shows "bd_le (bd_min4 a b c d) x"
proof -
  let ?bc = "bd_min b c" and ?dbc = "bd_min d (bd_min b c)"
  have ok: "bound_ok ?bc" "bound_ok ?dbc" using assms(1-4) by simp_all
  have 1: "bd_le ?bc b" "bd_le ?bc c" "bd_le ?dbc d" "bd_le ?dbc ?bc" "bd_le (bd_min4 a b c d) a" "bd_le (bd_min4 a b c d) ?dbc"
    using bd_min_le assms(1-4) ok by (simp_all add: bd_min4_def)
  have ok4: "bound_ok (bd_min4 a b c d)" using assms(1-4) ok by (simp add: bd_min4_def)
  have 2: "bd_le (bd_min4 a b c d) ?bc" by (rule bd_le_trans [OF ok4 ok(2,1) 1(6,4)])
  show ?thesis using assms(5) 1 bd_le_trans [OF ok4 ok(2) assms(4) 1(6,3)] bd_le_trans [OF ok4 ok(1) assms(2) 2 1(1)]
      bd_le_trans [OF ok4 ok(1) assms(3) 2 1(2)] by blast
qed

lemma bd_max4_ge:
  assumes "bound_ok a" "bound_ok b" "bound_ok c" "bound_ok d" and "x \<in> {a, b, c, d}"
  shows "bd_le x (bd_max4 a b c d)"
proof -
  let ?bc = "bd_max b c" and ?dbc = "bd_max d (bd_max b c)"
  have ok: "bound_ok ?bc" "bound_ok ?dbc" using assms(1-4) by simp_all
  have 1: "bd_le b ?bc" "bd_le c ?bc" "bd_le d ?dbc" "bd_le ?bc ?dbc" "bd_le a (bd_max4 a b c d)" "bd_le ?dbc (bd_max4 a b c d)"
    using bd_max_ge assms(1-4) ok by (simp_all add: bd_max4_def)
  have ok4: "bound_ok (bd_max4 a b c d)" using assms(1-4) ok by (simp add: bd_max4_def)
  have 2: "bd_le ?bc (bd_max4 a b c d)" by (rule bd_le_trans [OF ok(1,2) ok4 1(4,6)])
  show ?thesis using assms(5) 1 bd_le_trans [OF assms(4) ok(2) ok4 1(3,6)] bd_le_trans [OF assms(2) ok(1) ok4 1(1) 2]
      bd_le_trans [OF assms(3) ok(1) ok4 1(2) 2] by blast
qed

lemma bd_min4_max4_in: "bd_min4 a b c d \<in> {a, b, c, d}" "bd_max4 a b c d \<in> {a, b, c, d}"
  by (auto simp: bd_min4_def bd_max4_def bd_min_def bd_max_def)

subsection \<open>The numbers of an interval\<close>

definition iv_gamma :: "interval \<Rightarrow> int set" where
  "iv_gamma i = {n. iv_contains i n}"

definition iv_ok :: "interval \<Rightarrow> bool" where
  "iv_ok i \<longleftrightarrow> bound_ok (iv_lb i) \<and> bound_ok (iv_ub i) \<and>
     (iv_is_bottom i \<or> iv_lb i \<noteq> plus_infinity \<and> iv_ub i \<noteq> minus_infinity)"

lemma gamma_mk:
  assumes "bound_ok l" "bound_ok u"
  shows "iv_gamma (mk_interval l u) = {n. bd_le l (bd_fin n) \<and> bd_le (bd_fin n) u}"
proof -
  have "\<not> (bd_le l (bd_fin n) \<and> bd_le (bd_fin n) u)" if "bd_greater l u" for n
    using that bd_le_trans [of l "bd_fin n" u] assms by (auto simp: bd_greater_def)
  then show ?thesis
    by (auto simp: iv_gamma_def iv_contains_def iv_is_bottom_def mk_interval_def bd_greater_def)
qed

lemma ok_mk [intro]: "bound_ok l \<Longrightarrow> bound_ok u \<Longrightarrow> l \<noteq> plus_infinity \<Longrightarrow> u \<noteq> minus_infinity \<Longrightarrow> iv_ok (mk_interval l u)"
  by (auto simp: iv_ok_def mk_interval_def iv_is_bottom_def bd_greater_def)

lemma gamma_bottom [simp]: "iv_gamma iv_bottom = {}" "iv_ok iv_bottom" "iv_is_bottom iv_bottom"
  by (auto simp: iv_gamma_def iv_contains_def iv_bottom_def iv_ok_def iv_is_bottom_def bd_greater_def bd_le_def)

lemma gamma_number [simp]: "iv_gamma (iv_of_number n) = {n}" "iv_ok (iv_of_number n)"
  by (auto simp: iv_gamma_def iv_contains_def iv_of_number_def iv_ok_def iv_is_bottom_def bd_greater_def bd_le_def)

lemma gamma_top [simp]: "iv_gamma iv_top = UNIV" "iv_ok iv_top"
  by (auto simp: iv_top_def gamma_mk bd_le_def)

lemma gamma_is_bottom: "iv_is_bottom i \<Longrightarrow> iv_gamma i = {}"
  by (simp add: iv_gamma_def iv_contains_def)

lemma gamma_def2: "\<not> iv_is_bottom i \<Longrightarrow> n \<in> iv_gamma i \<longleftrightarrow> bd_le (iv_lb i) (bd_fin n) \<and> bd_le (bd_fin n) (iv_ub i)"
  by (simp add: iv_gamma_def iv_contains_def)

text \<open>The bounds of an interval that is not empty.\<close>

lemma ok_bounds:
  assumes "iv_ok i" and "\<not> iv_is_bottom i"
  shows "bound_ok (iv_lb i)" "bound_ok (iv_ub i)" "iv_lb i \<noteq> plus_infinity" "iv_ub i \<noteq> minus_infinity" "bd_le (iv_lb i) (iv_ub i)"
  using assms by (auto simp: iv_ok_def iv_is_bottom_def bd_greater_def)

lemma gamma_nonempty:
  assumes "iv_ok i" and "\<not> iv_is_bottom i"
  shows "iv_gamma i \<noteq> {}"
proof -
  note b = ok_bounds [OF assms]
  have "\<exists>n. bd_le (iv_lb i) (bd_fin n) \<and> bd_le (bd_fin n) (iv_ub i)"
    using b(1)
  proof (cases rule: bound_cases)
    case (fin n)
    then show ?thesis using b(5) by (intro exI [of _ n]) simp
  next
    case minus
    show ?thesis using b(2)
    proof (cases rule: bound_cases)
      case (fin n)
      then show ?thesis using minus by (intro exI [of _ n]) (simp add: bd_le_def)
    qed (use b(4) minus in \<open>auto simp: bd_le_def\<close>)
  qed (use b(3) in auto)
  then show ?thesis using gamma_def2 [OF assms(2)] by auto
qed

lemma gamma_empty_iff: "iv_ok i \<Longrightarrow> iv_gamma i = {} \<longleftrightarrow> iv_is_bottom i"
  using gamma_nonempty gamma_is_bottom by blast

subsection \<open>The lattice operations\<close>

lemma join_sound:
  assumes "iv_ok i" "iv_ok x"
  shows "iv_ok (iv_join i x)" "iv_gamma i \<union> iv_gamma x \<subseteq> iv_gamma (iv_join i x)"
proof -
  have "iv_ok (iv_join i x) \<and> iv_gamma i \<union> iv_gamma x \<subseteq> iv_gamma (iv_join i x)"
  proof (cases "iv_is_bottom i \<or> iv_is_bottom x")
    case True
    then show ?thesis using assms gamma_is_bottom by (auto simp: iv_join_def)
  next
    case False
    note b = ok_bounds [OF assms(1)] and c = ok_bounds [OF assms(2)]
    let ?l = "bd_min (iv_lb i) (iv_lb x)" and ?u = "bd_max (iv_ub i) (iv_ub x)"
    have ok: "bound_ok ?l" "bound_ok ?u" using b c False by simp_all
    have le: "bd_le ?l (iv_lb i)" "bd_le ?l (iv_lb x)" "bd_le (iv_ub i) ?u" "bd_le (iv_ub x) ?u"
      using bd_min_le bd_max_ge b c False by simp_all
    have "iv_ok (mk_interval ?l ?u)"
      using ok b c False by (intro ok_mk) (auto simp: bd_min_def bd_max_def)
    moreover have "n \<in> iv_gamma (mk_interval ?l ?u)" if "n \<in> iv_gamma i \<union> iv_gamma x" for n
      using that False ok le b c bd_le_trans [of ?l _ "bd_fin n"] bd_le_trans [of "bd_fin n" _ ?u]
      by (auto simp: gamma_mk gamma_def2)
    ultimately show ?thesis using False by (auto simp: iv_join_def)
  qed
  then show "iv_ok (iv_join i x)" "iv_gamma i \<union> iv_gamma x \<subseteq> iv_gamma (iv_join i x)" by blast+
qed

lemma meet_exact:
  assumes "iv_ok i" "iv_ok x"
  shows "iv_ok (iv_meet i x)" "iv_gamma (iv_meet i x) = iv_gamma i \<inter> iv_gamma x"
proof -
  have "iv_ok (iv_meet i x) \<and> iv_gamma (iv_meet i x) = iv_gamma i \<inter> iv_gamma x"
  proof (cases "iv_is_bottom i \<or> iv_is_bottom x")
    case True
    then show ?thesis using gamma_is_bottom by (auto simp: iv_meet_def)
  next
    case False
    note b = ok_bounds [OF assms(1)] and c = ok_bounds [OF assms(2)]
    let ?l = "bd_max (iv_lb i) (iv_lb x)" and ?u = "bd_min (iv_ub i) (iv_ub x)"
    have ok: "bound_ok ?l" "bound_ok ?u" using b c False by simp_all
    have le: "bd_le (iv_lb i) ?l" "bd_le (iv_lb x) ?l" "bd_le ?u (iv_ub i)" "bd_le ?u (iv_ub x)"
      using bd_min_le bd_max_ge b c False by simp_all
    have "iv_ok (mk_interval ?l ?u)"
      using ok b c False by (intro ok_mk) (auto simp: bd_min_def bd_max_def)
    moreover have "n \<in> iv_gamma (mk_interval ?l ?u) \<longleftrightarrow> n \<in> iv_gamma i \<inter> iv_gamma x" for n
    proof
      assume "n \<in> iv_gamma (mk_interval ?l ?u)"
      then have "bd_le ?l (bd_fin n)" "bd_le (bd_fin n) ?u" using ok by (simp_all add: gamma_mk)
      then show "n \<in> iv_gamma i \<inter> iv_gamma x" using False ok le b c bd_le_trans [of _ ?l "bd_fin n"] bd_le_trans [of "bd_fin n" ?u]
        by (simp add: gamma_def2)
    next
      assume "n \<in> iv_gamma i \<inter> iv_gamma x"
      then show "n \<in> iv_gamma (mk_interval ?l ?u)" using False ok by (simp add: gamma_mk gamma_def2 bd_max_def bd_min_def)
    qed
    ultimately show ?thesis using False by (auto simp: iv_meet_def)
  qed
  then show "iv_ok (iv_meet i x)" "iv_gamma (iv_meet i x) = iv_gamma i \<inter> iv_gamma x" by blast+
qed

lemma le_subset:
  assumes "iv_ok i" "iv_ok x" and "iv_le i x"
  shows "iv_gamma i \<subseteq> iv_gamma x"
proof (cases "iv_is_bottom i")
  case True
  then show ?thesis using gamma_is_bottom by auto
next
  case False
  then have x: "\<not> iv_is_bottom x" and l: "bd_le (iv_lb x) (iv_lb i)" "bd_le (iv_ub i) (iv_ub x)"
    using assms(3) by (auto simp: iv_le_def split: if_splits)
  note b = ok_bounds [OF assms(1) False] and c = ok_bounds [OF assms(2) x]
  show ?thesis
    using l b c bd_le_trans [of "iv_lb x" "iv_lb i"] bd_le_trans [of _ "iv_ub i" "iv_ub x"] by (auto simp: gamma_def2 False x)
qed

lemma widen_sound:
  assumes "iv_ok i" "iv_ok x"
  shows "iv_ok (iv_widen i x)" "iv_gamma i \<union> iv_gamma x \<subseteq> iv_gamma (iv_widen i x)"
proof -
  have "iv_ok (iv_widen i x) \<and> iv_gamma i \<union> iv_gamma x \<subseteq> iv_gamma (iv_widen i x)"
  proof (cases "iv_is_bottom i \<or> iv_is_bottom x")
    case True
    then show ?thesis using assms gamma_is_bottom by (auto simp: iv_widen_def)
  next
    case False
    note b = ok_bounds [OF assms(1)] and c = ok_bounds [OF assms(2)]
    let ?l = "if bd_less (iv_lb x) (iv_lb i) then minus_infinity else iv_lb i"
      and ?u = "if bd_less (iv_ub i) (iv_ub x) then plus_infinity else iv_ub i"
    have ok: "bound_ok ?l" "bound_ok ?u" using b False by simp_all
    have "iv_ok (mk_interval ?l ?u)" using ok b False by (intro ok_mk) auto
    moreover have "n \<in> iv_gamma (mk_interval ?l ?u)" if "n \<in> iv_gamma i \<union> iv_gamma x" for n
    proof -
      have "bd_le ?l (bd_fin n)"
        using that False b c bd_le_trans [of "iv_lb i" "iv_lb x" "bd_fin n"] by (auto simp: gamma_def2 bd_less_le)
      moreover have "bd_le (bd_fin n) ?u"
        using that False b c bd_le_trans [of "bd_fin n" "iv_ub x" "iv_ub i"] by (auto simp: gamma_def2 bd_less_le)
      ultimately show ?thesis using ok by (simp add: gamma_mk)
    qed
    ultimately show ?thesis using False by (auto simp: iv_widen_def)
  qed
  then show "iv_ok (iv_widen i x)" "iv_gamma i \<union> iv_gamma x \<subseteq> iv_gamma (iv_widen i x)" by blast+
qed

text \<open>How often an interval can still grow by widening.\<close>

definition iv_rank :: "interval \<Rightarrow> nat" where
  "iv_rank i = (if iv_is_bottom i then 3
     else (if bd_is_infinite (iv_lb i) then 0 else 1) + (if bd_is_infinite (iv_ub i) then 0 else 1))"

lemma widen_rank:
  assumes "iv_ok i" "iv_ok x" and "\<not> iv_eq (iv_widen i x) i"
  shows "iv_rank (iv_widen i x) < iv_rank i"
proof (cases "iv_is_bottom i \<or> iv_is_bottom x")
  case True
  then show ?thesis using assms(3) by (auto simp: iv_widen_def iv_eq_def iv_rank_def split: if_splits)
next
  case False
  note b = ok_bounds [OF assms(1)] and c = ok_bounds [OF assms(2)]
  let ?l = "if bd_less (iv_lb x) (iv_lb i) then minus_infinity else iv_lb i"
    and ?u = "if bd_less (iv_ub i) (iv_ub x) then plus_infinity else iv_ub i"
  have "bd_le ?l ?u" using b False by (auto simp: bound_ok_iff bd_le_def)
  then have w: "iv_widen i x = \<lparr>iv_lb = ?l, iv_ub = ?u\<rparr>"
    using False by (simp add: iv_widen_def mk_interval_def bd_greater_def)
  have nb: "\<not> iv_is_bottom (iv_widen i x)" using \<open>bd_le ?l ?u\<close> by (simp add: w iv_is_bottom_def bd_greater_def)
  have l: "\<not> bd_is_infinite (iv_lb i)" if "bd_less (iv_lb x) (iv_lb i)"
    using that b c False by (auto simp: bound_ok_iff bd_less_def bd_ge_def)
  have u: "\<not> bd_is_infinite (iv_ub i)" if "bd_less (iv_ub i) (iv_ub x)"
    using that b c False by (auto simp: bound_ok_iff bd_less_def bd_ge_def)
  have "bd_less (iv_lb x) (iv_lb i) \<or> bd_less (iv_ub i) (iv_ub x)"
    using assms(3) nb by (auto simp: iv_eq_def w split: if_splits)
  then show ?thesis using l u nb False by (auto simp: iv_rank_def w)
qed

subsection \<open>The contract of an operation\<close>

locale abs_binop =
  fixes op :: "interval \<Rightarrow> interval \<Rightarrow> interval res" and f :: "int \<Rightarrow> int \<Rightarrow> int" and good :: "int set"
  assumes sound: "iv_ok i \<Longrightarrow> iv_ok x \<Longrightarrow> iv_gamma i \<subseteq> good \<Longrightarrow> iv_gamma x \<subseteq> good \<Longrightarrow>
    \<exists>r. op i x = Inr r \<and> iv_ok r \<and> (\<forall>a \<in> iv_gamma i. \<forall>b \<in> iv_gamma x. f a b \<in> iv_gamma r)"
begin

text \<open>Where two paths meet, the operation on the joined interval covers both.\<close>

lemma after_join:
  assumes "iv_ok i" "iv_ok j" "iv_ok x" and "iv_gamma (iv_join i j) \<subseteq> good" "iv_gamma x \<subseteq> good"
  shows "\<exists>r. op (iv_join i j) x = Inr r \<and> iv_ok r \<and>
    (\<forall>a \<in> iv_gamma i \<union> iv_gamma j. \<forall>b \<in> iv_gamma x. f a b \<in> iv_gamma r)"
  using sound [OF join_sound(1) [OF assms(1,2)] assms(3-5)] join_sound(2) [OF assms(1,2)] by blast

text \<open>On single numbers the result contains the result on the numbers.\<close>

lemma on_numbers:
  assumes "a \<in> good" "b \<in> good"
  shows "\<exists>r. op (iv_of_number a) (iv_of_number b) = Inr r \<and> f a b \<in> iv_gamma r"
  using sound [of "iv_of_number a" "iv_of_number b"] assms by auto

end

text \<open>To show the contract, the empty intervals can be left out.\<close>

lemma abs_binopI:
  assumes "\<And>i x. iv_is_bottom i \<or> iv_is_bottom x \<Longrightarrow> op i x = Inr iv_bottom"
    and "\<And>i x. iv_ok i \<Longrightarrow> iv_ok x \<Longrightarrow> \<not> iv_is_bottom i \<Longrightarrow> \<not> iv_is_bottom x \<Longrightarrow> iv_gamma i \<subseteq> good \<Longrightarrow> iv_gamma x \<subseteq> good \<Longrightarrow>
      \<exists>r. op i x = Inr r \<and> iv_ok r \<and> (\<forall>a \<in> iv_gamma i. \<forall>b \<in> iv_gamma x. f a b \<in> iv_gamma r)"
  shows "abs_binop op f good"
proof
  fix i x
  assume "iv_ok i" "iv_ok x" "iv_gamma i \<subseteq> good" "iv_gamma x \<subseteq> good"
  then show "\<exists>r. op i x = Inr r \<and> iv_ok r \<and> (\<forall>a \<in> iv_gamma i. \<forall>b \<in> iv_gamma x. f a b \<in> iv_gamma r)"
    using assms gamma_is_bottom by (cases "iv_is_bottom i \<or> iv_is_bottom x") auto
qed

text \<open>A result given by its two bounds.\<close>

lemma mk_result:
  assumes "bound_ok l" "bound_ok u" "l \<noteq> plus_infinity" "u \<noteq> minus_infinity"
    and "\<And>a b. a \<in> A \<Longrightarrow> b \<in> B \<Longrightarrow> bd_le l (bd_fin (f a b)) \<and> bd_le (bd_fin (f a b)) u"
  shows "\<exists>r. Inr (mk_interval l u) = (Inr r :: interval res) \<and> iv_ok r \<and> (\<forall>a \<in> A. \<forall>b \<in> B. f a b \<in> iv_gamma r)"
  using assms ok_mk [of l u] by (auto simp: gamma_mk)

lemma bd_add_le:
  assumes "bound_ok l" "bound_ok k" "l \<noteq> plus_infinity" "k \<noteq> plus_infinity"
  shows "\<exists>s. bd_add l k = Inr s \<and> bound_ok s \<and> s \<noteq> plus_infinity \<and>
    (\<forall>a b. bd_le l (bd_fin a) \<longrightarrow> bd_le k (bd_fin b) \<longrightarrow> bd_le s (bd_fin (a + b)))"
  using assms by (auto simp: bound_ok_iff bd_add_def)

lemma bd_add_ge:
  assumes "bound_ok l" "bound_ok k" "l \<noteq> minus_infinity" "k \<noteq> minus_infinity"
  shows "\<exists>s. bd_add l k = Inr s \<and> bound_ok s \<and> s \<noteq> minus_infinity \<and>
    (\<forall>a b. bd_le (bd_fin a) l \<longrightarrow> bd_le (bd_fin b) k \<longrightarrow> bd_le (bd_fin (a + b)) s)"
  using assms by (auto simp: bound_ok_iff bd_add_def)

lemma bd_neg_simps:
  assumes "bound_ok b"
  shows "bd_neg b = plus_infinity \<longleftrightarrow> b = minus_infinity" "bd_neg b = minus_infinity \<longleftrightarrow> b = plus_infinity"
    "bd_le (bd_neg b) (bd_fin n) \<longleftrightarrow> bd_le (bd_fin (- n)) b" "bd_le (bd_fin n) (bd_neg b) \<longleftrightarrow> bd_le b (bd_fin (- n))"
  using assms by (auto simp: bound_ok_iff bd_neg_def mk_bound_def)

interpretation add: abs_binop iv_add "(+)" UNIV
proof (rule abs_binopI)
  fix i x
  assume ok: "iv_ok i" "iv_ok x" and nb: "\<not> iv_is_bottom i" "\<not> iv_is_bottom x"
  note b = ok_bounds [OF ok(1) nb(1)] and c = ok_bounds [OF ok(2) nb(2)]
  obtain l where l: "bd_add (iv_lb i) (iv_lb x) = Inr l" "bound_ok l" "l \<noteq> plus_infinity"
      "\<And>a b. bd_le (iv_lb i) (bd_fin a) \<Longrightarrow> bd_le (iv_lb x) (bd_fin b) \<Longrightarrow> bd_le l (bd_fin (a + b))"
    using bd_add_le [OF b(1) c(1) b(3) c(3)] by blast
  obtain u where u: "bd_add (iv_ub i) (iv_ub x) = Inr u" "bound_ok u" "u \<noteq> minus_infinity"
      "\<And>a b. bd_le (bd_fin a) (iv_ub i) \<Longrightarrow> bd_le (bd_fin b) (iv_ub x) \<Longrightarrow> bd_le (bd_fin (a + b)) u"
    using bd_add_ge [OF b(2) c(2) b(4) c(4)] by blast
  show "\<exists>r. iv_add i x = Inr r \<and> iv_ok r \<and> (\<forall>a \<in> iv_gamma i. \<forall>b \<in> iv_gamma x. a + b \<in> iv_gamma r)"
    using mk_result [OF l(2) u(2) l(3) u(3), of "iv_gamma i" "iv_gamma x" "(+)"] l(1,4) u(1,4) nb
    by (simp add: iv_add_def gamma_def2)
qed (auto simp: iv_add_def)

interpretation sub: abs_binop iv_sub "(-)" UNIV
proof (rule abs_binopI)
  fix i x
  assume ok: "iv_ok i" "iv_ok x" and nb: "\<not> iv_is_bottom i" "\<not> iv_is_bottom x"
  note b = ok_bounds [OF ok(1) nb(1)] and c = ok_bounds [OF ok(2) nb(2)]
  note n = bd_neg_simps [OF c(1)] bd_neg_simps [OF c(2)]
  obtain l where l: "bd_add (iv_lb i) (bd_neg (iv_ub x)) = Inr l" "bound_ok l" "l \<noteq> plus_infinity"
      "\<And>a b. bd_le (iv_lb i) (bd_fin a) \<Longrightarrow> bd_le (bd_neg (iv_ub x)) (bd_fin b) \<Longrightarrow> bd_le l (bd_fin (a + b))"
    using bd_add_le [OF b(1) bd_neg_ok b(3), of "iv_ub x"] c(4) n by auto
  obtain u where u: "bd_add (iv_ub i) (bd_neg (iv_lb x)) = Inr u" "bound_ok u" "u \<noteq> minus_infinity"
      "\<And>a b. bd_le (bd_fin a) (iv_ub i) \<Longrightarrow> bd_le (bd_fin b) (bd_neg (iv_lb x)) \<Longrightarrow> bd_le (bd_fin (a + b)) u"
    using bd_add_ge [OF b(2) bd_neg_ok b(4), of "iv_lb x"] c(3) n by auto
  have "bd_le l (bd_fin (p - q)) \<and> bd_le (bd_fin (p - q)) u" if "p \<in> iv_gamma i" "q \<in> iv_gamma x" for p q
    using l(4) [of p "- q"] u(4) [of p "- q"] that nb n by (simp add: gamma_def2)
  then show "\<exists>r. iv_sub i x = Inr r \<and> iv_ok r \<and> (\<forall>a \<in> iv_gamma i. \<forall>b \<in> iv_gamma x. a - b \<in> iv_gamma r)"
    using mk_result [OF l(2) u(2) l(3) u(3), of "iv_gamma i" "iv_gamma x" "(-)"] l(1) u(1) nb
    by (simp add: iv_sub_def bd_sub_def)
qed (auto simp: iv_sub_def)

subsection \<open>Multiplication\<close>

lemma bd_mult_fin [simp]: "bd_mult (bd_fin a) (bd_fin b) = bd_fin (a * b)"
  by (simp add: bd_mult_def mk_bound_def)

lemma bd_mult_comm: "bound_ok a \<Longrightarrow> bound_ok b \<Longrightarrow> bd_mult a b = bd_mult b a"
  by (auto simp: bound_ok_iff bd_mult_def mk_bound_def mult.commute)

lemma bd_mult_inf:
  "bd_mult \<lparr>bd_is_infinite = True, bd_n = 1\<rparr> (bd_fin z) = (if z = 0 then bd_fin 0 else mk_bound True z)"
  "bd_mult \<lparr>bd_is_infinite = True, bd_n = -1\<rparr> (bd_fin z) = (if z = 0 then bd_fin 0 else mk_bound True (- z))"
  by (simp_all add: bd_mult_def)

lemma bd_mult_mono:
  assumes "bound_ok x" "bound_ok y" "bound_ok z" and "bd_le (bd_fin 0) z" and "bd_le x y"
  shows "bd_le (bd_mult x z) (bd_mult y z)"
  using assms(3)
proof (cases rule: bound_cases)
  case (fin c)
  then have c: "0 \<le> c" using assms(4) by simp
  then show ?thesis using assms(1,2,5) fin
    by (auto simp: bound_ok_iff bd_mult_inf mk_bound_def mult_right_mono bd_le_def)
next
  case plus
  then show ?thesis using assms(1,2,5) by (auto simp: bound_ok_iff bd_mult_def mk_bound_def bd_le_def)
next
  case minus
  then show ?thesis using assms(4) by simp
qed

lemma bd_mult_neg: "bound_ok x \<Longrightarrow> bound_ok z \<Longrightarrow> bd_mult x (bd_neg z) = bd_neg (bd_mult x z)"
  by (auto simp: bound_ok_iff bd_mult_def bd_neg_def mk_bound_def zero_less_mult_iff mult_less_0_iff)

lemma bd_neg_le: "bound_ok a \<Longrightarrow> bound_ok b \<Longrightarrow> bd_le (bd_neg a) (bd_neg b) \<longleftrightarrow> bd_le b a"
  by (auto simp: bound_ok_iff bd_neg_def mk_bound_def bd_le_def)

lemma bd_mult_mono_neg:
  assumes "bound_ok x" "bound_ok y" "bound_ok z" and "bd_le z (bd_fin 0)" and "bd_le x y"
  shows "bd_le (bd_mult y z) (bd_mult x z)"
proof -
  have "bd_le (bd_fin 0) (bd_neg z)" using assms(3,4) bd_neg_simps(4) [of z 0] by simp
  then have "bd_le (bd_mult x (bd_neg z)) (bd_mult y (bd_neg z))" using bd_mult_mono [of x y "bd_neg z"] assms by simp
  then show ?thesis using assms by (simp add: bd_mult_neg bd_neg_le bd_mult_ok)
qed

text \<open>A product lies between the products with the ends of an interval.\<close>

lemma bd_mult_between:
  assumes "bound_ok l" "bound_ok u" "bound_ok x" "bound_ok z" and "bd_le l x" "bd_le x u"
  shows "(bd_le (bd_mult l z) (bd_mult x z) \<or> bd_le (bd_mult u z) (bd_mult x z)) \<and>
    (bd_le (bd_mult x z) (bd_mult l z) \<or> bd_le (bd_mult x z) (bd_mult u z))"
proof (cases "bd_le (bd_fin 0) z")
  case True
  then show ?thesis using bd_mult_mono assms by blast
next
  case False
  then have "bd_le z (bd_fin 0)" using bd_le_total [of z "bd_fin 0"] assms(4) by simp
  then show ?thesis using bd_mult_mono_neg assms by blast
qed

lemma bd_mult_corners:
  assumes ok: "bound_ok l" "bound_ok u" "bound_ok k" "bound_ok v"
    and a: "bd_le l (bd_fin a)" "bd_le (bd_fin a) u" and b: "bd_le k (bd_fin b)" "bd_le (bd_fin b) v"
  shows "\<exists>p \<in> {bd_mult l k, bd_mult l v, bd_mult u k, bd_mult u v}. bd_le p (bd_fin (a * b))"
    and "\<exists>p \<in> {bd_mult l k, bd_mult l v, bd_mult u k, bd_mult u v}. bd_le (bd_fin (a * b)) p"
proof -
  have 1: "(bd_le (bd_mult l (bd_fin b)) (bd_fin (a * b)) \<or> bd_le (bd_mult u (bd_fin b)) (bd_fin (a * b))) \<and>
      (bd_le (bd_fin (a * b)) (bd_mult l (bd_fin b)) \<or> bd_le (bd_fin (a * b)) (bd_mult u (bd_fin b)))"
    using bd_mult_between [OF ok(1,2) _ _ a, of "bd_fin b"] by simp
  have 2: "(bd_le (bd_mult e k) (bd_mult e (bd_fin b)) \<or> bd_le (bd_mult e v) (bd_mult e (bd_fin b))) \<and>
      (bd_le (bd_mult e (bd_fin b)) (bd_mult e k) \<or> bd_le (bd_mult e (bd_fin b)) (bd_mult e v))" if "bound_ok e" for e
    using bd_mult_between [OF ok(3,4) _ that b] bd_mult_comm [OF ok(3) that] bd_mult_comm [OF ok(4) that]
      bd_mult_comm [OF _ that, of "bd_fin b"] by simp
  obtain e where e: "e \<in> {l, u}" "bd_le (bd_mult e (bd_fin b)) (bd_fin (a * b))" using 1 by blast
  then have oke: "bound_ok e" "bound_ok (bd_mult e (bd_fin b))" using ok bd_mult_ok by auto
  obtain p where p: "p \<in> {k, v}" "bd_le (bd_mult e p) (bd_mult e (bd_fin b))" using 2 [OF oke(1)] by blast
  then have "bd_le (bd_mult e p) (bd_fin (a * b))"
    using bd_le_trans [OF bd_mult_ok oke(2) _ p(2) e(2)] ok oke(1) by auto
  then show "\<exists>p \<in> {bd_mult l k, bd_mult l v, bd_mult u k, bd_mult u v}. bd_le p (bd_fin (a * b))" using e(1) p(1) by blast
  obtain e where e: "e \<in> {l, u}" "bd_le (bd_fin (a * b)) (bd_mult e (bd_fin b))" using 1 by blast
  then have oke: "bound_ok e" "bound_ok (bd_mult e (bd_fin b))" using ok bd_mult_ok by auto
  obtain p where p: "p \<in> {k, v}" "bd_le (bd_mult e (bd_fin b)) (bd_mult e p)" using 2 [OF oke(1)] by blast
  then have "bd_le (bd_fin (a * b)) (bd_mult e p)"
    using bd_le_trans [OF _ oke(2) bd_mult_ok e(2) p(2)] ok oke(1) by auto
  then show "\<exists>p \<in> {bd_mult l k, bd_mult l v, bd_mult u k, bd_mult u v}. bd_le (bd_fin (a * b)) p" using e(1) p(1) by blast
qed

lemma corners_result:
  assumes ok: "bound_ok c1" "bound_ok c2" "bound_ok c3" "bound_ok c4" and ne: "A \<noteq> {}" "B \<noteq> {}"
    and low: "\<And>a b. a \<in> A \<Longrightarrow> b \<in> B \<Longrightarrow> \<exists>p \<in> {c1, c2, c3, c4}. bd_le p (bd_fin (f a b))"
    and up: "\<And>a b. a \<in> A \<Longrightarrow> b \<in> B \<Longrightarrow> \<exists>p \<in> {c1, c2, c3, c4}. bd_le (bd_fin (f a b)) p"
  shows "\<exists>r. Inr (mk_interval (bd_min4 c1 c2 c3 c4) (bd_max4 c1 c2 c3 c4)) = (Inr r :: interval res) \<and> iv_ok r \<and>
    (\<forall>a \<in> A. \<forall>b \<in> B. f a b \<in> iv_gamma r)"
proof (rule mk_result)
  let ?l = "bd_min4 c1 c2 c3 c4" and ?u = "bd_max4 c1 c2 c3 c4"
  show okl: "bound_ok ?l" and oku: "bound_ok ?u" using bd_min4_max4_in [of c1 c2 c3 c4] ok by auto
  show b: "bd_le ?l (bd_fin (f a b)) \<and> bd_le (bd_fin (f a b)) ?u" if ab: "a \<in> A" "b \<in> B" for a b
  proof -
    obtain p where p: "p \<in> {c1, c2, c3, c4}" "bd_le p (bd_fin (f a b))" using low [OF ab] by blast
    obtain q where q: "q \<in> {c1, c2, c3, c4}" "bd_le (bd_fin (f a b)) q" using up [OF ab] by blast
    have "bound_ok p" "bound_ok q" using p(1) q(1) ok by auto
    then show ?thesis
      using bd_le_trans [OF okl _ _ bd_min4_le [OF ok p(1)] p(2)] bd_le_trans [OF _ _ oku q(2) bd_max4_ge [OF ok q(1)]] by simp
  qed
  obtain a b where "a \<in> A" "b \<in> B" using ne by blast
  then show "?l \<noteq> plus_infinity" "?u \<noteq> minus_infinity" using b by fastforce+
qed

interpretation mult: abs_binop "\<lambda>i x. Inr (iv_mult i x)" "(*)" UNIV
proof (rule abs_binopI)
  fix i x
  assume ok: "iv_ok i" "iv_ok x" and nb: "\<not> iv_is_bottom i" "\<not> iv_is_bottom x"
  note b = ok_bounds [OF ok(1) nb(1)] and c = ok_bounds [OF ok(2) nb(2)]
  have "iv_mult i x = mk_interval
      (bd_min4 (bd_mult (iv_lb i) (iv_lb x)) (bd_mult (iv_lb i) (iv_ub x)) (bd_mult (iv_ub i) (iv_lb x)) (bd_mult (iv_ub i) (iv_ub x)))
      (bd_max4 (bd_mult (iv_lb i) (iv_lb x)) (bd_mult (iv_lb i) (iv_ub x)) (bd_mult (iv_ub i) (iv_lb x)) (bd_mult (iv_ub i) (iv_ub x)))"
    using nb by (simp add: iv_mult_def Let_def)
  then show "\<exists>r. Inr (iv_mult i x) = (Inr r :: interval res) \<and> iv_ok r \<and> (\<forall>a \<in> iv_gamma i. \<forall>b \<in> iv_gamma x. a * b \<in> iv_gamma r)"
    by (simp only:) (rule corners_result [OF bd_mult_ok [OF b(1) c(1)] bd_mult_ok [OF b(1) c(2)] bd_mult_ok [OF b(2) c(1)]
        bd_mult_ok [OF b(2) c(2)] gamma_nonempty [OF ok(1) nb(1)] gamma_nonempty [OF ok(2) nb(2)]],
      use bd_mult_corners [OF b(1,2) c(1,2)] nb in \<open>simp_all add: gamma_def2\<close>)
qed (auto simp: iv_mult_def)

subsection \<open>Unsigned division\<close>

text \<open>The eBPF division: a zero divisor gives zero.\<close>

definition ebpf_div :: "int \<Rightarrow> int \<Rightarrow> int" where
  "ebpf_div a b = (if b = 0 then 0 else a div b)"

lemma sdiv_nonneg: "0 \<le> (a :: int) \<Longrightarrow> 0 < b \<Longrightarrow> a sdiv b = a div b"
  by (simp add: signed_divide_int_def sgn_if)

text \<open>The lower bound of a nonempty interval of nonnegative numbers.\<close>

lemma nonneg_bounds:
  assumes "iv_ok i" "\<not> iv_is_bottom i" "iv_gamma i \<subseteq> {0..}"
  obtains l where "iv_lb i = bd_fin l" "0 \<le> l"
proof -
  note b = ok_bounds [OF assms(1,2)]
  show ?thesis using b(1)
  proof (cases rule: bound_cases)
    case (fin n)
    then have "n \<in> iv_gamma i" using b(5) assms(2) by (simp add: gamma_def2)
    then show ?thesis using that fin assms(3) by auto
  next
    case minus
    obtain n where n: "n \<in> iv_gamma i" using gamma_nonempty [OF assms(1,2)] by blast
    then have "min n (-1) \<in> iv_gamma i"
      using minus b(2) assms(2) bd_le_trans [of "bd_fin (min n (-1))" "bd_fin n" "iv_ub i"] by (simp add: gamma_def2)
    then show ?thesis using assms(3) by auto
  qed (use b(3) in auto)
qed

lemma upper_cases:
  assumes "iv_ok i" "\<not> iv_is_bottom i"
  obtains (fin) u where "iv_ub i = bd_fin u" | (inf) "iv_ub i = plus_infinity"
  using ok_bounds(2,4) [OF assms] that by (cases rule: bound_cases) auto

lemma singleton_gamma:
  assumes "iv_singleton x = Some n"
  shows "iv_gamma x = {n} \<and> iv_lb x = bd_fin n \<and> iv_ub x = bd_fin n"
proof -
  have nb: "\<not> iv_is_bottom x" and u: "iv_lb x = bd_fin n" "iv_ub x = bd_fin n"
    using assms by (auto simp: iv_singleton_def bd_number_def split: if_splits)
  then show ?thesis by (auto simp: gamma_def2)
qed

lemma zero_parts_sound:
  assumes "iv_ok i" "\<not> iv_is_bottom i"
  shows "iv_ok (iv_below_zero i)" "iv_ok (iv_above_zero i)"
    "\<exists>n \<in> iv_gamma i. -1 \<le> n \<Longrightarrow> iv_gamma (iv_below_zero i) = iv_gamma i \<inter> {..-1}"
    "\<exists>n \<in> iv_gamma i. n \<le> 1 \<Longrightarrow> iv_gamma (iv_above_zero i) = iv_gamma i \<inter> {1..}"
proof -
  note b = ok_bounds [OF assms]
  show "iv_ok (iv_below_zero i)" "iv_ok (iv_above_zero i)"
    using b by (auto simp: iv_below_zero_def iv_above_zero_def)
  show "iv_gamma (iv_below_zero i) = iv_gamma i \<inter> {..-1}" if "\<exists>n \<in> iv_gamma i. -1 \<le> n"
  proof -
    obtain n where n: "-1 \<le> n" "bd_le (bd_fin n) (iv_ub i)" using \<open>\<exists>n \<in> iv_gamma i. -1 \<le> n\<close> assms(2) by (auto simp: gamma_def2)
    then have "bd_le (bd_fin k) (iv_ub i)" if "k \<le> -1" for k
      using bd_le_trans [of "bd_fin k" "bd_fin n" "iv_ub i"] that b(2) by simp
    then show ?thesis using b by (auto simp: iv_below_zero_def gamma_mk gamma_def2 assms(2))
  qed
  show "iv_gamma (iv_above_zero i) = iv_gamma i \<inter> {1..}" if "\<exists>n \<in> iv_gamma i. n \<le> 1"
  proof -
    obtain n where n: "n \<le> 1" "bd_le (iv_lb i) (bd_fin n)" using \<open>\<exists>n \<in> iv_gamma i. n \<le> 1\<close> assms(2) by (auto simp: gamma_def2)
    then have "bd_le (iv_lb i) (bd_fin k)" if "1 \<le> k" for k
      using bd_le_trans [of "iv_lb i" "bd_fin n" "bd_fin k"] that b(1) by simp
    then show ?thesis using b by (auto simp: iv_above_zero_def gamma_mk gamma_def2 assms(2))
  qed
qed

lemma join3_sound:
  assumes "p = Inr a" "q = Inr b" "iv_ok a" "iv_ok b" "iv_ok c"
  shows "\<exists>r. iv_join3 p q c = Inr r \<and> iv_ok r \<and> iv_gamma a \<union> iv_gamma b \<union> iv_gamma c \<subseteq> iv_gamma r"
  using join_sound [OF assms(3,4)] join_sound [OF join_sound(1) [OF assms(3,4)] assms(5)] assms(1,2)
  by (auto simp: iv_join3_def)

lemma bd_udiv_simps:
  assumes "0 \<le> l" "0 < c"
  shows "bd_udiv (bd_fin l) (bd_fin c) = Inr (bd_fin (l div c))" "bd_udiv plus_infinity (bd_fin c) = Inr plus_infinity"
    "bd_udiv (bd_fin l) plus_infinity = Inr (bd_fin 0)" "bd_udiv plus_infinity plus_infinity = Inr plus_infinity"
  using assms by (simp_all add: bd_udiv_def as_unsigned_def zn_div_def mk_bound_def sdiv_nonneg)

text \<open>A constant divisor.\<close>

lemma udiv_const:
  assumes ok: "iv_ok i" "\<not> iv_is_bottom i" "iv_gamma i \<subseteq> {0..}" and c: "0 < c"
  shows "\<exists>r. and_then (bd_udiv (iv_lb i) (bd_fin c)) (\<lambda>l. and_then (bd_udiv (iv_ub i) (bd_fin c)) (\<lambda>u. Inr (mk_interval l u))) = Inr r \<and>
    iv_ok r \<and> (\<forall>a \<in> iv_gamma i. a div c \<in> iv_gamma r)"
proof -
  obtain l where l: "iv_lb i = bd_fin l" "0 \<le> l" using nonneg_bounds [OF ok] by blast
  from ok(1,2) show ?thesis
  proof (cases rule: upper_cases)
    case (fin u)
    then have "0 \<le> u" using ok_bounds(5) [OF ok(1,2)] l by simp
    then have "and_then (bd_udiv (iv_lb i) (bd_fin c)) (\<lambda>l. and_then (bd_udiv (iv_ub i) (bd_fin c)) (\<lambda>u. Inr (mk_interval l u))) =
        Inr (mk_interval (bd_fin (l div c)) (bd_fin (u div c)))" using l fin c by (simp add: bd_udiv_simps)
    then show ?thesis using l fin c ok(2) by (auto simp: gamma_mk gamma_def2 zdiv_mono1)
  next
    case inf
    then have "and_then (bd_udiv (iv_lb i) (bd_fin c)) (\<lambda>l. and_then (bd_udiv (iv_ub i) (bd_fin c)) (\<lambda>u. Inr (mk_interval l u))) =
        Inr (mk_interval (bd_fin (l div c)) plus_infinity)" using l c bd_udiv_simps [of l c] by simp
    then show ?thesis using l inf c ok(2) by (auto simp: gamma_mk gamma_def2 zdiv_mono1)
  qed
qed

text \<open>Two intervals of positive numbers.\<close>

lemma udiv_corners:
  assumes i: "iv_ok i" "\<not> iv_is_bottom i" "iv_gamma i \<subseteq> {0..}" and x: "iv_ok x" "\<not> iv_is_bottom x" "iv_gamma x \<subseteq> {1..}"
  shows "\<exists>r. iv_div_corners bd_udiv i x = Inr r \<and> iv_ok r \<and> (\<forall>a \<in> iv_gamma i. \<forall>b \<in> iv_gamma x. a div b \<in> iv_gamma r)"
proof -
  obtain l where l: "iv_lb i = bd_fin l" "0 \<le> l" using nonneg_bounds [OF i] by blast
  obtain k where k: "iv_lb x = bd_fin k" "1 \<le> k"
  proof -
    have "iv_gamma x \<subseteq> {0..}" using x(3) by auto
    then obtain k where k: "iv_lb x = bd_fin k" using nonneg_bounds [OF x(1,2)] by blast
    then have "k \<in> iv_gamma x" using ok_bounds(5) [OF x(1,2)] x(2) by (simp add: gamma_def2)
    then show ?thesis using that k x(3) by auto
  qed
  define uu where "uu = (if bd_is_infinite (iv_ub i) then plus_infinity else if bd_is_infinite (iv_ub x) then bd_fin 0
    else bd_fin (bd_n (iv_ub i) div bd_n (iv_ub x)))"
  define lu where "lu = (if bd_is_infinite (iv_ub x) then bd_fin 0 else bd_fin (l div bd_n (iv_ub x)))"
  define ul where "ul = (if bd_is_infinite (iv_ub i) then plus_infinity else bd_fin (bd_n (iv_ub i) div k))"
  have u: "iv_ub i = plus_infinity \<or> (\<exists>n. iv_ub i = bd_fin n \<and> l \<le> n)"
    by (rule upper_cases [OF i(1,2)]) (use ok_bounds(5) [OF i(1,2)] l(1) in auto)
  have v: "iv_ub x = plus_infinity \<or> (\<exists>n. iv_ub x = bd_fin n \<and> k \<le> n)"
    by (rule upper_cases [OF x(1,2)]) (use ok_bounds(5) [OF x(1,2)] k(1) in auto)
  have nl: "\<not> bd_less (iv_ub i) (bd_fin 0)" using u l by (auto simp: bd_less_def bd_ge_def)
  have k0: "0 < k" using k by simp
  have q1: "bd_udiv (iv_lb i) (iv_lb x) = Inr (bd_fin (l div k))" using bd_udiv_simps(1) [OF l(2) k0] l k by simp
  have q2: "bd_udiv (iv_lb i) (iv_ub x) = Inr lu"
  proof (cases "iv_ub x = plus_infinity")
    case True
    then show ?thesis using bd_udiv_simps(3) [OF l(2) k0] l(1) by (simp add: lu_def)
  next
    case False
    then obtain n where "iv_ub x = bd_fin n" "0 < n" using v k0 by auto
    then show ?thesis using bd_udiv_simps(1) [OF l(2)] l(1) by (simp add: lu_def)
  qed
  have q3: "bd_udiv (iv_ub i) (iv_lb x) = Inr ul"
  proof (cases "iv_ub i = plus_infinity")
    case True
    then show ?thesis using bd_udiv_simps(2) [OF l(2) k0] k(1) by (simp add: ul_def)
  next
    case False
    then obtain n where "iv_ub i = bd_fin n" "0 \<le> n" using u l by auto
    then show ?thesis using bd_udiv_simps(1) [OF _ k0] k(1) by (simp add: ul_def)
  qed
  have q4: "bd_udiv (iv_ub i) (iv_ub x) = Inr uu"
  proof (cases "iv_ub i = plus_infinity")
    case True
    then show ?thesis using v k0 bd_udiv_simps(2,4) [OF l(2)] by (auto simp: uu_def)
  next
    case False
    then obtain n where "iv_ub i = bd_fin n" "0 \<le> n" using u l by auto
    then show ?thesis using v k0 bd_udiv_simps(1,3) [of n] by (auto simp: uu_def)
  qed
  have "iv_div_corners bd_udiv i x =
      Inr (mk_interval (bd_min4 (bd_fin (l div k)) lu ul uu) (bd_max4 (bd_fin (l div k)) lu ul uu))"
    using nl by (simp add: iv_div_corners_def q1 q2 q3 q4)
  moreover have "\<exists>r. Inr (mk_interval (bd_min4 (bd_fin (l div k)) lu ul uu) (bd_max4 (bd_fin (l div k)) lu ul uu)) = (Inr r :: interval res) \<and>
      iv_ok r \<and> (\<forall>a \<in> iv_gamma i. \<forall>b \<in> iv_gamma x. a div b \<in> iv_gamma r)"
  proof (rule corners_result)
    fix a b
    assume "a \<in> iv_gamma i" "b \<in> iv_gamma x"
    then have ab: "l \<le> a" "bd_le (bd_fin a) (iv_ub i)" "k \<le> b" "bd_le (bd_fin b) (iv_ub x)"
      using l k i(2) x(2) by (simp_all add: gamma_def2)
    have b0: "0 < b" and ab0: "0 \<le> a div b" using ab k l by (simp_all add: pos_imp_zdiv_nonneg_iff)
    have "bd_le lu (bd_fin (a div b))"
    proof (cases "iv_ub x = plus_infinity")
      case True
      then show ?thesis using ab0 by (simp add: lu_def)
    next
      case False
      then obtain n where n: "iv_ub x = bd_fin n" "b \<le> n" using v ab(4) by auto
      have "l div n \<le> l div b" using zdiv_mono2 [OF l(2) b0 n(2)] .
      also have "\<dots> \<le> a div b" using zdiv_mono1 [OF ab(1) b0] .
      finally show ?thesis using n(1) by (simp add: lu_def)
    qed
    then show "\<exists>p \<in> {bd_fin (l div k), lu, ul, uu}. bd_le p (bd_fin (a div b))" by blast
    have "bd_le (bd_fin (a div b)) ul"
    proof (cases "iv_ub i = plus_infinity")
      case False
      then obtain n where n: "iv_ub i = bd_fin n" "a \<le> n" using u ab(2) by auto
      have "a div b \<le> a div k" using zdiv_mono2 [of a k b] l ab k0 by simp
      also have "\<dots> \<le> n div k" using zdiv_mono1 [OF n(2) k0] .
      finally show ?thesis using n(1) by (simp add: ul_def)
    qed (simp add: ul_def)
    then show "\<exists>p \<in> {bd_fin (l div k), lu, ul, uu}. bd_le (bd_fin (a div b)) p" by blast
  qed (use gamma_nonempty [OF i(1,2)] gamma_nonempty [OF x(1,2)] in \<open>simp_all add: lu_def ul_def uu_def\<close>)
  ultimately show ?thesis by simp
qed

text \<open>An operand that contains 0 is split at it.\<close>

lemma split_at_zero:
  assumes x: "iv_ok x" "\<not> iv_is_bottom x" "0 \<in> iv_gamma x"
    and low: "iv_ok (iv_below_zero x) \<Longrightarrow> iv_gamma (iv_below_zero x) \<subseteq> iv_gamma x \<Longrightarrow>
      \<exists>p. lo = Inr p \<and> iv_ok p \<and> (\<forall>a \<in> A. \<forall>b \<in> iv_gamma (iv_below_zero x). g a b \<in> iv_gamma p)"
    and up: "iv_ok (iv_above_zero x) \<Longrightarrow> iv_gamma (iv_above_zero x) \<subseteq> iv_gamma x \<Longrightarrow>
      \<exists>q. hi = Inr q \<and> iv_ok q \<and> (\<forall>a \<in> A. \<forall>b \<in> iv_gamma (iv_above_zero x). g a b \<in> iv_gamma q)"
    and z: "iv_ok z" "\<And>a. a \<in> A \<Longrightarrow> g a 0 \<in> iv_gamma z"
  shows "\<exists>r. iv_join3 lo hi z = Inr r \<and> iv_ok r \<and> (\<forall>a \<in> A. \<forall>b \<in> iv_gamma x. g a b \<in> iv_gamma r)"
proof -
  have ok: "iv_ok (iv_below_zero x)" "iv_ok (iv_above_zero x)" "iv_gamma (iv_below_zero x) = iv_gamma x \<inter> {..-1}"
      "iv_gamma (iv_above_zero x) = iv_gamma x \<inter> {1..}"
    using zero_parts_sound(1,2) [OF x(1,2)] zero_parts_sound(3,4) [OF x(1,2) bexI [OF _ x(3)]] by simp_all
  obtain p where p: "lo = Inr p" "iv_ok p" "\<forall>a \<in> A. \<forall>b \<in> iv_gamma x \<inter> {..-1}. g a b \<in> iv_gamma p" using low ok by auto
  obtain q where q: "hi = Inr q" "iv_ok q" "\<forall>a \<in> A. \<forall>b \<in> iv_gamma x \<inter> {1..}. g a b \<in> iv_gamma q" using up ok by auto
  obtain r where r: "iv_join3 lo hi z = Inr r" "iv_ok r" "iv_gamma p \<union> iv_gamma q \<union> iv_gamma z \<subseteq> iv_gamma r"
    using join3_sound [OF p(1) q(1) p(2) q(2) z(1)] by blast
  have "g a b \<in> iv_gamma r" if ab: "a \<in> A" "b \<in> iv_gamma x" for a b
  proof -
    consider "b \<le> -1" | "b = 0" | "1 \<le> b" by linarith
    then show ?thesis using ab p(3) q(3) z(2) r(3) by cases auto
  qed
  then show ?thesis using r(1,2) by blast
qed

lemma udiv_singleton:
  assumes "iv_ok i" "\<not> iv_is_bottom i" "\<not> iv_is_bottom x" "iv_gamma i \<subseteq> {0..}" "iv_gamma x \<subseteq> {0..}"
    and s: "Option.bind (iv_singleton x) (\<lambda>n. if fits_cast_to_int64 n then Some n else None) = Some n"
  shows "\<exists>r. iv_udiv i x = Inr r \<and> iv_ok r \<and> (\<forall>a \<in> iv_gamma i. \<forall>b \<in> iv_gamma x. ebpf_div a b \<in> iv_gamma r)"
proof -
  have n: "iv_singleton x = Some n" "fits_cast_to_int64 n" using s by (auto simp: bind_eq_Some_conv split: if_splits)
  have g: "iv_gamma x = {n}" using singleton_gamma [OF n(1)] by blast
  then have "cast_to_uint64 n = Inr n" using n(2) assms(5) by (auto simp: cast_to_uint64_def fits_defs)
  then have "iv_udiv i x = (if n = 1 then Inr i else if n > 0 then
        and_then (bd_udiv (iv_lb i) (bd_fin n)) (\<lambda>l. and_then (bd_udiv (iv_ub i) (bd_fin n)) (\<lambda>u. Inr (mk_interval l u)))
      else Inr (iv_of_number 0))"
    using assms(2,3) by (subst iv_udiv.simps) (simp add: s)
  then show ?thesis using udiv_const [OF assms(1,2,4), of n] g assms(1,5) by (auto simp: ebpf_div_def)
qed

lemma udiv_sound:
  "iv_ok i \<Longrightarrow> iv_ok x \<Longrightarrow> iv_gamma i \<subseteq> {0..} \<Longrightarrow> iv_gamma x \<subseteq> {0..} \<Longrightarrow>
   \<exists>r. iv_udiv i x = Inr r \<and> iv_ok r \<and> (\<forall>a \<in> iv_gamma i. \<forall>b \<in> iv_gamma x. ebpf_div a b \<in> iv_gamma r)"
proof (induction i x rule: iv_udiv.induct)
  case (1 i x)
  let ?s = "Option.bind (iv_singleton x) (\<lambda>n. if fits_cast_to_int64 n then Some n else None)"
  note ok = 1(5,6) and nn = 1(7,8)
  have c: "iv_contains j 0 \<longleftrightarrow> 0 \<in> iv_gamma j" for j by (simp add: iv_gamma_def)
  consider (bot) "iv_is_bottom i \<or> iv_is_bottom x" | (const) n where "\<not> iv_is_bottom i" "\<not> iv_is_bottom x" "?s = Some n"
    | (range) "\<not> iv_is_bottom i" "\<not> iv_is_bottom x" "?s = None" by (cases ?s) auto
  then show ?case
  proof cases
    case bot
    then show ?thesis using gamma_is_bottom by (subst iv_udiv.simps) auto
  next
    case const
    then show ?thesis using udiv_singleton [OF ok(1) const(1,2) nn const(3)] by blast
  next
    case range
    have nb: "\<not> (iv_is_bottom i \<or> iv_is_bottom x)" using range by blast
    have eq: "iv_udiv i x =
      (if 0 \<in> iv_gamma x then iv_join3 (iv_udiv i (iv_below_zero x)) (iv_udiv i (iv_above_zero x)) (iv_of_number 0)
       else if 0 \<in> iv_gamma i then iv_join3 (iv_udiv (iv_below_zero i) x) (iv_udiv (iv_above_zero i) x) (iv_of_number 0)
       else iv_div_corners bd_udiv i x)" using range c by (subst iv_udiv.simps) simp
    consider (x0) "0 \<in> iv_gamma x" | (i0) "0 \<notin> iv_gamma x" "0 \<in> iv_gamma i" | (nz) "0 \<notin> iv_gamma x" "0 \<notin> iv_gamma i" by blast
    then show ?thesis
    proof cases
      case x0
      have "\<exists>r. iv_join3 (iv_udiv i (iv_below_zero x)) (iv_udiv i (iv_above_zero x)) (iv_of_number 0) = Inr r \<and> iv_ok r \<and>
          (\<forall>a \<in> iv_gamma i. \<forall>b \<in> iv_gamma x. ebpf_div a b \<in> iv_gamma r)"
        by (rule split_at_zero [OF ok(2) range(2) x0 1(1) [OF nb range(3)] 1(2) [OF nb range(3)]])
          (use x0 c ok nn in \<open>auto simp: ebpf_div_def\<close>)
      then show ?thesis using eq x0 by simp
    next
      case i0
      have "\<exists>r. iv_join3 (iv_udiv (iv_below_zero i) x) (iv_udiv (iv_above_zero i) x) (iv_of_number 0) = Inr r \<and> iv_ok r \<and>
          (\<forall>b \<in> iv_gamma x. \<forall>a \<in> iv_gamma i. ebpf_div a b \<in> iv_gamma r)"
      proof (rule split_at_zero [OF ok(1) range(1) i0(2)])
        assume z: "iv_ok (iv_below_zero i)" "iv_gamma (iv_below_zero i) \<subseteq> iv_gamma i"
        show "\<exists>p. iv_udiv (iv_below_zero i) x = Inr p \<and> iv_ok p \<and>
            (\<forall>b \<in> iv_gamma x. \<forall>a \<in> iv_gamma (iv_below_zero i). ebpf_div a b \<in> iv_gamma p)"
          using 1(3) [OF nb range(3)] i0 c z ok nn by blast
      next
        assume z: "iv_ok (iv_above_zero i)" "iv_gamma (iv_above_zero i) \<subseteq> iv_gamma i"
        show "\<exists>p. iv_udiv (iv_above_zero i) x = Inr p \<and> iv_ok p \<and>
            (\<forall>b \<in> iv_gamma x. \<forall>a \<in> iv_gamma (iv_above_zero i). ebpf_div a b \<in> iv_gamma p)"
          using 1(4) [OF nb range(3)] i0 c z ok nn by blast
      qed (simp_all add: ebpf_div_def)
      then show ?thesis using eq i0 by auto
    next
      case nz
      have x1: "iv_gamma x \<subseteq> {1..}"
      proof
        fix b
        assume b: "b \<in> iv_gamma x"
        then have "0 \<le> b" "b \<noteq> 0" using nn(2) nz(1) by auto
        then show "b \<in> {1..}" by simp
      qed
      show ?thesis using udiv_corners [OF ok(1) range(1) nn(1) ok(2) range(2) x1] eq nz x1 by (auto simp: ebpf_div_def)
    qed
  qed
qed

interpretation udiv: abs_binop iv_udiv ebpf_div "{0..}"
  by unfold_locales (rule udiv_sound)

end
