(* ===== verification/Crab_Bits.thy ===== *)
theory Crab_Bits
  imports Crab_Soundness
begin

text \<open>
  Soundness of the bitwise operations, the shifts and the truncations of intervals, the properties
  of the domain as a whole, when the remainder by a constant is sound, and the counterexample for the signed division.
\<close>

unbundle bit_operations_syntax

subsection \<open>And, or, exclusive or\<close>

abbreviation u64_range :: "int set" where
  "u64_range \<equiv> {0..<2 ^ 64}"

lemma u64_bounds:
  assumes "iv_ok i" "\<not> iv_is_bottom i" "iv_gamma i \<subseteq> u64_range"
  obtains l u where "iv_lb i = bd_fin l" "iv_ub i = bd_fin u" "0 \<le> l" "l \<le> u" "u < 2 ^ 64"
proof -
  have nn: "iv_gamma i \<subseteq> {0..}" using assms(3) by auto
  obtain l where l: "iv_lb i = bd_fin l" "0 \<le> l" using nonneg_bounds [OF assms(1,2) nn] by blast
  note b = ok_bounds [OF assms(1,2)]
  from assms(1,2) show ?thesis
  proof (cases rule: upper_cases)
    case (fin u)
    then have "u \<in> iv_gamma i" using b(5) assms(2) by (simp add: gamma_def2)
    then show ?thesis using that l fin b(5) assms(3) by auto
  next
    case inf
    then have "max l (2 ^ 64) \<in> iv_gamma i" using l assms(2) by (simp add: gamma_def2)
    then show ?thesis using assms(3) by auto
  qed
qed

text \<open>The low half of the numbers of an interval that does not cross a multiple of \<open>2 ^ 32\<close>.\<close>

lemma low_half_between:
  fixes l u a :: int
  assumes "l \<le> a" "a \<le> u" and "u - l < 2 ^ 32" and "l mod 2 ^ 32 + (u - l) = u mod 2 ^ 32"
  shows "l mod 2 ^ 32 \<le> a mod 2 ^ 32 \<and> a mod 2 ^ 32 \<le> u mod 2 ^ 32"
proof -
  have "u mod 2 ^ 32 < 2 ^ 32" "0 \<le> l mod 2 ^ 32" by simp_all
  then have "l mod 2 ^ 32 + (a - l) < 2 ^ 32" "0 \<le> l mod 2 ^ 32 + (a - l)" using assms by linarith+
  then have "(l mod 2 ^ 32 + (a - l)) mod 2 ^ 32 = l mod 2 ^ 32 + (a - l)" by (intro mod_pos_pos_trivial) simp_all
  then have "a mod 2 ^ 32 = l mod 2 ^ 32 + (a - l)" by (simp add: mod_add_left_eq)
  then show ?thesis using assms by simp
qed

lemma and_mask32: "a AND (2 ^ 32 - 1) = (a mod 2 ^ 32 :: int)"
  by (metis mask_eq_exp_minus_1 take_bit_eq_mask take_bit_eq_mod)

text \<open>The case of a mask of 32 ones.\<close>

lemma and_mask_case:
  assumes "iv_lb i = bd_fin l" "iv_ub i = bd_fin u" "0 \<le> l" "l \<le> u" "u < 2 ^ 64" "\<not> iv_is_bottom i" "\<not> iv_is_bottom x"
    and "iv_singleton i = None" "iv_singleton x = Some (2 ^ 32 - 1)"
  shows "\<exists>r. iv_and i x = Inr r \<and> iv_ok r \<and> (\<forall>a \<in> iv_gamma i. \<forall>b \<in> iv_gamma x. a AND b \<in> iv_gamma r)"
proof -
  have g: "iv_gamma x = {2 ^ 32 - 1}" using singleton_gamma [OF assms(9)] by blast
  have sz: "iv_finite_size i = Inr (Some (u - l))"
    using assms(1,2) by (simp add: iv_finite_size_def bd_sub_def bd_neg_def mk_bound_def bd_add_def bd_number_def)
  have c: "cast_to_uint64 l = Inr l" "cast_to_uint64 u = Inr u" "cast_to_uint64 (u - l) = Inr (u - l)"
    using assms(3-5) by (simp_all add: cast_to_uint64_def fits_uint64_def)
  let ?in = "u - l \<le> 2 ^ 32 - 1 \<and> l mod 2 ^ 32 < u mod 2 ^ 32 \<and> l mod 2 ^ 32 + (u - l) mod 2 ^ 32 = u mod 2 ^ 32"
  have eq: "iv_and i x = Inr (if ?in then mk_interval (bd_fin (l mod 2 ^ 32)) (bd_fin (u mod 2 ^ 32)) else mk_interval (bd_fin 0) (bd_fin (2 ^ 32 - 1)))"
    using assms(1,2,6-9) sz c by (simp add: iv_and_def Let_def)
  have "a AND b \<in> iv_gamma (if ?in then mk_interval (bd_fin (l mod 2 ^ 32)) (bd_fin (u mod 2 ^ 32)) else mk_interval (bd_fin 0) (bd_fin (2 ^ 32 - 1)))"
    if ab: "a \<in> iv_gamma i" "b \<in> iv_gamma x" for a b
  proof -
    have a: "l \<le> a" "a \<le> u" "b = 2 ^ 32 - 1" using ab g assms(1,2,6) by (simp_all add: gamma_def2)
    have m: "a AND b = a mod 2 ^ 32" unfolding a(3) by (rule and_mask32)
    show ?thesis
    proof (cases ?in)
      case True
      have w: "u - l < 2 ^ 32" using True by simp
      then have "(u - l) mod 2 ^ 32 = u - l" using assms(4) by (intro mod_pos_pos_trivial) simp_all
      then have e: "l mod 2 ^ 32 + (u - l) = u mod 2 ^ 32" using True by simp
      show ?thesis using low_half_between [OF a(1,2) w e] True by (simp add: gamma_mk m)
    next
      case False
      have "0 \<le> a mod 2 ^ 32" "a mod 2 ^ 32 \<le> 2 ^ 32 - 1" using pos_mod_bound [of "2 ^ 32" a] by simp_all
      then show ?thesis using False by (simp only: if_False m) (simp add: gamma_mk)
    qed
  qed
  moreover have "iv_ok (if ?in then mk_interval (bd_fin (l mod 2 ^ 32)) (bd_fin (u mod 2 ^ 32)) else mk_interval (bd_fin 0) (bd_fin (2 ^ 32 - 1)))"
    by (auto intro: ok_mk)
  ultimately show ?thesis using eq by blast
qed

interpretation bit_and: abs_binop iv_and "(AND)" u64_range
proof (rule abs_binopI)
  fix i x
  assume ok: "iv_ok i" "iv_ok x" and nb: "\<not> iv_is_bottom i" "\<not> iv_is_bottom x"
    and r: "iv_gamma i \<subseteq> u64_range" "iv_gamma x \<subseteq> u64_range"
  obtain l u where i: "iv_lb i = bd_fin l" "iv_ub i = bd_fin u" "0 \<le> l" "l \<le> u" "u < 2 ^ 64" using u64_bounds [OF ok(1) nb(1) r(1)] by blast
  obtain k v where x: "iv_lb x = bd_fin k" "iv_ub x = bd_fin v" "0 \<le> k" "k \<le> v" "v < 2 ^ 64" using u64_bounds [OF ok(2) nb(2) r(2)] by blast
  consider (both) a b where "iv_singleton i = Some a" "iv_singleton x = Some b"
    | (mask) "iv_singleton i = None" "iv_singleton x = Some (2 ^ 32 - 1)"
    | (other) "iv_singleton i = None \<or> iv_singleton x = None" "iv_singleton x \<noteq> Some (2 ^ 32 - 1)"
    by (cases "iv_singleton i"; cases "iv_singleton x"; cases "iv_singleton x = Some (2 ^ 32 - 1)") auto
  then show "\<exists>r. iv_and i x = Inr r \<and> iv_ok r \<and> (\<forall>a \<in> iv_gamma i. \<forall>b \<in> iv_gamma x. a AND b \<in> iv_gamma r)"
  proof cases
    case both
    then show ?thesis using singleton_gamma [OF both(1)] singleton_gamma [OF both(2)] nb by (simp add: iv_and_def)
  next
    case mask
    then show ?thesis using and_mask_case [OF i nb] by blast
  next
    case other
    have "iv_and i x = Inr (mk_interval (bd_fin 0) (bd_fin (min u v)))"
      using other i x nb by (auto simp: iv_and_def iv_is_top_def bd_min_def min_def split: option.split)
    moreover have "0 \<le> a AND b \<and> a AND b \<le> min u v" if "a \<in> iv_gamma i" "b \<in> iv_gamma x" for a b
    proof -
      have "0 \<le> a" "a \<le> u" "0 \<le> b" "b \<le> v" using that i x nb by (simp_all add: gamma_def2)
      then show ?thesis using AND_upper1 [of a b] AND_upper2 [of b a] by (simp add: AND_lower)
    qed
    ultimately show ?thesis by (auto simp: gamma_mk)
  qed
qed (auto simp: iv_and_def)

lemma or_range:
  assumes ok: "iv_ok i" "iv_ok x" and nb: "\<not> iv_is_bottom i" "\<not> iv_is_bottom x"
    and r: "iv_gamma i \<subseteq> {0..}" "iv_gamma x \<subseteq> {0..}" and ns: "iv_singleton i = None \<or> iv_singleton x = None"
  shows "iv_ok (iv_or i x) \<and> (\<forall>a \<in> iv_gamma i. \<forall>b \<in> iv_gamma x. a OR b \<in> iv_gamma (iv_or i x) \<and> a XOR b \<in> iv_gamma (iv_or i x))"
proof -
  obtain l where i: "iv_lb i = bd_fin l" "0 \<le> l" using nonneg_bounds [OF ok(1) nb(1) r(1)] by blast
  obtain k where x: "iv_lb x = bd_fin k" "0 \<le> k" using nonneg_bounds [OF ok(2) nb(2) r(2)] by blast
  have ge: "bd_ge (iv_lb i) (bd_fin 0)" "bd_ge (iv_lb x) (bd_fin 0)" using i x by (simp_all add: bd_ge_def)
  have nn: "0 \<le> a" "0 \<le> b" if "a \<in> iv_gamma i" "b \<in> iv_gamma x" for a b using that r by auto
  show ?thesis
  proof (cases "bd_is_infinite (iv_ub i) \<or> bd_is_infinite (iv_ub x)")
    case True
    then have "iv_or i x = mk_interval (bd_fin 0) plus_infinity"
      using nb ns ge by (auto simp: iv_or_def bd_number_def split: option.split)
    then show ?thesis using nn by (auto simp: gamma_mk XOR_lower intro!: ok_mk)
  next
    case False
    then obtain u v where uv: "iv_ub i = bd_fin u" "iv_ub x = bd_fin v"
      by (cases "iv_ub i"; cases "iv_ub x") auto
    have le: "l \<le> u" "k \<le> v" using ok_bounds(5) [OF ok(1) nb(1)] ok_bounds(5) [OF ok(2) nb(2)] i x uv by simp_all
    define m where "m = (if u > v then u else v)"
    have "0 \<le> m" using le i(2) x(2) by (simp add: m_def)
    then obtain j where j: "fill_ones m = 2 ^ j - 1" "m \<le> 2 ^ j - 1" using fill_ones_spec by blast
    have eq: "iv_or i x = mk_interval (bd_fin 0) (bd_fin (2 ^ j - 1))"
      using nb ns ge uv j(1) by (auto simp: iv_or_def bd_number_def m_def Let_def split: option.split)
    have "0 \<le> a OR b \<and> a OR b < 2 ^ j \<and> 0 \<le> a XOR b \<and> a XOR b < 2 ^ j" if ab: "a \<in> iv_gamma i" "b \<in> iv_gamma x" for a b
    proof -
      have "0 \<le> a" "0 \<le> b" "a \<le> m" "b \<le> m" using nn [OF ab] ab uv nb by (auto simp: gamma_def2 m_def)
      then have "a < 2 ^ j" "b < 2 ^ j" using j(2) by linarith+
      then show ?thesis using \<open>0 \<le> a\<close> \<open>0 \<le> b\<close> by (simp add: OR_upper XOR_upper XOR_lower)
    qed
    then show ?thesis by (auto simp: eq gamma_mk intro!: ok_mk)
  qed
qed

interpretation bit_or: abs_binop "\<lambda>i x. Inr (iv_or i x)" "(OR)" "{0..}"
proof (rule abs_binopI)
  fix i x
  assume ok: "iv_ok i" "iv_ok x" and nb: "\<not> iv_is_bottom i" "\<not> iv_is_bottom x" and r: "iv_gamma i \<subseteq> {0..}" "iv_gamma x \<subseteq> {0..}"
  consider (both) a b where "iv_singleton i = Some a" "iv_singleton x = Some b" | (other) "iv_singleton i = None \<or> iv_singleton x = None"
    by (cases "iv_singleton i"; cases "iv_singleton x") auto
  then show "\<exists>r. Inr (iv_or i x) = (Inr r :: interval res) \<and> iv_ok r \<and> (\<forall>a \<in> iv_gamma i. \<forall>b \<in> iv_gamma x. a OR b \<in> iv_gamma r)"
  proof cases
    case both
    then show ?thesis using singleton_gamma [OF both(1)] singleton_gamma [OF both(2)] nb by (simp add: iv_or_def)
  next
    case other
    then show ?thesis using or_range [OF ok nb r] by blast
  qed
qed (auto simp: iv_or_def)

interpretation bit_xor: abs_binop "\<lambda>i x. Inr (iv_xor i x)" "(XOR)" "{0..}"
proof (rule abs_binopI)
  fix i x
  assume ok: "iv_ok i" "iv_ok x" and nb: "\<not> iv_is_bottom i" "\<not> iv_is_bottom x" and r: "iv_gamma i \<subseteq> {0..}" "iv_gamma x \<subseteq> {0..}"
  consider (both) a b where "iv_singleton i = Some a" "iv_singleton x = Some b" | (other) "iv_singleton i = None \<or> iv_singleton x = None"
    by (cases "iv_singleton i"; cases "iv_singleton x") auto
  then show "\<exists>r. Inr (iv_xor i x) = (Inr r :: interval res) \<and> iv_ok r \<and> (\<forall>a \<in> iv_gamma i. \<forall>b \<in> iv_gamma x. a XOR b \<in> iv_gamma r)"
  proof cases
    case both
    then show ?thesis using singleton_gamma [OF both(1)] singleton_gamma [OF both(2)] nb by (simp add: iv_xor_def)
  next
    case other
    then have "iv_xor i x = iv_or i x" using nb by (auto simp: iv_xor_def split: option.split)
    then show ?thesis using or_range [OF ok nb r other] by auto
  qed
qed (auto simp: iv_xor_def)

subsection \<open>Shifts\<close>

lemma shift_factor_power: "shift_factor k = 2 ^ nat k"
proof -
  have "((\<lambda>f :: int. f * 2) ^^ n) 1 = 2 ^ n" for n by (induction n) simp_all
  then show ?thesis by (simp add: shift_factor_def)
qed

interpretation shl: abs_binop "\<lambda>i x. Inr (iv_shl i x)" "\<lambda>a b. a * 2 ^ nat b" UNIV
proof (rule abs_binopI)
  fix i x
  assume ok: "iv_ok i" "iv_ok x" and nb: "\<not> iv_is_bottom i" "\<not> iv_is_bottom x"
  show "\<exists>r. Inr (iv_shl i x) = (Inr r :: interval res) \<and> iv_ok r \<and> (\<forall>a \<in> iv_gamma i. \<forall>b \<in> iv_gamma x. a * 2 ^ nat b \<in> iv_gamma r)"
  proof (cases "\<exists>k. iv_singleton x = Some k \<and> 0 \<le> k \<and> k \<le> 128")
    case True
    then obtain k where k: "iv_singleton x = Some k" "0 \<le> k" "k \<le> 128" by blast
    have "iv_shl i x = iv_mult i (iv_of_number (2 ^ nat k))" using k nb by (simp add: iv_shl_def shift_factor_power)
    then show ?thesis using mult.sound [OF ok(1), of "iv_of_number (2 ^ nat k)"] singleton_gamma [OF k(1)] by auto
  next
    case False
    then have "iv_shl i x = iv_top" using nb by (auto simp: iv_shl_def split: option.split)
    then show ?thesis by simp
  qed
qed (auto simp: iv_shl_def)

interpretation lshr: abs_binop iv_lshr "\<lambda>a b. a div 2 ^ nat b" "{0..}"
proof (rule abs_binopI)
  fix i x
  assume ok: "iv_ok i" "iv_ok x" and nb: "\<not> iv_is_bottom i" "\<not> iv_is_bottom x" and r: "iv_gamma i \<subseteq> {0..}" "iv_gamma x \<subseteq> {0..}"
  obtain l where l: "iv_lb i = bd_fin l" "0 \<le> l" using nonneg_bounds [OF ok(1) nb(1) r(1)] by blast
  show "\<exists>r. iv_lshr i x = Inr r \<and> iv_ok r \<and> (\<forall>a \<in> iv_gamma i. \<forall>b \<in> iv_gamma x. a div 2 ^ nat b \<in> iv_gamma r)"
  proof (cases "(\<exists>k. iv_singleton x = Some k \<and> 0 \<le> k \<and> k \<le> 128) \<and> \<not> bd_is_infinite (iv_ub i)")
    case True
    then obtain k where k: "iv_singleton x = Some k" "0 \<le> k" "k \<le> 128" by blast
    obtain u where u: "iv_ub i = bd_fin u" using True by (cases "iv_ub i") auto
    have "iv_lshr i x = Inr (mk_interval (bd_fin (l div 2 ^ nat k)) (bd_fin (u div 2 ^ nat k)))"
      using k nb l u by (simp add: iv_lshr_def bd_ge_def zn_shr_def fits_sint32_def)
    then show ?thesis using singleton_gamma [OF k(1)] l u nb by (auto simp: gamma_mk gamma_def2 zdiv_mono1 intro!: ok_mk)
  next
    case False
    then have "iv_lshr i x = Inr iv_top" using nb by (auto simp: iv_lshr_def split: option.split)
    then show ?thesis by simp
  qed
qed (auto simp: iv_lshr_def)

subsection \<open>Truncation to a machine range\<close>

text \<open>
  If the ends of a range are reduced into a window of \<open>m\<close> numbers in order and the range is short,
  every number between is reduced to a number between.
\<close>

lemma window_between:
  fixes l u a s m :: int
  assumes "l \<le> a" "a \<le> u" and "u - l < m" and "rl mod m = l mod m" "ru mod m = u mod m" "ra mod m = a mod m"
    and "s \<le> rl" "rl \<le> ru" "ru < s + m" and "s \<le> ra" "ra < s + m"
  shows "rl \<le> ra \<and> ra \<le> ru"
proof -
  have m: "0 < m" using assms(1-3) by linarith
  have "(ru - rl) mod m = (u - l) mod m" by (metis assms(4,5) mod_diff_eq)
  then have e: "ru - rl = u - l" using assms(1-3,7-9) m by simp
  have "(rl + (a - l)) mod m = (l + (a - l)) mod m" by (metis assms(4) mod_add_left_eq)
  then have "(rl + (a - l)) mod m = ra mod m" using assms(6) by simp
  then have "rl + (a - l) = ra"
    by (rule mod_unique_range [where l = s]) (use assms(1,2,7-11) e in linarith)+
  then show ?thesis using assms(1,2) e by linarith
qed

lemma finite_sizeD:
  assumes "iv_ok i" "\<not> iv_is_bottom i"
  shows "iv_finite_size i = (if bd_is_infinite (iv_lb i) \<or> bd_is_infinite (iv_ub i) then Inr None
    else Inr (Some (bd_n (iv_ub i) - bd_n (iv_lb i))))"
  using ok_bounds [OF assms]
  by (auto simp: iv_finite_size_def bd_sub_def bd_neg_def mk_bound_def bd_add_def bd_number_def bound_ok_iff)

lemma signed_int_gamma: "iv_gamma (iv_signed_int is64) = (if is64 then {- (2 ^ 63)..<2 ^ 63} else {- (2 ^ 31)..<2 ^ 31})"
  "iv_ok (iv_signed_int is64)" "iv_gamma (iv_unsigned_int is64) = (if is64 then {0..<2 ^ 64} else {0..<2 ^ 32})" "iv_ok (iv_unsigned_int is64)"
  by (auto simp: iv_signed_int_def iv_unsigned_int_def gamma_mk intro!: ok_mk)

abbreviation width :: "bool \<Rightarrow> nat" where
  "width is64 \<equiv> (if is64 then 64 else 32)"

lemma truncate_widths:
  assumes "u64_conversion conv"
  shows "truncate_to_signed_finite_width conv (width is64) n = Inr (wrap_signed (width is64) n) \<or>
      truncate_to_signed_finite_width conv (width is64) n = Inl Throw \<and> \<not> fits_cast_to_int64 n"
    "truncate_to_unsigned_finite_width conv (width is64) n = Inr (n mod 2 ^ width is64) \<or>
      truncate_to_unsigned_finite_width conv (width is64) n = Inl Throw \<and> \<not> fits_cast_to_int64 n"
  using truncate_64 [OF assms, of n] truncate_32 [OF assms, of n]
  by (auto simp: truncate_to_signed_finite_width_def truncate_to_unsigned_finite_width_def)

text \<open>The bounds that are converted fit a 64-bit type.\<close>

definition iv_fits :: "interval \<Rightarrow> bool" where
  "iv_fits i \<longleftrightarrow> bd_is_infinite (iv_lb i) \<or> bd_is_infinite (iv_ub i) \<or>
     fits_cast_to_int64 (bd_n (iv_lb i)) \<and> fits_cast_to_int64 (bd_n (iv_ub i))"

lemma wrap_in_signed_int: "wrap_signed (width is64) a \<in> iv_gamma (iv_signed_int is64)"
  using wrap_signed_range [of 64 a] wrap_signed_range [of 32 a] by (simp add: signed_int_gamma)

lemma mod_in_unsigned_int: "a mod 2 ^ width is64 \<in> iv_gamma (iv_unsigned_int is64)"
  using pos_mod_bound [of "2 ^ 64" a] pos_mod_bound [of "2 ^ 32" a] by (simp add: signed_int_gamma)

lemma truncate_sint_sound:
  assumes "iv_ok i" and conv: "u64_conversion conv"
  shows "\<exists>r. (iv_truncate_to_sint conv is64 i = Inr r \<or> iv_truncate_to_sint conv is64 i = Inl Throw \<and> \<not> iv_fits i) \<and> iv_ok r \<and>
    (\<forall>a \<in> iv_gamma i. wrap_signed (width is64) a \<in> iv_gamma r)"
proof (cases "iv_le i (iv_signed_int is64)")
  case True
  have "wrap_signed (width is64) a = a" if "a \<in> iv_gamma i" for a
    using le_subset [OF assms(1) signed_int_gamma(2) True] that wrap_signed_id [of 64 a] wrap_signed_id [of 32 a]
    by (auto simp: signed_int_gamma split: if_splits)
  then show ?thesis using True assms by (simp add: iv_truncate_to_sint_def)
next
  case False
  then have nb: "\<not> iv_is_bottom i" by (auto simp: iv_le_def)
  show ?thesis
  proof (cases "bd_is_infinite (iv_lb i) \<or> bd_is_infinite (iv_ub i)")
    case True
    then show ?thesis using False wrap_in_signed_int signed_int_gamma(2)
      by (auto simp: iv_truncate_to_sint_def finite_sizeD [OF assms(1) nb])
  next
    case fin: False
    then obtain l u where lu: "iv_lb i = bd_fin l" "iv_ub i = bd_fin u" by (cases "iv_lb i"; cases "iv_ub i") auto
    let ?w = "wrap_signed (width is64)"
    let ?in = "?w l \<le> ?w u \<and> (if is64 then fits_sint64 (u - l) else fits_sint32 (u - l))"
    let ?r = "if ?in then mk_interval (bd_fin (?w l)) (bd_fin (?w u)) else iv_signed_int is64"
    have eq: "iv_truncate_to_sint conv is64 i = Inr ?r \<or> iv_truncate_to_sint conv is64 i = Inl Throw \<and> \<not> iv_fits i"
      using False lu truncate_widths(1) [OF conv, of is64 l] truncate_widths(1) [OF conv, of is64 u]
      by (auto simp: iv_truncate_to_sint_def finite_sizeD [OF assms(1) nb] iv_fits_def)
    have "?w l \<le> ?w a \<and> ?w a \<le> ?w u" if a: "a \<in> iv_gamma i" and ?in for a
    proof (rule window_between [where m = "2 ^ width is64" and s = "- (2 ^ (width is64 - 1))"])
      show "l \<le> a" "a \<le> u" using a lu nb by (simp_all add: gamma_def2)
      show "u - l < 2 ^ width is64" using \<open>?in\<close> by (simp add: fits_defs split: if_splits)
    qed (use \<open>?in\<close> wrap_signed_range [of "width is64"] in \<open>auto simp: wrap_signed_mod intro: order_less_le_trans split: if_splits\<close>)
    then have "iv_ok ?r \<and> (\<forall>a \<in> iv_gamma i. wrap_signed (width is64) a \<in> iv_gamma ?r)"
      using wrap_in_signed_int signed_int_gamma(2) by (auto simp: gamma_mk intro!: ok_mk)
    then show ?thesis using eq by blast
  qed
qed

lemma truncate_uint_sound:
  assumes "iv_ok i" and conv: "u64_conversion conv"
  shows "\<exists>r. (iv_truncate_to_uint conv is64 i = Inr r \<or> iv_truncate_to_uint conv is64 i = Inl Throw \<and> \<not> iv_fits i) \<and> iv_ok r \<and>
    (\<forall>a \<in> iv_gamma i. a mod 2 ^ width is64 \<in> iv_gamma r)"
proof (cases "iv_le i (iv_unsigned_int is64)")
  case True
  have "a mod 2 ^ width is64 = a" if "a \<in> iv_gamma i" for a
    using le_subset [OF assms(1) signed_int_gamma(4) True] that by (auto simp: signed_int_gamma split: if_splits)
  then show ?thesis using True assms by (simp add: iv_truncate_to_uint_def)
next
  case False
  then have nb: "\<not> iv_is_bottom i" by (auto simp: iv_le_def)
  show ?thesis
  proof (cases "bd_is_infinite (iv_lb i) \<or> bd_is_infinite (iv_ub i)")
    case True
    then show ?thesis using False mod_in_unsigned_int signed_int_gamma(4)
      by (auto simp: iv_truncate_to_uint_def finite_sizeD [OF assms(1) nb])
  next
    case fin: False
    then obtain l u where lu: "iv_lb i = bd_fin l" "iv_ub i = bd_fin u" by (cases "iv_lb i"; cases "iv_ub i") auto
    let ?w = "\<lambda>n. n mod 2 ^ width is64"
    let ?in = "?w l \<le> ?w u \<and> (if is64 then fits_uint64 (u - l) else fits_uint32 (u - l))"
    let ?r = "if ?in then mk_interval (bd_fin (?w l)) (bd_fin (?w u)) else iv_unsigned_int is64"
    have eq: "iv_truncate_to_uint conv is64 i = Inr ?r \<or> iv_truncate_to_uint conv is64 i = Inl Throw \<and> \<not> iv_fits i"
      using False lu truncate_widths(2) [OF conv, of is64 l] truncate_widths(2) [OF conv, of is64 u]
      by (auto simp: iv_truncate_to_uint_def finite_sizeD [OF assms(1) nb] iv_fits_def)
    have "?w l \<le> ?w a \<and> ?w a \<le> ?w u" if a: "a \<in> iv_gamma i" and ?in for a
    proof (rule window_between [where m = "2 ^ width is64" and s = 0])
      show "l \<le> a" "a \<le> u" using a lu nb by (simp_all add: gamma_def2)
      show "u - l < 2 ^ width is64" using \<open>?in\<close> by (simp add: fits_defs split: if_splits)
      show "?w l \<le> ?w u" using \<open>?in\<close> by blast
    qed simp_all
    then have "iv_ok ?r \<and> (\<forall>a \<in> iv_gamma i. a mod 2 ^ width is64 \<in> iv_gamma ?r)"
      using mod_in_unsigned_int signed_int_gamma(4) by (auto simp: gamma_mk intro!: ok_mk)
    then show ?thesis using eq by blast
  qed
qed

subsection \<open>The domain as a whole\<close>

text \<open>
  C29: the interval domain is sound for the operations that eBPF programs use on numbers. For
  intervals with proper bounds, addition, subtraction, multiplication and the left shift return
  (they never add opposite infinities) an interval with every result on numbers of the operands;
  a join and a widening contain both operands, a meet is exactly what they share, and an
  interval that compares below another contains no further number.
\<close>

theorem interval_ops_sound:
  assumes "iv_ok i" and "iv_ok x" and "a \<in> iv_gamma i" and "b \<in> iv_gamma x"
  shows "(\<exists>r. iv_add i x = Inr r \<and> iv_ok r \<and> a + b \<in> iv_gamma r) \<and> (\<exists>r. iv_sub i x = Inr r \<and> iv_ok r \<and> a - b \<in> iv_gamma r) \<and>
    iv_ok (iv_mult i x) \<and> a * b \<in> iv_gamma (iv_mult i x) \<and> iv_ok (iv_shl i x) \<and> a * 2 ^ nat b \<in> iv_gamma (iv_shl i x) \<and>
    {a, b} \<subseteq> iv_gamma (iv_join i x) \<and> {a, b} \<subseteq> iv_gamma (iv_widen i x) \<and>
    iv_gamma (iv_meet i x) = iv_gamma i \<inter> iv_gamma x \<and> (if iv_le i x then iv_gamma i \<subseteq> iv_gamma x else True)"
proof (intro conjI)
  show "\<exists>r. iv_add i x = Inr r \<and> iv_ok r \<and> a + b \<in> iv_gamma r" using add.sound [OF assms(1,2)] assms(3,4) by blast
  show "\<exists>r. iv_sub i x = Inr r \<and> iv_ok r \<and> a - b \<in> iv_gamma r" using sub.sound [OF assms(1,2)] assms(3,4) by blast
  show "iv_ok (iv_mult i x)" "a * b \<in> iv_gamma (iv_mult i x)" using mult.sound [OF assms(1,2)] assms(3,4) by auto
  show "iv_ok (iv_shl i x)" "a * 2 ^ nat b \<in> iv_gamma (iv_shl i x)" using shl.sound [OF assms(1,2)] assms(3,4) by auto
  show "{a, b} \<subseteq> iv_gamma (iv_join i x)" using join_sound(2) [OF assms(1,2)] assms(3,4) by blast
  show "{a, b} \<subseteq> iv_gamma (iv_widen i x)" using widen_sound(2) [OF assms(1,2)] assms(3,4) by blast
  show "iv_gamma (iv_meet i x) = iv_gamma i \<inter> iv_gamma x" by (rule meet_exact(2) [OF assms(1,2)])
  show "if iv_le i x then iv_gamma i \<subseteq> iv_gamma x else True" using le_subset [OF assms(1,2)] by simp
qed

definition sample_iv :: "int \<Rightarrow> int \<Rightarrow> interval" where
  "sample_iv l u = mk_interval (bd_fin l) (bd_fin u)"

lemma sample_iv: "iv_ok (sample_iv l u)" "iv_gamma (sample_iv l u) = {l..u}"
  by (auto simp: sample_iv_def gamma_mk intro!: ok_mk)

theorem interval_ops_sound_witness: "-3 * 5 \<in> iv_gamma (iv_mult (sample_iv (-3) 4) (sample_iv 2 5))"
  using interval_ops_sound [OF sample_iv(1) [of "-3" 4] sample_iv(1) [of 2 5], of "-3" 5] by (simp add: sample_iv)

text \<open>
  C30: the same for the unsigned operations, on intervals of 64-bit values: division (by zero gives
  zero), the bitwise operations, with the special case of a 32-bit mask, and the logical right
  shift. None of them raises.
\<close>

theorem interval_unsigned_sound:
  assumes "iv_ok i" and "iv_ok x" and "iv_gamma i \<subseteq> u64_range" and "iv_gamma x \<subseteq> u64_range" and "a \<in> iv_gamma i" and "b \<in> iv_gamma x"
  shows "(\<exists>r. iv_udiv i x = Inr r \<and> iv_ok r \<and> (if b = 0 then 0 else a div b) \<in> iv_gamma r) \<and>
    (\<exists>r. iv_and i x = Inr r \<and> iv_ok r \<and> a AND b \<in> iv_gamma r) \<and> iv_ok (iv_or i x) \<and> a OR b \<in> iv_gamma (iv_or i x) \<and>
    iv_ok (iv_xor i x) \<and> a XOR b \<in> iv_gamma (iv_xor i x) \<and> (\<exists>r. iv_lshr i x = Inr r \<and> iv_ok r \<and> a div 2 ^ nat b \<in> iv_gamma r)"
proof -
  have n: "iv_gamma i \<subseteq> {0..}" "iv_gamma x \<subseteq> {0..}" using assms(3,4) by auto
  show ?thesis
    using udiv.sound [OF assms(1,2) n] bit_and.sound [OF assms(1-4)] bit_or.sound [OF assms(1,2) n] bit_xor.sound [OF assms(1,2) n]
      lshr.sound [OF assms(1,2) n] assms(5,6) unfolding ebpf_div_def by blast
qed

theorem interval_unsigned_sound_witness:
  "\<exists>r. iv_and (sample_iv 7 20) (sample_iv 12 12) = Inr r \<and> 13 AND 12 \<in> iv_gamma r"
proof -
  have "iv_gamma (sample_iv 7 20) \<subseteq> u64_range" "iv_gamma (sample_iv 12 12) \<subseteq> u64_range" by (auto simp: sample_iv)
  from interval_unsigned_sound [OF sample_iv(1) sample_iv(1) this, of 13 12] show ?thesis by (auto simp: sample_iv)
qed

text \<open>
  C31: the values of an interval after a 32- or 64-bit operation. Truncating an interval raises or gives one
  that contains the wrapped value of each of its numbers, as a signed and as an unsigned integer, whether Boost's conversion
  to \<open>uint64_t\<close> raises for a number out of range or takes its low 64 bits. It does not raise if the bounds are
  infinite or fit a signed or unsigned 64-bit integer.
\<close>

theorem interval_truncation_sound:
  assumes "u64_conversion conv" and "iv_ok i" and "a \<in> iv_gamma i"
  shows "(\<forall>r. iv_truncate_to_sint conv is64 i = Inr r \<longrightarrow> wrap_signed (if is64 then 64 else 32) a \<in> iv_gamma r) \<and>
    (\<forall>r. iv_truncate_to_uint conv is64 i = Inr r \<longrightarrow> a mod 2 ^ (if is64 then 64 else 32) \<in> iv_gamma r) \<and>
    (iv_fits i \<longrightarrow> (\<exists>r. iv_truncate_to_sint conv is64 i = Inr r \<and> iv_ok r) \<and> (\<exists>r. iv_truncate_to_uint conv is64 i = Inr r \<and> iv_ok r))"
  using truncate_sint_sound [OF assms(2,1), of is64] truncate_uint_sound [OF assms(2,1), of is64] assms(3) by auto

theorem interval_truncation_sound_witness:
  "\<exists>r. iv_truncate_to_uint (\<lambda>n. if fits_uint64 n then Inr n else Inl Throw) False (sample_iv (-2) 3) = Inr r \<and>
     2 ^ 32 - 1 \<in> iv_gamma r"
proof -
  let ?conv = "\<lambda>n. if fits_uint64 n then Inr n else Inl Throw"
  have "u64_conversion ?conv" by (simp add: u64_conversion_def)
  moreover have "iv_fits (sample_iv (-2) 3)" by (simp add: iv_fits_def sample_iv_def mk_interval_def fits_defs bd_greater_def)
  ultimately show ?thesis using interval_truncation_sound [OF _ sample_iv(1) [of "-2" 3], of ?conv "-1" False] by (auto simp: sample_iv)
qed

subsection \<open>Widening\<close>

primrec widen_chain :: "interval \<Rightarrow> (nat \<Rightarrow> interval) \<Rightarrow> nat \<Rightarrow> interval" where
  "widen_chain i xs 0 = i"
| "widen_chain i xs (Suc n) = iv_widen (widen_chain i xs n) (xs n)"

lemma widen_chain_ok: "iv_ok i \<Longrightarrow> \<forall>n. iv_ok (xs n) \<Longrightarrow> iv_ok (widen_chain i xs n)"
  by (induction n) (simp_all add: widen_sound)

lemma iv_eq_rank: "iv_eq j i \<Longrightarrow> iv_rank j = iv_rank i"
  by (auto simp: iv_eq_def iv_rank_def iv_is_bottom_def split: if_splits)

lemma widen_chain_rank:
  assumes "iv_ok i" "\<forall>n. iv_ok (xs n)"
  shows "card {k. k < n \<and> \<not> iv_eq (widen_chain i xs (Suc k)) (widen_chain i xs k)} + iv_rank (widen_chain i xs n) \<le> iv_rank i"
proof (induction n)
  case (Suc n)
  let ?c = "\<lambda>k. \<not> iv_eq (widen_chain i xs (Suc k)) (widen_chain i xs k)"
  have s: "{k. k < Suc n \<and> ?c k} = (if ?c n then insert n {k. k < n \<and> ?c k} else {k. k < n \<and> ?c k})"
    by (auto simp: less_Suc_eq)
  show ?case
  proof (cases "?c n")
    case True
    then have "iv_rank (widen_chain i xs (Suc n)) < iv_rank (widen_chain i xs n)"
      using widen_rank [OF widen_chain_ok [OF assms]] assms(2) by simp
    then show ?thesis unfolding s using True Suc by simp
  next
    case False
    then show ?thesis unfolding s using Suc iv_eq_rank [of "widen_chain i xs (Suc n)" "widen_chain i xs n"] by simp
  qed
qed simp

text \<open>
  C32: widening ends. Whatever intervals a widened value meets in the rounds of an analysis, it
  changes in at most three of them.
\<close>

theorem widening_stabilises:
  assumes "iv_ok i" and "\<forall>n. iv_ok (xs n)"
  shows "finite {n. \<not> iv_eq (iv_widen (widen_chain i xs n) (xs n)) (widen_chain i xs n)} \<and>
    card {n. \<not> iv_eq (iv_widen (widen_chain i xs n) (xs n)) (widen_chain i xs n)} \<le> 3"
proof -
  let ?C = "{n. \<not> iv_eq (widen_chain i xs (Suc n)) (widen_chain i xs n)}"
  have r: "iv_rank i \<le> 3" by (simp add: iv_rank_def)
  have b: "card {k. k < n \<and> k \<in> ?C} \<le> 3" for n using widen_chain_rank [OF assms, of n] r by simp
  have "card F \<le> 3" if F: "F \<subseteq> ?C" "finite F" for F
  proof -
    obtain n where "\<forall>k \<in> F. k < n" using F(2) finite_nat_set_iff_bounded by blast
    then have "F \<subseteq> {k. k < n \<and> k \<in> ?C}" using F(1) by blast
    then show ?thesis using card_mono [of "{k. k < n \<and> k \<in> ?C}" F] b [of n] by simp
  qed
  then have "finite ?C \<and> card ?C \<le> 3" using finite_if_finite_subsets_card_bdd [of ?C 3] by blast
  then show ?thesis by simp
qed

theorem widening_stabilises_witness:
  "card {n. \<not> iv_eq (iv_widen (widen_chain (sample_iv 0 1) (\<lambda>n. sample_iv 0 (int n)) n) (sample_iv 0 (int n)))
     (widen_chain (sample_iv 0 1) (\<lambda>n. sample_iv 0 (int n)) n)} \<le> 3"
  using widening_stabilises [OF sample_iv(1) [of 0 1], of "\<lambda>n. sample_iv 0 (int n)"] by (simp add: sample_iv)

subsection \<open>Where the domain is not sound\<close>

lemmas iv_eval = sample_iv_def iv_is_bottom_def iv_singleton_def iv_contains_def mk_interval_def iv_of_number_def
  bd_greater_def bd_number_def bd_umod_def as_unsigned_def zn_mod_def zn_div_def mk_bound_def bd_div_def signed_modulo_int_def signed_divide_int_def

lemma urem_by_constant:
  assumes "0 \<le> l" and "l \<le> u" and "0 < c"
  shows "iv_urem (sample_iv l u) (iv_of_number c) = Inr (mk_interval (bd_fin (l mod c)) (bd_fin (u mod c)))"
proof -
  have "l smod c = l mod c" "u smod c = u mod c" using assms by (auto simp: signed_modulo_int_def sgn_if)
  then show ?thesis using assms
    by (subst iv_urem.simps) (auto simp: sample_iv_def iv_is_bottom_def iv_singleton_def mk_interval_def iv_of_number_def
        bd_greater_def bd_number_def bd_umod_def as_unsigned_def zn_mod_def mk_bound_def)
qed

text \<open>The remainders of the bounds enclose all remainders only if there is no multiple of the divisor in between, or all are taken.\<close>

lemma remainders_between:
  assumes "l \<le> u" and "0 < (c :: int)"
  shows "(\<forall>a\<in>{l..u}. l mod c \<le> a mod c \<and> a mod c \<le> u mod c) \<longleftrightarrow> l div c = u div c \<or> l mod c = 0 \<and> u mod c = c - 1"
proof
  assume all: "\<forall>a\<in>{l..u}. l mod c \<le> a mod c \<and> a mod c \<le> u mod c"
  show "l div c = u div c \<or> l mod c = 0 \<and> u mod c = c - 1"
  proof (cases "l div c = u div c")
    case False
    then have lt: "l div c + 1 \<le> u div c" using zdiv_mono1 [OF assms] by simp
    then have m: "c * (l div c) + c \<le> c * (u div c)" using mult_left_mono [OF lt, of c] assms(2) by (simp add: distrib_left)
    have l: "l = c * (l div c) + l mod c" "l mod c < c" "0 \<le> l mod c" and u: "u = c * (u div c) + u mod c" "u mod c < c" "0 \<le> u mod c"
      using assms(2) by simp_all
    have "l \<le> c * (u div c)" "c * (u div c) \<le> u" "l \<le> c * (l div c) + (c - 1)" "c * (l div c) + (c - 1) \<le> u"
      using m l u by linarith+
    then have "c * (u div c) \<in> {l..u}" "c * (l div c) + (c - 1) \<in> {l..u}" by simp_all
    then have "l mod c \<le> c * (u div c) mod c" "(c * (l div c) + (c - 1)) mod c \<le> u mod c" using all by blast+
    moreover have "(c * (l div c) + (c - 1)) mod c = c - 1"
      using assms(2) mod_pos_pos_trivial [of "c - 1" c] by (simp only: mod_mult_self4)
    ultimately have "l mod c \<le> 0" "c - 1 \<le> u mod c" by simp_all
    then show ?thesis using l(3) u(2) by simp
  qed simp
next
  assume "l div c = u div c \<or> l mod c = 0 \<and> u mod c = c - 1"
  then show "\<forall>a\<in>{l..u}. l mod c \<le> a mod c \<and> a mod c \<le> u mod c"
  proof
    assume e: "l div c = u div c"
    have "l mod c \<le> a mod c \<and> a mod c \<le> u mod c" if "a \<in> {l..u}" for a
    proof -
      have "l div c \<le> a div c" "a div c \<le> u div c" using that assms(2) zdiv_mono1 by auto
      then have "a div c = l div c" using e by simp
      then show ?thesis using that e by (simp add: minus_mult_div_eq_mod [symmetric])
    qed
    then show ?thesis by blast
  next
    assume "l mod c = 0 \<and> u mod c = c - 1"
    then show ?thesis using assms(2) by (simp add: zle_diff1_eq)
  qed
qed

text \<open>
  C38: the unsigned remainder by a constant. \<open>URem\<close> takes the remainders of the two bounds as the
  bounds of the result, although the remainder is not monotone. For an interval of non-negative numbers the
  result has every remainder exactly if the bounds have the same quotient, or the lower bound is a
  multiple of the divisor and the upper bound one less than a multiple; in every other case a remainder is lost, as
  for the numbers from 1 to 4 and the divisor 3.
\<close>

theorem interval_urem_unsound:
  assumes "0 \<le> l" and "l \<le> u" and "0 < c"
  shows "\<exists>r. iv_urem (sample_iv l u) (iv_of_number c) = Inr r \<and>
    ((\<forall>a\<in>iv_gamma (sample_iv l u). a mod c \<in> iv_gamma r) \<longleftrightarrow> l div c = u div c \<or> l mod c = 0 \<and> u mod c = c - 1)"
  using urem_by_constant [OF assms] remainders_between [OF assms(2,3)] by (auto simp: gamma_mk sample_iv)

theorem interval_urem_unsound_witness:
  "\<exists>r. iv_urem (sample_iv 1 4) (iv_of_number 3) = Inr r \<and> \<not> (\<forall>a\<in>iv_gamma (sample_iv 1 4). a mod 3 \<in> iv_gamma r)"
  using interval_urem_unsound [of 1 4 3] by auto

text \<open>
  The signed division by a range shifts a negative dividend before it divides the corners. The
  corners are divided towards zero, so results near zero are lost: -5 divided by 3 is -1, which
  is outside the result for the divisors 2 and 3.
\<close>

theorem interval_sdiv_unsound:
  "\<exists>r. iv_sdiv (iv_of_number (-5)) (sample_iv 2 3) = Inr r \<and> (-5) sdiv 3 \<notin> iv_gamma r"
proof -
  have "iv_sdiv (iv_of_number (-5)) (sample_iv 2 3) = Inr (mk_interval (bd_fin (-3)) (bd_fin (-2)))"
    by (subst iv_sdiv.simps)
      (simp add: iv_eval iv_div_corners_def bd_less_def bd_ge_def iv_sub_def iv_add_def bd_sub_def bd_neg_def bd_add_def
        bd_min4_def bd_max4_def bd_min_def bd_max_def)
  then show ?thesis by (simp add: gamma_mk signed_divide_int_def)
qed

text \<open>The arithmetic right shift divides towards zero: -1 shifted by 1 gives 0 instead of -1.\<close>

theorem interval_ashr_unsound: "\<exists>r. iv_ashr (iv_of_number (-1)) (iv_of_number 1) = Inr r \<and> (-1) div 2 \<notin> iv_gamma r"
proof -
  have "iv_ashr (iv_of_number (-1)) (iv_of_number 1) = Inr (mk_interval (bd_fin 0) (bd_fin 0))"
    by (simp add: iv_ashr_def, subst iv_sdiv.simps) (simp add: iv_eval shift_factor_power)
  then show ?thesis by (simp add: gamma_mk)
qed

end
