(* ===== verification/Ebpf_Asm.thy ===== *)
theory Ebpf_Asm
  imports Bpf_Prelude
begin

text \<open>
  The instructions of eBPF as the verifier reads and writes them (\<open>ebpf-verifier/src\<close>:
  \<open>ebpf_vm_isa.hpp\<close>, \<open>asm_syntax.hpp\<close>, \<open>asm_unmarshal.cpp\<close>, \<open>asm_marshal.cpp\<close>). Fields keep their
  widths. Assertions are not compiled in, so a failed one goes on where the source does. The notes
  for the reader of a listing are left out; the platform with the prototypes of the helpers is a parameter.
\<close>

unbundle bit_operations_syntax

subsection \<open>Encoding\<close>

record ebpf_inst =
  in_opcode :: "8 word"
  in_dst :: "4 word"
  in_src :: "4 word"
  in_offset :: "16 word"
  in_imm :: "32 word"

abbreviation (input) INST_CLS_MASK :: "8 word" where "INST_CLS_MASK \<equiv> 0x07"
abbreviation (input) INST_CLS_LD :: "8 word" where "INST_CLS_LD \<equiv> 0x00"
abbreviation (input) INST_CLS_LDX :: "8 word" where "INST_CLS_LDX \<equiv> 0x01"
abbreviation (input) INST_CLS_ST :: "8 word" where "INST_CLS_ST \<equiv> 0x02"
abbreviation (input) INST_CLS_STX :: "8 word" where "INST_CLS_STX \<equiv> 0x03"
abbreviation (input) INST_CLS_ALU :: "8 word" where "INST_CLS_ALU \<equiv> 0x04"
abbreviation (input) INST_CLS_JMP :: "8 word" where "INST_CLS_JMP \<equiv> 0x05"
abbreviation (input) INST_CLS_JMP32 :: "8 word" where "INST_CLS_JMP32 \<equiv> 0x06"
abbreviation (input) INST_CLS_ALU64 :: "8 word" where "INST_CLS_ALU64 \<equiv> 0x07"
abbreviation (input) INST_SRC_REG :: "8 word" where "INST_SRC_REG \<equiv> 0x08"
abbreviation (input) INST_END_BE :: "8 word" where "INST_END_BE \<equiv> 0x08"
abbreviation (input) INST_SIZE_MASK :: "8 word" where "INST_SIZE_MASK \<equiv> 0x18"
abbreviation (input) INST_MODE_MASK :: "8 word" where "INST_MODE_MASK \<equiv> 0xe0"
abbreviation (input) INST_OP_LDDW_IMM :: "8 word" where "INST_OP_LDDW_IMM \<equiv> 0x18"
abbreviation (input) INST_OP_JA :: "8 word" where "INST_OP_JA \<equiv> 0x05"
abbreviation (input) INST_OP_CALL :: "8 word" where "INST_OP_CALL \<equiv> 0x85"
abbreviation (input) INST_OP_EXIT :: "8 word" where "INST_OP_EXIT \<equiv> 0x95"
abbreviation (input) INST_ALU_OP_MASK :: "8 word" where "INST_ALU_OP_MASK \<equiv> 0xf0"

definition width_to_opcode :: "int \<Rightarrow> 8 word" where
  "width_to_opcode w = (if w = 1 then 0x10 else if w = 2 then 0x08 else if w = 4 then 0x00 else if w = 8 then 0x18 else 0)"

definition merge :: "32 word \<Rightarrow> 32 word \<Rightarrow> 64 word" where
  "merge imm next_imm = push_bit 32 (scast next_imm) OR ucast imm"

definition split :: "64 word \<Rightarrow> 32 word \<times> 32 word" where
  "split v = (ucast v, ucast (drop_bit 32 v))"

subsection \<open>Syntax\<close>

datatype bin_op = MOV | ADD | SUB | MUL | UDIV | UMOD | BOR | BAND | LSH | RSH | ARSH | BXOR

datatype un_op = BE16 | BE32 | BE64 | LE16 | LE32 | LE64 | NEG

datatype cond_op = EQ | NE | SET | NSET | LT | LE | GT | GE | SLT | SLE | SGT | SGE

datatype asm_value = Imm "64 word" | Reg "8 word"

record condition =
  co_op :: cond_op
  co_left :: "8 word"
  co_right :: asm_value
  co_is64 :: bool

record deref =
  de_width :: int
  de_basereg :: "8 word"
  de_offset :: "32 word"

datatype arg_single_kind = K_MAP_FD | K_MAP_FD_PROGRAMS | K_PTR_TO_MAP_KEY | K_PTR_TO_MAP_VALUE | K_PTR_TO_CTX | K_ANYTHING

datatype arg_pair_kind = K_PTR_TO_READABLE_MEM | K_PTR_TO_READABLE_MEM_OR_NULL | K_PTR_TO_WRITABLE_MEM

record arg_pair =
  ap_kind :: arg_pair_kind
  ap_mem :: "8 word"
  ap_size :: "8 word"
  ap_can_be_zero :: bool

record asm_call =
  ca_func :: "32 word"
  ca_name :: string
  ca_is_map_lookup :: bool
  ca_reallocate_packet :: bool
  ca_singles :: "(arg_single_kind \<times> 8 word) list"
  ca_pairs :: "arg_pair list"

text \<open>What an \<open>Assert\<close> of the control-flow graph demands. A register is its number.\<close>

datatype type_group =
    TG_number | TG_map_fd | TG_ctx | TG_packet | TG_stack | TG_shared | TG_map_fd_programs | TG_non_map_fd | TG_mem
  | TG_mem_or_num | TG_pointer | TG_ptr_or_num | TG_stack_or_packet | TG_singleton_ptr

datatype access_type = AT_compare | AT_read | AT_write

datatype assertion_constraint =
    Comparable "8 word" "8 word" bool
  | Addable "8 word" "8 word"
  | ValidDivisor "8 word"
  | ValidAccess "8 word" "32 word" asm_value bool access_type
  | ValidStore "8 word" "8 word"
  | ValidSize "8 word" bool
  | ValidMapKeyValue "8 word" "8 word" bool
  | TypeConstraint "8 word" type_group
  | ZeroCtxOffset "8 word"

text \<open>A label is the index of an instruction; the second part of the source's labels is -1 here throughout.\<close>

datatype instruction =
    Undefined int
  | Bin bin_op (bin_dst: "8 word") (bin_v: asm_value) (bin_is64: bool) (bin_lddw: bool)
  | Un_asm un_op (un_dst: "8 word") (un_is64: bool)
  | LoadMapFd "8 word" "32 word"
  | Call asm_call
  | Exit
  | Jmp "condition option" int
  | Mem deref asm_value bool
  | Packet int "32 word" "8 word option"
  | LockAdd deref "8 word"
  | Assume condition
  | Assert assertion_constraint

subsection \<open>Unmarshalling\<close>

text \<open>\<open>InvalidInstruction\<close> is caught by \<open>unmarshal\<close>, other exceptions are not.\<close>

datatype asm_error = InvalidInstruction nat string | Raised string

type_synonym 'a asm_res = "asm_error + 'a"

definition asm_bind :: "'a asm_res \<Rightarrow> ('a \<Rightarrow> 'b asm_res) \<Rightarrow> 'b asm_res" where
  "asm_bind r f = (case r of Inl e \<Rightarrow> Inl e | Inr x \<Rightarrow> f x)"

datatype return_type = RET_INTEGER | RET_PTR_TO_MAP_VALUE_OR_NULL | RET_INTEGER_OR_NO_RETURN_IF_SUCCEED | RET_UNSUPPORTED

datatype arg_type =
    ARG_DONTCARE | ARG_ANYTHING | ARG_CONST_SIZE | ARG_CONST_SIZE_OR_ZERO | ARG_PTR_TO_CTX | ARG_PTR_TO_MAP
  | ARG_PTR_TO_MAP_OF_PROGRAMS | ARG_PTR_TO_MAP_KEY | ARG_PTR_TO_MAP_VALUE | ARG_PTR_TO_READABLE_MEM
  | ARG_PTR_TO_READABLE_MEM_OR_NULL | ARG_PTR_TO_WRITABLE_MEM | ARG_UNSUPPORTED

record helper_proto =
  hp_name :: string
  hp_return_type :: return_type
  hp_argument_type :: "arg_type list"
  hp_reallocate_packet :: bool

record platform =
  pl_get_helper_prototype :: "32 word \<Rightarrow> helper_proto asm_res"
  pl_is_helper_usable :: "32 word \<Rightarrow> bool"

datatype alu_op = Bin_Op bin_op | Un_Op un_op

definition getAluOp :: "nat \<Rightarrow> ebpf_inst \<Rightarrow> alu_op asm_res" where
  "getAluOp pc inst =
     (let op = in_opcode inst AND INST_ALU_OP_MASK; be = in_opcode inst AND INST_END_BE \<noteq> 0 in
      if op = 0x00 then Inr (Bin_Op ADD)
      else if op = 0x10 then Inr (Bin_Op SUB)
      else if op = 0x20 then Inr (Bin_Op MUL)
      else if op = 0x30 then Inr (Bin_Op UDIV)
      else if op = 0x40 then Inr (Bin_Op BOR)
      else if op = 0x50 then Inr (Bin_Op BAND)
      else if op = 0x60 then Inr (Bin_Op LSH)
      else if op = 0x70 then Inr (Bin_Op RSH)
      else if op = 0x80 then Inr (Un_Op NEG)
      else if op = 0x90 then Inr (Bin_Op UMOD)
      else if op = 0xa0 then Inr (Bin_Op BXOR)
      else if op = 0xb0 then Inr (Bin_Op MOV)
      else if op = 0xc0 then Inr (Bin_Op ARSH)
      else if op = 0xd0 then
        (if in_imm inst = 16 then Inr (Un_Op (if be then BE16 else LE16))
         else if in_imm inst = 32 then
           (if in_opcode inst AND INST_CLS_MASK = INST_CLS_ALU64
            then Inl (InvalidInstruction pc ''invalid endian immediate 32 for 64 bit instruction'')
            else Inr (Un_Op (if be then BE32 else LE32)))
         else if in_imm inst = 64 then Inr (Un_Op (if be then BE64 else LE64))
         else Inl (InvalidInstruction pc ''invalid endian immediate''))
      else if op = 0xe0 then Inl (InvalidInstruction pc ''invalid ALU op 0xe0'')
      else Inl (InvalidInstruction pc ''invalid ALU op 0xf0''))"

definition sign_extend :: "32 word \<Rightarrow> 64 word" where
  "sign_extend imm = scast imm"

definition zero_extend :: "32 word \<Rightarrow> 64 word" where
  "zero_extend imm = ucast imm"

text \<open>The counter \<open>pc_t\<close> has 16 bits.\<close>

definition pc_t :: "nat \<Rightarrow> nat" where
  "pc_t pc = unat (of_nat pc :: 16 word)"

definition getBinValue :: "nat \<Rightarrow> ebpf_inst \<Rightarrow> asm_value asm_res" where
  "getBinValue pc inst =
     (if in_offset inst \<noteq> 0 then Inl (InvalidInstruction pc ''nonzero offset for register alu op'')
      else if in_opcode inst AND INST_SRC_REG \<noteq> 0 then
        (if in_imm inst \<noteq> 0 then Inl (InvalidInstruction pc ''nonzero imm for register alu op'')
         else Inr (Reg (ucast (in_src inst))))
      else
        (if in_src inst \<noteq> 0 then Inl (InvalidInstruction pc ''nonzero src for register alu op'')
         else Inr (Imm (sign_extend (in_imm inst)))))"

text \<open>The operations 0, 8, 9 and 15 fall to the default value of the enumeration.\<close>

definition getJmpOp :: "nat \<Rightarrow> 8 word \<Rightarrow> cond_op asm_res" where
  "getJmpOp pc opcode =
     (let op = drop_bit 4 opcode AND 0xF in
      if op = 0x1 then Inr EQ
      else if op = 0x2 then Inr GT
      else if op = 0x3 then Inr GE
      else if op = 0x4 then Inr SET
      else if op = 0x5 then Inr NE
      else if op = 0x6 then Inr SGT
      else if op = 0x7 then Inr SGE
      else if op = 0xa then Inr LT
      else if op = 0xb then Inr LE
      else if op = 0xc then Inr SLT
      else if op = 0xd then Inr SLE
      else if op = 0xe then Inl (InvalidInstruction pc ''invalid JMP op 0xe'')
      else Inr EQ)"

definition getMemIsLoad :: "8 word \<Rightarrow> bool" where
  "getMemIsLoad opcode = (let c = opcode AND INST_CLS_MASK in c = INST_CLS_LD \<or> c = INST_CLS_LDX)"

definition getMemWidth :: "8 word \<Rightarrow> int" where
  "getMemWidth opcode = (let s = opcode AND INST_SIZE_MASK in
     if s = 0x10 then 1 else if s = 0x08 then 2 else if s = 0x00 then 4 else if s = 0x18 then 8 else 0)"

definition makeMemOp :: "nat \<Rightarrow> ebpf_inst \<Rightarrow> instruction asm_res" where
  "makeMemOp pc inst =
     (if in_dst inst > 10 \<or> in_src inst > 10 then Inl (InvalidInstruction pc ''Bad register'')
      else
        (let w = getMemWidth (in_opcode inst);
             isLD = (in_opcode inst AND INST_CLS_MASK = INST_CLS_LD);
             mode = drop_bit 5 (in_opcode inst AND INST_MODE_MASK) in
         if mode = 1 then
           (if \<not> isLD then Inl (InvalidInstruction pc ''ABS but not LD'') else Inr (Packet w (in_imm inst) None))
         else if mode = 2 then
           (if \<not> isLD then Inl (InvalidInstruction pc ''IND but not LD'') else Inr (Packet w (in_imm inst) (Some (ucast (in_src inst)))))
         else if mode = 3 then
           (if isLD then Inl (InvalidInstruction pc ''plain LD'')
            else
              (let isLoad = getMemIsLoad (in_opcode inst) in
               if isLoad \<and> in_dst inst = 10 then Inl (InvalidInstruction pc ''Cannot modify r10'')
               else
                 (let isImm = (in_opcode inst AND 1 = 0);
                      basereg = (if isLoad then in_src inst else in_dst inst) in
                  Inr (Mem \<lparr>de_width = w, de_basereg = ucast basereg, de_offset = scast (in_offset inst)\<rparr>
                    (if isLoad then Reg (ucast (in_dst inst)) else if isImm then Imm (zero_extend (in_imm inst)) else Reg (ucast (in_src inst)))
                    isLoad))))
         else if mode = 6 then
           (if in_opcode inst AND INST_CLS_MASK \<noteq> INST_CLS_STX \<or> in_opcode inst AND INST_SIZE_MASK \<notin> {0x00, 0x18}
            then Inl (InvalidInstruction pc ''Bad instruction'')
            else if in_imm inst \<noteq> 0 then Inl (InvalidInstruction pc ''Unsupported atomic instruction'')
            else Inr (LockAdd \<lparr>de_width = w, de_basereg = ucast (in_dst inst), de_offset = scast (in_offset inst)\<rparr> (ucast (in_src inst))))
         else Inl (InvalidInstruction pc ''Bad instruction'')))"

definition makeAluOp :: "nat \<Rightarrow> ebpf_inst \<Rightarrow> instruction asm_res" where
  "makeAluOp pc inst =
     (if in_dst inst = 10 then Inl (InvalidInstruction pc ''Invalid target r10'')
      else
        (let is64 = (in_opcode inst AND INST_CLS_MASK = INST_CLS_ALU64) in
         asm_bind (getAluOp pc inst) (\<lambda>op. case op of
             Un_Op o' \<Rightarrow> Inr (Un_asm o' (ucast (in_dst inst)) is64)
           | Bin_Op o' \<Rightarrow> asm_bind (getBinValue (pc_t pc) inst) (\<lambda>v. Inr (Bin o' (ucast (in_dst inst)) v is64 False)))))"

definition makeLddw :: "ebpf_inst \<Rightarrow> 32 word \<Rightarrow> ebpf_inst list \<Rightarrow> nat \<Rightarrow> instruction asm_res" where
  "makeLddw inst next_imm insts pc =
     (if pc \<ge> length insts - 1 then Inl (InvalidInstruction pc ''incomplete LDDW'')
      else if in_src inst > 1 \<or> in_dst inst > 10 \<or> in_offset inst \<noteq> 0 then Inl (InvalidInstruction pc ''LDDW uses reserved fields'')
      else if in_src inst = 1 then Inr (LoadMapFd (ucast (in_dst inst)) (in_imm inst))
      else
        (let nx = insts ! (pc + 1) in
         if in_opcode nx \<noteq> 0 \<or> in_dst nx \<noteq> 0 \<or> in_src nx \<noteq> 0 \<or> in_offset nx \<noteq> 0
         then Inl (InvalidInstruction pc ''invalid LDDW'')
         else Inr (Bin MOV (ucast (in_dst inst)) (Imm (merge (in_imm inst) next_imm)) True True)))"

definition toArgSingleKind :: "arg_type \<Rightarrow> arg_single_kind" where
  "toArgSingleKind t = (case t of
       ARG_ANYTHING \<Rightarrow> K_ANYTHING
     | ARG_PTR_TO_MAP \<Rightarrow> K_MAP_FD
     | ARG_PTR_TO_MAP_OF_PROGRAMS \<Rightarrow> K_MAP_FD_PROGRAMS
     | ARG_PTR_TO_MAP_KEY \<Rightarrow> K_PTR_TO_MAP_KEY
     | ARG_PTR_TO_MAP_VALUE \<Rightarrow> K_PTR_TO_MAP_VALUE
     | ARG_PTR_TO_CTX \<Rightarrow> K_PTR_TO_CTX
     | _ \<Rightarrow> K_MAP_FD)"

definition toArgPairKind :: "arg_type \<Rightarrow> arg_pair_kind" where
  "toArgPairKind t = (case t of
       ARG_PTR_TO_READABLE_MEM_OR_NULL \<Rightarrow> K_PTR_TO_READABLE_MEM_OR_NULL
     | ARG_PTR_TO_READABLE_MEM \<Rightarrow> K_PTR_TO_READABLE_MEM
     | ARG_PTR_TO_WRITABLE_MEM \<Rightarrow> K_PTR_TO_WRITABLE_MEM
     | _ \<Rightarrow> K_PTR_TO_READABLE_MEM)"

text \<open>The loop over the argument registers; the list ends with the \<open>DONTCARE\<close> of the array.\<close>

fun call_args :: "string \<Rightarrow> nat \<Rightarrow> arg_type list \<Rightarrow> asm_call \<Rightarrow> asm_call asm_res" where
  "call_args name i (a # rest) res =
     (if i \<ge> 6 then Inr res
      else if a = ARG_UNSUPPORTED then Inl (Raised (''Unsupported function: '' @ name))
      else if a = ARG_DONTCARE then Inr res
      else if a \<in> {ARG_CONST_SIZE, ARG_CONST_SIZE_OR_ZERO} then call_args name (i + 1) rest res
      else if a \<in> {ARG_PTR_TO_READABLE_MEM_OR_NULL, ARG_PTR_TO_READABLE_MEM, ARG_PTR_TO_WRITABLE_MEM} then
        (case rest of
           b # rest' \<Rightarrow> call_args name (i + 2) rest' (res\<lparr>ca_pairs := ca_pairs res @
             [\<lparr>ap_kind = toArgPairKind a, ap_mem = of_nat i, ap_size = of_nat (i + 1), ap_can_be_zero = (b = ARG_CONST_SIZE_OR_ZERO)\<rparr>]\<rparr>)
         | [] \<Rightarrow> Inr res)
      else call_args name (i + 1) rest (res\<lparr>ca_singles := ca_singles res @ [(toArgSingleKind a, of_nat i)]\<rparr>))"
| "call_args name i [] res = Inr res"

definition makeCall :: "platform \<Rightarrow> 32 word \<Rightarrow> asm_call asm_res" where
  "makeCall platform imm =
     asm_bind (pl_get_helper_prototype platform imm) (\<lambda>proto.
       if hp_return_type proto = RET_UNSUPPORTED then Inl (Raised (''Unsupported function: '' @ hp_name proto))
       else call_args (hp_name proto) 1 (take 5 (hp_argument_type proto) @ [ARG_DONTCARE])
         \<lparr>ca_func = imm, ca_name = hp_name proto, ca_is_map_lookup = (hp_return_type proto = RET_PTR_TO_MAP_VALUE_OR_NULL),
          ca_reallocate_packet = hp_reallocate_packet proto, ca_singles = [], ca_pairs = []\<rparr>)"

definition makeJmp :: "platform \<Rightarrow> ebpf_inst \<Rightarrow> ebpf_inst list \<Rightarrow> 16 word \<Rightarrow> instruction asm_res" where
  "makeJmp platform inst insts pc =
     (let op = drop_bit 4 (in_opcode inst) AND 0xF; is_jmp = (in_opcode inst AND INST_CLS_MASK = INST_CLS_JMP) in
      if op = 0x8 then
        (if in_opcode inst AND INST_SRC_REG \<noteq> 0 then Inl (InvalidInstruction (unat pc) ''Bad instruction'')
         else if \<not> pl_is_helper_usable platform (in_imm inst) then Inl (InvalidInstruction (unat pc) ''invalid helper function id'')
         else asm_bind (makeCall platform (in_imm inst)) (\<lambda>c. Inr (Call c)))
      else if op = 0x9 then
        (if \<not> is_jmp then Inl (InvalidInstruction (unat pc) ''Bad instruction'') else Inr Exit)
      else if op = 0x0 \<and> \<not> is_jmp then Inl (InvalidInstruction (unat pc) ''Bad instruction'')
      else
        (let new_pc = pc + 1 + in_offset inst in
         if unat new_pc \<ge> length insts then Inl (InvalidInstruction (unat pc) ''jump out of bounds'')
         else if in_opcode (insts ! unat new_pc) = 0 then Inl (InvalidInstruction (unat pc) ''jump to middle of lddw'')
         else if in_opcode inst = INST_OP_JA then Inr (Jmp None (int (unat new_pc)))
         else asm_bind (getJmpOp (unat pc) (in_opcode inst)) (\<lambda>o'.
           Inr (Jmp (Some \<lparr>co_op = o', co_left = ucast (in_dst inst),
               co_right = (if in_opcode inst AND INST_SRC_REG \<noteq> 0 then Reg (ucast (in_src inst)) else Imm (sign_extend (in_imm inst))),
               co_is64 = is_jmp\<rparr>) (int (unat new_pc))))))"

text \<open>One step of the loop: the instruction, and whether it takes two slots.\<close>

definition unmarshal_at :: "platform \<Rightarrow> ebpf_inst list \<Rightarrow> nat \<Rightarrow> (instruction \<times> bool) asm_res" where
  "unmarshal_at platform insts pc =
     (let inst = insts ! pc; cls = in_opcode inst AND INST_CLS_MASK in
      if in_opcode inst = INST_OP_LDDW_IMM then
        (let next_imm = (if pc < length insts - 1 then in_imm (insts ! (pc + 1)) else 0) in
         asm_bind (makeLddw inst next_imm insts (pc_t pc)) (\<lambda>i. Inr (i, True)))
      else if cls \<in> {INST_CLS_LD, INST_CLS_LDX, INST_CLS_ST, INST_CLS_STX} then asm_bind (makeMemOp (pc_t pc) inst) (\<lambda>i. Inr (i, False))
      else if cls \<in> {INST_CLS_ALU, INST_CLS_ALU64} then asm_bind (makeAluOp pc inst) (\<lambda>i. Inr (i, False))
      else asm_bind (makeJmp platform inst insts (of_nat pc)) (\<lambda>i. Inr (i, False)))"

function unmarshal_from :: "platform \<Rightarrow> ebpf_inst list \<Rightarrow> 'l list \<Rightarrow> nat \<Rightarrow> (int \<times> instruction \<times> 'l option) list asm_res" where
  "unmarshal_from platform insts line_info pc =
     (if pc < length insts then
        asm_bind (unmarshal_at platform insts pc) (\<lambda>(ins, lddw).
          asm_bind (unmarshal_from platform insts line_info (pc + (if lddw then 2 else 1))) (\<lambda>prog.
            Inr ((int pc, ins, if pc < length line_info then Some (line_info ! pc) else None) # prog)))
      else Inr [])"
  by pat_completeness auto

termination
  by (relation "measure (\<lambda>(p, insts, li, pc). length insts - pc)") auto

declare unmarshal_from.simps [simp del]

definition unmarshal_seq :: "platform \<Rightarrow> ebpf_inst list \<Rightarrow> 'l list \<Rightarrow> (int \<times> instruction \<times> 'l option) list asm_res" where
  "unmarshal_seq platform insts line_info =
     (if insts = [] then Inl (Raised ''Zero length programs are not allowed'') else unmarshal_from platform insts line_info 0)"

text \<open>The program or the message of the exception that is caught; \<open>Inl\<close> is an exception that leaves the function.\<close>

datatype 'l unmarshalled = Program "(int \<times> instruction \<times> 'l option) list" | Message nat string

definition unmarshal :: "platform \<Rightarrow> ebpf_inst list \<Rightarrow> 'l list \<Rightarrow> asm_error + 'l unmarshalled" where
  "unmarshal platform insts line_info = (case unmarshal_seq platform insts line_info of
       Inl (InvalidInstruction pc what) \<Rightarrow> Inr (Message pc what)
     | Inl (Raised what) \<Rightarrow> Inl (Raised what)
     | Inr prog \<Rightarrow> Inr (Program prog))"

subsection \<open>Marshalling\<close>

definition cond_code :: "cond_op \<Rightarrow> 8 word" where
  "cond_code c = (case c of EQ \<Rightarrow> 0x1 | GT \<Rightarrow> 0x2 | GE \<Rightarrow> 0x3 | SET \<Rightarrow> 0x4 | NSET \<Rightarrow> 0x5 | NE \<Rightarrow> 0x5
     | SGT \<Rightarrow> 0x6 | SGE \<Rightarrow> 0x7 | LT \<Rightarrow> 0xa | LE \<Rightarrow> 0xb | SLT \<Rightarrow> 0xc | SLE \<Rightarrow> 0xd)"

definition bin_code :: "bin_op \<Rightarrow> 8 word" where
  "bin_code b = (case b of ADD \<Rightarrow> 0x0 | SUB \<Rightarrow> 0x1 | MUL \<Rightarrow> 0x2 | UDIV \<Rightarrow> 0x3 | BOR \<Rightarrow> 0x4 | BAND \<Rightarrow> 0x5
     | LSH \<Rightarrow> 0x6 | RSH \<Rightarrow> 0x7 | UMOD \<Rightarrow> 0x9 | BXOR \<Rightarrow> 0xa | MOV \<Rightarrow> 0xb | ARSH \<Rightarrow> 0xc)"

definition un_imm :: "un_op \<Rightarrow> 8 word" where
  "un_imm u = (case u of NEG \<Rightarrow> 0 | BE16 \<Rightarrow> 16 | LE16 \<Rightarrow> 16 | BE32 \<Rightarrow> 32 | LE32 \<Rightarrow> 32 | BE64 \<Rightarrow> 64 | LE64 \<Rightarrow> 64)"

definition marshal_lddw :: "8 word \<Rightarrow> bool \<Rightarrow> 32 word \<Rightarrow> 32 word \<Rightarrow> ebpf_inst list" where
  "marshal_lddw dst isFd imm next_imm =
     [\<lparr>in_opcode = INST_CLS_LD OR width_to_opcode 8, in_dst = ucast dst, in_src = (if isFd then 1 else 0), in_offset = 0, in_imm = imm\<rparr>,
      \<lparr>in_opcode = 0, in_dst = 0, in_src = 0, in_offset = 0, in_imm = next_imm\<rparr>]"

definition marshal_bin :: "bin_op \<Rightarrow> 8 word \<Rightarrow> asm_value \<Rightarrow> bool \<Rightarrow> bool \<Rightarrow> ebpf_inst list asm_res" where
  "marshal_bin bop dst v is64 lddw =
     (if lddw then
        (case v of
           Imm i \<Rightarrow> (case split i of (imm, next_imm) \<Rightarrow> Inr (marshal_lddw dst False imm next_imm))
         | Reg _ \<Rightarrow> Inl (Raised ''bad_variant_access''))
      else
        (let res = \<lparr>in_opcode = (if is64 then INST_CLS_ALU64 else INST_CLS_ALU) OR push_bit 4 (bin_code bop),
                    in_dst = ucast dst, in_src = 0, in_offset = 0, in_imm = 0\<rparr> in
         Inr [case v of
             Reg r \<Rightarrow> res\<lparr>in_opcode := in_opcode res OR INST_SRC_REG, in_src := ucast r\<rparr>
           | Imm i \<Rightarrow> res\<lparr>in_imm := ucast i\<rparr>]))"

definition marshal_un :: "un_op \<Rightarrow> 8 word \<Rightarrow> ebpf_inst list" where
  "marshal_un u dst =
     [\<lparr>in_opcode =
         (if u = NEG then INST_CLS_ALU OR 0x3 OR push_bit 4 0x8
          else if u \<in> {LE16, LE32, LE64} then INST_CLS_ALU OR push_bit 4 0xd
          else INST_CLS_ALU OR 0x8 OR push_bit 4 0xd),
       in_dst = ucast dst, in_src = 0, in_offset = 0, in_imm = ucast (un_imm u)\<rparr>]"

text \<open>\<open>label_to_offset\<close> narrows the distance to 16 bits.\<close>

definition label_to_offset :: "16 word \<Rightarrow> int \<Rightarrow> 16 word" where
  "label_to_offset pc label = word_of_int (label - uint pc - 1)"

definition marshal_jmp :: "16 word \<Rightarrow> condition option \<Rightarrow> int \<Rightarrow> ebpf_inst list" where
  "marshal_jmp pc cond target = (case cond of
       Some c \<Rightarrow>
         (let res = \<lparr>in_opcode = INST_CLS_JMP OR push_bit 4 (cond_code (co_op c)), in_dst = ucast (co_left c), in_src = 0,
                     in_offset = label_to_offset pc target, in_imm = 0\<rparr> in
          [case co_right c of
             Reg r \<Rightarrow> res\<lparr>in_opcode := in_opcode res OR INST_SRC_REG, in_src := ucast r\<rparr>
           | Imm i \<Rightarrow> res\<lparr>in_imm := ucast i\<rparr>])
     | None \<Rightarrow> [\<lparr>in_opcode = INST_OP_JA, in_dst = 0, in_src = 0, in_offset = label_to_offset pc target, in_imm = 0\<rparr>])"

definition marshal_mem :: "deref \<Rightarrow> asm_value \<Rightarrow> bool \<Rightarrow> ebpf_inst list asm_res" where
  "marshal_mem access v is_load =
     (let res = \<lparr>in_opcode = push_bit 5 3 OR width_to_opcode (de_width access), in_dst = 0, in_src = 0,
                 in_offset = ucast (de_offset access), in_imm = 0\<rparr> in
      if is_load then
        (case v of
           Imm _ \<Rightarrow> Inl (Raised ''LD IMM: '')
         | Reg r \<Rightarrow> Inr [res\<lparr>in_opcode := in_opcode res OR (INST_CLS_LD OR 0x1), in_dst := ucast r, in_src := ucast (de_basereg access)\<rparr>])
      else
        (let res' = res\<lparr>in_opcode := in_opcode res OR INST_CLS_ST, in_dst := ucast (de_basereg access)\<rparr> in
         Inr [case v of
             Reg r \<Rightarrow> res'\<lparr>in_opcode := in_opcode res' OR 0x1, in_src := ucast r\<rparr>
           | Imm i \<Rightarrow> res'\<lparr>in_imm := ucast i\<rparr>]))"

definition marshal_packet :: "int \<Rightarrow> 32 word \<Rightarrow> 8 word option \<Rightarrow> ebpf_inst list" where
  "marshal_packet w offset regoffset =
     (let res = \<lparr>in_opcode = INST_CLS_LD OR width_to_opcode w, in_dst = 0, in_src = 0, in_offset = 0, in_imm = offset\<rparr> in
      [case regoffset of
         Some r \<Rightarrow> res\<lparr>in_opcode := in_opcode res OR push_bit 5 2, in_src := ucast r\<rparr>
       | None \<Rightarrow> res\<lparr>in_opcode := in_opcode res OR push_bit 5 1\<rparr>])"

definition marshal_lock_add :: "deref \<Rightarrow> 8 word \<Rightarrow> ebpf_inst list" where
  "marshal_lock_add access valreg =
     [\<lparr>in_opcode = INST_CLS_ST OR 0x1 OR push_bit 5 6 OR width_to_opcode (de_width access),
       in_dst = ucast (de_basereg access), in_src = ucast valreg, in_offset = ucast (de_offset access), in_imm = 0\<rparr>]"

definition marshal_ins :: "instruction \<Rightarrow> 16 word \<Rightarrow> ebpf_inst list asm_res" where
  "marshal_ins ins pc = (case ins of
       Undefined _ \<Rightarrow> Inr []
     | LoadMapFd dst mapfd \<Rightarrow> Inr (marshal_lddw dst True mapfd 0)
     | Bin bop dst v is64 lddw \<Rightarrow> marshal_bin bop dst v is64 lddw
     | Un_asm u dst _ \<Rightarrow> Inr (marshal_un u dst)
     | Call c \<Rightarrow> Inr [\<lparr>in_opcode = INST_OP_CALL, in_dst = 0, in_src = 0, in_offset = 0, in_imm = ca_func c\<rparr>]
     | Exit \<Rightarrow> Inr [\<lparr>in_opcode = INST_OP_EXIT, in_dst = 0, in_src = 0, in_offset = 0, in_imm = 0\<rparr>]
     | Assume _ \<Rightarrow> Inl (Raised ''Cannot marshal assumptions'')
     | Assert _ \<Rightarrow> Inl (Raised ''Cannot marshal assertions'')
     | Jmp cond target \<Rightarrow> Inr (marshal_jmp pc cond target)
     | Mem access v is_load \<Rightarrow> marshal_mem access v is_load
     | Packet w offset regoffset \<Rightarrow> Inr (marshal_packet w offset regoffset)
     | LockAdd access valreg \<Rightarrow> Inr (marshal_lock_add access valreg))"

fun ins_size :: "instruction \<Rightarrow> nat" where
  "ins_size (Bin _ _ _ _ True) = 2"
| "ins_size (LoadMapFd _ _) = 2"
| "ins_size _ = 1"

fun get_labels_from :: "16 word \<Rightarrow> (int \<times> instruction \<times> 'l) list \<Rightarrow> (int \<rightharpoonup> 16 word) \<Rightarrow> int \<rightharpoonup> 16 word" where
  "get_labels_from pc [] pc_of_label = pc_of_label"
| "get_labels_from pc ((label, inst, _) # insts) pc_of_label =
     get_labels_from (pc + of_nat (ins_size inst)) insts (pc_of_label(label \<mapsto> pc))"

definition get_labels :: "(int \<times> instruction \<times> 'l) list \<Rightarrow> int \<rightharpoonup> 16 word" where
  "get_labels insts = get_labels_from 0 insts Map.empty"

fun resolve_target :: "(int \<rightharpoonup> 16 word) \<Rightarrow> instruction \<Rightarrow> instruction asm_res" where
  "resolve_target pc_of_label (Jmp cond target) =
     (case pc_of_label target of None \<Rightarrow> Inl (Raised ''out_of_range'') | Some pc \<Rightarrow> Inr (Jmp cond (uint pc)))"
| "resolve_target pc_of_label ins = Inr ins"

fun marshal_from :: "(int \<rightharpoonup> 16 word) \<Rightarrow> 16 word \<Rightarrow> (int \<times> instruction \<times> 'l) list \<Rightarrow> ebpf_inst list asm_res" where
  "marshal_from pc_of_label pc [] = Inr []"
| "marshal_from pc_of_label pc ((_, ins, _) # insts) =
     asm_bind (resolve_target pc_of_label ins) (\<lambda>ins'.
     asm_bind (marshal_ins ins' pc) (\<lambda>es.
     asm_bind (marshal_from pc_of_label (pc + of_nat (length es)) insts) (\<lambda>res. Inr (es @ res))))"

definition marshal :: "(int \<times> instruction \<times> 'l) list \<Rightarrow> ebpf_inst list asm_res" where
  "marshal insts = marshal_from (get_labels insts) 0 insts"

text \<open>A list of instructions without labels: the targets of its jumps are positions already.\<close>

fun marshal_list :: "16 word \<Rightarrow> instruction list \<Rightarrow> ebpf_inst list asm_res" where
  "marshal_list pc [] = Inr []"
| "marshal_list pc (ins # insts) =
     asm_bind (marshal_ins ins pc) (\<lambda>es.
     asm_bind (marshal_list (pc + of_nat (length es)) insts) (\<lambda>res. Inr (es @ res)))"

end
