(* ===== verification/Ebpf_Typing.thy ===== *)
theory Ebpf_Typing
  imports Ebpf_Asm
begin

text \<open>
  What decoding a program guarantees: the instructions that \<open>unmarshal\<close> can return form a typed
  language (\<open>wf_ins\<close>), and its jumps lead to instructions of the program, apart from jumps into the
  second slot of a map load, which are accepted.
\<close>

unbundle bit_operations_syntax

subsection \<open>Typed instructions\<close>

definition sext_imm :: "64 word \<Rightarrow> bool" where
  "sext_imm v = (sign_extend (ucast v) = v)"

definition sext_off :: "32 word \<Rightarrow> bool" where
  "sext_off v = (scast (ucast v :: 16 word) = v)"

fun operand_ok :: "asm_value \<Rightarrow> bool" where
  "operand_ok (Reg r) = (r < 16)"
| "operand_ok (Imm v) = sext_imm v"

fun deref_ok :: "int set \<Rightarrow> deref \<Rightarrow> bool" where
  "deref_ok ws d = (de_width d \<in> ws \<and> de_basereg d \<le> 10 \<and> sext_off (de_offset d))"

fun wf_ins :: "platform \<Rightarrow> int set \<Rightarrow> instruction \<Rightarrow> bool" where
  "wf_ins p L (Bin bop d v is64 True) = (bop = MOV \<and> d \<le> 10 \<and> is64 \<and> (case v of Imm _ \<Rightarrow> True | Reg _ \<Rightarrow> False))"
| "wf_ins p L (Bin bop d v is64 False) = (d < 16 \<and> d \<noteq> 10 \<and> operand_ok v)"
| "wf_ins p L (Un_asm u d is64) = (d < 16 \<and> d \<noteq> 10 \<and> \<not> (is64 \<and> u \<in> {BE32, LE32}))"
| "wf_ins p L (LoadMapFd d fd) = (d \<le> 10)"
| "wf_ins p L (Call c) = (pl_is_helper_usable p (ca_func c) \<and> makeCall p (ca_func c) = Inr c)"
| "wf_ins p L Exit = True"
| "wf_ins p L (Jmp None t) = (t \<in> L)"
| "wf_ins p L (Jmp (Some c) t) = (t \<in> L \<and> co_op c \<noteq> NSET \<and> co_left c < 16 \<and> operand_ok (co_right c))"
| "wf_ins p L (Mem a v True) = (deref_ok {1, 2, 4, 8} a \<and> (case v of Reg r \<Rightarrow> r < 10 | Imm _ \<Rightarrow> False))"
| "wf_ins p L (Mem a v False) = (deref_ok {1, 2, 4, 8} a \<and> (case v of Reg r \<Rightarrow> r \<le> 10 | Imm i \<Rightarrow> zero_extend (ucast i) = i))"
| "wf_ins p L (Packet w off r) = (w \<in> {1, 2, 4, 8} \<and> (case r of None \<Rightarrow> True | Some r \<Rightarrow> r \<le> 10))"
| "wf_ins p L (LockAdd a r) = (deref_ok {4, 8} a \<and> r \<le> 10)"
| "wf_ins p L _ = False"

text \<open>Labels are the positions of the instructions.\<close>

fun placed :: "nat \<Rightarrow> (int \<times> instruction \<times> 'l) list \<Rightarrow> bool" where
  "placed pc [] = True"
| "placed pc ((l, ins, _) # prog) = (l = int pc \<and> placed (pc + ins_size ins) prog)"

definition prog_size :: "(int \<times> instruction \<times> 'l) list \<Rightarrow> nat" where
  "prog_size prog = sum_list (map (\<lambda>(l, ins, _). ins_size ins) prog)"

definition well_typed :: "platform \<Rightarrow> (int \<times> instruction \<times> 'l) list \<Rightarrow> bool" where
  "well_typed p prog = (placed 0 prog \<and> (\<forall>ins \<in> set (map (fst \<circ> snd) prog). wf_ins p (set (map fst prog)) ins))"

subsection \<open>Registers and immediates\<close>

lemma nibble_cases:
  fixes d :: "8 word"
  assumes "d < 16"
  obtains r :: "4 word" where "d = ucast r"
proof
  have "uint d < 16" using assms by (simp add: word_less_alt)
  then show "d = ucast (ucast d :: 4 word)" by (intro word_uint_eqI) (simp add: unsigned_ucast_eq unsigned_take_bit_eq take_bit_int_eq_self)
qed

lemma nibble_bounds [simp]:
  fixes r :: "4 word"
  shows "(ucast r :: 8 word) \<le> 10 \<longleftrightarrow> r \<le> 10" "(ucast r :: 8 word) < 16" "(ucast r :: 8 word) = 10 \<longleftrightarrow> r = 10"
    "(ucast r :: 8 word) < 10 \<longleftrightarrow> r < 10"
proof -
  have u: "uint (ucast r :: 8 word) = uint r" "uint r < 16"
    using uint_lt2p [of r] by (simp_all add: unsigned_ucast_eq take_bit_int_eq_self)
  show "(ucast r :: 8 word) \<le> 10 \<longleftrightarrow> r \<le> 10" "(ucast r :: 8 word) < 16" "(ucast r :: 8 word) < 10 \<longleftrightarrow> r < 10"
    using u by (simp_all add: word_le_def word_less_alt)
  show "(ucast r :: 8 word) = 10 \<longleftrightarrow> r = 10" using u by (simp add: word_uint_eq_iff)
qed

lemma nibble_back [simp]: "ucast (ucast (r :: 4 word) :: 8 word) = r"
  by (rule bit_word_eqI) (auto simp: bit_simps)

lemma sext_imm_sign [simp]: "sext_imm (sign_extend i)"
  unfolding sext_imm_def sign_extend_def by (rule bit_word_eqI) (auto simp: bit_simps)

lemma sext_off_scast [simp]: "sext_off (scast (i :: 16 word))"
  unfolding sext_off_def by (rule bit_word_eqI) (auto simp: bit_simps)

lemma zext_back [simp]: "ucast (zero_extend i) = i"
  unfolding zero_extend_def by (rule bit_word_eqI) (auto simp: bit_simps)

lemma merge_split: "split v = (a, b) \<Longrightarrow> merge a b = v"
  unfolding split_def merge_def prod.inject
  by (elim conjE, hypsubst, rule bit_word_eqI) (auto simp: bit_simps not_less)

lemma mem_width: "getMemWidth oc \<in> {1, 2, 4, 8}"
proof -
  have "oc AND 0x18 = (if bit oc 3 then 8 else 0) OR (if bit oc 4 then 0x10 else 0)"
    by (rule bit_word_eqI) (auto simp: bit_simps less_Suc_eq numeral_eq_Suc)
  then show ?thesis by (auto simp: getMemWidth_def Let_def)
qed

subsection \<open>What decoding returns is typed\<close>

lemma asm_bind_Inr [simp]: "asm_bind r f = Inr y \<longleftrightarrow> (\<exists>x. r = Inr x \<and> f x = Inr y)"
  by (cases r) (auto simp: asm_bind_def)

lemma asm_bind_step [simp]: "asm_bind (Inr x) f = f x" "asm_bind (Inl e) f = Inl e"
  by (simp_all add: asm_bind_def)

lemma call_args_func: "call_args name i as c = Inr c' \<Longrightarrow> ca_func c' = ca_func c"
proof (induction name i as c rule: call_args.induct)
  case (1 name i a rest res)
  from 1(4) show ?case
    by (simp only: call_args.simps split: if_splits list.splits) (simp_all add: 1(1-3))
qed simp

lemma makeCall_func: "makeCall p imm = Inr c \<Longrightarrow> ca_func c = imm"
  by (auto simp: makeCall_def split: if_splits dest: call_args_func)

lemma decode_mem: "makeMemOp pc inst = Inr ins \<Longrightarrow> wf_ins p L ins \<and> ins_size ins = 1"
  using mem_width [of "in_opcode inst"]
  by (auto simp: makeMemOp_def Let_def not_less less_le getMemWidth_def split: if_splits)

lemma getBinValue_ok: "getBinValue pc inst = Inr v \<Longrightarrow> operand_ok v"
  by (auto simp: getBinValue_def split: if_splits)

lemma getAluOp_32: "getAluOp pc inst = Inr (Un_Op u) \<Longrightarrow> u \<in> {BE32, LE32} \<Longrightarrow> in_opcode inst AND 7 \<noteq> 7"
  by (auto simp: getAluOp_def Let_def split: if_splits)

lemma decode_alu: "makeAluOp pc inst = Inr ins \<Longrightarrow> wf_ins p L ins \<and> ins_size ins = 1"
proof -
  assume a: "makeAluOp pc inst = Inr ins"
  then obtain op where op: "getAluOp pc inst = Inr op" by (auto simp: makeAluOp_def Let_def split: if_splits)
  show ?thesis
  proof (cases op)
    case (Bin_Op b)
    then show ?thesis using a op by (auto simp: makeAluOp_def Let_def split: if_splits dest: getBinValue_ok)
  next
    case (Un_Op u)
    then show ?thesis using a op getAluOp_32 [of pc inst u] by (auto simp: makeAluOp_def Let_def split: if_splits)
  qed
qed

lemma decode_lddw:
  assumes "makeLddw inst nx insts pc = Inr ins" and "insts \<noteq> []"
  shows "wf_ins p L ins \<and> ins_size ins = 2 \<and> pc + 1 < length insts \<and> (in_src inst = 1 \<or> in_opcode (insts ! (pc + 1)) = 0)"
  using assms by (auto simp: makeLddw_def Let_def not_less split: if_splits)

text \<open>The targets that \<open>makeJmp\<close> accepts.\<close>

definition targets :: "ebpf_inst list \<Rightarrow> int set" where
  "targets insts = {t. 0 \<le> t \<and> nat t < length insts \<and> in_opcode (insts ! nat t) \<noteq> 0}"

lemma getJmpOp_op: "getJmpOp pc oc = Inr c \<Longrightarrow> c \<noteq> NSET"
  by (auto simp: getJmpOp_def Let_def split: if_splits)

lemma decode_jmp: "makeJmp p inst insts pc = Inr ins \<Longrightarrow> wf_ins p (targets insts) ins \<and> ins_size ins = 1"
  by (auto simp: makeJmp_def Let_def targets_def not_le dest: getJmpOp_op split: if_splits; frule makeCall_func; simp)

lemma decode_at:
  assumes "unmarshal_at p insts pc = Inr (ins, lddw)" and "pc < length insts" and "length insts \<le> 65536"
  shows "wf_ins p (targets insts) ins" and "ins_size ins = (if lddw then 2 else 1)"
    and "lddw \<Longrightarrow> pc + 1 < length insts \<and> in_opcode (insts ! pc) = 0x18 \<and> (in_src (insts ! pc) = 1 \<or> in_opcode (insts ! (pc + 1)) = 0)"
proof -
  have pc: "pc_t pc = pc" using assms(2,3) by (simp add: pc_t_def unsigned_of_nat take_bit_nat_eq_self)
  have ne: "insts \<noteq> []" using assms(2) by auto
  have "wf_ins p (targets insts) ins \<and> ins_size ins = (if lddw then 2 else 1) \<and> (\<not> lddw \<or>
    pc + 1 < length insts \<and> in_opcode (insts ! pc) = 0x18 \<and> (in_src (insts ! pc) = 1 \<or> in_opcode (insts ! (pc + 1)) = 0))"
  proof (cases "in_opcode (insts ! pc) = 0x18")
    case True
    then obtain nx where "makeLddw (insts ! pc) nx insts pc = Inr ins" "lddw"
      using assms(1) by (auto simp: unmarshal_at_def Let_def pc)
    then show ?thesis using decode_lddw [OF _ ne] True by simp
  next
    case False
    then have "makeMemOp pc (insts ! pc) = Inr ins \<or> makeAluOp pc (insts ! pc) = Inr ins \<or> makeJmp p (insts ! pc) insts (of_nat pc) = Inr ins"
      and "\<not> lddw" using assms(1) unfolding unmarshal_at_def Let_def pc by (simp_all split: if_splits)
    then show ?thesis 
      using decode_mem [of pc "insts ! pc" ins p "targets insts"] decode_alu [of pc "insts ! pc" ins p "targets insts"]
        decode_jmp [of p "insts ! pc" insts "of_nat pc" ins] by simp argo
  qed
  then show "wf_ins p (targets insts) ins" "ins_size ins = (if lddw then 2 else 1)"
    "lddw \<Longrightarrow> pc + 1 < length insts \<and> in_opcode (insts ! pc) = 0x18 \<and> (in_src (insts ! pc) = 1 \<or> in_opcode (insts ! (pc + 1)) = 0)"
    by simp_all
qed

lemma wf_ins_mono: "wf_ins p L ins \<Longrightarrow> L \<subseteq> L' \<Longrightarrow> wf_ins p L' ins"
  by (cases "(p, L, ins)" rule: wf_ins.cases) auto

text \<open>
  The second slot of a load of a map descriptor, which \<open>makeLddw\<close> does not look at, is empty.
\<close>

definition map_slots_empty :: "ebpf_inst list \<Rightarrow> bool" where
  "map_slots_empty insts = (\<forall>pc \<in> {..<length insts - 1}.
     in_opcode (insts ! pc) = 0x18 \<and> in_src (insts ! pc) = 1 \<longrightarrow> in_opcode (insts ! (pc + 1)) = 0)"

lemma targets_at: "pc < length insts \<Longrightarrow> {t \<in> targets insts. pc \<le> nat t} \<subseteq> insert (int pc) {t \<in> targets insts. pc + 1 \<le> nat t}"
  by (auto simp: targets_def)

lemma targets_skip: "in_opcode (insts ! pc) = 0 \<Longrightarrow> {t \<in> targets insts. pc \<le> nat t} = {t \<in> targets insts. pc + 1 \<le> nat t}"
  by (auto simp: targets_def Suc_le_eq order.order_iff_strict)

text \<open>Without that, the instructions are still placed and typed, but a jump may lead to a slot that no instruction has.\<close>

lemma unmarshal_from_placed:
  assumes "unmarshal_from p insts li pc = Inr prog" and "pc \<le> length insts" and "length insts \<le> 65536"
  shows "placed pc prog \<and> (\<forall>e \<in> set prog. wf_ins p (targets insts) (fst (snd e)))"
  using assms
proof (induction p insts li pc arbitrary: prog rule: unmarshal_from.induct)
  case (1 p insts li pc)
  show ?case
  proof (cases "pc < length insts")
    case False
    then have "prog = []" using 1(2) by (subst (asm) unmarshal_from.simps) simp
    then show ?thesis by simp
  next
    case True
    from 1(2) True obtain ins lddw rest where at: "unmarshal_at p insts pc = Inr (ins, lddw)"
      and rest: "unmarshal_from p insts li (pc + (if lddw then 2 else 1)) = Inr rest"
      and prog: "prog = (int pc, ins, if pc < length li then Some (li ! pc) else None) # rest"
      by (subst (asm) unmarshal_from.simps) (auto split: prod.splits)
    note d = decode_at [OF at True 1(4)]
    have "pc + (if lddw then 2 else 1) \<le> length insts" using d(3) True by auto
    then show ?thesis using 1(1) [OF True rest _ 1(4)] d(1,2) by (simp add: prog)
  qed
qed

lemma unmarshal_from_typed:
  assumes "unmarshal_from p insts li pc = Inr prog" and "pc \<le> length insts" and "length insts \<le> 65536" and "map_slots_empty insts"
  shows "placed pc prog \<and> (\<forall>e \<in> set prog. wf_ins p (targets insts) (fst (snd e))) \<and>
    {t \<in> targets insts. pc \<le> nat t} \<subseteq> fst ` set prog \<and> pc + prog_size prog = length insts"
  using assms
proof (induction p insts li pc arbitrary: prog rule: unmarshal_from.induct)
  case (1 p insts li pc)
  show ?case
  proof (cases "pc < length insts")
    case False
    then have "prog = []" using 1(2) by (subst (asm) unmarshal_from.simps) simp
    then show ?thesis using 1(3) False by (auto simp: prog_size_def targets_def)
  next
    case True
    from 1(2) True obtain ins lddw rest where at: "unmarshal_at p insts pc = Inr (ins, lddw)"
      and rest: "unmarshal_from p insts li (pc + (if lddw then 2 else 1)) = Inr rest"
      and prog: "prog = (int pc, ins, if pc < length li then Some (li ! pc) else None) # rest"
      by (subst (asm) unmarshal_from.simps) (auto split: prod.splits)
    note d = decode_at [OF at True 1(4)]
    have le: "pc + (if lddw then 2 else 1) \<le> length insts" using d(3) True by auto
    have IH: "placed (pc + (if lddw then 2 else 1)) rest \<and> (\<forall>e \<in> set rest. wf_ins p (targets insts) (fst (snd e))) \<and>
        {t \<in> targets insts. pc + (if lddw then 2 else 1) \<le> nat t} \<subseteq> fst ` set rest \<and> pc + (if lddw then 2 else 1) + prog_size rest = length insts"
      using 1(1) [OF True rest le 1(4,5)] .
    have "{t \<in> targets insts. pc + 1 \<le> nat t} \<subseteq> fst ` set rest"
    proof (cases lddw)
      case True
      then have "in_opcode (insts ! (pc + 1)) = 0" using d(3) 1(5) by (auto simp: map_slots_empty_def)
      then show ?thesis using IH True targets_skip [of insts "pc + 1"] by simp
    qed (use IH in simp)
    then have "{t \<in> targets insts. pc \<le> nat t} \<subseteq> fst ` set prog" using targets_at [OF True] by (auto simp: prog)
    then show ?thesis using IH d(1,2) by (auto simp: prog prog_size_def)
  qed
qed

text \<open>
  C22: decoding types the program. When \<open>unmarshal\<close> accepts a program of at most 65536 slots, the
  result is not empty, covers all slots, labels each instruction with its position, and every
  instruction is typed: registers and widths are in range, immediates are extensions of the encoded
  ones, calls are to usable helpers with the arguments of their prototypes, and each jump leads to
  the label of an instruction. For that the second slot of a load of a map descriptor is empty.
\<close>

theorem unmarshal_well_typed:
  assumes "unmarshal p insts li = Inr (Program prog)" and "length insts \<le> 65536" and "map_slots_empty insts"
  shows "well_typed p prog \<and> prog \<noteq> [] \<and> prog_size prog = length insts"
proof -
  have u: "unmarshal_from p insts li 0 = Inr prog" "insts \<noteq> []"
    using assms(1) by (auto simp: unmarshal_def unmarshal_seq_def split: sum.splits asm_error.splits if_splits)
  note t = unmarshal_from_typed [OF u(1) _ assms(2,3)]
  have "wf_ins p (fst ` set prog) (fst (snd e))" if "e \<in> set prog" for e
    using t that by (auto intro: wf_ins_mono)
  then show ?thesis using t u(2) by (auto simp: well_typed_def prog_size_def)
qed

abbreviation (input) slot :: "8 word \<Rightarrow> 4 word \<Rightarrow> 4 word \<Rightarrow> 16 word \<Rightarrow> 32 word \<Rightarrow> ebpf_inst" where
  "slot oc d s off imm \<equiv> \<lparr>in_opcode = oc, in_dst = d, in_src = s, in_offset = off, in_imm = imm\<rparr>"

definition no_helpers :: platform where
  "no_helpers = \<lparr>pl_get_helper_prototype = (\<lambda>n. Inl (Raised ''no helper'')), pl_is_helper_usable = (\<lambda>n. False)\<rparr>"

lemmas unmarshal_eval = unmarshal_def unmarshal_seq_def unmarshal_from.simps unmarshal_at_def makeLddw_def makeJmp_def makeAluOp_def
  getAluOp_def getBinValue_def getJmpOp_def pc_t_def sign_extend_def no_helpers_def asm_bind_def

definition loop_prog :: "ebpf_inst list" where
  "loop_prog = [slot 0xb7 0 0 0 5, slot 0x07 0 0 0 1, slot 0xa5 0 0 (-2) 9, slot 0x95 0 0 0 0]"

lemma loop_prog_decodes:
  "unmarshal no_helpers loop_prog ([] :: unit list) = Inr (Program
     [(0, Bin MOV 0 (Imm 5) True False, None), (1, Bin ADD 0 (Imm 1) True False, None),
      (2, Jmp (Some \<lparr>co_op = LT, co_left = 0, co_right = Imm 9, co_is64 = True\<rparr>) 1, None), (3, Exit, None)])"
  by (simp add: unmarshal_eval loop_prog_def)

theorem unmarshal_well_typed_witness:
  "well_typed no_helpers
     [(0, Bin MOV 0 (Imm 5) True False, None :: unit option), (1, Bin ADD 0 (Imm 1) True False, None),
      (2, Jmp (Some \<lparr>co_op = LT, co_left = 0, co_right = Imm 9, co_is64 = True\<rparr>) 1, None), (3, Exit, None)]"
proof -
  have "map_slots_empty loop_prog" by (auto simp: map_slots_empty_def loop_prog_def less_Suc_eq)
  then show ?thesis using unmarshal_well_typed [OF loop_prog_decodes] by (simp add: loop_prog_def)
qed

end
