(* ===== verification/Asm_Cfg.thy ===== *)
theory Asm_Cfg
  imports Ebpf_Typing
begin

text \<open>
  The control-flow graph of a program (\<open>ebpf-verifier/src/asm_cfg.cpp\<close> and \<open>crab/cfg.hpp\<close>): from the
  decoded instructions to one block per instruction, and from there to the nondeterministic graph,
  in which a conditional jump leads to two blocks that assume its condition or the opposite. The
  \<open>std::map\<close> of blocks is a list in the order of labels; a reference to a block is its label. The
  assertions that are added in between are in \<open>Asm_Assert\<close>; the merging of chains of blocks, which
  bpftime switches off, is not modelled.
\<close>

subsection \<open>Labels and blocks\<close>

datatype label = Label (label_from: int) (label_to: int)

definition label_entry :: label where "label_entry = Label (-1) (-1)"
definition label_exit :: label where "label_exit = Label (-2) (-1)"

definition make_jump :: "label \<Rightarrow> label \<Rightarrow> label" where
  "make_jump src_label target_label = Label (label_from src_label) (label_from target_label)"

instantiation label :: linorder
begin

definition less_label :: "label \<Rightarrow> label \<Rightarrow> bool" where
  "less_label a b =
     (if a = label_exit then False else if b = label_exit then True
      else label_from a < label_from b \<or> label_from a = label_from b \<and> label_to a < label_to b)"

definition less_eq_label :: "label \<Rightarrow> label \<Rightarrow> bool" where
  "less_eq_label a b = (a = b \<or> a < b)"

instance
proof
  fix x y z :: label
  show "(x < y) = (x \<le> y \<and> \<not> y \<le> x)" by (auto simp: less_eq_label_def less_label_def)
  show "x \<le> x" by (simp add: less_eq_label_def)
  show "x \<le> y \<Longrightarrow> y \<le> z \<Longrightarrow> x \<le> z" by (auto simp: less_eq_label_def less_label_def split: if_splits)
  show "x \<le> y \<Longrightarrow> y \<le> x \<Longrightarrow> x = y" by (cases x; cases y) (auto simp: less_eq_label_def less_label_def label_exit_def split: if_splits)
  show "x \<le> y \<or> y \<le> x" by (cases x; cases y) (auto simp: less_eq_label_def less_label_def label_exit_def)
qed

end

record basic_block =
  bb_ts :: "instruction list"
  bb_prev :: "label set"
  bb_next :: "label set"

type_synonym cfg = "(label \<times> basic_block) list"

definition bb_new :: basic_block where
  "bb_new = \<lparr>bb_ts = [], bb_prev = {}, bb_next = {}\<rparr>"

text \<open>Storing a block under its label, in the order of the map.\<close>

fun cfg_put :: "label \<Rightarrow> basic_block \<Rightarrow> cfg \<Rightarrow> cfg" where
  "cfg_put l b [] = [(l, b)]"
| "cfg_put l b ((k, x) # c) = (if l = k then (l, b) # c else if l < k then (l, b) # (k, x) # c else (k, x) # cfg_put l b c)"

definition cfg_new :: cfg where
  "cfg_new = cfg_put label_exit bb_new (cfg_put label_entry bb_new [])"

definition get_node :: "label \<Rightarrow> cfg \<Rightarrow> basic_block asm_res" where
  "get_node l c = (case map_of c l of None \<Rightarrow> Inl (Raised ''Basic block not found in the CFG'') | Some b \<Rightarrow> Inr b)"

definition cfg_insert :: "label \<Rightarrow> cfg \<Rightarrow> cfg" where
  "cfg_insert l c = (case map_of c l of None \<Rightarrow> cfg_put l bb_new c | Some _ \<Rightarrow> c)"

definition on_block :: "label \<Rightarrow> (basic_block \<Rightarrow> basic_block) \<Rightarrow> cfg \<Rightarrow> cfg" where
  "on_block l f c = (case map_of c l of None \<Rightarrow> c | Some b \<Rightarrow> cfg_put l (f b) c)"

definition bb_insert :: "label \<Rightarrow> instruction \<Rightarrow> cfg \<Rightarrow> cfg" where
  "bb_insert l ins = on_block l (\<lambda>b. b\<lparr>bb_ts := bb_ts b @ [ins]\<rparr>)"

definition bb_link :: "label \<Rightarrow> label \<Rightarrow> cfg \<Rightarrow> cfg" where
  "bb_link l k c = on_block k (\<lambda>b. b\<lparr>bb_prev := insert l (bb_prev b)\<rparr>) (on_block l (\<lambda>b. b\<lparr>bb_next := insert k (bb_next b)\<rparr>) c)"

subsection \<open>The graph of a program\<close>

fun get_jump :: "instruction \<Rightarrow> label option" where
  "get_jump (Jmp _ target) = Some (Label target (-1))"
| "get_jump _ = None"

fun has_fall :: "instruction \<Rightarrow> bool" where
  "has_fall Exit = False"
| "has_fall (Jmp None _) = False"
| "has_fall _ = True"

fun is_undefined :: "instruction \<Rightarrow> bool" where
  "is_undefined (Undefined _) = True"
| "is_undefined _ = False"

text \<open>The loop, with its variables \<open>first\<close> and \<open>falling_from\<close>.\<close>

fun seq_to_cfg :: "bool \<Rightarrow> label option \<Rightarrow> (int \<times> instruction \<times> 'l) list \<Rightarrow> cfg \<Rightarrow> (label option \<times> cfg) asm_res" where
  "seq_to_cfg first falling_from [] c = Inr (falling_from, c)"
| "seq_to_cfg first falling_from ((l, inst, _) # insts) c =
     (if is_undefined inst then seq_to_cfg first falling_from insts c
      else
        (let bb = Label l (-1); c1 = cfg_insert bb c in
         asm_bind (if first then asm_bind (get_node label_entry c1) (\<lambda>_. Inr (bb_link label_entry bb c1)) else Inr c1) (\<lambda>c2.
         let c3 = bb_insert bb inst c2 in
         asm_bind (case falling_from of None \<Rightarrow> Inr c3 | Some f \<Rightarrow> asm_bind (get_node f c3) (\<lambda>_. Inr (bb_link f bb c3))) (\<lambda>c4.
         let c5 = (case get_jump inst of None \<Rightarrow> c4 | Some t \<Rightarrow> bb_link bb t (cfg_insert t c4)) in
         asm_bind (if inst = Exit then asm_bind (get_node label_exit c5) (\<lambda>_. Inr (bb_link bb label_exit c5)) else Inr c5) (\<lambda>c6.
         seq_to_cfg False (if has_fall inst then Some bb else None) insts c6)))))"

definition instruction_seq_to_cfg :: "(int \<times> instruction \<times> 'l) list \<Rightarrow> bool \<Rightarrow> cfg asm_res" where
  "instruction_seq_to_cfg insts must_have_exit =
     asm_bind (seq_to_cfg True None insts cfg_new) (\<lambda>(falling_from, c). case falling_from of
         None \<Rightarrow> Inr c
       | Some f \<Rightarrow>
           (if must_have_exit then Inl (Raised ''fallthrough in last instruction'')
            else asm_bind (get_node f c) (\<lambda>_. asm_bind (get_node label_exit c) (\<lambda>_. Inr (bb_link f label_exit c)))))"

subsection \<open>The nondeterministic graph\<close>

definition reverse_op :: "cond_op \<Rightarrow> cond_op" where
  "reverse_op c = (case c of EQ \<Rightarrow> NE | NE \<Rightarrow> EQ | GE \<Rightarrow> LT | LT \<Rightarrow> GE | SGE \<Rightarrow> SLT | SLT \<Rightarrow> SGE
     | LE \<Rightarrow> GT | GT \<Rightarrow> LE | SLE \<Rightarrow> SGT | SGT \<Rightarrow> SLE | SET \<Rightarrow> NSET | NSET \<Rightarrow> SET)"

definition reverse_cond :: "condition \<Rightarrow> condition" where
  "reverse_cond c = c\<lparr>co_op := reverse_op (co_op c)\<rparr>"

fun is_jmp :: "instruction \<Rightarrow> bool" where
  "is_jmp (Jmp _ _) = True"
| "is_jmp _ = False"

fun link_prevs :: "cfg \<Rightarrow> label \<Rightarrow> label list \<Rightarrow> cfg \<Rightarrow> cfg asm_res" where
  "link_prevs cfg this_label [] res = Inr res"
| "link_prevs cfg this_label (prev # prevs) res =
     asm_bind (get_node prev cfg) (\<lambda>pb.
       (let p = (if card (bb_next pb) > 1 then make_jump prev this_label else prev) in
        link_prevs cfg this_label prevs (bb_link p this_label (cfg_insert p res))))"

definition add_assume :: "label \<Rightarrow> label \<times> condition \<Rightarrow> cfg \<Rightarrow> cfg" where
  "add_assume mid = (\<lambda>(next_label, cond) res.
     (let j = make_jump mid next_label in
      bb_link j next_label (cfg_insert next_label (bb_link mid j (bb_insert j (Assume cond) (cfg_insert j res))))))"

text \<open>Reading the jump at the end of a block of two successors fails where the block does not end with a conditional jump.\<close>

definition nondet_block :: "cfg \<Rightarrow> label \<times> basic_block \<Rightarrow> cfg \<Rightarrow> cfg asm_res" where
  "nondet_block cfg = (\<lambda>(this_label, bb) res0.
     (let res1 = fold (bb_insert this_label) (filter (Not \<circ> is_jmp) (bb_ts bb)) (cfg_insert this_label res0) in
      asm_bind (link_prevs cfg this_label (sorted_list_of_set (bb_prev bb)) res1) (\<lambda>res2.
        if card (bb_next bb) = 2 then
          (if bb_ts bb = [] then Inl (Raised ''undefined'')
           else (case last (bb_ts bb) of
               Jmp (Some cond) target \<Rightarrow>
                 (let fallthrough = Min (bb_next bb - {Label target (-1)}) in
                  Inr (fold (add_assume this_label) [(Label target (-1), cond), (fallthrough, reverse_cond cond)] res2))
             | Jmp None _ \<Rightarrow> Inl (Raised ''undefined'')
             | _ \<Rightarrow> Inl (Raised ''bad_variant_access'')))
        else Inr (fold (\<lambda>l res. bb_link this_label l (cfg_insert l res)) (sorted_list_of_set (bb_next bb)) res2))))"

fun nondet_blocks :: "cfg \<Rightarrow> (label \<times> basic_block) list \<Rightarrow> cfg \<Rightarrow> cfg asm_res" where
  "nondet_blocks cfg [] res = Inr res"
| "nondet_blocks cfg (b # bs) res = asm_bind (nondet_block cfg b res) (nondet_blocks cfg bs)"

definition to_nondet :: "cfg \<Rightarrow> cfg asm_res" where
  "to_nondet cfg = nondet_blocks cfg cfg cfg_new"

subsection \<open>What a graph consists of\<close>

definition nodes :: "cfg \<Rightarrow> label set" where
  "nodes c = dom (map_of c)"

definition ts_of :: "cfg \<Rightarrow> label \<Rightarrow> instruction list" where
  "ts_of c l = (case map_of c l of None \<Rightarrow> [] | Some b \<Rightarrow> bb_ts b)"

definition edges :: "cfg \<Rightarrow> (label \<times> label) set" where
  "edges c = {(l, k). \<exists>b. map_of c l = Some b \<and> k \<in> bb_next b}"

definition pedges :: "cfg \<Rightarrow> (label \<times> label) set" where
  "pedges c = {(l, k). \<exists>b. map_of c k = Some b \<and> l \<in> bb_prev b}"

definition in_order :: "cfg \<Rightarrow> bool" where
  "in_order c = sorted_wrt (<) (map fst c)"

lemma map_of_put [simp]: "map_of (cfg_put l b c) = (map_of c)(l \<mapsto> b)"
  by (induction l b c rule: cfg_put.induct) auto

lemma fst_put: "fst ` set (cfg_put l b c) = insert l (fst ` set c)"
  by (induction l b c rule: cfg_put.induct) auto

lemma put_in_order: "in_order c \<Longrightarrow> in_order (cfg_put l b c)"
  unfolding in_order_def
proof (induction l b c rule: cfg_put.induct)
  case (2 l b k x c)
  have "\<forall>y \<in> set (map fst (cfg_put l b c)). k < y" if "\<not> l < k" "l \<noteq> k" using 2(2) that fst_put [of l b c] by auto
  then show ?case using 2 by (auto dest: less_trans)
qed simp

lemma ops_in_order [simp]:
  assumes "in_order c"
  shows "in_order (cfg_insert l c)" "in_order (bb_insert l i c)" "in_order (bb_link l k c)"
  using assms by (auto simp: cfg_insert_def bb_insert_def bb_link_def on_block_def put_in_order split: option.splits)

lemma cfg_insert_view [simp]:
  "nodes (cfg_insert l c) = insert l (nodes c)" "ts_of (cfg_insert l c) = ts_of c"
  "edges (cfg_insert l c) = edges c" "pedges (cfg_insert l c) = pedges c"
  by (auto simp: cfg_insert_def nodes_def ts_of_def edges_def pedges_def bb_new_def fun_eq_iff split: option.splits if_splits)

lemma bb_insert_view [simp]:
  assumes "l \<in> nodes c"
  shows "nodes (bb_insert l i c) = nodes c" "ts_of (bb_insert l i c) = (ts_of c)(l := ts_of c l @ [i])"
    "edges (bb_insert l i c) = edges c" "pedges (bb_insert l i c) = pedges c"
  using assms by (auto simp: bb_insert_def on_block_def nodes_def ts_of_def edges_def pedges_def fun_eq_iff split: option.splits if_splits)

lemma bb_link_view [simp]:
  assumes "l \<in> nodes c" "k \<in> nodes c"
  shows "nodes (bb_link l k c) = nodes c" "ts_of (bb_link l k c) = ts_of c"
    "edges (bb_link l k c) = insert (l, k) (edges c)" "pedges (bb_link l k c) = insert (l, k) (pedges c)"
  using assms by (auto simp: bb_link_def on_block_def nodes_def ts_of_def edges_def pedges_def fun_eq_iff split: option.splits if_splits)

lemma cfg_new_view [simp]: "nodes cfg_new = {label_entry, label_exit}" "ts_of cfg_new = (\<lambda>l. [])" "edges cfg_new = {}" "pedges cfg_new = {}" "in_order cfg_new"
  by (auto simp: cfg_new_def nodes_def ts_of_def edges_def pedges_def bb_new_def in_order_def less_label_def label_entry_def label_exit_def
      split: if_splits)

lemma get_node_ok [simp]: "l \<in> nodes c \<Longrightarrow> \<exists>b. get_node l c = Inr b"
  by (auto simp: get_node_def nodes_def)

lemma bind_node [simp]: "l \<in> nodes c \<Longrightarrow> asm_bind (get_node l c) (\<lambda>_. r) = r"
  by (auto simp: get_node_def nodes_def)

subsection \<open>The graph has the control flow of the program\<close>

abbreviation L :: "int \<Rightarrow> label" where "L l \<equiv> Label l (-1)"

definition own_edges :: "int \<times> instruction \<times> 'l \<Rightarrow> (label \<times> label) set" where
  "own_edges = (\<lambda>(l, ins, _). (case get_jump ins of None \<Rightarrow> {} | Some t \<Rightarrow> {(L l, t)}) \<union> (if ins = Exit then {(L l, label_exit)} else {}))"

definition fall_edges :: "(int \<times> instruction \<times> 'l) list \<Rightarrow> (label \<times> label) set" where
  "fall_edges prog = set (map (\<lambda>(e, f). (L (fst e), L (fst f))) (filter (\<lambda>(e, f). has_fall (fst (snd e))) (zip prog (tl prog))))"

definition start_edges :: "label option \<Rightarrow> (int \<times> instruction \<times> 'l) list \<Rightarrow> (label \<times> label) set" where
  "start_edges from prog = (case (from, prog) of (Some f, e # _) \<Rightarrow> {(f, L (fst e))} | _ \<Rightarrow> {})"

definition jump_targets :: "(int \<times> instruction \<times> 'l) list \<Rightarrow> label set" where
  "jump_targets prog = {t. \<exists>e \<in> set prog. get_jump (fst (snd e)) = Some t}"

definition code_at :: "(int \<times> instruction \<times> 'l) list \<Rightarrow> label \<Rightarrow> instruction list" where
  "code_at prog l = map (fst \<circ> snd) (filter (\<lambda>e. L (fst e) = l) prog)"

lemma fall_edges_Cons: "fall_edges (e # prog) = start_edges (if has_fall (fst (snd e)) then Some (L (fst e)) else None) prog \<union> fall_edges prog"
  by (cases prog) (simp_all add: fall_edges_def start_edges_def)

lemma asm_bind_assoc: "asm_bind (asm_bind r f) g = asm_bind r (\<lambda>x. asm_bind (f x) g)"
  by (simp add: asm_bind_def split: sum.splits)

text \<open>One round of the loop: the graph it leaves.\<close>

lemma seq_step:
  assumes "\<not> is_undefined ins" and "{label_entry, label_exit} \<subseteq> nodes c" and "set_option falling \<subseteq> nodes c" and "in_order c"
  shows "\<exists>c'. seq_to_cfg first falling ((l, ins, x) # prog) c = seq_to_cfg False (if has_fall ins then Some (L l) else None) prog c' \<and>
    nodes c' = insert (L l) (nodes c \<union> set_option (get_jump ins)) \<and> ts_of c' = (ts_of c)(L l := ts_of c (L l) @ [ins]) \<and>
    edges c' = edges c \<union> start_edges (if first then Some label_entry else None) [(l, ins, x)] \<union> start_edges falling [(l, ins, x)] \<union> own_edges (l, ins, x) \<and>
    pedges c' = pedges c \<union> start_edges (if first then Some label_entry else None) [(l, ins, x)] \<union> start_edges falling [(l, ins, x)] \<union> own_edges (l, ins, x) \<and>
    in_order c'"
proof -
  define c1 where "c1 = cfg_insert (L l) c"
  have c1: "nodes c1 = insert (L l) (nodes c)" "ts_of c1 = ts_of c" "edges c1 = edges c" "pedges c1 = pedges c" "in_order c1"
    using assms(4) by (simp_all add: c1_def)
  define c2 where "c2 = (if first then bb_link label_entry (L l) c1 else c1)"
  have c2: "nodes c2 = nodes c1" "ts_of c2 = ts_of c1" "in_order c2"
    "edges c2 = edges c1 \<union> start_edges (if first then Some label_entry else None) [(l, ins, x)]"
    "pedges c2 = pedges c1 \<union> start_edges (if first then Some label_entry else None) [(l, ins, x)]"
    using assms(2) c1(1,5) by (simp_all add: c2_def start_edges_def)
  define c3 where "c3 = bb_insert (L l) ins c2"
  have c3: "nodes c3 = nodes c1" "ts_of c3 = (ts_of c)(L l := ts_of c (L l) @ [ins])" "edges c3 = edges c2" "pedges c3 = pedges c2" "in_order c3"
    using c1 c2 by (simp_all add: c3_def)
  define c4 where "c4 = (case falling of None \<Rightarrow> c3 | Some f \<Rightarrow> bb_link f (L l) c3)"
  have c4: "nodes c4 = nodes c1" "ts_of c4 = ts_of c3" "in_order c4"
    "edges c4 = edges c3 \<union> start_edges falling [(l, ins, x)]" "pedges c4 = pedges c3 \<union> start_edges falling [(l, ins, x)]"
    using assms(3) c1(1) c3(1,5) by (cases falling; simp add: c4_def start_edges_def)+
  define c5 where "c5 = (case get_jump ins of None \<Rightarrow> c4 | Some t \<Rightarrow> bb_link (L l) t (cfg_insert t c4))"
  have c5: "nodes c5 = nodes c1 \<union> set_option (get_jump ins)" "ts_of c5 = ts_of c3" "in_order c5"
    "edges c5 = edges c4 \<union> (case get_jump ins of None \<Rightarrow> {} | Some t \<Rightarrow> {(L l, t)})"
    "pedges c5 = pedges c4 \<union> (case get_jump ins of None \<Rightarrow> {} | Some t \<Rightarrow> {(L l, t)})"
    using c1(1) c4 by (cases "get_jump ins"; simp add: c5_def)+
  define c6 where "c6 = (if ins = Exit then bb_link (L l) label_exit c5 else c5)"
  have c6: "nodes c6 = nodes c5" "ts_of c6 = ts_of c5" "in_order c6"
    "edges c6 = edges c5 \<union> (if ins = Exit then {(L l, label_exit)} else {})" "pedges c6 = pedges c5 \<union> (if ins = Exit then {(L l, label_exit)} else {})"
    using assms(2) c1(1) c5(1,3) by (simp_all add: c6_def)
  have "seq_to_cfg first falling ((l, ins, x) # prog) c = seq_to_cfg False (if has_fall ins then Some (L l) else None) prog c6"
  proof -
    have 2: "(if first then asm_bind (get_node label_entry c1) (\<lambda>_. Inr (bb_link label_entry (L l) c1)) else Inr c1) = Inr c2"
      using assms(2) c1(1) by (simp add: c2_def)
    have 4: "(case falling of None \<Rightarrow> Inr c3 | Some f \<Rightarrow> asm_bind (get_node f c3) (\<lambda>_. Inr (bb_link f (L l) c3))) = Inr c4"
      using assms(3) c3(1) c1(1) by (cases falling) (simp_all add: c4_def)
    have 6: "(if ins = Exit then asm_bind (get_node label_exit c5) (\<lambda>_. Inr (bb_link (L l) label_exit c5)) else Inr c5) = Inr c6"
      using assms(2) c5(1) c1(1) by (simp add: c6_def)
    show ?thesis unfolding seq_to_cfg.simps(2) Let_def c1_def [symmetric] 2
      by (simp only: asm_bind_step c3_def [symmetric] 4 c5_def [symmetric] 6 assms(1) if_False)
  qed
  moreover have "own_edges (l, ins, x) = (case get_jump ins of None \<Rightarrow> {} | Some t \<Rightarrow> {(L l, t)}) \<union> (if ins = Exit then {(L l, label_exit)} else {})"
    by (simp add: own_edges_def)
  ultimately show ?thesis using c1 c2 c3 c4 c5 c6 by (intro exI [of _ c6]) (simp add: Un_assoc)
qed

definition seq_edges :: "bool \<Rightarrow> label option \<Rightarrow> (int \<times> instruction \<times> 'l) list \<Rightarrow> (label \<times> label) set" where
  "seq_edges first falling prog = start_edges (if first then Some label_entry else None) prog \<union> start_edges falling prog \<union>
     fall_edges prog \<union> (\<Union>e \<in> set prog. own_edges e)"

definition falls_from :: "label option \<Rightarrow> (int \<times> instruction \<times> 'l) list \<Rightarrow> label option" where
  "falls_from falling prog = (if prog = [] then falling else if has_fall (fst (snd (last prog))) then Some (L (fst (last prog))) else None)"

lemma start_edges_hd: "start_edges from (e # prog) = start_edges from [e]"
  by (simp add: start_edges_def split: option.splits)

lemma seq_to_cfg_view:
  assumes "\<forall>e \<in> set prog. \<not> is_undefined (fst (snd e))" and "{label_entry, label_exit} \<subseteq> nodes c" and "set_option falling \<subseteq> nodes c" and "in_order c"
  shows "\<exists>c'. seq_to_cfg first falling prog c = Inr (falls_from falling prog, c') \<and>
    nodes c' = nodes c \<union> L ` fst ` set prog \<union> jump_targets prog \<and> ts_of c' = (\<lambda>l. ts_of c l @ code_at prog l) \<and>
    edges c' = edges c \<union> seq_edges first falling prog \<and> pedges c' = pedges c \<union> seq_edges first falling prog \<and> in_order c'"
  using assms
proof (induction prog arbitrary: first falling c)
  case Nil
  then show ?case by (simp add: falls_from_def jump_targets_def code_at_def seq_edges_def start_edges_def fall_edges_def split: option.splits)
next
  case (Cons e prog)
  obtain l ins x where e: "e = (l, ins, x)" by (cases e)
  let ?f = "if has_fall ins then Some (L l) else None"
  have "\<not> is_undefined ins" using Cons.prems(1) e by simp
  from seq_step [OF this Cons.prems(2-4), where first = first and l = l and x = x and prog = prog] obtain c' where
    c': "seq_to_cfg first falling (e # prog) c = seq_to_cfg False ?f prog c'"
    "nodes c' = insert (L l) (nodes c \<union> set_option (get_jump ins))" "ts_of c' = (ts_of c)(L l := ts_of c (L l) @ [ins])"
    "edges c' = edges c \<union> start_edges (if first then Some label_entry else None) [e] \<union> start_edges falling [e] \<union> own_edges e"
    "pedges c' = pedges c \<union> start_edges (if first then Some label_entry else None) [e] \<union> start_edges falling [e] \<union> own_edges e"
    "in_order c'" unfolding e by blast
  have "\<exists>c''. seq_to_cfg False ?f prog c' = Inr (falls_from ?f prog, c'') \<and>
      nodes c'' = nodes c' \<union> L ` fst ` set prog \<union> jump_targets prog \<and> ts_of c'' = (\<lambda>l. ts_of c' l @ code_at prog l) \<and>
      edges c'' = edges c' \<union> seq_edges False ?f prog \<and> pedges c'' = pedges c' \<union> seq_edges False ?f prog \<and> in_order c''"
    using Cons.prems c' by (intro Cons.IH) auto
  then obtain c'' where c'': "seq_to_cfg False ?f prog c' = Inr (falls_from ?f prog, c'')"
    "nodes c'' = nodes c' \<union> L ` fst ` set prog \<union> jump_targets prog" "ts_of c'' = (\<lambda>l. ts_of c' l @ code_at prog l)"
    "edges c'' = edges c' \<union> seq_edges False ?f prog" "pedges c'' = pedges c' \<union> seq_edges False ?f prog" "in_order c''" by blast
  have E: "seq_edges first falling (e # prog) =
      start_edges (if first then Some label_entry else None) [e] \<union> start_edges falling [e] \<union> own_edges e \<union> seq_edges False ?f prog"
  proof -
    have n: "start_edges None prog = {}" by (simp add: start_edges_def)
    have f: "fall_edges (e # prog) = start_edges ?f prog \<union> fall_edges prog" by (simp only: fall_edges_Cons) (simp add: e)
    show ?thesis unfolding seq_edges_def f start_edges_hd [where prog = prog] by (simp add: n Un_ac)
  qed
  have J: "jump_targets (e # prog) = set_option (get_jump ins) \<union> jump_targets prog" by (auto simp: jump_targets_def e)
  have T: "ts_of c'' = (\<lambda>k. ts_of c k @ code_at (e # prog) k)" unfolding c''(3) c'(3) by (auto simp: code_at_def e fun_eq_iff)
  have F: "falls_from ?f prog = falls_from falling (e # prog)" by (simp add: falls_from_def e)
  show ?case
  proof (intro exI conjI)
    show "seq_to_cfg first falling (e # prog) c = Inr (falls_from falling (e # prog), c'')" using c'(1) c''(1) F by simp
    show "nodes c'' = nodes c \<union> L ` fst ` set (e # prog) \<union> jump_targets (e # prog)" unfolding c''(2) c'(2) J by (auto simp: e)
    show "ts_of c'' = (\<lambda>k. ts_of c k @ code_at (e # prog) k)" by (rule T)
    show "edges c'' = edges c \<union> seq_edges first falling (e # prog)" unfolding c''(4) c'(4) E by blast
    show "pedges c'' = pedges c \<union> seq_edges first falling (e # prog)" unfolding c''(5) c'(5) E by blast
    show "in_order c''" by (rule c''(6))
  qed
qed

text \<open>
  The control flow of a program: from the entry to its first instruction, from an instruction to the
  next one unless it is an exit or an unconditional jump, from a jump to its target, and from an exit
  to the exit of the graph.
\<close>

definition prog_edges :: "(int \<times> instruction \<times> 'l) list \<Rightarrow> (label \<times> label) set" where
  "prog_edges prog = seq_edges True None prog"

lemma program_graph:
  assumes "\<forall>e \<in> set prog. \<not> is_undefined (fst (snd e))" and "falls_from None prog = None"
  shows "\<exists>c. instruction_seq_to_cfg prog b = Inr c \<and> nodes c = {label_entry, label_exit} \<union> L ` fst ` set prog \<union> jump_targets prog \<and>
    ts_of c = code_at prog \<and> edges c = prog_edges prog \<and> pedges c = prog_edges prog \<and> in_order c"
  using seq_to_cfg_view [OF assms(1), of cfg_new None True] assms(2)
  by (auto simp: instruction_seq_to_cfg_def prog_edges_def)

end
