(* ===== verification/Asm_Assert.thy ===== *)
theory Asm_Assert
  imports Asm_Cfg
begin

text \<open>
  The assertions of a program (\<open>ebpf-verifier/src/assertions.cpp\<close>) and the graph the verifier analyses
  (\<open>prepare_cfg\<close> of \<open>asm_cfg.cpp\<close>): before every instruction stands what has to hold for it to be safe. Of \<open>program_info\<close>
  only \<open>type.is_privileged\<close> is read.
\<close>

subsection \<open>What an instruction demands\<close>

definition zero_offset_ctx :: "8 word \<Rightarrow> assertion_constraint list" where
  "zero_offset_ctx reg = [TypeConstraint reg TG_ctx, ZeroCtxOffset reg]"

text \<open>
  The single arguments of a call. A key or a value before any map reads an empty \<open>std::optional\<close>.
\<close>

fun call_singles :: "bool \<Rightarrow> 8 word option \<Rightarrow> (arg_single_kind \<times> 8 word) list \<Rightarrow> assertion_constraint list asm_res" where
  "call_singles is_privileged map_fd_reg [] = Inr []"
| "call_singles is_privileged map_fd_reg ((kind, reg) # args) = (case kind of
       K_ANYTHING \<Rightarrow>
         asm_bind (call_singles is_privileged map_fd_reg args) (\<lambda>res.
           Inr ((if is_privileged then [] else [TypeConstraint reg TG_number]) @ res))
     | K_MAP_FD_PROGRAMS \<Rightarrow>
         asm_bind (call_singles is_privileged map_fd_reg args) (\<lambda>res. Inr (TypeConstraint reg TG_map_fd_programs # res))
     | K_MAP_FD \<Rightarrow>
         asm_bind (call_singles is_privileged (Some reg) args) (\<lambda>res. Inr (TypeConstraint reg TG_map_fd # res))
     | K_PTR_TO_CTX \<Rightarrow>
         asm_bind (call_singles is_privileged map_fd_reg args) (\<lambda>res. Inr (zero_offset_ctx reg @ res))
     | _ \<Rightarrow> (case map_fd_reg of
           None \<Rightarrow> Inl (Raised ''undefined'')
         | Some fd \<Rightarrow>
             asm_bind (call_singles is_privileged map_fd_reg args) (\<lambda>res.
               Inr (TypeConstraint reg TG_stack_or_packet # ValidMapKeyValue reg fd (kind = K_PTR_TO_MAP_KEY) # res))))"

definition call_pair :: "arg_pair \<Rightarrow> assertion_constraint list" where
  "call_pair arg = [TypeConstraint (ap_size arg) TG_number, ValidSize (ap_size arg) (ap_can_be_zero arg)] @ (case ap_kind arg of
       K_PTR_TO_READABLE_MEM_OR_NULL \<Rightarrow>
         [TypeConstraint (ap_mem arg) TG_mem_or_num, ValidAccess (ap_mem arg) 0 (Reg (ap_size arg)) True AT_read]
     | K_PTR_TO_READABLE_MEM \<Rightarrow>
         [TypeConstraint (ap_mem arg) TG_mem, ValidAccess (ap_mem arg) 0 (Reg (ap_size arg)) False AT_read]
     | K_PTR_TO_WRITABLE_MEM \<Rightarrow>
         [TypeConstraint (ap_mem arg) TG_mem, ValidAccess (ap_mem arg) 0 (Reg (ap_size arg)) False AT_write])"

definition explicate :: "bool \<Rightarrow> condition \<Rightarrow> assertion_constraint list" where
  "explicate is_privileged cond =
     (if is_privileged then []
      else (case co_right cond of
          Imm v \<Rightarrow>
            (if v \<noteq> 0 then [TypeConstraint (co_left cond) TG_number] else [ValidAccess (co_left cond) 0 (Imm 0) False AT_compare])
        | Reg r \<Rightarrow>
            [ValidAccess (co_left cond) 0 (Imm 0) False AT_compare, ValidAccess r 0 (Imm 0) False AT_compare] @
            (if co_op cond \<noteq> EQ \<and> co_op cond \<noteq> NE then [TypeConstraint (co_left cond) TG_non_map_fd] else []) @
            [Comparable (co_left cond) r False]))"

abbreviation EBPF_STACK_SIZE :: int where "EBPF_STACK_SIZE \<equiv> 512"

definition mem_assertions :: "bool \<Rightarrow> deref \<Rightarrow> asm_value \<Rightarrow> bool \<Rightarrow> assertion_constraint list" where
  "mem_assertions is_privileged access v is_load =
     (let basereg = de_basereg access; width = word_of_int (de_width access) :: 32 word; offset = de_offset access;
          valid = ValidAccess basereg offset (Imm (ucast width)) False (if is_load then AT_read else AT_write) in
      if basereg = 10 then (if sint offset < - EBPF_STACK_SIZE \<or> sint offset + sint width \<ge> 0 then [valid] else [])
      else [TypeConstraint basereg TG_pointer, valid] @
        (case v of
           Reg r \<Rightarrow>
             (if \<not> is_privileged \<and> \<not> is_load
              then [if width \<noteq> 8 then TypeConstraint r TG_number else ValidStore basereg r] else [])
         | Imm _ \<Rightarrow> []))"

definition bin_assertions :: "bin_op \<Rightarrow> 8 word \<Rightarrow> asm_value \<Rightarrow> assertion_constraint list" where
  "bin_assertions bop dst v = (case bop of
       MOV \<Rightarrow> []
     | ADD \<Rightarrow> (case v of
           Reg src \<Rightarrow> [TypeConstraint dst TG_ptr_or_num, TypeConstraint src TG_ptr_or_num, Addable src dst, Addable dst src]
         | Imm _ \<Rightarrow> [TypeConstraint dst TG_ptr_or_num])
     | SUB \<Rightarrow> (case v of
           Reg src \<Rightarrow> [TypeConstraint dst TG_ptr_or_num, Comparable dst src True]
         | Imm _ \<Rightarrow> [TypeConstraint dst TG_ptr_or_num])
     | _ \<Rightarrow> (case v of
           Reg src \<Rightarrow>
             (if bop = UDIV \<or> bop = UMOD then [TypeConstraint dst TG_number, ValidDivisor src] else [TypeConstraint dst TG_number])
         | Imm _ \<Rightarrow> [TypeConstraint dst TG_number]))"

definition assert_extractor :: "bool \<Rightarrow> instruction \<Rightarrow> assertion_constraint list asm_res" where
  "assert_extractor is_privileged ins = (case ins of
       Undefined _ \<Rightarrow> Inr []
     | Assert _ \<Rightarrow> Inr []
     | LoadMapFd _ _ \<Rightarrow> Inr []
     | Packet _ _ _ \<Rightarrow> Inr (zero_offset_ctx 6)
     | Exit \<Rightarrow> Inr [TypeConstraint 0 TG_number]
     | Call call \<Rightarrow>
         asm_bind (call_singles is_privileged None (ca_singles call)) (\<lambda>res. Inr (res @ concat (map call_pair (ca_pairs call))))
     | Assume cond \<Rightarrow> Inr (explicate is_privileged cond)
     | Jmp None _ \<Rightarrow> Inr []
     | Jmp (Some cond) _ \<Rightarrow> Inr (explicate is_privileged cond)
     | Mem access v is_load \<Rightarrow> Inr (mem_assertions is_privileged access v is_load)
     | LockAdd access _ \<Rightarrow>
         Inr [TypeConstraint (de_basereg access) TG_shared,
           ValidAccess (de_basereg access) (de_offset access) (Imm (ucast (word_of_int (de_width access) :: 32 word))) False AT_compare]
     | Un_asm _ dst _ \<Rightarrow> Inr [TypeConstraint dst TG_number]
     | Bin bop dst v _ _ \<Rightarrow> Inr (bin_assertions bop dst v))"

subsection \<open>The graph with assertions\<close>

fun explicate_block :: "bool \<Rightarrow> instruction list \<Rightarrow> instruction list asm_res" where
  "explicate_block is_privileged [] = Inr []"
| "explicate_block is_privileged (ins # rest) =
     asm_bind (assert_extractor is_privileged ins) (\<lambda>as.
       asm_bind (explicate_block is_privileged rest) (\<lambda>insts. Inr (map Assert as @ ins # insts)))"

fun explicate_assertions :: "bool \<Rightarrow> cfg \<Rightarrow> cfg asm_res" where
  "explicate_assertions is_privileged [] = Inr []"
| "explicate_assertions is_privileged ((l, bb) # rest) =
     asm_bind (explicate_block is_privileged (bb_ts bb)) (\<lambda>insts.
       asm_bind (explicate_assertions is_privileged rest) (\<lambda>c. Inr ((l, bb\<lparr>bb_ts := insts\<rparr>) # c)))"

text \<open>Merging chains of blocks is switched off by bpftime.\<close>

definition prepare_cfg :: "bool \<Rightarrow> (int \<times> instruction \<times> 'l) list \<Rightarrow> bool \<Rightarrow> cfg asm_res" where
  "prepare_cfg is_privileged prog must_have_exit =
     asm_bind (instruction_seq_to_cfg prog must_have_exit) (\<lambda>det_cfg.
       asm_bind (explicate_assertions is_privileged det_cfg) to_nondet)"

subsection \<open>Only the instructions of the blocks change\<close>

text \<open>
  The extractor is defined for an instruction: a call has its map before the keys and values of the map.
\<close>

definition asserts_defined :: "bool \<Rightarrow> instruction \<Rightarrow> bool" where
  "asserts_defined priv ins \<longleftrightarrow> (\<exists>as. assert_extractor priv ins = Inr as)"

definition asserts_of :: "bool \<Rightarrow> instruction \<Rightarrow> instruction list" where
  "asserts_of priv ins = (case assert_extractor priv ins of Inr as \<Rightarrow> map Assert as | Inl _ \<Rightarrow> [])"

definition asserted :: "bool \<Rightarrow> instruction list \<Rightarrow> instruction list" where
  "asserted priv ts = concat (map (\<lambda>ins. asserts_of priv ins @ [ins]) ts)"

lemma asserted_simps [simp]: "asserted priv [] = []" "asserted priv (ins # ts) = asserts_of priv ins @ ins # asserted priv ts"
  by (simp_all add: asserted_def)

lemma asserts_defined_unless_call: "(\<And>call. ins \<noteq> Call call) \<Longrightarrow> asserts_defined priv ins"
  by (cases ins) (auto simp: asserts_defined_def assert_extractor_def split: option.split)

lemma explicate_block_ok:
  "\<forall>ins \<in> set ts. asserts_defined priv ins \<Longrightarrow> explicate_block priv ts = Inr (asserted priv ts)"
  by (induction ts) (auto simp: asserts_defined_def asserts_of_def)

lemma explicate_ok:
  assumes "\<forall>b \<in> set c. \<forall>ins \<in> set (bb_ts (snd b)). asserts_defined priv ins"
  shows "explicate_assertions priv c = Inr (map (\<lambda>(l, b). (l, b\<lparr>bb_ts := asserted priv (bb_ts b)\<rparr>)) c)"
  using assms by (induction priv c rule: explicate_assertions.induct) (auto simp: explicate_block_ok)

lemma map_of_asserted:
  "map_of (map (\<lambda>(l, b). (l, b\<lparr>bb_ts := asserted priv (bb_ts b)\<rparr>)) c) l =
     map_option (\<lambda>b. b\<lparr>bb_ts := asserted priv (bb_ts b)\<rparr>) (map_of c l)"
  by (induction c) auto

lemma explicate_view:
  assumes "in_order c" and "\<forall>l. \<forall>ins \<in> set (ts_of c l). asserts_defined priv ins"
  shows "\<exists>c'. explicate_assertions priv c = Inr c' \<and> nodes c' = nodes c \<and> edges c' = edges c \<and> pedges c' = pedges c \<and>
    in_order c' \<and> ts_of c' = (\<lambda>l. asserted priv (ts_of c l))"
proof -
  let ?c = "map (\<lambda>(l, b). (l, b\<lparr>bb_ts := asserted priv (bb_ts b)\<rparr>)) c"
  have d: "distinct (map fst c)" using assms(1) by (auto simp: in_order_def strict_sorted_iff)
  have "asserts_defined priv ins" if b: "b \<in> set c" "ins \<in> set (bb_ts (snd b))" for b ins
  proof -
    have "map_of c (fst b) = Some (snd b)" using d b(1) by simp
    then have "ts_of c (fst b) = bb_ts (snd b)" by (simp add: ts_of_def)
    then show ?thesis using assms(2) b(2) by metis
  qed
  then have "explicate_assertions priv c = Inr ?c" by (intro explicate_ok) blast
  moreover have "nodes ?c = nodes c" "edges ?c = edges c" "pedges ?c = pedges c"
    by (auto simp: nodes_def edges_def pedges_def map_of_asserted)
  moreover have "in_order ?c" using assms(1) by (simp add: in_order_def case_prod_beta comp_def)
  moreover have "ts_of ?c = (\<lambda>l. asserted priv (ts_of c l))"
    by (auto simp: ts_of_def map_of_asserted fun_eq_iff split: option.split)
  ultimately show ?thesis by blast
qed

end
