(* ===== verification/Ebpf_Roundtrip.thy ===== *)
theory Ebpf_Roundtrip
  imports Ebpf_Typing
begin

text \<open>
  Encoding a typed program and decoding it again. The encoder writes every conditional jump in the
  64-bit class, every negation in the 64-bit class and every byte swap in the 32-bit class; programs
  that use the other forms (\<open>encodable\<close>) are left out.
\<close>

unbundle bit_operations_syntax

fun encodable :: "instruction \<Rightarrow> bool" where
  "encodable (Un_asm u d is64) = (is64 = (u = NEG))"
| "encodable (Jmp (Some c) t) = co_is64 c"
| "encodable ins = True"

subsection \<open>One instruction\<close>

text \<open>The slots of a program from a position on hold the encoding of an instruction.\<close>

definition slots_at :: "ebpf_inst list \<Rightarrow> nat \<Rightarrow> ebpf_inst list \<Rightarrow> bool" where
  "slots_at insts pc es = (\<exists>pre post. insts = pre @ es @ post \<and> length pre = pc)"

lemma slots_at_one: "slots_at insts pc [e] \<Longrightarrow> insts ! pc = e \<and> pc < length insts"
  by (auto simp: slots_at_def)

lemma slots_at_two: "slots_at insts pc [e, f] \<Longrightarrow> insts ! pc = e \<and> insts ! (pc + 1) = f \<and> pc + 1 < length insts"
  by (auto simp: slots_at_def nth_append)

lemma pc_t_self: "pc < 65536 \<Longrightarrow> pc_t pc = pc"
  by (simp add: pc_t_def unsigned_of_nat take_bit_nat_eq_self)

lemma bin_decodes:
  assumes "wf_ins p L (Bin bop d v is64 False)" and "Inr [insts ! pc] = marshal_bin bop d v is64 False"
  shows "unmarshal_at p insts pc = Inr (Bin bop d v is64 False, False)"
proof -
  from assms(1) have w: "d < 16" "d \<noteq> 10" "operand_ok v" by simp_all
  obtain r :: "4 word" where d: "d = ucast r" using nibble_cases [OF w(1)] .
  show ?thesis
  proof (cases v)
    case (Imm i)
    then have i: "sign_extend (ucast i) = i" using w(3) by (simp add: sext_imm_def)
    show ?thesis using assms(2) w(2) i unfolding Imm d  marshal_bin_def Let_def
      by (cases bop; cases is64) (simp_all add: unmarshal_at_def bin_code_def makeAluOp_def getAluOp_def getBinValue_def Let_def)
  next
    case (Reg x)
    then have "x < 16" using w(3) by simp
    then obtain s :: "4 word" where s: "x = ucast s" by (rule nibble_cases)
    show ?thesis using assms(2) w(2) unfolding Reg d s  marshal_bin_def Let_def
      by (cases bop; cases is64) (simp_all add: unmarshal_at_def bin_code_def makeAluOp_def getAluOp_def getBinValue_def Let_def)
  qed
qed

lemma nibble_cases_10:
  fixes d :: "8 word"
  assumes "d \<le> 10"
  obtains r :: "4 word" where "d = ucast r" "r \<le> 10" "\<not> r > 10"
proof -
  have "d < 16" using assms by (simp add: word_le_def word_less_alt)
  then obtain r :: "4 word" where "d = ucast r" by (rule nibble_cases)
  then show ?thesis using that [of r] assms by (simp add: not_less)
qed

lemma lddw_decodes:
  assumes "wf_ins p L (Bin bop d v is64 True)" and "Inr [insts ! pc, insts ! (pc + 1)] = marshal_bin bop d v is64 True"
    and "pc + 1 < length insts" and "pc < 65536"
  shows "unmarshal_at p insts pc = Inr (Bin bop d v is64 True, True)"
proof -
  from assms(1) obtain i where v: "v = Imm i" "bop = MOV" "is64" "d \<le> 10" by (cases v) simp_all
  obtain r :: "4 word" where r: "d = ucast r" "r \<le> 10" "\<not> r > 10" using v(4) by (rule nibble_cases_10)
  have "pc < length insts - 1" "\<not> length insts - 1 \<le> pc" using assms(3) by simp_all
  then show ?thesis using assms(2) v(2,3) r(2,3) merge_split [of i]
    unfolding v(1) r(1) marshal_bin_def Let_def
    by (simp add: unmarshal_at_def makeLddw_def marshal_lddw_def width_to_opcode_def Let_def pc_t_self [OF assms(4)] split: prod.splits)
qed

lemma map_fd_decodes:
  assumes "wf_ins p L (LoadMapFd d fd)" and "[insts ! pc, insts ! (pc + 1)] = marshal_lddw d True fd 0"
    and "pc + 1 < length insts" and "pc < 65536"
  shows "unmarshal_at p insts pc = Inr (LoadMapFd d fd, True)"
proof -
  obtain r :: "4 word" where r: "d = ucast r" "r \<le> 10" "\<not> r > 10" using assms(1) nibble_cases_10 [of d] by auto
  have "pc < length insts - 1" "\<not> length insts - 1 \<le> pc" using assms(3) by simp_all
  then show ?thesis using assms(2) r(2,3) unfolding r(1)
    by (simp add: unmarshal_at_def makeLddw_def marshal_lddw_def width_to_opcode_def Let_def pc_t_self [OF assms(4)])
qed

lemma un_decodes:
  assumes "wf_ins p L (Un_asm u d is64)" and "encodable (Un_asm u d is64)" and "[insts ! pc] = marshal_un u d"
  shows "unmarshal_at p insts pc = Inr (Un_asm u d is64, False)"
proof -
  from assms(1) have w: "d < 16" "d \<noteq> 10" by simp_all
  obtain r :: "4 word" where d: "d = ucast r" using nibble_cases [OF w(1)] .
  show ?thesis using assms(2,3) w(2) unfolding d marshal_un_def
    by (cases u) (simp_all add: un_imm_def unmarshal_at_def makeAluOp_def getAluOp_def Let_def)
qed

lemma call_decodes:
  assumes "wf_ins p L (Call c)" and "insts ! pc = \<lparr>in_opcode = 0x85, in_dst = 0, in_src = 0, in_offset = 0, in_imm = ca_func c\<rparr>"
  shows "unmarshal_at p insts pc = Inr (Call c, False)"
  using assms by (simp add: unmarshal_at_def makeJmp_def Let_def)

lemma exit_decodes:
  assumes "insts ! pc = \<lparr>in_opcode = 0x95, in_dst = 0, in_src = 0, in_offset = 0, in_imm = 0\<rparr>"
  shows "unmarshal_at p insts pc = Inr (Exit, False)"
  using assms by (simp add: unmarshal_at_def makeJmp_def Let_def)

lemma jump_lands:
  assumes "0 \<le> t" and "t < 65536"
  shows "of_nat pc + 1 + label_to_offset (of_nat pc) t = (word_of_int t :: 16 word)" and "unat (word_of_int t :: 16 word) = nat t"
proof -
  show "of_nat pc + 1 + label_to_offset (of_nat pc) t = (word_of_int t :: 16 word)" by (simp add: label_to_offset_def)
  show "unat (word_of_int t :: 16 word) = nat t" using assms by (simp add: unsigned_of_int take_bit_int_eq_self)
qed

lemma jmp_decodes:
  assumes "wf_ins p L (Jmp cond t)" and "encodable (Jmp cond t)" and "[insts ! pc] = marshal_jmp (of_nat pc) cond t"
    and "L \<subseteq> targets insts" and "length insts \<le> 65536"
  shows "unmarshal_at p insts pc = Inr (Jmp cond t, False)"
proof -
  have t: "0 \<le> t" "nat t < length insts" "in_opcode (insts ! nat t) \<noteq> 0"
    using assms(1,4) by (cases cond; auto simp: targets_def)+
  note j = jump_lands [OF t(1)]
  have t16: "t < 65536" using t(2) assms(5) by linarith
  show ?thesis
  proof (cases cond)
    case None
    then show ?thesis using assms(3) t unfolding marshal_jmp_def
      by (simp add: unmarshal_at_def makeJmp_def Let_def j [OF t16])
  next
    case (Some c)
    then have w: "co_op c \<noteq> NSET" "co_left c < 16" "operand_ok (co_right c)" "co_is64 c" using assms(1,2) by simp_all
    obtain r :: "4 word" where "co_left c = ucast r" using nibble_cases [OF w(2)] .
    then obtain o' v where c: "c = \<lparr>co_op = o', co_left = ucast r, co_right = v, co_is64 = True\<rparr>" "o' \<noteq> NSET" "operand_ok v"
      using w by (cases c) simp
    show ?thesis
    proof (cases v)
      case (Imm i)
      then have i: "sign_extend (ucast i) = i" using c(3) by (simp add: sext_imm_def)
      show ?thesis using assms(3) t c(2) i unfolding Some marshal_jmp_def c(1) Imm Let_def
        by (cases o') (simp_all add: cond_code_def unmarshal_at_def makeJmp_def getJmpOp_def Let_def j [OF t16])
    next
      case (Reg x)
      then have "x < 16" using c(3) by simp
      then obtain s :: "4 word" where s: "x = ucast s" by (rule nibble_cases)
      show ?thesis using assms(3) t c(2) unfolding Some marshal_jmp_def c(1) Reg s Let_def
        by (cases o') (simp_all add: cond_code_def unmarshal_at_def makeJmp_def getJmpOp_def Let_def j [OF t16])
    qed
  qed
qed

lemma deref_cases:
  assumes "deref_ok ws a"
  obtains w r off where "a = \<lparr>de_width = w, de_basereg = ucast (r :: 4 word), de_offset = scast (off :: 16 word)\<rparr>"
    "w \<in> ws" "r \<le> 10" "\<not> r > 10"
proof -
  obtain r :: "4 word" where r: "de_basereg a = ucast r" "r \<le> 10" "\<not> r > 10" using assms nibble_cases_10 [of "de_basereg a"] by auto
  have "de_offset a = scast (ucast (de_offset a) :: 16 word)" using assms by (simp add: sext_off_def)
  then show ?thesis using that [of "de_width a" r "ucast (de_offset a)"] r assms by (cases a) simp
qed

lemma half_back [simp]: "ucast (scast (i :: 16 word) :: 32 word) = i"
  by (rule bit_word_eqI) (auto simp: bit_simps)

lemmas mem_decode = unmarshal_at_def makeMemOp_def getMemWidth_def getMemIsLoad_def width_to_opcode_def Let_def

lemma load_decodes:
  assumes "wf_ins p L (Mem a v True)" and "Inr [insts ! pc] = marshal_mem a v True"
  shows "unmarshal_at p insts pc = Inr (Mem a v True, False)"
proof -
  have "deref_ok {1, 2, 4, 8} a" using assms(1) by simp
  then obtain w r off where a: "a = \<lparr>de_width = w, de_basereg = ucast (r :: 4 word), de_offset = scast (off :: 16 word)\<rparr>"
    "w \<in> {1, 2, 4, 8}" "r \<le> 10" "\<not> r > 10" by (rule deref_cases)
  obtain x where x: "v = Reg x" "x < 10" using assms(1) by (cases v) simp_all
  have "x \<le> 10" using x(2) by simp
  then obtain s :: "4 word" where s: "x = ucast s" "s \<le> 10" "\<not> s > 10" by (rule nibble_cases_10)
  have "s \<noteq> 10" using x(2) s(1) by auto
  then show ?thesis using assms(2) a(2-4) s(2,3) unfolding a(1) x(1) s(1) marshal_mem_def Let_def
    by (auto simp: mem_decode)
qed

lemma store_decodes:
  assumes "wf_ins p L (Mem a v False)" and "Inr [insts ! pc] = marshal_mem a v False"
  shows "unmarshal_at p insts pc = Inr (Mem a v False, False)"
proof -
  have "deref_ok {1, 2, 4, 8} a" using assms(1) by simp
  then obtain w r off where a: "a = \<lparr>de_width = w, de_basereg = ucast (r :: 4 word), de_offset = scast (off :: 16 word)\<rparr>"
    "w \<in> {1, 2, 4, 8}" "r \<le> 10" "\<not> r > 10" by (rule deref_cases)
  show ?thesis
  proof (cases v)
    case (Imm i)
    then have "zero_extend (ucast i) = i" using assms(1) by simp
    then show ?thesis using assms(2) a(2-4) unfolding a(1) Imm marshal_mem_def Let_def by (auto simp: mem_decode)
  next
    case (Reg x)
    then have "x \<le> 10" using assms(1) by simp
    then obtain s :: "4 word" where s: "x = ucast s" "s \<le> 10" "\<not> s > 10" by (rule nibble_cases_10)
    then show ?thesis using assms(2) a(2-4) unfolding a(1) Reg s(1) marshal_mem_def Let_def by (auto simp: mem_decode)
  qed
qed

lemma packet_decodes:
  assumes "wf_ins p L (Packet w off r)" and "[insts ! pc] = marshal_packet w off r"
  shows "unmarshal_at p insts pc = Inr (Packet w off r, False)"
proof (cases r)
  case None
  then show ?thesis using assms unfolding None marshal_packet_def Let_def by (auto simp: mem_decode)
next
  case (Some x)
  then have "x \<le> 10" using assms(1) by simp
  then obtain s :: "4 word" where s: "x = ucast s" "s \<le> 10" "\<not> s > 10" by (rule nibble_cases_10)
  then show ?thesis using assms unfolding Some s(1) marshal_packet_def Let_def by (auto simp: mem_decode)
qed

lemma lock_add_decodes:
  assumes "wf_ins p L (LockAdd a x)" and "[insts ! pc] = marshal_lock_add a x"
  shows "unmarshal_at p insts pc = Inr (LockAdd a x, False)"
proof -
  have "deref_ok {4, 8} a" "x \<le> 10" using assms(1) by simp_all
  then obtain w r off where a: "a = \<lparr>de_width = w, de_basereg = ucast (r :: 4 word), de_offset = scast (off :: 16 word)\<rparr>"
    "w \<in> {4, 8}" "r \<le> 10" "\<not> r > 10" using deref_cases [of "{4, 8}" a] by blast
  obtain s :: "4 word" where s: "x = ucast s" "s \<le> 10" "\<not> s > 10" using \<open>x \<le> 10\<close> by (rule nibble_cases_10)
  show ?thesis using assms(2) a(2-4) s(2,3) unfolding a(1) s(1) marshal_lock_add_def by (auto simp: mem_decode)
qed

text \<open>A typed instruction has an encoding, of as many slots as \<open>size\<close> says, and its first opcode is not 0.\<close>

lemma ins_encodes:
  assumes "wf_ins p L ins"
  shows "\<exists>es. marshal_ins ins pc = Inr es \<and> length es = ins_size ins \<and> in_opcode (hd es) \<noteq> 0"
  using assms
proof (cases "(p, L, ins)" rule: wf_ins.cases)
  case (1 p L bop d v is64)
  then show ?thesis using assms by (auto simp: marshal_ins_def marshal_bin_def marshal_lddw_def width_to_opcode_def split: asm_value.splits prod.splits)
next
  case (2 p L bop d v is64)
  then show ?thesis by (cases bop; cases v; cases is64) (simp_all add: marshal_ins_def marshal_bin_def bin_code_def Let_def)
next
  case (3 p L u d is64)
  then show ?thesis by (cases u) (simp_all add: marshal_ins_def marshal_un_def)
next
  case (8 p L c t)
  then show ?thesis
    by (cases "co_op c"; cases "co_right c") (simp_all add: marshal_ins_def marshal_jmp_def cond_code_def Let_def)
next
  case (11 p L w off r)
  then show ?thesis using assms by (cases r) (auto simp: marshal_ins_def marshal_packet_def width_to_opcode_def Let_def)
qed (use assms in \<open>auto simp: marshal_ins_def marshal_lddw_def marshal_jmp_def marshal_mem_def marshal_lock_add_def width_to_opcode_def Let_def
  split: asm_value.splits\<close>)

lemma slots_at_len:
  assumes "slots_at insts pc es"
  shows "length es = 1 \<Longrightarrow> es = [insts ! pc] \<and> pc < length insts"
    and "length es = 2 \<Longrightarrow> es = [insts ! pc, insts ! (pc + 1)] \<and> pc + 1 < length insts"
proof -
  assume "length es = 1"
  then obtain e where "es = [e]" by (auto simp: length_Suc_conv)
  then show "es = [insts ! pc] \<and> pc < length insts" using slots_at_one assms by blast
next
  assume "length es = 2"
  then obtain e f where "es = [e, f]" by (auto simp: length_Suc_conv numeral_2_eq_2)
  then show "es = [insts ! pc, insts ! (pc + 1)] \<and> pc + 1 < length insts" using slots_at_two assms by blast
qed

lemma ins_decodes:
  assumes "wf_ins p L ins" and "encodable ins" and "marshal_ins ins (of_nat pc) = Inr es" and "slots_at insts pc es"
    and "L \<subseteq> targets insts" and "length insts \<le> 65536"
  shows "unmarshal_at p insts pc = Inr (ins, ins_size ins = 2)"
proof -
  have l: "length es = ins_size ins" using ins_encodes [OF assms(1), of "of_nat pc"] assms(3) by auto
  have one: "ins_size ins = 1 \<Longrightarrow> es = [insts ! pc]" and two: "ins_size ins = 2 \<Longrightarrow> es = [insts ! pc, insts ! (pc + 1)] \<and> pc + 1 < length insts"
    using slots_at_len [OF assms(4)] l by simp_all
  have pc: "pc < 65536" if "pc + 1 < length insts" using that assms(6) by simp
  show ?thesis
  proof (cases ins)
    case (Bin bop d v is64 lddw)
    then show ?thesis using assms(1,3) one two pc bin_decodes [of p L bop d v is64 insts pc] lddw_decodes [of p L bop d v is64 insts pc]
      by (cases lddw) (simp_all add: marshal_ins_def)
  next
    case (Mem a v ld)
    then show ?thesis using assms(1,3) one load_decodes [of p L a v insts pc] store_decodes [of p L a v insts pc]
      by (cases ld) (simp_all add: marshal_ins_def)
  next
    case (Jmp c t)
    then show ?thesis using assms(1-3) one jmp_decodes [of p L c t insts pc, OF _ _ _ assms(5,6)] by (simp add: marshal_ins_def)
  qed (use assms(1-3) one two pc in \<open>simp_all add: marshal_ins_def un_decodes call_decodes exit_decodes map_fd_decodes packet_decodes lock_add_decodes\<close>)
qed

subsection \<open>Programs\<close>

lemma ins_size_cases: "ins_size ins = 1 \<or> ins_size ins = 2"
  by (cases ins rule: ins_size.cases) simp_all

lemma get_labels_placed:
  "placed pc prog \<Longrightarrow> get_labels_from (of_nat pc) prog m l = (if l \<in> fst ` set prog then Some (word_of_int l) else m l)"
proof (induction pc prog arbitrary: m rule: placed.induct)
  case (2 pc k ins x prog)
  have "(of_nat pc + of_nat (ins_size ins) :: 16 word) = of_nat (pc + ins_size ins)" by simp
  then show ?case using 2 by (auto simp del: of_nat_add)
qed simp

lemma placed_bounds: "placed pc prog \<Longrightarrow> (l, ins, x) \<in> set prog \<Longrightarrow> int pc \<le> l \<and> l < int (pc + prog_size prog)"
proof (induction pc prog rule: placed.induct)
  case (2 pc k i y prog)
  then show ?case using ins_size_cases [of i] by (fastforce simp: prog_size_def)
qed simp

lemma resolve_placed:
  assumes "placed 0 prog" and "prog_size prog \<le> 65536" and "wf_ins p (set (map fst prog)) ins"
  shows "resolve_target (get_labels prog) ins = Inr ins"
proof (cases ins)
  case (Jmp c t)
  then have t: "t \<in> fst ` set prog" using assms(3) by (cases c) auto
  then have "0 \<le> t \<and> t < 65536" using placed_bounds [OF assms(1)] assms(2) by fastforce
  then have "uint (word_of_int t :: 16 word) = t" by (simp add: uint_word_of_int_eq take_bit_int_eq_self)
  then show ?thesis using Jmp t get_labels_placed [OF assms(1), of Map.empty t] by (simp add: get_labels_def)
qed simp_all

definition encoded_in :: "ebpf_inst list \<Rightarrow> int \<times> instruction \<times> 'l \<Rightarrow> bool" where
  "encoded_in insts e = (\<exists>es. marshal_ins (fst (snd e)) (of_nat (nat (fst e))) = Inr es \<and> slots_at insts (nat (fst e)) es)"

lemma marshal_from_encodes:
  assumes "placed pc prog" and "\<forall>e \<in> set prog. wf_ins p L (fst (snd e)) \<and> resolve_target m (fst (snd e)) = Inr (fst (snd e))"
  shows "\<exists>es. marshal_from m (of_nat pc) prog = Inr es \<and> length es = prog_size prog \<and>
    (\<forall>pre. length pre = pc \<longrightarrow> (\<forall>e \<in> set prog. encoded_in (pre @ es) e))"
  using assms
proof (induction pc prog rule: placed.induct)
  case (2 pc l ins x prog)
  have w: "wf_ins p L ins" "resolve_target m ins = Inr ins" "l = int pc" using 2(2,3) by simp_all
  obtain e where e: "marshal_ins ins (of_nat pc) = Inr e" "length e = ins_size ins" using ins_encodes [OF w(1)] by blast
  have n: "(of_nat pc + of_nat (ins_size ins) :: 16 word) = of_nat (pc + ins_size ins)" by simp
  obtain es where es: "marshal_from m (of_nat (pc + ins_size ins)) prog = Inr es" "length es = prog_size prog"
    "\<forall>pre. length pre = pc + ins_size ins \<longrightarrow> (\<forall>e \<in> set prog. encoded_in (pre @ es) e)"
    using 2(1) 2(2,3) by auto
  have m: "marshal_from m (of_nat pc) ((l, ins, x) # prog) = Inr (e @ es)" using w(2) e es(1) n by (simp del: of_nat_add)
  have "\<forall>y \<in> set ((l, ins, x) # prog). encoded_in (pre @ e @ es) y" if "length pre = pc" for pre
  proof -
    have "encoded_in (pre @ e @ es) (l, ins, x)" using e(1) w(3) that by (auto simp: encoded_in_def slots_at_def)
    moreover have "\<forall>y \<in> set prog. encoded_in (pre @ e @ es) y" using es(3) [rule_format, of "pre @ e"] that e(2) by simp
    ultimately show ?thesis by simp
  qed
  then show ?case using m e(2) es(2) by (auto simp: prog_size_def)
qed (simp add: prog_size_def)

lemma unmarshal_from_decodes:
  assumes "placed pc prog" and "\<forall>(l, ins, x) \<in> set prog. unmarshal_at p insts (nat l) = Inr (ins, ins_size ins = 2)"
    and "pc + prog_size prog = length insts"
  shows "unmarshal_from p insts li pc = Inr (map (\<lambda>(l, ins, x). (l, ins, if nat l < length li then Some (li ! nat l) else None)) prog)"
  using assms
proof (induction pc prog rule: placed.induct)
  case (1 pc)
  then show ?case by (subst unmarshal_from.simps) (simp add: prog_size_def)
next
  case (2 pc l ins x prog)
  have s: "pc + (if ins_size ins = 2 then 2 else 1) = pc + ins_size ins" using ins_size_cases [of ins] by auto
  have "pc < length insts" using 2(4) ins_size_cases [of ins] by (auto simp: prog_size_def)
  then show ?case using 2 by (subst unmarshal_from.simps) (simp add: s prog_size_def add.assoc)
qed

text \<open>
  C23: encoding and decoding. A typed program of at most 65536 slots that uses the forms the encoder
  writes is encoded without an error, in as many slots as its instructions take, and decoding the
  slots gives the same labels and instructions, with the line information of each position.
\<close>

theorem marshal_unmarshal_round_trip:
  assumes "well_typed p prog" and "\<forall>ins \<in> set (map (fst \<circ> snd) prog). encodable ins" and "prog \<noteq> []" and "prog_size prog \<le> 65536"
  shows "\<exists>insts. marshal prog = Inr insts \<and> length insts = prog_size prog \<and>
    unmarshal p insts li = Inr (Program (map (\<lambda>(l, ins, x). (l, ins, if nat l < length li then Some (li ! nat l) else None)) prog))"
proof -
  have w: "placed 0 prog" "\<And>e. e \<in> set prog \<Longrightarrow> wf_ins p (set (map fst prog)) (fst (snd e))" using assms(1) by (auto simp: well_typed_def)
  have "\<forall>e \<in> set prog. wf_ins p (set (map fst prog)) (fst (snd e)) \<and> resolve_target (get_labels prog) (fst (snd e)) = Inr (fst (snd e))"
    using w resolve_placed [OF w(1) assms(4)] by blast
  from marshal_from_encodes [OF w(1) this] obtain insts where i: "marshal prog = Inr insts" "length insts = prog_size prog"
    "\<And>e. e \<in> set prog \<Longrightarrow> encoded_in insts e" by (auto simp: marshal_def)
  have ops: "nat (fst e) < length insts \<and> in_opcode (insts ! nat (fst e)) \<noteq> 0" if e: "e \<in> set prog" for e
  proof -
    obtain es where es: "marshal_ins (fst (snd e)) (of_nat (nat (fst e))) = Inr es" "slots_at insts (nat (fst e)) es"
      using i(3) [OF e] by (auto simp: encoded_in_def)
    have "es \<noteq> []" "in_opcode (hd es) \<noteq> 0"
      using ins_encodes [OF w(2) [OF e], of "of_nat (nat (fst e))"] es(1) ins_size_cases [of "fst (snd e)"] by auto
    then show ?thesis using es(2) by (cases es) (auto simp: slots_at_def nth_append)
  qed
  have L: "set (map fst prog) \<subseteq> targets insts" using ops placed_bounds [OF w(1)] by (fastforce simp: targets_def)
  have "\<forall>(l, ins, x) \<in> set prog. unmarshal_at p insts (nat l) = Inr (ins, ins_size ins = 2)"
  proof clarify
    fix l ins x assume e: "(l, ins, x) \<in> set prog"
    then have en: "encodable ins" using assms(2) by force
    from i(3) [OF e] w(2) [OF e] en show "unmarshal_at p insts (nat l) = Inr (ins, ins_size ins = 2)"
      using ins_decodes [OF _ _ _ _ L] assms(4) i(2) by (auto simp: encoded_in_def)
  qed
  from unmarshal_from_decodes [OF w(1) this, of li] i(2)
  have "unmarshal_from p insts li 0 = Inr (map (\<lambda>(l, ins, x). (l, ins, if nat l < length li then Some (li ! nat l) else None)) prog)" by simp
  moreover have "insts \<noteq> []" using assms(3) i(2) ops by (cases prog) force+
  ultimately show ?thesis using i(1,2) by (auto simp: unmarshal_def unmarshal_seq_def)
qed

definition sample_platform :: platform where
  "sample_platform = \<lparr>pl_get_helper_prototype = (\<lambda>n. Inr \<lparr>hp_name = ''map_lookup_elem'', hp_return_type = RET_PTR_TO_MAP_VALUE_OR_NULL,
       hp_argument_type = [ARG_PTR_TO_MAP, ARG_PTR_TO_MAP_KEY, ARG_DONTCARE, ARG_DONTCARE, ARG_DONTCARE], hp_reallocate_packet = False\<rparr>),
     pl_is_helper_usable = (\<lambda>n. n = 1)\<rparr>"

definition sample_prog :: "(int \<times> instruction \<times> unit) list" where
  "sample_prog =
     [(0, LoadMapFd 1 5, ()),
      (2, Mem \<lparr>de_width = 8, de_basereg = 10, de_offset = -8\<rparr> (Imm 7) False, ()),
      (3, Call \<lparr>ca_func = 1, ca_name = ''map_lookup_elem'', ca_is_map_lookup = True, ca_reallocate_packet = False,
             ca_singles = [(K_MAP_FD, 1), (K_PTR_TO_MAP_KEY, 2)], ca_pairs = []\<rparr>, ()),
      (4, Jmp (Some \<lparr>co_op = EQ, co_left = 0, co_right = Imm 0, co_is64 = True\<rparr>) 6, ()),
      (5, Bin MOV 0 (Imm 1) True False, ()),
      (6, Exit, ())]"

theorem marshal_unmarshal_round_trip_witness:
  "\<exists>insts. marshal sample_prog = Inr insts \<and> length insts = 7 \<and> unmarshal sample_platform insts [(), ()] =
     Inr (Program (map (\<lambda>(l, ins, x). (l, ins, if nat l < 2 then Some () else None)) sample_prog))"
proof -
  have "well_typed sample_platform sample_prog" 
    by (simp add: well_typed_def sample_prog_def sample_platform_def sext_off_def sext_imm_def sign_extend_def zero_extend_def
        makeCall_def toArgSingleKind_def asm_bind_def)
  moreover have "\<forall>ins \<in> set (map (fst \<circ> snd) sample_prog). encodable ins" "sample_prog \<noteq> []" "prog_size sample_prog = 7"
    by (simp_all add: sample_prog_def prog_size_def)
  ultimately show ?thesis using marshal_unmarshal_round_trip [of sample_platform sample_prog "[(), ()]"] by (simp add: numeral_2_eq_2 cong: if_cong)
qed

text \<open>
  The encoder writes a comparison of the lower halves as one of the whole registers: read back,
  the program branches on the upper halves too.
\<close>

theorem marshal_widens_jmp32:
  "\<exists>insts. marshal [(0, Jmp (Some \<lparr>co_op = EQ, co_left = 0, co_right = Imm 0, co_is64 = False\<rparr>) 0, ())] = Inr insts \<and>
     unmarshal no_helpers insts ([] :: unit list) =
       Inr (Program [(0, Jmp (Some \<lparr>co_op = EQ, co_left = 0, co_right = Imm 0, co_is64 = True\<rparr>) 0, None)])"
  by (simp add: marshal_def get_labels_def marshal_ins_def marshal_jmp_def cond_code_def label_to_offset_def unmarshal_eval)

end
