(* ===== verification/Asm_Nondet.thy ===== *)
theory Asm_Nondet
  imports Asm_Assert Ebpf_Roundtrip
begin

text \<open>
  The nondeterministic graph has the paths of the program: every edge out of a conditional jump
  becomes a block that assumes the condition under which it is taken, the other edges stay.
\<close>

subsection \<open>One block\<close>

text \<open>A view of a graph: what one step adds to the nodes, the edges and the instructions.\<close>

definition adds :: "cfg \<Rightarrow> label set \<Rightarrow> (label \<times> label) set \<Rightarrow> (label \<Rightarrow> instruction list) \<Rightarrow> cfg \<Rightarrow> bool" where
  "adds c N E T c' = (nodes c' = nodes c \<union> N \<and> edges c' = edges c \<union> E \<and> pedges c' = pedges c \<union> E \<and> ts_of c' = (\<lambda>l. ts_of c l @ T l))"

lemma adds_refl [simp]: "adds c {} {} (\<lambda>l. []) c"
  by (simp add: adds_def)

lemma adds_trans: "adds c N E T c' \<Longrightarrow> adds c' N' E' T' c'' \<Longrightarrow> adds c (N \<union> N') (E \<union> E') (\<lambda>l. T l @ T' l) c''"
  by (auto simp: adds_def)

lemma adds_nodes: "adds c N E T c' \<Longrightarrow> nodes c' = nodes c \<union> N"
  by (simp add: adds_def)

lemma insert_adds: "adds c {l} {} (\<lambda>k. []) (cfg_insert l c)"
  by (simp add: adds_def)

lemma fold_insert_adds: "l \<in> nodes c \<Longrightarrow> adds c {} {} (\<lambda>k. if k = l then is else []) (fold (bb_insert l) is c)"
proof (induction "is" arbitrary: c)
  case (Cons i "is")
  then have "adds (bb_insert l i c) {} {} (\<lambda>k. if k = l then is else []) (fold (bb_insert l) is (bb_insert l i c))" by simp
  then show ?case using Cons.prems by (auto simp: adds_def fun_eq_iff)
qed (simp add: adds_def)

lemma edge_adds: "l \<in> nodes c \<Longrightarrow> adds c {k} {(l, k)} (\<lambda>k. []) (bb_link l k (cfg_insert k c))"
  "k \<in> nodes c \<Longrightarrow> adds c {l} {(l, k)} (\<lambda>k. []) (bb_link l k (cfg_insert l c))"
  by (auto simp: adds_def)

lemma fold_edges_add: "l \<in> nodes c \<Longrightarrow> adds c (set ks) (Pair l ` set ks) (\<lambda>k. []) (fold (\<lambda>k c. bb_link l k (cfg_insert k c)) ks c)"
proof (induction ks arbitrary: c)
  case (Cons k ks)
  from edge_adds(1) [OF Cons.prems, of k] Cons.IH [of "bb_link l k (cfg_insert k c)"] Cons.prems
  show ?case by (auto simp: adds_def)
qed simp

lemma assume_adds:
  assumes "mid \<in> nodes c"
  shows "adds c {make_jump mid n, n} {(mid, make_jump mid n), (make_jump mid n, n)}
    (\<lambda>l. if l = make_jump mid n then [Assume cond] else []) (add_assume mid (n, cond) c)"
  using assms by (auto simp: adds_def add_assume_def Let_def fun_eq_iff)

text \<open>The label before a successor: the label of the jump where the block has two.\<close>

definition succs :: "cfg \<Rightarrow> label \<Rightarrow> label set" where
  "succs c l = {k. (l, k) \<in> edges c}"

definition via :: "cfg \<Rightarrow> label \<Rightarrow> label \<Rightarrow> label" where
  "via c p k = (if card (succs c p) > 1 then make_jump p k else p)"

lemma get_node_succs: "p \<in> nodes c \<Longrightarrow> \<exists>b. get_node p c = Inr b \<and> bb_next b = succs c p"
  by (auto simp: get_node_def nodes_def succs_def edges_def)

lemma link_prevs_adds:
  assumes "set ps \<subseteq> nodes c" and "k \<in> nodes r"
  shows "\<exists>r'. link_prevs c k ps r = Inr r' \<and> adds r ((\<lambda>p. via c p k) ` set ps) ((\<lambda>p. (via c p k, k)) ` set ps) (\<lambda>l. []) r'"
  using assms
proof (induction ps arbitrary: r)
  case (Cons p ps)
  let ?r = "bb_link (via c p k) k (cfg_insert (via c p k) r)"
  obtain b where b: "get_node p c = Inr b" "bb_next b = succs c p" using get_node_succs [of p c] Cons.prems(1) by auto
  have a: "adds r {via c p k} {(via c p k, k)} (\<lambda>l. []) ?r" by (rule edge_adds(2) [OF Cons.prems(2)])
  then have "k \<in> nodes ?r" using Cons.prems(2) by (simp add: adds_def)
  then obtain r' where r': "link_prevs c k ps ?r = Inr r'"
    "adds ?r ((\<lambda>p. via c p k) ` set ps) ((\<lambda>p. (via c p k, k)) ` set ps) (\<lambda>l. []) r'" using Cons.IH [of ?r] Cons.prems(1) by auto
  have "link_prevs c k (p # ps) r = Inr r'" using r'(1) b by (simp add: Let_def via_def)
  moreover have "adds r ((\<lambda>p. via c p k) ` set (p # ps)) ((\<lambda>p. (via c p k, k)) ` set (p # ps)) (\<lambda>l. []) r'" using adds_trans [OF a r'(2)] by simp
  ultimately show ?case by blast
qed simp

text \<open>
  The graphs that \<open>instruction_seq_to_cfg\<close> makes: both lists of neighbours agree, labels have no second
  part, no edge leads to the entry, and a block with two successors ends with a conditional jump to
  one of them.
\<close>

definition branch :: "instruction list \<Rightarrow> (condition \<times> label) option" where
  "branch ts = (if ts = [] then None else (case last ts of Jmp (Some cond) t \<Rightarrow> Some (cond, Label t (-1)) | _ \<Rightarrow> None))"

definition det_graph :: "cfg \<Rightarrow> bool" where
  "det_graph c = (in_order c \<and> pedges c = edges c \<and> edges c \<subseteq> nodes c \<times> nodes c \<and> (\<forall>k \<in> nodes c. label_to k = -1) \<and>
     (\<forall>k. (k, label_entry) \<notin> edges c) \<and> finite (edges c) \<and>
     (\<forall>k \<in> nodes c. card (succs c k) \<le> 1 \<or> card (succs c k) = 2 \<and> (\<exists>cond t. branch (ts_of c k) = Some (cond, t) \<and> t \<in> succs c k)))"

text \<open>What the two edges of a conditional jump assume.\<close>

definition branch_cond :: "cfg \<Rightarrow> label \<Rightarrow> label \<Rightarrow> condition option" where
  "branch_cond c k n = (if card (succs c k) = 2 \<and> n \<in> succs c k
     then map_option (\<lambda>(cond, t). if n = t then cond else reverse_cond cond) (branch (ts_of c k)) else None)"

definition block_edges :: "cfg \<Rightarrow> label \<Rightarrow> (label \<times> label) set" where
  "block_edges c k = {(via c p k, k) | p. (p, k) \<in> edges c} \<union>
     (if card (succs c k) = 2 then (\<Union>n \<in> succs c k. {(k, make_jump k n), (make_jump k n, n)}) else Pair k ` succs c k)"

definition block_code :: "cfg \<Rightarrow> label \<Rightarrow> label \<Rightarrow> instruction list" where
  "block_code c k l = (if l = k then filter (Not \<circ> is_jmp) (ts_of c k) else []) @
     (if \<exists>n \<in> succs c k. l = make_jump k n then map Assume (case_option [] (\<lambda>x. [x]) (branch_cond c k (L (label_to l)))) else [])"

lemma branchE:
  assumes "branch ts = Some (cond, t)"
  obtains t' where "ts \<noteq> []" "last ts = Jmp (Some cond) t'" "t = Label t' (-1)"
  using assms by (auto simp: branch_def split: if_splits instruction.splits option.splits)

lemma det_block:
  assumes "det_graph c" and "(k, bb) \<in> set c"
  shows "map_of c k = Some bb" "k \<in> nodes c" "bb_next bb = succs c k" "bb_prev bb = {p. (p, k) \<in> edges c}" "bb_ts bb = ts_of c k"
proof -
  have "distinct (map fst c)" using assms(1) by (auto simp: det_graph_def in_order_def strict_sorted_iff)
  then show m: "map_of c k = Some bb" using assms(2) by simp
  then show "k \<in> nodes c" "bb_next bb = succs c k" "bb_ts bb = ts_of c k" by (auto simp: nodes_def succs_def edges_def ts_of_def)
  have "bb_prev bb = {p. (p, k) \<in> pedges c}" using m by (auto simp: pedges_def)
  then show "bb_prev bb = {p. (p, k) \<in> edges c}" using assms(1) by (simp add: det_graph_def)
qed

lemma det_finite: "det_graph c \<Longrightarrow> finite (succs c k) \<and> finite {p. (p, k) \<in> edges c}"
proof
  assume "det_graph c"
  then have f: "finite (edges c)" by (simp add: det_graph_def)
  show "finite (succs c k)" by (rule finite_subset [OF _ finite_imageI [OF f, of snd]]) (force simp: succs_def)
  show "finite {p. (p, k) \<in> edges c}" by (rule finite_subset [OF _ finite_imageI [OF f, of fst]]) force
qed

definition block_nodes :: "cfg \<Rightarrow> label \<Rightarrow> label set" where
  "block_nodes c k = insert k (fst ` block_edges c k \<union> snd ` block_edges c k)"

lemma two_succs:
  assumes "det_graph c" and "k \<in> nodes c" and "card (succs c k) = 2"
  obtains cond t f where "ts_of c k \<noteq> []" "last (ts_of c k) = Jmp (Some cond) t" "succs c k = {L t, f}" "f \<noteq> L t" "label_to f = -1" "Min (succs c k - {L t}) = f"
    "make_jump k (L t) \<noteq> make_jump k f"
proof -
  obtain cond t where b: "branch (ts_of c k) = Some (cond, t)" "t \<in> succs c k"
    using assms by (force simp: det_graph_def)
  then obtain t' where t: "ts_of c k \<noteq> []" "last (ts_of c k) = Jmp (Some cond) t'" "t = L t'" by (auto elim: branchE)
  have "card (succs c k - {t}) = 1" using assms(3) b(2) by simp
  then obtain f where f: "succs c k - {t} = {f}" by (auto simp: card_1_singleton_iff)
  then have s: "succs c k = {L t', f}" "f \<noteq> L t'" using b(2) t(3) by auto
  have "f \<in> nodes c" using assms(1) s(1) by (auto simp: det_graph_def succs_def)
  then have to: "label_to f = -1" using assms(1) by (auto simp: det_graph_def)
  have "make_jump k (L t') \<noteq> make_jump k f" using s(2) to by (cases f) (auto simp: make_jump_def)
  then show ?thesis using that [OF t(1,2) s to] f t(3) by simp
qed

lemma nondet_block_adds:
  assumes "det_graph c" and "(k, bb) \<in> set c"
  shows "\<exists>r'. nondet_block c (k, bb) r = Inr r' \<and> adds r (block_nodes c k) (block_edges c k) (block_code c k) r'"
proof -
  note b = det_block [OF assms] and fin = det_finite [OF assms(1), of k]
  let ?ts = "filter (Not \<circ> is_jmp) (ts_of c k)" and ?P = "{p. (p, k) \<in> edges c}"
  define r1 where "r1 = fold (bb_insert k) ?ts (cfg_insert k r)"
  have a1: "adds r {k} {} (\<lambda>l. if l = k then ?ts else []) r1"
    using adds_trans [OF insert_adds [of r k] fold_insert_adds [of k "cfg_insert k r" ?ts]] unfolding r1_def by (simp cong: if_cong)
  have "?P \<subseteq> nodes c" using assms(1) by (auto simp: det_graph_def)
  moreover have "k \<in> nodes r1" using a1 by (simp add: adds_def)
  ultimately obtain r2 where r2: "link_prevs c k (sorted_list_of_set ?P) r1 = Inr r2"
    "adds r1 ((\<lambda>p. via c p k) ` ?P) ((\<lambda>p. (via c p k, k)) ` ?P) (\<lambda>l. []) r2"
    using link_prevs_adds [of "sorted_list_of_set ?P" c k r1] fin by auto
  have a2: "adds r (insert k ((\<lambda>p. via c p k) ` ?P)) ((\<lambda>p. (via c p k, k)) ` ?P) (\<lambda>l. if l = k then ?ts else []) r2"
    using adds_trans [OF a1 r2(2)] by (simp cong: if_cong)
  then have k2: "k \<in> nodes r2" by (simp add: adds_def)
  show ?thesis
  proof (cases "card (succs c k) = 2")
    case False
    let ?r = "fold (\<lambda>l res. bb_link k l (cfg_insert l res)) (sorted_list_of_set (succs c k)) r2"
    have e: "nondet_block c (k, bb) r = Inr ?r"
      using False r2(1) unfolding nondet_block_def prod.case b(3-5) Let_def r1_def [symmetric] by simp
    have a3: "adds r2 (succs c k) (Pair k ` succs c k) (\<lambda>l. []) ?r"
      using fold_edges_add [OF k2, of "sorted_list_of_set (succs c k)"] fin by simp
    have n: "branch_cond c k n = None" for n using False by (simp add: branch_cond_def)
    have E: "block_edges c k = (\<lambda>p. (via c p k, k)) ` ?P \<union> Pair k ` succs c k" using False by (auto simp: block_edges_def)
    have N: "block_nodes c k = insert k ((\<lambda>p. via c p k) ` ?P) \<union> succs c k" unfolding block_nodes_def E by (auto simp: image_Un image_image)
    have T: "block_code c k = (\<lambda>l. (if l = k then ?ts else []) @ [])" by (auto simp: block_code_def n fun_eq_iff)
    show ?thesis using e adds_trans [OF a2 a3] unfolding E N T by blast
  next
    case True
    from two_succs [OF assms(1) b(2) True] obtain cond t f where ts: "ts_of c k \<noteq> []" and t: "last (ts_of c k) = Jmp (Some cond) t" "succs c k = {L t, f}" "f \<noteq> L t"
      "label_to f = -1" "Min (succs c k - {L t}) = f" "make_jump k (L t) \<noteq> make_jump k f" .
    let ?j = "make_jump k (L t)" and ?i = "make_jump k f"
    let ?r3 = "add_assume k (L t, cond) r2" and ?r4 = "add_assume k (f, reverse_cond cond) (add_assume k (L t, cond) r2)"
    have e: "nondet_block c (k, bb) r = Inr ?r4"
      using True r2(1) unfolding nondet_block_def prod.case b(3-5) Let_def r1_def [symmetric] t(5) [symmetric] by (simp add: t(1) ts)
    have a3: "adds r2 {?j, L t} {(k, ?j), (?j, L t)} (\<lambda>l. if l = ?j then [Assume cond] else []) ?r3" by (rule assume_adds [OF k2])
    then have "k \<in> nodes ?r3" using k2 by (simp add: adds_def)
    then have a4: "adds ?r3 {?i, f} {(k, ?i), (?i, f)} (\<lambda>l. if l = ?i then [Assume (reverse_cond cond)] else []) ?r4" by (rule assume_adds)
    have E: "block_edges c k = (\<lambda>p. (via c p k, k)) ` ?P \<union> {(k, ?j), (?j, L t)} \<union> {(k, ?i), (?i, f)}"
      using True by (auto simp: block_edges_def t(2))
    have N: "block_nodes c k = insert k ((\<lambda>p. via c p k) ` ?P) \<union> {?j, L t} \<union> {?i, f}" unfolding block_nodes_def E by (auto simp: image_Un image_image)
    have C: "branch_cond c k (L t) = Some cond" "branch_cond c k f = Some (reverse_cond cond)"
      using True t(3) ts by (simp_all add: branch_cond_def branch_def t(1,2))
    have lt: "L (label_to ?j) = L t" "L (label_to ?i) = f" using t(4) by (cases f; simp add: make_jump_def)+
    have T: "block_code c k = (\<lambda>l. ((if l = k then ?ts else []) @ (if l = ?j then [Assume cond] else [])) @
        (if l = ?i then [Assume (reverse_cond cond)] else []))"
      using t(6) by (auto simp: block_code_def fun_eq_iff t(2) C lt)
    show ?thesis using e adds_trans [OF adds_trans [OF a2 a3] a4] unfolding E N T by blast
  qed
qed

subsection \<open>The whole graph\<close>

lemma nondet_blocks_adds:
  assumes "det_graph c" and "set bs \<subseteq> set c"
  shows "\<exists>r'. nondet_blocks c bs r = Inr r' \<and> adds r (\<Union>k \<in> fst ` set bs. block_nodes c k) (\<Union>k \<in> fst ` set bs. block_edges c k)
    (\<lambda>l. concat (map (\<lambda>b. block_code c (fst b) l) bs)) r'"
  using assms(2)
proof (induction bs arbitrary: r)
  case (Cons b bs)
  obtain k x where b: "b = (k, x)" by (cases b)
  then obtain r1 where r1: "nondet_block c b r = Inr r1" "adds r (block_nodes c k) (block_edges c k) (block_code c k) r1"
    using nondet_block_adds [OF assms(1), of k x r] Cons.prems by auto
  obtain r' where r': "nondet_blocks c bs r1 = Inr r'" "adds r1 (\<Union>k \<in> fst ` set bs. block_nodes c k) (\<Union>k \<in> fst ` set bs. block_edges c k)
      (\<lambda>l. concat (map (\<lambda>b. block_code c (fst b) l) bs)) r'" using Cons.IH [of r1] Cons.prems by auto
  have "nondet_blocks c (b # bs) r = Inr r'" using r1(1) r'(1) by simp
  then show ?case using adds_trans [OF r1(2) r'(2)] by (intro exI [of _ r']) (simp add: b)
qed simp

definition nondet_edges :: "cfg \<Rightarrow> (label \<times> label) set" where
  "nondet_edges c = {(a, b). (a, b) \<in> edges c \<and> card (succs c a) \<noteq> 2} \<union>
     {(a, make_jump a b) | a b. (a, b) \<in> edges c \<and> card (succs c a) = 2} \<union> {(make_jump a b, b) | a b. (a, b) \<in> edges c \<and> card (succs c a) = 2}"

lemma all_block_edges:
  assumes "det_graph c"
  shows "(\<Union>k \<in> nodes c. block_edges c k) = nondet_edges c"
proof -
  have n: "a \<in> nodes c" "b \<in> nodes c" if "(a, b) \<in> edges c" for a b using assms that by (auto simp: det_graph_def)
  have v: "via c a b = (if card (succs c a) = 2 then make_jump a b else a)" if "(a, b) \<in> edges c" for a b
    using assms n(1) [OF that] by (auto simp: det_graph_def via_def)
  show ?thesis
  proof (intro equalityI subsetI)
    have P: "(via c p k, k) \<in> nondet_edges c" if e: "(p, k) \<in> edges c" for p k
      unfolding v [OF e] using e by (auto simp: nondet_edges_def)
    fix x assume "x \<in> (\<Union>k \<in> nodes c. block_edges c k)"
    then obtain k where "x \<in> block_edges c k" by blast
    then consider p where "x = (via c p k, k)" "(p, k) \<in> edges c"
      | n where "card (succs c k) = 2" "(k, n) \<in> edges c" "x = (k, make_jump k n) \<or> x = (make_jump k n, n)"
      | n where "card (succs c k) \<noteq> 2" "(k, n) \<in> edges c" "x = (k, n)"
      by (auto simp: block_edges_def succs_def split: if_splits)
    then show "x \<in> nondet_edges c"
    proof cases
      case 1
      then show ?thesis using P by simp
    qed (auto simp: nondet_edges_def)
  next
    fix x assume "x \<in> nondet_edges c"
    then consider a b where "x = (a, b)" "(a, b) \<in> edges c" "card (succs c a) \<noteq> 2"
      | a b where "x = (a, make_jump a b) \<or> x = (make_jump a b, b)" "(a, b) \<in> edges c" "card (succs c a) = 2"
      by (auto simp: nondet_edges_def)
    then have "\<exists>k \<in> nodes c. x \<in> block_edges c k"
    proof cases
      case 1
      then show ?thesis using n(1) by (intro bexI [of _ a]) (auto simp: block_edges_def succs_def)
    next
      case 2
      then show ?thesis using n(1) by (intro bexI [of _ a]) (auto simp: block_edges_def succs_def)
    qed
    then show "x \<in> (\<Union>k \<in> nodes c. block_edges c k)" by blast
  qed
qed

lemma concat_only:
  assumes "distinct (map fst c)" and "k \<in> fst ` set c" and "\<And>j. j \<in> fst ` set c \<Longrightarrow> j \<noteq> k \<Longrightarrow> g j = []"
  shows "concat (map (\<lambda>b. g (fst b)) c) = g k"
  using assms
proof (induction c)
  case (Cons b c)
  show ?case
  proof (cases "fst b = k")
    case True
    have "g (fst b') = []" if b': "b' \<in> set c" for b'
    proof -
      have "fst b' \<noteq> k" using Cons.prems(1) True imageI [OF b', of fst] by (metis distinct.simps(2) list.simps(9) set_map)
      then show ?thesis using Cons.prems(3) [of "fst b'"] b' by simp
    qed
    then show ?thesis using True by simp
  next
    case False
    then have "k \<in> fst ` set c" "g (fst b) = []" using Cons.prems(2,3) by auto
    then show ?thesis using Cons.IH Cons.prems(1,3) by simp
  qed
qed simp

lemma det_labels:
  assumes "det_graph c" and "(k, n) \<in> edges c"
  shows "label_to k = -1" "label_to n = -1" "label_from n \<noteq> -1" "k \<in> nodes c" "n \<in> nodes c"
proof -
  show l: "label_to k = -1" "label_to n = -1" "k \<in> nodes c" "n \<in> nodes c" using assms by (auto simp: det_graph_def)
  have "n \<noteq> label_entry" using assms by (auto simp: det_graph_def)
  then show "label_from n \<noteq> -1" using l(2) by (cases n) (auto simp: label_entry_def)
qed

lemma same_from: "label_to a = -1 \<Longrightarrow> label_to b = -1 \<Longrightarrow> label_from a = label_from b \<Longrightarrow> a = b"
  by (cases a; cases b) simp

lemma code_own:
  assumes "det_graph c" and "j \<in> nodes c" and "j \<noteq> k" and "label_to k = -1"
  shows "block_code c j k = []"
proof -
  have "k \<noteq> make_jump j n" if "n \<in> succs c j" for n
    using det_labels(3) [OF assms(1), of j n] that assms(4) by (auto simp: succs_def make_jump_def)
  then show ?thesis using assms(3) by (auto simp: block_code_def)
qed

lemma code_jump:
  assumes "det_graph c" and "(k, n) \<in> edges c" and "j \<in> nodes c" and "j \<noteq> k"
  shows "block_code c j (make_jump k n) = []"
proof -
  note k = det_labels [OF assms(1,2)]
  have j: "label_to j = -1" using assms(1,3) by (auto simp: det_graph_def)
  have "make_jump k n \<noteq> make_jump j n'" for n' using same_from [OF j k(1)] assms(4) by (auto simp: make_jump_def)
  moreover have "make_jump k n \<noteq> j" using j k(3) by (auto simp: make_jump_def)
  ultimately show ?thesis by (auto simp: block_code_def)
qed

lemma to_nondet_graph:
  assumes "det_graph c" and "label_entry \<in> nodes c" and "label_exit \<in> nodes c"
  shows "\<exists>r. to_nondet c = Inr r \<and> edges r = nondet_edges c \<and> pedges r = nondet_edges c \<and>
    (\<forall>k \<in> nodes c. ts_of r k = filter (Not \<circ> is_jmp) (ts_of c k)) \<and>
    (\<forall>k n cond. branch_cond c k n = Some cond \<longrightarrow> ts_of r (make_jump k n) = [Assume cond])"
proof -
  have N: "fst ` set c = nodes c" by (simp add: nodes_def dom_map_of_conv_image_fst)
  have d: "distinct (map fst c)" using assms(1) by (auto simp: det_graph_def in_order_def strict_sorted_iff)
  obtain r where r: "to_nondet c = Inr r" "edges r = nondet_edges c" "pedges r = nondet_edges c"
    "ts_of r = (\<lambda>l. concat (map (\<lambda>b. block_code c (fst b) l) c))"
    using nondet_blocks_adds [OF assms(1) order_refl, of cfg_new] unfolding N all_block_edges [OF assms(1)] to_nondet_def
    by (auto simp: adds_def)
  have "ts_of r k = filter (Not \<circ> is_jmp) (ts_of c k)" if k: "k \<in> nodes c" for k
  proof -
    have to: "label_to k = -1" using assms(1) k by (auto simp: det_graph_def)
    have "ts_of r k = block_code c k k"
      unfolding r(4) using concat_only [OF d, of k "\<lambda>j. block_code c j k"] code_own [OF assms(1) _ _ to] k N by simp
    moreover have "k \<noteq> make_jump k n" if "n \<in> succs c k" for n
      using det_labels(3) [OF assms(1), of k n] that to by (cases k) (auto simp: succs_def make_jump_def)
    ultimately show ?thesis by (auto simp: block_code_def)
  qed
  moreover have "ts_of r (make_jump k n) = [Assume cond]" if b: "branch_cond c k n = Some cond" for k n cond
  proof -
    have e: "(k, n) \<in> edges c" using b by (auto simp: branch_cond_def succs_def split: if_splits)
    note l = det_labels [OF assms(1) e]
    have "ts_of r (make_jump k n) = block_code c k (make_jump k n)"
      unfolding r(4) using concat_only [OF d, of k "\<lambda>j. block_code c j (make_jump k n)"] code_jump [OF assms(1) e] l(4) N by simp
    moreover have "make_jump k n \<noteq> k" "L (label_to (make_jump k n)) = n" using l(1-3) by (cases k; cases n; simp add: make_jump_def)+
    moreover have "\<exists>n' \<in> succs c k. make_jump k n = make_jump k n'" using e by (auto simp: succs_def)
    ultimately show ?thesis using b by (simp add: block_code_def)
  qed
  ultimately show ?thesis using r(1-3) by blast
qed

lemma nondet_succs:
  assumes "det_graph c" and "edges r = nondet_edges c" and "k \<in> nodes c"
  shows "card (succs c k) \<noteq> 2 \<Longrightarrow> succs r k = succs c k" and "card (succs c k) = 2 \<Longrightarrow> succs r k = make_jump k ` succs c k"
    and "card (succs c k) = 2 \<Longrightarrow> n \<in> succs c k \<Longrightarrow> succs r (make_jump k n) = {n}"
proof -
  have k: "label_to k = -1" using assms(1,3) by (auto simp: det_graph_def)
  have no: "make_jump a b \<noteq> k" if "(a, b) \<in> edges c" for a b using det_labels(3) [OF assms(1) that] k by (auto simp: make_jump_def)
  show "card (succs c k) \<noteq> 2 \<Longrightarrow> succs r k = succs c k" "card (succs c k) = 2 \<Longrightarrow> succs r k = make_jump k ` succs c k"
    unfolding succs_def [of r] assms(2) nondet_edges_def using no by (auto simp: succs_def)
  assume two: "card (succs c k) = 2" and n: "n \<in> succs c k"
  have e: "(k, n) \<in> edges c" using n by (simp add: succs_def)
  have same: "a = k \<and> b = n" if "make_jump a b = make_jump k n" "(a, b) \<in> edges c" for a b
    using that det_labels [OF assms(1) that(2)] det_labels [OF assms(1) e] same_from [of a k] same_from [of b n] by (simp add: make_jump_def)
  have from_no: "a \<noteq> make_jump k n" if "(a, b) \<in> edges c" for a b
    using det_labels(1) [OF assms(1) that] det_labels(3) [OF assms(1) e] by (auto simp: make_jump_def)
  show "succs r (make_jump k n) = {n}"
  proof (intro equalityI subsetI)
    fix x assume "x \<in> succs r (make_jump k n)"
    then have "(make_jump k n, x) \<in> nondet_edges c" by (simp add: succs_def assms(2))
    then obtain a where "make_jump k n = make_jump a x" "(a, x) \<in> edges c" using from_no by (auto simp: nondet_edges_def)
    then show "x \<in> {n}" using same [of a x] by simp
  next
    fix x assume "x \<in> {n}"
    then show "x \<in> succs r (make_jump k n)" using two e by (auto simp: succs_def assms(2) nondet_edges_def)
  qed
qed

subsection \<open>Programs\<close>

lemma placed_zip: "placed pc prog \<Longrightarrow> (e, f) \<in> set (zip prog (tl prog)) \<Longrightarrow> fst f = fst e + int (ins_size (fst (snd e)))"
proof (induction pc prog rule: placed.induct)
  case (2 pc l ins x prog)
  show ?case
  proof (cases prog)
    case (Cons y ys)
    have p: "placed (pc + ins_size ins) prog" "l = int pc" using 2(2) by simp_all
    then have "fst y = int (pc + ins_size ins)" using Cons by (cases y) simp
    moreover have "e = (l, ins, x) \<and> f = y \<or> (e, f) \<in> set (zip prog (tl prog))" using 2(3) Cons by auto
    ultimately show ?thesis using 2(1) [OF p(1)] p(2) by auto
  qed (use 2 in simp)
qed simp

lemma placed_distinct: "placed pc prog \<Longrightarrow> distinct (map fst prog)"
proof (induction pc prog rule: placed.induct)
  case (2 pc l ins x prog)
  have "fst e \<noteq> l" if "e \<in> set prog" for e
  proof -
    obtain k i y where e: "e = (k, i, y)" by (cases e)
    have "placed (pc + ins_size ins) prog" using 2(2) by simp
    then have "int (pc + ins_size ins) \<le> k" using placed_bounds [of "pc + ins_size ins" prog k i y] that e by simp
    then show ?thesis using 2(2) ins_size_cases [of ins] e by auto
  qed
  then have "l \<notin> fst ` set prog" by blast
  then show ?case using 2 by simp
qed simp

lemma zip_tl_next: "e \<in> set xs \<Longrightarrow> e \<noteq> last xs \<Longrightarrow> \<exists>f. (e, f) \<in> set (zip xs (tl xs))"
proof (induction xs)
  case (Cons x xs)
  then show ?case by (cases xs) auto
qed simp

lemma same_label: "placed pc prog \<Longrightarrow> e \<in> set prog \<Longrightarrow> e' \<in> set prog \<Longrightarrow> fst e = fst e' \<Longrightarrow> e = e'"
  using placed_distinct [of pc prog] by (meson distinct_map inj_onD)

lemma code_at_placed: "placed pc prog \<Longrightarrow> (l, ins, x) \<in> set prog \<Longrightarrow> code_at prog (L l) = [ins]"
proof -
  assume p: "placed pc prog" and e: "(l, ins, x) \<in> set prog"
  have "filter (\<lambda>e. fst e = l) prog = [(l, ins, x)]"
    using placed_distinct [OF p] e
  proof (induction prog)
    case (Cons y ys)
    have "l \<in> fst ` set ys" if "(l, ins, x) \<in> set ys" using imageI [OF that, of fst] by simp
    moreover have "filter (\<lambda>e. fst e = l) ys = []" if "l \<notin> fst ` set ys" using that by (auto simp: filter_empty_conv)
    ultimately show ?case using Cons by (cases "y = (l, ins, x)") auto
  qed simp
  then show ?thesis by (simp add: code_at_def)
qed

definition own_succs :: "int \<Rightarrow> instruction \<Rightarrow> label set" where
  "own_succs l ins = (if has_fall ins then {L (l + int (ins_size ins))} else {}) \<union> set_option (get_jump ins) \<union> (if ins = Exit then {label_exit} else {})"

lemma prog_succs:
  assumes "placed 0 prog" and "falls_from None prog = None" and "(l, ins, x) \<in> set prog"
  shows "{k. (L l, k) \<in> prog_edges prog} = own_succs l ins"
proof -
  have l0: "0 \<le> l" using placed_bounds [OF assms(1,3)] by simp
  have only: "e = (l, ins, x)" if "e \<in> set prog" "fst e = l" for e using same_label [OF assms(1) that(1) assms(3)] that(2) by simp
  have own: "(L l, k) \<in> (\<Union>e \<in> set prog. own_edges e) \<longleftrightarrow> k \<in> set_option (get_jump ins) \<union> (if ins = Exit then {label_exit} else {})" for k
  proof
    assume "(L l, k) \<in> (\<Union>e \<in> set prog. own_edges e)"
    then obtain e where e: "e \<in> set prog" "(L l, k) \<in> own_edges e" by blast
    then have "fst e = l" by (auto simp: own_edges_def split: prod.splits option.splits if_splits)
    then have "e = (l, ins, x)" by (rule only [OF e(1)])
    then show "k \<in> set_option (get_jump ins) \<union> (if ins = Exit then {label_exit} else {})"
      using e(2) by (auto simp: own_edges_def split: option.splits if_splits)
  next
    assume "k \<in> set_option (get_jump ins) \<union> (if ins = Exit then {label_exit} else {})"
    then have "(L l, k) \<in> own_edges (l, ins, x)" by (auto simp: own_edges_def split: if_splits)
    then show "(L l, k) \<in> (\<Union>e \<in> set prog. own_edges e)" using assms(3) by blast
  qed
  have fall: "(L l, k) \<in> fall_edges prog \<longleftrightarrow> has_fall ins \<and> k = L (l + int (ins_size ins))" for k
  proof
    assume "(L l, k) \<in> fall_edges prog"
    then obtain e f where e: "(e, f) \<in> set (zip prog (tl prog))" "has_fall (fst (snd e))" "fst e = l" "k = L (fst f)"
      by (auto simp: fall_edges_def)
    have "e \<in> set prog" using e(1) by (cases e; cases f) (blast dest: set_zip_leftD)
    then have "e = (l, ins, x)" using only e(3) by blast
    then show "has_fall ins \<and> k = L (l + int (ins_size ins))" using e placed_zip [OF assms(1) e(1)] by simp
  next
    assume k: "has_fall ins \<and> k = L (l + int (ins_size ins))"
    have "prog \<noteq> []" using assms(3) by auto
    then have "\<not> has_fall (fst (snd (last prog)))" using assms(2) by (simp add: falls_from_def split: if_splits)
    then have "(l, ins, x) \<noteq> last prog" using k by (metis fst_conv snd_conv)
    then obtain f where f: "((l, ins, x), f) \<in> set (zip prog (tl prog))" using zip_tl_next [OF assms(3)] by blast
    have "fst f = l + int (ins_size ins)" using placed_zip [OF assms(1) f] by simp
    then show "(L l, k) \<in> fall_edges prog" using f k by (force simp: fall_edges_def)
  qed
  have "(L l, k) \<notin> start_edges (Some label_entry) prog" for k using l0 by (auto simp: start_edges_def label_entry_def split: list.splits)
  moreover have "start_edges None prog = {}" by (simp add: start_edges_def)
  ultimately show ?thesis using own fall by (auto simp: prog_edges_def seq_edges_def own_succs_def)
qed

text \<open>A well-typed program that does not run off its end has a graph of that kind.\<close>

lemma well_typed_graph:
  assumes "well_typed p prog" and "falls_from None prog = None"
  obtains c where "instruction_seq_to_cfg prog b = Inr c" "nodes c = {label_entry, label_exit} \<union> L ` fst ` set prog"
    "ts_of c = code_at prog" "edges c = prog_edges prog" "pedges c = prog_edges prog" "in_order c"
proof -
  have w: "wf_ins p (fst ` set prog) (fst (snd e))" if "e \<in> set prog" for e using assms(1) that by (auto simp: well_typed_def)
  have u: "\<forall>e \<in> set prog. \<not> is_undefined (fst (snd e))"
  proof
    fix e assume "e \<in> set prog"
    from w [OF this] show "\<not> is_undefined (fst (snd e))" by (cases "fst (snd e)") simp_all
  qed
  have "t \<in> L ` fst ` set prog" if j: "t \<in> jump_targets prog" for t
  proof -
    obtain e where e: "e \<in> set prog" "get_jump (fst (snd e)) = Some t" using j unfolding jump_targets_def by blast
    then obtain c t' where "fst (snd e) = Jmp c t'" "t = L t'" by (cases "fst (snd e)" rule: get_jump.cases) auto
    then show ?thesis using w [OF e(1)] by (cases c) auto
  qed
  then have "L ` fst ` set prog \<union> jump_targets prog = L ` fst ` set prog" by blast
  then show ?thesis using program_graph [OF u assms(2), of b] that by (metis Un_assoc)
qed

lemma own_succs_card:
  "card (own_succs l ins) \<le> 1 \<or> card (own_succs l ins) = 2 \<and> (\<exists>cond t. branch [ins] = Some (cond, t) \<and> t \<in> own_succs l ins)"
  by (cases ins rule: has_fall.cases) (auto simp: own_succs_def card_insert_if branch_def)

lemma program_det_graph:
  assumes "well_typed p prog" and "falls_from None prog = None" and "nodes c = {label_entry, label_exit} \<union> L ` fst ` set prog"
    and "ts_of c = code_at prog" and "edges c = prog_edges prog" and "pedges c = prog_edges prog" and "in_order c"
  shows "det_graph c" and "\<And>l ins x. (l, ins, x) \<in> set prog \<Longrightarrow> succs c (L l) = own_succs l ins"
    and "succs c label_entry = (case prog of [] \<Rightarrow> {} | e # _ \<Rightarrow> {L (fst e)})"
proof -
  have p: "placed 0 prog" using assms(1) by (simp add: well_typed_def)
  show s: "succs c (L l) = own_succs l ins" if "(l, ins, x) \<in> set prog" for l ins x
    using prog_succs [OF p assms(2) that] by (simp add: succs_def assms(5))
  have lab: "0 \<le> fst e" if "e \<in> set prog" for e using placed_bounds [OF p, of "fst e" "fst (snd e)" "snd (snd e)"] that by simp
  have fin: "finite (edges c)" unfolding assms(5) prog_edges_def seq_edges_def
    by (auto simp: start_edges_def fall_edges_def own_edges_def split: option.splits list.splits)
  show entry: "succs c label_entry = (case prog of [] \<Rightarrow> {} | e # _ \<Rightarrow> {L (fst e)})"
  proof -
    have "(label_entry, k) \<notin> fall_edges prog" for k using lab by (force simp: fall_edges_def label_entry_def dest: set_zip_leftD)
    moreover have "(label_entry, k) \<notin> own_edges e" if "e \<in> set prog" for k e
      using lab [OF that] by (auto simp: own_edges_def label_entry_def split: prod.splits option.splits if_splits)
    ultimately show ?thesis by (cases prog) (auto simp: succs_def assms(5) prog_edges_def seq_edges_def start_edges_def)
  qed
  have exit: "succs c label_exit = {}"
  proof -
    have "(label_exit, k) \<notin> fall_edges prog" for k using lab by (force simp: fall_edges_def label_exit_def dest: set_zip_leftD)
    moreover have "(label_exit, k) \<notin> own_edges e" if "e \<in> set prog" for k e
      using lab [OF that] by (auto simp: own_edges_def label_exit_def split: prod.splits option.splits if_splits)
    moreover have "label_exit \<noteq> label_entry" by (simp add: label_entry_def label_exit_def)
    ultimately show ?thesis by (cases prog) (auto simp: succs_def assms(5) prog_edges_def seq_edges_def start_edges_def)
  qed
  have targets: "0 \<le> label_from t" if e: "(l, ins, x) \<in> set prog" and t: "get_jump ins = Some t" for l ins x t
  proof -
    have "wf_ins p (fst ` set prog) ins" using assms(1) e by (force simp: well_typed_def)
    then have "label_from t \<in> fst ` set prog" using t
      by (cases "(p, fst ` set prog, ins)" rule: wf_ins.cases) (auto intro: image_eqI [of _ fst, OF fst_conv [symmetric]])
    then show ?thesis using lab by auto
  qed
  have no_entry: "label_entry \<notin> succs c k" if k: "k \<in> nodes c" for k
  proof -
    consider "k = label_entry" | "k = label_exit" | l ins x where "k = L l" "(l, ins, x) \<in> set prog" using k assms(3) by auto
    then show ?thesis
    proof cases
      case 1
      then show ?thesis using entry lab [of "hd prog"] by (cases prog) (auto simp: label_entry_def)
    next
      case (3 l ins x)
      have "0 \<le> l" using lab [OF 3(2)] by simp
      then show ?thesis using s [OF 3(2)] targets [OF 3(2)] 3(1)
        by (auto simp: own_succs_def label_entry_def label_exit_def split: if_splits)
    qed (simp add: exit)
  qed
  have few: "card (succs c k) \<le> 1 \<or> card (succs c k) = 2 \<and> (\<exists>cond t. branch (ts_of c k) = Some (cond, t) \<and> t \<in> succs c k)" if k: "k \<in> nodes c" for k
  proof -
    consider "k = label_entry" | "k = label_exit" | l ins x where "k = L l" "(l, ins, x) \<in> set prog" using k assms(3) by auto
    then show ?thesis
    proof cases
      case 1
      then show ?thesis using entry by (cases prog) simp_all
    next
      case (3 l ins x)
      then show ?thesis using s [OF 3(2)] own_succs_card [of l ins] code_at_placed [OF p 3(2)] by (simp add: assms(4))
    qed (simp add: exit)
  qed
  have ends: "a \<in> nodes c \<and> b \<in> nodes c" if "(a, b) \<in> edges c" for a b
  proof -
    have "(a, b) \<in> pedges c" using that assms(5,6) by simp
    then show ?thesis using that by (auto simp: edges_def pedges_def nodes_def)
  qed
  show "det_graph c" unfolding det_graph_def
  proof (intro conjI allI ballI)
    show "edges c \<subseteq> nodes c \<times> nodes c" using ends by auto
    show "label_to k = -1" if "k \<in> nodes c" for k using that assms(3) by (auto simp: label_entry_def label_exit_def)
    show "(k, label_entry) \<notin> edges c" for k using no_entry [of k] ends [of k label_entry] by (auto simp: succs_def)
  qed (use assms fin few in simp_all)
qed

text \<open>What the condition of a jump says about two 64-bit values.\<close>

definition cond_holds :: "cond_op \<Rightarrow> 64 word \<Rightarrow> 64 word \<Rightarrow> bool" where
  "cond_holds c a b = (case c of EQ \<Rightarrow> a = b | NE \<Rightarrow> a \<noteq> b | SET \<Rightarrow> and a b \<noteq> 0 | NSET \<Rightarrow> and a b = 0 | LT \<Rightarrow> a < b | LE \<Rightarrow> a \<le> b
     | GT \<Rightarrow> a > b | GE \<Rightarrow> a \<ge> b | SLT \<Rightarrow> sint a < sint b | SLE \<Rightarrow> sint a \<le> sint b | SGT \<Rightarrow> sint a > sint b | SGE \<Rightarrow> sint a \<ge> sint b)"

lemma reverse_complements: "cond_holds (reverse_op c) a b \<longleftrightarrow> \<not> cond_holds c a b"
  by (cases c) (auto simp: cond_holds_def reverse_op_def)

text \<open>
  How the graph represents an instruction: its block has the assertions and the instruction, where the two edges of a conditional jump
  take the place of the jump.
\<close>

fun represents :: "bool \<Rightarrow> cfg \<Rightarrow> int \<times> instruction \<times> 'l \<Rightarrow> bool" where
  "represents priv r (l, Jmp (Some cond) t, x) = (ts_of r (L l) = asserts_of priv (Jmp (Some cond) t) \<and>
     (if t = l + 1 then succs r (L l) = {L t}
      else succs r (L l) = {Label l t, Label l (l + 1)} \<and>
        succs r (Label l t) = {L t} \<and> ts_of r (Label l t) = [Assume cond] \<and>
        succs r (Label l (l + 1)) = {L (l + 1)} \<and> ts_of r (Label l (l + 1)) = [Assume (reverse_cond cond)]))"
| "represents priv r (l, Jmp None t, x) = (ts_of r (L l) = [] \<and> succs r (L l) = {L t})"
| "represents priv r (l, Exit, x) = (ts_of r (L l) = asserts_of priv Exit @ [Exit] \<and> succs r (L l) = {label_exit})"
| "represents priv r (l, ins, x) = (ts_of r (L l) = asserts_of priv ins @ [ins] \<and> succs r (L l) = {L (l + int (ins_size ins))})"

lemma no_jmp_asserts: "filter (Not \<circ> is_jmp) (asserts_of priv ins) = asserts_of priv ins"
  by (auto simp: asserts_of_def filter_id_conv split: sum.split)

lemma graph_represents:
  assumes "det_graph c" and "label_entry \<in> nodes c" and "label_exit \<in> nodes c" and "L l \<in> nodes c"
    and "succs c (L l) = own_succs l ins" and "ts_of c (L l) = asserts_of priv ins @ [ins]" and "to_nondet c = Inr r" and "\<not> is_undefined ins"
  shows "represents priv r (l, ins, x)"
proof -
  obtain r' where r': "to_nondet c = Inr r'" "edges r' = nondet_edges c" "\<forall>k \<in> nodes c. ts_of r' k = filter (Not \<circ> is_jmp) (ts_of c k)"
    "\<forall>k n cond. branch_cond c k n = Some cond \<longrightarrow> ts_of r' (make_jump k n) = [Assume cond]"
    using to_nondet_graph [OF assms(1-3)] by blast
  then have r: "edges r = nondet_edges c" "ts_of r (L l) = asserts_of priv ins @ filter (Not \<circ> is_jmp) [ins]"
    "\<And>n cond. branch_cond c (L l) n = Some cond \<Longrightarrow> ts_of r (make_jump (L l) n) = [Assume cond]"
    using assms(4,6,7) by (auto simp: no_jmp_asserts)
  note s = nondet_succs [OF assms(1) r(1) assms(4), unfolded assms(5)]
  consider (branch) cond t where "ins = Jmp (Some cond) t" | (goto) t where "ins = Jmp None t" | (exit) "ins = Exit"
    | (other) "\<not> is_jmp ins" "ins \<noteq> Exit" by (cases ins rule: has_fall.cases) auto
  then show ?thesis
  proof cases
    case (branch cond t)
    then have o: "own_succs l ins = {L (l + 1), L t}" by (auto simp: own_succs_def)
    show ?thesis
    proof (cases "t = l + 1")
      case True
      then show ?thesis using s(1) r(2) o branch by simp
    next
      case False
      then have two: "card (own_succs l ins) = 2" using o by simp
      have b: "branch_cond c (L l) (L t) = Some cond" "branch_cond c (L l) (L (l + 1)) = Some (reverse_cond cond)"
        using False two o branch by (simp_all add: branch_cond_def branch_def assms(5,6))
      show ?thesis using s(2) [OF two] s(3) [OF two, of "L t"] s(3) [OF two, of "L (l + 1)"] r(2) r(3) [OF b(1)] r(3) [OF b(2)] False o branch
        by (auto simp: make_jump_def)
    qed
  next
    case (goto t)
    then have "own_succs l ins = {L t}" by (simp add: own_succs_def)
    moreover have "asserts_of priv ins = []" using goto by (simp add: asserts_of_def assert_extractor_def)
    ultimately show ?thesis using s(1) r(2) goto by simp
  next
    case exit
    then have "own_succs l ins = {label_exit}" by (simp add: own_succs_def)
    then show ?thesis using s(1) r(2) exit by simp
  next
    case other
    have "own_succs l ins = {L (l + int (ins_size ins))}" using other by (cases ins rule: is_jmp.cases) (auto simp: own_succs_def)
    then show ?thesis using s(1) r(2) other by (cases ins rule: is_jmp.cases) simp_all
  qed
qed

lemma branch_asserted: "branch (asserted priv ts) = branch ts"
proof (cases ts rule: rev_cases)
  case (snoc ys y)
  then have "asserted priv ts = (asserted priv ys @ asserts_of priv y) @ [y]" by (simp add: asserted_def)
  then show ?thesis unfolding branch_def using snoc by (metis last_snoc snoc_eq_iff_butlast)
qed (simp add: branch_def)

lemma det_graph_asserted:
  assumes "det_graph c" and "nodes c' = nodes c" and "edges c' = edges c" and "pedges c' = pedges c" and "in_order c'"
    and "ts_of c' = (\<lambda>l. asserted priv (ts_of c l))"
  shows "det_graph c'" and "succs c' = succs c"
proof -
  show s: "succs c' = succs c" by (simp add: succs_def assms(3) fun_eq_iff)
  show "det_graph c'" using assms(1,5) unfolding det_graph_def assms(2-4,6) s branch_asserted by simp
qed

text \<open>
  C24: the graph the verifier analyses has exactly the control flow of the program. Take a well-typed
  program that does not run off its end and whose calls have a map before its keys and values. \<open>prepare_cfg\<close>
  succeeds; the entry leads to the first instruction; the block of every instruction has its assertions and then the
  instruction, and is followed by what can follow it in the program. A conditional jump is
  not in its block: each successor is reached through a block that assumes
  the condition, for its target, or the reversed condition, for the next instruction, of which exactly one holds for two
  64-bit values. A conditional jump to the next instruction has just that successor, and nothing is assumed.
\<close>

theorem nondet_graph_of_program:
  assumes "well_typed p prog" and "falls_from None prog = None" and "prog \<noteq> []"
    and "\<forall>e \<in> set prog. asserts_defined priv (fst (snd e))"
  shows "\<exists>r. prepare_cfg priv prog True = Inr r \<and> succs r label_entry = {L 0} \<and>
    (\<forall>e \<in> set prog. represents priv r e) \<and> (\<forall>op a b. cond_holds (reverse_op op) a b \<longleftrightarrow> \<not> cond_holds op a b)"
proof -
  have p: "placed 0 prog" using assms(1) by (simp add: well_typed_def)
  obtain c where c: "instruction_seq_to_cfg prog True = Inr c" "nodes c = {label_entry, label_exit} \<union> L ` fst ` set prog"
    "ts_of c = code_at prog" "edges c = prog_edges prog" "pedges c = prog_edges prog" "in_order c"
    using well_typed_graph [OF assms(1,2), of True] by blast
  note g = program_det_graph [OF assms(1,2) c(2-6)]
  have "\<forall>l. \<forall>ins \<in> set (ts_of c l). asserts_defined priv ins" using assms(4) by (auto simp: c(3) code_at_def)
  from explicate_view [OF c(6) this] obtain d where d: "explicate_assertions priv c = Inr d" "nodes d = nodes c" "edges d = edges c"
    "pedges d = pedges c" "in_order d" "ts_of d = (\<lambda>l. asserted priv (ts_of c l))" by blast
  note gd = det_graph_asserted [OF g(1) d(2-6)]
  have n: "label_entry \<in> nodes d" "label_exit \<in> nodes d" using c(2) d(2) by simp_all
  obtain r where r: "to_nondet d = Inr r" "edges r = nondet_edges d" using to_nondet_graph [OF gd(1) n] by blast
  have rep: "represents priv r (l, ins, x)" if e: "(l, ins, x) \<in> set prog" for l ins x
  proof -
    have "wf_ins p (fst ` set prog) ins" using assms(1) e by (force simp: well_typed_def)
    then have u: "\<not> is_undefined ins" by (cases ins) simp_all
    have l: "L l \<in> nodes d" using e c(2) d(2) by force
    have s: "succs d (L l) = own_succs l ins" using g(2) [OF e] gd(2) by simp
    have t: "ts_of d (L l) = asserts_of priv ins @ [ins]" using code_at_placed [OF p e] c(3) d(6) by simp
    show ?thesis by (rule graph_represents [OF gd(1) n l s t r(1) u])
  qed
  have start: "succs r label_entry = {L 0}"
  proof -
    obtain e es where e: "prog = e # es" using assms(3) by (cases prog) auto
    then have "fst e = 0" using p by (cases e) simp
    then have "succs d label_entry = {L 0}" using g(3) e gd(2) by simp
    then show ?thesis using nondet_succs(1) [OF gd(1) r(2) n(1)] by simp
  qed
  show ?thesis
  proof (intro exI conjI ballI allI)
    show "prepare_cfg priv prog True = Inr r" using c(1) d(1) r(1) by (simp add: prepare_cfg_def)
    show "represents priv r e" if "e \<in> set prog" for e using rep [of "fst e" "fst (snd e)" "snd (snd e)"] that by simp
  qed (rule start reverse_complements)+
qed

definition branch_prog :: "(int \<times> instruction \<times> unit) list" where
  "branch_prog =
     [(0, Bin MOV 0 (Imm 1) True False, ()),
      (1, Jmp (Some \<lparr>co_op = GT, co_left = 1, co_right = Reg 2, co_is64 = True\<rparr>) 3, ()),
      (2, Bin MOV 0 (Imm 0) True False, ()),
      (3, Exit, ())]"

theorem nondet_graph_of_program_witness:
  "\<exists>r. prepare_cfg True branch_prog True = Inr r \<and> ts_of r (L 3) = [Assert (TypeConstraint 0 TG_number), Exit] \<and>
     succs r (L 1) = {Label 1 3, Label 1 2} \<and> ts_of r (Label 1 2) = [Assume \<lparr>co_op = LE, co_left = 1, co_right = Reg 2, co_is64 = True\<rparr>]"
proof -
  have "well_typed no_helpers branch_prog" by (simp add: well_typed_def branch_prog_def sext_imm_def sign_extend_def)
  moreover have "falls_from None branch_prog = None" "branch_prog \<noteq> []" by (simp_all add: falls_from_def branch_prog_def)
  moreover have "\<forall>e \<in> set branch_prog. asserts_defined True (fst (snd e))" by (simp add: branch_prog_def asserts_defined_unless_call)
  ultimately obtain r where c: "prepare_cfg True branch_prog True = Inr r" "\<forall>e \<in> set branch_prog. represents True r e"
    using nondet_graph_of_program [of no_helpers branch_prog True] by blast
  have "represents True r (1, Jmp (Some \<lparr>co_op = GT, co_left = 1, co_right = Reg 2, co_is64 = True\<rparr>) 3, ())"
    "represents True r (3, Exit, ())"
    using c(2) by (simp_all add: branch_prog_def)
  then show ?thesis using c(1) by (auto simp: reverse_cond_def reverse_op_def asserts_of_def assert_extractor_def)
qed

lemma placed_apart:
  "placed pc prog \<Longrightarrow> (l, ins, x) \<in> set prog \<Longrightarrow> (l', ins', x') \<in> set prog \<Longrightarrow> l < l' \<Longrightarrow> l + int (ins_size ins) \<le> l'"
proof (induction pc prog rule: placed.induct)
  case (2 pc k i y prog)
  have p: "placed (pc + ins_size i) prog" "k = int pc" using 2(2) by simp_all
  have lt: "False" if "(l, ins, x) \<in> set prog" "(l', ins', x') = (k, i, y)"
    using placed_bounds [OF p(1) that(1)] that(2) p(2) 2(5) ins_size_cases [of i] by auto
  have hd: "l + int (ins_size ins) \<le> l'" if "(l, ins, x) = (k, i, y)" "(l', ins', x') \<in> set prog"
    using placed_bounds [OF p(1) that(2)] that(1) p(2) by simp
  show ?case using 2(1) [OF p(1) _ _ 2(5)] 2(3,4,5) lt hd by auto
qed simp

text \<open>
  C36: a jump into the middle of a load is not analysed. \<open>makeLddw\<close> returns the load of a map
  descriptor before it tests that the second slot is empty, and \<open>makeJmp\<close> takes a slot for the middle
  of a load only if it is, so that a program with an instruction in the second slot of such a load may jump
  there. In every program of at most 65536 slots that is decoded, does not run off its end and has a jump to the second slot of a load of a map descriptor,
  the target of the jump is a block without instructions and
  without successors: whatever the program does from there on is not part of the graph.
\<close>

theorem jump_into_map_load_not_analysed:
  assumes "unmarshal p insts li = Inr (Program prog)" and "length insts \<le> 65536" and "falls_from None prog = None"
    and "(l, LoadMapFd r v, x) \<in> set prog" and "(j, Jmp cond (l + 1), y) \<in> set prog"
  shows "\<exists>c. instruction_seq_to_cfg prog True = Inr c \<and> (L j, L (l + 1)) \<in> edges c \<and> ts_of c (L (l + 1)) = [] \<and> succs c (L (l + 1)) = {}"
proof -
  have u: "unmarshal_from p insts li 0 = Inr prog"
    using assms(1) by (auto simp: unmarshal_def unmarshal_seq_def split: sum.splits asm_error.splits if_splits)
  note pl = unmarshal_from_placed [OF u _ assms(2)]
  have p: "placed 0 prog" and wf: "\<forall>e \<in> set prog. wf_ins p (targets insts) (fst (snd e))" using pl by auto
  have un: "\<forall>e \<in> set prog. \<not> is_undefined (fst (snd e))"
  proof
    fix e assume "e \<in> set prog"
    then show "\<not> is_undefined (fst (snd e))" using wf by (cases "fst (snd e)") auto
  qed
  obtain c where c: "instruction_seq_to_cfg prog True = Inr c" "ts_of c = code_at prog" "edges c = prog_edges prog"
    using program_graph [OF un assms(3), of True] by blast
  have l: "0 \<le> l" using placed_bounds [OF p assms(4)] by simp
  have no: "fst e \<noteq> l + 1" if "e \<in> set prog" for e
    using placed_apart [OF p assms(4), of "fst e" "fst (snd e)" "snd (snd e)"] that by auto
  have "(L j, L (l + 1)) \<in> own_edges (j, Jmp cond (l + 1), y)" by (simp add: own_edges_def)
  then have "(L j, L (l + 1)) \<in> prog_edges prog" using assms(5) by (auto simp: prog_edges_def seq_edges_def)
  moreover have "code_at prog (L (l + 1)) = []" using no by (auto simp: code_at_def filter_empty_conv)
  moreover have "(L (l + 1), k) \<notin> prog_edges prog" for k
  proof -
    have "(L (l + 1), k) \<notin> fall_edges prog" using no by (force simp: fall_edges_def dest: set_zip_leftD)
    moreover have "(L (l + 1), k) \<notin> own_edges e" if "e \<in> set prog" for e
      using no [OF that] by (auto simp: own_edges_def split: prod.splits option.splits if_splits)
    moreover have "(L (l + 1), k) \<notin> start_edges (Some label_entry) prog" "start_edges None prog = {}"
      using l by (auto simp: start_edges_def label_entry_def split: list.splits)
    ultimately show ?thesis by (auto simp: prog_edges_def seq_edges_def)
  qed
  ultimately show ?thesis using c by (auto simp: succs_def)
qed

theorem jump_into_map_load_not_analysed_witness:
  "\<exists>prog c. unmarshal no_helpers [slot 0x18 1 1 0 5, slot 0xb7 0 0 0 0, slot 0x05 0 0 (-2) 0] ([] :: unit list) = Inr (Program prog) \<and>
     instruction_seq_to_cfg prog True = Inr c \<and> (L 2, L 1) \<in> edges c \<and> ts_of c (L 1) = [] \<and> succs c (L 1) = {}"
proof -
  let ?prog = "[(0, LoadMapFd 1 5, None :: unit option), (2, Jmp None 1, None)]"
  have u: "unmarshal no_helpers [slot 0x18 1 1 0 5, slot 0xb7 0 0 0 0, slot 0x05 0 0 (-2) 0] ([] :: unit list) = Inr (Program ?prog)"
    by (simp add: unmarshal_eval)
  have "falls_from None ?prog = None" by (simp add: falls_from_def)
  from jump_into_map_load_not_analysed [OF u _ this, of 0 1 5 None 2 None None] show ?thesis using u by auto
qed

end
