(* ===== verification/Bpftime_Verifier.thy ===== *)
theory Bpftime_Verifier
  imports Asm_Nondet Bpf_Prog
begin

text \<open>
  bpftime's side of the verifier (\<open>bpftime-verifier/src/\<close>): the tables that say what a program may
  use, the platform that answers the verifier from them, and \<open>verify_ebpf_program\<close>. The program type
  of a section, the prototypes of the kernel's helpers and the analysis of a decoded program are
  parameters: what is shown here holds whatever they are.
\<close>

subsection \<open>Tables and platform\<close>

record map_descriptor =
  md_original_fd :: int
  md_type :: nat
  md_key_size :: nat
  md_value_size :: nat
  md_max_entries :: nat
  md_inner_map_fd :: nat

text \<open>The tables are \<open>thread_local\<close>; the record holds those of one thread.\<close>

record verifier_tables =
  vt_usable_helpers :: "32 word set"
  vt_map_descriptors :: "int \<rightharpoonup> map_descriptor"
  vt_non_kernel_helpers :: "32 word \<rightharpoonup> helper_proto"

definition set_available_helpers :: "32 word list \<Rightarrow> verifier_tables \<Rightarrow> verifier_tables" where
  "set_available_helpers helpers t = t\<lparr>vt_usable_helpers := fold insert helpers {}\<rparr>"

definition set_map_descriptors :: "(int \<rightharpoonup> map_descriptor) \<Rightarrow> verifier_tables \<Rightarrow> verifier_tables" where
  "set_map_descriptors maps t = t\<lparr>vt_map_descriptors := maps\<rparr>"

definition get_map_descriptors :: "verifier_tables \<Rightarrow> int \<rightharpoonup> map_descriptor" where
  "get_map_descriptors t = vt_map_descriptors t"

text \<open>The prototypes are copied; none of them reallocates the packet.\<close>

definition set_non_kernel_helpers :: "(32 word \<rightharpoonup> helper_proto) \<Rightarrow> verifier_tables \<Rightarrow> verifier_tables" where
  "set_non_kernel_helpers protos t =
     t\<lparr>vt_non_kernel_helpers := (\<lambda>k. map_option (\<lambda>v. v\<lparr>hp_argument_type := take 5 (hp_argument_type v), hp_reallocate_packet := False\<rparr>) (protos k))\<rparr>"

definition bpftime_get_helper_prototype :: "(32 word \<Rightarrow> helper_proto asm_res) \<Rightarrow> verifier_tables \<Rightarrow> 32 word \<Rightarrow> helper_proto asm_res" where
  "bpftime_get_helper_prototype linux t helper_id =
     (if helper_id \<in> vt_usable_helpers t then
        (case vt_non_kernel_helpers t helper_id of Some p \<Rightarrow> Inr p | None \<Rightarrow> linux helper_id)
      else Inl (Raised ''Unusable helper''))"

definition bpftime_is_helper_usable :: "verifier_tables \<Rightarrow> 32 word \<Rightarrow> bool" where
  "bpftime_is_helper_usable t helper_id = (helper_id \<in> vt_usable_helpers t)"

definition bpftime_get_map_descriptor :: "verifier_tables \<Rightarrow> int \<Rightarrow> map_descriptor asm_res" where
  "bpftime_get_map_descriptor t fd = (case vt_map_descriptors t fd of Some d \<Rightarrow> Inr d | None \<Rightarrow> Inl (Raised ''Invalid map fd''))"

text \<open>Only hash maps, arrays and ring buffers have a type here.\<close>

definition bpftime_get_map_type :: "(nat \<Rightarrow> 'mt asm_res) \<Rightarrow> nat \<Rightarrow> 'mt asm_res" where
  "bpftime_get_map_type linux platform_specific_type =
     (if platform_specific_type = 1 \<or> platform_specific_type = 2 \<or> platform_specific_type = 27 then linux platform_specific_type
      else Inl (Raised ''Unsupported map type by bpftime''))"

definition bpftime_platform_spec :: "(32 word \<Rightarrow> helper_proto asm_res) \<Rightarrow> verifier_tables \<Rightarrow> platform" where
  "bpftime_platform_spec linux t =
     \<lparr>pl_get_helper_prototype = bpftime_get_helper_prototype linux t, pl_is_helper_usable = bpftime_is_helper_usable t\<rparr>"

definition bpftime_get_program_type :: "(string \<Rightarrow> 'ty asm_res) \<Rightarrow> string \<Rightarrow> 'ty asm_res" where
  "bpftime_get_program_type linux section =
     (if take 6 section = ''uprobe'' \<or> take 9 section = ''uretprobe'' \<or> take 10 section = ''tracepoint'' then linux section
      else Inl (Raised (''Unsupported section by bpftime: '' @ section)))"

subsection \<open>Verifying a program\<close>

text \<open>The fields of an instruction in a 64-bit word, on a little-endian machine.\<close>

definition inst_of_raw :: "64 word \<Rightarrow> ebpf_inst" where
  "inst_of_raw w = \<lparr>in_opcode = ucast w, in_dst = ucast (drop_bit 8 w), in_src = ucast (drop_bit 12 w),
     in_offset = ucast (drop_bit 16 w), in_imm = ucast (drop_bit 32 w)\<rparr>"

text \<open>
  \<open>None\<close> is the acceptance of the program, \<open>Some\<close> the message of its rejection. The analysis returns
  its verdict with what it has printed, or raises.
\<close>

definition verify_ebpf_program ::
  "(string \<Rightarrow> 'ty asm_res) \<Rightarrow> (32 word \<Rightarrow> helper_proto asm_res) \<Rightarrow>
   ('ty \<Rightarrow> (int \<Rightarrow> map_descriptor asm_res) \<Rightarrow> (int \<times> instruction \<times> unit option) list \<Rightarrow> (bool \<times> string) asm_res) \<Rightarrow>
   (nat \<Rightarrow> string \<Rightarrow> string) \<Rightarrow> verifier_tables \<Rightarrow> 64 word list \<Rightarrow> string \<Rightarrow> string option asm_res"
where
  "verify_ebpf_program types linux analyse message t raw_inst section_name =
     asm_bind (bpftime_get_program_type types section_name) (\<lambda>ty.
     asm_bind (unmarshal (bpftime_platform_spec linux t) (map inst_of_raw raw_inst) []) (\<lambda>u. case u of
         Message pc what \<Rightarrow> Inr (Some (message pc what))
       | Program inst_seq \<Rightarrow>
           asm_bind (analyse ty (bpftime_get_map_descriptor t) inst_seq) (\<lambda>(ok, out). Inr (if ok then None else Some out))))"

subsection \<open>The helpers that the server makes usable\<close>

definition get_ufunc_helper_protos :: "32 word \<rightharpoonup> helper_proto" where
  "get_ufunc_helper_protos =
     [1001 \<mapsto> \<lparr>hp_name = ''__ebpf_call_find_ufunc_id'', hp_return_type = RET_INTEGER,
        hp_argument_type = [ARG_PTR_TO_READABLE_MEM_OR_NULL, ARG_DONTCARE, ARG_DONTCARE, ARG_DONTCARE, ARG_DONTCARE], hp_reallocate_packet = False\<rparr>,
      1000 \<mapsto> \<lparr>hp_name = ''__ebpf_call_ufunc_dispatcher'', hp_return_type = RET_INTEGER,
        hp_argument_type = [ARG_ANYTHING, ARG_PTR_TO_READABLE_MEM_OR_NULL, ARG_DONTCARE, ARG_DONTCARE, ARG_DONTCARE], hp_reallocate_packet = False\<rparr>]"

text \<open>What \<open>start_up\<close> of the syscall server puts into the tables; the group of the map helpers is used twice.\<close>

definition server_helper_ids :: "agent_config \<Rightarrow> nat list" where
  "server_helper_ids config =
     (if cf_enable_kernel_helper_group config then get_helper_ids get_kernel_utils_helper_group else []) @
     (if cf_enable_shm_maps_helper_group config then get_helper_ids get_shm_maps_helper_group else []) @
     (if cf_enable_ufunc_helper_group config then get_helper_ids get_shm_maps_helper_group else [])"

definition start_up_verifier :: "agent_config \<Rightarrow> verifier_tables \<Rightarrow> verifier_tables" where
  "start_up_verifier config t =
     set_non_kernel_helpers (if cf_enable_ufunc_helper_group config then get_ufunc_helper_protos else Map.empty)
       (set_available_helpers (map of_nat (server_helper_ids config)) t)"

lemma fold_insert_set: "fold insert xs A = set xs \<union> A"
  by (induction xs arbitrary: A) auto

lemma usable_after_start_up: "vt_usable_helpers (start_up_verifier config t) = of_nat ` set (server_helper_ids config)"
  by (simp add: start_up_verifier_def set_non_kernel_helpers_def set_available_helpers_def fold_insert_set)

subsection \<open>Verified programs call registered helpers\<close>

lemma mem_no_call: "makeMemOp pc inst = Inr ins \<Longrightarrow> ins \<noteq> Call c"
  by (auto simp: makeMemOp_def Let_def split: if_splits)

lemma alu_no_call: "makeAluOp pc inst = Inr ins \<Longrightarrow> ins \<noteq> Call c"
proof -
  assume a: "makeAluOp pc inst = Inr ins"
  then obtain op where "getAluOp pc inst = Inr op" by (auto simp: makeAluOp_def Let_def split: if_splits)
  then show ?thesis using a by (cases op) (auto simp: makeAluOp_def Let_def split: if_splits)
qed

lemma lddw_no_call: "makeLddw inst nx insts pc = Inr ins \<Longrightarrow> ins \<noteq> Call c"
  by (auto simp: makeLddw_def Let_def split: if_splits)

lemma jmp_call_usable: "makeJmp p inst insts pc = Inr (Call c) \<Longrightarrow> pl_is_helper_usable p (ca_func c)"
  using decode_jmp [of p inst insts pc "Call c"] by simp

lemma at_call_usable: "unmarshal_at p insts pc = Inr (Call c, b) \<Longrightarrow> pl_is_helper_usable p (ca_func c)"
  unfolding unmarshal_at_def Let_def
  by (auto simp del: not_None_eq dest: mem_no_call alu_no_call lddw_no_call jmp_call_usable split: if_splits)

lemma from_calls_usable:
  assumes "unmarshal_from p insts li pc = Inr prog" and "(l, Call c, x) \<in> set prog"
  shows "pl_is_helper_usable p (ca_func c)"
  using assms
proof (induction p insts li pc arbitrary: prog rule: unmarshal_from.induct)
  case (1 p insts li pc)
  show ?case
  proof (cases "pc < length insts")
    case False
    then have "prog = []" using 1(2) by (subst (asm) unmarshal_from.simps) simp
    then show ?thesis using 1(3) by simp
  next
    case True
    from 1(2) True obtain ins lddw rest where at: "unmarshal_at p insts pc = Inr (ins, lddw)"
      and rest: "unmarshal_from p insts li (pc + (if lddw then 2 else 1)) = Inr rest"
      and prog: "prog = (int pc, ins, if pc < length li then Some (li ! pc) else None) # rest"
      by (subst (asm) unmarshal_from.simps) (auto split: prod.splits)
    show ?thesis
    proof (cases "(l, Call c, x) \<in> set rest")
      case True
      then show ?thesis using 1(1) [OF \<open>pc < length insts\<close> rest] by simp
    next
      case False
      then have "ins = Call c" using 1(3) prog by auto
      then show ?thesis using at_call_usable at by blast
    qed
  qed
qed

lemma calls_usable: "unmarshal p insts li = Inr (Program prog) \<Longrightarrow> (l, Call c, x) \<in> set prog \<Longrightarrow> pl_is_helper_usable p (ca_func c)"
  by (auto simp: unmarshal_def unmarshal_seq_def split: sum.splits asm_error.splits if_splits dest: from_calls_usable)

text \<open>What loading a program registers with its machine.\<close>

definition registered :: "helper_group \<Rightarrow> agent_config \<Rightarrow> helper_info list" where
  "registered ufunc config =
     (if cf_enable_kernel_helper_group config then get_kernel_utils_helper_group else []) @
     (if cf_enable_ufunc_helper_group config then ufunc else []) @
     (if cf_enable_shm_maps_helper_group config then get_shm_maps_helper_group else [])"

lemma register_fold: "fold (bpftime_prog_register_raw_helper ops) hs q = q\<lparr>bp_vm := fold (vm_register ops) hs (bp_vm q)\<rparr>"
  by (induction hs arbitrary: q) (simp_all add: bpftime_prog_register_raw_helper_def)

lemma load_registers:
  "load_prog_and_helpers ops ufunc config q =
     bpftime_prog_load ops (cf_jit_enabled config) (q\<lparr>bp_vm := fold (vm_register ops) (registered ufunc config) (bp_vm q)\<rparr>)"
  by (simp add: load_prog_and_helpers_def add_helper_group_to_prog_def register_fold registered_def Let_def)

lemma accepted_program:
  assumes "verify_ebpf_program types linux analyse message t raw section = Inr None"
  shows "\<exists>prog. unmarshal (bpftime_platform_spec linux t) (map inst_of_raw raw) ([] :: unit list) = Inr (Program prog)"
proof -
  obtain u where u: "unmarshal (bpftime_platform_spec linux t) (map inst_of_raw raw) ([] :: unit list) = Inr u"
    using assms by (auto simp: verify_ebpf_program_def)
  then show ?thesis using assms by (cases u) (auto simp: verify_ebpf_program_def)
qed

text \<open>
  the helpers of a verified program are there when it runs. The server fills the tables of the
  verifier from the configuration, and the agent registers helpers from the same configuration. When
  a program is accepted, whatever the analysis and the prototypes of the kernel are, each of its
  calls is to a helper that loading registers with the machine of the program. The configuration
  must not enable the extension helpers without the map helpers.
\<close>

theorem verified_calls_registered:
  assumes "verify_ebpf_program types linux analyse message (start_up_verifier config t) raw section = Inr None"
    and "cf_enable_ufunc_helper_group config \<Longrightarrow> cf_enable_shm_maps_helper_group config"
  shows "\<exists>prog hs. unmarshal (bpftime_platform_spec linux (start_up_verifier config t)) (map inst_of_raw raw) ([] :: unit list) = Inr (Program prog) \<and>
    load_prog_and_helpers ops ufunc config q =
      bpftime_prog_load ops (cf_jit_enabled config) (q\<lparr>bp_vm := fold (vm_register ops) hs (bp_vm q)\<rparr>) \<and>
    (\<forall>l c x. (l, Call c, x) \<in> set prog \<longrightarrow> (\<exists>h \<in> set hs. of_nat (hi_index h) = ca_func c))"
proof -
  obtain prog where prog: "unmarshal (bpftime_platform_spec linux (start_up_verifier config t)) (map inst_of_raw raw) ([] :: unit list) = Inr (Program prog)"
    using accepted_program [OF assms(1)] by blast
  have "\<exists>h \<in> set (registered ufunc config). of_nat (hi_index h) = ca_func c" if "(l, Call c, x) \<in> set prog" for l c x
  proof -
    have "ca_func c \<in> of_nat ` set (server_helper_ids config)"
      using calls_usable [OF prog that] by (simp add: bpftime_platform_spec_def bpftime_is_helper_usable_def usable_after_start_up)
    then show ?thesis using assms(2) by (auto simp: server_helper_ids_def registered_def get_helper_ids_def split: if_splits)
  qed
  then show ?thesis using prog load_registers [of ops ufunc config q] by blast
qed

definition maps_config :: agent_config where
  "maps_config = \<lparr>cf_jit_enabled = True, cf_enable_kernel_helper_group = False, cf_enable_ufunc_helper_group = False,
     cf_enable_shm_maps_helper_group = True\<rparr>"

definition lookup_proto :: "32 word \<Rightarrow> helper_proto asm_res" where
  "lookup_proto n = Inr \<lparr>hp_name = ''map_lookup_elem'', hp_return_type = RET_PTR_TO_MAP_VALUE_OR_NULL,
     hp_argument_type = [ARG_PTR_TO_MAP, ARG_PTR_TO_MAP_KEY, ARG_DONTCARE, ARG_DONTCARE, ARG_DONTCARE], hp_reallocate_packet = False\<rparr>"

lemma map_group: "get_shm_maps_helper_group =
  [helper 1 ''bpf_map_lookup_elem'' ''bpftime_map_lookup_elem_helper'', helper 2 ''bpf_map_update_elem'' ''bpftime_map_update_elem_helper'',
   helper 3 ''bpf_map_delete_elem'' ''bpftime_map_delete_elem_helper'', helper 87 ''bpf_map_push_elem'' ''bpftime_map_push_elem_helper'',
   helper 88 ''bpf_map_pop_elem'' ''bpftime_map_pop_elem_helper'', helper 89 ''bpf_map_peek_elem'' ''bpftime_map_peek_elem_helper'']"
  by (simp add: get_shm_maps_helper_group_def hg_of_list_def helper_def)

lemma map_group_ids: "set (get_helper_ids get_shm_maps_helper_group) = {1, 2, 3, 87, 88, 89}"
  by (auto simp: map_group get_helper_ids_def helper_def)

lemma lookup_prog_decodes:
  "unmarshal (bpftime_platform_spec lookup_proto (start_up_verifier maps_config t)) (map inst_of_raw [0x100000085, 0x95]) ([] :: unit list) =
     Inr (Program [(0, Call \<lparr>ca_func = 1, ca_name = ''map_lookup_elem'', ca_is_map_lookup = True, ca_reallocate_packet = False,
       ca_singles = [(K_MAP_FD, 1), (K_PTR_TO_MAP_KEY, 2)], ca_pairs = []\<rparr>, None), (1, Exit, None)])"
proof -
  have u: "1 \<in> vt_usable_helpers (start_up_verifier maps_config t)" by (simp add: usable_after_start_up server_helper_ids_def maps_config_def map_group_ids)
  have n: "vt_non_kernel_helpers (start_up_verifier maps_config t) = Map.empty"
    by (simp add: start_up_verifier_def set_non_kernel_helpers_def maps_config_def)
  have i: "map inst_of_raw [0x100000085, 0x95] = [slot 0x85 0 0 0 1, slot 0x95 0 0 0 0]" by (simp add: inst_of_raw_def)
  show ?thesis unfolding i
    by (simp add: unmarshal_eval bpftime_platform_spec_def bpftime_is_helper_usable_def bpftime_get_helper_prototype_def u n lookup_proto_def
        makeCall_def toArgSingleKind_def)
qed

text \<open>A machine that only remembers what is registered.\<close>

definition table_ops :: "(helper_info list, unit, unit) vm_ops" where
  "table_ops = \<lparr>vm_new = [], vm_register = Cons, vm_load = (\<lambda>_ v. (Inr (), v)), vm_unload = id, vm_compile = (\<lambda>v. (Some (), v)),
     vm_aot = (\<lambda>_ v. (None, v)), vm_call = (\<lambda>_ _ w. (0, w)), vm_exec = (\<lambda>_ _ w. ((Inr (), 0), w))\<rparr>"

definition no_tables :: verifier_tables where
  "no_tables = \<lparr>vt_usable_helpers = {}, vt_map_descriptors = Map.empty, vt_non_kernel_helpers = Map.empty\<rparr>"

theorem verified_calls_registered_witness:
  "\<exists>hs. load_prog_and_helpers table_ops [] maps_config (bp_new table_ops [0x100000085, 0x95] ''lookup'') =
      bpftime_prog_load table_ops True ((bp_new table_ops [0x100000085, 0x95] ''lookup'')\<lparr>bp_vm := fold Cons hs []\<rparr>) \<and>
    (\<exists>h \<in> set hs. of_nat (hi_index h) = (1 :: 32 word))"
proof -
  have v: "verify_ebpf_program (\<lambda>_. Inr ()) lookup_proto (\<lambda>_ _ _. Inr (True, [])) (\<lambda>_ what. what)
      (start_up_verifier maps_config no_tables) [0x100000085, 0x95] ''uprobe'' = Inr None"
    unfolding verify_ebpf_program_def lookup_prog_decodes by (simp add: bpftime_get_program_type_def)
  have c: "cf_enable_ufunc_helper_group maps_config \<Longrightarrow> cf_enable_shm_maps_helper_group maps_config" by (simp add: maps_config_def)
  from verified_calls_registered [OF v c, of table_ops "[]" "bp_new table_ops [0x100000085, 0x95] ''lookup''"]
  obtain hs where hs: "load_prog_and_helpers table_ops [] maps_config (bp_new table_ops [0x100000085, 0x95] ''lookup'') =
      bpftime_prog_load table_ops True ((bp_new table_ops [0x100000085, 0x95] ''lookup'')\<lparr>bp_vm := fold Cons hs []\<rparr>)"
    "\<exists>h \<in> set hs. of_nat (hi_index h) = (1 :: 32 word)"
    unfolding lookup_prog_decodes by (auto simp: table_ops_def bp_new_def maps_config_def)
  then show ?thesis by blast
qed

text \<open>
  With the extension helpers but not the map helpers, the verifier admits calls of the map helpers,
  which the machine does not know, and in no configuration does it admit the extension helpers.
\<close>

theorem ufunc_helpers_not_usable:
  "1000 \<notin> vt_usable_helpers (start_up_verifier config t) \<and> 1001 \<notin> vt_usable_helpers (start_up_verifier config t)"
proof -
  have k: "set (get_helper_ids get_kernel_utils_helper_group) \<subseteq> {..<1000}"
    by (simp add: get_kernel_utils_helper_group_def hg_of_list_def helper_def get_helper_ids_def)
  have ids: "set (server_helper_ids config) \<subseteq> {..<1000}" using k map_group_ids by (auto simp: server_helper_ids_def)
  have "x \<noteq> 1000 \<and> x \<noteq> 1001" if "x \<in> of_nat ` set (server_helper_ids config)" for x :: "32 word"
  proof -
    obtain n where n: "x = of_nat n" "n < 1000" using ids \<open>x \<in> of_nat ` set (server_helper_ids config)\<close> by auto
    have "unat x = n" unfolding n(1) using n(2) by (simp add: unsigned_of_nat take_bit_nat_eq_self)
    then show ?thesis using n(2) by auto
  qed
  then show ?thesis unfolding usable_after_start_up by blast
qed

theorem ufunc_config_admits_unregistered:
  assumes "cf_enable_ufunc_helper_group config" and "\<not> cf_enable_shm_maps_helper_group config" and "\<not> cf_enable_kernel_helper_group config"
    and "\<forall>h \<in> set ufunc. 1000 \<le> hi_index h"
  shows "1 \<in> vt_usable_helpers (start_up_verifier config t) \<and> (\<forall>h \<in> set (registered ufunc config). hi_index h \<noteq> 1)"
  using assms by (auto simp: usable_after_start_up server_helper_ids_def map_group_ids registered_def)



end
