(* ===== verification/Syscall_Context.thy ===== *)
theory Syscall_Context
  imports Bpftime_Api Bpftime_Verifier Decimal_Text
begin

text \<open>
  The syscall server (\<open>runtime/syscall-server/\<close>): \<open>syscall_context\<close>, whose handlers stand in for the
  calls of a program that loads eBPF code. A handler passes a call on to the original function or
  serves it from the shared memory.

  \<open>server_env\<close> holds what is not part of the program: the results of the original functions and of the C
  library, the file system, the kernel's view of a map, regular expressions, the addresses of areas of the
  shared memory, the configuration and the verifier, if it is built in. \<open>sc_calls\<close> is the sequence
  of calls of original functions, \<open>sc_tables\<close> the verifier's tables of each thread and \<open>sc_temps\<close> that of the descriptors made by \<open>mkstemp\<close>. The locks
  are not modelled: a handler is one step.
\<close>

subsection \<open>Arguments\<close>

text \<open>The fields of \<open>union bpf_attr\<close> that the commands read; 32-bit descriptors are unsigned there.\<close>

record map_create_attr =
  mc_map_type :: nat
  mc_map_name :: string
  mc_key_size :: nat
  mc_value_size :: nat
  mc_max_entries :: nat
  mc_map_flags :: nat
  mc_map_ifindex :: nat
  mc_btf_vmlinux_value_type_id :: nat
  mc_btf_id :: nat
  mc_btf_key_type_id :: nat
  mc_btf_value_type_id :: nat
  mc_map_extra :: nat

text \<open>\<open>pl_func_info\<close> and \<open>pl_line_info\<close> are the record size, the count and the pointer.\<close>

record prog_load_attr =
  pl_prog_type :: nat
  pl_insns :: "64 word list"
  pl_prog_name :: string
  pl_func_info :: "nat \<times> nat \<times> nat"
  pl_line_info :: "nat \<times> nat \<times> nat"

datatype bpf_cmd =
    BPF_MAP_CREATE map_create_attr
  | BPF_MAP_LOOKUP_ELEM nat ptr
  | BPF_MAP_UPDATE_ELEM nat ptr ptr nat
  | BPF_MAP_DELETE_ELEM nat ptr
  | BPF_MAP_LOOKUP_AND_DELETE_ELEM nat outbuf
  | BPF_MAP_GET_NEXT_KEY nat ptr outbuf
  | BPF_PROG_LOAD prog_load_attr
  | BPF_LINK_CREATE link_create_args nat
  | BPF_MAP_FREEZE nat
  | BPF_OBJ_GET_INFO_BY_FD nat
  | BPF_PROG_ATTACH nat nat
  | BPF_OTHER_CMD int

record bpf_map_info =
  mi_type :: nat
  mi_id :: nat
  mi_key_size :: nat
  mi_value_size :: nat
  mi_max_entries :: nat
  mi_map_flags :: nat
  mi_name :: string
  mi_ifindex :: nat
  mi_btf_vmlinux_value_type_id :: nat
  mi_btf_id :: nat
  mi_btf_key_type_id :: nat
  mi_btf_value_type_id :: nat
  mi_map_extra :: nat

text \<open>What a command writes to the memory of the caller.\<close>

datatype bpf_out = No_Out | Out_Value bytes | Out_Map_Info bpf_map_info | Out_Prog_Info nat

record perf_event_attr =
  pv_type :: "32 word"
  pv_config :: "64 word"
  pv_sample_type :: "64 word"
  pv_config1 :: string
  pv_config2 :: nat

text \<open>The calls of original functions. \<open>mmap64\<close> is resolved to \<open>mmap\<close>.\<close>

datatype sys_args =
    Bpf_Args bpf_cmd nat
  | Perf_Args perf_event_attr int int int nat
  | Int_Args "int list"
  | Name_Args string int

datatype orig_call =
    O_syscall int sys_args
  | O_close int
  | O_openat int string int "16 word"
  | O_open string int "16 word"
  | O_read int nat
  | O_mmap int nat int int int int
  | O_ioctl int nat nat
  | O_epoll_create1 int
  | O_epoll_ctl int int int nat
  | O_epoll_wait int int int
  | O_munmap int nat
  | O_fopen string string

abbreviation (input) NR_bpf :: int where "NR_bpf \<equiv> 321"
abbreviation (input) NR_perf_event_open :: int where "NR_perf_event_open \<equiv> 298"
abbreviation (input) NR_dup3 :: int where "NR_dup3 \<equiv> 292"
abbreviation (input) NR_memfd_create :: int where "NR_memfd_create \<equiv> 319"

subsection \<open>State\<close>

record mocked_file =
  mf_cursor :: nat
  mf_buf :: string
  mf_replacement_file :: int

definition mocked_file_provider :: "string \<Rightarrow> mocked_file" where
  "mocked_file_provider buf = \<lparr>mf_cursor = 0, mf_buf = buf, mf_replacement_file = 0\<rparr>"

text \<open>The tables of the verifier are \<open>thread_local\<close>: every thread has its own.\<close>

datatype shm_area = Consumer_Page int | Producer_Page int | Array_Data int | Perf_Buffer int

record syscall_context =
  sc_enable_mock :: bool
  sc_initializing_cuda :: bool
  sc_enable_mock_after_initialized :: bool
  sc_run_with_kernel :: bool
  sc_by_pass_kernel_verifier_pattern :: string
  sc_mocked_files :: "int \<rightharpoonup> mocked_file"
  sc_mocked_mmap_values :: "int set"
  sc_already_setup :: bool
  sc_shm :: bpftime_shm
  sc_tables :: "nat \<Rightarrow> verifier_tables"
  sc_calls :: "orig_call list"
  sc_temps :: "int list"

text \<open>
  \<open>sv_thread\<close> is the thread that makes the call, \<open>sv_orig e n\<close> answers the \<open>n\<close>-th original call, \<open>sv_os e k\<close> the opens of the \<open>k\<close>-th runtime call of
  a handler, and \<open>sv_mkstemp e n\<close> is the descriptor and the name of the \<open>n\<close>-th temporary file.
  \<open>sv_fd_path\<close> is \<open>read_symlink\<close> on \<open>/proc/self/fd\<close>; \<open>sv_regex\<close> is \<open>None\<close> where the pattern raises.
\<close>

record server_env =
  sv_thread :: nat
  sv_runtime :: runtime_env
  sv_os :: "nat \<Rightarrow> nat \<Rightarrow> int"
  sv_orig :: "nat \<Rightarrow> orig_call \<Rightarrow> int"
  sv_mkstemp :: "nat \<Rightarrow> int \<times> string"
  sv_exists :: "string \<Rightarrow> bool"
  sv_fscanf :: "int \<Rightarrow> string \<Rightarrow> int \<times> int"
  sv_errno :: int
  sv_fd_path :: "int \<Rightarrow> string option"
  sv_is_directory :: "string \<Rightarrow> bool"
  sv_map_info :: "int \<Rightarrow> bpf_map_info option"
  sv_regex :: "string \<Rightarrow> (string \<Rightarrow> bool) option"
  sv_verify :: "(verifier_tables \<Rightarrow> 64 word list \<Rightarrow> string \<Rightarrow> string option asm_res) option"
  sv_address :: "shm_area \<Rightarrow> bpftime_shm \<Rightarrow> int"
  sv_config :: agent_config
  sv_max_fd_count :: nat

definition orig :: "server_env \<Rightarrow> orig_call \<Rightarrow> syscall_context \<Rightarrow> int res \<times> syscall_context" where
  "orig e k c = (Inr (sv_orig e (length (sc_calls c)) k), c\<lparr>sc_calls := sc_calls c @ [k]\<rparr>)"

text \<open>A call of the runtime on the shared memory.\<close>

definition on_shm :: "(bpftime_shm \<Rightarrow> 'a \<times> bpftime_shm) \<Rightarrow> syscall_context \<Rightarrow> 'a \<times> syscall_context" where
  "on_shm f c = (case f (sc_shm c) of (r, sh) \<Rightarrow> (r, c\<lparr>sc_shm := sh\<rparr>))"

text \<open>Go on with the next statement unless the call raises or is undefined.\<close>

definition unless_stopped ::
  "'a res \<times> syscall_context \<Rightarrow> ('a res \<Rightarrow> syscall_context \<Rightarrow> 'b res \<times> syscall_context) \<Rightarrow> 'b res \<times> syscall_context"
where
  "unless_stopped p f = (case p of
       (Inl Throw, c) \<Rightarrow> (Inl Throw, c)
     | (Inl UB, c) \<Rightarrow> (Inl UB, c)
     | (r, c) \<Rightarrow> f r c)"

text \<open>A 32-bit unsigned descriptor passed as an \<open>int\<close>.\<close>

abbreviation (input) fd_int :: "nat \<Rightarrow> int" where
  "fd_int n \<equiv> to_s32 (int n)"

subsection \<open>Start\<close>

definition load_config_from_env :: "(string \<Rightarrow> string option) \<Rightarrow> syscall_context \<Rightarrow> syscall_context" where
  "load_config_from_env getenv c =
     c\<lparr>sc_run_with_kernel := (getenv ''BPFTIME_RUN_WITH_KERNEL'' \<noteq> None),
       sc_by_pass_kernel_verifier_pattern := (case getenv ''BPFTIME_NOT_LOAD_PATTERN'' of Some p \<Rightarrow> p | None \<Rightarrow> [])\<rparr>"

text \<open>The global shared memory has no manager before the start.\<close>

definition syscall_context_new :: "(string \<Rightarrow> string option) \<Rightarrow> syscall_context" where
  "syscall_context_new getenv = load_config_from_env getenv
     \<lparr>sc_enable_mock = True, sc_initializing_cuda = False, sc_enable_mock_after_initialized = True,
      sc_run_with_kernel = False, sc_by_pass_kernel_verifier_pattern = [], sc_mocked_files = Map.empty,
      sc_mocked_mmap_values = {}, sc_already_setup = False, sc_shm = (shm_new 0)\<lparr>sh_manager := None\<rparr>,
      sc_tables = (\<lambda>_. \<lparr>vt_usable_helpers = {}, vt_map_descriptors = Map.empty, vt_non_kernel_helpers = Map.empty\<rparr>),
      sc_calls = [], sc_temps = []\<rparr>"

definition start_up :: "server_env \<Rightarrow> syscall_context \<Rightarrow> syscall_context" where
  "start_up e c =
     (if sc_already_setup c then c
      else c\<lparr>sc_already_setup := True, sc_shm := shm_new (sv_max_fd_count e),
             sc_tables := (if sv_verify e = None then sc_tables c
               else (sc_tables c)(sv_thread e := start_up_verifier (sv_config e) (sc_tables c (sv_thread e))))\<rparr>)"

definition try_startup :: "server_env \<Rightarrow> syscall_context \<Rightarrow> syscall_context" where
  "try_startup e c = (start_up e (c\<lparr>sc_enable_mock := False\<rparr>))\<lparr>sc_enable_mock := True\<rparr>"

text \<open>The test at the start of most handlers, negated.\<close>

definition mocking :: "syscall_context \<Rightarrow> bool" where
  "mocking c \<longleftrightarrow> \<not> (\<not> sc_enable_mock c \<or> sc_initializing_cuda c \<or> \<not> sc_enable_mock_after_initialized c)"

subsection \<open>Mocked files\<close>

definition UPROBE_TYPE_FILE_NAME :: string where
  "UPROBE_TYPE_FILE_NAME = ''/sys/bus/event_source/devices/uprobe/type''"

definition URETPROBE_BIT_FILE_NAME :: string where
  "URETPROBE_BIT_FILE_NAME = ''/sys/bus/event_source/devices/uprobe/format/retprobe''"

definition KPROBE_TYPE_FILE_NAME :: string where
  "KPROBE_TYPE_FILE_NAME = ''/sys/bus/event_source/devices/kprobe/type''"

definition KRETPROBE_BIT_FILE_NAME :: string where
  "KRETPROBE_BIT_FILE_NAME = ''/sys/bus/event_source/devices/kprobe/format/retprobe''"

abbreviation (input) MOCKED_UPROBE_TYPE_VALUE :: int where "MOCKED_UPROBE_TYPE_VALUE \<equiv> 9"
abbreviation (input) MOCKED_URETPROBE_BIT :: int where "MOCKED_URETPROBE_BIT \<equiv> 0"
abbreviation (input) MOCKED_KPROBE_TYPE_VALUE :: int where "MOCKED_KPROBE_TYPE_VALUE \<equiv> 8"
abbreviation (input) MOCKED_KRETPROBE_BIT :: int where "MOCKED_KRETPROBE_BIT \<equiv> 0"

text \<open>
  \<open>operator==\<close> of \<open>std::filesystem::path\<close> compares the elements: repeated separators count once, and a
  separator at the end is an empty last element.
\<close>

primrec path_parts :: "string \<Rightarrow> string \<Rightarrow> string list" where
  "path_parts [] cur = [cur]"
| "path_parts (x # xs) cur = (if x = CHR ''/'' then cur # path_parts xs [] else path_parts xs (cur @ [x]))"

definition path_elements :: "string \<Rightarrow> bool \<times> string list \<times> bool" where
  "path_elements p =
     (take 1 p = ''/'', filter (\<lambda>x. x \<noteq> []) (path_parts p []), p \<noteq> [] \<and> last p = CHR ''/'')"

definition path_eq :: "string \<Rightarrow> string \<Rightarrow> bool" where
  "path_eq p q \<longleftrightarrow> path_elements p = path_elements q"

text \<open>\<open>operator/\<close>: an absolute right operand replaces the left one.\<close>

definition path_append :: "string \<Rightarrow> string \<Rightarrow> string" where
  "path_append d f =
     (if take 1 f = ''/'' then f else if d \<noteq> [] \<and> last d \<noteq> CHR ''/'' then d @ ''/'' @ f else d @ f)"

definition create_mocked_file_based_on_full_path :: "string \<Rightarrow> mocked_file option" where
  "create_mocked_file_based_on_full_path path =
     (if path_eq path UPROBE_TYPE_FILE_NAME
      then Some (mocked_file_provider (dec_int MOCKED_UPROBE_TYPE_VALUE))
      else if path_eq path URETPROBE_BIT_FILE_NAME
      then Some (mocked_file_provider (''config:'' @ dec_int MOCKED_URETPROBE_BIT))
      else None)"

definition resolve_filename_and_fd_to_full_path :: "server_env \<Rightarrow> int \<Rightarrow> string \<Rightarrow> string option" where
  "resolve_filename_and_fd_to_full_path e fd file = (case sv_fd_path e fd of
       None \<Rightarrow> None
     | Some dir_path \<Rightarrow> (if \<not> sv_is_directory e dir_path then None else Some (path_append dir_path file)))"

definition handle_close :: "server_env \<Rightarrow> int \<Rightarrow> syscall_context \<Rightarrow> int res \<times> syscall_context" where
  "handle_close e fd c =
     (if \<not> mocking c then orig e (O_close fd) c
      else
        (let c = try_startup e c in
         case sc_mocked_files c fd of
           Some _ \<Rightarrow> (Inr 0, c\<lparr>sc_mocked_files := (sc_mocked_files c)(fd := None)\<rparr>)
         | None \<Rightarrow> unless_stopped (on_shm (close_fd (sv_runtime e) fd) c) (\<lambda>_. orig e (O_close fd))))"

text \<open>The statements shared by \<open>handle_openat\<close>, \<open>handle_open\<close> and \<open>handle_fopen\<close>: a temporary file for the mock.\<close>

definition make_temp :: "server_env \<Rightarrow> syscall_context \<Rightarrow> int \<times> syscall_context" where
  "make_temp e c =
     (let fake_fd = fst (sv_mkstemp e (length (sc_temps c))) in
      (fake_fd, if fake_fd < 0 then c else c\<lparr>sc_temps := sc_temps c @ [fake_fd]\<rparr>))"

text \<open>\<open>emplace\<close> does not change an entry that exists.\<close>

definition emplace_file :: "int \<Rightarrow> mocked_file \<Rightarrow> syscall_context \<Rightarrow> syscall_context" where
  "emplace_file fd m c = (case sc_mocked_files c fd of
       Some _ \<Rightarrow> c
     | None \<Rightarrow> c\<lparr>sc_mocked_files := (sc_mocked_files c)(fd \<mapsto> m)\<rparr>)"

definition handle_openat :: "server_env \<Rightarrow> int \<Rightarrow> string \<Rightarrow> int \<Rightarrow> 16 word \<Rightarrow> syscall_context \<Rightarrow> int res \<times> syscall_context" where
  "handle_openat e fd file oflag mode c =
     (if \<not> mocking c then orig e (O_openat fd file oflag mode) c
      else
        (let c = try_startup e c in
         case resolve_filename_and_fd_to_full_path e fd file of
           None \<Rightarrow> orig e (O_openat fd file oflag mode) c
         | Some path \<Rightarrow> (case create_mocked_file_based_on_full_path path of
               Some mocker \<Rightarrow> (case make_temp e c of (fake_fd, c) \<Rightarrow>
                 (if fake_fd < 0 then orig e (O_open file oflag mode) c
                  else (Inr fake_fd, emplace_file fake_fd mocker c)))
             | None \<Rightarrow> orig e (O_openat fd file oflag mode) c)))"

definition handle_open :: "server_env \<Rightarrow> string \<Rightarrow> int \<Rightarrow> 16 word \<Rightarrow> syscall_context \<Rightarrow> int res \<times> syscall_context" where
  "handle_open e file oflag mode c =
     (if \<not> mocking c then orig e (O_open file oflag mode) c
      else
        (let c = try_startup e c in
         case create_mocked_file_based_on_full_path file of
           Some mocker \<Rightarrow> (case make_temp e c of (fake_fd, c) \<Rightarrow>
             (if fake_fd < 0 then orig e (O_open file oflag mode) c
              else (Inr fake_fd, emplace_file fake_fd mocker c)))
         | None \<Rightarrow> orig e (O_open file oflag mode) c))"

text \<open>The result carries what is copied to the buffer; \<open>None\<close> is a buffer left to the original function.\<close>

definition handle_read :: "server_env \<Rightarrow> int \<Rightarrow> nat \<Rightarrow> syscall_context \<Rightarrow> (int \<times> string option) res \<times> syscall_context" where
  "handle_read e fd cnt c =
     (let pass = (\<lambda>c. case orig e (O_read fd cnt) c of (r, c') \<Rightarrow> (map_sum id (\<lambda>n. (n, None)) r, c')) in
      if \<not> mocking c then pass c
      else
        (let c = try_startup e c in
         case sc_mocked_files c fd of
           Some m \<Rightarrow>
             (let can_read_bytes = min cnt (length (mf_buf m) - mf_cursor m) in
              if can_read_bytes = 0 then (Inr (0, Some []), c)
              else (Inr (int can_read_bytes, Some (take can_read_bytes (drop (mf_cursor m) (mf_buf m)))),
                    c\<lparr>sc_mocked_files := (sc_mocked_files c)(fd \<mapsto> m\<lparr>mf_cursor := mf_cursor m + can_read_bytes\<rparr>)\<rparr>))
         | None \<Rightarrow> pass c))"

text \<open>
  The inner \<open>fopen\<close> is the call of the temporary file's name, which is not a mocked path and goes to the original
  function. The text of the mock is written to the temporary file.
\<close>

definition handle_fopen :: "server_env \<Rightarrow> string \<Rightarrow> string \<Rightarrow> syscall_context \<Rightarrow> int res \<times> syscall_context" where
  "handle_fopen e pathname flags c =
     (if \<not> mocking c then orig e (O_fopen pathname flags) c
      else
        (let c = try_startup e c in
         case create_mocked_file_based_on_full_path pathname of
           Some mocker \<Rightarrow>
             (let filename_buf = snd (sv_mkstemp e (length (sc_temps c))) in
              case make_temp e c of (fake_fd, c) \<Rightarrow>
                (if fake_fd < 0 then orig e (O_fopen pathname flags) c
                 else
                   (let c = emplace_file fake_fd mocker c in
                    case orig e (O_fopen filename_buf ''r'') c of
                      (Inl f, c) \<Rightarrow> (Inl f, c)
                    | (Inr fp, c) \<Rightarrow> (Inr fp, c\<lparr>sc_mocked_files := (sc_mocked_files c)(fake_fd :=
                        map_option (\<lambda>m. m\<lparr>mf_replacement_file := fp\<rparr>) (sc_mocked_files c fake_fd))\<rparr>))))
         | None \<Rightarrow> orig e (O_fopen pathname flags) c))"

text \<open>\<open>EIO\<close> is 5 and \<open>EOF\<close> is -1. \<open>fopen\<close> is the function of the server.\<close>

definition parse_uint_from_file :: "server_env \<Rightarrow> string \<Rightarrow> string \<Rightarrow> syscall_context \<Rightarrow> int res \<times> syscall_context" where
  "parse_uint_from_file e file fmt c = (case handle_fopen e file ''re'' c of
       (Inl f, c) \<Rightarrow> (Inl f, c)
     | (Inr f, c) \<Rightarrow>
         (if f = 0 then (Inr (- sv_errno e), c)
          else (case sv_fscanf e f fmt of (err, ret) \<Rightarrow>
            (if err \<noteq> 1 then (Inr (if err = -1 then -5 else - sv_errno e), c) else (Inr ret, c)))))"

definition determine_uprobe_perf_type :: "server_env \<Rightarrow> syscall_context \<Rightarrow> int res \<times> syscall_context" where
  "determine_uprobe_perf_type e c =
     (if \<not> sv_exists e UPROBE_TYPE_FILE_NAME then (Inr MOCKED_UPROBE_TYPE_VALUE, c)
      else parse_uint_from_file e UPROBE_TYPE_FILE_NAME ''%d\<newline>'' c)"

definition determine_uprobe_retprobe_bit :: "server_env \<Rightarrow> syscall_context \<Rightarrow> int res \<times> syscall_context" where
  "determine_uprobe_retprobe_bit e c =
     (if \<not> sv_exists e URETPROBE_BIT_FILE_NAME then (Inr MOCKED_URETPROBE_BIT, c)
      else parse_uint_from_file e URETPROBE_BIT_FILE_NAME ''config:%d\<newline>'' c)"

definition determine_kprobe_perf_type :: "server_env \<Rightarrow> syscall_context \<Rightarrow> int res \<times> syscall_context" where
  "determine_kprobe_perf_type e c =
     (if \<not> sv_exists e KPROBE_TYPE_FILE_NAME then (Inr MOCKED_KPROBE_TYPE_VALUE, c)
      else parse_uint_from_file e KPROBE_TYPE_FILE_NAME ''%d\<newline>'' c)"

definition determine_kprobe_retprobe_bit :: "server_env \<Rightarrow> syscall_context \<Rightarrow> int res \<times> syscall_context" where
  "determine_kprobe_retprobe_bit e c =
     (if \<not> sv_exists e KRETPROBE_BIT_FILE_NAME then (Inr MOCKED_KRETPROBE_BIT, c)
      else parse_uint_from_file e KRETPROBE_BIT_FILE_NAME ''config:%d\<newline>'' c)"

subsection \<open>The \<open>bpf\<close> system call\<close>

abbreviation (input) KERNEL_USER_MAP_OFFSET :: nat where "KERNEL_USER_MAP_OFFSET \<equiv> 1000"

text \<open>
  \<open>add_bpf_map\<close> with the verifier built in: before the handler is entered, the map is described to the verifier, in the tables of
  the calling thread.
\<close>

definition describe_map :: "int \<Rightarrow> bpf_map_attr \<Rightarrow> verifier_tables \<Rightarrow> verifier_tables" where
  "describe_map fd attr t = set_map_descriptors ((get_map_descriptors t)(fd \<mapsto>
     \<lparr>md_original_fd = fd, md_type = nat (at_type attr mod 2 ^ 32), md_key_size = at_key_size attr, md_value_size = at_value_size attr,
      md_max_entries = at_max_ents attr, md_inner_map_fd = 2 ^ 32 - 1\<rparr>)) t"

definition server_add_bpf_map ::
  "server_env \<Rightarrow> int \<Rightarrow> string \<Rightarrow> bpf_map_attr \<Rightarrow> syscall_context \<Rightarrow> int res \<times> syscall_context"
where
  "server_add_bpf_map e fd name attr c =
     on_shm (add_bpf_map (sv_runtime e) (sv_os e 0) fd name attr)
       (if sh_manager (sc_shm c) = None \<or> sv_verify e = None then c
        else c\<lparr>sc_tables := (sc_tables c)(sv_thread e :=
          describe_map (new_fd (sv_os e 0) fd) attr (sc_tables c (sv_thread e)))\<rparr>)"

text \<open>\<open>at_map_extra\<close> and \<open>at_gpu_thread_count\<close> keep their default values.\<close>

definition kernel_map_attr :: "bpf_map_info \<Rightarrow> bpf_map_attr" where
  "kernel_map_attr info = \<lparr>at_type = to_s32 (int (mi_type info + KERNEL_USER_MAP_OFFSET)), at_key_size = mi_key_size info,
     at_value_size = mi_value_size info, at_max_ents = mi_max_entries info, at_flags = mi_map_flags info,
     at_ifindex = mi_ifindex info, at_btf_vmlinux_value_type_id = mi_btf_vmlinux_value_type_id info,
     at_btf_id = mi_btf_id info, at_btf_key_type_id = mi_btf_key_type_id info,
     at_btf_value_type_id = mi_btf_value_type_id info, at_map_extra = 0,
     at_kernel_bpf_map_id = mi_id info, at_gpu_thread_count = 1000\<rparr>"

definition create_kernel_bpf_map :: "server_env \<Rightarrow> int \<Rightarrow> syscall_context \<Rightarrow> int res \<times> syscall_context" where
  "create_kernel_bpf_map e map_fd c = (case sv_map_info e map_fd of
       None \<Rightarrow> (Inl MinusOne, c)
     | Some info \<Rightarrow>
         (if is_map_fd (fd_int (mi_id info)) (sc_shm c) then (Inr 0, c)
          else unless_stopped (server_add_bpf_map e (fd_int (mi_id info)) (mi_name info) (kernel_map_attr info) c)
            (\<lambda>r c. case r of Inr res \<Rightarrow> (if res < 0 then Inl MinusOne else Inr map_fd, c) | Inl _ \<Rightarrow> (Inl MinusOne, c))))"

text \<open>The loop that replaces the descriptors of map loads by the ids of the maps.\<close>

definition inst_imm :: "64 word \<Rightarrow> int" where
  "inst_imm w = sint (ucast (drop_bit 32 w) :: 32 word)"

definition is_map_load :: "64 word \<Rightarrow> bool" where
  "is_map_load w \<longleftrightarrow> w AND 0xff = 0x18 \<and> (drop_bit 12 w AND 0xf = 1 \<or> drop_bit 12 w AND 0xf = 2)"

primrec relocate_map_loads :: "(int \<Rightarrow> bpf_map_info option) \<Rightarrow> 64 word list \<Rightarrow> 64 word list option" where
  "relocate_map_loads info [] = Some []"
| "relocate_map_loads info (w # ws) =
     (if is_map_load w then
        (case info (inst_imm w) of
           None \<Rightarrow> None
         | Some i \<Rightarrow> map_option ((#) (push_bit 32 (of_nat (mi_id i)) OR (w AND 0xffffffff))) (relocate_map_loads info ws))
      else map_option ((#) w) (relocate_map_loads info ws))"

text \<open>The program \<open>r0 = 0; exit\<close>.\<close>

definition trival_prog_insns :: "64 word list" where
  "trival_prog_insns = [0xb7, 0x95]"

definition kernel_prog_attr :: "(string \<Rightarrow> bool) \<Rightarrow> prog_load_attr \<Rightarrow> syscall_context \<Rightarrow> prog_load_attr" where
  "kernel_prog_attr matches attr c =
     (if sc_by_pass_kernel_verifier_pattern c \<noteq> [] \<and> matches (pl_prog_name attr)
      then attr\<lparr>pl_insns := trival_prog_insns, pl_func_info := (0, 0, 0), pl_line_info := (0, 0, 0)\<rparr> else attr)"

definition create_kernel_bpf_prog_in_userspace ::
  "server_env \<Rightarrow> prog_load_attr \<Rightarrow> nat \<Rightarrow> syscall_context \<Rightarrow> int res \<times> syscall_context"
where
  "create_kernel_bpf_prog_in_userspace e attr sz c = (case sv_regex e (sc_by_pass_kernel_verifier_pattern c) of
       None \<Rightarrow> (Inl Throw, c)
     | Some matches \<Rightarrow>
         (case orig e (O_syscall NR_bpf (Bpf_Args (BPF_PROG_LOAD (kernel_prog_attr matches attr c)) sz)) c of
            (Inl f, c) \<Rightarrow> (Inl f, c)
          | (Inr res, c) \<Rightarrow>
              (if res < 0 then (Inr res, c)
               else (case relocate_map_loads (sv_map_info e) (pl_insns attr) of
                   None \<Rightarrow> (Inl MinusOne, c)
                 | Some insns \<Rightarrow> on_shm (add_bpf_prog (sv_runtime e) (sv_os e 0) res insns (pl_prog_name attr)
                     (fd_int (pl_prog_type attr))) c))))"

text \<open>\<open>(int)map_type\<close>.\<close>

primrec map_type_code :: "bpf_map_type \<Rightarrow> int" where
  "map_type_code BPF_MAP_TYPE_HASH = 1"
| "map_type_code BPF_MAP_TYPE_ARRAY = 2"
| "map_type_code BPF_MAP_TYPE_PROG_ARRAY = 3"
| "map_type_code BPF_MAP_TYPE_PERF_EVENT_ARRAY = 4"
| "map_type_code BPF_MAP_TYPE_PERCPU_HASH = 5"
| "map_type_code BPF_MAP_TYPE_PERCPU_ARRAY = 6"
| "map_type_code BPF_MAP_TYPE_STACK_TRACE = 7"
| "map_type_code BPF_MAP_TYPE_LRU_HASH = 9"
| "map_type_code BPF_MAP_TYPE_LPM_TRIE = 11"
| "map_type_code BPF_MAP_TYPE_ARRAY_OF_MAPS = 12"
| "map_type_code BPF_MAP_TYPE_QUEUE = 22"
| "map_type_code BPF_MAP_TYPE_STACK = 23"
| "map_type_code BPF_MAP_TYPE_RINGBUF = 27"
| "map_type_code BPF_MAP_TYPE_BLOOM_FILTER = 30"
| "map_type_code BPF_MAP_TYPE_KERNEL_USER_HASH = 1001"
| "map_type_code BPF_MAP_TYPE_KERNEL_USER_ARRAY = 1002"
| "map_type_code BPF_MAP_TYPE_KERNEL_USER_PERCPU_ARRAY = 1006"
| "map_type_code BPF_MAP_TYPE_KERNEL_USER_PERF_EVENT_ARRAY = 1004"
| "map_type_code (BPF_MAP_TYPE_OTHER n) = n"

text \<open>The cases of \<open>handle_sysbpf\<close> without the kernel.\<close>

definition map_attr_of :: "map_create_attr \<Rightarrow> bpf_map_attr" where
  "map_attr_of a = \<lparr>at_type = fd_int (mc_map_type a), at_key_size = mc_key_size a, at_value_size = mc_value_size a,
     at_max_ents = mc_max_entries a, at_flags = mc_map_flags a, at_ifindex = mc_map_ifindex a,
     at_btf_vmlinux_value_type_id = mc_btf_vmlinux_value_type_id a, at_btf_id = mc_btf_id a,
     at_btf_key_type_id = mc_btf_key_type_id a, at_btf_value_type_id = mc_btf_value_type_id a,
     at_map_extra = mc_map_extra a, at_kernel_bpf_map_id = 0, at_gpu_thread_count = 1000\<rparr>"

text \<open>\<open>memcpy\<close> of the element: a handle of an inner map is not an address, and a short element is overread.\<close>

definition sysbpf_lookup :: "server_env \<Rightarrow> int \<Rightarrow> ptr \<Rightarrow> bpftime_shm \<Rightarrow> bytes res \<times> bpftime_shm" where
  "sysbpf_lookup e map_fd key sh = (case bpftime_map_lookup_elem (sv_runtime e) map_fd key sh of
       (Inl Throw, sh) \<Rightarrow> (Inl Throw, sh)
     | (Inl UB, sh) \<Rightarrow> (Inl UB, sh)
     | (Inl _, sh) \<Rightarrow> (Inl (Errno ENOENT), sh)
     | (Inr (Handle _), sh) \<Rightarrow> (Inl UB, sh)
     | (Inr (Elem v), sh) \<Rightarrow> (case shm_map_value_size (sv_runtime e) map_fd sh of
           Inl _ \<Rightarrow> (Inr [], sh)
         | Inr n \<Rightarrow> (if n \<le> length v then Inr (take n v) else Inl UB, sh)))"

text \<open>The program type decides on the section name; a program of another type is not verified.\<close>

definition simple_section_name :: "nat \<Rightarrow> string option" where
  "simple_section_name prog_type =
     (if prog_type = 5 then Some ''tracepoint'' else if prog_type = 1 then Some ''uprobe'' else None)"

definition sysbpf_prog_load :: "server_env \<Rightarrow> prog_load_attr \<Rightarrow> syscall_context \<Rightarrow> int res \<times> syscall_context" where
  "sysbpf_prog_load e attr c =
     (let load = on_shm (add_bpf_prog (sv_runtime e) (sv_os e 0) (-1) (pl_insns attr) (pl_prog_name attr)
            (fd_int (pl_prog_type attr))) in
      case (sv_verify e, simple_section_name (pl_prog_type attr)) of
        (Some verify, Some section_name) \<Rightarrow> (case verify (sc_tables c (sv_thread e)) (pl_insns attr) section_name of
            Inl _ \<Rightarrow> (Inl Throw, c)
          | Inr (Some _) \<Rightarrow> (Inl (Errno EINVAL), c)
          | Inr None \<Rightarrow> load c)
      | _ \<Rightarrow> load c)"

text \<open>The result of the second call is dropped. \<open>BPF_PERF_EVENT\<close> is 41.\<close>

definition sysbpf_link_create :: "server_env \<Rightarrow> link_create_args \<Rightarrow> nat \<Rightarrow> syscall_context \<Rightarrow> int res \<times> syscall_context" where
  "sysbpf_link_create e args cookie c =
     (let prog_fd = fd_int (la_prog_fd args); target_fd = fd_int (la_target_fd args) in
      unless_stopped (on_shm (add_bpf_link (sv_runtime e) (sv_os e 0) (-1) (Some args)) c) (\<lambda>ident c.
        if is_prog_fd prog_fd (sc_shm c) \<and> is_perf_event_handler_fd target_fd (sc_shm c) \<and> la_attach_type args = 41
        then unless_stopped (on_shm (attach_perf_to_bpf (sv_runtime e) (sv_os e 1) target_fd prog_fd (Some cookie)) c) (\<lambda>_ c. (ident, c))
        else (ident, c)))"

definition sysbpf_get_info :: "nat \<Rightarrow> bpftime_shm \<Rightarrow> bpf_out res" where
  "sysbpf_get_info bpf_fd sh =
     (if is_map_fd (fd_int bpf_fd) sh then
        (case bpftime_map_get_info (fd_int bpf_fd) sh of
           Inl _ \<Rightarrow> Inl MinusOne
         | Inr (map_attr, map_name, map_type) \<Rightarrow> Inr (Out_Map_Info
             \<lparr>mi_type = nat (map_type_code map_type mod 2 ^ 32), mi_id = bpf_fd, mi_key_size = at_key_size map_attr,
              mi_value_size = at_value_size map_attr, mi_max_entries = at_max_ents map_attr, mi_map_flags = w32 (at_flags map_attr),
              mi_name = take 15 map_name, mi_ifindex = at_ifindex map_attr,
              mi_btf_vmlinux_value_type_id = at_btf_vmlinux_value_type_id map_attr, mi_btf_id = at_btf_id map_attr,
              mi_btf_key_type_id = at_btf_key_type_id map_attr, mi_btf_value_type_id = at_btf_value_type_id map_attr,
              mi_map_extra = at_map_extra map_attr\<rparr>))
      else if is_prog_fd (fd_int bpf_fd) sh then Inr (Out_Prog_Info bpf_fd)
      else Inr No_Out)"

text \<open>How the results of the runtime become the result of the system call.\<close>

definition plain_out :: "int res \<times> syscall_context \<Rightarrow> (int \<times> bpf_out) res \<times> syscall_context" where
  "plain_out p = (case p of (r, c) \<Rightarrow> (map_sum id (\<lambda>n. (n, No_Out)) r, c))"

definition zero_out :: "unit res \<times> syscall_context \<Rightarrow> (int \<times> bpf_out) res \<times> syscall_context" where
  "zero_out p = (case p of (r, c) \<Rightarrow> (map_sum id (\<lambda>_. (0, No_Out)) r, c))"

definition value_out :: "bytes res \<times> syscall_context \<Rightarrow> (int \<times> bpf_out) res \<times> syscall_context" where
  "value_out p = (case p of (r, c) \<Rightarrow> (map_sum id (\<lambda>v. (0, Out_Value v)) r, c))"

text \<open>The descriptor that decides whether the kernel gets a command in spite of a perf event of the runtime.\<close>

primrec kernel_target :: "bpf_cmd \<Rightarrow> int option" where
  "kernel_target (BPF_MAP_CREATE a) = None"
| "kernel_target (BPF_MAP_LOOKUP_ELEM fd key) = None"
| "kernel_target (BPF_MAP_UPDATE_ELEM fd key v fl) = None"
| "kernel_target (BPF_MAP_DELETE_ELEM fd key) = None"
| "kernel_target (BPF_MAP_LOOKUP_AND_DELETE_ELEM fd out) = None"
| "kernel_target (BPF_MAP_GET_NEXT_KEY fd key out) = None"
| "kernel_target (BPF_PROG_LOAD a) = None"
| "kernel_target (BPF_LINK_CREATE a cookie) = Some (fd_int (la_target_fd a))"
| "kernel_target (BPF_MAP_FREEZE fd) = None"
| "kernel_target (BPF_OBJ_GET_INFO_BY_FD fd) = None"
| "kernel_target (BPF_PROG_ATTACH prog target) = Some (fd_int target)"
| "kernel_target (BPF_OTHER_CMD n) = None"

definition sysbpf_runtime ::
  "server_env \<Rightarrow> bpf_cmd \<Rightarrow> nat \<Rightarrow> syscall_context \<Rightarrow> (int \<times> bpf_out) res \<times> syscall_context"
where
  "sysbpf_runtime e cmd sz c = (let rt = sv_runtime e in case cmd of
       BPF_MAP_CREATE a \<Rightarrow> plain_out (server_add_bpf_map e (-1) (mc_map_name a) (map_attr_of a) c)
     | BPF_MAP_LOOKUP_ELEM map_fd key \<Rightarrow> value_out (on_shm (sysbpf_lookup e (fd_int map_fd) key) c)
     | BPF_MAP_UPDATE_ELEM map_fd key value flags \<Rightarrow>
         zero_out (on_shm (bpftime_map_update_elem rt (fd_int map_fd) key value flags) c)
     | BPF_MAP_DELETE_ELEM map_fd key \<Rightarrow> zero_out (on_shm (bpftime_map_delete_elem rt (fd_int map_fd) key) c)
     | BPF_MAP_LOOKUP_AND_DELETE_ELEM map_fd value \<Rightarrow>
         value_out (on_shm (bpftime_map_lookup_and_delete_elem (fd_int map_fd) value) c)
     | BPF_MAP_GET_NEXT_KEY map_fd key next_key \<Rightarrow>
         value_out (on_shm (bpftime_map_get_next_key rt (fd_int map_fd) key next_key) c)
     | BPF_PROG_LOAD a \<Rightarrow> plain_out (sysbpf_prog_load e a c)
     | BPF_LINK_CREATE args cookie \<Rightarrow> plain_out (sysbpf_link_create e args cookie c)
     | BPF_MAP_FREEZE map_fd \<Rightarrow> (Inr (0, No_Out), c)
     | BPF_OBJ_GET_INFO_BY_FD bpf_fd \<Rightarrow> (map_sum id (\<lambda>out. (0, out)) (sysbpf_get_info bpf_fd (sc_shm c)), c)
     | BPF_PROG_ATTACH prog_fd target_fd \<Rightarrow>
         plain_out (on_shm (attach_perf_to_bpf rt (sv_os e 0) (fd_int target_fd) (fd_int prog_fd) None) c)
     | BPF_OTHER_CMD n \<Rightarrow> plain_out (orig e (O_syscall NR_bpf (Bpf_Args cmd sz)) c))"

text \<open>The cases with the kernel: maps and programs are created there and entered, other commands are passed on.\<close>

definition sysbpf_kernel ::
  "server_env \<Rightarrow> bpf_cmd \<Rightarrow> nat \<Rightarrow> syscall_context \<Rightarrow> (int \<times> bpf_out) res \<times> syscall_context"
where
  "sysbpf_kernel e cmd sz c = (case cmd of
       BPF_MAP_CREATE a \<Rightarrow> (case orig e (O_syscall NR_bpf (Bpf_Args cmd sz)) c of
           (Inl f, c) \<Rightarrow> (Inl f, c)
         | (Inr fd, c) \<Rightarrow> plain_out (create_kernel_bpf_map e fd c))
     | BPF_PROG_LOAD a \<Rightarrow> plain_out (create_kernel_bpf_prog_in_userspace e a sz c)
     | _ \<Rightarrow> plain_out (orig e (O_syscall NR_bpf (Bpf_Args cmd sz)) c))"

definition handle_sysbpf ::
  "server_env \<Rightarrow> bpf_cmd \<Rightarrow> nat \<Rightarrow> syscall_context \<Rightarrow> (int \<times> bpf_out) res \<times> syscall_context"
where
  "handle_sysbpf e cmd sz c =
     (if \<not> mocking c then plain_out (orig e (O_syscall NR_bpf (Bpf_Args cmd sz)) c)
      else
        (let c = try_startup e c in
         if sc_run_with_kernel c \<and>
            (case kernel_target cmd of Some fd \<Rightarrow> \<not> is_perf_event_handler_fd fd (sc_shm c) | None \<Rightarrow> True)
         then sysbpf_kernel e cmd sz c
         else sysbpf_runtime e cmd sz c))"

subsection \<open>Perf events\<close>

text \<open>\<open>config & (1 << bit)\<close>; the shift is undefined for a bit outside the width of \<open>int\<close>.\<close>

definition config_bit :: "64 word \<Rightarrow> int \<Rightarrow> bool res" where
  "config_bit config b =
     (if b < 0 \<or> b \<ge> 32 then Inl UB
      else Inr (config AND scast (push_bit (nat b) (1 :: 32 word)) \<noteq> 0))"

definition ref_ctr_off :: "64 word \<Rightarrow> nat" where
  "ref_ctr_off config = unat (drop_bit 32 config)"

definition perf_probe ::
  "(bool \<Rightarrow> bpftime_shm \<Rightarrow> int res \<times> bpftime_shm) \<Rightarrow> 64 word \<Rightarrow> int res \<times> syscall_context \<Rightarrow> int res \<times> syscall_context"
where
  "perf_probe create config p = unless_stopped p (\<lambda>retprobe_bit c. case retprobe_bit of
       Inl f \<Rightarrow> (Inl f, c)
     | Inr b \<Rightarrow> (case config_bit config b of Inl f \<Rightarrow> (Inl f, c) | Inr retprobe \<Rightarrow> on_shm (create retprobe) c))"

text \<open>The branches after the uprobes and kprobes, by the type of the event.\<close>

definition perf_other ::
  "server_env \<Rightarrow> perf_event_attr \<Rightarrow> int \<Rightarrow> int \<Rightarrow> int \<Rightarrow> nat \<Rightarrow> syscall_context \<Rightarrow> int res \<times> syscall_context"
where
  "perf_other e attr pid cpu group_fd flags c =
     (let rt = sv_runtime e; typ = sint (pv_type attr); create = (\<lambda>f. on_shm f c) in
      if typ = event_type_code PERF_TYPE_TRACEPOINT
      then create (add_tracepoint rt (sv_os e 0) (-1) pid (sint (ucast (pv_config attr) :: 32 word)))
      else if typ = event_type_code PERF_TYPE_SOFTWARE
      then create (bpftime_add_software_perf_event rt (sv_os e 0) cpu (sint (ucast (pv_sample_type attr) :: 32 word)) (sint (pv_config attr)))
      else if typ = event_type_code BPF_TYPE_UREPLACE
      then create (add_uprobe_override rt (sv_os e 0) (-1) pid (pv_config1 attr) (pv_config2 attr) True)
      else if typ = event_type_code BPF_TYPE_UPROBE_OVERRIDE
      then create (add_uprobe_override rt (sv_os e 0) (-1) pid (pv_config1 attr) (pv_config2 attr) False)
      else orig e (O_syscall NR_perf_event_open (Perf_Args attr pid cpu group_fd flags)) c)"

definition handle_perfevent ::
  "server_env \<Rightarrow> perf_event_attr \<Rightarrow> int \<Rightarrow> int \<Rightarrow> int \<Rightarrow> nat \<Rightarrow> syscall_context \<Rightarrow> int res \<times> syscall_context"
where
  "handle_perfevent e attr pid cpu group_fd flags c =
     (if \<not> mocking c then orig e (O_syscall NR_perf_event_open (Perf_Args attr pid cpu group_fd flags)) c
      else
        (let rt = sv_runtime e; name = pv_config1 attr; off = pv_config2 attr; ctr = ref_ctr_off (pv_config attr) in
         unless_stopped (determine_uprobe_perf_type e (try_startup e c)) (\<lambda>up c.
         if up = Inr (sint (pv_type attr))
         then perf_probe (\<lambda>retprobe. add_uprobe rt (sv_os e 0) (-1) pid name off retprobe ctr) (pv_config attr)
                (determine_uprobe_retprobe_bit e c)
         else unless_stopped (determine_kprobe_perf_type e c) (\<lambda>kp c.
           if kp = Inr (sint (pv_type attr))
           then perf_probe (\<lambda>retprobe. bpftime_kprobe_create rt (sv_os e 0) (-1) name off retprobe ctr) (pv_config attr)
                  (determine_kprobe_retprobe_bit e c)
           else perf_other e attr pid cpu group_fd flags c))))"

text \<open>
  A request that the runtime serves; a result below 0 falls through to the original function.
\<close>

definition ioctl_runtime :: "server_env \<Rightarrow> int \<Rightarrow> nat \<Rightarrow> nat \<Rightarrow> bpftime_shm \<Rightarrow> (int res \<times> bpftime_shm) option" where
  "ioctl_runtime e fd req data sh =
     (if req = 0x2400 then Some (case shm_perf_event_enable fd sh of (r, sh) \<Rightarrow> (map_sum id (\<lambda>_. 0) r, sh))
      else if req = 0x2401 then Some (case shm_perf_event_disable fd sh of (r, sh) \<Rightarrow> (map_sum id (\<lambda>_. 0) r, sh))
      else if req = 0x40042408 then Some (attach_perf_to_bpf (sv_runtime e) (sv_os e 0) fd (to_s32 (int data)) None sh)
      else None)"

definition handle_ioctl :: "server_env \<Rightarrow> int \<Rightarrow> nat \<Rightarrow> nat \<Rightarrow> syscall_context \<Rightarrow> int res \<times> syscall_context" where
  "handle_ioctl e fd req data c =
     (if \<not> mocking c then orig e (O_ioctl fd req data) c
      else
        (let c = try_startup e c in
         case ioctl_runtime e fd req data (sc_shm c) of
           None \<Rightarrow> orig e (O_ioctl fd req data) c
         | Some p \<Rightarrow>
             (if sc_run_with_kernel c \<and> \<not> is_perf_event_handler_fd fd (sc_shm c) then orig e (O_ioctl fd req data) c
              else unless_stopped (on_shm (\<lambda>_. p) c) (\<lambda>r c. case r of
                  Inr res \<Rightarrow> (if res \<ge> 0 then (Inr res, c) else orig e (O_ioctl fd req data) c)
                | Inl _ \<Rightarrow> orig e (O_ioctl fd req data) c))))"

subsection \<open>Memory, events and descriptors\<close>

abbreviation (input) PROT_READ :: int where "PROT_READ \<equiv> 1"
abbreviation (input) PROT_WRITE :: int where "PROT_WRITE \<equiv> 2"
abbreviation (input) MAP_ANONYMOUS :: int where "MAP_ANONYMOUS \<equiv> 0x20"

text \<open>The area of the shared memory that a call asks for; \<open>None\<close> is a call that is passed on.\<close>

definition mmap_area :: "nat \<Rightarrow> int \<Rightarrow> int \<Rightarrow> bpftime_shm \<Rightarrow> shm_area option res \<times> bpftime_shm" where
  "mmap_area len prot fd sh =
     (let found = (\<lambda>area r. case r of Inr _ \<Rightarrow> Inr (Some area) | Inl UB \<Rightarrow> Inl UB | Inl Throw \<Rightarrow> Inl Throw | Inl _ \<Rightarrow> Inr None) in
      if fd \<noteq> -1 \<and> is_ringbuf_map_fd fd sh then
        (if prot = PROT_WRITE OR PROT_READ then (found (Consumer_Page fd) (map_sum id (\<lambda>_. ()) (bpftime_get_ringbuf_consumer_page fd sh)), sh)
         else if prot = PROT_READ then (found (Producer_Page fd) (map_sum id (\<lambda>_. ()) (bpftime_get_ringbuf_producer_page fd sh)), sh)
         else (Inr None, sh))
      else if fd \<noteq> -1 \<and> is_array_map_fd fd sh then
        (found (Array_Data fd) (map_sum id (\<lambda>_. ()) (bpftime_get_array_map_raw_data fd sh)), sh)
      else if fd \<noteq> -1 \<and> is_software_perf_event_handler_fd fd sh then
        (case bpftime_get_software_perf_event_raw_buffer fd len sh of (r, sh) \<Rightarrow> (found (Perf_Buffer fd) r, sh))
      else (Inr None, sh))"

text \<open>A call that is passed on is preceded by an anonymous mapping, whose address is dropped.\<close>

definition handle_mmap64 ::
  "server_env \<Rightarrow> int \<Rightarrow> nat \<Rightarrow> int \<Rightarrow> int \<Rightarrow> int \<Rightarrow> int \<Rightarrow> syscall_context \<Rightarrow> int res \<times> syscall_context"
where
  "handle_mmap64 e addr len prot flags fd off c =
     (if \<not> sc_enable_mock c \<or> sc_run_with_kernel c \<or> sc_initializing_cuda c
      then orig e (O_mmap addr len prot flags fd off) c
      else (case on_shm (mmap_area len prot fd) (try_startup e c) of
          (Inl f, c) \<Rightarrow> (Inl f, c)
        | (Inr (Some area), c) \<Rightarrow>
            (let p = sv_address e area (sc_shm c) in
             (Inr p, c\<lparr>sc_mocked_mmap_values := insert p (sc_mocked_mmap_values c)\<rparr>))
        | (Inr None, c) \<Rightarrow>
            orig e (O_mmap addr len prot flags fd off)
              (snd (orig e (O_mmap addr len (prot OR PROT_WRITE) (flags OR MAP_ANONYMOUS) (-1) 0) c))))"

definition handle_mmap ::
  "server_env \<Rightarrow> int \<Rightarrow> nat \<Rightarrow> int \<Rightarrow> int \<Rightarrow> int \<Rightarrow> int \<Rightarrow> syscall_context \<Rightarrow> int res \<times> syscall_context"
where
  "handle_mmap e addr len prot flags fd off c =
     (if \<not> mocking c \<or> sc_run_with_kernel c then orig e (O_mmap addr len prot flags fd off) c
      else handle_mmap64 e addr len prot flags fd off (try_startup e c))"

definition handle_epoll_create1 :: "server_env \<Rightarrow> int \<Rightarrow> syscall_context \<Rightarrow> int res \<times> syscall_context" where
  "handle_epoll_create1 e flags c =
     (if \<not> mocking c \<or> sc_run_with_kernel c then orig e (O_epoll_create1 flags) c
      else on_shm (epoll_create (sv_runtime e) (sv_os e 0)) (try_startup e c))"

text \<open>\<open>EPOLL_CTL_ADD\<close> is 1; \<open>evt\<close> is the user data of the event.\<close>

definition epoll_add :: "int \<Rightarrow> int \<Rightarrow> nat \<Rightarrow> bpftime_shm \<Rightarrow> unit res \<times> bpftime_shm" where
  "epoll_add epfd fd evt sh =
     (if is_ringbuf_map_fd fd sh then add_ringbuf_to_epoll fd epfd evt sh
      else if is_software_perf_event_handler_fd fd sh then add_software_perf_event_to_epoll fd epfd evt sh
      else (Inl MinusOne, sh))"

definition handle_epoll_ctl :: "server_env \<Rightarrow> int \<Rightarrow> int \<Rightarrow> int \<Rightarrow> nat \<Rightarrow> syscall_context \<Rightarrow> int res \<times> syscall_context" where
  "handle_epoll_ctl e epfd op fd evt c =
     (if \<not> sc_enable_mock c \<or> sc_run_with_kernel c \<or> \<not> sc_enable_mock_after_initialized c
      then orig e (O_epoll_ctl epfd op fd evt) c
      else
        (let c = try_startup e c in
         if op = 1 then unless_stopped (on_shm (epoll_add epfd fd evt) c) (\<lambda>r c. case r of
             Inr _ \<Rightarrow> (Inr 0, c)
           | Inl _ \<Rightarrow> orig e (O_epoll_ctl epfd op fd evt) c)
         else orig e (O_epoll_ctl epfd op fd evt) c))"

text \<open>
  The test at the start of \<open>handle_epoll_wait\<close> and \<open>handle_munmap\<close> calls the original function but does not
  return. \<open>w\<close> is what happens while the runtime waits, from its memory at the start of the wait; \<open>None\<close> is a wait that does not end.
\<close>

definition not_returned :: "server_env \<Rightarrow> orig_call \<Rightarrow> syscall_context \<Rightarrow> syscall_context" where
  "not_returned e k c = (if \<not> mocking c \<or> sc_run_with_kernel c then snd (orig e k c) else c)"

definition handle_epoll_wait ::
  "server_env \<Rightarrow> (bpftime_shm \<Rightarrow> epoll_world) \<Rightarrow> int \<Rightarrow> int \<Rightarrow> int \<Rightarrow> syscall_context \<Rightarrow>
   ((int \<times> nat list) res \<times> syscall_context) option"
where
  "handle_epoll_wait e w epfd maxevents timeout c =
     (let c = try_startup e (not_returned e (O_epoll_wait epfd maxevents timeout) c) in
      if is_epoll_fd epfd (sc_shm c)
      then map_option (\<lambda>(r, _). (map_sum id (\<lambda>evts. (int (length evts), evts)) r, c))
             (bpftime_epoll_wait (w (sc_shm c)) epfd maxevents timeout)
      else Some (case orig e (O_epoll_wait epfd maxevents timeout) c of (r, c) \<Rightarrow> (map_sum id (\<lambda>n. (n, [])) r, c)))"

definition handle_munmap :: "server_env \<Rightarrow> int \<Rightarrow> nat \<Rightarrow> syscall_context \<Rightarrow> int res \<times> syscall_context" where
  "handle_munmap e addr sz c =
     (let c = try_startup e (not_returned e (O_munmap addr sz) c) in
      if addr \<in> sc_mocked_mmap_values c
      then (Inr 0, c\<lparr>sc_mocked_mmap_values := sc_mocked_mmap_values c - {addr}\<rparr>)
      else orig e (O_munmap addr sz) c)"

definition handle_dup3 :: "server_env \<Rightarrow> int \<Rightarrow> int \<Rightarrow> int \<Rightarrow> syscall_context \<Rightarrow> int res \<times> syscall_context" where
  "handle_dup3 e oldfd newfd flags c =
     (if \<not> mocking c \<or> sc_run_with_kernel c then orig e (O_syscall NR_dup3 (Int_Args [oldfd, newfd, flags])) c
      else
        (let c = try_startup e c in
         if is_map_fd oldfd (sc_shm c) then on_shm (dup_bpf_map (sv_runtime e) (sv_os e 0) oldfd newfd) c
         else orig e (O_syscall NR_dup3 (Int_Args [oldfd, newfd, flags])) c))"

text \<open>The number of the original call is that of \<open>dup3\<close>.\<close>

definition handle_memfd_create :: "server_env \<Rightarrow> string \<Rightarrow> int \<Rightarrow> syscall_context \<Rightarrow> int res \<times> syscall_context" where
  "handle_memfd_create e name flags c =
     (if \<not> mocking c \<or> sc_run_with_kernel c then orig e (O_syscall NR_dup3 (Name_Args name flags)) c
      else on_shm (add_memfd_handler (sv_runtime e) (sv_os e 0) name flags) (try_startup e c))"

end
