(* ===== verification/Syscall_Server.thy ===== *)
theory Syscall_Server
  imports Syscall_Context Agent
begin

text \<open>
  The entry points of the syscall server (\<open>syscall_server_main.cpp\<close>) and what is shown of the server: the
  handlers act on the shared memory exactly by the operations of the runtime that \<open>server_ops\<close> names, so that its invariants hold in
  every state a server can reach; programs that are loaded call registered helpers; mocked files are read back;
  and the places where a call is not handled as intended.
\<close>

subsection \<open>Entry points\<close>

text \<open>What a call returns: a number and what it writes to the memory of the caller, when that is not left to the original function.\<close>

datatype call_out = Nothing_Out | Bpf_Out bpf_out | Text_Out string | Events_Out "nat list"

type_synonym answer = "(int \<times> call_out) res \<times> syscall_context"

definition number_answer :: "int res \<times> syscall_context \<Rightarrow> answer" where
  "number_answer p = (case p of (r, c) \<Rightarrow> (map_sum id (\<lambda>n. (n, Nothing_Out)) r, c))"

definition bpf_answer :: "(int \<times> bpf_out) res \<times> syscall_context \<Rightarrow> answer" where
  "bpf_answer p = (case p of (r, c) \<Rightarrow> (map_sum id (\<lambda>(n, out). (n, if out = No_Out then Nothing_Out else Bpf_Out out)) r, c))"

definition text_answer :: "(int \<times> string option) res \<times> syscall_context \<Rightarrow> answer" where
  "text_answer p = (case p of (r, c) \<Rightarrow> (map_sum id (\<lambda>(n, out). (n, case out of None \<Rightarrow> Nothing_Out | Some text \<Rightarrow> Text_Out text)) r, c))"

definition events_answer :: "(int \<times> nat list) res \<times> syscall_context \<Rightarrow> answer" where
  "events_answer p = (case p of (r, c) \<Rightarrow> (map_sum id (\<lambda>(n, evts). (n, Events_Out evts)) r, c))"

lemmas answer_defs = number_answer_def bpf_answer_def text_answer_def events_answer_def

text \<open>The function \<open>syscall\<close>: four numbers have handlers, other calls are passed on.\<close>

definition server_syscall :: "server_env \<Rightarrow> int \<Rightarrow> sys_args \<Rightarrow> syscall_context \<Rightarrow> answer" where
  "server_syscall e sysno args c =
     (let pass = number_answer (orig e (O_syscall sysno args) c) in
      case args of
        Bpf_Args cmd sz \<Rightarrow> (if sysno = NR_bpf then bpf_answer (handle_sysbpf e cmd sz c) else pass)
      | Perf_Args attr pid cpu group_fd flags \<Rightarrow>
          (if sysno = NR_perf_event_open then number_answer (handle_perfevent e attr pid cpu group_fd flags c) else pass)
      | Int_Args xs \<Rightarrow>
          (if sysno = NR_dup3 then (case xs of [a, b, f] \<Rightarrow> number_answer (handle_dup3 e a b f c) | _ \<Rightarrow> pass) else pass)
      | Name_Args name flags \<Rightarrow> (if sysno = NR_memfd_create then number_answer (handle_memfd_create e name flags c) else pass))"

datatype server_call =
    S_syscall int sys_args
  | S_close int
  | S_openat int string int int
  | S_open string int int
  | S_read int nat
  | S_fopen string string
  | S_mmap int nat int int int int
  | S_mmap64 int nat int int int int
  | S_munmap int nat
  | S_ioctl int nat nat
  | S_epoll_create1 int
  | S_epoll_ctl int int int nat
  | S_epoll_wait "bpftime_shm \<Rightarrow> epoll_world" int int int

text \<open>
  \<open>None\<close> is a call that does not return. The entry points \<open>openat\<close> and \<open>open\<close> read a \<open>long\<close> and cut it to an
  \<open>unsigned short\<close>.
\<close>

primrec server_call_result :: "server_env \<Rightarrow> server_call \<Rightarrow> syscall_context \<Rightarrow> answer option" where
  "server_call_result e (S_syscall n args) c = Some (server_syscall e n args c)"
| "server_call_result e (S_close fd) c = Some (number_answer (handle_close e fd c))"
| "server_call_result e (S_openat fd file oflag arg4) c = Some (number_answer (handle_openat e fd file oflag (word_of_int arg4) c))"
| "server_call_result e (S_open file oflag arg3) c = Some (number_answer (handle_open e file oflag (word_of_int arg3) c))"
| "server_call_result e (S_read fd cnt) c = Some (text_answer (handle_read e fd cnt c))"
| "server_call_result e (S_fopen path flags) c = Some (number_answer (handle_fopen e path flags c))"
| "server_call_result e (S_mmap addr len prot flags fd off) c = Some (number_answer (handle_mmap e addr len prot flags fd off c))"
| "server_call_result e (S_mmap64 addr len prot flags fd off) c = Some (number_answer (handle_mmap64 e addr len prot flags fd off c))"
| "server_call_result e (S_munmap addr sz) c = Some (number_answer (handle_munmap e addr sz c))"
| "server_call_result e (S_ioctl fd req data) c = Some (number_answer (handle_ioctl e fd req data c))"
| "server_call_result e (S_epoll_create1 flags) c = Some (number_answer (handle_epoll_create1 e flags c))"
| "server_call_result e (S_epoll_ctl epfd op fd evt) c = Some (number_answer (handle_epoll_ctl e epfd op fd evt c))"
| "server_call_result e (S_epoll_wait w epfd n t) c = map_option events_answer (handle_epoll_wait e w epfd n t c)"

text \<open>
  The states of a server: its own calls, the operations that agents run on the shared memory in between, and
  changes of the flags, which \<open>try_startup\<close> in another thread, the initialisation of CUDA and the mock setter of the runtime
  make. A call that raises or is undefined ends the process.
\<close>

inductive server_reach :: "syscall_context \<Rightarrow> bool" where
  start: "server_reach (syscall_context_new getenv)"
| call: "server_reach c \<Longrightarrow> server_call_result e x c = Some (r, c') \<Longrightarrow> r \<noteq> Inl Throw \<Longrightarrow> r \<noteq> Inl UB \<Longrightarrow> server_reach c'"
| agent: "server_reach c \<Longrightarrow> fst (shm_step rt y (sc_shm c)) \<noteq> Inl UB \<Longrightarrow>
    server_reach (c\<lparr>sc_shm := snd (shm_step rt y (sc_shm c))\<rparr>)"
| flags: "server_reach c \<Longrightarrow>
    server_reach (c\<lparr>sc_enable_mock := m, sc_initializing_cuda := g, sc_enable_mock_after_initialized := a\<rparr>)"

subsection \<open>The operations of the runtime behind a call\<close>

text \<open>
  What a call asks of the runtime, as operations of the shared memory. \<open>c\<close> is the state after the start.
\<close>

definition shm_ops :: "runtime_env \<Rightarrow> shm_op list \<Rightarrow> bpftime_shm \<Rightarrow> bpftime_shm" where
  "shm_ops rt xs sh = fold (\<lambda>x sh. snd (shm_step rt x sh)) xs sh"

definition accepts :: "server_env \<Rightarrow> prog_load_attr \<Rightarrow> syscall_context \<Rightarrow> bool" where
  "accepts e a c = (case (sv_verify e, simple_section_name (pl_prog_type a)) of
       (Some verify, Some section_name) \<Rightarrow> verify (sc_tables c (sv_thread e)) (pl_insns a) section_name = Inr None
     | _ \<Rightarrow> True)"

text \<open>A link of a program and a perf event is entered by a second operation too, with the cookie.\<close>

definition link_ops :: "server_env \<Rightarrow> link_create_args \<Rightarrow> nat \<Rightarrow> bpftime_shm \<Rightarrow> shm_op list" where
  "link_ops e args cookie sh =
     (let link = Add_Bpf_Link (sv_os e 0) (-1) (Some args); prog_fd = fd_int (la_prog_fd args); target_fd = fd_int (la_target_fd args) in
      case shm_step (sv_runtime e) link sh of (r, sh) \<Rightarrow>
        link # (if r \<noteq> Inl Throw \<and> r \<noteq> Inl UB \<and> is_prog_fd prog_fd sh \<and> is_perf_event_handler_fd target_fd sh \<and> la_attach_type args = 41
                then [Attach_Perf_To_Bpf (sv_os e 1) target_fd prog_fd (Some cookie)] else []))"

definition bpf_ops :: "server_env \<Rightarrow> bpf_cmd \<Rightarrow> syscall_context \<Rightarrow> shm_op list" where
  "bpf_ops e cmd c = (case cmd of
       BPF_MAP_CREATE a \<Rightarrow> [Add_Bpf_Map (sv_os e 0) (-1) (mc_map_name a) (map_attr_of a)]
     | BPF_MAP_LOOKUP_ELEM fd key \<Rightarrow> [Map_Op (fd_int fd) (M_Lookup key True)]
     | BPF_MAP_UPDATE_ELEM fd key v flags \<Rightarrow> [Map_Op (fd_int fd) (M_Update key v flags True)]
     | BPF_MAP_DELETE_ELEM fd key \<Rightarrow> [Map_Op (fd_int fd) (M_Delete key True)]
     | BPF_MAP_LOOKUP_AND_DELETE_ELEM fd out \<Rightarrow> [Map_Op (fd_int fd) (M_Pop out True)]
     | BPF_MAP_GET_NEXT_KEY fd key out \<Rightarrow> [Map_Op (fd_int fd) (M_Next_Key key out True)]
     | BPF_PROG_LOAD a \<Rightarrow>
         (if accepts e a c
          then [Add_Bpf_Prog (sv_os e 0) (-1) (pl_insns a) (pl_prog_name a) (fd_int (pl_prog_type a))] else [])
     | BPF_LINK_CREATE args cookie \<Rightarrow> link_ops e args cookie (sc_shm c)
     | BPF_PROG_ATTACH prog target \<Rightarrow> [Attach_Perf_To_Bpf (sv_os e 0) (fd_int target) (fd_int prog) None]
     | _ \<Rightarrow> [])"

text \<open>With the kernel only its new maps and programs are entered, under the descriptors it gives them.\<close>

definition kernel_ops :: "server_env \<Rightarrow> bpf_cmd \<Rightarrow> nat \<Rightarrow> syscall_context \<Rightarrow> shm_op list" where
  "kernel_ops e cmd sz c =
     (let kernel = (\<lambda>cmd. sv_orig e (length (sc_calls c)) (O_syscall NR_bpf (Bpf_Args cmd sz))) in
      case cmd of
        BPF_MAP_CREATE a \<Rightarrow> (case sv_map_info e (kernel cmd) of
            Some info \<Rightarrow>
              (if is_map_fd (fd_int (mi_id info)) (sc_shm c) then []
               else [Add_Bpf_Map (sv_os e 0) (fd_int (mi_id info)) (mi_name info) (kernel_map_attr info)])
          | None \<Rightarrow> [])
      | BPF_PROG_LOAD a \<Rightarrow> (case (sv_regex e (sc_by_pass_kernel_verifier_pattern c), relocate_map_loads (sv_map_info e) (pl_insns a)) of
            (Some matches, Some insns) \<Rightarrow>
              (let fd = kernel (BPF_PROG_LOAD (kernel_prog_attr matches a c)) in
               if fd < 0 then [] else [Add_Bpf_Prog (sv_os e 0) fd insns (pl_prog_name a) (fd_int (pl_prog_type a))])
          | _ \<Rightarrow> [])
      | _ \<Rightarrow> [])"

definition probe_ops :: "(bool \<Rightarrow> shm_op) \<Rightarrow> 64 word \<Rightarrow> int res \<Rightarrow> shm_op list" where
  "probe_ops create config retprobe_bit = (case retprobe_bit of
       Inr b \<Rightarrow> (case config_bit config b of Inr retprobe \<Rightarrow> [create retprobe] | Inl _ \<Rightarrow> [])
     | Inl _ \<Rightarrow> [])"

definition other_ops :: "server_env \<Rightarrow> perf_event_attr \<Rightarrow> int \<Rightarrow> int \<Rightarrow> shm_op list" where
  "other_ops e attr pid cpu =
     (let typ = sint (pv_type attr); os = sv_os e 0 in
      if typ = event_type_code PERF_TYPE_TRACEPOINT then [Add_Tracepoint os (-1) pid (sint (ucast (pv_config attr) :: 32 word))]
      else if typ = event_type_code PERF_TYPE_SOFTWARE
      then [Add_Software_Perf_Event (open_fake_fd os) cpu (sint (ucast (pv_sample_type attr) :: 32 word)) (sint (pv_config attr))]
      else if typ = event_type_code BPF_TYPE_UREPLACE then [Add_Uprobe_Override os (-1) pid (pv_config1 attr) (pv_config2 attr) True]
      else if typ = event_type_code BPF_TYPE_UPROBE_OVERRIDE then [Add_Uprobe_Override os (-1) pid (pv_config1 attr) (pv_config2 attr) False]
      else [])"

definition perf_ops :: "server_env \<Rightarrow> perf_event_attr \<Rightarrow> int \<Rightarrow> int \<Rightarrow> syscall_context \<Rightarrow> shm_op list" where
  "perf_ops e attr pid cpu c =
     (let name = pv_config1 attr; off = pv_config2 attr; ctr = ref_ctr_off (pv_config attr) in
      case determine_uprobe_perf_type e c of (up, c) \<Rightarrow>
        if up = Inr (sint (pv_type attr))
        then probe_ops (\<lambda>ret. Add_Uprobe (sv_os e 0) (-1) pid name off ret ctr) (pv_config attr) (fst (determine_uprobe_retprobe_bit e c))
        else (case determine_kprobe_perf_type e c of (kp, c) \<Rightarrow>
          if kp = Inr (sint (pv_type attr))
          then probe_ops (\<lambda>ret. Add_Kprobe (sv_os e 0) None name off ret ctr) (pv_config attr) (fst (determine_kprobe_retprobe_bit e c))
          else other_ops e attr pid cpu))"

definition ioctl_ops :: "server_env \<Rightarrow> int \<Rightarrow> nat \<Rightarrow> nat \<Rightarrow> syscall_context \<Rightarrow> shm_op list" where
  "ioctl_ops e fd req data c =
     (if sc_run_with_kernel c \<and> \<not> is_perf_event_handler_fd fd (sc_shm c) then []
      else if req = 0x2400 then [Perf_Event_Enable fd]
      else if req = 0x2401 then [Perf_Event_Disable fd]
      else if req = 0x40042408 then [Attach_Perf_To_Bpf (sv_os e 0) fd (to_s32 (int data)) None]
      else [])"

definition mmap_ops :: "nat \<Rightarrow> int \<Rightarrow> bpftime_shm \<Rightarrow> shm_op list" where
  "mmap_ops len fd sh =
     (if fd \<noteq> -1 \<and> \<not> is_ringbuf_map_fd fd sh \<and> \<not> is_array_map_fd fd sh \<and> is_software_perf_event_handler_fd fd sh
      then [Raw_Buffer fd len] else [])"

definition epoll_ops :: "int \<Rightarrow> int \<Rightarrow> int \<Rightarrow> nat \<Rightarrow> bpftime_shm \<Rightarrow> shm_op list" where
  "epoll_ops epfd op fd evt sh =
     (if op \<noteq> 1 then []
      else if is_ringbuf_map_fd fd sh then [Ringbuf_To_Epoll fd epfd evt]
      else if is_software_perf_event_handler_fd fd sh then [Perf_To_Epoll fd epfd evt]
      else [])"

definition syscall_ops :: "server_env \<Rightarrow> int \<Rightarrow> sys_args \<Rightarrow> syscall_context \<Rightarrow> shm_op list" where
  "syscall_ops e n args c = (case args of
       Bpf_Args cmd sz \<Rightarrow>
         (if sc_run_with_kernel c \<and>
             (case kernel_target cmd of Some fd \<Rightarrow> \<not> is_perf_event_handler_fd fd (sc_shm c) | None \<Rightarrow> True)
          then kernel_ops e cmd sz c else bpf_ops e cmd c)
     | Perf_Args attr pid cpu group_fd flags \<Rightarrow> perf_ops e attr pid cpu c
     | Int_Args xs \<Rightarrow>
         (case xs of [a, b, f] \<Rightarrow> (if is_map_fd a (sc_shm c) then [Dup_Bpf_Map (sv_os e 0) a b] else []) | _ \<Rightarrow> [])
     | Name_Args name flags \<Rightarrow> [Add_Memfd (sv_os e 0) name flags])"

fun server_ops :: "server_env \<Rightarrow> server_call \<Rightarrow> syscall_context \<Rightarrow> shm_op list" where
  "server_ops e (S_syscall n args) c = syscall_ops e n args c"
| "server_ops e (S_close fd) c = (case sc_mocked_files c fd of Some _ \<Rightarrow> [] | None \<Rightarrow> [Close_Fd fd])"
| "server_ops e (S_mmap addr len prot flags fd off) c = mmap_ops len fd (sc_shm c)"
| "server_ops e (S_mmap64 addr len prot flags fd off) c = mmap_ops len fd (sc_shm c)"
| "server_ops e (S_ioctl fd req data) c = ioctl_ops e fd req data c"
| "server_ops e (S_epoll_create1 flags) c = [Epoll_Create (sv_os e 0)]"
| "server_ops e (S_epoll_ctl epfd op fd evt) c = epoll_ops epfd op fd evt (sc_shm c)"
| "server_ops e _ c = []"

text \<open>
  The calls that the server handles itself; the others go to the original function. \<open>munmap\<close> and \<open>epoll_wait\<close> are always
  handled, whatever the flags say.
\<close>

fun served :: "server_call \<Rightarrow> syscall_context \<Rightarrow> bool" where
  "served (S_syscall n args) c = (case args of
       Bpf_Args _ _ \<Rightarrow> n = NR_bpf \<and> mocking c
     | Perf_Args _ _ _ _ _ \<Rightarrow> n = NR_perf_event_open \<and> mocking c
     | Int_Args xs \<Rightarrow> n = NR_dup3 \<and> length xs = 3 \<and> mocking c \<and> \<not> sc_run_with_kernel c
     | Name_Args _ _ \<Rightarrow> n = NR_memfd_create \<and> mocking c \<and> \<not> sc_run_with_kernel c)"
| "served (S_mmap addr len prot flags fd off) c = (mocking c \<and> \<not> sc_run_with_kernel c)"
| "served (S_mmap64 addr len prot flags fd off) c = (sc_enable_mock c \<and> \<not> sc_initializing_cuda c \<and> \<not> sc_run_with_kernel c)"
| "served (S_epoll_create1 flags) c = (mocking c \<and> \<not> sc_run_with_kernel c)"
| "served (S_epoll_ctl epfd op fd evt) c = (sc_enable_mock c \<and> sc_enable_mock_after_initialized c \<and> \<not> sc_run_with_kernel c)"
| "served (S_munmap addr sz) c = True"
| "served (S_epoll_wait w epfd n t) c = True"
| "served _ c = mocking c"

subsubsection \<open>Statements of the handlers\<close>

lemma shm_ops_simps [simp]: "shm_ops rt [] sh = sh" "shm_ops rt (x # xs) sh = shm_ops rt xs (snd (shm_step rt x sh))"
  by (simp_all add: shm_ops_def)

lemma snd_caught [simp]: "snd (caught p) = snd p"
  by (auto simp: caught_def split: prod.split sum.split fault.split)

lemma answer_snd [simp]: "snd (number_answer p) = snd p" "snd (bpf_answer q) = snd q" "snd (text_answer t) = snd t" "snd (events_answer v) = snd v"
  by (simp_all add: answer_defs split: prod.split)

lemma out_snd [simp]: "snd (plain_out p) = snd p" "snd (zero_out q) = snd q" "snd (value_out v) = snd v"
  by (simp_all add: plain_out_def zero_out_def value_out_def split: prod.split)

lemma orig_shm [simp]: "sc_shm (snd (orig e k c)) = sc_shm c"
  by (simp add: orig_def)

lemma on_shm_shm [simp]: "sc_shm (snd (on_shm f c)) = snd (f (sc_shm c))" "fst (on_shm f c) = fst (f (sc_shm c))"
  by (simp_all add: on_shm_def split: prod.split)

lemma add_map_shm [simp]: "sc_shm (snd (server_add_bpf_map e fd name attr c)) = snd (add_bpf_map (sv_runtime e) (sv_os e 0) fd name attr (sc_shm c))"
  by (simp add: server_add_bpf_map_def)

lemma unless_stopped_cases: "snd (unless_stopped p g) = snd p \<or> snd (unless_stopped p g) = snd (g (fst p) (snd p))"
  by (cases p) (auto simp: unless_stopped_def split: sum.split fault.split)

lemma unless_stopped_goes_on: "fst p \<noteq> Inl Throw \<Longrightarrow> fst p \<noteq> Inl UB \<Longrightarrow> unless_stopped p g = g (fst p) (snd p)"
  by (cases p) (auto simp: unless_stopped_def split: sum.split fault.split)

lemma unless_stopped_stops: "fst p = Inl Throw \<or> fst p = Inl UB \<Longrightarrow> snd (unless_stopped p g) = snd p"
  by (cases p) (auto simp: unless_stopped_def)

lemma unless_shm: "(\<And>r c. sc_shm (snd (g r c)) = sc_shm c) \<Longrightarrow> sc_shm (snd (unless_stopped p g)) = sc_shm (snd p)"
  using unless_stopped_cases [of p g] by auto

text \<open>The functions of the programming interface are operations of the shared memory.\<close>

lemma api_ops:
  "snd (bpftime_map_lookup_elem rt fd key sh) = snd (shm_step rt (Map_Op fd (M_Lookup key True)) sh)"
  "snd (bpftime_map_update_elem rt fd key v fl sh) = snd (shm_step rt (Map_Op fd (M_Update key v fl True)) sh)"
  "snd (bpftime_map_delete_elem rt fd key sh) = snd (shm_step rt (Map_Op fd (M_Delete key True)) sh)"
  "snd (bpftime_map_lookup_and_delete_elem fd out sh) = snd (shm_step rt (Map_Op fd (M_Pop out True)) sh)"
  "snd (bpftime_map_get_next_key rt fd key out sh) = snd (shm_step rt (Map_Op fd (M_Next_Key key out True)) sh)"
  "snd (bpftime_kprobe_create rt os (-1) name off b ctr sh) = snd (shm_step rt (Add_Kprobe os None name off b ctr) sh)"
  "snd (bpftime_add_software_perf_event rt os cpu st config sh) = snd (shm_step rt (Add_Software_Perf_Event (open_fake_fd os) cpu st config) sh)"
  "snd (bpftime_get_software_perf_event_raw_buffer fd len sh) = snd (shm_step rt (Raw_Buffer fd len) sh)"
  by (simp_all add: bpftime_map_lookup_elem_def bpftime_map_update_elem_def bpftime_map_delete_elem_def bpftime_map_lookup_and_delete_elem_def
      bpftime_map_get_next_key_def bpftime_kprobe_create_def bpftime_add_software_perf_event_def)
     (auto simp: bpftime_get_software_perf_event_raw_buffer_def split: prod.split option.split)

lemma start_up_shm [simp]: "sc_shm (try_startup e c) = sc_shm (start_up e c)"
  by (simp add: try_startup_def start_up_def)

lemma start_up_again [simp]: "sc_already_setup c \<Longrightarrow> start_up e c = c"
  by (simp add: start_up_def)

lemma already_setup [simp]: "sc_already_setup (try_startup e c)" "sc_already_setup (start_up e c)"
  by (simp_all add: try_startup_def start_up_def)

lemma startup_flags [simp]: "sc_run_with_kernel (try_startup e c) = sc_run_with_kernel c" "sc_enable_mock (try_startup e c)"
  "sc_initializing_cuda (try_startup e c) = sc_initializing_cuda c"
  by (simp_all add: try_startup_def start_up_def)

lemma startup_twice [simp]: "try_startup e (try_startup e c) = try_startup e c"
  by (simp add: try_startup_def start_up_def)

text \<open>
  What a call leaves in the memory: a call that is served runs its operations on the memory of the started
  server, the others leave the memory alone.
\<close>

definition served_memory :: "server_env \<Rightarrow> server_call \<Rightarrow> syscall_context \<Rightarrow> bpftime_shm" where
  "served_memory e x c =
     (if served x c then shm_ops (sv_runtime e) (server_ops e x (try_startup e c)) (sc_shm (start_up e c)) else sc_shm c)"

lemma close_memory: "sc_shm (snd (handle_close e fd c)) = served_memory e (S_close fd) c"
  by (simp add: handle_close_def served_memory_def Let_def unless_shm split: option.split)

subsubsection \<open>Mocked files\<close>

lemma temp_shm [simp]: "sc_shm (snd (make_temp e c)) = sc_shm c" "sc_already_setup (snd (make_temp e c)) = sc_already_setup c"
  by (simp_all add: make_temp_def Let_def)

lemma emplace_shm [simp]: "sc_shm (emplace_file fd m c) = sc_shm c" "sc_already_setup (emplace_file fd m c) = sc_already_setup c"
  by (simp_all add: emplace_file_def split: option.split)

lemma orig_setup [simp]: "sc_already_setup (snd (orig e k c)) = sc_already_setup c"
  by (simp add: orig_def)

lemma open_memory:
  "sc_shm (snd (handle_open e file oflag (word_of_int arg) c)) = served_memory e (S_open file oflag arg) c"
  "sc_shm (snd (handle_openat e fd file oflag (word_of_int arg) c)) = served_memory e (S_openat fd file oflag arg) c"
  "sc_shm (snd (handle_read e fd cnt c)) = served_memory e (S_read fd cnt) c"
  by (simp_all add: handle_open_def handle_openat_def handle_read_def served_memory_def Let_def case_prod_beta split: option.split)

lemma fopen_memory: "sc_shm (snd (handle_fopen e path flags c)) = served_memory e (S_fopen path flags) c"
  by (simp add: handle_fopen_def orig_def make_temp_def served_memory_def Let_def split: option.split)

lemma fopen_returns: "\<exists>fp. fst (handle_fopen e path flags c) = Inr fp"
  by (simp add: handle_fopen_def orig_def make_temp_def Let_def split: option.split)

lemma fopen_setup: "sc_already_setup c \<Longrightarrow> sc_already_setup (snd (handle_fopen e path flags c))"
  by (simp add: handle_fopen_def orig_def make_temp_def Let_def split: option.split)

lemma parse_snd: "snd (parse_uint_from_file e file fmt c) = snd (handle_fopen e file ''re'' c)"
  by (auto simp: parse_uint_from_file_def split: prod.split sum.split)

lemma parse_returns: "\<exists>n. fst (parse_uint_from_file e file fmt c) = Inr n"
  using fopen_returns [of e "file" "''re''" c] by (auto simp: parse_uint_from_file_def split: prod.split)

text \<open>Reading the types of the events returns a number and keeps the memory of a started server.\<close>

definition determines :: "int res \<times> syscall_context \<Rightarrow> syscall_context \<Rightarrow> bool" where
  "determines p c \<longleftrightarrow> (\<exists>n. fst p = Inr n) \<and> sc_shm (snd p) = sc_shm c \<and> sc_already_setup (snd p)"

lemma determine_keeps:
  assumes "sc_already_setup c"
  shows "determines (determine_uprobe_perf_type e c) c" and "determines (determine_uprobe_retprobe_bit e c) c"
    and "determines (determine_kprobe_perf_type e c) c" and "determines (determine_kprobe_retprobe_bit e c) c"
  using assms fopen_setup [OF assms] parse_returns
  by (auto simp: determines_def determine_uprobe_perf_type_def determine_uprobe_retprobe_bit_def determine_kprobe_perf_type_def
      determine_kprobe_retprobe_bit_def parse_snd fopen_memory served_memory_def)

subsubsection \<open>The handlers of the runtime\<close>

lemma lookup_snd: "snd (sysbpf_lookup e fd key sh) = snd (bpftime_map_lookup_elem (sv_runtime e) fd key sh)"
  by (auto simp: sysbpf_lookup_def split: prod.split sum.split fault.split elem.split)

lemma prog_load_ops: "sc_shm (snd (sysbpf_prog_load e a c)) = shm_ops (sv_runtime e) (bpf_ops e (BPF_PROG_LOAD a) c) (sc_shm c)"
  by (auto simp: sysbpf_prog_load_def bpf_ops_def accepts_def Let_def split: option.split sum.split)

lemma link_create_ops: "sc_shm (snd (sysbpf_link_create e args cookie c)) = shm_ops (sv_runtime e) (link_ops e args cookie (sc_shm c)) (sc_shm c)"
proof -
  let ?prog = "fd_int (la_prog_fd args)" and ?target = "fd_int (la_target_fd args)" and ?rt = "sv_runtime e"
  let ?p = "on_shm (add_bpf_link ?rt (sv_os e 0) (-1) (Some args)) c" and ?sh = "snd (add_bpf_link ?rt (sv_os e 0) (-1) (Some args) (sc_shm c))"
  let ?g = "\<lambda>ident c. if is_prog_fd ?prog (sc_shm c) \<and> is_perf_event_handler_fd ?target (sc_shm c) \<and> la_attach_type args = 41
        then unless_stopped (on_shm (attach_perf_to_bpf ?rt (sv_os e 1) ?target ?prog (Some cookie)) c) (\<lambda>_ c. (ident, c))
        else (ident, c)"
  have s: "sysbpf_link_create e args cookie c = unless_stopped ?p ?g" by (simp add: sysbpf_link_create_def Let_def)
  have g: "sc_shm (snd (?g r d)) = (if is_prog_fd ?prog (sc_shm d) \<and> is_perf_event_handler_fd ?target (sc_shm d) \<and> la_attach_type args = 41
      then snd (attach_perf_to_bpf ?rt (sv_os e 1) ?target ?prog (Some cookie) (sc_shm d)) else sc_shm d)" for r :: "int res" and d
    by (simp add: unless_shm)
  have stop: "(fst (shm_step ?rt (Add_Bpf_Link (sv_os e 0) (-1) (Some args)) (sc_shm c)) = Inl f) = (fst ?p = Inl f)" for f
    by (cases "fst (add_bpf_link ?rt (sv_os e 0) (-1) (Some args) (sc_shm c))") (simp_all add: no_value_def case_prod_beta)
  show ?thesis
  proof (cases "fst ?p = Inl Throw \<or> fst ?p = Inl UB")
    case True
    then show ?thesis using stop [of Throw] stop [of UB] unless_stopped_stops [OF True, of ?g] unfolding s
      by (auto simp: link_ops_def Let_def case_prod_beta)
  next
    case False
    then have "sc_shm (snd (unless_stopped ?p ?g)) = sc_shm (snd (?g (fst ?p) (snd ?p)))" by (subst unless_stopped_goes_on) simp_all
    also note g
    finally show ?thesis using False stop [of Throw] stop [of UB] unfolding s by (simp add: link_ops_def Let_def case_prod_beta)
  qed
qed

lemma bpf_runtime_ops: "sc_shm (snd (sysbpf_runtime e cmd sz c)) = shm_ops (sv_runtime e) (bpf_ops e cmd c) (sc_shm c)"
proof (cases cmd)
  case (BPF_PROG_LOAD a)
  then show ?thesis using prog_load_ops [of e a c] by (simp add: sysbpf_runtime_def)
next
  case (BPF_LINK_CREATE args cookie)
  then show ?thesis using link_create_ops [of e args cookie c] by (simp add: sysbpf_runtime_def bpf_ops_def)
qed (simp_all add: sysbpf_runtime_def bpf_ops_def Let_def lookup_snd api_ops bpftime_map_lookup_and_delete_elem_def)

lemma bpf_kernel_ops: "sc_shm (snd (sysbpf_kernel e cmd sz c)) = shm_ops (sv_runtime e) (kernel_ops e cmd sz c) (sc_shm c)"
proof (cases cmd)
  case (BPF_MAP_CREATE a)
  then show ?thesis
    by (simp add: sysbpf_kernel_def kernel_ops_def orig_def create_kernel_bpf_map_def unless_shm Let_def split: option.split sum.split)
next
  case (BPF_PROG_LOAD a)
  then show ?thesis
    by (simp add: sysbpf_kernel_def kernel_ops_def orig_def create_kernel_bpf_prog_in_userspace_def Let_def split: option.split)
qed (simp_all add: sysbpf_kernel_def kernel_ops_def)

lemma bpf_memory: "sc_shm (snd (handle_sysbpf e cmd sz c)) = served_memory e (S_syscall NR_bpf (Bpf_Args cmd sz)) c"
  by (simp add: handle_sysbpf_def served_memory_def syscall_ops_def bpf_runtime_ops bpf_kernel_ops Let_def)

lemma probe_memory:
  assumes "determines p c" and "\<And>b sh. snd (create b sh) = snd (shm_step rt (op b) sh)"
  shows "sc_shm (snd (perf_probe create config p)) = shm_ops rt (probe_ops op config (fst p)) (sc_shm c)"
proof -
  obtain n where n: "fst p = Inr n" "sc_shm (snd p) = sc_shm c" using assms(1) by (auto simp: determines_def)
  then show ?thesis using assms(2)
    by (simp add: perf_probe_def unless_stopped_goes_on probe_ops_def split: sum.split)
qed

lemma perf_other_ops: "sc_shm (snd (perf_other e attr pid cpu g flags c)) = shm_ops (sv_runtime e) (other_ops e attr pid cpu) (sc_shm c)"
  by (simp add: perf_other_def other_ops_def Let_def api_ops)

lemma perf_memory:
  "sc_shm (snd (handle_perfevent e attr pid cpu group_fd flags c)) =
     served_memory e (S_syscall NR_perf_event_open (Perf_Args attr pid cpu group_fd flags)) c"
proof (cases "mocking c")
  case True
  let ?rt = "sv_runtime e" and ?c = "try_startup e c" and ?cfg = "pv_config attr"
  let ?name = "pv_config1 attr" and ?off = "pv_config2 attr" and ?ctr = "ref_ctr_off (pv_config attr)"
  let ?up = "\<lambda>b. add_uprobe ?rt (sv_os e 0) (-1) pid ?name ?off b ?ctr"
  let ?kp = "\<lambda>b. bpftime_kprobe_create ?rt (sv_os e 0) (-1) ?name ?off b ?ctr"
  define c1 where "c1 = snd (determine_uprobe_perf_type e ?c)"
  define c2 where "c2 = snd (determine_kprobe_perf_type e c1)"
  obtain u where u: "determine_uprobe_perf_type e ?c = (Inr u, c1)" "sc_shm c1 = sc_shm ?c" "sc_already_setup c1"
    using determine_keeps(1) [of ?c e] by (auto simp: determines_def c1_def prod_eq_iff)
  obtain k where k: "determine_kprobe_perf_type e c1 = (Inr k, c2)" "sc_shm c2 = sc_shm ?c" "sc_already_setup c2"
    using determine_keeps(3) [OF u(3), of e] u(2) by (auto simp: determines_def c2_def prod_eq_iff)
  have up: "sc_shm (snd (perf_probe ?up ?cfg (determine_uprobe_retprobe_bit e c1))) = shm_ops ?rt
      (probe_ops (\<lambda>ret. Add_Uprobe (sv_os e 0) (-1) pid ?name ?off ret ?ctr) ?cfg (fst (determine_uprobe_retprobe_bit e c1))) (sc_shm ?c)"
    using probe_memory [OF determine_keeps(2) [OF u(3), of e], of ?up ?rt "\<lambda>ret. Add_Uprobe (sv_os e 0) (-1) pid ?name ?off ret ?ctr" ?cfg] u(2) by simp
  have kp: "sc_shm (snd (perf_probe ?kp ?cfg (determine_kprobe_retprobe_bit e c2))) = shm_ops ?rt
      (probe_ops (\<lambda>ret. Add_Kprobe (sv_os e 0) None ?name ?off ret ?ctr) ?cfg (fst (determine_kprobe_retprobe_bit e c2))) (sc_shm ?c)"
    using probe_memory [OF determine_keeps(4) [OF k(3), of e] api_ops(6), where config = ?cfg] k(2) by simp
  show ?thesis using True up kp perf_other_ops [of e attr pid cpu group_fd flags c2] k(2)
    by (simp add: handle_perfevent_def served_memory_def syscall_ops_def perf_ops_def u(1) k(1) unless_stopped_def Let_def)
qed (simp add: handle_perfevent_def served_memory_def)

lemma ioctl_memory: "sc_shm (snd (handle_ioctl e fd req data c)) = served_memory e (S_ioctl fd req data) c"
proof -
  have g: "sc_shm (snd (case r of Inr res \<Rightarrow> (if res \<ge> 0 then (Inr res, d) else orig e (O_ioctl fd req data) d)
      | Inl _ \<Rightarrow> orig e (O_ioctl fd req data) d)) = sc_shm d" for r :: "int res" and d by (simp split: sum.split)
  show ?thesis
    by (simp add: handle_ioctl_def served_memory_def ioctl_ops_def ioctl_runtime_def unless_shm [OF g] case_prod_beta Let_def)
qed

lemma mmap_area_snd: "snd (mmap_area len prot fd sh) = shm_ops rt (mmap_ops len fd sh) sh"
  using api_ops(8) [of fd len sh rt] by (auto simp: mmap_area_def mmap_ops_def Let_def case_prod_beta)

lemma mmap64_memory:
  "sc_shm (snd (handle_mmap64 e addr len prot flags fd off c)) = served_memory e (S_mmap64 addr len prot flags fd off) c"
proof (cases "\<not> sc_enable_mock c \<or> sc_run_with_kernel c \<or> sc_initializing_cuda c")
  case False
  obtain r c' where p: "on_shm (mmap_area len prot fd) (try_startup e c) = (r, c')" by fastforce
  then have "sc_shm c' = snd (mmap_area len prot fd (sc_shm (start_up e c)))"
    using on_shm_shm(1) [of "mmap_area len prot fd" "try_startup e c"] by simp
  then show ?thesis using False p mmap_area_snd [of len prot fd "sc_shm (start_up e c)" "sv_runtime e"]
    by (simp add: handle_mmap64_def served_memory_def Let_def split: sum.split option.split)
qed (auto simp: handle_mmap64_def served_memory_def)

lemma mmap_memory: "sc_shm (snd (handle_mmap e addr len prot flags fd off c)) = served_memory e (S_mmap addr len prot flags fd off) c"
proof (cases "\<not> mocking c \<or> sc_run_with_kernel c")
  case False
  then show ?thesis using mmap64_memory [of e addr len prot flags fd off "try_startup e c"]
    by (simp add: handle_mmap_def served_memory_def mocking_def)
qed (auto simp: handle_mmap_def served_memory_def)

lemma epoll_memory:
  "sc_shm (snd (handle_epoll_create1 e flags c)) = served_memory e (S_epoll_create1 flags) c"
  "sc_shm (snd (handle_epoll_ctl e epfd op fd evt c)) = served_memory e (S_epoll_ctl epfd op fd evt) c"
proof -
  show "sc_shm (snd (handle_epoll_create1 e flags c)) = served_memory e (S_epoll_create1 flags) c"
    by (simp add: handle_epoll_create1_def served_memory_def)
  have g: "sc_shm (snd (case r of Inr _ \<Rightarrow> (Inr 0, d) | Inl _ \<Rightarrow> orig e (O_epoll_ctl epfd op fd evt) d)) = sc_shm d" for r :: "unit res" and d
    by (simp split: sum.split)
  show "sc_shm (snd (handle_epoll_ctl e epfd op fd evt c)) = served_memory e (S_epoll_ctl epfd op fd evt) c"
    by (auto simp: handle_epoll_ctl_def served_memory_def epoll_ops_def epoll_add_def unless_shm [OF g] Let_def)
qed

lemma not_returned_shm [simp]: "sc_shm (start_up e (not_returned e k c)) = sc_shm (start_up e c)"
  by (simp add: not_returned_def start_up_def orig_def)

lemma epoll_wait_memory: "handle_epoll_wait e w epfd n t c = Some p \<Longrightarrow> sc_shm (snd p) = served_memory e (S_epoll_wait w epfd n t) c"
  by (auto simp: handle_epoll_wait_def served_memory_def Let_def case_prod_beta split: if_splits)

lemma munmap_memory: "sc_shm (snd (handle_munmap e addr sz c)) = served_memory e (S_munmap addr sz) c"
  by (simp add: handle_munmap_def served_memory_def Let_def)

lemma descriptor_memory:
  "sc_shm (snd (handle_dup3 e a b f c)) = served_memory e (S_syscall NR_dup3 (Int_Args [a, b, f])) c"
  "sc_shm (snd (handle_memfd_create e name f c)) = served_memory e (S_syscall NR_memfd_create (Name_Args name f)) c"
  by (simp_all add: handle_dup3_def handle_memfd_create_def served_memory_def syscall_ops_def Let_def)

lemma syscall_memory: "sc_shm (snd (server_syscall e n args c)) = served_memory e (S_syscall n args) c"
proof (cases args)
  case (Int_Args xs)
  consider (three) a b f where "xs = [a, b, f]" | (other) "length xs \<noteq> 3"
    by (metis length_Suc_conv length_0_conv numeral_3_eq_3)
  then show ?thesis
    by cases (use Int_Args in \<open>auto simp: server_syscall_def served_memory_def descriptor_memory Let_def split: list.split\<close>)
qed (simp_all add: server_syscall_def bpf_memory perf_memory descriptor_memory Let_def served_memory_def)

lemmas handler_memory = syscall_memory close_memory open_memory fopen_memory mmap_memory mmap64_memory munmap_memory ioctl_memory epoll_memory

lemma call_memory:
  assumes "server_call_result e x c = Some (r, c')"
  shows "sc_shm c' = served_memory e x c"
proof (cases x)
  case (S_epoll_wait w a b t)
  then obtain p where "handle_epoll_wait e w a b t c = Some p" "events_answer p = (r, c')" using assms by auto
  then show ?thesis using epoll_wait_memory answer_snd(4) [of p] S_epoll_wait by fastforce
qed (use assms handler_memory [of e] answer_snd in \<open>(simp, metis snd_conv)+\<close>)

subsection \<open>Refinement and invariants\<close>

text \<open>
  C26: every call of the server is the operations of the runtime that it stands for. A call that the server handles itself leaves in
  the shared memory what exactly these operations, in this order and with these arguments, make of the memory of the started server: the
  map operations of the \<open>bpf\<close> commands, the new maps, programs, links and perf events, the closed descriptor, and so on;
  the start makes a new memory once. A call that is passed on leaves the memory alone.
\<close>

theorem server_refines_runtime:
  assumes "server_call_result e x c = Some (r, c')"
  shows "sc_shm c' = (if served x c then fold (\<lambda>y sh. snd (shm_step (sv_runtime e) y sh)) (server_ops e x (try_startup e c))
      (if sc_already_setup c then sc_shm c else shm_new (sv_max_fd_count e)) else sc_shm c)"
  using call_memory [OF assms] by (simp add: served_memory_def shm_ops_def start_up_def)

lemma links_step: "lks.holds sh \<Longrightarrow> lks.holds (snd (shm_step rt x sh))"
  by (rule lks.step_keeps) (simp_all add: lks.admitted_def split: shm_op.split)

lemma links_ops: "lks.holds sh \<Longrightarrow> lks.holds (shm_ops rt xs sh)"
  by (induction xs arbitrary: sh) (simp_all add: links_step)

lemma links_new: "lks.holds (shm_new n)"
proof -
  have "links_ok (hm_new n)" by (simp add: hm_new_def links_ok_def)
  then show ?thesis by (simp add: lks.holds_def shm_new_def)
qed

lemma reach_links: "server_reach c \<Longrightarrow> lks.holds (sc_shm c)"
proof (induction rule: server_reach.induct)
  case (start getenv)
  then show ?case by (simp add: syscall_context_new_def load_config_from_env_def lks.holds_def)
next
  case (call c e x r c')
  have "lks.holds (sc_shm (start_up e c))" using call.IH links_new by (simp add: start_up_def)
  then show ?case using call_memory [OF call.hyps(2)] call.IH links_ops by (simp add: served_memory_def)
qed (simp_all add: links_step)

lemma holds_slot:
  assumes "lks.holds sh" and "sh_slot fd sh = Some (Link_H l)"
  shows "is_prog_fd (lk_prog_id l) sh"
proof -
  obtain hs where hs: "sh_manager sh = Some hs" "nat fd < length hs" "hs ! nat fd = Link_H l"
    using assms(2) unfolding sh_slot_Some by blast
  then have "links_ok hs" using assms(1) by (simp add: lks.holds_def)
  then obtain p where "hm_get_handler (lk_prog_id l) hs = Inr (Prog_H p)" using hs unfolding links_ok_def by blast
  then have "sh_slot (lk_prog_id l) sh = Some (Prog_H p)" using hs(1) unfolding sh_slot_Some hm_get_handler_iff by blast
  then show ?thesis by (simp add: is_prog_fd_def)
qed

text \<open>
  C10: no link outlives its program, whatever the calls of the loading program are. In every state that
  a server reaches by calls of its entry points, with agents working on the same memory in between and mocking
  switched on and off, the program of a link in the table of handlers is a program in the table.
\<close>

theorem server_links_have_programs:
  assumes "server_reach c" and "sh_slot fd (sc_shm c) = Some (Link_H l)"
  shows "is_prog_fd (lk_prog_id l) (sc_shm c)"
  by (rule holds_slot [OF reach_links [OF assms(1)] assms(2)])

subsection \<open>Links of perf events\<close>

lemma sh_set_free:
  assumes "sh_slot fd sh = Some Unused" and "h \<noteq> Unused" and "\<And>m. h \<noteq> Map_H m"
  shows "sh_set rt fd h sh = (Inr fd, sh_put fd h sh)"
proof -
  obtain hs where hs: "sh_manager sh = Some hs" "0 \<le> fd" "nat fd < length hs" "hs ! nat fd = Unused"
    using assms(1) unfolding sh_slot_Some by blast
  then have "set_handler rt fd h hs (sh_segment sh) = (Inr fd, hs[nat fd := h], sh_segment sh)"
    using assms(2,3) by (cases h) (auto simp: set_handler_def is_allocated_def)
  then show ?thesis using hs(1) by (simp add: sh_set_def sh_put_def)
qed

lemma close_link_slot:
  assumes "sh_slot a sh = Some (Link_H l)" and "a \<noteq> b"
  shows "sh_slot b (snd (close_fd rt a sh)) = sh_slot b sh"
proof -
  obtain hs where hs: "sh_manager sh = Some hs" "0 \<le> a" "nat a < length hs" "hs ! nat a = Link_H l"
    using assms(1) unfolding sh_slot_Some by blast
  then show ?thesis using assms(2)
    by (auto simp: close_fd_def sh_clear_def clear_id_at_def sh_slot_def nth_list_update)
qed

lemma close_slot:
  assumes "sc_already_setup c" and "sh_slot a (sc_shm c) = Some (Link_H l)" and "a \<noteq> b"
  shows "sh_slot b (sc_shm (snd (handle_close e a c))) = sh_slot b (sc_shm c)"
proof -
  have "sh_slot b (sc_shm (snd (unless_stopped (on_shm (close_fd (sv_runtime e) a) (try_startup e c)) (\<lambda>_. orig e (O_close a)))))
      = sh_slot b (sc_shm c)"
    using unless_stopped_cases [of "on_shm (close_fd (sv_runtime e) a) (try_startup e c)" "\<lambda>_. orig e (O_close a)"]
      close_link_slot [OF assms(2,3), of "sv_runtime e"] assms(1) by auto
  then show ?thesis using assms(1) by (simp add: handle_close_def Let_def split: option.split)
qed

lemma startup_keeps: "sc_already_setup c \<Longrightarrow> mocking c \<Longrightarrow> try_startup e c = c"
  by (simp add: try_startup_def start_up_def mocking_def)

lemma on_shm_eq: "f (sc_shm c) = (r, sh) \<Longrightarrow> on_shm f c = (r, c\<lparr>sc_shm := sh\<rparr>)"
  by (simp add: on_shm_def)

text \<open>
  C37: creating a link for a perf event stores two links. When a program links itself to a perf event of the
  runtime, the server enters a link without the cookie, whose descriptor it returns, and one with the cookie under another
  descriptor, which the caller never learns. Closing the descriptor that was returned leaves the other link in the table.
\<close>

theorem link_create_links_twice:
  assumes "mocking c" and "sc_already_setup c" and "\<not> sc_run_with_kernel c"
    and "is_prog_fd (to_s32 (int (la_prog_fd args))) (sc_shm c)" and "is_perf_event_handler_fd (to_s32 (int (la_target_fd args))) (sc_shm c)"
    and "la_attach_type args = 41"
    and "open_fake_fd (sv_os e 0) = a" and "open_fake_fd (sv_os e 1) = b" and "a \<noteq> b"
    and "sh_slot a (sc_shm c) = Some Unused" and "sh_slot b (sc_shm c) = Some Unused"
  shows "\<exists>c'. handle_sysbpf e (BPF_LINK_CREATE args cookie) sz c = (Inr (a, No_Out), c') \<and>
    sh_slot a (sc_shm c') = Some (Link_H (lk_new_args args)) \<and>
    (\<forall>c'' \<in> {c', snd (handle_close e' a c')}. sh_slot b (sc_shm c'') =
      Some (Link_H (lk_new_cookie (to_s32 (int (la_prog_fd args))) (to_s32 (int (la_target_fd args))) (Some cookie))))"
proof -
  let ?p = "to_s32 (int (la_prog_fd args))" and ?t = "to_s32 (int (la_target_fd args))" and ?sh = "sc_shm c"
  let ?sh1 = "sh_put a (Link_H (lk_new_args args)) ?sh"
  let ?sh2 = "sh_put b (Link_H (lk_new_cookie ?p ?t (Some cookie))) ?sh1"
  have slot1: "sh_slot fd ?sh1 = (if fd = a then Some (Link_H (lk_new_args args)) else sh_slot fd ?sh)" for fd
    by (rule sh_slot_put [OF assms(10)])
  have b: "sh_slot b ?sh1 = Some Unused" using slot1 assms(9,11) by simp
  have slot2: "sh_slot fd ?sh2 = (if fd = b then Some (Link_H (lk_new_cookie ?p ?t (Some cookie))) else sh_slot fd ?sh1)" for fd
    by (rule sh_slot_put [OF b])
  have ne: "?p \<noteq> a" "?t \<noteq> a" using assms(4,5,10) by (auto simp: is_prog_fd_def is_perf_event_handler_fd_def)
  have pe: "is_prog_fd ?p ?sh1" "is_perf_event_handler_fd ?t ?sh1" "is_perf_fd ?t ?sh1"
    using assms(4,5) ne slot1 by (simp_all add: is_prog_fd_def is_perf_event_handler_fd_def is_perf_fd_def)
  have "add_bpf_link (sv_runtime e) (sv_os e 0) (-1) (Some args) ?sh = (Inr a, ?sh1)"
    using assms(4,7) sh_set_free [OF assms(10)] by (simp add: add_bpf_link_def new_fd_def)
  then have l: "on_shm (add_bpf_link (sv_runtime e) (sv_os e 0) (-1) (Some args)) c = (Inr a, c\<lparr>sc_shm := ?sh1\<rparr>)" by (rule on_shm_eq)
  have "0 \<le> b" using assms(11) unfolding sh_slot_Some by blast
  then have "attach_perf_to_bpf (sv_runtime e) (sv_os e 1) ?t ?p (Some cookie) ?sh1 = (Inr b, ?sh2)"
    using pe assms(8) sh_set_free [OF b] by (simp add: attach_perf_to_bpf_def add_bpf_prog_attach_target_def Let_def)
  then have at: "on_shm (attach_perf_to_bpf (sv_runtime e) (sv_os e 1) ?t ?p (Some cookie)) (c\<lparr>sc_shm := ?sh1\<rparr>) = (Inr b, c\<lparr>sc_shm := ?sh2\<rparr>)"
    by (simp add: on_shm_def)
  have "handle_sysbpf e (BPF_LINK_CREATE args cookie) sz c = (Inr (a, No_Out), c\<lparr>sc_shm := ?sh2\<rparr>)"
    using l at pe(1,2) assms(1,3,6) startup_keeps [OF assms(2,1)]
    by (simp add: handle_sysbpf_def sysbpf_runtime_def sysbpf_link_create_def unless_stopped_def plain_out_def Let_def)
  moreover have "sh_slot a ?sh2 = Some (Link_H (lk_new_args args))" using slot1 slot2 assms(9) by simp
  moreover from this have "sh_slot b (sc_shm (snd (handle_close e' a (c\<lparr>sc_shm := ?sh2\<rparr>)))) = sh_slot b ?sh2"
    using close_slot [of "c\<lparr>sc_shm := ?sh2\<rparr>" a _ b e'] assms(2,9) by simp
  ultimately show ?thesis using slot2 by simp
qed

subsection \<open>Calls that are not mocked\<close>

text \<open>The original function of an entry point; the mode of \<open>openat\<close> and \<open>open\<close> is cut to 16 bits before it is passed on.\<close>

primrec original_of :: "server_call \<Rightarrow> orig_call" where
  "original_of (S_syscall n args) = O_syscall n args"
| "original_of (S_close fd) = O_close fd"
| "original_of (S_openat fd file oflag arg4) = O_openat fd file oflag (word_of_int arg4)"
| "original_of (S_open file oflag arg3) = O_open file oflag (word_of_int arg3)"
| "original_of (S_read fd cnt) = O_read fd cnt"
| "original_of (S_fopen path flags) = O_fopen path flags"
| "original_of (S_mmap addr len prot flags fd off) = O_mmap addr len prot flags fd off"
| "original_of (S_mmap64 addr len prot flags fd off) = O_mmap addr len prot flags fd off"
| "original_of (S_munmap addr sz) = O_munmap addr sz"
| "original_of (S_ioctl fd req data) = O_ioctl fd req data"
| "original_of (S_epoll_create1 flags) = O_epoll_create1 flags"
| "original_of (S_epoll_ctl epfd op fd evt) = O_epoll_ctl epfd op fd evt"
| "original_of (S_epoll_wait w epfd n t) = O_epoll_wait epfd n t"

lemma syscall_passed:
  assumes "\<not> served (S_syscall n args) c" and "\<And>name flags. (n, args) \<noteq> (NR_memfd_create, Name_Args name flags)"
  shows "server_syscall e n args c = number_answer (orig e (O_syscall n args) c)"
  using assms
  by (cases args) (auto simp: server_syscall_def handle_sysbpf_def handle_perfevent_def handle_dup3_def plain_out_def answer_defs
      orig_def Let_def split: list.split)

lemma served_unless_mocking:
  assumes "\<not> mocking c" and "\<And>w epfd n t. x \<noteq> S_epoll_wait w epfd n t" and "\<And>addr sz. x \<noteq> S_munmap addr sz"
    and "\<And>addr len prot flags fd off. x = S_mmap64 addr len prot flags fd off \<Longrightarrow> sc_enable_mock_after_initialized c"
    and "\<And>epfd op fd evt. x = S_epoll_ctl epfd op fd evt \<Longrightarrow> \<not> sc_initializing_cuda c"
  shows "\<not> served x c"
  using assms by (cases x) (auto simp: mocking_def split: sys_args.split)

text \<open>
  C27: the server is transparent for the calls it does not handle. These are the calls while mocking is off by any of its three flags; two handlers
  test fewer of them: \<open>mmap64\<close> is handled without \<open>enable_mock_after_initialized\<close>, and \<open>epoll_ctl\<close> while CUDA
  is being initialised. Such a call makes exactly one call, of the original function with the same
  arguments (the mode of a file cut to 16 bits), returns what it returns, and leaves the state of the server alone. \<open>munmap\<close> and \<open>epoll_wait\<close> are
  handled also while mocking is off, and the system call \<open>memfd_create\<close> is passed on as another one.
\<close>

theorem server_transparent:
  assumes "\<not> mocking c" and "\<And>w epfd n t. x \<noteq> S_epoll_wait w epfd n t" and "\<And>addr sz. x \<noteq> S_munmap addr sz"
    and "\<And>addr len prot flags fd off. x = S_mmap64 addr len prot flags fd off \<Longrightarrow> sc_enable_mock_after_initialized c"
    and "\<And>epfd op fd evt. x = S_epoll_ctl epfd op fd evt \<Longrightarrow> \<not> sc_initializing_cuda c"
    and "\<And>name flags. x \<noteq> S_syscall NR_memfd_create (Name_Args name flags)"
  shows "server_call_result e x c =
    Some (Inr (sv_orig e (length (sc_calls c)) (original_of x), Nothing_Out), c\<lparr>sc_calls := sc_calls c @ [original_of x]\<rparr>)"
proof -
  have s: "\<not> served x c" using assms(1-5) by (rule served_unless_mocking)
  show ?thesis
  proof (cases x)
    case (S_syscall n args)
    then show ?thesis using s syscall_passed [of n args c e] assms(6) by (auto simp: number_answer_def orig_def)
  qed (use s assms(2,3) in \<open>auto simp: answer_defs orig_def Let_def handle_close_def handle_openat_def handle_open_def handle_read_def
      handle_fopen_def handle_mmap_def handle_mmap64_def handle_ioctl_def handle_epoll_create1_def handle_epoll_ctl_def\<close>)
qed

lemma not_mocking: "\<not> sc_enable_mock c \<Longrightarrow> \<not> mocking c"
  by (simp add: mocking_def)

text \<open>
  A call of \<open>munmap\<close> that is not to be mocked is made twice. The handler calls the original function and does not return:
  it goes on, switches mocking on, even while the server is being started, and calls the original function
  again, by which time the addresses may belong to a new mapping.
\<close>

theorem munmap_unmocked_repeated:
  assumes "\<not> mocking c" and "addr \<notin> sc_mocked_mmap_values c"
  shows "\<exists>r c'. handle_munmap e addr sz c = (Inr r, c') \<and>
    sc_calls c' = sc_calls c @ [O_munmap addr sz, O_munmap addr sz] \<and> sc_enable_mock c'"
  using assms by (simp add: handle_munmap_def not_returned_def try_startup_def start_up_def orig_def Let_def)

text \<open>The same omission in \<open>epoll_wait\<close>: the original wait runs to its end, its events are lost, and the call waits again.\<close>

theorem epoll_wait_unmocked_repeated:
  assumes "\<not> mocking c" and "sc_already_setup c" and "\<not> is_epoll_fd epfd (sc_shm c)"
  shows "\<exists>r c'. handle_epoll_wait e w epfd n t c = Some (Inr r, c') \<and>
    sc_calls c' = sc_calls c @ [O_epoll_wait epfd n t, O_epoll_wait epfd n t]"
  using assms by (simp add: handle_epoll_wait_def not_returned_def try_startup_def start_up_def orig_def Let_def)

text \<open>A \<open>memfd_create\<close> that is passed on becomes a \<open>dup3\<close>.\<close>

theorem memfd_create_passed_as_dup3:
  assumes "\<not> mocking c \<or> sc_run_with_kernel c"
  shows "sc_calls (snd (handle_memfd_create e name flags c)) = sc_calls c @ [O_syscall NR_dup3 (Name_Args name flags)]"
  using assms by (simp add: handle_memfd_create_def orig_def)

subsection \<open>Mocked files\<close>

text \<open>A sequence of reads, with the bytes of all of them.\<close>

primrec read_all :: "server_env \<Rightarrow> int \<Rightarrow> nat list \<Rightarrow> syscall_context \<Rightarrow> string \<times> syscall_context" where
  "read_all e fd [] c = ([], c)"
| "read_all e fd (n # ns) c = (case handle_read e fd n c of
       (Inr (_, Some text), c) \<Rightarrow> (case read_all e fd ns c of (rest, c) \<Rightarrow> (text @ rest, c))
     | (_, c) \<Rightarrow> ([], c))"

lemma read_step:
  assumes "mocking c" and "sc_already_setup c" and "sc_mocked_files c fd = Some m" and "mf_cursor m \<le> length (mf_buf m)"
  shows "\<exists>c'. handle_read e fd n c = (Inr (int (min n (length (mf_buf m) - mf_cursor m)), Some (take n (drop (mf_cursor m) (mf_buf m)))), c') \<and>
    mocking c' \<and> sc_already_setup c' \<and> sc_calls c' = sc_calls c \<and>
    sc_mocked_files c' fd = Some (m\<lparr>mf_cursor := min (mf_cursor m + n) (length (mf_buf m))\<rparr>)"
proof -
  have z: "min (mf_cursor m + n) (length (mf_buf m)) = mf_cursor m + min n (length (mf_buf m) - mf_cursor m)" using assms(4) by simp
  have t: "take (min n (length (mf_buf m) - mf_cursor m)) (drop (mf_cursor m) (mf_buf m)) = take n (drop (mf_cursor m) (mf_buf m))"
    by (simp add: min_def)
  show ?thesis
  proof (cases "min n (length (mf_buf m) - mf_cursor m) = 0")
    case True
    then have "take n (drop (mf_cursor m) (mf_buf m)) = []" using t by simp
    then show ?thesis using True assms z startup_keeps [OF assms(2,1), of e] by (simp add: handle_read_def Let_def)
  next
    case False
    then show ?thesis using assms z t startup_keeps [OF assms(2,1), of e]
      by (auto simp: handle_read_def Let_def mocking_def)
  qed
qed

lemma read_all_rest:
  assumes "mocking c" and "sc_already_setup c" and "sc_mocked_files c fd = Some m" and "mf_cursor m \<le> length (mf_buf m)"
  shows "fst (read_all e fd ns c) = take (sum_list ns) (drop (mf_cursor m) (mf_buf m)) \<and> sc_calls (snd (read_all e fd ns c)) = sc_calls c"
  using assms
proof (induction ns arbitrary: c m)
  case Nil
  then show ?case by simp
next
  case (Cons n ns)
  obtain c' where c': "handle_read e fd n c = (Inr (int (min n (length (mf_buf m) - mf_cursor m)), Some (take n (drop (mf_cursor m) (mf_buf m)))), c')"
    "mocking c'" "sc_already_setup c'" "sc_calls c' = sc_calls c"
    "sc_mocked_files c' fd = Some (m\<lparr>mf_cursor := min (mf_cursor m + n) (length (mf_buf m))\<rparr>)"
    using read_step [OF Cons.prems] by blast
  have d: "drop (min (mf_cursor m + n) (length (mf_buf m))) (mf_buf m) = drop n (drop (mf_cursor m) (mf_buf m))"
    by (simp add: min_def add.commute)
  show ?case using Cons.IH [OF c'(2,3,5)] c'(1,4) d by (simp add: take_add case_prod_beta)
qed

text \<open>
  C28: a mocked file is read back. Opening a path that the server mocks gives a new descriptor without a call of an original
  function, and reads of any sizes through it return consecutive pieces of the text of the mock, and nothing after its end.
\<close>

theorem mocked_file_read_back:
  assumes "mocking c" and "create_mocked_file_based_on_full_path path = Some m"
    and "fst (sv_mkstemp e (length (sc_temps c))) = fd" and "0 \<le> fd" and "sc_mocked_files c fd = None"
  shows "\<exists>c'. handle_open e path oflag mode c = (Inr fd, c') \<and> fst (read_all e' fd ns c') = take (sum_list ns) (mf_buf m) \<and>
    sc_calls (snd (read_all e' fd ns c')) = sc_calls c"
proof -
  let ?c = "try_startup e c"
  have keeps: "sc_temps ?c = sc_temps c" "sc_mocked_files ?c = sc_mocked_files c" "sc_calls ?c = sc_calls c" "mocking ?c"
    using assms(1) by (simp_all add: try_startup_def start_up_def mocking_def)
  let ?c' = "?c\<lparr>sc_temps := sc_temps c @ [fd], sc_mocked_files := (sc_mocked_files c)(fd \<mapsto> m)\<rparr>"
  have "handle_open e path oflag mode c = (Inr fd, ?c')"
    using assms keeps by (simp add: handle_open_def make_temp_def emplace_file_def Let_def)
  moreover have "mf_cursor m = 0"
    using assms(2) by (auto simp: create_mocked_file_based_on_full_path_def mocked_file_provider_def split: if_splits)
  moreover have "mocking ?c'" "sc_already_setup ?c'" "sc_calls ?c' = sc_calls c"
    using keeps by (simp_all add: mocking_def)
  ultimately show ?thesis using read_all_rest [of ?c' fd m e' ns] by simp
qed

text \<open>Closing a mocked file removes the mock but leaves the descriptor of the temporary file open.\<close>

theorem mocked_close_leaks:
  assumes "mocking c" and "sc_mocked_files c fd = Some m"
  shows "\<exists>c'. handle_close e fd c = (Inr 0, c') \<and> sc_mocked_files c' fd = None \<and> sc_calls c' = sc_calls c"
  using assms by (simp add: handle_close_def try_startup_def start_up_def Let_def)

text \<open>A path given relative to the current directory by \<open>AT_FDCWD\<close> is never mocked: there is no such descriptor in \<open>/proc/self/fd\<close>.\<close>

theorem openat_fdcwd_not_mocked:
  assumes "sv_fd_path e (-100) = None"
  shows "sc_calls (snd (handle_openat e (-100) file oflag mode c)) = sc_calls c @ [O_openat (-100) file oflag mode]"
  using assms by (simp add: handle_openat_def resolve_filename_and_fd_to_full_path_def orig_def try_startup_def start_up_def Let_def)

text \<open>Looking an array of maps up by the system call copies from the handle of the inner map as if it were an address.\<close>

theorem lookup_of_inner_map_undefined:
  assumes "bpftime_map_lookup_elem (sv_runtime e) fd key sh = (Inr (Handle h), sh')"
  shows "fst (sysbpf_lookup e fd key sh) = Inl UB"
  using assms by (simp add: sysbpf_lookup_def)

subsection \<open>Loading programs\<close>

lemma prog_entered:
  assumes "sh_set rt fd (Prog_H p) sh = (Inr x, sh')"
  shows "sh_slot x sh' = Some (Prog_H p)"
  using assms by (auto simp: sh_set_def set_handler_def sh_slot_def split: option.splits if_splits)

lemma load_verified:
  assumes "handle_sysbpf e (BPF_PROG_LOAD a) sz c = (Inr (fd, out), c')" and "mocking c" and "\<not> sc_run_with_kernel c"
    and "sv_verify e = Some verify" and "simple_section_name (pl_prog_type a) = Some section_name"
  shows "verify (sc_tables (start_up e c) (sv_thread e)) (pl_insns a) section_name = Inr None \<and>
    sh_slot fd (sc_shm c') = Some (Prog_H (pr_new (pl_insns a) (pl_prog_name a) (to_s32 (int (pl_prog_type a)))))"
proof -
  let ?c = "try_startup e c"
  have k: "\<not> sc_run_with_kernel ?c" "sc_tables ?c = sc_tables (start_up e c)"
    using assms(3) by (simp_all add: try_startup_def start_up_def)
  then have "plain_out (sysbpf_prog_load e a ?c) = (Inr (fd, out), c')"
    using assms(1,2) by (simp add: handle_sysbpf_def sysbpf_runtime_def Let_def)
  then have l: "sysbpf_prog_load e a ?c = (Inr fd, c')"
    by (cases "fst (sysbpf_prog_load e a ?c)"; cases "sysbpf_prog_load e a ?c") (auto simp: plain_out_def)
  then have v: "verify (sc_tables (start_up e c) (sv_thread e)) (pl_insns a) section_name = Inr None"
    using assms(4,5) k(2) by (auto simp: sysbpf_prog_load_def Let_def split: sum.splits option.splits)
  then have "on_shm (add_bpf_prog (sv_runtime e) (sv_os e 0) (-1) (pl_insns a) (pl_prog_name a) (to_s32 (int (pl_prog_type a)))) ?c = (Inr fd, c')"
    using l assms(4,5) k(2) by (simp add: sysbpf_prog_load_def Let_def)
  then show ?thesis using v prog_entered [of "sv_runtime e"]
    by (auto simp: on_shm_def add_bpf_prog_def split: prod.splits)
qed

text \<open>
  C25: a program that the server loads calls helpers that are there when an agent runs it. When the verifier is built in and a server
  accepts a program of a tracepoint or a uprobe from the thread that started it with a configuration, the program is in the table of handlers under the descriptor
  that is returned, and an agent that loads its instructions with the same configuration registers, for each
  of its calls, a helper of that number. The configuration must not enable the extension helpers without the map helpers.
\<close>

theorem loaded_calls_registered:
  assumes "sv_verify e = Some (verify_ebpf_program types linux analyse message)"
    and "sc_tables (start_up e c) (sv_thread e) = start_up_verifier config t"
    and "cf_enable_ufunc_helper_group config \<Longrightarrow> cf_enable_shm_maps_helper_group config"
    and "mocking c" and "\<not> sc_run_with_kernel c" and "simple_section_name (pl_prog_type a) \<noteq> None"
    and "handle_sysbpf e (BPF_PROG_LOAD a) sz c = (Inr (fd, out), c')"
  shows "\<exists>p prog hs. sh_slot fd (sc_shm c') = Some (Prog_H p) \<and>
    unmarshal (bpftime_platform_spec linux (start_up_verifier config t)) (map inst_of_raw (pr_insns p)) ([] :: unit list) = Inr (Program prog) \<and>
    load_prog_and_helpers ops ufunc config (bp_new ops (pr_insns p) (pr_name p)) =
      bpftime_prog_load ops (cf_jit_enabled config)
        ((bp_new ops (pr_insns p) (pr_name p))\<lparr>bp_vm := fold (vm_register ops) hs (vm_new ops)\<rparr>) \<and>
    (\<forall>l k x. (l, Call k, x) \<in> set prog \<longrightarrow> (\<exists>h \<in> set hs. of_nat (hi_index h) = ca_func k))"
proof -
  obtain s where s: "simple_section_name (pl_prog_type a) = Some s" using assms(6) by blast
  let ?p = "pr_new (pl_insns a) (pl_prog_name a) (to_s32 (int (pl_prog_type a)))"
  have l: "verify_ebpf_program types linux analyse message (start_up_verifier config t) (pr_insns ?p) s = Inr None"
    "sh_slot fd (sc_shm c') = Some (Prog_H ?p)"
    using load_verified [OF assms(7,4,5,1) s] assms(2) by (simp_all add: pr_new_def)
  have "bp_vm (bp_new ops (pr_insns ?p) (pr_name ?p)) = vm_new ops" by (simp add: bp_new_def)
  then show ?thesis using verified_calls_registered [OF l(1) assms(3), of ops ufunc "bp_new ops (pr_insns ?p) (pr_name ?p)"] l(2) by metis
qed

text \<open>
  The tables of the verifier are filled by the thread that starts the server, and every thread has its own: in a thread whose usable helpers were
  never set, no program with a call of a helper is loaded.
\<close>

theorem other_threads_load_no_calls:
  assumes "sv_verify e = Some (verify_ebpf_program types linux analyse message)" and "sc_already_setup c"
    and "vt_usable_helpers (sc_tables c (sv_thread e)) = {}"
    and "mocking c" and "\<not> sc_run_with_kernel c" and "simple_section_name (pl_prog_type a) \<noteq> None"
    and "handle_sysbpf e (BPF_PROG_LOAD a) sz c = (Inr (fd, out), c')"
  shows "\<exists>prog. unmarshal (bpftime_platform_spec linux (sc_tables c (sv_thread e))) (map inst_of_raw (pl_insns a)) ([] :: unit list) = Inr (Program prog) \<and>
    (\<forall>l k x. (l, Call k, x) \<notin> set prog)"
proof -
  obtain s where s: "simple_section_name (pl_prog_type a) = Some s" using assms(6) by blast
  have "verify_ebpf_program types linux analyse message (sc_tables c (sv_thread e)) (pl_insns a) s = Inr None"
    using load_verified [OF assms(7,4,5,1) s] assms(2) by simp
  then obtain prog where p: "unmarshal (bpftime_platform_spec linux (sc_tables c (sv_thread e))) (map inst_of_raw (pl_insns a)) ([] :: unit list) = Inr (Program prog)"
    using accepted_program by blast
  then show ?thesis using calls_usable [OF p] assms(3) by (auto simp: bpftime_platform_spec_def bpftime_is_helper_usable_def)
qed

subsection \<open>Examples\<close>

text \<open>A server whose calls get the descriptors \<open>n\<close>, \<open>n + 1\<close> and temporary files \<open>n\<close>; no file of the kernel exists.\<close>

definition sample_server :: "int \<Rightarrow> server_env" where
  "sample_server n = \<lparr>sv_thread = 0, sv_runtime = sample_env, sv_os = \<lambda>k _. n + int k, sv_orig = \<lambda>_ _. 0, sv_mkstemp = \<lambda>_. (n, ''/tmp/bpftime-mock.000000''),
     sv_exists = \<lambda>_. False, sv_fscanf = \<lambda>_ _. (0, 0), sv_errno = 0, sv_fd_path = \<lambda>_. None, sv_is_directory = \<lambda>_. False,
     sv_map_info = \<lambda>_. None, sv_regex = \<lambda>_. Some (\<lambda>_. False),
     sv_verify = Some (verify_ebpf_program (\<lambda>_. Inr ()) lookup_proto (\<lambda>_ _ _. Inr (True, [])) (\<lambda>_ what. what)),
     sv_address = \<lambda>_ _. 0, sv_config = maps_config, sv_max_fd_count = 8\<rparr>"

definition started :: "handler_variant list \<Rightarrow> syscall_context" where
  "started hs = (try_startup (sample_server 0) (syscall_context_new (\<lambda>_. None)))\<lparr>sc_shm := (shm_new 8)\<lparr>sh_manager := Some hs\<rparr>\<rparr>"

definition lookup_prog :: prog_load_attr where
  "lookup_prog = \<lparr>pl_prog_type = 5, pl_insns = [0x100000085, 0x95], pl_prog_name = ''lookup'', pl_func_info = (0, 0, 0), pl_line_info = (0, 0, 0)\<rparr>"

definition tracepoint_attr :: perf_event_attr where
  "tracepoint_attr = \<lparr>pv_type = 2, pv_config = 7, pv_sample_type = 0, pv_config1 = [], pv_config2 = 0\<rparr>"

definition link_attr :: link_create_args where
  "link_attr = \<lparr>la_prog_fd = 3, la_target_fd = 4, la_attach_type = 41, la_flags = 0\<rparr>"

abbreviation (input) sample_prog :: handler_variant where
  "sample_prog \<equiv> Prog_H (pr_new [0x100000085, 0x95] ''lookup'' 5)"

abbreviation (input) sample_event :: handler_variant where
  "sample_event \<equiv> Perf_H (ph_new_tracepoint 1 7)"

abbreviation (input) sample_link :: handler_variant where
  "sample_link \<equiv> Link_H (lk_new_args link_attr)"

abbreviation (input) sample_cookie_link :: handler_variant where
  "sample_cookie_link \<equiv> Link_H (lk_new_cookie 3 4 (Some 9))"

lemma fd_eval [simp]: "to_s32 3 = 3" "to_s32 4 = 4" "to_s32 5 = 5"
  by (simp_all add: to_s32_def s32_def to_u32_def)

lemma sample_fd [simp]: "3 \<le> n \<Longrightarrow> open_fake_fd (sv_os (sample_server n) k) = n + int k"
  by (simp add: open_fake_fd_def open_fake_fd_loop.simps sample_server_def)

lemma sample_simps [simp]:
  "sv_thread (sample_server n) = 0" "sv_runtime (sample_server n) = sample_env" "sv_config (sample_server n) = maps_config" "sv_max_fd_count (sample_server n) = 8"
  "sv_exists (sample_server n) p = False" "sv_mkstemp (sample_server n) k = (n, ''/tmp/bpftime-mock.000000'')"
  "sv_verify (sample_server n) = Some (verify_ebpf_program (\<lambda>_. Inr ()) lookup_proto (\<lambda>_ _ _. Inr (True, [])) (\<lambda>_ what. what))"
  by (simp_all add: sample_server_def)

lemma started_simps [simp]:
  "mocking (started hs)" "sc_already_setup (started hs)" "\<not> sc_run_with_kernel (started hs)" "sc_enable_mock (started hs)"
  "sc_shm (started hs) = (shm_new 8)\<lparr>sh_manager := Some hs\<rparr>" "sc_mocked_files (started hs) = Map.empty" "sc_calls (started hs) = []"
  "sc_mocked_mmap_values (started hs) = {}" "sc_temps (started hs) = []"
  "sc_tables (started hs) 0 = start_up_verifier maps_config (sc_tables (syscall_context_new (\<lambda>_. None)) 0)"
  "(started hs)\<lparr>sc_shm := (shm_new 8)\<lparr>sh_manager := Some gs\<rparr>\<rparr> = started gs"
  by (simp_all add: started_def try_startup_def start_up_def syscall_context_new_def load_config_from_env_def mocking_def)

lemma started_first: "try_startup (sample_server n) (syscall_context_new (\<lambda>_. None)) = started (replicate 8 Unused)"
  by (simp add: started_def try_startup_def start_up_def syscall_context_new_def load_config_from_env_def shm_new_def hm_new_def)

lemma started_slot: "sh_slot fd ((shm_new 8)\<lparr>sh_manager := Some hs\<rparr>) = (if fd < 0 \<or> nat fd \<ge> length hs then None else Some (hs ! nat fd))"
  by (simp add: sh_slot_def)

lemma started_put: "sh_put fd h ((shm_new 8)\<lparr>sh_manager := Some hs\<rparr>) = (shm_new 8)\<lparr>sh_manager := Some (hs[nat fd := h])\<rparr>"
  by (simp add: sh_put_def)

lemmas handler_eval = handle_sysbpf_def sysbpf_runtime_def sysbpf_prog_load_def plain_out_def on_shm_def answer_defs server_syscall_def Let_def
  startup_keeps simple_section_name_def add_bpf_prog_def new_fd_def sh_set_free started_slot started_put

lemma lookup_prog_verified:
  "verify_ebpf_program (\<lambda>_. Inr ()) lookup_proto (\<lambda>_ _ _. Inr (True, [])) (\<lambda>_ what. what) (start_up_verifier maps_config t) [0x100000085, 0x95] ''tracepoint'' = Inr None"
  unfolding verify_ebpf_program_def lookup_prog_decodes by (simp add: bpftime_get_program_type_def)

lemma sample_load:
  "handle_sysbpf (sample_server 3) (BPF_PROG_LOAD lookup_prog) 0 (syscall_context_new (\<lambda>_. None)) =
     (Inr (3, No_Out), started ((replicate 8 Unused)[3 := sample_prog]))"
proof -
  have "mocking (syscall_context_new (\<lambda>_. None))" by (simp add: syscall_context_new_def load_config_from_env_def mocking_def)
  then show ?thesis
    by (simp add: handler_eval started_first lookup_prog_def lookup_prog_verified)
qed

lemma sample_event_open:
  "handle_perfevent (sample_server 4) tracepoint_attr 1 0 (-1) 0 (started ((replicate 8 Unused)[3 := sample_prog])) =
     (Inr 4, started ((replicate 8 Unused)[3 := sample_prog, 4 := sample_event]))"
  by (simp add: handle_perfevent_def determine_uprobe_perf_type_def determine_kprobe_perf_type_def unless_stopped_def perf_other_def
      tracepoint_attr_def add_tracepoint_def handler_eval)

text \<open>The calls of a program that loads a program and links it to a tracepoint.\<close>

abbreviation (input) linked :: syscall_context where
  "linked \<equiv> started ((replicate 8 Unused)[3 := sample_prog, 4 := sample_event, 5 := sample_link, 6 := sample_cookie_link])"

lemma sample_link_create:
  "handle_sysbpf (sample_server 5) (BPF_LINK_CREATE link_attr 9) 0 (started ((replicate 8 Unused)[3 := sample_prog, 4 := sample_event])) =
     (Inr (5, No_Out), linked)"
  by (simp add: handler_eval sysbpf_link_create_def unless_stopped_def add_bpf_link_def attach_perf_to_bpf_def
      add_bpf_prog_attach_target_def is_prog_fd_def is_perf_fd_def is_perf_event_handler_fd_def link_attr_def)

lemma sample_calls:
  "server_call_result (sample_server 3) (S_syscall NR_bpf (Bpf_Args (BPF_PROG_LOAD lookup_prog) 0)) (syscall_context_new (\<lambda>_. None)) =
     Some (Inr (3, Nothing_Out), started ((replicate 8 Unused)[3 := sample_prog]))"
  "server_call_result (sample_server 4) (S_syscall NR_perf_event_open (Perf_Args tracepoint_attr 1 0 (-1) 0)) (started ((replicate 8 Unused)[3 := sample_prog])) =
     Some (Inr (4, Nothing_Out), started ((replicate 8 Unused)[3 := sample_prog, 4 := sample_event]))"
  "server_call_result (sample_server 5) (S_syscall NR_bpf (Bpf_Args (BPF_LINK_CREATE link_attr 9) 0))
     (started ((replicate 8 Unused)[3 := sample_prog, 4 := sample_event])) = Some (Inr (5, Nothing_Out), linked)"
  by (simp_all add: server_syscall_def answer_defs sample_load sample_event_open sample_link_create Let_def)

lemma sample_reach: "server_reach linked"
proof -
  have "server_reach (started ((replicate 8 Unused)[3 := sample_prog]))"
    by (rule server_reach.call [OF server_reach.start sample_calls(1)]) simp_all
  then have "server_reach (started ((replicate 8 Unused)[3 := sample_prog, 4 := sample_event]))"
    by (rule server_reach.call [OF _ sample_calls(2)]) simp_all
  then show ?thesis by (rule server_reach.call [OF _ sample_calls(3)]) simp_all
qed

theorem server_refines_runtime_witness:
  "server_ops (sample_server 3) (S_syscall NR_bpf (Bpf_Args (BPF_PROG_LOAD lookup_prog) 0)) (started (replicate 8 Unused)) =
     [Add_Bpf_Prog (sv_os (sample_server 3) 0) (-1) [0x100000085, 0x95] ''lookup'' 5] \<and>
   (shm_new 8)\<lparr>sh_manager := Some ((replicate 8 Unused)[3 := sample_prog])\<rparr> =
     snd (shm_step sample_env (Add_Bpf_Prog (sv_os (sample_server 3) 0) (-1) [0x100000085, 0x95] ''lookup'' 5) (shm_new 8))"
proof -
  have c: "served (S_syscall NR_bpf (Bpf_Args (BPF_PROG_LOAD lookup_prog) 0)) (syscall_context_new (\<lambda>_. None))"
    "\<not> sc_already_setup (syscall_context_new (\<lambda>_. None))"
    by (simp_all add: syscall_context_new_def load_config_from_env_def mocking_def)
  have ops: "server_ops (sample_server 3) (S_syscall NR_bpf (Bpf_Args (BPF_PROG_LOAD lookup_prog) 0)) (started (replicate 8 Unused)) =
     [Add_Bpf_Prog (sv_os (sample_server 3) 0) (-1) [0x100000085, 0x95] ''lookup'' 5]"
    by (simp add: syscall_ops_def bpf_ops_def accepts_def lookup_prog_def simple_section_name_def lookup_prog_verified)
  show ?thesis using server_refines_runtime [OF sample_calls(1)] c ops by (simp add: started_first)
qed

theorem server_links_have_programs_witness:
  "server_reach linked \<and> sh_slot 6 (sc_shm linked) = Some sample_cookie_link \<and> is_prog_fd 3 (sc_shm linked)"
proof -
  have s: "sh_slot 6 (sc_shm linked) = Some sample_cookie_link" by (simp add: started_slot)
  show ?thesis using server_links_have_programs [OF sample_reach s] sample_reach s by (simp add: lk_new_cookie_def)
qed

theorem link_create_links_twice_witness:
  "\<exists>c'. handle_sysbpf (sample_server 5) (BPF_LINK_CREATE link_attr 9) 0 (started ((replicate 8 Unused)[3 := sample_prog, 4 := sample_event])) =
     (Inr (5, No_Out), c') \<and> sh_slot 5 (sc_shm c') = Some sample_link \<and>
     sh_slot 6 (sc_shm (snd (handle_close (sample_server 7) 5 c'))) = Some sample_cookie_link"
proof -
  let ?c = "started ((replicate 8 Unused)[3 := sample_prog, 4 := sample_event])"
  have h: "is_prog_fd (to_s32 (int (la_prog_fd link_attr))) (sc_shm ?c)" "is_perf_event_handler_fd (to_s32 (int (la_target_fd link_attr))) (sc_shm ?c)"
    "la_attach_type link_attr = 41" "open_fake_fd (sv_os (sample_server 5) 0) = 5" "open_fake_fd (sv_os (sample_server 5) 1) = 6" "(5 :: int) \<noteq> 6"
    "sh_slot 5 (sc_shm ?c) = Some Unused" "sh_slot 6 (sc_shm ?c) = Some Unused"
    by (simp_all add: is_prog_fd_def is_perf_event_handler_fd_def link_attr_def started_slot)
  from link_create_links_twice [OF _ _ _ h, of 9 0 "sample_server 7"] show ?thesis by (auto simp: link_attr_def)
qed

theorem server_transparent_witness:
  "server_call_result (sample_server 3) (S_openat 4 ''a'' 0 0x100001b6) ((started [])\<lparr>sc_enable_mock := False\<rparr>) =
     Some (Inr (0, Nothing_Out), (started [])\<lparr>sc_enable_mock := False, sc_calls := [O_openat 4 ''a'' 0 0x1b6]\<rparr>)"
  using server_transparent [of "(started [])\<lparr>sc_enable_mock := False\<rparr>" "S_openat 4 ''a'' 0 0x100001b6" "sample_server 3"]
  by (simp add: not_mocking sample_server_def)

theorem munmap_unmocked_repeated_witness:
  "\<exists>r c'. handle_munmap (sample_server 3) 4096 8 ((started [])\<lparr>sc_enable_mock := False\<rparr>) = (Inr r, c') \<and>
     sc_calls c' = [O_munmap 4096 8, O_munmap 4096 8] \<and> sc_enable_mock c'"
  using munmap_unmocked_repeated [of "(started [])\<lparr>sc_enable_mock := False\<rparr>" 4096 "sample_server 3" 8] by (simp add: not_mocking)

lemma uprobe_type_mocked: "create_mocked_file_based_on_full_path UPROBE_TYPE_FILE_NAME = Some (mocked_file_provider ''9'')"
  by (simp add: create_mocked_file_based_on_full_path_def path_eq_def dec_int_def dec_nat.simps digit_char_def char_of_def bit_Suc_0_iff)

theorem mocked_file_read_back_witness:
  "\<exists>c'. handle_open (sample_server 3) UPROBE_TYPE_FILE_NAME 0 0 (started []) = (Inr 3, c') \<and>
     fst (read_all (sample_server 4) 3 [1, 4] c') = ''9'' \<and> sc_calls (snd (read_all (sample_server 4) 3 [1, 4] c')) = []"
  using mocked_file_read_back [OF _ uprobe_type_mocked, of "started []" "sample_server 3" 3 0 0 "sample_server 4" "[1, 4]"]
  by (simp add: mocked_file_provider_def)

theorem loaded_calls_registered_witness:
  "\<exists>p hs. sh_slot 3 (sc_shm (started ((replicate 8 Unused)[3 := sample_prog]))) = Some (Prog_H p) \<and>
     load_prog_and_helpers table_ops [] maps_config (bp_new table_ops (pr_insns p) (pr_name p)) =
       bpftime_prog_load table_ops True ((bp_new table_ops (pr_insns p) (pr_name p))\<lparr>bp_vm := fold (vm_register table_ops) hs (vm_new table_ops)\<rparr>) \<and>
     (\<exists>h \<in> set hs. of_nat (hi_index h) = (1 :: 32 word))"
proof -
  let ?t = "sc_tables (syscall_context_new (\<lambda>_. None)) 0" and ?c = "syscall_context_new (\<lambda>_. None)"
  have c: "sc_tables (start_up (sample_server 3) ?c) (sv_thread (sample_server 3)) = start_up_verifier maps_config ?t" "mocking ?c" "\<not> sc_run_with_kernel ?c"
    by (simp_all add: start_up_def syscall_context_new_def load_config_from_env_def mocking_def)
  have g: "cf_enable_ufunc_helper_group maps_config \<Longrightarrow> cf_enable_shm_maps_helper_group maps_config" by (simp add: maps_config_def)
  have s: "simple_section_name (pl_prog_type lookup_prog) \<noteq> None" by (simp add: lookup_prog_def simple_section_name_def)
  from loaded_calls_registered [OF sample_simps(7) c(1) g c(2,3) s sample_load, of table_ops "[]"]
  obtain p prog hs where p: "sh_slot 3 (sc_shm (started ((replicate 8 Unused)[3 := sample_prog]))) = Some (Prog_H p)"
    and u: "unmarshal (bpftime_platform_spec lookup_proto (start_up_verifier maps_config ?t)) (map inst_of_raw (pr_insns p)) ([] :: unit list) = Inr (Program prog)"
    and l: "load_prog_and_helpers table_ops [] maps_config (bp_new table_ops (pr_insns p) (pr_name p)) =
      bpftime_prog_load table_ops (cf_jit_enabled maps_config)
        ((bp_new table_ops (pr_insns p) (pr_name p))\<lparr>bp_vm := fold (vm_register table_ops) hs (vm_new table_ops)\<rparr>)"
    and k: "\<forall>l k x. (l, Call k, x) \<in> set prog \<longrightarrow> (\<exists>h \<in> set hs. of_nat (hi_index h) = ca_func k)" by blast
  have "pr_insns p = [0x100000085, 0x95]" using p by (auto simp: started_slot pr_new_def)
  with u have "\<exists>h \<in> set hs. of_nat (hi_index h) = (1 :: 32 word)" unfolding lookup_prog_decodes using k lookup_prog_decodes [of ?t] by fastforce
  then show ?thesis using p l by (auto simp: maps_config_def)
qed

end
