(* ===== verification/Spec2Isabelle.thy ===== *)
theory Spec2Isabelle
  imports Queue_Map Stack_Map Var_Hash_Map Array_Map Percpu_Array Fix_Hash_Map Lru_Hash_Map Percpu_Hash Lpm_Trie
    Bloom_Filter Ringbuf Stack_Trace_Map Bpftime_Api Syscall_Trace Frida_Attach Agent Bpf_Helper Crab_Bits Syscall_Server
begin

text \<open>
  A verification library for bpftime, which runs eBPF programs in user space. Paths are relative to
  \<open>src/\<close>; those without a directory are in \<open>runtime/src/\<close>.

  \<^bold>\<open>The program.\<close> A process under the syscall server calls \<open>bpf(2)\<close> and \<open>perf_event_open(2)\<close>; the runtime
  answers from a shared memory segment. Its table of handlers has one entry per file descriptor: a
  map, a program, a perf event, a link between a program and an event, an epoll instance. The agent
  in the traced process reads the same table, loads the programs into virtual machines and attaches
  them to functions and system calls. Attached programs call helpers, which work on the maps and
  rings of the segment. Before a program enters the table, the verifier can decode it, build its
  control-flow graph and analyse it over intervals.

  \<^bold>\<open>Conventions\<close> (\<open>Bpf_Prelude\<close>).
  \<^item> Every class is a record of its data members, every method a function that returns its result with
    the changed record. \<open>Inl\<close> is a fault: \<open>Errno\<close> (-1 with errno), \<open>NegErrno\<close>, \<open>MinusOne\<close>, \<open>Throw\<close> (an
    exception) and \<open>UB\<close> (undefined behaviour, such as an access outside a buffer). A theorem that says
    an operation succeeds therefore also says that its accesses are in range.
  \<^item> A pointer argument is a \<open>bytes option\<close> with the bytes behind it; \<open>None\<close> is a null pointer. Where
    pointers into one object matter (the LRU list, program objects, the XDP packet) there is a heap or a
    flat memory. Integers wrap at their width: \<open>w32\<close>, \<open>w64\<close> and \<open>s32\<close> on \<open>nat\<close> and \<open>int\<close>, or words.
  \<^item> What the sources call and do not contain is a parameter: the kernel's answers, the current CPU, clock
    and random numbers, the position at which an unordered container inserts, the order of sets of
    pointers, the virtual machine, Frida's interceptor, the file system, the tables of system calls.
  \<^item> Locks and memory barriers are left out: operations are atomic steps, and the theorems about
    sequences of operations quantify over all sequences.

  \<^bold>\<open>Maps\<close> (\<open>bpf_map/userspace/\<close>, \<open>bpf_map/bpftime_hash_map.hpp\<close>).
  \<^item> \<open>Elem_Buffer\<close> is the contract of keyless maps, with a bounded list as the specification.
    \<open>Queue_Map\<close> and \<open>Stack_Map\<close> interpret it: the ring of \<open>queue.cpp\<close> refines FIFO, the vector of
    \<open>stack.cpp\<close> LIFO.
  \<^item> \<open>Map_Common\<close> has the flag test and the contracts \<open>keyed_store\<close>, \<open>framed_store\<close> and \<open>key_iter\<close> of lookup,
    update and iteration. \<open>Var_Hash_Map\<close>, \<open>Array_Map\<close>, \<open>Percpu_Array\<close>, \<open>Percpu_Hash\<close>, \<open>Open_Hash\<close> and
    \<open>Fd_Array\<close> interpret them.
  \<^item> \<open>Prime_Search\<close>, \<open>Slot_Probe\<close>, \<open>Open_Hash\<close> and \<open>Fix_Hash_Map\<close>: the size of the table, linear probing on
    slots, the byte buffer that refines it, and the map on top. No operation leaves the buffer, and the
    updates form a map.
  \<^item> \<open>Lru_Hash_Map\<close>: the linked list in the heap refines a list in order of use. \<open>Lpm_Trie\<close>: a lookup
    returns the longest stored prefix. \<open>Bloom_Filter\<close>: no false negatives, and peek is exact for the
    bits that were set. \<open>Stack_Trace_Map\<close>: stored traces are read back.
  \<^item> \<open>Ringbuf\<close> and \<open>Perf_Event\<close>: records leave the rings in order and unchanged; and where that fails, a
    sample whose header lies at the end of the ring, and an event larger than the ring.

  \<^bold>\<open>Shared memory.\<close>
  \<^item> \<open>Map_Handler\<close> (\<open>handler/map_handler.cpp\<close>): the dispatch on map types and the named objects of the
    segment; creating and freeing a map leaves the segment as it was.
  \<^item> \<open>Handler_Manager\<close> (\<open>handler/handler_manager.cpp\<close>): the table; its invariants are proved once in the
    locale \<open>manager_inv\<close>.
  \<^item> \<open>Bpftime_Shm\<close> (\<open>bpftime_shm_internal.cpp\<close>): the operations as values of \<open>shm_op\<close> with the step function
    \<open>shm_step\<close>. The locale \<open>shm_inv\<close> gives the invariants of all sequences of them: links have live programs, maps have their own objects.
  \<^item> \<open>Bpftime_Api\<close> (\<open>bpftime_shm.cpp\<close>): ring buffers, software events and \<open>bpftime_epoll_wait\<close>, a
    \<open>partial_function\<close> over a clock; it is shown to return when an event is ready and when time runs out.

  \<^bold>\<open>Syscall server\<close> (\<open>runtime/syscall-server/\<close>).
  \<^item> \<open>Syscall_Context\<close> (\<open>syscall_context.cpp\<close>, \<open>syscall_server_utils.cpp\<close>): the context as a record, and each
    handler as a function over the operations of \<open>Bpftime_Shm\<close> and \<open>Bpftime_Api\<close>. The original functions are a parameter,
    and the calls of them are recorded in the state in their order.
  \<^item> \<open>Syscall_Server\<close> (\<open>syscall_server_main.cpp\<close>): the entry points and the reachable states of a server. \<open>server_ops\<close>
    gives the operations of the runtime that a call stands for, and a call that is handled leaves in the shared memory what
    exactly these operations make of it, which carries the invariant of links over to every reachable
    state. A loaded program calls registered helpers, mocked files are read back, and with mocking
    off the server is transparent, results included; and the calls for which that fails, and the second link of a perf event.
    The tables of the verifier are those of the calling thread, as in the code.

  \<^bold>\<open>Attaching and running.\<close>
  \<^item> \<open>Attach_Base\<close>: the contract \<open>attach_manager\<close> of \<open>base_attach_impl\<close>, interpreted by the simple
    implementation, \<open>Syscall_Trace\<close>, \<open>Frida_Attach\<close> and the sum of them in \<open>Attach_Ctx\<close>. What a system call
    or a call of a hooked function runs is what is attached. The override callback that \<open>Frida_Attach\<close> leaves in the thread is
    part of its state, and a probe that uses a stale one is shown to write to a destroyed entry.
  \<^item> \<open>Decimal_Text\<close>, \<open>Bpf_Prog\<close>, \<open>Attach_Ctx\<close> (\<open>attach/bpf_attach_ctx.cpp\<close>) and \<open>Agent\<close> (\<open>runtime/agent/agent.cpp\<close>):
    from the table of handlers, which may change between two readings, to attached programs and back. Attached programs can run, links on
    tracepoints are attached, detaching leaves nothing behind and can be undone.
  \<^item> \<open>Bpf_Helper\<close> (\<open>bpf_helper.cpp\<close>): a sample put out by a program reaches the callback of the next poll;
    the checksum and the packet helpers.

  \<^bold>\<open>Verifier\<close> (\<open>bpftime-verifier/ebpf-verifier/src/\<close>).
  \<^item> \<open>Ebpf_Asm\<close>, \<open>Ebpf_Typing\<close>, \<open>Ebpf_Roundtrip\<close> (\<open>asm_unmarshal.cpp\<close>, \<open>asm_marshal.cpp\<close>): decoded programs are
    typed, and encoding and decoding are inverse on the forms the encoder writes.
  \<^item> \<open>Asm_Cfg\<close>, \<open>Asm_Assert\<close>, \<open>Asm_Nondet\<close> (\<open>asm_cfg.cpp\<close>, \<open>assertions.cpp\<close>, \<open>crab/cfg.hpp\<close>): the graph of a program, the
    assertions for its instructions and the nondeterministic version, composed by \<open>prepare_cfg\<close>, have exactly the control flow of the program; and the programs whose jump into the middle of a
    load leaves the graph. Labels are an instance of \<open>linorder\<close> with the order of \<open>label_t\<close>.
  \<^item> \<open>Bpftime_Verifier\<close> (\<open>bpftime-verifier/src/\<close> and the start of the syscall server): the tables and the platform
    of the verifier. The calls of an accepted program are to helpers that the agent registers when it loads
    the program with the same configuration (\<open>Bpf_Prog\<close>).
  \<^item> \<open>Crab_Number\<close>, \<open>Crab_Interval\<close>, \<open>Crab_Soundness\<close>, \<open>Crab_Bits\<close> (\<open>crab_utils/bignums.hpp\<close>, \<open>crab/interval.hpp\<close>,
    \<open>crab/interval.cpp\<close>): the contract \<open>abs_binop\<close> of a sound operation, interpreted by the operations of
    the domain, when the remainder by a constant is sound, and counterexamples for the signed division and the arithmetic shift. The conversion
    of Boost to \<open>uint64_t\<close> is the parameter \<open>conv\<close>, which may raise for a number out of range.

  \<^bold>\<open>Bounds and fuel.\<close> Most loops are structural or have a measure. The probing loop of the hash table
  has the number of buckets as fuel, and \<open>find_slot_enough_fuel\<close> shows that it never runs out, because
  the loop goes around at most once. The loops that may run forever are \<open>partial_function\<close>s: the rounding
  of the bloom filter, which \<open>bf_round_up_optimal\<close> shows to return for every size the constructor
  computes; \<open>rb_fetch_loop\<close>, which returns on every reachable ring (\<open>rb_fetch_loop_delivers\<close>); and the loop
  of \<open>bpftime_epoll_wait\<close>, which returns when an event is ready and when the time is up. Size hypotheses are
  those of the types: element counts below 2^31 or 2^32 where the code computes in 32 bits, programs of
  at most 65536 slots because the decoder counts in \<open>pc_t\<close>.

  \<^bold>\<open>Correspondence.\<close> Definitions keep the names of the functions, with a prefix where several classes
  have a method of the same name. Auxiliary definitions for a part of a function, such as the body of
  a loop or an offset, belong to the lines of the function they are used in.

  \<^bold>\<open>Not modelled.\<close>
  \<^item> The rest of the abstract interpreter (\<open>crab/split_dbm.cpp\<close>, \<open>ebpf_domain.cpp\<close>, \<open>array_domain.cpp\<close>,
    the fixpoint iterator, the checks of the assertions): its state is a zone domain over a graph library, and the
    soundness of the transfer functions needs a concrete semantics of whole programs. Its verdict is a
    parameter of \<open>verify_ebpf_program\<close>, and the theorems there hold for every verdict.
  \<^item> The parsers and printers of the verifier, the benchmarks, the examples and the command line tools:
    input and output around the functions modelled here.
  \<^item> The virtual machines (\<open>vm/\<close>): the compiler is LLVM, the interpreter a separate project; a program
    runs through the parameter \<open>vm_ops\<close>.
  \<^item> The daemon: kernel tracing. Of the syscall server, the logger, the resolution of the original functions,
    the environment variables for child processes, and what depends on CUDA.
  \<^item> The maps shared with the kernel (\<open>bpf_map/shared/\<close>): each operation is a system call on the kernel's
    map; they are parameters of \<open>Map_Handler\<close>. The GPU maps and \<open>nv_attach_impl\<close> need CUDA and are not
    compiled in.
  \<^item> \<open>text_segment_transformer\<close>: rewriting of machine code. Reading and writing configurations and dumps
    (\<open>bpftime_config.cpp\<close>, \<open>bpftime_shm_json.cpp\<close>), \<open>ufunc.cpp\<close> and \<open>platform_utils.cpp\<close>: environment
    variables, JSON and foreign calls.
\<close>

end
